(* ===== verification/Prelude.thy ===== *)
theory Prelude
  imports Main "HOL-Library.Word"
begin

text \<open>
  Shared vocabulary of the development.

  The results of the Rust code: \<open>Ok v\<close> and \<open>Err e\<close> are the two arms of \<open>Result<T, Error>\<close>;
  \<open>Panic\<close> is a Rust panic (a slice or an index out of range, an \<open>unwrap\<close> of \<open>None\<close>, a failed
  \<open>assert!\<close>), so that "this never panics" is a statement about the model and not an assumption of it.
  Machine integers are \<open>'a word\<close>; \<open>usize\<close> values (buffer lengths and offsets) are \<open>nat\<close>, with
  the 64-bit bound written out in the checked operations. The theory also holds the loops of the code
  as folds with an early return.
\<close>

unbundle bit_operations_syntax

type_synonym u8 = "8 word"
type_synonym u16 = "16 word"
type_synonym u32 = "32 word"
type_synonym u64 = "64 word"
type_synonym bytes = "u8 list"

named_theorems outcome_simps \<open>rewriting of results and their sequencing\<close>
named_theorems bytes_simps \<open>reading windows of byte buffers\<close>

section \<open>Results\<close>

datatype ('e, 'a) outcome = Ok 'a | Err 'e | Panic

fun and_then :: "('e, 'a) outcome \<Rightarrow> ('a \<Rightarrow> ('e, 'b) outcome) \<Rightarrow> ('e, 'b) outcome" where
  "and_then (Ok a) f = f a"
| "and_then (Err e) f = Err e"
| "and_then Panic f = Panic"

fun ok_or :: "'a option \<Rightarrow> 'e \<Rightarrow> ('e, 'a) outcome" where
  "ok_or (Some a) e = Ok a"
| "ok_or None e = Err e"

fun unwrap :: "'a option \<Rightarrow> ('e, 'a) outcome" where
  "unwrap (Some a) = Ok a"
| "unwrap None = Panic"

fun is_ok :: "('e, 'a) outcome \<Rightarrow> bool" where
  "is_ok (Ok a) = True"
| "is_ok (Err e) = False"
| "is_ok Panic = False"

lemma and_then_eq_Ok [outcome_simps]:
  "and_then r f = Ok b \<longleftrightarrow> (\<exists>a. r = Ok a \<and> f a = Ok b)"
  by (cases r) auto

lemma and_then_eq_Err:
  "and_then r f = Err e \<longleftrightarrow> r = Err e \<or> (\<exists>a. r = Ok a \<and> f a = Err e)"
  by (cases r) auto

lemma and_then_eq_Panic [outcome_simps]:
  "and_then r f = Panic \<longleftrightarrow> r = Panic \<or> (\<exists>a. r = Ok a \<and> f a = Panic)"
  by (cases r) auto

lemma and_then_assoc: "and_then (and_then r f) g = and_then r (\<lambda>a. and_then (f a) g)"
  by (cases r) auto

lemma ok_or_eq_Ok [outcome_simps]: "ok_or x e = Ok a \<longleftrightarrow> x = Some a"
  by (cases x) auto

lemma ok_or_not_Panic [outcome_simps]: "ok_or x e \<noteq> Panic"
  by (cases x) auto

lemma unwrap_eq_Ok [outcome_simps]: "unwrap x = Ok a \<longleftrightarrow> x = Some a"
  by (cases x) auto

lemma if_eq_Ok [outcome_simps]:
  "(if c then Err e else r) = Ok b \<longleftrightarrow> \<not> c \<and> r = Ok b"
  by auto

lemma if_eq_Panic [outcome_simps]:
  "(if c then Err e else r) = Panic \<longleftrightarrow> \<not> c \<and> r = Panic"
  by auto

lemma is_ok_iff [outcome_simps]: "is_ok r \<longleftrightarrow> (\<exists>a. r = Ok a)"
  by (cases r) auto

text \<open>The loops of the code: \<open>for x in xs\<close> with an early return, with and without results.\<close>

fun for_each :: "('x \<Rightarrow> 's \<Rightarrow> ('e, 's) outcome) \<Rightarrow> 'x list \<Rightarrow> 's \<Rightarrow> ('e, 's) outcome" where
  "for_each f [] s = Ok s"
| "for_each f (x # xs) s = and_then (f x s) (for_each f xs)"

fun collect :: "('x \<Rightarrow> ('e, 'a) outcome) \<Rightarrow> 'x list \<Rightarrow> ('e, 'a list) outcome" where
  "collect f [] = Ok []"
| "collect f (x # xs) = and_then (f x) (\<lambda>a. and_then (collect f xs) (\<lambda>as. Ok (a # as)))"

lemma for_each_append:
  "for_each f (xs @ ys) s = and_then (for_each f xs s) (for_each f ys)"
proof (induction xs arbitrary: s)
  case Nil
  show ?case by simp
next
  case (Cons x xs)
  show ?case by (cases "f x s") (simp_all add: Cons.IH)
qed

lemma for_each_not_Panic:
  assumes "\<And>x s. x \<in> set xs \<Longrightarrow> P s \<Longrightarrow> f x s \<noteq> Panic"
    and "\<And>x s t. x \<in> set xs \<Longrightarrow> P s \<Longrightarrow> f x s = Ok t \<Longrightarrow> P t"
    and "P s"
  shows "for_each f xs s \<noteq> Panic"
  using assms
proof (induction xs arbitrary: s)
  case Nil
  show ?case by simp
next
  case (Cons x xs)
  show ?case
  proof (cases "f x s")
    case (Ok t)
    have "P t" using Cons.prems(2)[of x s t] Cons.prems(3) Ok by simp
    then have "for_each f xs t \<noteq> Panic"
      using Cons.IH Cons.prems(1,2) by (metis list.set_intros(2))
    with Ok show ?thesis by simp
  next
    case (Err e)
    then show ?thesis by simp
  next
    case Panic
    with Cons.prems(1)[of x s] Cons.prems(3) show ?thesis by simp
  qed
qed

text \<open>
  The rule for loops: an invariant indexed by the elements already handled.
\<close>

lemma for_each_invariant:
  assumes "for_each f xs s = Ok t" and "I [] s"
    and "\<And>ys y zs u v. xs = ys @ y # zs \<Longrightarrow> I ys u \<Longrightarrow> f y u = Ok v \<Longrightarrow> I (ys @ [y]) v"
  shows "I xs t"
proof -
  have "I (pre @ xs) t"
    if "for_each f xs s = Ok t" and "I pre s"
      and "\<And>ys y zs u v. xs = ys @ y # zs \<Longrightarrow> I (pre @ ys) u \<Longrightarrow> f y u = Ok v
        \<Longrightarrow> I (pre @ ys @ [y]) v"
    for pre xs s
    using that
  proof (induction xs arbitrary: s pre)
    case Nil
    then show ?case by simp
  next
    case (Cons x xs)
    from Cons.prems(1) obtain u where u: "f x s = Ok u" and rest: "for_each f xs u = Ok t"
      by (auto simp: outcome_simps)
    have inv: "I (pre @ [x]) u"
      using Cons.prems(3)[of "[]" x xs s u] Cons.prems(2) u by simp
    have "I ((pre @ [x]) @ xs) t"
    proof (rule Cons.IH[OF rest inv])
      fix ys y zs u v
      assume "xs = ys @ y # zs" "I ((pre @ [x]) @ ys) u" "f y u = Ok v"
      then show "I ((pre @ [x]) @ ys @ [y]) v"
        using Cons.prems(3)[of "x # ys" y zs u v] by simp
    qed
    then show ?case by simp
  qed
  from this[of xs s "[]"] assms show ?thesis by simp
qed

lemma collect_Ok_map:
  "(\<And>x. x \<in> set xs \<Longrightarrow> f x = Ok (g x)) \<Longrightarrow> collect f xs = Ok (map g xs)"
  by (induction xs) auto

lemma collect_eq_Ok:
  "collect f xs = Ok ys \<longleftrightarrow> list_all2 (\<lambda>x y. f x = Ok y) xs ys"
proof (induction xs arbitrary: ys)
  case Nil
  show ?case by auto
next
  case (Cons x xs)
  show ?case by (cases ys) (auto simp: outcome_simps Cons.IH)
qed

lemma collect_Ok_length: "collect f xs = Ok ys \<Longrightarrow> length ys = length xs"
  by (auto simp: collect_eq_Ok dest: list_all2_lengthD)

lemma collect_Ok_nth: "collect f xs = Ok ys \<Longrightarrow> i < length xs \<Longrightarrow> f (xs ! i) = Ok (ys ! i)"
  by (auto simp: collect_eq_Ok list_all2_conv_all_nth)

lemma collect_not_Panic:
  "(\<And>x. x \<in> set xs \<Longrightarrow> f x \<noteq> Panic) \<Longrightarrow> collect f xs \<noteq> Panic"
  by (induction xs) (auto simp: outcome_simps)

text \<open>A loop over the indices of a list is the loop over its elements.\<close>

lemma for_each_index:
  assumes "length xs = n" "\<And>i s. i < n \<Longrightarrow> g i s = f (xs ! i) s"
  shows "for_each g [0..<n] s = for_each f xs s"
proof -
  have map: "for_each g (map h is) s = for_each (\<lambda>i. g (h i)) is s" for g :: "nat \<Rightarrow> 's \<Rightarrow> ('e, 's) outcome"
    and h :: "nat \<Rightarrow> nat" and "is" s
    by (induction "is" arbitrary: s) (auto intro!: arg_cong2[where f=and_then])
  show ?thesis
    using assms
  proof (induction xs arbitrary: n g s)
    case Nil
    then show ?case by simp
  next
    case (Cons x xs)
    then obtain m where n: "n = Suc m" by (cases n) auto
    have "[0..<n] = 0 # map Suc [0..<m]" by (simp only: n map_Suc_upt upt_conv_Cons zero_less_Suc)
    moreover have "for_each (\<lambda>i. g (Suc i)) [0..<m] u = for_each f xs u" for u
      using Cons.prems n by (intro Cons.IH) auto
    moreover have "g 0 s = f x s" for s using Cons.prems(2)[of 0 s] n by simp
    ultimately show ?case
      by (auto simp: map intro!: arg_cong2[where f=and_then])
  qed
qed

lemma collect_upt_eq_Ok:
  "collect f [0..<n] = Ok ys \<longleftrightarrow> length ys = n \<and> (\<forall>i < n. f i = Ok (ys ! i))"
  by (auto simp: collect_eq_Ok list_all2_conv_all_nth)

lemma for_each_Ok_all:
  "for_each f xs s = Ok t \<Longrightarrow> x \<in> set xs \<Longrightarrow> \<exists>u v. f x u = Ok v"
  by (induction xs arbitrary: s) (auto simp: outcome_simps)

lemma for_each_unit_Ok:
  "for_each f xs () = Ok u \<longleftrightarrow> (\<forall>x \<in> set xs. f x () = Ok ())"
  by (induction xs) (auto simp: outcome_simps)

end
