(* ===== verification/Machine.thy ===== *)
theory Machine
  imports Prelude
begin

text \<open>
  Rust's integer operations on machine words: checked and widening arithmetic, rounding up to a
  power of two, \<open>leading_zeros\<close> and \<open>ilog2\<close>, each with the lemma that reads it on \<open>nat\<close>.
\<close>

named_theorems checked_simps \<open>checked arithmetic read on natural numbers\<close>

lemma unat_less_2p: "unat (w :: 'a::len word) < 2 ^ LENGTH('a)"
  by (rule unsigned_less)

definition checked_add :: "'a::len word \<Rightarrow> 'a word \<Rightarrow> 'a word option" where
  "checked_add a b = (if unat a + unat b < 2 ^ LENGTH('a) then Some (a + b) else None)"

definition checked_mul :: "'a::len word \<Rightarrow> 'a word \<Rightarrow> 'a word option" where
  "checked_mul a b = (if unat a * unat b < 2 ^ LENGTH('a) then Some (a * b) else None)"

definition checked_sub :: "'a::len word \<Rightarrow> 'a word \<Rightarrow> 'a word option" where
  "checked_sub a b = (if b \<le> a then Some (a - b) else None)"

text \<open>Saturating arithmetic on \<open>u64\<close>.\<close>

definition sat_add :: "u64 \<Rightarrow> u64 \<Rightarrow> u64" where
  "sat_add a b = (if uint a + uint b < 2 ^ 64 then a + b else - 1)"

definition sat_sub :: "u64 \<Rightarrow> u64 \<Rightarrow> u64" where
  "sat_sub a b = (if b \<le> a then a - b else 0)"

lemma unat_add_lt:
  "unat (a :: 'a::len word) + unat b < 2 ^ LENGTH('a) \<Longrightarrow> unat (a + b) = unat a + unat b"
  by (simp add: unat_word_ariths)

lemma unat_mult_lt:
  "unat (a :: 'a::len word) * unat b < 2 ^ LENGTH('a) \<Longrightarrow> unat (a * b) = unat a * unat b"
  by (simp add: unat_word_ariths)

lemma unat_sub_le: "b \<le> a \<Longrightarrow> unat (a - b) = unat a - unat (b :: 'a::len word)"
  by (rule unat_sub)

lemma checked_add_eq_Some [checked_simps]:
  "checked_add a b = Some c \<longleftrightarrow> unat a + unat b < 2 ^ LENGTH('a) \<and> c = a + (b :: 'a::len word)"
  by (auto simp: checked_add_def)

lemma checked_add_eq_None [checked_simps]:
  "checked_add a b = None \<longleftrightarrow> 2 ^ LENGTH('a) \<le> unat a + unat (b :: 'a::len word)"
  by (auto simp: checked_add_def)

lemma checked_mul_eq_Some [checked_simps]:
  "checked_mul a b = Some c \<longleftrightarrow> unat a * unat b < 2 ^ LENGTH('a) \<and> c = a * (b :: 'a::len word)"
  by (auto simp: checked_mul_def)

lemma checked_mul_eq_None [checked_simps]:
  "checked_mul a b = None \<longleftrightarrow> 2 ^ LENGTH('a) \<le> unat a * unat (b :: 'a::len word)"
  by (auto simp: checked_mul_def)

lemma checked_sub_eq_Some [checked_simps]:
  "checked_sub a b = Some c \<longleftrightarrow> b \<le> a \<and> c = a - (b :: 'a::len word)"
  by (auto simp: checked_sub_def)

lemma checked_add_unat: "checked_add a b = Some c \<Longrightarrow> unat c = unat a + unat b"
  by (auto simp: checked_simps unat_add_lt)

lemma checked_mul_unat: "checked_mul a b = Some c \<Longrightarrow> unat c = unat a * unat b"
  by (auto simp: checked_simps unat_mult_lt)

lemma checked_add_nat:
  assumes "unat a = m" "unat b = n" "m + n < 2 ^ LENGTH('a)"
  shows "checked_add a b = Some (a + b :: 'a::len word)" "unat (a + b) = m + n"
  using assms by (simp_all add: checked_add_def unat_add_lt)

lemma checked_mul_nat:
  assumes "unat a = m" "unat b = n" "m * n < 2 ^ LENGTH('a)"
  shows "checked_mul a b = Some (a * b :: 'a::len word)" "unat (a * b) = m * n"
  using assms by (simp_all add: checked_mul_def unat_mult_lt)

text \<open>\<open>u64::from(x)\<close> for a 32-bit \<open>x\<close>, and the products that cannot overflow.\<close>

definition u64_from :: "u32 \<Rightarrow> u64" where
  "u64_from x = ucast x"

lemma unat_u64_from [simp]: "unat (u64_from x) = unat x"
  using unat_less_2p[of x] by (simp add: u64_from_def unsigned_ucast_eq take_bit_nat_eq_self_iff)

lemma u64_from_eq_iff [simp]: "u64_from x = u64_from y \<longleftrightarrow> x = y"
  by (metis unat_u64_from word_unat_eq_iff)

lemma unat_u32_less: "unat (x :: u32) < 4294967296"
  using unat_less_2p[of x] by simp

lemma unat_u64_less: "unat (x :: u64) < 18446744073709551616"
  using unat_less_2p[of x] by simp

lemma unat_u64_from_mult [simp]: "unat (u64_from x * u64_from y) = unat x * unat y"
proof -
  have "unat x * unat y < 4294967296 * 4294967296"
    using unat_u32_less[of x] unat_u32_less[of y] by (intro mult_strict_mono) auto
  then show ?thesis by (simp add: unat_mult_lt)
qed

text \<open>\<open>u32::try_from(x)\<close> for a 64-bit \<open>x\<close>.\<close>

definition u32_try_from :: "u64 \<Rightarrow> u32 option" where
  "u32_try_from x = (if unat x < 2 ^ 32 then Some (ucast x) else None)"

lemma u32_try_from_eq_Some [checked_simps]:
  "u32_try_from x = Some y \<longleftrightarrow> unat x < 2 ^ 32 \<and> y = ucast x"
  by (auto simp: u32_try_from_def)

lemma unat_ucast_u32: "unat (x :: u64) < 2 ^ 32 \<Longrightarrow> unat (ucast x :: u32) = unat x"
  by (simp add: unsigned_ucast_eq take_bit_nat_eq_self)

lemma unat_u8_u32: "unat (x :: u8) < 4294967296"
  using unat_less_2p[of x] by simp

section \<open>Rounding up to a power of two\<close>

definition round_up :: "nat \<Rightarrow> nat \<Rightarrow> nat" where
  "round_up a v = (v + (a - 1)) div a * a"

lemma round_up_ge: "0 < a \<Longrightarrow> v \<le> round_up a v"
proof -
  assume a: "0 < a"
  have "(v + (a - 1)) div a * a = v + (a - 1) - (v + (a - 1)) mod a"
    by (metis minus_mod_eq_div_mult)
  moreover have "(v + (a - 1)) mod a \<le> a - 1" using a by (metis Suc_pred' mod_less_divisor not_less_eq_eq not_le)
  ultimately show "v \<le> round_up a v" by (simp add: round_up_def)
qed

lemma round_up_less: "0 < a \<Longrightarrow> round_up a v < v + a"
  unfolding round_up_def
  by (metis Suc_pred' add_Suc_right div_times_less_eq_dividend le_imp_less_Suc)

lemma dvd_round_up [simp]: "a dvd round_up a v"
  by (simp add: round_up_def)

lemma and_not_mask_eq: "w AND NOT (mask k) = push_bit k (drop_bit k (w :: 'a::len word))"
  by (rule bit_word_eqI) (auto simp: bit_simps)

lemma unat_and_not_mask:
  "unat (w AND NOT (mask k) :: 'a::len word) = unat w div 2 ^ k * 2 ^ k"
proof -
  have "unat w div 2 ^ k * 2 ^ k < 2 ^ LENGTH('a)"
    using unat_less_2p[of w] div_times_less_eq_dividend[of "unat w" "2 ^ k"] by linarith
  moreover have "unat (w AND NOT (mask k)) =
      take_bit LENGTH('a) (push_bit k (drop_bit k (unat w)))"
    by (simp only: and_not_mask_eq unsigned_push_bit_eq unat_drop_bit_eq)
  ultimately show ?thesis
    by (simp add: push_bit_eq_mult drop_bit_eq_div take_bit_nat_eq_self)
qed

lemma unat_mask: "k \<le> LENGTH('a) \<Longrightarrow> unat (mask k :: 'a::len word) = 2 ^ k - 1"
proof -
  assume "k \<le> LENGTH('a)"
  then have "uint (mask k :: 'a word) = mask k" by (simp add: uint_mask_eq min_def)
  then show ?thesis by (metis mask_nat_def nat_uint_eq nat_mask_eq)
qed

text \<open>\<open>(v + (a - 1)) & !(a - 1)\<close> for a power of two \<open>a\<close> rounds up, where the sum does not wrap.\<close>

lemma unat_align_mask:
  assumes "unat (v :: 'a::len word) + (2 ^ k - 1) < 2 ^ LENGTH('a)"
  shows "unat ((v + mask k) AND NOT (mask k)) = round_up (2 ^ k) (unat v)"
proof -
  have "2 ^ k \<le> (2 :: nat) ^ LENGTH('a)"
    using assms by linarith
  then have "k \<le> LENGTH('a)" by simp
  then have "unat (mask k :: 'a word) = 2 ^ k - 1" by (rule unat_mask)
  then show ?thesis
    using assms by (simp add: unat_and_not_mask unat_add_lt round_up_def)
qed

lemma unat_pos_iff: "0 < unat w \<longleftrightarrow> w \<noteq> 0"
  by (simp add: word_unat_eq_iff)

lemma unat_max: "unat (max a b :: 'a::len word) = max (unat a) (unat b)"
  by (simp add: max_def word_le_nat_alt)

lemma unat_min: "unat (min a b :: 'a::len word) = min (unat a) (unat b)"
  by (simp add: min_def word_le_nat_alt)

lemma unat_drop_bit: "unat (drop_bit n w :: 'a::len word) = unat w div 2 ^ n"
  unfolding unat_drop_bit_eq by (rule drop_bit_eq_div)

lemma unat_push_bit:
  "unat w * 2 ^ n < 2 ^ LENGTH('a) \<Longrightarrow> unat (push_bit n w :: 'a::len word) = unat w * 2 ^ n"
  unfolding unsigned_push_bit_eq push_bit_eq_mult[of n "unat w"] by (rule take_bit_nat_eq_self)

lemma unat_of_nat_lt: "n < 2 ^ LENGTH('a) \<Longrightarrow> unat (word_of_nat n :: 'a::len word) = n"
  by (simp add: unat_of_nat)

lemma word_of_nat_div:
  assumes "a < 2 ^ LENGTH('a)" "b < 2 ^ LENGTH('a)"
  shows "(word_of_nat a :: 'a::len word) div word_of_nat b = word_of_nat (a div b)"
proof -
  have "a div b < 2 ^ LENGTH('a)" using assms(1) div_le_dividend[of a b] by linarith
  with assms show ?thesis by (simp add: word_unat_eq_iff unat_div_distrib unat_of_nat)
qed

lemma word_of_nat_mod:
  assumes "a < 2 ^ LENGTH('a)" "b < 2 ^ LENGTH('a)"
  shows "(word_of_nat a :: 'a::len word) mod word_of_nat b = word_of_nat (a mod b)"
proof -
  have "a mod b < 2 ^ LENGTH('a)" using assms(1) mod_less_eq_dividend[of a b] by linarith
  with assms show ?thesis by (simp add: word_unat_eq_iff unat_mod_distrib unat_of_nat)
qed

lemma word_of_nat_div_numeral:
  "a < 2 ^ LENGTH('a) \<Longrightarrow> numeral n < (2 :: nat) ^ LENGTH('a) \<Longrightarrow>
     (word_of_nat a :: 'a::len word) div numeral n = word_of_nat (a div numeral n)"
  using word_of_nat_div[of a "numeral n"] by simp

lemma word_of_nat_mod_numeral:
  "a < 2 ^ LENGTH('a) \<Longrightarrow> numeral n < (2 :: nat) ^ LENGTH('a) \<Longrightarrow>
     (word_of_nat a :: 'a::len word) mod numeral n = word_of_nat (a mod numeral n)"
  using word_of_nat_mod[of a "numeral n"] by simp

lemma u64_from_nat: "u64_from x = word_of_nat (unat x)"
proof -
  have "unat x < 2 ^ LENGTH(64)" using unat_u32_less[of x] by simp
  then have "unat (word_of_nat (unat x) :: u64) = unat x" by (rule unat_of_nat_lt)
  then show ?thesis by (simp only: word_unat_eq_iff unat_u64_from)
qed

lemma div_ceil_8: "(n + 7) div 8 = n div 8 + (if n mod 8 = 0 then 0 else 1 :: nat)"
proof -
  have "(n + 7) div 8 = (8 * (n div 8) + (n mod 8 + 7)) div 8" by simp
  also have "\<dots> = n div 8 + (n mod 8 + 7) div 8" by (rule div_mult_self4) simp
  also have "(n mod 8 + 7) div 8 = (if n mod 8 = 0 then 0 else 1)"
    using mod_less_divisor[of 8 n] by (auto simp: div_nat_eqI)
  finally show ?thesis .
qed

section \<open>Bit lengths\<close>

fun bit_length :: "nat \<Rightarrow> nat" where
  "bit_length n = (if n = 0 then 0 else Suc (bit_length (n div 2)))"

declare bit_length.simps [simp del]

text \<open>The number of significant bits: \<open>2 ^ (bit_length n - 1) <= n < 2 ^ bit_length n\<close>.\<close>

lemma bit_length_less: "n < 2 ^ bit_length n"
proof (induction n rule: bit_length.induct)
  case (1 n)
  then show ?case by (subst bit_length.simps) (auto split: if_splits)
qed

lemma bit_length_ge: "0 < n \<Longrightarrow> 2 ^ (bit_length n - 1) \<le> n"
proof (induction n rule: bit_length.induct)
  case (1 n)
  show ?case
  proof (cases "n div 2 = 0")
    case True
    with "1.prems" have "n = 1" by simp
    then show ?thesis by (simp add: bit_length.simps)
  next
    case False
    with 1 have "2 ^ (bit_length (n div 2) - 1) \<le> n div 2" by simp
    moreover have "bit_length n = Suc (bit_length (n div 2))"
      using "1.prems" by (subst bit_length.simps) simp
    moreover have "0 < bit_length (n div 2)" using False by (subst bit_length.simps) simp
    ultimately show ?thesis
      by (cases "bit_length (n div 2)") auto
  qed
qed

lemma bit_length_0 [simp]: "bit_length 0 = 0"
  by (simp add: bit_length.simps)

lemma bit_length_pos: "0 < n \<Longrightarrow> 0 < bit_length n"
  by (subst bit_length.simps) simp

lemma bit_length_le_iff: "bit_length n \<le> k \<longleftrightarrow> n < 2 ^ k"
proof
  assume "bit_length n \<le> k"
  then have "(2 :: nat) ^ bit_length n \<le> 2 ^ k" by simp
  with bit_length_less[of n] show "n < 2 ^ k" by linarith
next
  assume lt: "n < 2 ^ k"
  show "bit_length n \<le> k"
  proof (cases "n = 0")
    case False
    then have "2 ^ (bit_length n - 1) < (2 :: nat) ^ k" using lt bit_length_ge[of n] by linarith
    then have "bit_length n - 1 < k" by simp
    then show ?thesis by linarith
  qed simp
qed

text \<open>Rust's \<open>u32::leading_zeros\<close> and \<open>u32::ilog2\<close>; the latter panics at 0, here \<open>None\<close>.\<close>

definition leading_zeros :: "u32 \<Rightarrow> nat" where
  "leading_zeros x = 32 - bit_length (unat x)"

definition ilog2 :: "u32 \<Rightarrow> nat option" where
  "ilog2 x = (if x = 0 then None else Some (bit_length (unat x) - 1))"

lemma bit_length_u32: "bit_length (unat (x :: u32)) \<le> 32"
  using unat_less_2p[of x] by (simp add: bit_length_le_iff)

section \<open>Low nibbles\<close>

lemma bit_15: "bit (15 :: 'a::len word) n \<longleftrightarrow> n < 4 \<and> n < LENGTH('a)"
proof -
  have "(15 :: 'a word) = mask 4" by (simp add: mask_eq_exp_minus_1)
  then show ?thesis by (simp only: bit_mask_iff) (auto simp: bit_simps)
qed

lemma four_le_eight: "(4 :: nat) \<le> 8"
  by simp

lemma low_nibble_iff:
  assumes "base AND 15 = 0" "y \<le> (4 :: u8)"
  shows "modifier = base OR ucast y \<longleftrightarrow>
    (modifier :: u64) AND NOT 15 = base \<and> (ucast (modifier AND 15) :: u8) = y"
proof -
  have "y < 2 ^ 4" using assms(2) by (auto simp: word_le_nat_alt word_less_nat_alt)
  then have y: "take_bit 4 y = y" by (simp add: word_unat_eq_iff unsigned_take_bit_eq take_bit_nat_eq_self word_less_nat_alt)
  then have yb: "bit y n \<Longrightarrow> n < 4" for n by (metis bit_take_bit_iff)
  have b15: "bit (15 :: u64) n \<longleftrightarrow> n < 4" for n using bit_15[of n, where 'a=64] by auto
  have bb: "\<not> bit base n" if "n < 4" for n
  proof -
    have "\<not> bit (base AND 15) n" by (simp add: assms(1))
    then show ?thesis using that by (simp only: bit_and_iff bit_15) simp
  qed
  show ?thesis
    unfolding bit_eq_iff bit_or_iff bit_and_iff bit_not_iff bit_unsigned_iff b15 using yb bb
    by (auto 6 0 dest: bit_imp_le_length) (metis order.strict_trans2 less_imp_le four_le_eight)+
qed

section \<open>Bit fields\<close>

text \<open>The \<open>n\<close> bits from bit \<open>k\<close> of a word, as a number.\<close>

definition bits_of :: "nat \<Rightarrow> nat \<Rightarrow> 'a::len word \<Rightarrow> nat" where
  "bits_of k n w = unat (take_bit n (drop_bit k w))"

lemma bits_of_nat: "bits_of k n w = unat w div 2 ^ k mod 2 ^ n"
proof -
  have "unat (take_bit n (drop_bit k w)) = take_bit n (unat (drop_bit k w))"
    by (rule unsigned_take_bit_eq)
  then show ?thesis unfolding bits_of_def unat_drop_bit by (simp only: take_bit_eq_mod)
qed

named_theorems field_simps_bits \<open>reading fields of disjunctions of shifted values\<close>

lemma bits_of_or [field_simps_bits]: "bits_of k n (a OR b) = bits_of k n a OR bits_of k n b"
  by (simp add: bits_of_def drop_bit_or take_bit_or unsigned_or_eq)

lemma bits_of_and [field_simps_bits]: "bits_of k n (a AND b) = bits_of k n a AND bits_of k n b"
  by (simp add: bits_of_def drop_bit_and take_bit_and unsigned_and_eq)

lemma bits_of_const [field_simps_bits]:
  "bits_of k n (numeral v :: 'a::len word) = unat (numeral v :: 'a word) div 2 ^ k mod 2 ^ n"
  "bits_of k n (0 :: 'a::len word) = 0"
  by (simp_all add: bits_of_nat)

lemma bits_of_low [field_simps_bits]: "unat w < 2 ^ k \<Longrightarrow> bits_of k n w = 0"
  by (simp add: bits_of_nat)

lemma bits_of_all [field_simps_bits]: "unat w < 2 ^ n \<Longrightarrow> bits_of 0 n w = unat w"
  by (simp add: bits_of_nat)

lemma bits_of_push_same [field_simps_bits]:
  assumes "unat (w :: 'a::len word) < 2 ^ n" "k + n \<le> LENGTH('a)"
  shows "bits_of k n (push_bit k w) = unat w"
proof -
  have "unat w * 2 ^ k < 2 ^ n * 2 ^ k" using assms(1) by simp
  also have "\<dots> = 2 ^ (k + n)" by (simp add: power_add)
  also have "\<dots> \<le> 2 ^ LENGTH('a)" using assms(2) by (intro power_increasing) auto
  finally have "unat (push_bit k w) = unat w * 2 ^ k" by (rule unat_push_bit)
  then show ?thesis using assms(1) by (simp add: bits_of_nat)
qed

lemma bits_of_push_low [field_simps_bits]:
  assumes "unat (w :: 'a::len word) < 2 ^ m" "j + m \<le> k" "j + m \<le> LENGTH('a)"
  shows "bits_of k n (push_bit j w) = 0"
proof -
  have less: "unat w * 2 ^ j < 2 ^ (j + m)" using assms(1) by (simp add: power_add)
  also have "\<dots> \<le> 2 ^ LENGTH('a)" using assms(3) by (intro power_increasing) auto
  finally have "unat (push_bit j w) = unat w * 2 ^ j" by (rule unat_push_bit)
  moreover have "(2 :: nat) ^ (j + m) \<le> 2 ^ k" using assms(2) by (intro power_increasing) auto
  then have "unat w * 2 ^ j < 2 ^ k" using less by linarith
  ultimately show ?thesis by (simp add: bits_of_nat)
qed

lemma bits_of_push_high [field_simps_bits]:
  "k + n \<le> j \<Longrightarrow> bits_of k n (push_bit j w) = 0"
  unfolding bits_of_def by (simp only: unsigned_eq_0_iff, intro bit_eqI) (auto simp: bit_simps)

section \<open>Lengths and offsets\<close>

text \<open>\<open>checked_add\<close> and \<open>checked_mul\<close> on \<open>usize\<close> (64 bits); the values are numbers.\<close>

definition usize_add :: "nat \<Rightarrow> nat \<Rightarrow> nat option" where
  "usize_add a b = (if a + b < 2 ^ 64 then Some (a + b) else None)"

definition usize_mul :: "nat \<Rightarrow> nat \<Rightarrow> nat option" where
  "usize_mul a b = (if a * b < 2 ^ 64 then Some (a * b) else None)"

end
