(* ===== verification/Opcodes.thy ===== *)
theory Opcodes
  imports Machine
begin

text \<open>
  \<open>shared/maxwell-program-wire/src/opcodes.rs\<close>: the allowlist of computational instructions. The
  \<open>const fn build\<close> is a sequence of calls of \<open>Table::push\<close>; each group of calls is a definition
  here, in the order and with the loops of the code, and \<open>push\<close> computes the entry and checks its
  \<open>assert!\<close>. Bit positions and register counts, small constants of type \<open>u8\<close> and \<open>u32\<close>, are
  numbers.
\<close>

section \<open>Entries\<close>

datatype CbSource = NoCb | Word nat | Double nat

record OpEncoding =
  op_fixed :: u64
  op_mask :: u64
  op_cb :: CbSource
  op_regs :: "(nat \<times> nat) list"
  op_fp64 :: bool
  op_name :: string

definition op_matches :: "OpEncoding \<Rightarrow> u64 \<Rightarrow> bool" where
  "op_matches e instruction \<longleftrightarrow> instruction AND NOT (op_mask e) = op_fixed e"

definition op_bit :: "nat \<Rightarrow> u64" where
  "op_bit i = push_bit i 1"

definition op_range :: "nat \<Rightarrow> nat \<Rightarrow> u64" where
  "op_range start stop = push_bit start (push_bit (stop - start) 1 - 1)"

definition OP_PRED :: u64 where "OP_PRED = op_range 16 20"
definition DST :: u64 where "DST = op_range 0 8"
definition SRC0 :: u64 where "SRC0 = op_range 8 16"
definition REG1 :: u64 where "REG1 = op_range 20 28"
definition REG2 :: u64 where "REG2 = op_range 39 47"
definition IMM20 :: u64 where "IMM20 = op_range 20 39 OR op_bit 56"
definition CB20 :: u64 where "CB20 = op_range 20 39"
definition IMM32 :: u64 where "IMM32 = op_range 20 52"

definition W_DST :: "(nat \<times> nat) list" where "W_DST = [(0, 1)]"
definition W_UNARY :: "(nat \<times> nat) list" where "W_UNARY = [(0, 1), (20, 1)]"
definition W_S0 :: "(nat \<times> nat) list" where "W_S0 = [(0, 1), (8, 1)]"
definition W_BINARY :: "(nat \<times> nat) list" where "W_BINARY = [(0, 1), (8, 1), (20, 1)]"
definition W_S0_S2 :: "(nat \<times> nat) list" where "W_S0_S2 = [(0, 1), (8, 1), (39, 1)]"
definition W_TERNARY :: "(nat \<times> nat) list" where "W_TERNARY = [(0, 1), (8, 1), (20, 1), (39, 1)]"
definition W_PRED_S0 :: "(nat \<times> nat) list" where "W_PRED_S0 = [(8, 1)]"
definition W_PRED_BINARY :: "(nat \<times> nat) list" where "W_PRED_BINARY = [(8, 1), (20, 1)]"
definition D_S0 :: "(nat \<times> nat) list" where "D_S0 = [(0, 2), (8, 2)]"
definition D_BINARY :: "(nat \<times> nat) list" where "D_BINARY = [(0, 2), (8, 2), (20, 2)]"
definition D_S0_S2 :: "(nat \<times> nat) list" where "D_S0_S2 = [(0, 2), (8, 2), (39, 2)]"
definition D_TERNARY :: "(nat \<times> nat) list" where "D_TERNARY = [(0, 2), (8, 2), (20, 2), (39, 2)]"
definition D_PRED_S0 :: "(nat \<times> nat) list" where "D_PRED_S0 = [(8, 2)]"
definition D_PRED_BINARY :: "(nat \<times> nat) list" where "D_PRED_BINARY = [(8, 2), (20, 2)]"

record Family =
  fam_mask :: u64
  src_mod :: u64
  imm_mask :: u64
  fam_clear :: u64
  fam_set :: u64
  fam_cb :: CbSource
  regs_r :: "(nat \<times> nat) list"
  regs_ic :: "(nat \<times> nat) list"
  fam_fp64 :: bool
  fam_name :: string

definition word_binary :: "string \<Rightarrow> u64 \<Rightarrow> Family" where
  "word_binary name m =
     \<lparr>fam_mask = m OR DST OR SRC0, src_mod = 0, imm_mask = IMM20, fam_clear = 0, fam_set = 0,
      fam_cb = Word 20, regs_r = W_BINARY, regs_ic = W_S0, fam_fp64 = False, fam_name = name\<rparr>"

definition double_binary :: "string \<Rightarrow> u64 \<Rightarrow> Family" where
  "double_binary name m =
     (word_binary name m)\<lparr>fam_cb := Double 20, regs_r := D_BINARY, regs_ic := D_S0, fam_fp64 := True\<rparr>"

section \<open>Building the table\<close>

text \<open>The arguments of a call of \<open>push\<close>.\<close>

datatype Push = Push (push_opcode: u16) (push_mask: u64) (push_clear: u64) (push_set: u64)
  (push_cb: CbSource) (push_regs: "(nat \<times> nat) list") (push_fp64: bool) (push_name: string)

text \<open>\<open>Table::push\<close>: the entry that is appended; \<open>None\<close> is its failed \<open>assert!\<close>.\<close>

fun push :: "Push \<Rightarrow> OpEncoding option" where
  "push (Push opcode m clear set_bits cb regs fp64 name) =
     (let m' = m OR OP_PRED;
          fixed = (push_bit 48 (ucast opcode) AND NOT (m' OR clear)) OR set_bits
      in if fixed AND m' = 0
         then Some \<lparr>op_fixed = fixed, op_mask = m', op_cb = cb, op_regs = regs, op_fp64 = fp64, op_name = name\<rparr>
         else None)"

fun push_all :: "Push list \<Rightarrow> OpEncoding list option" where
  "push_all [] = Some []"
| "push_all (p # ps) = Option.bind (push p) (\<lambda>e. Option.bind (push_all ps) (\<lambda>es. Some (e # es)))"

definition triple :: "u16 \<times> u16 \<times> u16 \<Rightarrow> Family \<Rightarrow> Push list" where
  "triple opcodes f =
     (case opcodes of (r, i, c) \<Rightarrow>
       [Push r (fam_mask f OR REG1 OR src_mod f) (fam_clear f) (fam_set f) NoCb (regs_r f) (fam_fp64 f) (fam_name f),
        Push i (fam_mask f OR imm_mask f) (fam_clear f) (fam_set f) NoCb (regs_ic f) (fam_fp64 f) (fam_name f),
        Push c (fam_mask f OR CB20 OR src_mod f) (fam_clear f) (fam_set f) (fam_cb f) (regs_ic f) (fam_fp64 f) (fam_name f)])"

text \<open>The values of the loop counters: \<open>let mut x = lo; while x <= hi\<close>.\<close>

definition counter :: "nat \<Rightarrow> nat \<Rightarrow> u64 list" where
  "counter lo hi = map word_of_nat [lo..<Suc hi]"

definition build_fadd_ffma :: "Push list" where
  "build_fadd_ffma =
     (let f = (word_binary ''FADD'' (op_range 39 41 OR op_bit 44 OR op_bit 46 OR op_bit 48 OR op_bit 50))
                \<lparr>src_mod := op_bit 49 OR op_bit 45\<rparr>;
          g = (word_binary ''FFMA'' (REG2 OR op_range 48 55))\<lparr>regs_r := W_TERNARY, regs_ic := W_S0_S2\<rparr>
      in triple (0x5c58, 0x3858, 0x4c58) f
         @ [Push 0x0800 (DST OR SRC0 OR IMM32 OR op_bit 54 OR op_bit 56 OR op_bit 55) 0 0 NoCb W_S0 False ''FADD32I'']
         @ triple (0x5980, 0x3280, 0x4980) g
         @ [Push 0x5180 (fam_mask g OR CB20) 0 0 (Word 20) W_S0_S2 False ''FFMA.CB2''])"

definition build_fmul_mufu :: "Push list" where
  "build_fmul_mufu =
     (let f = (word_binary ''FMNMX'' (op_range 39 43 OR op_bit 44 OR op_bit 46 OR op_bit 48))
                \<lparr>src_mod := op_bit 49 OR op_bit 45\<rparr>;
          g = word_binary ''FMUL'' (op_range 39 41 OR op_bit 44 OR op_bit 45 OR op_bit 48 OR op_bit 50);
          h = word_binary ''RRO'' (DST OR op_bit 39);
          h' = h\<lparr>fam_mask := fam_mask h AND NOT SRC0, src_mod := op_bit 49 OR op_bit 45,
                 regs_r := W_UNARY, regs_ic := W_DST\<rparr>
      in triple (0x5c60, 0x3860, 0x4c60) f
         @ triple (0x5c68, 0x3868, 0x4c68) g
         @ [Push 0x1e00 (DST OR SRC0 OR IMM32 OR op_range 53 56) 0 0 NoCb W_S0 False ''FMUL32I'']
         @ triple (0x5c90, 0x3890, 0x4c90) h'
         @ map (\<lambda>mufu. Push 0x5080 (DST OR SRC0 OR op_bit 46 OR op_bit 48) (op_range 20 24)
                         (push_bit 20 mufu) NoCb W_S0 (mufu = 6 \<or> mufu = 7) ''MUFU'') (counter 0 8))"

definition build_fset :: "u64 \<Rightarrow> Push list" where
  "build_fset cmp =
     (let f = (word_binary ''FSET'' (op_bit 54 OR op_bit 43 OR op_bit 55))
                \<lparr>fam_clear := op_range 48 53, fam_set := push_bit 48 cmp OR op_bit 52 OR push_bit 39 7,
                 src_mod := op_bit 44 OR op_bit 53\<rparr>
      in [Push 0x5800 (fam_mask f OR REG1 OR src_mod f) (fam_clear f) (fam_set f) NoCb W_BINARY False (fam_name f),
          Push 0x3000 (fam_mask f OR IMM20) (fam_clear f) (fam_set f) NoCb W_S0 False (fam_name f),
          Push 0x4800 (fam_mask f OR CB20 OR op_bit 44) (fam_clear f) (fam_set f) (Word 20) W_S0 False (fam_name f)])"

definition build_fsetp :: "u64 \<Rightarrow> u64 \<Rightarrow> Push list" where
  "build_fsetp cmp set_op =
     (let f = word_binary ''FSETP'' (op_range 3 6 OR op_bit 7 OR SRC0 OR op_range 39 43 OR op_bit 43 OR op_bit 47);
          f' = f\<lparr>fam_mask := (fam_mask f AND NOT DST) OR op_range 3 6 OR op_bit 7,
                 src_mod := op_bit 44 OR op_bit 6,
                 fam_clear := op_range 45 47 OR op_range 48 52,
                 fam_set := 7 OR push_bit 45 set_op OR push_bit 48 cmp,
                 regs_r := W_PRED_BINARY, regs_ic := W_PRED_S0\<rparr>;
          g = f'\<lparr>fam_name := ''DSETP'', fam_mask := fam_mask f' AND NOT (op_bit 47), fam_fp64 := True\<rparr>
      in triple (0x5bb0, 0x36b0, 0x4bb0) f'
         @ [Push 0x5b80 (fam_mask g OR REG1 OR src_mod g) (fam_clear g) (fam_set g) NoCb D_PRED_BINARY True (fam_name g),
            Push 0x3680 (fam_mask g OR IMM20) (fam_clear g) (fam_set g) NoCb D_PRED_S0 True (fam_name g)])"

definition build_float_compare :: "Push list" where
  "build_float_compare =
     concat (map (\<lambda>cmp. build_fset cmp @ concat (map (build_fsetp cmp) (counter 0 2))) (counter 1 14))"

definition build_double :: "Push list" where
  "build_double =
     (let f = (double_binary ''DADD'' (op_range 39 41 OR op_bit 46 OR op_bit 48))\<lparr>src_mod := op_bit 49 OR op_bit 45\<rparr>;
          g = (double_binary ''DFMA'' (REG2 OR op_range 48 52))\<lparr>regs_r := D_TERNARY, regs_ic := D_S0_S2\<rparr>;
          h = (double_binary ''DMNMX'' (op_range 39 43 OR op_bit 46 OR op_bit 48))\<lparr>src_mod := op_bit 49 OR op_bit 45\<rparr>
      in [Push 0x50f8 (DST OR SRC0 OR REG1 OR op_range 28 36 OR op_bit 38 OR op_range 39 41 OR op_bit 44)
            (op_bit 47) 0 NoCb W_BINARY False ''FSWZADD'']
         @ triple (0x5c70, 0x3870, 0x4c70) f
         @ triple (0x5b70, 0x3670, 0x4b70) g
         @ [Push 0x5370 (fam_mask g OR CB20) 0 0 (Double 20) D_S0_S2 True ''DFMA.CB2'']
         @ triple (0x5c50, 0x3850, 0x4c50) h
         @ triple (0x5c80, 0x3880, 0x4c80) (double_binary ''DMUL'' (op_range 39 41 OR op_bit 48)))"

definition build_bits :: "Push list" where
  "build_bits =
     (let f = (word_binary ''BFE'' (op_bit 48 OR op_bit 40))\<lparr>imm_mask := op_range 20 36\<rparr>;
          g = word_binary ''FLO'' (DST OR op_bit 40 OR op_bit 48 OR op_bit 41);
          g' = g\<lparr>fam_mask := fam_mask g AND NOT SRC0, fam_clear := op_bit 47, regs_r := W_UNARY, regs_ic := W_DST\<rparr>
      in triple (0x5c00, 0x3800, 0x4c00) f
         @ [Push 0x5c30 (fam_mask g' OR REG1) (fam_clear g') 0 NoCb W_UNARY False ''FLO'',
            Push 0x3830 ((fam_mask g' AND NOT (op_bit 40)) OR IMM20) (fam_clear g' OR op_bit 40) 0 NoCb W_DST False ''FLO.I'',
            Push 0x4c30 (fam_mask g' OR CB20) (fam_clear g') 0 (Word 20) W_DST False ''FLO.CB''])"

text \<open>One turn of the inner and of the outer loop of \<open>IADD\<close>.\<close>

definition build_iadd_negs :: "u64 \<Rightarrow> u64 \<Rightarrow> Push list" where
  "build_iadd_negs ex negs =
     (if ex \<noteq> 0 \<or> negs \<noteq> 3
      then let f = word_binary ''IADD'' (op_bit 47);
               s = push_bit 43 ex OR push_bit 49 (negs AND 1) OR push_bit 48 (drop_bit 1 negs)
           in [Push 0x5c10 (fam_mask f OR REG1) (op_bit 43 OR op_bit 48 OR op_bit 49) s NoCb W_BINARY False ''IADD'',
               Push 0x4c10 (fam_mask f OR CB20) (op_bit 43 OR op_bit 48 OR op_bit 49) s (Word 20) W_S0 False ''IADD.CB'']
      else [])"

definition build_iadd :: "u64 \<Rightarrow> Push list" where
  "build_iadd ex =
     concat (map (build_iadd_negs ex) (counter 0 3))
     @ [Push 0x3810 (DST OR SRC0 OR IMM20 OR op_bit 49 OR op_bit 47) (op_bit 43) (push_bit 43 ex) NoCb W_S0 False ''IADD.I20'',
        Push 0x1c00 (DST OR SRC0 OR IMM32 OR op_bit 56 OR op_bit 52) (op_bit 53) (push_bit 53 ex) NoCb W_S0 False ''IADD32I'']"

definition build_imad :: "u64 \<Rightarrow> Push list" where
  "build_imad signedness =
     (let f = (word_binary ''IMAD'' (REG2 OR op_bit 51 OR op_bit 52))
                \<lparr>fam_clear := op_bit 48 OR op_bit 53, fam_set := push_bit 48 signedness OR push_bit 53 signedness,
                 regs_r := W_TERNARY, regs_ic := W_S0_S2\<rparr>
      in triple (0x5a00, 0x3400, 0x4a00) f
         @ [Push 0x5200 (fam_mask f OR CB20) (fam_clear f) (fam_set f) (Word 20) W_S0_S2 False ''IMAD.CB2''])"

definition build_isetp :: "u64 \<Rightarrow> Push list" where
  "build_isetp set_op =
     (let f = word_binary ''ISETP'' (op_range 3 6 OR SRC0 OR op_range 39 43 OR op_range 48 52)
      in triple (0x5b60, 0x3660, 0x4b60)
           (f\<lparr>fam_mask := (fam_mask f AND NOT DST) OR op_range 3 6,
              fam_clear := op_bit 43 OR op_range 45 47, fam_set := 7 OR push_bit 45 set_op,
              regs_r := W_PRED_BINARY, regs_ic := W_PRED_S0\<rparr>))"

definition build_integer :: "Push list" where
  "build_integer =
     concat (map build_iadd (counter 0 1))
     @ concat (map build_imad (counter 0 1))
     @ triple (0x5c38, 0x3838, 0x4c38) (word_binary ''IMUL'' (op_range 39 42))
     @ [Push 0x1fc0 (DST OR SRC0 OR IMM32 OR op_range 53 56) 0 0 NoCb W_S0 False ''IMUL32I'']
     @ triple (0x5c20, 0x3820, 0x4c20)
         ((word_binary ''IMNMX'' (op_range 39 43 OR op_bit 48))\<lparr>fam_clear := op_bit 47\<rparr>)
     @ concat (map build_isetp (counter 0 2))"

definition build_logic :: "Push list" where
  "build_logic =
     (let f = (word_binary ''LOP'' (op_bit 39 OR op_range 41 43))
                \<lparr>src_mod := op_bit 40, fam_clear := op_range 48 51, fam_set := push_bit 48 7\<rparr>;
          g = word_binary ''POPC'' (DST OR op_bit 40)
      in triple (0x5c40, 0x3840, 0x4c40) f
         @ map (\<lambda>logic. Push 0x0400 (DST OR SRC0 OR IMM32 OR op_bit 55 OR op_bit 56) (op_range 53 55)
                          (push_bit 53 logic) NoCb W_S0 False ''LOP32I'') (counter 0 2)
         @ triple (0x5c08, 0x3808, 0x4c08)
             (g\<lparr>fam_mask := fam_mask g AND NOT SRC0, regs_r := W_UNARY, regs_ic := W_DST\<rparr>))"

definition build_shf :: "u64 \<Rightarrow> u64 \<Rightarrow> Push list" where
  "build_shf right ty =
     (if ty \<noteq> 1
      then let m = DST OR SRC0 OR REG2 OR op_bit 50 OR (if right \<noteq> 0 then op_bit 48 else 0);
               clear = op_range 37 39 OR op_bit 47 OR op_bit 49 OR (if right = 0 then op_bit 48 else 0);
               s = push_bit 37 ty;
               opcode = (if right \<noteq> 0 then 0x38f8 else 0x36f8);
               shift_bits = (if ty = 0 then 5 else 6)
           in [Push (if right \<noteq> 0 then 0x5cf8 else 0x5bf8) (m OR REG1) clear s NoCb W_TERNARY False ''SHF'',
               Push opcode (m OR op_range 20 (20 + shift_bits)) clear s NoCb W_S0_S2 False ''SHF.I'',
               Push opcode (m AND NOT (op_bit 50)) (clear OR op_bit 50) (s OR op_bit (20 + shift_bits))
                 NoCb W_S0_S2 False ''SHF.I.MAX'']
      else [])"

definition build_shift :: "u64 \<Rightarrow> Push list" where
  "build_shift shr =
     (let f = (word_binary (if shr \<noteq> 0 then ''SHR'' else ''SHL'') (op_bit 39 OR (if shr \<noteq> 0 then op_bit 48 else 0)))
                \<lparr>imm_mask := op_range 20 25\<rparr>;
          opcodes = (if shr \<noteq> 0 then (0x5c28, 0x3828, 0x4c28) else (0x5c48, 0x3848, 0x4c48))
      in triple opcodes f
         @ [Push (fst (snd opcodes)) (fam_mask f AND NOT (op_bit 39)) (op_bit 39) (op_bit 25) NoCb W_S0 False ''SHIFT.I.MAX''])"

definition build_shifts :: "Push list" where
  "build_shifts =
     concat (map (\<lambda>right. concat (map (build_shf right) (counter 0 3))) (counter 0 1))
     @ concat (map build_shift (counter 0 1))"

text \<open>The family of a conversion between a source and a destination type, before its kind is known.\<close>

definition convert_family :: "u64 \<Rightarrow> u64 \<Rightarrow> u64 \<Rightarrow> Family" where
  "convert_family kind dst_ty src_ty =
     (let f = word_binary '''' DST
      in f\<lparr>fam_mask := fam_mask f AND NOT SRC0, fam_clear := op_range 8 12,
           fam_set := push_bit 8 dst_ty OR push_bit 10 src_ty,
           fam_cb := (if src_ty = 3 then Double 20 else Word 20),
           regs_r := (case (dst_ty = 3, src_ty = 3) of
                        (False, False) \<Rightarrow> [(0, 1), (20, 1)] | (False, True) \<Rightarrow> [(0, 1), (20, 2)]
                      | (True, False) \<Rightarrow> [(0, 2), (20, 1)] | (True, True) \<Rightarrow> [(0, 2), (20, 2)]),
           regs_ic := (if dst_ty = 3 then [(0, 2)] else W_DST),
           fam_fp64 := (if kind = 0 then dst_ty = 3 \<or> src_ty = 3 else if kind = 1 then src_ty = 3
                        else if kind = 2 then dst_ty = 3 else False)\<rparr>)"

definition build_convert :: "u64 \<Rightarrow> u64 \<Rightarrow> u64 \<Rightarrow> Push list" where
  "build_convert kind dst_ty src_ty =
     (if \<not> ((dst_ty = 3 \<and> src_ty < 2) \<or> (src_ty = 3 \<and> dst_ty < 2))
      then let f = convert_family kind dst_ty src_ty
           in if kind = 0 then
                triple (0x5ca8, 0x38a8, 0x4ca8)
                  (f\<lparr>fam_name := ''F2F'', fam_mask := fam_mask f OR op_range 39 43 OR op_bit 44,
                     src_mod := op_bit 49 OR op_bit 45, imm_mask := op_range 32 39 OR op_bit 56,
                     fam_clear := fam_clear f OR op_bit 50\<rparr>)
              else if kind = 1 then
                triple (0x5cb0, 0x38b0, 0x4cb0)
                  (f\<lparr>fam_name := ''F2I'', fam_mask := fam_mask f OR op_bit 12 OR op_range 39 42 OR op_bit 44,
                     src_mod := op_bit 49 OR op_bit 45, fam_clear := fam_clear f OR op_bit 47\<rparr>)
              else if kind = 2 then
                triple (0x5cb8, 0x38b8, 0x4cb8)
                  (f\<lparr>fam_name := ''I2F'', fam_mask := fam_mask f OR op_bit 13 OR op_range 39 41,
                     src_mod := op_bit 45, fam_clear := fam_clear f OR op_range 41 43 OR op_bit 49\<rparr>)
              else
                triple (0x5ce0, 0x38e0, 0x4ce0)
                  (f\<lparr>fam_name := ''I2I'',
                     fam_mask := fam_mask f OR op_bit 12 OR op_bit 13 OR op_bit 45 OR op_bit 49 OR op_bit 50,
                     fam_clear := fam_clear f OR op_range 41 43 OR op_bit 47\<rparr>)
      else [])"

definition build_conversions :: "Push list" where
  "build_conversions =
     concat (map (\<lambda>kind.
       concat (map (\<lambda>dst_ty.
         concat (map (build_convert kind dst_ty) (counter (if kind = 0 \<or> kind = 1 then 1 else 0) 3)))
         (counter (if kind = 0 \<or> kind = 2 then 1 else 0) 3)))
       (counter 0 3))"

definition build_moves :: "Push list" where
  "build_moves =
     [Push 0x5c98 (DST OR REG1 OR op_range 39 43) 0 0 NoCb W_UNARY False ''MOV'',
      Push 0x4c98 (DST OR CB20 OR op_range 39 43) 0 0 (Word 20) W_DST False ''MOV.CB'',
      Push 0x0100 (DST OR IMM32 OR op_range 12 16) 0 0 NoCb W_DST False ''MOV32I'']
     @ concat (map (\<lambda>mode. triple (0x5bc0, 0x36c0, 0x4bc0)
         ((word_binary ''PRMT'' REG2)\<lparr>fam_clear := op_range 48 51, fam_set := push_bit 48 mode,
            imm_mask := op_range 20 36, regs_r := W_TERNARY, regs_ic := W_S0_S2\<rparr>)) (counter 0 6))
     @ triple (0x5ca0, 0x38a0, 0x4ca0) (word_binary ''SEL'' (op_range 39 43))"

definition build_shfl :: "u64 \<Rightarrow> u64 \<Rightarrow> Push list" where
  "build_shfl lane_imm c_imm =
     [Push 0xef10
        (DST OR SRC0 OR op_range 30 32 OR op_range 48 51
         OR (if lane_imm \<noteq> 0 then op_range 20 25 else REG1)
         OR (if c_imm \<noteq> 0 then op_range 34 39 OR op_range 42 47 else REG2))
        (op_bit 28 OR op_bit 29) (push_bit 28 lane_imm OR push_bit 29 c_imm) NoCb
        (case (lane_imm \<noteq> 0, c_imm \<noteq> 0) of
           (False, False) \<Rightarrow> W_TERNARY | (False, True) \<Rightarrow> W_BINARY
         | (True, False) \<Rightarrow> W_S0_S2 | (True, True) \<Rightarrow> W_S0)
        False ''SHFL'']"

definition build_psetp :: "u64 \<Rightarrow> u64 \<Rightarrow> Push list" where
  "build_psetp op0 op1 =
     [Push 0x5090 (op_range 0 6 OR op_range 12 16 OR op_range 29 33 OR op_range 39 43)
        (op_range 24 26 OR op_range 45 47) (push_bit 24 op0 OR push_bit 45 op1) NoCb [] False ''PSETP'']"

definition build_lanes :: "Push list" where
  "build_lanes =
     concat (map (\<lambda>lane_imm. concat (map (build_shfl lane_imm) (counter 0 1))) (counter 0 1))
     @ concat (map (\<lambda>op0. concat (map (build_psetp op0) (counter 0 2))) (counter 0 2))"

text \<open>\<open>build\<close>, and the table it returns at compile time.\<close>

definition build :: "Push list" where
  "build =
     build_fadd_ffma @ build_fmul_mufu @ build_float_compare @ build_double @ build_bits
     @ build_integer @ build_logic @ build_shifts @ build_conversions @ build_moves @ build_lanes"

definition ALU_ENCODINGS :: "OpEncoding list option" where
  "ALU_ENCODINGS = push_all build"

definition find_alu_encoding :: "u64 \<Rightarrow> OpEncoding option" where
  "find_alu_encoding instruction = Option.bind ALU_ENCODINGS (find (\<lambda>e. op_matches e instruction))"

end
