(* ===== verification/Bytes.thy ===== *)
theory Bytes
  imports Prelude
begin

text \<open>
  Little endian fields of byte buffers and the lists of writes an encoder performs.
  \<open>read_le\<close> and \<open>put_le\<close> are Rust's \<open>from_le_bytes(b[i..i + n])\<close> and
  \<open>b[i..i + n].copy_from_slice(v.to_le_bytes())\<close>: both panic when the window leaves the buffer.
  \<open>run_writes\<close> is a sequence of such stores, and its two lemmas (what is read back, what is left
  alone) carry every round trip of the wire formats, which are stated as the locales
  \<open>wire_format\<close> and \<open>canonical_wire_format\<close>.
\<close>

section \<open>Windows\<close>

definition slice :: "'a list \<Rightarrow> nat \<Rightarrow> nat \<Rightarrow> 'a list" where
  "slice b i n = take n (drop i b)"

definition splice :: "'a list \<Rightarrow> nat \<Rightarrow> 'a list \<Rightarrow> 'a list" where
  "splice b i xs = take i b @ xs @ drop (i + length xs) b"

text \<open>Rust's \<open>b[i..i + n]\<close>.\<close>

definition subslice :: "'a list \<Rightarrow> nat \<Rightarrow> nat \<Rightarrow> ('e, 'a list) outcome" where
  "subslice b i n = (if i + n \<le> length b then Ok (slice b i n) else Panic)"

definition byte_at :: "bytes \<Rightarrow> nat \<Rightarrow> ('e, u8) outcome" where
  "byte_at b i = (if i < length b then Ok (b ! i) else Panic)"

lemma length_slice [simp]: "i + n \<le> length b \<Longrightarrow> length (slice b i n) = n"
  by (simp add: slice_def)

lemma length_splice [simp]: "i + length xs \<le> length b \<Longrightarrow> length (splice b i xs) = length b"
  by (simp add: splice_def)

lemma nth_slice [simp]: "j < n \<Longrightarrow> i + n \<le> length b \<Longrightarrow> slice b i n ! j = b ! (i + j)"
  by (simp add: slice_def)

lemma nth_splice:
  assumes "i + length xs \<le> length b" "j < length b"
  shows "splice b i xs ! j = (if i \<le> j \<and> j < i + length xs then xs ! (j - i) else b ! j)"
  using assms by (auto simp: splice_def nth_append min_def)

lemma slice_splice_same [bytes_simps]:
  "i + length xs \<le> length b \<Longrightarrow> n = length xs \<Longrightarrow> slice (splice b i xs) i n = xs"
  by (simp add: slice_def splice_def)

lemma slice_splice_other [bytes_simps]:
  assumes "i + length xs \<le> length b" "j + n \<le> length b"
    and "j + n \<le> i \<or> i + length xs \<le> j"
  shows "slice (splice b i xs) j n = slice b j n"
  using assms by (intro nth_equalityI) (auto simp: nth_splice)

lemma splice_slice_same: "i + n \<le> length b \<Longrightarrow> splice b i (slice b i n) = b"
  by (intro nth_equalityI) (auto simp: nth_splice)

lemma slice_all [simp]: "slice b 0 (length b) = b"
  by (simp add: slice_def)

lemma subslice_Ok [bytes_simps]: "i + n \<le> length b \<Longrightarrow> subslice b i n = Ok (slice b i n)"
  by (simp add: subslice_def)

lemma byte_at_Ok [bytes_simps]: "i < length b \<Longrightarrow> byte_at b i = Ok (b ! i)"
  by (simp add: byte_at_def)

section \<open>Little endian integers\<close>

fun le_nat :: "bytes \<Rightarrow> nat" where
  "le_nat [] = 0"
| "le_nat (x # xs) = unat x + 256 * le_nat xs"

fun le_split :: "nat \<Rightarrow> nat \<Rightarrow> bytes" where
  "le_split 0 m = []"
| "le_split (Suc n) m = word_of_nat (m mod 256) # le_split n (m div 256)"

definition from_le_bytes :: "bytes \<Rightarrow> 'a::len word" where
  "from_le_bytes xs = word_of_nat (le_nat xs)"

definition to_le_bytes :: "'a::len word \<Rightarrow> bytes" where
  "to_le_bytes v = le_split (LENGTH('a) div 8) (unat v)"

lemma length_le_split [simp]: "length (le_split n m) = n"
  by (induction n arbitrary: m) auto

lemma length_to_le_bytes [simp]: "length (to_le_bytes (v :: 'a::len word)) = LENGTH('a) div 8"
  by (simp add: to_le_bytes_def)

lemma le_nat_bound: "le_nat xs < 256 ^ length xs"
proof (induction xs)
  case Nil
  show ?case by simp
next
  case (Cons x xs)
  have "unat x < 256" using unsigned_less[of x] by simp
  with Cons.IH show ?case by simp
qed

lemma le_nat_split: "le_nat (le_split n m) = m mod 256 ^ n"
proof (induction n arbitrary: m)
  case 0
  show ?case by simp
next
  case (Suc n)
  have "m mod 256 ^ Suc n = m mod 256 + 256 * (m div 256 mod 256 ^ n)"
    by (simp add: mod_mult2_eq)
  then show ?case by (simp add: Suc.IH unat_of_nat)
qed

lemma le_split_nat: "le_split (length xs) (le_nat xs) = xs"
proof (induction xs)
  case Nil
  show ?case by simp
next
  case (Cons x xs)
  have x: "unat x < 256" using unsigned_less[of x] by simp
  have "(unat x + 256 * le_nat xs) mod 256 = unat x" using x by simp
  moreover have "(unat x + 256 * le_nat xs) div 256 = le_nat xs" using x by simp
  ultimately show ?case using Cons.IH by (simp add: word_of_nat_eq_iff)
qed

lemma from_le_to_le [bytes_simps]:
  assumes "8 * n = LENGTH('a)"
  shows "from_le_bytes (to_le_bytes (v :: 'a::len word)) = v"
proof -
  have "(256 :: nat) ^ n = (2 ^ 8) ^ n" by simp
  also have "\<dots> = 2 ^ LENGTH('a)" using assms by (simp only: power_mult [symmetric])
  finally have "(256 :: nat) ^ n = 2 ^ LENGTH('a)" .
  moreover have "LENGTH('a) div 8 = n" using assms by (metis nonzero_mult_div_cancel_left
        zero_neq_numeral)
  ultimately show ?thesis
    using unsigned_less[of v] by (simp add: from_le_bytes_def to_le_bytes_def le_nat_split)
qed


text \<open>Any bytes of the right number are the encoding of the value they read as.\<close>

lemma to_le_from_le [bytes_simps]:
  assumes "8 * length xs = LENGTH('a)"
  shows "to_le_bytes (from_le_bytes xs :: 'a::len word) = xs"
proof -
  have "(256 :: nat) ^ length xs = (2 ^ 8) ^ length xs" by simp
  also have "\<dots> = 2 ^ LENGTH('a)" using assms by (simp only: power_mult [symmetric])
  finally have "le_nat xs < 2 ^ LENGTH('a)" using le_nat_bound[of xs] by simp
  then have "unat (word_of_nat (le_nat xs) :: 'a word) = le_nat xs"
    by (simp add: unat_of_nat)
  moreover have "LENGTH('a) div 8 = length xs"
    using assms by (metis nonzero_mult_div_cancel_left zero_neq_numeral)
  ultimately show ?thesis
    by (simp add: from_le_bytes_def to_le_bytes_def le_split_nat)
qed

lemma le_nat_replicate_0 [simp]: "le_nat (replicate n 0) = 0"
  by (induction n) auto

lemma le_split_0: "le_split n 0 = replicate n 0"
  by (induction n) auto

lemma to_le_bytes_0: "to_le_bytes (0 :: u32) = replicate 4 0"
  by (simp add: to_le_bytes_def le_split_0)

definition read_le :: "nat \<Rightarrow> bytes \<Rightarrow> nat \<Rightarrow> ('e, 'a::len word) outcome" where
  "read_le n b i = (if i + n \<le> length b then Ok (from_le_bytes (slice b i n)) else Panic)"

lemma read_le_Ok [bytes_simps]:
  "i + n \<le> length b \<Longrightarrow> read_le n b i = Ok (from_le_bytes (slice b i n))"
  by (simp add: read_le_def)

lemma read_le_eq_Ok:
  "read_le n b i = Ok v \<longleftrightarrow> i + n \<le> length b \<and> v = from_le_bytes (slice b i n)"
  by (auto simp: read_le_def)

section \<open>Sequences of stores\<close>

text \<open>
  A store is an offset with the bytes put there. \<open>None\<close> is the panic of a window
  that leaves the buffer.
\<close>

type_synonym store = "nat \<times> bytes"

fun run_writes :: "store list \<Rightarrow> bytes \<Rightarrow> bytes option" where
  "run_writes [] b = Some b"
| "run_writes ((i, xs) # ws) b =
     (if i + length xs \<le> length b then run_writes ws (splice b i xs) else None)"

definition store_disjoint :: "store \<Rightarrow> nat \<Rightarrow> nat \<Rightarrow> bool" where
  "store_disjoint w j n \<longleftrightarrow> j + n \<le> fst w \<or> fst w + length (snd w) \<le> j"

definition stores_within :: "store list \<Rightarrow> nat \<Rightarrow> bool" where
  "stores_within ws n \<longleftrightarrow> list_all (\<lambda>(i, xs). i + length xs \<le> n) ws"

text \<open>Every two stores of the sequence touch different bytes.\<close>

fun stores_disjoint :: "store list \<Rightarrow> bool" where
  "stores_disjoint [] = True"
| "stores_disjoint (w # ws) =
     (list_all (\<lambda>v. store_disjoint v (fst w) (length (snd w))) ws \<and> stores_disjoint ws)"

definition stores_cover :: "store list \<Rightarrow> nat \<Rightarrow> bool" where
  "stores_cover ws j \<longleftrightarrow> (\<exists>(i, xs) \<in> set ws. i \<le> j \<and> j < i + length xs)"

lemma run_writes_append:
  "run_writes (vs @ ws) b = Option.bind (run_writes vs b) (run_writes ws)"
proof (induction vs arbitrary: b)
  case Nil
  show ?case by simp
next
  case (Cons v vs)
  then show ?case by (cases v) simp
qed

lemma run_writes_within:
  "stores_within ws (length b) \<Longrightarrow> \<exists>b'. run_writes ws b = Some b' \<and> length b' = length b"
proof (induction ws arbitrary: b)
  case Nil
  then show ?case by simp
next
  case (Cons w ws)
  obtain i xs where w: "w = (i, xs)" by (cases w)
  with Cons.prems have "i + length xs \<le> length b" by (simp add: stores_within_def)
  moreover from this have "stores_within ws (length (splice b i xs))"
    using Cons.prems by (simp add: stores_within_def)
  ultimately show ?case using Cons.IH[of "splice b i xs"] w by auto
qed

lemma run_writes_length: "run_writes ws b = Some b' \<Longrightarrow> length b' = length b"
proof (induction ws arbitrary: b)
  case Nil
  then show ?case by simp
next
  case (Cons w ws)
  obtain i xs where "w = (i, xs)" by (cases w)
  with Cons show ?case by (fastforce split: if_splits)
qed

lemma run_writes_other:
  assumes "run_writes ws b = Some b'" "j + n \<le> length b"
    and "list_all (\<lambda>w. store_disjoint w j n) ws"
  shows "slice b' j n = slice b j n"
  using assms
proof (induction ws arbitrary: b)
  case Nil
  then show ?case by simp
next
  case (Cons w ws)
  obtain i xs where w: "w = (i, xs)" by (cases w)
  with Cons.prems have le: "i + length xs \<le> length b"
    and run: "run_writes ws (splice b i xs) = Some b'"
    by (auto split: if_splits)
  have "slice b' j n = slice (splice b i xs) j n"
    using Cons.IH[OF run] Cons.prems le by simp
  also have "\<dots> = slice b j n"
    using Cons.prems w le by (intro slice_splice_other) (auto simp: store_disjoint_def)
  finally show ?case .
qed

lemma run_writes_read:
  assumes "run_writes ws b = Some b'" "stores_disjoint ws" "(i, xs) \<in> set ws"
  shows "slice b' i (length xs) = xs"
  using assms
proof (induction ws arbitrary: b)
  case Nil
  then show ?case by simp
next
  case (Cons w ws)
  obtain i' xs' where w: "w = (i', xs')" by (cases w)
  with Cons.prems(1) have le: "i' + length xs' \<le> length b"
    and run: "run_writes ws (splice b i' xs') = Some b'"
    by (auto split: if_splits)
  show ?case
  proof (cases "(i, xs) = w")
    case True
    have "slice b' i (length xs) = slice (splice b i xs) i (length xs)"
      using Cons.prems(2) True w run le by (intro run_writes_other) auto
    then show ?thesis using le True w by (simp add: slice_splice_same)
  next
    case False
    then show ?thesis using Cons.IH[OF run] Cons.prems(2,3) by simp
  qed
qed

text \<open>A buffer that already holds every stored field, and zeros elsewhere, is what they build.\<close>

lemma run_writes_canonical:
  assumes "stores_within ws (length b)"
    and "\<forall>(i, xs) \<in> set ws. slice b i (length xs) = xs"
    and "\<forall>j < length b. stores_cover ws j \<or> b ! j = 0"
  shows "run_writes ws (replicate (length b) 0) = Some b"
proof -
  have "\<exists>c'. run_writes ws c = Some c' \<and> length c' = length b \<and>
      (\<forall>j < length b. c' ! j = (if stores_cover ws j then b ! j else c ! j))"
    if "length c = length b" "stores_within ws (length b)"
      "\<forall>(i, xs) \<in> set ws. slice b i (length xs) = xs" for c
    using that
  proof (induction ws arbitrary: c)
    case Nil
    then show ?case by (auto simp: stores_cover_def)
  next
    case (Cons w ws)
    obtain i xs where w: "w = (i, xs)" by (cases w)
    from Cons.prems w have le: "i + length xs \<le> length b"
      and xs: "slice b i (length xs) = xs" by (auto simp: stores_within_def)
    have "length (splice c i xs) = length b" using Cons.prems(1) le by simp
    then obtain c' where c': "run_writes ws (splice c i xs) = Some c'" "length c' = length b"
      "\<forall>j < length b. c' ! j = (if stores_cover ws j then b ! j else splice c i xs ! j)"
      using Cons.IH[of "splice c i xs"] Cons.prems by (auto simp: stores_within_def)
    have "c' ! j = (if stores_cover (w # ws) j then b ! j else c ! j)" if "j < length b" for j
    proof (cases "stores_cover ws j")
      case True
      with c'(3) that show ?thesis by (auto simp: stores_cover_def)
    next
      case False
      have "xs ! (j - i) = b ! j" if "i \<le> j" "j < i + length xs"
        using that le xs by (metis add_diff_cancel_left' le_add_diff_inverse nat_add_left_cancel_less
            nth_slice)
      with False c'(3) that le w Cons.prems(1) show ?thesis
        by (auto simp: stores_cover_def nth_splice)
    qed
    with c' le w Cons.prems(1) show ?case by auto
  qed
  from this[of "replicate (length b) 0"] assms obtain c' where
    "run_writes ws (replicate (length b) 0) = Some c'" "length c' = length b"
    "\<forall>j < length b. c' ! j = (if stores_cover ws j then b ! j else 0)"
    by auto
  moreover from this assms(3) have "c' = b" by (intro nth_equalityI) auto
  ultimately show ?thesis by simp
qed

section \<open>Regions of a record\<close>

definition stores_in :: "nat \<Rightarrow> nat \<Rightarrow> store list \<Rightarrow> bool" where
  "stores_in lo hi ws \<longleftrightarrow> list_all (\<lambda>w. lo \<le> fst w \<and> fst w + length (snd w) \<le> hi) ws"

lemma stores_in_simps [simp]:
  "stores_in lo hi []"
  "stores_in lo hi (w # ws) \<longleftrightarrow> lo \<le> fst w \<and> fst w + length (snd w) \<le> hi \<and> stores_in lo hi ws"
  "stores_in lo hi (vs @ ws) \<longleftrightarrow> stores_in lo hi vs \<and> stores_in lo hi ws"
  by (auto simp: stores_in_def)

lemma stores_in_mono: "stores_in lo hi ws \<Longrightarrow> lo' \<le> lo \<Longrightarrow> hi \<le> hi' \<Longrightarrow> stores_in lo' hi' ws"
  by (auto simp: stores_in_def list_all_iff)

lemma stores_in_append:
  "stores_in lo mid vs \<Longrightarrow> stores_in mid' hi ws \<Longrightarrow> lo \<le> mid' \<Longrightarrow> mid \<le> hi
    \<Longrightarrow> stores_in lo hi (vs @ ws)"
  by (auto intro: stores_in_mono)

lemma stores_in_within: "stores_in lo hi ws \<Longrightarrow> hi \<le> n \<Longrightarrow> stores_within ws n"
  by (auto simp: stores_in_def stores_within_def list_all_iff)

lemma stores_in_other:
  "stores_in lo hi ws \<Longrightarrow> j + n \<le> lo \<or> hi \<le> j \<Longrightarrow> list_all (\<lambda>w. store_disjoint w j n) ws"
  by (auto simp: stores_in_def store_disjoint_def list_all_iff)

lemma stores_disjoint_append:
  assumes "stores_disjoint vs" "stores_disjoint ws" "stores_in lo mid vs" "stores_in mid' hi ws"
    and "mid \<le> mid'"
  shows "stores_disjoint (vs @ ws)"
  using assms
proof (induction vs)
  case Nil
  then show ?case by simp
next
  case (Cons v vs)
  have "list_all (\<lambda>w. store_disjoint w (fst v) (length (snd v))) ws"
    using Cons.prems by (intro stores_in_other[of mid' hi]) auto
  with Cons show ?case by simp
qed

text \<open>A table of records of a fixed size.\<close>

lemma table_stores:
  assumes "\<And>i. i < n \<Longrightarrow> stores_in (base + i * k) (base + i * k + k) (f i)"
    and "\<And>i. i < n \<Longrightarrow> stores_disjoint (f i)"
  shows "stores_in base (base + n * k) (concat (map f [0..<n]))
    \<and> stores_disjoint (concat (map f [0..<n]))"
  using assms
proof (induction n)
  case 0
  show ?case by simp
next
  case (Suc n)
  then have IH: "stores_in base (base + n * k) (concat (map f [0..<n]))"
    "stores_disjoint (concat (map f [0..<n]))" by auto
  have f: "stores_in (base + n * k) (base + n * k + k) (f n)" "stores_disjoint (f n)"
    using Suc.prems by auto
  from stores_disjoint_append[OF IH(2) f(2) IH(1) f(1)] have "stores_disjoint (concat (map f [0..<n]) @ f n)"
    by simp
  moreover have "stores_in base (base + Suc n * k) (concat (map f [0..<n]))"
    using IH(1) by (rule stores_in_mono) auto
  moreover have "stores_in base (base + Suc n * k) (f n)"
    using f(1) by (rule stores_in_mono) auto
  ultimately show ?case by simp
qed

lemma table_index:
  assumes "base \<le> j" "j < base + n * (k :: nat)"
  obtains i where "i < n" "base + i * k \<le> j" "j < base + i * k + k"
proof
  have k: "0 < k" using assms by (cases k) auto
  show "(j - base) div k < n" using assms by (intro less_mult_imp_div_less) linarith
  have "(j - base) div k * k + (j - base) mod k = j - base" by (rule div_mult_mod_eq)
  moreover have "(j - base) mod k < k" using k by simp
  ultimately show "base + (j - base) div k * k \<le> j" "j < base + (j - base) div k * k + k"
    using assms(1) by linarith+
qed

text \<open>The bytes from \<open>lo\<close> to \<open>hi\<close> that a list of stores reaches without a gap.\<close>

fun covers :: "nat \<Rightarrow> store list \<Rightarrow> nat \<Rightarrow> bool" where
  "covers lo [] hi = (hi \<le> lo)"
| "covers lo (w # ws) hi = (fst w \<le> lo \<and> covers (max lo (fst w + length (snd w))) ws hi)"

lemma covers_stores_cover:
  "covers lo ws hi \<Longrightarrow> set ws \<subseteq> set vs \<Longrightarrow> lo \<le> j \<Longrightarrow> j < hi \<Longrightarrow> stores_cover vs j"
proof (induction ws arbitrary: lo)
  case Nil
  then show ?case by simp
next
  case (Cons w ws)
  show ?case
  proof (cases "j < fst w + length (snd w)")
    case True
    have "fst w \<le> j" using Cons.prems(1,3) by simp
    moreover have "(fst w, snd w) \<in> set vs" using Cons.prems(2) by simp
    ultimately show ?thesis using True unfolding stores_cover_def by blast
  next
    case False
    have "max lo (fst w + length (snd w)) \<le> j" using False Cons.prems(3) by simp
    from Cons.IH[OF _ _ this] show ?thesis using Cons.prems by simp
  qed
qed

text \<open>A record that is zeroed and then written, and the fields found in it afterwards.\<close>

definition fill_and_write :: "store list \<Rightarrow> bytes \<Rightarrow> bytes option" where
  "fill_and_write ws b = run_writes ws (replicate (length b) 0)"

lemma fill_and_write_within:
  "stores_within ws (length b) \<Longrightarrow> \<exists>b'. fill_and_write ws b = Some b' \<and> length b' = length b"
  using run_writes_within[of ws "replicate (length b) 0"] by (simp add: fill_and_write_def)

lemma fill_and_write_length: "fill_and_write ws b = Some b' \<Longrightarrow> length b' = length b"
  using run_writes_length[of ws "replicate (length b) 0" b'] by (simp add: fill_and_write_def)

lemma fill_and_write_field:
  fixes v :: "'a::len word"
  assumes "fill_and_write ws b = Some b'" "stores_disjoint ws" "(i, to_le_bytes v) \<in> set ws"
    and "8 * n = LENGTH('a)"
  shows "from_le_bytes (slice b' i n) = v"
proof -
  have "n = length (to_le_bytes v)" using assms(4) by simp
  then have "slice b' i n = to_le_bytes v"
    using run_writes_read[OF assms(1)[unfolded fill_and_write_def] assms(2,3)] by simp
  then show ?thesis using assms(4) by (simp add: from_le_to_le)
qed

lemma fill_and_write_bytes:
  assumes "fill_and_write ws b = Some b'" "stores_disjoint ws" "(i, xs) \<in> set ws" "n = length xs"
  shows "slice b' i n = xs"
  using run_writes_read[OF assms(1)[unfolded fill_and_write_def] assms(2,3)] assms(4) by simp

lemma fill_and_write_zero:
  assumes "fill_and_write ws b = Some b'" "j + n \<le> length b" "list_all (\<lambda>w. store_disjoint w j n) ws"
  shows "slice b' j n = replicate n 0"
  using run_writes_other[OF assms(1)[unfolded fill_and_write_def] _ assms(3)] assms(2)
  by (simp add: slice_def)

lemma fill_and_write_canonical:
  assumes "stores_within ws (length b)" "\<forall>(i, xs) \<in> set ws. slice b i (length xs) = xs"
    and "\<forall>j < length b. stores_cover ws j \<or> b ! j = 0" "length c = length b"
  shows "fill_and_write ws c = Some b"
  using run_writes_canonical[OF assms(1-3)] assms(4) by (simp add: fill_and_write_def)

text \<open>Rust's \<open>b[i..j].iter().any(|x| *x != 0)\<close>.\<close>

definition any_nonzero :: "bytes \<Rightarrow> bool" where
  "any_nonzero b \<longleftrightarrow> \<not> list_all (\<lambda>x. x = 0) b"

lemma any_nonzero_replicate [simp]: "\<not> any_nonzero (replicate n 0)"
  by (simp add: any_nonzero_def list_all_iff)

lemma any_nonzero_slice:
  "i + n \<le> length b \<Longrightarrow> \<not> any_nonzero (slice b i n) \<longleftrightarrow> (\<forall>j. i \<le> j \<longrightarrow> j < i + n \<longrightarrow> b ! j = 0)"
proof -
  assume le: "i + n \<le> length b"
  have "\<not> any_nonzero (slice b i n) \<longleftrightarrow> (\<forall>k < n. b ! (i + k) = 0)"
    using le by (simp add: any_nonzero_def list_all_length)
  also have "\<dots> \<longleftrightarrow> (\<forall>j. i \<le> j \<longrightarrow> j < i + n \<longrightarrow> b ! j = 0)"
  proof
    assume *: "\<forall>k < n. b ! (i + k) = 0"
    show "\<forall>j. i \<le> j \<longrightarrow> j < i + n \<longrightarrow> b ! j = 0"
    proof (intro allI impI)
      fix j assume j: "i \<le> j" "j < i + n"
      then have "j - i < n" "i + (j - i) = j" by simp_all
      then show "b ! j = 0" using * by metis
    qed
  next
    assume "\<forall>j. i \<le> j \<longrightarrow> j < i + n \<longrightarrow> b ! j = 0"
    then show "\<forall>k < n. b ! (i + k) = 0" by (metis le_add1 nat_add_left_cancel_less)
  qed
  finally show ?thesis .
qed

section \<open>The interface of the wire formats\<close>

text \<open>
  An encoder into a caller's buffer and a decoder of untrusted bytes. \<open>inhabits\<close> holds of the values
  of the source's type (arrays have their declared lengths). The encoder leaves the buffer
  alone when it fails, neither panics, and what is encoded is decoded.
\<close>

locale wire_format =
  fixes inhabits :: "'a \<Rightarrow> bool"
    and encode :: "'a \<Rightarrow> bytes \<Rightarrow> bytes \<times> ('e, unit) outcome"
    and decode :: "bytes \<Rightarrow> ('e, 'a) outcome"
  assumes decode_encode: "inhabits v \<Longrightarrow> encode v b = (b', Ok ()) \<Longrightarrow> decode b' = Ok v"
    and encode_failure: "encode v b = (b', Err e) \<Longrightarrow> b' = b"
    and encode_total: "inhabits v \<Longrightarrow> snd (encode v b) \<noteq> Panic"
    and decode_total: "decode b \<noteq> Panic"
    and decode_inhabits: "decode b = Ok v \<Longrightarrow> inhabits v"
begin

lemma encode_injective:
  "inhabits v \<Longrightarrow> inhabits w \<Longrightarrow> encode v b = (c, Ok ()) \<Longrightarrow> encode w b' = (c, Ok ()) \<Longrightarrow> v = w"
  using decode_encode[of v b c] decode_encode[of w b' c] by simp

lemma encode_cases:
  assumes "inhabits v"
  obtains (encoded) c where "encode v b = (c, Ok ())" "decode c = Ok v"
  | (refused) e where "encode v b = (b, Err e)"
proof (cases "encode v b")
  case (Pair c r)
  then show thesis
  proof (cases r)
    case (Ok u)
    then show thesis using Pair encoded decode_encode[OF assms, of b c] by simp
  next
    case (Err e)
    then show thesis using Pair refused encode_failure[of v b c e] by simp
  next
    case Panic
    then show thesis using Pair encode_total[OF assms, of b] by simp
  qed
qed

end

text \<open>A canonical format has one encoding of each value: the decoder accepts no other bytes.\<close>

locale canonical_wire_format = wire_format +
  assumes encode_decode: "decode b = Ok v \<Longrightarrow> length c = length b \<Longrightarrow> encode v c = (b, Ok ())"
begin

lemma decode_injective:
  assumes "decode b = Ok v" "decode c = Ok v" "length b = length c"
  shows "b = c"
proof -
  have "(b, Ok ()) = encode v b" by (rule encode_decode[OF assms(1) refl, symmetric])
  also have "\<dots> = (c, Ok ())" by (rule encode_decode[OF assms(2,3)])
  finally show ?thesis by blast
qed

lemma decode_iff:
  "decode b = Ok v \<longleftrightarrow> inhabits v \<and> (\<exists>c. length c = length b \<and> encode v c = (b, Ok ()))"
  using encode_decode decode_encode decode_inhabits by blast

end

end
