(* ===== verification/Program_Wire.thy ===== *)
theory Program_Wire
  imports Bytes Machine
begin

text \<open>
  \<open>shared/maxwell-program-wire/src/lib.rs\<close>: the package of an untrusted Maxwell shader program, its
  metadata with their checks, and the hardware program header generated from checked metadata.
  Fixed size arrays are lists of the declared length (\<open>metadata_sized\<close>).
\<close>

section \<open>Data\<close>

definition VERSION :: u16 where "VERSION = 1"
definition HEADER_SIZE :: nat where "HEADER_SIZE = 512"
definition MAX_CODE_SIZE :: nat where "MAX_CODE_SIZE = 64 * 1024"
definition MAX_CB_SIZE :: u32 where "MAX_CB_SIZE = 64 * 1024"
definition MAX_RESOURCES :: nat where "MAX_RESOURCES = 64"
definition FLAG_DEPTH :: u16 where "FLAG_DEPTH = 1"
definition FLAG_SAMPLE_MASK :: u16 where "FLAG_SAMPLE_MASK = 2"
definition FLAG_KILL :: u16 where "FLAG_KILL = 4"
definition FLAG_FP64 :: u16 where "FLAG_FP64 = 8"

text \<open>\<open>b"MXPROG01"\<close>\<close>

definition MAGIC :: bytes where "MAGIC = [0x4d, 0x58, 0x50, 0x52, 0x4f, 0x47, 0x30, 0x31]"

datatype Stage = Vertex | Fragment

datatype Error =
    Truncated | Format | Version | Size | Metadata | Instruction | Scheduling | ConstantBuffer
  | Resource | Attribute | Register | Branch | ControlStack | Fallthrough | Scratch

record Metadata =
  stage :: Stage
  gprs :: u8
  flags :: u16
  resource_mask :: u64
  cb_sizes :: "u32 list"
  attr_in :: "u32 list"
  attr_out :: "u32 list"
  sysvals_in_ab :: u32
  sysvals_in_c :: u16
  sysvals_in_d :: u8
  sysvals_out_ab :: u32
  sysvals_out_c :: u16
  sysvals_out_d :: u8
  store_req_start :: u8
  store_req_end :: u8
  fs_inputs :: "u8 list"
  fs_sysvals_d :: "u8 list"
  fs_color_mask :: u32

text \<open>The declared array lengths.\<close>

definition metadata_sized :: "Metadata \<Rightarrow> bool" where
  "metadata_sized m \<longleftrightarrow> length (cb_sizes m) = 32 \<and> length (attr_in m) = 4 \<and> length (attr_out m) = 4
     \<and> length (fs_inputs m) = 128 \<and> length (fs_sysvals_d m) = 8"

definition metadata_new :: "Stage \<Rightarrow> Metadata" where
  "metadata_new s =
     \<lparr>stage = s, gprs = 4, flags = 0, resource_mask = 0, cb_sizes = replicate 32 0,
      attr_in = replicate 4 0, attr_out = replicate 4 0,
      sysvals_in_ab = (if s = Fragment then push_bit 31 1 else 0), sysvals_in_c = 0,
      sysvals_in_d = 0, sysvals_out_ab = 0, sysvals_out_c = 0, sysvals_out_d = 0,
      store_req_start = 0, store_req_end = 0, fs_inputs = replicate 128 0,
      fs_sysvals_d = replicate 8 0, fs_color_mask = 0\<rparr>"

section \<open>Checks\<close>

definition check :: "Metadata \<Rightarrow> (Error, unit) outcome" where
  "check m =
     (if gprs m < 4 \<or> flags m AND NOT 15 \<noteq> 0
         \<or> list_ex (\<lambda>s. MAX_CB_SIZE < s \<or> s mod 4 \<noteq> 0) (cb_sizes m)
         \<or> list_ex (\<lambda>x. 3 < x) (fs_inputs m @ fs_sysvals_d m)
      then Err Metadata else
      if stage m = Vertex then
        if flags m AND (FLAG_DEPTH OR FLAG_SAMPLE_MASK OR FLAG_KILL) \<noteq> 0
           \<or> fs_color_mask m \<noteq> 0
           \<or> list_ex (\<lambda>x. x \<noteq> 0) (fs_inputs m @ fs_sysvals_d m)
           \<or> store_req_end m < store_req_start m
        then Err Metadata else Ok ()
      else
        if attr_in m \<noteq> replicate 4 0 \<or> attr_out m \<noteq> replicate 4 0 \<or> sysvals_out_ab m \<noteq> 0
           \<or> sysvals_out_c m \<noteq> 0 \<or> sysvals_out_d m \<noteq> 0 \<or> sysvals_in_d m \<noteq> 0
           \<or> store_req_start m \<noteq> 0 \<or> store_req_end m \<noteq> 0
           \<or> sysvals_in_ab m AND push_bit 31 1 = 0
        then Err Metadata else Ok ())"

section \<open>The hardware program header\<close>

text \<open>One turn of the loop of \<open>set_bits\<close>; \<open>None\<close> is an index outside the header.\<close>

definition set_bit_step :: "nat \<Rightarrow> u32 \<Rightarrow> nat \<Rightarrow> u32 list \<Rightarrow> u32 list option" where
  "set_bit_step start v i h =
     (if v AND push_bit i 1 \<noteq> 0
      then if (start + i) div 32 < length h
           then Some (h[(start + i) div 32 := h ! ((start + i) div 32) OR push_bit ((start + i) mod 32) 1])
           else None
      else Some h)"

fun set_bits_from :: "nat \<Rightarrow> u32 \<Rightarrow> nat list \<Rightarrow> u32 list \<Rightarrow> u32 list option" where
  "set_bits_from start v [] h = Some h"
| "set_bits_from start v (i # is) h = Option.bind (set_bit_step start v i h) (set_bits_from start v is)"

definition set_bits :: "u32 list \<Rightarrow> nat \<Rightarrow> nat \<Rightarrow> u32 \<Rightarrow> u32 list option" where
  "set_bits h start count v = set_bits_from start v [0..<count] h"

text \<open>The calls of \<open>set_bits\<close> made by \<open>header\<close>, in program order: start, count and value.\<close>

definition vertex_fields :: "Metadata \<Rightarrow> (nat \<times> nat \<times> u32) list" where
  "vertex_fields m =
     [(140, 8, ucast (store_req_start m)), (152, 8, ucast (store_req_end m))]
     @ concat (map (\<lambda>i. [(192 + i * 32, 32, attr_in m ! i), (432 + i * 32, 32, attr_out m ! i)]) [0..<4])
     @ [(336, 16, ucast (sysvals_in_c m)), (392, 8, ucast (sysvals_in_d m)),
        (400, 32, sysvals_out_ab m), (576, 16, ucast (sysvals_out_c m)),
        (632, 8, ucast (sysvals_out_d m))]"

definition fragment_fields :: "Metadata \<Rightarrow> (nat \<times> nat \<times> u32) list" where
  "fragment_fields m =
     [(14, 1, 1), (15, 1, if flags m AND FLAG_KILL \<noteq> 0 then 1 else 0)]
     @ map (\<lambda>i. (192 + i * 2, 2, ucast (fs_inputs m ! i))) [0..<128]
     @ [(464, 16, ucast (sysvals_in_c m))]
     @ map (\<lambda>i. (560 + i * 2, 2, ucast (fs_sysvals_d m ! i))) [0..<8]
     @ [(576, 32, fs_color_mask m),
        (608, 1, if flags m AND FLAG_SAMPLE_MASK \<noteq> 0 then 1 else 0),
        (609, 1, if flags m AND FLAG_DEPTH \<noteq> 0 then 1 else 0)]"

definition header_fields :: "Metadata \<Rightarrow> (nat \<times> nat \<times> u32) list" where
  "header_fields m =
     [(0, 5, if stage m = Vertex then 1 else 2), (5, 5, 3), (10, 4, if stage m = Vertex then 1 else 5),
      (17, 4, 1), (27, 1, if flags m AND FLAG_FP64 \<noteq> 0 then 1 else 0), (160, 32, sysvals_in_ab m)]
     @ (if stage m = Vertex then vertex_fields m else fragment_fields m)"

fun write_fields :: "(nat \<times> nat \<times> u32) list \<Rightarrow> u32 list \<Rightarrow> u32 list option" where
  "write_fields [] h = Some h"
| "write_fields ((start, count, v) # fs) h = Option.bind (set_bits h start count v) (write_fields fs)"

text \<open>\<open>Metadata::header\<close>\<close>

definition header :: "Metadata \<Rightarrow> u32 list option" where
  "header m = write_fields (header_fields m) (replicate 20 0)"

section \<open>Packages\<close>

record Limits =
  limit_cb_sizes :: "u32 list"
  limit_resource_mask :: u64

record Program =
  metadata :: Metadata
  code :: bytes

definition program_sized :: "Program \<Rightarrow> bool" where
  "program_sized p \<longleftrightarrow> metadata_sized (metadata p)"

text \<open>The assignments of \<open>parse\<close> to the fields of the metadata.\<close>

definition parse_metadata :: "bytes \<Rightarrow> Stage \<Rightarrow> (Error, Metadata) outcome" where
  "parse_metadata b s =
     (let m = metadata_new s in
      and_then (byte_at b 17) (\<lambda>gpr. and_then (read_le 2 b 18) (\<lambda>flag.
      and_then (read_le 8 b 24) (\<lambda>mask.
      and_then (collect (\<lambda>i. read_le 4 b (32 + i * 4)) [0..<32]) (\<lambda>cbs.
      and_then (collect (\<lambda>i. read_le 4 b (160 + i * 4)) [0..<4]) (\<lambda>ains.
      and_then (collect (\<lambda>i. read_le 4 b (176 + i * 4)) [0..<4]) (\<lambda>aouts.
      and_then (read_le 4 b 192) (\<lambda>iab. and_then (read_le 4 b 196) (\<lambda>oab.
      and_then (read_le 2 b 200) (\<lambda>ic. and_then (read_le 2 b 202) (\<lambda>oc.
      and_then (byte_at b 204) (\<lambda>idd. and_then (byte_at b 205) (\<lambda>od.
      and_then (byte_at b 206) (\<lambda>rs. and_then (byte_at b 207) (\<lambda>re.
      and_then (subslice b 208 128) (\<lambda>fsi. and_then (subslice b 336 8) (\<lambda>fsd.
      and_then (read_le 4 b 344) (\<lambda>color.
      Ok (m\<lparr>gprs := gpr, flags := flag, resource_mask := mask, cb_sizes := cbs, attr_in := ains,
          attr_out := aouts, sysvals_in_ab := iab, sysvals_out_ab := oab, sysvals_in_c := ic,
          sysvals_out_c := oc, sysvals_in_d := idd, sysvals_out_d := od, store_req_start := rs,
          store_req_end := re, fs_inputs := fsi, fs_sysvals_d := fsd,
          fs_color_mask := color\<rparr>)))))))))))))))))))"

definition parse :: "bytes \<Rightarrow> (Error, Program) outcome" where
  "parse b =
     (if length b < HEADER_SIZE then Err Truncated else
      and_then (subslice b 0 8) (\<lambda>magic. and_then (read_le 2 b 10) (\<lambda>header_size :: u16.
      if magic \<noteq> MAGIC \<or> unat header_size \<noteq> HEADER_SIZE then Err Format else
      and_then (read_le 2 b 8) (\<lambda>version.
      if version \<noteq> VERSION then Err Version else
      and_then (read_le 4 b 12) (\<lambda>size :: u32.
      if size = 0 \<or> MAX_CODE_SIZE < unat size \<or> unat size mod 32 \<noteq> 0
         \<or> length b \<noteq> HEADER_SIZE + unat size
      then Err Size else
      and_then (byte_at b 16) (\<lambda>raw.
      and_then (if raw = 0 then Ok Vertex else if raw = 1 then Ok Fragment else Err Metadata) (\<lambda>s.
      and_then (parse_metadata b s) (\<lambda>m.
      and_then (subslice b 20 4) (\<lambda>pad. and_then (subslice b 348 (HEADER_SIZE - 348)) (\<lambda>tail.
      if any_nonzero (pad @ tail) then Err Format else
      and_then (check m) (\<lambda>_.
      and_then (subslice b HEADER_SIZE (length b - HEADER_SIZE)) (\<lambda>rest.
      Ok \<lparr>metadata = m, code = rest\<rparr>))))))))))))"

fun stage_raw :: "Stage \<Rightarrow> u8" where
  "stage_raw Vertex = 0"
| "stage_raw Fragment = 1"

text \<open>The stores of \<open>encode_into\<close>, in program order.\<close>

definition prefix_stores :: "Program \<Rightarrow> store list" where
  "prefix_stores p =
     (let m = metadata p in
      [(0, MAGIC), (8, to_le_bytes VERSION), (10, to_le_bytes (word_of_nat HEADER_SIZE :: u16)),
       (12, to_le_bytes (word_of_nat (length (code p)) :: u32)), (16, [stage_raw (stage m)]),
       (17, [gprs m]), (18, to_le_bytes (flags m)), (24, to_le_bytes (resource_mask m))])"

definition attribute_stores :: "Metadata \<Rightarrow> store list" where
  "attribute_stores m =
     concat (map (\<lambda>i. [(160 + i * 4, to_le_bytes (attr_in m ! i)),
                     (176 + i * 4, to_le_bytes (attr_out m ! i))]) [0..<4])"

definition suffix_stores :: "Program \<Rightarrow> store list" where
  "suffix_stores p =
     (let m = metadata p in
      [(192, to_le_bytes (sysvals_in_ab m)), (196, to_le_bytes (sysvals_out_ab m)),
       (200, to_le_bytes (sysvals_in_c m)), (202, to_le_bytes (sysvals_out_c m)),
       (204, [sysvals_in_d m]), (205, [sysvals_out_d m]), (206, [store_req_start m]),
       (207, [store_req_end m]), (208, fs_inputs m), (336, fs_sysvals_d m),
       (344, to_le_bytes (fs_color_mask m)), (HEADER_SIZE, code p)])"

definition program_stores :: "Program \<Rightarrow> store list" where
  "program_stores p =
     prefix_stores p
     @ concat (map (\<lambda>i. [(32 + i * 4, to_le_bytes (cb_sizes (metadata p) ! i))]) [0..<32])
     @ attribute_stores (metadata p) @ suffix_stores p"

definition encode_into :: "Program \<Rightarrow> bytes \<Rightarrow> bytes \<times> (Error, unit) outcome" where
  "encode_into p b =
     (case check (metadata p) of
        Err e \<Rightarrow> (b, Err e)
      | Panic \<Rightarrow> (b, Panic)
      | Ok _ \<Rightarrow>
          if code p = [] \<or> MAX_CODE_SIZE < length (code p) \<or> length (code p) mod 32 \<noteq> 0
             \<or> length b \<noteq> HEADER_SIZE + length (code p)
          then (b, Err Size)
          else case fill_and_write (program_stores p) b of
                 Some b' \<Rightarrow> (b', Ok ())
               | None \<Rightarrow> (b, Panic))"

end
