(* ===== verification/Verify.thy ===== *)
theory Verify
  imports Opcodes Program_Wire
begin

text \<open>
  \<open>shared/maxwell-program-wire/src/verify.rs\<close>: the checks of every instruction of an untrusted
  program, and the pass over its control flow that proves the reconvergence stack safe.
  The tests of \<open>decode\<close> are grouped into functions that return \<open>None\<close> where the code falls
  through to the next test and \<open>Some\<close> of the result where it returns. Code offsets and
  instruction numbers (\<open>usize\<close>) are numbers; the branch target, an \<open>i64\<close>, is an integer.
\<close>

section \<open>Data\<close>

record Validated =
  v_header :: "u32 list"
  v_stage :: Stage
  v_gprs :: u8
  v_resource_mask :: u64
  v_cb_sizes :: "u32 list"
  max_control_depth :: nat

datatype Flow = FNext | FExit | FBranch u16 | FPush u8 u16 | FPop u8

record Stack =
  entries :: "u16 list"
  depth :: nat

definition EMPTY_STACK :: Stack where
  "EMPTY_STACK = \<lparr>entries = replicate 16 0, depth = 0\<rparr>"

text \<open>\<open>xs[i]\<close> with its bounds check.\<close>

definition index_at :: "'a list \<Rightarrow> nat \<Rightarrow> (Error, 'a) outcome" where
  "index_at xs i = (if i < length xs then Ok (xs ! i) else Panic)"

text \<open>\<open>x & (1 << n) != 0\<close>: a shift by the width of the type or more panics.\<close>

definition has_bit :: "'a::len word \<Rightarrow> nat \<Rightarrow> (Error, bool) outcome" where
  "has_bit x n = (if n < LENGTH('a) then Ok (x AND push_bit n 1 \<noteq> 0) else Panic)"

section \<open>Fields of instruction words\<close>

text \<open>\<open>mask\<close>, \<open>field\<close>, \<open>exact\<close>, \<open>reg\<close> and \<open>cb\<close>.\<close>

definition field_mask :: "nat \<Rightarrow> nat \<Rightarrow> u64" where
  "field_mask start len = (if len = 64 then - 1 else push_bit start (push_bit len 1 - 1))"

definition field :: "u64 \<Rightarrow> nat \<Rightarrow> nat \<Rightarrow> u64" where
  "field w start len = drop_bit start w AND (push_bit len 1 - 1)"

definition exact :: "u64 \<Rightarrow> u16 \<Rightarrow> u64 \<Rightarrow> u64 \<Rightarrow> bool" where
  "exact w opcode variables fixed_low \<longleftrightarrow>
     w AND NOT variables = (push_bit 48 (ucast opcode) OR fixed_low) AND NOT variables"

definition PRED :: u64 where "PRED = field_mask 16 4"

definition reg :: "u64 \<Rightarrow> nat \<Rightarrow> nat \<Rightarrow> Metadata \<Rightarrow> (Error, unit) outcome" where
  "reg w pos width m =
     (let r = unat (field w pos 8)
      in if r = 255 \<or> r + width \<le> unat (gprs m) then Ok () else Err Register)"

definition cb :: "u64 \<Rightarrow> nat \<Rightarrow> u32 \<Rightarrow> Metadata \<Rightarrow> Limits \<Rightarrow> (Error, unit) outcome" where
  "cb w pos width m limits =
     (let offset = ucast (field w pos 14) * (4 :: u32);
          bank = unat (field w (pos + 14) 5)
      in and_then (ok_or (checked_add offset width) ConstantBuffer) (\<lambda>stop.
         and_then (index_at (cb_sizes m) bank) (\<lambda>declared.
         if declared < stop then Err ConstantBuffer else
         and_then (index_at (limit_cb_sizes limits) bank) (\<lambda>allowed.
         if allowed < stop then Err ConstantBuffer else Ok ()))))"

section \<open>Attributes\<close>

definition vertex_attribute :: "Metadata \<Rightarrow> nat \<Rightarrow> bool \<Rightarrow> (Error, bool) outcome" where
  "vertex_attribute m addr write =
     (let ab = (if write then sysvals_out_ab m else sysvals_in_ab m);
          c = (if write then sysvals_out_c m else sysvals_in_c m);
          d = (if write then sysvals_out_d m else sysvals_in_d m);
          attr = (if write then attr_out m else attr_in m)
      in if addr < 0x80 then has_bit ab (addr div 4)
         else if addr < 0x280 then
           (let idx = (addr - 0x80) div 4 in and_then (index_at attr (idx div 32)) (\<lambda>x. has_bit x (idx mod 32)))
         else if 0x2c0 \<le> addr \<and> addr < 0x300 then has_bit c ((addr - 0x2c0) div 4)
         else if 0x3a0 \<le> addr \<and> addr < 0x3c0 then has_bit d ((addr - 0x3a0) div 4)
         else Ok False)"

definition fragment_attribute :: "Metadata \<Rightarrow> nat \<Rightarrow> bool \<Rightarrow> nat \<Rightarrow> (Error, bool) outcome" where
  "fragment_attribute m addr write freq =
     (if write then Ok False
      else if addr = 0x3fc then Ok (freq = 2)
      else and_then (if 0x80 \<le> addr \<and> addr < 0x280 then index_at (fs_inputs m) ((addr - 0x80) div 4)
                     else if 0x3a0 \<le> addr \<and> addr < 0x3c0 then index_at (fs_sysvals_d m) ((addr - 0x3a0) div 4)
                     else Ok 0) (\<lambda>imap.
           if addr < 0x80 then has_bit (sysvals_in_ab m) (addr div 4)
           else if 0x2c0 \<le> addr \<and> addr < 0x300 then has_bit (sysvals_in_c m) ((addr - 0x2c0) div 4)
           else Ok (imap \<noteq> 0 \<and> (if freq = 2 then imap = 1 else imap = 2 \<or> imap = 3))))"

definition attribute :: "Metadata \<Rightarrow> nat \<Rightarrow> bool \<Rightarrow> nat \<Rightarrow> (Error, bool) outcome" where
  "attribute m addr write freq =
     (if addr mod 4 \<noteq> 0 then Ok False
      else if stage m = Vertex then vertex_attribute m addr write else fragment_attribute m addr write freq)"

section \<open>Decoding\<close>

text \<open>The computational instructions of the table.\<close>

definition decode_alu :: "u64 \<Rightarrow> Metadata \<Rightarrow> Limits \<Rightarrow> (Error, Flow) outcome option" where
  "decode_alu w m limits =
     (case find_alu_encoding w of
        None \<Rightarrow> None
      | Some e \<Rightarrow> Some (
          and_then (for_each (\<lambda>r _. reg w (fst r) (snd r) m) (op_regs e) ()) (\<lambda>_.
          if op_fp64 e \<and> flags m AND FLAG_FP64 = 0 then Err Metadata else
          and_then (case op_cb e of
                      NoCb \<Rightarrow> Ok ()
                    | Word pos \<Rightarrow> cb w pos 4 m limits
                    | Double pos \<Rightarrow> cb w pos 8 m limits) (\<lambda>_.
          Ok FNext))))"

text \<open>The target of a relative branch: \<open>(raw << 40) >> 40\<close> sign-extends the 24-bit field.\<close>

definition relative_target :: "u64 \<Rightarrow> nat \<Rightarrow> int" where
  "relative_target w ip =
     (let raw = field w 20 24;
          rel = sint (signed_drop_bit 40 (push_bit 40 raw))
      in int ip + 8 + rel)"

definition branch_index :: "u64 \<Rightarrow> nat \<Rightarrow> nat \<Rightarrow> (Error, u16) outcome" where
  "branch_index w ip len =
     (let target = relative_target w ip
      in if target < 8 \<or> int len \<le> target \<or> target mod 8 \<noteq> 0 \<or> target mod 32 = 0 then Err Branch
         else Ok (word_of_nat ((nat target div 32) * 3 + (nat target mod 32) div 8 - 1)))"

definition BRANCH_FORMS :: "(u16 \<times> u8) list" where
  "BRANCH_FORMS = [(0xe240, 0), (0xe290, 1), (0xe2a0, 2), (0xe2b0, 3)]"

definition POP_FORMS :: "(u16 \<times> u8) list" where
  "POP_FORMS = [(0xf0f8, 1), (0xe340, 2), (0xe350, 3)]"

fun decode_branch :: "(u16 \<times> u8) list \<Rightarrow> u64 \<Rightarrow> nat \<Rightarrow> nat \<Rightarrow> (Error, Flow) outcome option" where
  "decode_branch [] w ip len = None"
| "decode_branch ((opcode, kind) # forms) w ip len =
     (if exact w opcode (PRED OR field_mask 20 24) 0xf
      then Some (and_then (branch_index w ip len) (\<lambda>index.
             Ok (if kind = 0 then FBranch index else FPush kind index)))
      else decode_branch forms w ip len)"

fun decode_pop :: "(u16 \<times> u8) list \<Rightarrow> u64 \<Rightarrow> (Error, Flow) outcome option" where
  "decode_pop [] w = None"
| "decode_pop ((opcode, kind) # forms) w =
     (if exact w opcode PRED 0xf then Some (Ok (FPop kind)) else decode_pop forms w)"

definition decode_kill :: "u64 \<Rightarrow> Metadata \<Rightarrow> (Error, Flow) outcome option" where
  "decode_kill w m =
     (if exact w 0xe330 PRED 0xf
      then Some (if stage m \<noteq> Fragment \<or> flags m AND FLAG_KILL = 0 then Err Metadata else Ok FNext)
      else None)"

definition decode_control :: "u64 \<Rightarrow> nat \<Rightarrow> nat \<Rightarrow> Metadata \<Rightarrow> (Error, Flow) outcome option" where
  "decode_control w ip len m =
     (if exact w 0x50b0 PRED 0xf00 then Some (Ok FNext)
      else if exact w 0xe300 PRED 0xf then Some (Ok FExit)
      else case decode_branch BRANCH_FORMS w ip len of
             Some r \<Rightarrow> Some r
           | None \<Rightarrow> (case decode_pop POP_FORMS w of
                        Some r \<Rightarrow> Some r
                      | None \<Rightarrow> decode_kill w m))"

text \<open>The authority check of a texture handle, and the registers that receive its components.\<close>

definition texture_resource :: "u64 \<Rightarrow> Metadata \<Rightarrow> Limits \<Rightarrow> (Error, unit) outcome" where
  "texture_resource w m limits =
     and_then (ok_or (checked_sub (field w 36 13) 8) Resource) (\<lambda>resource.
     if 64 \<le> resource then Err Resource else
     and_then (has_bit (resource_mask m) (unat resource)) (\<lambda>declared.
     if \<not> declared then Err Resource else
     and_then (has_bit (limit_resource_mask limits) (unat resource)) (\<lambda>authorised.
     if \<not> authorised then Err Resource else Ok ())))"

definition count_ones :: "u64 \<Rightarrow> nat" where
  "count_ones w = length (filter (bit w) [0..<64])"

definition TEXTURE_COMMON :: u64 where
  "TEXTURE_COMMON = PRED OR field_mask 0 16 OR field_mask 20 15 OR field_mask 36 15"

definition TEXTURE_FORMS :: "(u16 \<times> u64 \<times> nat) list" where
  "TEXTURE_FORMS =
     [(0xc038, TEXTURE_COMMON OR field_mask 35 1 OR field_mask 54 3, 0),
      (0xdc38, TEXTURE_COMMON OR field_mask 35 1 OR field_mask 55 1, 1),
      (0xc838, TEXTURE_COMMON OR field_mask 54 4, 2),
      (0xdf58, (TEXTURE_COMMON AND NOT (field_mask 50 1)) OR field_mask 35 1, 3),
      (0xde38, (TEXTURE_COMMON AND NOT (field_mask 50 1)) OR field_mask 35 1, 4)]"

fun decode_texture :: "(u16 \<times> u64 \<times> nat) list \<Rightarrow> u64 \<Rightarrow> Metadata \<Rightarrow> Limits \<Rightarrow> (Error, Flow) outcome option" where
  "decode_texture [] w m limits = None"
| "decode_texture ((opcode, variables, kind) # forms) w m limits =
     (if exact w opcode variables 0
      then Some (
        and_then (texture_resource w m limits) (\<lambda>_.
        if field w 28 3 = 5 \<or> field w 31 4 = 0 \<or> kind = 2 \<and> field w 54 2 = 3 then Err Instruction else
        and_then (reg w 0 (count_ones (field w 31 4)) m) (\<lambda>_.
        and_then (reg w 8 1 m) (\<lambda>_.
        and_then (reg w 20 1 m) (\<lambda>_.
        Ok FNext)))))
      else decode_texture forms w m limits)"

definition TXQ_VARIABLES :: u64 where
  "TXQ_VARIABLES = PRED OR field_mask 0 16 OR field_mask 22 6 OR field_mask 31 4 OR field_mask 36 14"

definition decode_query :: "u64 \<Rightarrow> Metadata \<Rightarrow> Limits \<Rightarrow> (Error, Flow) outcome option" where
  "decode_query w m limits =
     (if exact w 0xdf48 TXQ_VARIABLES 0
      then Some (
        if field w 22 6 \<notin> {1, 2, 5} \<or> field w 31 4 = 0 then Err Instruction else
        and_then (texture_resource w m limits) (\<lambda>_.
        and_then (reg w 0 (count_ones (field w 31 4)) m) (\<lambda>_.
        and_then (reg w 8 1 m) (\<lambda>_.
        Ok FNext))))
      else None)"

text \<open>Immediate vertex attribute loads and stores; one turn of the loop over the components.\<close>

definition io_component :: "Metadata \<Rightarrow> bool \<Rightarrow> nat \<Rightarrow> nat \<Rightarrow> unit \<Rightarrow> (Error, unit) outcome" where
  "io_component m write addr i u =
     (let scalar = addr + i * 4
      in and_then (attribute m scalar write 0) (\<lambda>allowed.
         if \<not> allowed
            \<or> write \<and> (scalar div 4 < unat (store_req_start m) \<or> unat (store_req_end m) < scalar div 4)
         then Err Attribute else Ok ()))"

definition IO_VARIABLES :: u64 where
  "IO_VARIABLES = PRED OR field_mask 0 8 OR field_mask 20 10 OR field_mask 47 2"

definition IO_FORMS :: "(u16 \<times> bool) list" where
  "IO_FORMS = [(0xefd8, False), (0xeff0, True)]"

fun decode_io :: "(u16 \<times> bool) list \<Rightarrow> u64 \<Rightarrow> Metadata \<Rightarrow> (Error, Flow) outcome option" where
  "decode_io [] w m = None"
| "decode_io ((opcode, write) # forms) w m =
     (if exact w opcode IO_VARIABLES (0xff00 OR push_bit 39 255 OR (if write then push_bit 32 1 else 0))
      then Some (
        if stage m \<noteq> Vertex then Err Attribute else
        let addr = unat (field w 20 10); comps = unat (field w 47 2) + 1 in
        and_then (reg w 0 comps m) (\<lambda>_.
        and_then (for_each (io_component m write addr) [0..<comps] ()) (\<lambda>_.
        Ok FNext)))
      else decode_io forms w m)"

definition IPA_VARIABLES :: u64 where
  "IPA_VARIABLES = PRED OR field_mask 0 8 OR field_mask 20 18 OR field_mask 52 4"

definition decode_interpolate :: "u64 \<Rightarrow> Metadata \<Rightarrow> (Error, Flow) outcome option" where
  "decode_interpolate w m =
     (if exact w 0xe000 IPA_VARIABLES (0xff00 OR push_bit 39 255 OR push_bit 47 7)
      then Some (
        if stage m \<noteq> Fragment \<or> field w 52 2 = 3 then Err Attribute else
        and_then (attribute m (unat (field w 28 10)) False (unat (field w 54 2))) (\<lambda>allowed.
        if \<not> allowed then Err Attribute else
        and_then (reg w 0 1 m) (\<lambda>_.
        and_then (reg w 20 1 m) (\<lambda>_.
        Ok FNext))))
      else None)"

definition decode_system :: "u64 \<Rightarrow> Metadata \<Rightarrow> (Error, Flow) outcome option" where
  "decode_system w m =
     (if exact w 0xf0c8 (PRED OR field_mask 0 8 OR field_mask 20 8) 0
      then Some (
        let idx = field w 20 8 in
        if \<not> (idx = 0 \<or> idx = 0x10 \<or> idx = 0x11 \<or> idx = 0x13 \<or> 0x38 \<le> idx \<and> idx \<le> 0x3c)
        then Err Instruction else
        and_then (reg w 0 1 m) (\<lambda>_. Ok FNext))
      else None)"

definition decode_pixel :: "u64 \<Rightarrow> Metadata \<Rightarrow> (Error, Flow) outcome option" where
  "decode_pixel w m =
     (if exact w 0xefe8 (PRED OR field_mask 0 8 OR field_mask 31 3) (0xff00 OR push_bit 45 7)
      then Some (
        if stage m \<noteq> Fragment \<or> \<not> (1 \<le> field w 31 3 \<and> field w 31 3 \<le> 5) then Err Instruction else
        and_then (reg w 0 1 m) (\<lambda>_. Ok FNext))
      else None)"

definition decode_predicate :: "u64 \<Rightarrow> Metadata \<Rightarrow> (Error, Flow) outcome option" where
  "decode_predicate w m =
     (if exact w 0x50d8 (PRED OR field_mask 0 8 OR field_mask 39 4 OR field_mask 45 5) 0
      then Some (
        if 2 < field w 48 2 then Err Instruction else
        and_then (reg w 0 1 m) (\<lambda>_. Ok FNext))
      else None)"

text \<open>The first test that applies decides; an unspecified encoding is refused.\<close>

fun first_of :: "'a option list \<Rightarrow> 'a \<Rightarrow> 'a" where
  "first_of [] d = d"
| "first_of (Some r # rs) d = r"
| "first_of (None # rs) d = first_of rs d"

definition decode :: "u64 \<Rightarrow> nat \<Rightarrow> nat \<Rightarrow> Metadata \<Rightarrow> Limits \<Rightarrow> (Error, Flow) outcome" where
  "decode w ip len m limits =
     first_of
       [decode_alu w m limits, decode_control w ip len m, decode_texture TEXTURE_FORMS w m limits,
        decode_query w m limits, decode_io IO_FORMS w m, decode_interpolate w m, decode_system w m,
        decode_pixel w m, decode_predicate w m]
       (Err Instruction)"

section \<open>Control flow\<close>

definition instruction_word :: "bytes \<Rightarrow> nat \<Rightarrow> (Error, u64) outcome" where
  "instruction_word prog index = read_le 8 prog (index div 3 * 32 + 8 + index mod 3 * 8)"

text \<open>The vector of pending instructions is a list whose head is its last element.\<close>

type_synonym control_state = "Stack option list \<times> nat list"

definition propagate :: "nat \<Rightarrow> Stack \<Rightarrow> control_state \<Rightarrow> (Error, control_state) outcome" where
  "propagate ip stack s =
     (case s of (states, work) \<Rightarrow>
        if ip < length states
        then case states ! ip of
               Some old \<Rightarrow> if old \<noteq> stack then Err ControlStack else Ok (states, work)
             | None \<Rightarrow> Ok (states[ip := Some stack], ip # work)
        else Err Fallthrough)"

text \<open>The loop that pops the frames of a \<open>Pop\<close>; the depth decreases in every turn.\<close>

fun pop_frames :: "u8 \<Rightarrow> u16 list \<Rightarrow> nat \<Rightarrow> (Error, u16 \<times> Stack) outcome" where
  "pop_frames kind es 0 = Err ControlStack"
| "pop_frames kind es (Suc n) =
     and_then (index_at es n) (\<lambda>entry.
       let es' = es[n := 0]; ty = ucast (entry AND 3) :: u8 in
       if ty = kind then Ok (drop_bit 2 entry, \<lparr>entries = es', depth = n\<rparr>)
       else if kind = 1 \<or> kind = 3 \<and> ty \<noteq> 1 \<or> kind = 2 \<and> ty = 2 then Err ControlStack
       else pop_frames kind es' n)"

definition push_frame :: "u8 \<Rightarrow> u16 \<Rightarrow> Stack \<Rightarrow> (Error, Stack) outcome" where
  "push_frame kind target stack =
     (if depth stack = 16 then Err ControlStack else
      and_then (index_at (entries stack) (depth stack)) (\<lambda>_.
      Ok \<lparr>entries = (entries stack)[depth stack := push_bit 2 target OR ucast kind],
          depth = depth stack + 1\<rparr>))"

definition flow_step :: "Flow \<Rightarrow> bool \<Rightarrow> nat \<Rightarrow> Stack \<Rightarrow> nat \<Rightarrow> control_state \<Rightarrow> (Error, control_state \<times> nat) outcome" where
  "flow_step flow conditional ip stack maximum s =
     (case flow of
        FNext \<Rightarrow>
          if \<not> conditional then and_then (propagate (ip + 1) stack s) (\<lambda>s. Ok (s, maximum)) else Ok (s, maximum)
      | FExit \<Rightarrow> Ok (s, maximum)
      | FBranch target \<Rightarrow> and_then (propagate (unat target) stack s) (\<lambda>s. Ok (s, maximum))
      | FPush kind target \<Rightarrow>
          and_then (push_frame kind target stack) (\<lambda>pushed.
          and_then (propagate (ip + 1) pushed s) (\<lambda>s. Ok (s, max maximum (depth pushed))))
      | FPop kind \<Rightarrow>
          and_then (pop_frames kind (entries stack) (depth stack)) (\<lambda>(target, popped).
          and_then (propagate (unat target) popped s) (\<lambda>s. Ok (s, maximum))))"

text \<open>One turn of the loop of \<open>prove_control\<close>, for the instruction taken from the worklist.\<close>

definition control_turn :: "bytes \<Rightarrow> Flow list \<Rightarrow> nat \<Rightarrow> nat \<Rightarrow> control_state \<Rightarrow> (Error, control_state \<times> nat) outcome" where
  "control_turn prog flows ip maximum s =
     and_then (index_at (fst s) ip) (\<lambda>state.
     and_then (unwrap state) (\<lambda>stack.
     and_then (instruction_word prog ip) (\<lambda>word.
     let conditional = field word 16 3 \<noteq> 7; never = field word 16 4 = 15 in
     and_then (if conditional \<or> never then propagate (ip + 1) stack s else Ok s) (\<lambda>s.
     if never then Ok (s, maximum) else
     and_then (index_at flows ip) (\<lambda>flow.
     flow_step flow conditional ip stack maximum s)))))"

text \<open>
  The loop of \<open>prove_control\<close> ends: a turn either enters an instruction in \<open>states\<close>, which has a
  bounded number of empty entries, or shortens the worklist.
\<close>

definition unvisited :: "Stack option list \<Rightarrow> nat" where
  "unvisited states = length (filter (\<lambda>s. s = None) states)"

definition control_measure :: "control_state \<Rightarrow> nat" where
  "control_measure s = 2 * unvisited (fst s) + length (snd s)"

lemma unvisited_update:
  "i < length states \<Longrightarrow> states ! i = None \<Longrightarrow> Suc (unvisited (states[i := Some x])) = unvisited states"
proof (induction states arbitrary: i)
  case (Cons y ys)
  then show ?case by (cases i) (auto simp: unvisited_def)
qed simp

lemma propagate_measure:
  assumes "propagate ip stack s = Ok t"
  shows "control_measure t \<le> control_measure s"
proof -
  obtain states work where s: "s = (states, work)" by fastforce
  show ?thesis
    using assms unvisited_update[of ip states stack]
    by (auto simp: s propagate_def control_measure_def split: if_splits option.splits)
qed

lemma flow_step_measure:
  "flow_step flow c ip stack maximum s = Ok (t, n) \<Longrightarrow> control_measure t \<le> control_measure s"
  by (cases flow)
    (auto simp: flow_step_def outcome_simps split: if_splits prod.splits dest: propagate_measure)

lemma control_turn_measure:
  assumes "control_turn prog flows ip maximum s = Ok (t, n)"
  shows "control_measure t \<le> control_measure s"
proof -
  obtain stack word u where
    "(if field word 16 3 \<noteq> 7 \<or> field word 16 4 = 15 then propagate (ip + 1) stack s else Ok s) = Ok u"
    and rest: "(if field word 16 4 = 15 then Ok (u, maximum)
       else and_then (index_at flows ip) (\<lambda>flow.
         flow_step flow (field word 16 3 \<noteq> 7) ip stack maximum u)) = Ok (t, n)"
    using assms unfolding control_turn_def Let_def and_then_eq_Ok by blast
  then have "control_measure u \<le> control_measure s"
    by (auto split: if_splits dest: propagate_measure)
  moreover have "control_measure t \<le> control_measure u"
    using rest by (auto simp: outcome_simps split: if_splits dest: flow_step_measure)
  ultimately show ?thesis by simp
qed

lemma and_then_cong [fundef_cong]:
  "r = r' \<Longrightarrow> (\<And>a. r' = Ok a \<Longrightarrow> f a = g a) \<Longrightarrow> and_then r f = and_then r' g"
  by (cases r') auto

function control_loop :: "bytes \<Rightarrow> Flow list \<Rightarrow> nat \<Rightarrow> control_state \<Rightarrow> (Error, nat) outcome" where
  "control_loop prog flows maximum (states, []) = Ok maximum"
| "control_loop prog flows maximum (states, ip # work) =
     and_then (control_turn prog flows ip maximum (states, work)) (\<lambda>(s, m). control_loop prog flows m s)"
  by pat_completeness auto

termination
  by (relation "measure (\<lambda>(prog, flows, maximum, s). control_measure s)")
    (auto dest!: control_turn_measure simp: control_measure_def)

definition prove_control :: "bytes \<Rightarrow> Flow list \<Rightarrow> (Error, nat) outcome" where
  "prove_control prog flows =
     and_then (index_at (replicate (length flows) (None :: Stack option)) 0) (\<lambda>_.
     control_loop prog flows 0 ((replicate (length flows) None)[0 := Some EMPTY_STACK], [0]))"

section \<open>Validation\<close>

definition decode_lane :: "bytes \<Rightarrow> Metadata \<Rightarrow> Limits \<Rightarrow> u64 \<Rightarrow> nat \<Rightarrow> nat \<Rightarrow> (Error, Flow) outcome" where
  "decode_lane prog m limits schedule bundle lane =
     (let sched = drop_bit (lane * 21) schedule AND 0x1fffff
      in if drop_bit 5 sched AND 7 = 6 \<or> drop_bit 8 sched AND 7 = 6 then Err Scheduling else
         let ip = bundle * 32 + 8 + lane * 8 in
         and_then (read_le 8 prog ip) (\<lambda>w. decode w ip (length prog) m limits))"

definition decode_bundle :: "bytes \<Rightarrow> Metadata \<Rightarrow> Limits \<Rightarrow> nat \<Rightarrow> (Error, Flow list) outcome" where
  "decode_bundle prog m limits bundle =
     and_then (read_le 8 prog (bundle * 32)) (\<lambda>schedule.
     if drop_bit 63 schedule \<noteq> 0 then Err Scheduling
     else collect (decode_lane prog m limits schedule bundle) [0..<3])"

definition decode_all :: "bytes \<Rightarrow> Metadata \<Rightarrow> Limits \<Rightarrow> (Error, Flow list) outcome" where
  "decode_all prog m limits =
     and_then (collect (decode_bundle prog m limits) [0..<length prog div 32]) (\<lambda>fss. Ok (concat fss))"

definition validate :: "Program \<Rightarrow> Limits \<Rightarrow> (Error, Validated) outcome" where
  "validate p limits =
     and_then (check (metadata p)) (\<lambda>_.
     if code p = [] \<or> MAX_CODE_SIZE < length (code p) \<or> length (code p) mod 32 \<noteq> 0 then Err Size else
     let m = metadata p in
     if resource_mask m AND NOT (limit_resource_mask limits) \<noteq> 0
        \<or> list_ex (\<lambda>i. limit_cb_sizes limits ! i < cb_sizes m ! i) [0..<32]
     then Err Resource else
     and_then (decode_all (code p) m limits) (\<lambda>flows.
     and_then (prove_control (code p) flows) (\<lambda>d.
     and_then (unwrap (header m)) (\<lambda>h.
     Ok \<lparr>v_header = h, v_stage = stage m, v_gprs = gprs m, v_resource_mask = resource_mask m,
         v_cb_sizes = cb_sizes m, max_control_depth = d\<rparr>))))"

end
