(* ===== verification/Verify_Control.thy ===== *)
theory Verify_Control
  imports Verify
begin

text \<open>
  The contract of \<open>prove_control\<close>: an abstract machine with an unbounded reconvergence stack of frames,
  and the proof that the worklist pass computes, for every instruction it can reach, the one stack
  with which the machine arrives there.
\<close>

section \<open>The abstract machine\<close>

text \<open>A frame is its kind (1: synchronise, 2: break, 3: continue) and the instruction it resumes at.\<close>

type_synonym frame = "u8 \<times> nat"

fun discards :: "u8 \<Rightarrow> u8 \<Rightarrow> bool" where
  "discards kind k \<longleftrightarrow> kind = 2 \<or> kind = 3 \<and> k = 1"

fun unwind :: "u8 \<Rightarrow> frame list \<Rightarrow> (nat \<times> frame list) option" where
  "unwind kind [] = None"
| "unwind kind ((k, t) # fs) =
     (if k = kind then Some (t, fs) else if discards kind k then unwind kind fs else None)"

definition never :: "u64 \<Rightarrow> bool" where
  "never w \<longleftrightarrow> field w 16 4 = 15"

definition may_skip :: "u64 \<Rightarrow> bool" where
  "may_skip w \<longleftrightarrow> field w 16 3 \<noteq> 7 \<or> never w"

text \<open>
  \<open>instr\<close> gives the word and the decoded flow of an instruction number. A predicated instruction may
  be skipped; one with the predicate \<open>!PT\<close> always is.
\<close>

inductive machine_step :: "(nat \<Rightarrow> (u64 \<times> Flow) option) \<Rightarrow> nat \<times> frame list \<Rightarrow> nat \<times> frame list \<Rightarrow> bool"
  for instr where
  skip: "instr ip = Some (w, f) \<Longrightarrow> may_skip w \<Longrightarrow> machine_step instr (ip, fs) (Suc ip, fs)"
| fall: "instr ip = Some (w, FNext) \<Longrightarrow> \<not> never w \<Longrightarrow> machine_step instr (ip, fs) (Suc ip, fs)"
| branch: "instr ip = Some (w, FBranch t) \<Longrightarrow> \<not> never w \<Longrightarrow> machine_step instr (ip, fs) (unat t, fs)"
| push: "instr ip = Some (w, FPush k t) \<Longrightarrow> \<not> never w \<Longrightarrow>
     machine_step instr (ip, fs) (Suc ip, (k, unat t) # fs)"
| pop: "instr ip = Some (w, FPop k) \<Longrightarrow> \<not> never w \<Longrightarrow> unwind k fs = Some (t, fs') \<Longrightarrow>
     machine_step instr (ip, fs) (t, fs')"

inductive_cases machine_stepE: "machine_step instr (ip, fs) (ip', fs')"

definition machine_reaches :: "(nat \<Rightarrow> (u64 \<times> Flow) option) \<Rightarrow> nat \<times> frame list \<Rightarrow> bool" where
  "machine_reaches instr s \<longleftrightarrow> (machine_step instr)\<^sup>*\<^sup>* (0, []) s"

lemma machine_reaches_start: "machine_reaches instr (0, [])"
  by (simp add: machine_reaches_def)

lemma machine_reaches_step: "machine_reaches instr s \<Longrightarrow> machine_step instr s t \<Longrightarrow> machine_reaches instr t"
  by (auto simp: machine_reaches_def)

section \<open>The stack of the verifier as frames\<close>

definition entry_frame :: "u16 \<Rightarrow> frame" where
  "entry_frame e = (ucast (e AND 3), unat (drop_bit 2 e))"

definition frames_of :: "Stack \<Rightarrow> frame list" where
  "frames_of s = map entry_frame (rev (take (depth s) (entries s)))"

definition frame_ok :: "nat \<Rightarrow> frame \<Rightarrow> bool" where
  "frame_ok n f \<longleftrightarrow> fst f \<in> {1, 2, 3} \<and> snd f < n"

definition stack_ok :: "nat \<Rightarrow> Stack \<Rightarrow> bool" where
  "stack_ok n s \<longleftrightarrow> length (entries s) = 16 \<and> depth s \<le> 16 \<and> list_all (frame_ok n) (frames_of s)
     \<and> list_all (\<lambda>e. e = 0) (drop (depth s) (entries s))"

definition flow_ok :: "nat \<Rightarrow> Flow \<Rightarrow> bool" where
  "flow_ok n f =
     (case f of
        FBranch t \<Rightarrow> unat t < n
      | FPush k t \<Rightarrow> k \<in> {1, 2, 3} \<and> unat t < n
      | FPop k \<Rightarrow> k \<in> {1, 2, 3}
      | _ \<Rightarrow> True)"

lemma length_frames_of: "stack_ok n s \<Longrightarrow> length (frames_of s) = depth s"
  by (simp add: frames_of_def stack_ok_def)

lemma frames_of_empty [simp]: "frames_of EMPTY_STACK = []"
  by (simp add: frames_of_def EMPTY_STACK_def)

lemma stack_ok_empty: "stack_ok n EMPTY_STACK"
  by (simp add: stack_ok_def) (simp add: EMPTY_STACK_def list_all_length)

lemma entry_frame_packed:
  assumes "k \<in> {1, 2, 3 :: u8}" "unat (t :: u16) < 2 ^ 14"
  shows "entry_frame (push_bit 2 t OR ucast k) = (k, unat t)"
proof -
  have k: "unat (ucast k :: u16) < 2 ^ 2" using assms(1) by auto
  have t: "unat (push_bit 2 t) = unat t * 4" using unat_push_bit[of t 2] assms(2) by simp
  have "drop_bit 2 (push_bit 2 t OR ucast k) = drop_bit 2 (push_bit 2 t) OR (drop_bit 2 (ucast k) :: u16)"
    by (rule drop_bit_or)
  moreover have "drop_bit 2 (ucast k :: u16) = 0"
    using k unat_drop_bit[of 2 "ucast k :: u16"] by (simp only: unat_eq_zero[symmetric]) simp
  moreover have "drop_bit 2 (push_bit 2 t) = t"
    by (rule word_unat_eq_iff[THEN iffD2]) (simp only: unat_drop_bit t, simp)
  ultimately have "drop_bit 2 (push_bit 2 t OR ucast k) = t" by simp
  moreover have "(push_bit 2 t OR ucast k) AND 3 = (ucast k :: u16)"
  proof -
    have "push_bit 2 t AND 3 = 0"
    proof -
      have "(3 :: u16) = mask 2" by (simp add: mask_eq_exp_minus_1)
      then have "push_bit 2 t AND 3 = take_bit 2 (push_bit 2 t)" by (simp only: take_bit_eq_mask)
      also have "\<dots> = 0" by (simp only: take_bit_push_bit) simp
      finally show ?thesis .
    qed
    moreover have "(ucast k :: u16) AND 3 = ucast k" using assms(1) by auto
    ultimately show ?thesis by (simp only: bit.conj_disj_distrib2 or.left_neutral bit_eqI)
  qed
  moreover have "ucast (ucast k :: u16) = k" using assms(1) by auto
  ultimately show ?thesis by (simp add: entry_frame_def)
qed

lemma frames_of_push:
  assumes "push_frame k t s = Ok s'" "stack_ok n s" "k \<in> {1, 2, 3}" "unat t < n" "n \<le> 2 ^ 14"
  shows "stack_ok n s'" "frames_of s' = (k, unat t) # frames_of s" "depth s' = Suc (depth s)"
proof -
  have d: "depth s < 16" and len: "length (entries s) = 16"
    and s': "s' = \<lparr>entries = (entries s)[depth s := push_bit 2 t OR ucast k], depth = depth s + 1\<rparr>"
    using assms(1,2) by (auto simp: push_frame_def stack_ok_def outcome_simps split: if_splits)
  have "take (Suc (depth s)) ((entries s)[depth s := e]) = take (depth s) (entries s) @ [e]" for e
    using d len by (simp add: take_Suc_conv_app_nth)
  then show f: "frames_of s' = (k, unat t) # frames_of s"
    using entry_frame_packed[of k t] assms(3,4,5) by (simp add: frames_of_def s')
  have "drop (depth s) (entries s) = entries s ! depth s # drop (Suc (depth s)) (entries s)"
    using d len by (simp add: Cons_nth_drop_Suc)
  then have z: "list_all (\<lambda>e. e = 0) (drop (Suc (depth s)) (entries s))"
    using assms(2) by (simp add: stack_ok_def)
  show "depth s' = Suc (depth s)" by (simp add: s')
  then show "stack_ok n s'"
    using assms(2,3,4) f d z by (auto simp: stack_ok_def frame_ok_def s')
qed

lemma pop_frames_unwind:
  assumes "kind \<in> {1, 2, 3}" "n \<le> length es"
  shows "case pop_frames kind es n of
      Ok (t, s') \<Rightarrow> unwind kind (frames_of \<lparr>entries = es, depth = n\<rparr>) = Some (unat t, frames_of s')
        \<and> length (entries s') = length es \<and> depth s' < n
        \<and> (list_all (\<lambda>e. e = 0) (drop n es) \<longrightarrow> list_all (\<lambda>e. e = 0) (drop (depth s') (entries s')))
        \<and> (\<exists>fs. frames_of \<lparr>entries = es, depth = n\<rparr> = fs @ (kind, unat t) # frames_of s')
    | Err e \<Rightarrow> unwind kind (frames_of \<lparr>entries = es, depth = n\<rparr>) = None
    | Panic \<Rightarrow> False"
  using assms
proof (induction kind es n rule: pop_frames.induct)
  case (1 kind es)
  show ?case by (simp add: frames_of_def)
next
  case (2 kind es n)
  have n: "n < length es" using "2.prems"(2) by simp
  let ?ty = "ucast (es ! n AND 3) :: u8"
  let ?s = "\<lparr>entries = es[n := 0], depth = n\<rparr>"
  have fr: "frames_of \<lparr>entries = es, depth = Suc n\<rparr> = (?ty, unat (drop_bit 2 (es ! n))) # frames_of ?s"
    using n by (simp add: frames_of_def take_Suc_conv_app_nth entry_frame_def)
  have z: "drop n (es[n := 0]) = 0 # drop (Suc n) es"
    using n by (simp add: Cons_nth_drop_Suc[symmetric] drop_update_cancel)
  consider (found) "?ty = kind"
    | (stop) "?ty \<noteq> kind" "kind = 1 \<or> kind = 3 \<and> ?ty \<noteq> 1 \<or> kind = 2 \<and> ?ty = 2"
    | (more) "?ty \<noteq> kind" "\<not> (kind = 1 \<or> kind = 3 \<and> ?ty \<noteq> 1 \<or> kind = 2 \<and> ?ty = 2)"
    by blast
  then show ?case
  proof cases
    case found
    then show ?thesis using n by (auto simp: index_at_def Let_def fr z)
  next
    case stop
    then show ?thesis using n by (auto simp: index_at_def Let_def fr)
  next
    case more
    have d: "discards kind ?ty" using more "2.prems"(1) by auto
    have eq: "pop_frames kind es (Suc n) = pop_frames kind (es[n := 0]) n"
      using more n by (auto simp: index_at_def Let_def)
    have u: "unwind kind (frames_of \<lparr>entries = es, depth = Suc n\<rparr>) = unwind kind (frames_of ?s)"
      using more(1) d by (simp add: fr)
    note IH = "2.IH"[OF refl refl more "2.prems"(1)]
    have "case pop_frames kind (es[n := 0]) n of
      Ok (t, s') \<Rightarrow> unwind kind (frames_of ?s) = Some (unat t, frames_of s')
        \<and> length (entries s') = length (es[n := 0]) \<and> depth s' < n
        \<and> (list_all (\<lambda>e. e = 0) (drop n (es[n := 0])) \<longrightarrow> list_all (\<lambda>e. e = 0) (drop (depth s') (entries s')))
        \<and> (\<exists>fs. frames_of ?s = fs @ (kind, unat t) # frames_of s')
    | Err e \<Rightarrow> unwind kind (frames_of ?s) = None
    | Panic \<Rightarrow> False"
      using IH n by simp
    then show ?thesis unfolding eq u
      by (auto split: outcome.splits simp: fr z)
  qed
qed

section \<open>The worklist\<close>

text \<open>What a turn does to the table of stacks: entries are only added, and those are pending.\<close>

definition visited :: "control_state \<Rightarrow> nat \<Rightarrow> Stack \<Rightarrow> bool" where
  "visited s ip stack \<longleftrightarrow> ip < length (fst s) \<and> fst s ! ip = Some stack"

definition extends :: "control_state \<Rightarrow> control_state \<Rightarrow> bool" where
  "extends s t \<longleftrightarrow>
     length (fst t) = length (fst s) \<and> set (snd s) \<subseteq> set (snd t)
     \<and> (\<forall>i < length (fst s). \<forall>x. fst s ! i = Some x \<longrightarrow> fst t ! i = Some x)
     \<and> (\<forall>i < length (fst s). fst t ! i \<noteq> fst s ! i \<longrightarrow> i \<in> set (snd t))
     \<and> (\<forall>i \<in> set (snd t). i \<in> set (snd s) \<or> (\<exists>x. visited t i x))"

lemma extends_refl: "extends s s"
  by (simp add: extends_def)

lemma extends_visited: "extends s t \<Longrightarrow> visited s ip x \<Longrightarrow> visited t ip x"
  by (auto simp: extends_def visited_def)

lemma extends_trans:
  assumes "extends s t" "extends t u"
  shows "extends s u"
proof -
  have "i \<in> set (snd s) \<or> (\<exists>x. visited u i x)" if "i \<in> set (snd u)" for i
    using that assms extends_visited[OF assms(2)] unfolding extends_def by blast
  moreover have "i \<in> set (snd u)" if "i < length (fst s)" "fst u ! i \<noteq> fst s ! i" for i
    using that assms unfolding extends_def by (metis subsetD)
  moreover have "fst u ! i = Some x" if "i < length (fst s)" "fst s ! i = Some x" for i x
    using that assms unfolding extends_def by metis
  moreover have "length (fst u) = length (fst s)" "set (snd s) \<subseteq> set (snd u)"
    using assms unfolding extends_def by auto
  ultimately show ?thesis unfolding extends_def by blast
qed

lemma visited_unique: "visited s ip x \<Longrightarrow> visited s ip y \<Longrightarrow> x = y"
  by (simp add: visited_def)

lemma propagate_visits:
  assumes "propagate ip stack s = Ok t"
  shows "extends s t" "visited t ip stack"
    "\<And>j x. visited t j x \<Longrightarrow> visited s j x \<or> j = ip \<and> x = stack"
    "\<And>j. j \<in> set (snd t) \<Longrightarrow> j \<in> set (snd s) \<or> j = ip"
proof -
  obtain states work where s: "s = (states, work)" by fastforce
  have ip: "ip < length states"
    and t: "t = (case states ! ip of Some old \<Rightarrow> (states, work) | None \<Rightarrow> (states[ip := Some stack], ip # work))"
    and old: "\<And>x. states ! ip = Some x \<Longrightarrow> x = stack"
    using assms by (auto simp: s propagate_def split: if_splits option.splits)
  show "extends s t" "visited t ip stack"
    using ip t old by (auto simp: s extends_def visited_def nth_list_update split: option.splits)
  show "\<And>j x. visited t j x \<Longrightarrow> visited s j x \<or> j = ip \<and> x = stack"
    using ip t by (auto simp: s visited_def nth_list_update split: option.splits if_splits)
  show "\<And>j. j \<in> set (snd t) \<Longrightarrow> j \<in> set (snd s) \<or> j = ip"
    using t by (auto simp: s split: option.splits)
qed

section \<open>One turn covers the successors of its instruction\<close>

text \<open>The program of the pass: its words and its decoded flows.\<close>

definition pass_instr :: "bytes \<Rightarrow> Flow list \<Rightarrow> nat \<Rightarrow> (u64 \<times> Flow) option" where
  "pass_instr prog flows ip =
     (if ip < length flows
      then case instruction_word prog ip of Ok w \<Rightarrow> Some (w, flows ! ip) | _ \<Rightarrow> None
      else None)"

definition covered :: "(nat \<Rightarrow> (u64 \<times> Flow) option) \<Rightarrow> control_state \<Rightarrow> nat \<Rightarrow> Stack \<Rightarrow> bool" where
  "covered instr s ip stack \<longleftrightarrow>
     (\<forall>ip' fs'. machine_step instr (ip, frames_of stack) (ip', fs') \<longrightarrow>
        (\<exists>stack'. visited s ip' stack' \<and> frames_of stack' = fs'))
     \<and> (\<exists>w f. instr ip = Some (w, f)
          \<and> (\<forall>k. f = FPop k \<longrightarrow> \<not> never w \<longrightarrow> unwind k (frames_of stack) \<noteq> None))"

lemma covered_mono: "covered instr s ip x \<Longrightarrow> extends s t \<Longrightarrow> covered instr t ip x"
  unfolding covered_def by (meson extends_visited)

text \<open>What holds of the stacks recorded so far, with the greatest depth seen.\<close>

definition recorded_ok :: "(nat \<Rightarrow> (u64 \<times> Flow) option) \<Rightarrow> nat \<Rightarrow> nat \<Rightarrow> control_state \<Rightarrow> bool" where
  "recorded_ok instr n maximum s \<longleftrightarrow>
     length (fst s) = n
     \<and> (\<forall>ip x. visited s ip x \<longrightarrow> stack_ok n x \<and> depth x \<le> maximum \<and> machine_reaches instr (ip, frames_of x))
     \<and> (\<exists>ip x. visited s ip x \<and> depth x = maximum)"

lemma recorded_propagate:
  assumes "propagate ip stack s = Ok t" "recorded_ok instr n m s" "stack_ok n stack" "m \<le> m'"
    "depth stack \<le> m'" "machine_reaches instr (ip, frames_of stack)" "m' = m \<or> m' = depth stack"
  shows "recorded_ok instr n m' t"
proof -
  note v = propagate_visits[OF assms(1)]
  have "length (fst t) = n" using v(1) assms(2) by (simp add: extends_def recorded_ok_def)
  moreover have "stack_ok n x \<and> depth x \<le> m' \<and> machine_reaches instr (j, frames_of x)"
    if "visited t j x" for j x
  proof (cases "visited s j x")
    case True
    with assms(2) have "stack_ok n x \<and> depth x \<le> m \<and> machine_reaches instr (j, frames_of x)"
      unfolding recorded_ok_def by blast
    with assms(4) show ?thesis by (blast intro: order_trans)
  next
    case False
    with v(3)[OF that] assms(3,5,6) show ?thesis by blast
  qed
  moreover have "\<exists>j x. visited t j x \<and> depth x = m'"
    using assms(2,7) v(1,2) by (auto simp: recorded_ok_def dest: extends_visited)
  ultimately show ?thesis unfolding recorded_ok_def by blast
qed

text \<open>The facts about an instruction in hand that the cases of \<open>flow_step\<close> share.\<close>

definition in_hand :: "(nat \<Rightarrow> (u64 \<times> Flow) option) \<Rightarrow> nat \<Rightarrow> control_state \<Rightarrow> nat \<Rightarrow> Stack \<Rightarrow> u64 \<Rightarrow> Flow \<Rightarrow> bool" where
  "in_hand instr n s ip stack w flow \<longleftrightarrow>
     instr ip = Some (w, flow) \<and> flow_ok n flow \<and> n \<le> 2 ^ 14 \<and> \<not> never w
     \<and> stack_ok n stack \<and> machine_reaches instr (ip, frames_of stack)
     \<and> (field w 16 3 \<noteq> 7 \<longrightarrow> visited s (Suc ip) stack)"

lemma stack_depth_le: "recorded_ok instr n m s \<Longrightarrow> visited s ip stack \<Longrightarrow> depth stack \<le> m"
  by (auto simp: recorded_ok_def)

lemma propagate_covers:
  assumes "propagate j next_stack s = Ok t" "recorded_ok instr n m s" "in_hand instr n s ip stack w flow"
    "machine_step instr (ip, frames_of stack) (j, frames_of next_stack)" "stack_ok n next_stack"
    "\<And>j' fs'. machine_step instr (ip, frames_of stack) (j', fs') \<Longrightarrow>
       (j', fs') = (j, frames_of next_stack) \<or> field w 16 3 \<noteq> 7 \<and> (j', fs') = (Suc ip, frames_of stack)"
    "m' = max m (depth next_stack)"
    "\<And>k. flow = FPop k \<Longrightarrow> unwind k (frames_of stack) \<noteq> None"
  shows "extends s t \<and> recorded_ok instr n m' t \<and> covered instr t ip stack"
proof (intro conjI)
  note v = propagate_visits[OF assms(1)]
  show "extends s t" by (rule v(1))
  have "machine_reaches instr (j, frames_of next_stack)"
    using assms(3,4) machine_reaches_step by (auto simp: in_hand_def)
  then show "recorded_ok instr n m' t"
    using assms(2,5,7) by (intro recorded_propagate[OF assms(1)]) (auto simp: max_def)
  have "\<exists>x. visited t j' x \<and> frames_of x = fs'"
    if "machine_step instr (ip, frames_of stack) (j', fs')" for j' fs'
    using assms(6)[OF that] v(2) assms(3) extends_visited[OF v(1)] by (auto simp: in_hand_def)
  then show "covered instr t ip stack"
    using assms(3,8) by (auto simp: covered_def in_hand_def)
qed

lemma step_cases:
  assumes "machine_step instr (ip, fs) (j, fs')" "instr ip = Some (w, flow)" "\<not> never w"
  shows "field w 16 3 \<noteq> 7 \<and> (j, fs') = (Suc ip, fs)
    \<or> (case flow of
         FNext \<Rightarrow> (j, fs') = (Suc ip, fs)
       | FExit \<Rightarrow> False
       | FBranch t \<Rightarrow> (j, fs') = (unat t, fs)
       | FPush k t \<Rightarrow> (j, fs') = (Suc ip, (k, unat t) # fs)
       | FPop k \<Rightarrow> unwind k fs = Some (j, fs'))"
  using assms by (auto elim!: machine_stepE simp: may_skip_def)

lemma pop_frames_ok:
  assumes "pop_frames k (entries stack) (depth stack) = Ok (t, popped)" "k \<in> {1, 2, 3}" "stack_ok n stack"
  shows "unwind k (frames_of stack) = Some (unat t, frames_of popped)" "stack_ok n popped"
    "depth popped \<le> depth stack"
proof -
  have d: "depth stack \<le> length (entries stack)" using assms(3) by (simp add: stack_ok_def)
  have eta: "\<lparr>entries = entries stack, depth = depth stack\<rparr> = stack" by simp
  have p: "unwind k (frames_of stack) = Some (unat t, frames_of popped)"
    "length (entries popped) = length (entries stack)" "depth popped < depth stack"
    "list_all (\<lambda>e. e = 0) (drop (depth stack) (entries stack)) \<longrightarrow>
       list_all (\<lambda>e. e = 0) (drop (depth popped) (entries popped))"
    and ex: "\<exists>fs. frames_of stack = fs @ (k, unat t) # frames_of popped"
    using pop_frames_unwind[OF assms(2) d] unfolding eta assms(1) by simp_all
  show "unwind k (frames_of stack) = Some (unat t, frames_of popped)" "depth popped \<le> depth stack"
    using p by auto
  show "stack_ok n popped" using p ex assms(3) by (auto simp: stack_ok_def)
qed

lemma flow_step_covers:
  assumes "flow_step flow (field w 16 3 \<noteq> 7) ip stack m s = Ok (t, m')" "recorded_ok instr n m s"
    "in_hand instr n s ip stack w flow" "depth stack \<le> m"
  shows "extends s t \<and> recorded_ok instr n m' t \<and> covered instr t ip stack"
proof -
  have i: "instr ip = Some (w, flow)" "\<not> never w" "flow_ok n flow" "stack_ok n stack" "n \<le> 2 ^ 14"
    using assms(3) by (auto simp: in_hand_def)
  note cases = step_cases[where instr = instr and ip = ip and w = w and flow = flow, OF _ i(1,2)]
  note covers = propagate_covers[OF _ assms(2,3)]
  have stay: "extends s s \<and> recorded_ok instr n m s \<and> covered instr s ip stack"
    if "flow = FNext \<or> flow = FExit" "flow = FNext \<Longrightarrow> field w 16 3 \<noteq> 7"
    using that assms(2,3) i(1) cases
    by (fastforce simp: extends_refl covered_def in_hand_def split: Flow.splits)
  show ?thesis
  proof (cases flow)
    case FNext
    show ?thesis
    proof (cases "field w 16 3 = 7")
      case True
      then have "propagate (Suc ip) stack s = Ok t" "m' = m"
        using assms(1) by (auto simp: FNext flow_step_def outcome_simps)
      then show ?thesis
        using i assms(4) cases machine_step.fall[of instr ip w] by (intro covers) (auto simp: FNext)
    next
      case False
      then show ?thesis using assms(1) stay by (simp add: FNext flow_step_def)
    qed
  next
    case FExit
    then show ?thesis using assms(1) stay by (simp add: flow_step_def)
  next
    case (FBranch target)
    then have "propagate (unat target) stack s = Ok t" "m' = m"
      using assms(1) by (auto simp: flow_step_def outcome_simps)
    then show ?thesis
      using i assms(4) cases machine_step.branch[of instr ip w] by (intro covers) (auto simp: FBranch)
  next
    case (FPush k target)
    then obtain pushed where p: "push_frame k target stack = Ok pushed" "propagate (Suc ip) pushed s = Ok t"
      "m' = max m (depth pushed)"
      using assms(1) by (auto simp: flow_step_def outcome_simps)
    have "k \<in> {1, 2, 3}" "unat target < n" using i(3) by (simp_all add: flow_ok_def FPush)
    note f = frames_of_push[OF p(1) i(4) this i(5)]
    show ?thesis
    proof (rule covers[OF p(2)])
      show "machine_step instr (ip, frames_of stack) (Suc ip, frames_of pushed)"
        using i(1,2) f(2) by (simp add: FPush machine_step.push)
      show "(j', fs') = (Suc ip, frames_of pushed) \<or> field w 16 3 \<noteq> 7 \<and> (j', fs') = (Suc ip, frames_of stack)"
        if "machine_step instr (ip, frames_of stack) (j', fs')" for j' fs'
        using cases[OF that] f(2) by (simp add: FPush) blast
    qed (use f p FPush in auto)
  next
    case (FPop k)
    then obtain target popped where p: "pop_frames k (entries stack) (depth stack) = Ok (target, popped)"
      "propagate (unat target) popped s = Ok t" "m' = m"
      using assms(1) by (auto simp: flow_step_def outcome_simps)
    have "k \<in> {1, 2, 3}" using i(3) by (simp add: flow_ok_def FPop)
    note f = pop_frames_ok[OF p(1) this i(4)]
    show ?thesis
    proof (rule covers[OF p(2)])
      show "machine_step instr (ip, frames_of stack) (unat target, frames_of popped)"
        using i(1,2) f(1) by (auto simp: FPop intro: machine_step.pop)
      show "(j', fs') = (unat target, frames_of popped) \<or> field w 16 3 \<noteq> 7 \<and> (j', fs') = (Suc ip, frames_of stack)"
        if "machine_step instr (ip, frames_of stack) (j', fs')" for j' fs'
        using cases[OF that] f(1) by (simp add: FPop) blast
      show "m' = max m (depth popped)" using p(3) f(3) assms(4) by simp
      show "unwind k' (frames_of stack) \<noteq> None" if "flow = FPop k'" for k'
        using that f(1) by (simp add: FPop)
    qed (rule f(2))
  qed
qed

lemma control_turn_covers:
  assumes "control_turn prog flows ip m s = Ok (t, m')" "recorded_ok (pass_instr prog flows) n m s"
    "visited s ip stack" "length flows = n" "list_all (flow_ok n) flows" "n \<le> 2 ^ 14"
  shows "extends s t \<and> recorded_ok (pass_instr prog flows) n m' t \<and> covered (pass_instr prog flows) t ip stack"
proof -
  let ?i = "pass_instr prog flows"
  have ip: "ip < n" "fst s ! ip = Some stack" "length (fst s) = n"
    using assms(2,3) by (auto simp: recorded_ok_def visited_def)
  have idx: "index_at (fst s) ip = Ok (Some stack)" using ip by (simp add: index_at_def)
  obtain w u where w: "instruction_word prog ip = Ok w"
    and u: "(if field w 16 3 \<noteq> 7 \<or> field w 16 4 = 15 then propagate (ip + 1) stack s else Ok s) = Ok u"
    and rest: "(if field w 16 4 = 15 then Ok (u, m)
       else and_then (index_at flows ip) (\<lambda>flow. flow_step flow (field w 16 3 \<noteq> 7) ip stack m u)) = Ok (t, m')"
    using assms(1) unfolding control_turn_def Let_def idx and_then.simps unwrap.simps and_then_eq_Ok by blast
  have instr: "?i ip = Some (w, flows ! ip)" using w ip assms(4) by (simp add: pass_instr_def)
  have st: "stack_ok n stack" "depth stack \<le> m" "machine_reaches ?i (ip, frames_of stack)"
    using assms(2,3) by (auto simp: recorded_ok_def)
  have su: "extends s u \<and> recorded_ok ?i n m u \<and> (may_skip w \<longrightarrow> visited u (Suc ip) stack)"
  proof (cases "may_skip w")
    case True
    then have p: "propagate (Suc ip) stack s = Ok u" using u by (auto simp: may_skip_def never_def split: if_splits)
    moreover have "machine_reaches ?i (Suc ip, frames_of stack)"
      by (rule machine_reaches_step[OF st(3)], rule machine_step.skip[where instr = ?i, OF instr True])
    ultimately show ?thesis
      using propagate_visits(1,2)[OF p] recorded_propagate[OF p assms(2) st(1) order.refl st(2)] by blast
  next
    case False
    then show ?thesis using u assms(2) by (auto simp: may_skip_def never_def extends_refl split: if_splits)
  qed
  show ?thesis
  proof (cases "never w")
    case True
    then have t: "t = u" "m' = m" using rest by (auto simp: never_def)
    have "(j, fs') = (Suc ip, frames_of stack)" if "machine_step ?i (ip, frames_of stack) (j, fs')" for j fs'
      using that instr True by (auto elim!: machine_stepE)
    then have "covered ?i u ip stack"
      using su True instr by (auto simp: covered_def may_skip_def)
    with su show ?thesis by (simp add: t)
  next
    case False
    then have f: "flow_step (flows ! ip) (field w 16 3 \<noteq> 7) ip stack m u = Ok (t, m')"
      using rest ip assms(4) by (simp add: never_def index_at_def)
    have "in_hand ?i n u ip stack w (flows ! ip)"
      using instr su st False assms(4,5,6) ip by (auto simp: in_hand_def may_skip_def list_all_length)
    from flow_step_covers[OF f _ this st(2)] su show ?thesis by (blast intro: extends_trans)
  qed
qed

section \<open>The whole pass\<close>

definition pass_inv :: "(nat \<Rightarrow> (u64 \<times> Flow) option) \<Rightarrow> nat \<Rightarrow> nat \<Rightarrow> control_state \<Rightarrow> bool" where
  "pass_inv instr n m s \<longleftrightarrow>
     recorded_ok instr n m s \<and> visited s 0 EMPTY_STACK
     \<and> (\<forall>ip \<in> set (snd s). \<exists>x. visited s ip x)
     \<and> (\<forall>ip x. visited s ip x \<longrightarrow> ip \<in> set (snd s) \<or> covered instr s ip x)"

lemma visited_work: "visited (states, work) ip x = visited (states, work') ip x"
  by (simp add: visited_def)

lemma recorded_work: "recorded_ok instr n m (states, work) = recorded_ok instr n m (states, work')"
  by (simp add: recorded_ok_def visited_work[of states work _ _ work'])

lemma covered_work: "covered instr (states, work) ip x = covered instr (states, work') ip x"
  by (simp add: covered_def visited_work[of states work _ _ work'])

lemma control_turn_inv:
  assumes turn: "control_turn prog flows ip m (states, work) = Ok (t, m')"
    and inv: "pass_inv (pass_instr prog flows) n m (states, ip # work)"
    and flows: "length flows = n" "list_all (flow_ok n) flows" "n \<le> 2 ^ 14"
  shows "pass_inv (pass_instr prog flows) n m' t"
proof -
  let ?i = "pass_instr prog flows" and ?s = "(states, work)"
  have rec: "recorded_ok ?i n m ?s" and start: "visited ?s 0 EMPTY_STACK"
    and pend: "\<And>j. j \<in> insert ip (set work) \<Longrightarrow> \<exists>x. visited ?s j x"
    and cov: "\<And>j x. visited ?s j x \<Longrightarrow> j = ip \<or> j \<in> set work \<or> covered ?i ?s j x"
    using inv by (auto simp: pass_inv_def visited_work[of states "ip # work" _ _ work]
        recorded_work[of ?i n m states "ip # work" work] covered_work[of ?i states "ip # work" _ _ work])
  obtain stack where stack: "visited ?s ip stack" using pend by blast
  from control_turn_covers[OF turn rec stack flows]
  have t: "extends ?s t" "recorded_ok ?i n m' t" "covered ?i t ip stack" by auto
  have "j \<in> set (snd t) \<or> covered ?i t j x" if v: "visited t j x" for j x
  proof (cases "visited ?s j x")
    case True
    then show ?thesis
      using cov[OF True] t covered_mono[OF _ t(1)] visited_unique[OF _ stack, of x]
      by (auto simp: extends_def)
  next
    case False
    then have "j < length states" "fst t ! j \<noteq> states ! j"
      using v t(1) by (auto simp: visited_def extends_def)
    then show ?thesis using t(1) by (simp add: extends_def)
  qed
  moreover have "\<exists>x. visited t j x" if "j \<in> set (snd t)" for j
  proof (cases "j \<in> set work")
    case True
    then show ?thesis using pend extends_visited[OF t(1)] by blast
  next
    case False
    then show ?thesis using that t(1) unfolding extends_def by auto
  qed
  ultimately show ?thesis
    using t(2) extends_visited[OF t(1) start] by (simp add: pass_inv_def)
qed

lemma pass_inv_final:
  assumes "control_loop prog flows m s = Ok d" "pass_inv (pass_instr prog flows) n m s"
    "length flows = n" "list_all (flow_ok n) flows" "n \<le> 2 ^ 14"
  shows "\<exists>states. pass_inv (pass_instr prog flows) n d (states, [])"
  using assms
proof (induction prog flows m s rule: control_loop.induct)
  case (1 prog flows m states)
  then show ?case by auto
next
  case (2 prog flows m states ip work)
  obtain t m' where t: "control_turn prog flows ip m (states, work) = Ok (t, m')"
    "control_loop prog flows m' t = Ok d"
    using "2.prems"(1) by (auto simp: outcome_simps)
  show ?case
    by (rule "2.IH"[OF t(1) refl t(2) control_turn_inv[OF t(1) "2.prems"(2-5)] "2.prems"(3-5)])
qed

lemma pass_inv_start:
  assumes "0 < n"
  shows "pass_inv instr n 0 ((replicate n None)[0 := Some EMPTY_STACK], [0])"
proof -
  have "visited ((replicate n None)[0 := Some EMPTY_STACK], [0]) ip x \<longleftrightarrow> ip = 0 \<and> x = EMPTY_STACK" for ip x
    using assms by (auto simp: visited_def nth_list_update)
  then show ?thesis
    using stack_ok_empty[of n] machine_reaches_start[of instr]
    by (auto simp: pass_inv_def recorded_ok_def EMPTY_STACK_def[THEN arg_cong[of _ _ depth]])
qed

text \<open>
  The guarantee of the pass: in every configuration that the machine reaches the instruction exists
  and is reached with this stack only, the frames are well formed, the depth is bounded, a pop finds
  its frame; and the bound is attained.
\<close>

definition control_safe :: "(nat \<Rightarrow> (u64 \<times> Flow) option) \<Rightarrow> nat \<Rightarrow> nat \<Rightarrow> bool" where
  "control_safe instr n d \<longleftrightarrow>
     d \<le> 16
     \<and> (\<forall>ip fs. machine_reaches instr (ip, fs) \<longrightarrow>
          ip < n \<and> length fs \<le> d \<and> list_all (frame_ok n) fs
          \<and> (\<forall>fs'. machine_reaches instr (ip, fs') \<longrightarrow> fs' = fs)
          \<and> (\<exists>w f. instr ip = Some (w, f)
               \<and> (\<forall>k. f = FPop k \<longrightarrow> \<not> never w \<longrightarrow> unwind k fs \<noteq> None)))
     \<and> (\<exists>ip fs. machine_reaches instr (ip, fs) \<and> length fs = d)"

lemma pass_inv_visits:
  assumes "pass_inv instr n d (states, [])" "machine_reaches instr s"
  shows "\<exists>x. visited (states, []) (fst s) x \<and> frames_of x = snd s"
  using assms(2) unfolding machine_reaches_def
proof (induction rule: rtranclp_induct)
  case base
  show ?case using assms(1) by (auto simp: pass_inv_def intro!: exI[of _ EMPTY_STACK])
next
  case (step y z)
  then obtain x where x: "visited (states, []) (fst y) x" "frames_of x = snd y" by blast
  then have "covered instr (states, []) (fst y) x" using assms(1) by (auto simp: pass_inv_def)
  then show ?case using step.hyps(2) x(2) unfolding covered_def by (cases y; cases z) auto
qed

lemma pass_inv_safe:
  assumes "pass_inv instr n d (states, [])"
  shows "control_safe instr n d"
proof -
  have ok: "stack_ok n x \<and> depth x \<le> d \<and> machine_reaches instr (ip, frames_of x) \<and> covered instr (states, []) ip x \<and> ip < n"
    if "visited (states, []) ip x" for ip x
    using assms that by (auto simp: pass_inv_def recorded_ok_def visited_def)
  obtain ip0 x0 where x0: "visited (states, []) ip0 x0" "depth x0 = d"
    using assms by (auto simp: pass_inv_def recorded_ok_def)
  have "d \<le> 16" using ok[OF x0(1)] x0(2) by (simp add: stack_ok_def)
  moreover have "machine_reaches instr (ip0, frames_of x0) \<and> length (frames_of x0) = d"
    using ok[OF x0(1)] x0(2) length_frames_of[of n x0] by simp
  moreover have "ip < n \<and> length fs \<le> d \<and> list_all (frame_ok n) fs
      \<and> (\<forall>fs'. machine_reaches instr (ip, fs') \<longrightarrow> fs' = fs)
      \<and> (\<exists>w f. instr ip = Some (w, f) \<and> (\<forall>k. f = FPop k \<longrightarrow> \<not> never w \<longrightarrow> unwind k fs \<noteq> None))"
    if "machine_reaches instr (ip, fs)" for ip fs
  proof -
    from pass_inv_visits[OF assms that] obtain x where x: "visited (states, []) ip x" "frames_of x = fs" by auto
    have "fs' = fs" if "machine_reaches instr (ip, fs')" for fs'
      using pass_inv_visits[OF assms that] x visited_unique by fastforce
    then show ?thesis
      using ok[OF x(1)] x(2) length_frames_of[of n x] unfolding covered_def stack_ok_def by auto
  qed
  ultimately show ?thesis unfolding control_safe_def by blast
qed

lemma prove_control_safe:
  assumes "prove_control prog flows = Ok d" "list_all (flow_ok (length flows)) flows" "length flows \<le> 2 ^ 14"
  shows "control_safe (pass_instr prog flows) (length flows) d"
proof -
  have n: "0 < length flows" and loop: "control_loop prog flows 0
      ((replicate (length flows) None)[0 := Some EMPTY_STACK], [0]) = Ok d"
    using assms(1) by (auto simp: prove_control_def index_at_def outcome_simps split: if_splits)
  from pass_inv_final[OF loop pass_inv_start[OF n] refl assms(2,3)] show ?thesis
    using pass_inv_safe by blast
qed

section \<open>The pass accepts every safe program\<close>

text \<open>A well-formed stack is determined by its frames, because popped entries are cleared.\<close>

lemma entry_frame_inject: "entry_frame e = entry_frame e' \<Longrightarrow> e = e'"
proof -
  assume eq: "entry_frame e = entry_frame e'"
  have three: "(3 :: u16) = mask 2" by (simp add: mask_eq_exp_minus_1)
  have hi: "drop_bit 2 e = drop_bit 2 e'" using eq by (simp add: entry_frame_def word_unat_eq_iff[of "drop_bit 2 e"])
  have small: "unat (x AND 3) < 2 ^ LENGTH(8)" for x :: u16
  proof -
    have "unat (x AND 3) \<le> unat (3 :: u16)" by (metis word_and_le1 word_le_nat_alt)
    then show ?thesis by simp
  qed
  have "ucast (e AND 3) = (ucast (e' AND 3) :: u8)" using eq by (simp add: entry_frame_def)
  then have "unat (e AND 3) = unat (e' AND 3)"
    using small[of e] small[of e'] by (metis unsigned_ucast_eq take_bit_nat_eq_self)
  then have "take_bit 2 e = take_bit 2 e'" unfolding three take_bit_eq_mask by (simp add: word_unat_eq_iff)
  with hi show "e = e'" by (metis bits_ident)
qed

lemma stack_ok_eqI:
  assumes "stack_ok n s" "stack_ok n s'" "frames_of s = frames_of s'"
  shows "s = s'"
proof -
  have d: "depth s = depth s'" using assms length_frames_of by metis
  have "inj entry_frame" using entry_frame_inject by (rule injI)
  then have "take (depth s) (entries s) = take (depth s') (entries s')"
    using assms(3) by (simp add: frames_of_def inj_map_eq_map)
  moreover have "drop (depth s) (entries s) = drop (depth s') (entries s')"
    using assms(1,2) d by (intro nth_equalityI) (auto simp: stack_ok_def list_all_length)
  ultimately have "entries s = entries s'" by (metis append_take_drop_id)
  with d show ?thesis by (cases s; cases s') simp
qed

lemma propagate_complete:
  assumes "control_safe instr n d" "recorded_ok instr n m s" "stack_ok n stack"
    "machine_reaches instr (ip, frames_of stack)"
  shows "\<exists>t. propagate ip stack s = Ok t"
proof -
  obtain states work where s: "s = (states, work)" by fastforce
  have ip: "ip < length states"
    using assms(1,2,4) by (auto simp: control_safe_def recorded_ok_def s)
  have "old = stack" if "states ! ip = Some old" for old
  proof -
    have "visited s ip old" using that ip by (simp add: visited_def s)
    then have "stack_ok n old" "machine_reaches instr (ip, frames_of old)"
      using assms(2) by (auto simp: recorded_ok_def)
    moreover from this(2) assms(1,4) have "frames_of old = frames_of stack"
      unfolding control_safe_def by blast
    ultimately show ?thesis using assms(3) stack_ok_eqI by blast
  qed
  then show ?thesis using ip by (auto simp: propagate_def s split: option.splits)
qed

lemma flow_step_complete:
  assumes "control_safe instr n d" "recorded_ok instr n m s" "in_hand instr n s ip stack w flow"
  shows "\<exists>t m'. flow_step flow (field w 16 3 \<noteq> 7) ip stack m s = Ok (t, m')"
proof -
  have i: "instr ip = Some (w, flow)" "\<not> never w" "flow_ok n flow" "stack_ok n stack" "n \<le> 2 ^ 14"
    "machine_reaches instr (ip, frames_of stack)"
    using assms(3) by (auto simp: in_hand_def)
  note complete = propagate_complete[OF assms(1,2)]
  have reach: "machine_reaches instr (j, fs)" if "machine_step instr (ip, frames_of stack) (j, fs)" for j fs
    using machine_reaches_step[OF i(6) that] .
  show ?thesis
  proof (cases flow)
    case FNext
    have "\<exists>t. propagate (Suc ip) stack s = Ok t"
      using i FNext by (intro complete reach) (auto intro: machine_step.fall)
    then show ?thesis by (auto simp: FNext flow_step_def)
  next
    case FExit
    then show ?thesis by (simp add: flow_step_def)
  next
    case (FBranch target)
    have "\<exists>t. propagate (unat target) stack s = Ok t"
      using i FBranch by (intro complete reach) (auto intro: machine_step.branch)
    then show ?thesis by (auto simp: FBranch flow_step_def)
  next
    case (FPush k target)
    have r: "machine_reaches instr (Suc ip, (k, unat target) # frames_of stack)"
      using i FPush by (intro reach) (auto intro: machine_step.push)
    then have "length ((k, unat target) # frames_of stack) \<le> 16"
      using assms(1) unfolding control_safe_def by (blast intro: order_trans)
    then have "depth stack < 16" using length_frames_of[OF i(4)] by simp
    then obtain pushed where p: "push_frame k target stack = Ok pushed"
      using i(4) by (auto simp: push_frame_def index_at_def stack_ok_def)
    have "k \<in> {1, 2, 3}" "unat target < n" using i(3) by (simp_all add: flow_ok_def FPush)
    note f = frames_of_push[OF p i(4) this i(5)]
    have "\<exists>t. propagate (Suc ip) pushed s = Ok t" using f(1,2) r by (intro complete) auto
    then show ?thesis using p by (auto simp: FPush flow_step_def)
  next
    case (FPop k)
    have k: "k \<in> {1, 2, 3}" using i(3) by (simp add: flow_ok_def FPop)
    have "unwind k (frames_of stack) \<noteq> None"
      using assms(1) i(1,2,6) unfolding control_safe_def FPop by (metis option.inject prod.inject)
    moreover have eta: "\<lparr>entries = entries stack, depth = depth stack\<rparr> = stack" by simp
    moreover have d: "depth stack \<le> length (entries stack)" using i(4) by (simp add: stack_ok_def)
    ultimately obtain target popped where p: "pop_frames k (entries stack) (depth stack) = Ok (target, popped)"
      using pop_frames_unwind[OF k d, unfolded eta] by (auto split: outcome.splits)
    note f = pop_frames_ok[OF p k i(4)]
    have "\<exists>t. propagate (unat target) popped s = Ok t"
      using f i FPop by (intro complete reach) (auto intro: machine_step.pop)
    then show ?thesis using p by (auto simp: FPop flow_step_def)
  qed
qed

lemma control_turn_complete:
  assumes safe: "control_safe (pass_instr prog flows) n d"
    and rec: "recorded_ok (pass_instr prog flows) n m s" and stack: "visited s ip stack"
    and flows: "length flows = n" "list_all (flow_ok n) flows" "n \<le> 2 ^ 14"
  shows "\<exists>t m'. control_turn prog flows ip m s = Ok (t, m')"
proof -
  let ?i = "pass_instr prog flows"
  have st: "stack_ok n stack" "machine_reaches ?i (ip, frames_of stack)" "ip < n" "fst s ! ip = Some stack"
    "length (fst s) = n"
    using rec stack by (auto simp: recorded_ok_def visited_def)
  obtain w f where f: "?i ip = Some (w, f)" using safe st(2) unfolding control_safe_def by blast
  then have w: "instruction_word prog ip = Ok w" "?i ip = Some (w, flows ! ip)"
    by (auto simp: pass_instr_def split: outcome.splits if_splits)
  have turn: "control_turn prog flows ip m s =
     and_then (if may_skip w then propagate (Suc ip) stack s else Ok s) (\<lambda>u.
     if never w then Ok (u, m) else flow_step (flows ! ip) (field w 16 3 \<noteq> 7) ip stack m u)"
  proof -
    have ix: "index_at (fst s) ip = Ok (Some stack)" "index_at flows ip = Ok (flows ! ip)"
      using st(3-5) flows(1) by (simp_all add: index_at_def)
    show ?thesis
      unfolding control_turn_def ix w(1) and_then.simps unwrap.simps Let_def may_skip_def never_def by simp
  qed
  obtain u where u: "(if may_skip w then propagate (Suc ip) stack s else Ok s) = Ok u"
    and su: "recorded_ok ?i n m u \<and> (may_skip w \<longrightarrow> visited u (Suc ip) stack)"
  proof (cases "may_skip w")
    case True
    have r: "machine_reaches ?i (Suc ip, frames_of stack)"
      by (rule machine_reaches_step[OF st(2)], rule machine_step.skip[where instr = ?i, OF w(2) True])
    from propagate_complete[OF safe rec st(1) this] obtain u where p: "propagate (Suc ip) stack s = Ok u" by blast
    have "depth stack \<le> m" using stack_depth_le[OF rec stack] .
    from recorded_propagate[OF p rec st(1) order.refl this r] propagate_visits(2)[OF p] show thesis
      using that True p by simp
  next
    case False
    then show thesis using that rec by simp
  qed
  show ?thesis
  proof (cases "never w")
    case True
    then show ?thesis using turn u by simp
  next
    case False
    then have "in_hand ?i n u ip stack w (flows ! ip)"
      using w su st flows by (auto simp: in_hand_def may_skip_def list_all_length)
    from flow_step_complete[OF safe _ this] su show ?thesis using turn u False by simp
  qed
qed

lemma control_loop_complete:
  assumes "pass_inv (pass_instr prog flows) n m s" "control_safe (pass_instr prog flows) n d"
    "length flows = n" "list_all (flow_ok n) flows" "n \<le> 2 ^ 14"
  shows "\<exists>d. control_loop prog flows m s = Ok d"
  using assms
proof (induction prog flows m s rule: control_loop.induct)
  case (1 prog flows m states)
  then show ?case by simp
next
  case (2 prog flows m states ip work)
  have "recorded_ok (pass_instr prog flows) n m (states, work)"
    using "2.prems"(1) by (simp add: pass_inv_def recorded_work[of _ n m states "ip # work" work])
  moreover obtain stack where "visited (states, work) ip stack"
    using "2.prems"(1) by (auto simp: pass_inv_def visited_work[of states "ip # work" _ _ work])
  ultimately obtain t m' where t: "control_turn prog flows ip m (states, work) = Ok (t, m')"
    using control_turn_complete[OF "2.prems"(2) _ _ "2.prems"(3-5)] by blast
  from "2.IH"[OF t refl control_turn_inv[OF t "2.prems"(1,3-5)] "2.prems"(2-5)]
  show ?case by (simp add: t)
qed

lemma prove_control_iff:
  assumes "list_all (flow_ok (length flows)) flows" "length flows \<le> 2 ^ 14" "flows \<noteq> []"
  shows "(\<exists>d. prove_control prog flows = Ok d) \<longleftrightarrow> (\<exists>d. control_safe (pass_instr prog flows) (length flows) d)"
proof
  assume "\<exists>d. prove_control prog flows = Ok d"
  then show "\<exists>d. control_safe (pass_instr prog flows) (length flows) d"
    using prove_control_safe[OF _ assms(1,2)] by blast
next
  assume "\<exists>d. control_safe (pass_instr prog flows) (length flows) d"
  then obtain d where d: "control_safe (pass_instr prog flows) (length flows) d" by blast
  have n: "0 < length flows" using assms(3) by simp
  from control_loop_complete[OF pass_inv_start[OF n] d refl assms(1,2)] n
  show "\<exists>d. prove_control prog flows = Ok d" by (simp add: prove_control_def index_at_def)
qed

section \<open>The pass does not panic\<close>

lemma push_frame_not_Panic: "stack_ok n s \<Longrightarrow> push_frame k t s \<noteq> Panic"
  by (auto simp: push_frame_def index_at_def stack_ok_def outcome_simps)

lemma pop_frames_not_Panic: "n \<le> length es \<Longrightarrow> pop_frames k es n \<noteq> Panic"
  by (induction k es n rule: pop_frames.induct) (auto simp: index_at_def Let_def)

lemma propagate_not_Panic: "propagate ip stack s \<noteq> Panic"
  by (auto simp: propagate_def split: prod.splits option.splits)

lemma flow_step_not_Panic:
  "stack_ok n stack \<Longrightarrow> flow_step flow c ip stack m s \<noteq> Panic"
  using pop_frames_not_Panic[of "depth stack" "entries stack"]
  by (cases flow) (auto simp: flow_step_def outcome_simps push_frame_not_Panic propagate_not_Panic stack_ok_def)

lemma control_turn_not_Panic:
  assumes "recorded_ok (pass_instr prog flows) n m s" "visited s ip stack" "length flows = n"
    "instruction_word prog ip \<noteq> Panic"
  shows "control_turn prog flows ip m s \<noteq> Panic"
proof -
  have ip: "index_at (fst s) ip = Ok (Some stack)" "index_at flows ip = Ok (flows ! ip)" "stack_ok n stack"
    using assms(1-3) by (auto simp: recorded_ok_def visited_def index_at_def)
  show ?thesis
    unfolding control_turn_def ip and_then.simps unwrap.simps Let_def
    using assms(4) propagate_not_Panic flow_step_not_Panic[OF ip(3)]
    by (auto simp: outcome_simps)
qed

lemma control_loop_not_Panic:
  assumes "pass_inv (pass_instr prog flows) n m s" "length flows = n" "list_all (flow_ok n) flows" "n \<le> 2 ^ 14"
    "\<forall>ip < n. instruction_word prog ip \<noteq> Panic"
  shows "control_loop prog flows m s \<noteq> Panic"
  using assms
proof (induction prog flows m s rule: control_loop.induct)
  case (1 prog flows m states)
  then show ?case by simp
next
  case (2 prog flows m states ip work)
  have rec: "recorded_ok (pass_instr prog flows) n m (states, work)"
    using "2.prems"(1) by (simp add: pass_inv_def recorded_work[of _ n m states "ip # work" work])
  obtain stack where stack: "visited (states, work) ip stack"
    using "2.prems"(1) by (auto simp: pass_inv_def visited_work[of states "ip # work" _ _ work])
  have "ip < n" using rec stack by (auto simp: recorded_ok_def visited_def)
  then have turn: "control_turn prog flows ip m (states, work) \<noteq> Panic"
    using control_turn_not_Panic[OF rec stack "2.prems"(2)] "2.prems"(5) by simp
  show ?case
  proof (cases "control_turn prog flows ip m (states, work)")
    case (Ok r)
    obtain t m' where r: "r = (t, m')" by fastforce
    from "2.IH"[OF Ok[unfolded r] refl control_turn_inv[OF Ok[unfolded r] "2.prems"(1-4)] "2.prems"(2-5)]
    show ?thesis by (simp add: Ok r)
  qed (use turn in simp_all)
qed

end
