(* ===== verification/Verify_Props.thy ===== *)
theory Verify_Props
  imports Verify_Control
begin

text \<open>
  What \<open>decode\<close> and \<open>decode_all\<close> guarantee of the flows they return, and the connection between the
  pass over the control flow and the program: the machine of \<open>Verify_Control\<close> runs on the words of
  the code and their decodings.
\<close>

section \<open>Flows of single instructions\<close>

text \<open>The address of an instruction, past the schedule word of its bundle.\<close>

definition instr_address :: "nat \<Rightarrow> nat" where
  "instr_address ip = ip div 3 * 32 + 8 + ip mod 3 * 8"

lemma instr_address_less: "ip < 3 * (len div 32) \<Longrightarrow> instr_address ip + 8 \<le> len"
proof -
  assume "ip < 3 * (len div 32)"
  then have "ip div 3 < len div 32" by (metis less_mult_imp_div_less mult.commute)
  then have "Suc (ip div 3) * 32 \<le> len div 32 * 32" by (intro mult_le_mono1) simp
  then have "ip div 3 * 32 + 32 \<le> len" using div_times_less_eq_dividend[of len 32] by simp
  moreover have "ip mod 3 \<le> 2" by presburger
  ultimately show ?thesis unfolding instr_address_def by linarith
qed

lemma instruction_word_address: "instruction_word b ip = read_le 8 b (instr_address ip)"
  by (simp add: instruction_word_def instr_address_def)

lemma first_of_Ok: "first_of rs (Err e) = Ok f \<Longrightarrow> Some (Ok f) \<in> set rs"
proof (induction rs)
  case (Cons r rs)
  then show ?case by (cases r) auto
qed simp

lemma branch_index_Ok:
  assumes "branch_index w ip len = Ok index" "len mod 32 = 0" "len \<le> 2 ^ 16"
  shows "unat index < 3 * (len div 32)" "int (instr_address (unat index)) = relative_target w ip"
proof -
  obtain t where t: "relative_target w ip = int t" "8 \<le> t" "t < len" "t mod 8 = 0" "t mod 32 \<noteq> 0"
    and index: "index = word_of_nat (t div 32 * 3 + t mod 32 div 8 - 1)"
  proof -
    let ?t = "relative_target w ip"
    have c: "8 \<le> ?t" "?t < int len" "?t mod 8 = 0" "?t mod 32 \<noteq> 0"
      "index = word_of_nat (nat ?t div 32 * 3 + nat ?t mod 32 div 8 - 1)"
      using assms(1) by (auto simp: branch_index_def Let_def split: if_splits)
    obtain t where t: "?t = int t" using c(1) nonneg_eq_int[of ?t] by (metis order_trans zero_le_numeral)
    have "t mod 8 = 0" "t mod 32 \<noteq> 0" using c(3,4) unfolding t by presburger+
    then show thesis using that[of t] c(1,2,5) t by simp
  qed
  let ?i = "t div 32 * 3 + t mod 32 div 8 - 1"
  have dvd8: "8 dvd t mod 32" by (rule dvd_mod) (use t(4) in \<open>auto simp: mod_eq_0_iff_dvd\<close>)
  have pos: "1 \<le> t mod 32 div 8" "t mod 32 div 8 \<le> 3" 
  proof -
    obtain q where q: "t mod 32 = 8 * q" using dvd8 by (rule dvdE)
    then have "q < 4" "0 < q" using t(5) mod_less_divisor[of 32 t] by linarith+
    then show "1 \<le> t mod 32 div 8" "t mod 32 div 8 \<le> 3" using q by simp_all
  qed
  have "t < len div 32 * 32" using t(3) assms(2) by (simp add: mod_0_imp_dvd)
  then have "t div 32 < len div 32" by (rule less_mult_imp_div_less)
  then have less: "?i < 3 * (len div 32)" using pos by linarith
  moreover have "len div 32 \<le> 2048" using assms(3) by simp
  ultimately have "?i < 2 ^ LENGTH(16)" by simp
  then have u: "unat index = ?i" unfolding index by (rule unat_of_nat_lt)
  show "unat index < 3 * (len div 32)" using less u by simp
  obtain q where q: "t mod 32 div 8 = Suc q" "q < 3" using pos by (cases "t mod 32 div 8") auto
  then have i: "?i = q + 3 * (t div 32)" by simp
  have d: "?i div 3 = t div 32" "?i mod 3 = q" unfolding i using q(2) by simp_all
  have "t mod 32 = t mod 32 div 8 * 8" using dvd8 by simp
  then have "t = t div 32 * 32 + Suc q * 8" using q(1) by (metis mod_div_decomp)
  then have "instr_address (unat index) = t"
    unfolding instr_address_def u d by (simp add: algebra_simps)
  then show "int (instr_address (unat index)) = relative_target w ip" using t(1) by simp
qed

lemma decode_branch_Ok:
  assumes "decode_branch forms w ip len = Some (Ok f)"
  shows "\<exists>index opcode kind. branch_index w ip len = Ok index \<and> (opcode, kind) \<in> set forms
    \<and> f = (if kind = 0 then FBranch index else FPush kind index)"
  using assms by (induction forms w ip len rule: decode_branch.induct) (auto simp: outcome_simps split: if_splits)

lemma decode_pop_Ok:
  "decode_pop forms w = Some (Ok f) \<Longrightarrow> \<exists>opcode kind. (opcode, kind) \<in> set forms \<and> f = FPop kind"
  by (induction forms w rule: decode_pop.induct) (auto split: if_splits)

lemma decode_texture_Ok: "decode_texture forms w m limits = Some (Ok f) \<Longrightarrow> f = FNext"
  by (induction forms w m limits rule: decode_texture.induct) (auto simp: outcome_simps split: if_splits)

lemma decode_io_Ok: "decode_io forms w m = Some (Ok f) \<Longrightarrow> f = FNext"
  by (induction forms w m rule: decode_io.induct) (auto simp: outcome_simps Let_def split: if_splits)

lemma decode_alu_Ok: "decode_alu w m limits = Some (Ok f) \<Longrightarrow> f = FNext"
  by (auto simp: decode_alu_def outcome_simps split: option.splits)

lemma decode_kill_Ok: "decode_kill w m = Some (Ok f) \<Longrightarrow> f = FNext"
  by (auto simp: decode_kill_def split: if_splits)

lemma decode_query_Ok: "decode_query w m limits = Some (Ok f) \<Longrightarrow> f = FNext"
  by (simp add: decode_query_def outcome_simps split: if_splits)

lemma decode_interpolate_Ok: "decode_interpolate w m = Some (Ok f) \<Longrightarrow> f = FNext"
  by (auto simp: decode_interpolate_def outcome_simps split: if_splits)

lemma decode_system_Ok: "decode_system w m = Some (Ok f) \<Longrightarrow> f = FNext"
  by (simp add: decode_system_def Let_def outcome_simps split: if_splits)

lemma decode_pixel_Ok: "decode_pixel w m = Some (Ok f) \<Longrightarrow> f = FNext"
  by (simp add: decode_pixel_def outcome_simps split: if_splits)

lemma decode_predicate_Ok: "decode_predicate w m = Some (Ok f) \<Longrightarrow> f = FNext"
  by (simp add: decode_predicate_def outcome_simps split: if_splits)

lemmas straight_line_Ok =
  decode_alu_Ok decode_texture_Ok decode_query_Ok decode_io_Ok decode_interpolate_Ok decode_system_Ok
  decode_pixel_Ok decode_predicate_Ok

lemma decode_control_Ok:
  assumes "decode_control w ip len m = Some (Ok f)" "len mod 32 = 0" "len \<le> 2 ^ 16"
  shows "flow_ok (3 * (len div 32)) f"
proof -
  have forms: "(opcode, kind) \<in> set BRANCH_FORMS \<Longrightarrow> kind \<noteq> 0 \<Longrightarrow> kind \<in> {1, 2, 3}"
    "(opcode, kind) \<in> set POP_FORMS \<Longrightarrow> kind \<in> {1, 2, 3}" for opcode kind
    by (auto simp: BRANCH_FORMS_def POP_FORMS_def)
  consider "f \<in> {FNext, FExit}" | "decode_branch BRANCH_FORMS w ip len = Some (Ok f)"
    | "decode_pop POP_FORMS w = Some (Ok f)" | "decode_kill w m = Some (Ok f)"
    using assms(1) unfolding decode_control_def by (auto split: if_splits option.splits)
  then show ?thesis
  proof cases
    case 2
    from decode_branch_Ok[OF this] show ?thesis
      using branch_index_Ok(1)[OF _ assms(2,3)] forms(1) by (auto simp: flow_ok_def)
  next
    case 3
    from decode_pop_Ok[OF this] show ?thesis using forms(2) by (auto simp: flow_ok_def)
  next
    case 4
    from decode_kill_Ok[OF this] show ?thesis by (simp add: flow_ok_def)
  qed (auto simp: flow_ok_def)
qed

lemma decode_flow_ok:
  assumes "decode w ip len m limits = Ok f" "len mod 32 = 0" "len \<le> 2 ^ 16"
  shows "flow_ok (3 * (len div 32)) f"
proof -
  have "Some (Ok f) \<in> set [decode_alu w m limits, decode_control w ip len m,
      decode_texture TEXTURE_FORMS w m limits, decode_query w m limits, decode_io IO_FORMS w m,
      decode_interpolate w m, decode_system w m, decode_pixel w m, decode_predicate w m]"
    using assms(1) unfolding decode_def by (rule first_of_Ok)
  then consider "decode_control w ip len m = Some (Ok f)" | "f = FNext"
    by (simp only: list.set insert_iff empty_iff) (metis straight_line_Ok)
  then show ?thesis
    using decode_control_Ok[OF _ assms(2,3)] by cases (auto simp: flow_ok_def)
qed

section \<open>The whole program\<close>

definition program_instr :: "Program \<Rightarrow> Limits \<Rightarrow> nat \<Rightarrow> (u64 \<times> Flow) option" where
  "program_instr p limits ip =
     (if ip < 3 * (length (code p) div 32)
      then case instruction_word (code p) ip of
             Ok w \<Rightarrow> (case decode w (instr_address ip) (length (code p)) (metadata p) limits of
                        Ok f \<Rightarrow> Some (w, f) | _ \<Rightarrow> None)
           | _ \<Rightarrow> None
      else None)"

lemma concat_triples:
  "list_all (\<lambda>fs. length fs = 3) fss \<Longrightarrow>
     length (concat fss) = 3 * length fss
     \<and> (\<forall>ip < 3 * length fss. concat fss ! ip = fss ! (ip div 3) ! (ip mod 3))"
proof (induction fss)
  case (Cons fs fss)
  then have l: "length fs = 3" "length (concat fss) = 3 * length fss"
    and n: "\<And>ip. ip < 3 * length fss \<Longrightarrow> concat fss ! ip = fss ! (ip div 3) ! (ip mod 3)" by auto
  have "concat (fs # fss) ! ip = (fs # fss) ! (ip div 3) ! (ip mod 3)" if "ip < 3 * length (fs # fss)" for ip
  proof (cases "ip < 3")
    case True
    then show ?thesis using l by (simp add: nth_append)
  next
    case False
    then have "ip div 3 = Suc ((ip - 3) div 3)" "(ip - 3) mod 3 = ip mod 3" by presburger+
    then show ?thesis using False that l n[of "ip - 3"] by (simp add: nth_append)
  qed
  then show ?case using l by simp
qed simp

lemma decode_all_Ok:
  assumes "decode_all b m limits = Ok flows"
  shows "length flows = 3 * (length b div 32)"
    "\<And>ip. ip < length flows \<Longrightarrow> \<exists>w. instruction_word b ip = Ok w
       \<and> decode w (instr_address ip) (length b) m limits = Ok (flows ! ip)"
proof -
  obtain fss where fss: "collect (decode_bundle b m limits) [0..<length b div 32] = Ok fss" "flows = concat fss"
    using assms by (auto simp: decode_all_def outcome_simps)
  then have len: "length fss = length b div 32"
    and each: "\<And>k. k < length fss \<Longrightarrow> decode_bundle b m limits k = Ok (fss ! k)"
    by (auto simp: collect_upt_eq_Ok)
  have lanes: "length (fss ! k) = 3
      \<and> (\<exists>s. \<forall>l < 3. decode_lane b m limits s k l = Ok (fss ! k ! l))" if "k < length fss" for k
    using each[OF that] by (auto simp: decode_bundle_def outcome_simps collect_upt_eq_Ok)
  have "list_all (\<lambda>fs. length fs = 3) fss" using lanes by (simp add: list_all_length)
  note c = concat_triples[OF this]
  show l: "length flows = 3 * (length b div 32)" using c len fss(2) by simp
  show "\<exists>w. instruction_word b ip = Ok w \<and> decode w (instr_address ip) (length b) m limits = Ok (flows ! ip)"
    if "ip < length flows" for ip
  proof -
    have k: "ip div 3 < length fss" using that l len by (metis less_mult_imp_div_less mult.commute)
    obtain s where "\<forall>l < 3. decode_lane b m limits s (ip div 3) l = Ok (fss ! (ip div 3) ! l)"
      using lanes[OF k] by blast
    then have "decode_lane b m limits s (ip div 3) (ip mod 3) = Ok (fss ! (ip div 3) ! (ip mod 3))" by simp
    moreover have "fss ! (ip div 3) ! (ip mod 3) = flows ! ip" using c that l len fss(2) by simp
    ultimately show ?thesis
      by (auto simp: decode_lane_def Let_def instr_address_def instruction_word_def outcome_simps split: if_splits)
  qed
qed

lemma pass_instr_program:
  assumes "decode_all (code p) (metadata p) limits = Ok flows"
  shows "pass_instr (code p) flows = program_instr p limits"
proof
  fix ip
  show "pass_instr (code p) flows ip = program_instr p limits ip"
    using decode_all_Ok[OF assms] by (fastforce simp: pass_instr_def program_instr_def)
qed

lemma validate_Ok:
  assumes "validate p limits = Ok v"
  obtains flows h where "check (metadata p) = Ok ()" "code p \<noteq> []" "length (code p) \<le> MAX_CODE_SIZE"
    "length (code p) mod 32 = 0" "resource_mask (metadata p) AND NOT (limit_resource_mask limits) = 0"
    "\<forall>i < 32. cb_sizes (metadata p) ! i \<le> limit_cb_sizes limits ! i"
    "decode_all (code p) (metadata p) limits = Ok flows"
    "prove_control (code p) flows = Ok (max_control_depth v)" "header (metadata p) = Some h"
    "v = \<lparr>v_header = h, v_stage = stage (metadata p), v_gprs = gprs (metadata p),
          v_resource_mask = resource_mask (metadata p), v_cb_sizes = cb_sizes (metadata p),
          max_control_depth = max_control_depth v\<rparr>"
proof -
  have "\<not> list_ex (\<lambda>i. limit_cb_sizes limits ! i < cb_sizes (metadata p) ! i) [0..<32]
    \<longleftrightarrow> (\<forall>i < 32. cb_sizes (metadata p) ! i \<le> limit_cb_sizes limits ! i)"
    by (auto simp: list_ex_iff not_less)
  then show ?thesis
    using assms that by (auto simp: validate_def Let_def outcome_simps split: if_splits)
qed

section \<open>Schedules\<close>

text \<open>The schedule word of a bundle: the top bit is clear and no barrier index is the reserved 6.\<close>

definition schedule_ok :: "bytes \<Rightarrow> nat \<Rightarrow> bool" where
  "schedule_ok b k \<longleftrightarrow>
     (let s = from_le_bytes (slice b (k * 32) 8) :: u64
      in \<not> bit s 63 \<and> (\<forall>l < 3. field s (l * 21 + 5) 3 \<noteq> 6 \<and> field s (l * 21 + 8) 3 \<noteq> 6))"

lemma field_take_bit: "n < 64 \<Longrightarrow> field w start n = take_bit n (drop_bit start w)"
proof -
  assume "n < 64"
  have "push_bit n 1 - 1 = (mask n :: u64)" by (simp add: mask_eq_exp_minus_1 push_bit_eq_mult)
  then show ?thesis by (simp add: field_def take_bit_eq_mask)
qed

lemma sched_field:
  assumes "k + 3 \<le> 21"
  shows "drop_bit k (drop_bit j s AND 0x1fffff) AND 7 = field s (j + k) 3"
proof -
  have m: "(0x1fffff :: u64) = mask 21" "(7 :: u64) = mask 3" by (simp_all add: mask_eq_exp_minus_1)
  have "drop_bit k (take_bit 21 (drop_bit j s)) = take_bit (21 - k) (drop_bit k (drop_bit j s))"
    by (simp add: drop_bit_take_bit)
  moreover have "take_bit 3 (take_bit (21 - k) x) = take_bit 3 x" for x :: u64
  proof -
    have "min 3 (21 - k) = 3" using assms by simp
    then show ?thesis by (simp only: take_bit_take_bit)
  qed
  ultimately show ?thesis
    unfolding m by (simp add: field_take_bit add.commute flip: take_bit_eq_mask)
qed

lemma decode_lane_iff:
  assumes "k < length b div 32" "l < 3"
  shows "(\<exists>f. decode_lane b m limits s k l = Ok f) \<longleftrightarrow>
    field s (l * 21 + 5) 3 \<noteq> 6 \<and> field s (l * 21 + 8) 3 \<noteq> 6
    \<and> (\<exists>f. decode (from_le_bytes (slice b (k * 32 + 8 + l * 8) 8)) (k * 32 + 8 + l * 8) (length b) m limits = Ok f)"
proof -
  have "k * 32 + 32 \<le> length b" using assms(1) div_times_less_eq_dividend[of "length b" 32] by linarith
  then have "k * 32 + 8 + l * 8 + 8 \<le> length b" using assms(2) by linarith
  then have r: "read_le 8 b (k * 32 + 8 + l * 8) = Ok (from_le_bytes (slice b (k * 32 + 8 + l * 8) 8) :: u64)"
    by (simp add: read_le_def)
  have f: "drop_bit 5 (drop_bit (l * 21) s AND 0x1fffff) AND 7 = field s (l * 21 + 5) 3"
    "drop_bit 8 (drop_bit (l * 21) s AND 0x1fffff) AND 7 = field s (l * 21 + 8) 3"
    by (intro sched_field; simp)+
  show ?thesis unfolding decode_lane_def Let_def f r and_then.simps by auto
qed

lemma decode_bundle_iff:
  assumes "k < length b div 32"
  shows "(\<exists>fs. decode_bundle b m limits k = Ok fs) \<longleftrightarrow>
    schedule_ok b k \<and> (\<forall>l < 3. \<exists>f. decode (from_le_bytes (slice b (k * 32 + 8 + l * 8) 8)) (k * 32 + 8 + l * 8) (length b) m limits = Ok f)"
proof -
  have "k * 32 + 8 \<le> length b" using assms div_times_less_eq_dividend[of "length b" 32] by linarith
  then have r: "read_le 8 b (k * 32) = Ok (from_le_bytes (slice b (k * 32) 8) :: u64)" by (simp add: read_le_def)
  have top: "drop_bit 63 s \<noteq> 0 \<longleftrightarrow> bit s 63" for s :: u64
  proof
    assume "drop_bit 63 s \<noteq> 0"
    then obtain n where "bit (drop_bit 63 s) n" by (auto simp: bit_eq_iff)
    then have n: "bit s (63 + n)" by (simp add: bit_drop_bit_eq)
    then have "63 + n < 64" using bit_imp_le_length[OF n] by simp
    with n show "bit s 63" by simp
  next
    assume "bit s 63"
    then have "bit (drop_bit 63 s) 0" by (simp add: bit_drop_bit_eq)
    then show "drop_bit 63 s \<noteq> 0" by auto
  qed
  have collects: "(\<exists>fs. collect g [0..<3] = Ok fs) \<longleftrightarrow> (\<forall>l < 3. \<exists>f. g l = Ok f)"
    for g :: "nat \<Rightarrow> (Error, Flow) outcome"
  proof
    assume "\<forall>l < 3. \<exists>f. g l = Ok f"
    then obtain h where "\<forall>l < 3. g l = Ok (h l)" by metis
    then have "collect g [0..<3] = Ok (map h [0..<3])" by (intro collect_Ok_map) auto
    then show "\<exists>fs. collect g [0..<3] = Ok fs" ..
  qed (auto simp: collect_upt_eq_Ok)
  show ?thesis
    unfolding decode_bundle_def r and_then.simps top schedule_ok_def Let_def
    using decode_lane_iff[OF assms, of _ m limits] by (auto simp: collects)
qed

lemma collect_exists:
  "(\<exists>ys. collect g [0..<n] = Ok ys) \<longleftrightarrow> (\<forall>k < n. \<exists>y. g k = Ok y)"
proof
  assume "\<forall>k < n. \<exists>y. g k = Ok y"
  then obtain h where "\<forall>k < n. g k = Ok (h k)" by metis
  then have "collect g [0..<n] = Ok (map h [0..<n])" by (intro collect_Ok_map) auto
  then show "\<exists>ys. collect g [0..<n] = Ok ys" ..
qed (auto simp: collect_upt_eq_Ok)

lemma program_instr_Some:
  assumes "ip < 3 * (length (code p) div 32)"
  shows "program_instr p limits ip \<noteq> None \<longleftrightarrow>
    (\<exists>f. decode (from_le_bytes (slice (code p) (instr_address ip) 8)) (instr_address ip) (length (code p))
          (metadata p) limits = Ok f)"
  using assms instr_address_less[OF assms]
  by (auto simp: program_instr_def instruction_word_address read_le_def split: outcome.splits)

lemma decode_all_iff:
  "(\<exists>flows. decode_all (code p) (metadata p) limits = Ok flows) \<longleftrightarrow>
     (\<forall>k < length (code p) div 32. schedule_ok (code p) k)
     \<and> (\<forall>ip < 3 * (length (code p) div 32). program_instr p limits ip \<noteq> None)"
proof -
  let ?n = "length (code p) div 32"
  let ?ok = "\<lambda>a. \<exists>f. decode (from_le_bytes (slice (code p) a 8)) a (length (code p)) (metadata p) limits = Ok f"
  have "(\<exists>flows. decode_all (code p) (metadata p) limits = Ok flows) \<longleftrightarrow>
      (\<forall>k < ?n. \<exists>fs. decode_bundle (code p) (metadata p) limits k = Ok fs)"
    by (simp add: decode_all_def outcome_simps collect_exists)
  also have "\<dots> \<longleftrightarrow> (\<forall>k < ?n. schedule_ok (code p) k \<and> (\<forall>l < 3. ?ok (k * 32 + 8 + l * 8)))"
    using decode_bundle_iff by blast
  also have "\<dots> \<longleftrightarrow> (\<forall>k < ?n. schedule_ok (code p) k) \<and> (\<forall>ip < 3 * ?n. ?ok (instr_address ip))"
  proof -
    have "(\<forall>k < ?n. \<forall>l < 3. ?ok (k * 32 + 8 + l * 8)) \<longleftrightarrow> (\<forall>ip < 3 * ?n. ?ok (instr_address ip))"
    proof (intro iffI allI impI)
      fix ip
      assume a: "\<forall>k < ?n. \<forall>l < 3. ?ok (k * 32 + 8 + l * 8)" and ip: "ip < 3 * ?n"
      from ip have "ip div 3 < ?n" by (metis less_mult_imp_div_less mult.commute)
      moreover have "ip mod 3 < 3" by simp
      ultimately show "?ok (instr_address ip)" using a unfolding instr_address_def by blast
    next
      fix k l :: nat
      assume a: "\<forall>ip < 3 * ?n. ?ok (instr_address ip)" and kl: "k < ?n" "l < 3"
      then have "instr_address (3 * k + l) = k * 32 + 8 + l * 8" "3 * k + l < 3 * ?n"
        by (simp_all add: instr_address_def)
      with a show "?ok (k * 32 + 8 + l * 8)" by metis
    qed
    then show ?thesis by blast
  qed
  also have "\<dots> \<longleftrightarrow> (\<forall>k < ?n. schedule_ok (code p) k) \<and> (\<forall>ip < 3 * ?n. program_instr p limits ip \<noteq> None)"
    using program_instr_Some by blast
  finally show ?thesis .
qed

end
