(* ===== verification/Recognition.thy ===== *)
theory Recognition
  imports Verify
begin

text \<open>
  The instruction forms of the verifier do not overlap: every entry of the table and every form
  that \<open>decode\<close> tests afterwards is a set of words given by its fixed bits, and a decision tree on
  33 bit positions separates all of them. So the order of the tests in \<open>decode\<close>, and of the entries
  in the table, does not matter, and an opcode that is not listed is refused.
\<close>

section \<open>Forms\<close>

text \<open>The fixed bits of a form and its variable bits.\<close>

type_synonym form = "u64 \<times> u64"

definition form_matches :: "form \<Rightarrow> u64 \<Rightarrow> bool" where
  "form_matches f w \<longleftrightarrow> w AND NOT (snd f) = fst f"

definition entry_form :: "OpEncoding \<Rightarrow> form" where
  "entry_form e = (op_fixed e, op_mask e)"

definition exact_form :: "u16 \<Rightarrow> u64 \<Rightarrow> u64 \<Rightarrow> form" where
  "exact_form opcode variables fixed_low = ((push_bit 48 (ucast opcode) OR fixed_low) AND NOT variables, variables)"

lemma op_matches_form: "op_matches e w \<longleftrightarrow> form_matches (entry_form e) w"
  by (simp add: op_matches_def form_matches_def entry_form_def)

lemma exact_iff_form: "exact w opcode variables fixed_low \<longleftrightarrow> form_matches (exact_form opcode variables fixed_low) w"
  by (simp add: exact_def form_matches_def exact_form_def)

section \<open>Decision trees\<close>

text \<open>A pattern lists the key bits of a form: fixed to 0, fixed to 1, or variable.\<close>

datatype pattern = Stop | Low pattern | High pattern | Free pattern

fun key_bit :: "bool \<Rightarrow> bool \<Rightarrow> pattern \<Rightarrow> pattern" where
  "key_bit True b p = Free p"
| "key_bit False False p = Low p"
| "key_bit False True p = High p"

definition pattern_of :: "nat list \<Rightarrow> form \<Rightarrow> pattern" where
  "pattern_of ks f = foldr (\<lambda>k. key_bit (bit (snd f) k) (bit (fst f) k)) ks Stop"

fun lows :: "pattern list \<Rightarrow> pattern list" where
  "lows [] = []"
| "lows (Stop # ps) = lows ps"
| "lows (Free p # ps) = p # lows ps"
| "lows (Low p # ps) = p # lows ps"
| "lows (High p # ps) = lows ps"

fun highs :: "pattern list \<Rightarrow> pattern list" where
  "highs [] = []"
| "highs (Stop # ps) = highs ps"
| "highs (Free p # ps) = p # highs ps"
| "highs (Low p # ps) = highs ps"
| "highs (High p # ps) = p # highs ps"

text \<open>A key bit that is variable in all the forms left does not split them.\<close>

fun all_free :: "pattern list \<Rightarrow> bool" where
  "all_free [] = True"
| "all_free (Free p # ps) = all_free ps"
| "all_free (Low p # ps) = False"
| "all_free (High p # ps) = False"
| "all_free (Stop # ps) = False"

lemma all_free_highs: "all_free ps \<Longrightarrow> highs ps = lows ps"
  by (induction ps rule: all_free.induct) auto

fun separated :: "'k list \<Rightarrow> pattern list \<Rightarrow> bool" where
  "separated ks [] = True"
| "separated ks [p] = True"
| "separated [] (p # q # ps) = False"
| "separated (k # ks) (p # q # ps) =
     (if all_free (p # q # ps) then separated ks (lows (p # q # ps))
      else separated ks (lows (p # q # ps)) \<and> separated ks (highs (p # q # ps)))"

fun agrees :: "pattern \<Rightarrow> bool list \<Rightarrow> bool" where
  "agrees (Free p) (b # bs) = agrees p bs"
| "agrees (Low p) (b # bs) \<longleftrightarrow> \<not> b \<and> agrees p bs"
| "agrees (High p) (b # bs) \<longleftrightarrow> b \<and> agrees p bs"
| "agrees Stop [] = True"
| "agrees _ _ = False"

lemma filter_lows: "length (filter (\<lambda>p. agrees p (False # bs)) ps) = length (filter (\<lambda>p. agrees p bs) (lows ps))"
  by (induction ps rule: lows.induct) auto

lemma filter_highs: "length (filter (\<lambda>p. agrees p (True # bs)) ps) = length (filter (\<lambda>p. agrees p bs) (highs ps))"
  by (induction ps rule: highs.induct) auto

lemma separated_at_most_one:
  "separated ks ps \<Longrightarrow> length bs = length ks \<Longrightarrow> length (filter (\<lambda>p. agrees p bs) ps) \<le> 1"
proof (induction ks ps arbitrary: bs rule: separated.induct)
  case (4 k ks p q ps)
  then obtain b bs' where bs: "bs = b # bs'" "length bs' = length ks" by (cases bs) auto
  let ?ps = "p # q # ps"
  have s: "separated ks (lows ?ps)" "separated ks (highs ?ps)"
    using "4.prems"(1) all_free_highs[of ?ps] by (auto simp only: separated.simps split: if_splits)
  show ?case
  proof (cases "all_free ?ps")
    case True
    show ?thesis
      unfolding bs using "4.IH"(1)[OF True s(1) bs(2)]
      by (cases b) (simp_all only: filter_lows filter_highs all_free_highs[OF True])
  next
    case False
    show ?thesis
      unfolding bs using "4.IH"(2)[OF False s(1) bs(2)] "4.IH"(3)[OF False s(2) bs(2)]
      by (cases b) (simp_all only: filter_lows filter_highs)
  qed
qed auto

lemma agrees_pattern:
  assumes "form_matches f w"
  shows "agrees (pattern_of ks f) (map (bit w) ks)"
proof -
  have fixed: "bit (fst f) k \<longleftrightarrow> bit w k" if "\<not> bit (snd f) k" for k
  proof -
    have "bit (fst f) k \<longleftrightarrow> bit (w AND NOT (snd f)) k" using assms by (simp only: form_matches_def)
    also have "\<dots> \<longleftrightarrow> bit w k"
      using that bit_imp_possible_bit[of w k] by (auto simp only: bit_and_iff bit_not_iff)
    finally show ?thesis .
  qed
  show ?thesis
  proof (induction ks)
    case (Cons k ks)
    then show ?case using fixed[of k]
      by (cases "bit (snd f) k"; cases "bit (fst f) k") (simp_all add: pattern_of_def)
  qed (simp add: pattern_of_def)
qed

lemma separated_forms:
  assumes "separated ks (map (pattern_of ks) fs)"
  shows "length (filter (\<lambda>f. form_matches f w) fs) \<le> 1"
proof -
  have le: "length (filter P fs) \<le> length (filter Q fs)" if "\<And>f. P f \<Longrightarrow> Q f" for P Q :: "form \<Rightarrow> bool" and fs
    using that by (induction fs) auto
  have "length (filter (\<lambda>p. agrees p (map (bit w) ks)) (map (pattern_of ks) fs)) \<le> 1"
    by (rule separated_at_most_one[OF assms]) simp
  then show ?thesis
    using le[of "\<lambda>f. form_matches f w" "\<lambda>f. agrees (pattern_of ks f) (map (bit w) ks)" fs] agrees_pattern[of _ w ks]
    by (simp add: filter_map comp_def)
qed

lemma at_most_one_unique:
  "length (filter P xs) \<le> 1 \<Longrightarrow> i < length xs \<Longrightarrow> j < length xs \<Longrightarrow> P (xs ! i) \<Longrightarrow> P (xs ! j) \<Longrightarrow> i = j"
proof (induction xs arbitrary: i j)
  case (Cons x xs)
  have none: "k < length xs \<Longrightarrow> \<not> P (xs ! k)" if "P x" for k
    using Cons.prems(1) that by (auto simp: filter_empty_conv)
  show ?case
    using Cons.prems Cons.IH[of "i - 1" "j - 1"] none
    by (cases i; cases j; cases "P x") auto
qed simp

section \<open>The forms of the verifier\<close>

definition decode_forms :: "form list" where
  "decode_forms =
     [exact_form 0x50b0 PRED 0xf00, exact_form 0xe300 PRED 0xf]
     @ map (\<lambda>f. exact_form (fst f) (PRED OR field_mask 20 24) 0xf) BRANCH_FORMS
     @ map (\<lambda>f. exact_form (fst f) PRED 0xf) POP_FORMS
     @ [exact_form 0xe330 PRED 0xf]
     @ map (\<lambda>f. exact_form (fst f) (fst (snd f)) 0) TEXTURE_FORMS
     @ [exact_form 0xdf48 TXQ_VARIABLES 0]
     @ map (\<lambda>f. exact_form (fst f) IO_VARIABLES (0xff00 OR push_bit 39 255 OR (if snd f then push_bit 32 1 else 0))) IO_FORMS
     @ [exact_form 0xe000 IPA_VARIABLES (0xff00 OR push_bit 39 255 OR push_bit 47 7),
        exact_form 0xf0c8 (PRED OR field_mask 0 8 OR field_mask 20 8) 0,
        exact_form 0xefe8 (PRED OR field_mask 0 8 OR field_mask 31 3) (0xff00 OR push_bit 45 7),
        exact_form 0x50d8 (PRED OR field_mask 0 8 OR field_mask 39 4 OR field_mask 45 5) 0]"

text \<open>
  Forms outside the profile, each given by its opcode bits from a position up, so that all modifier bits
  which the compiler's encoder (\<open>shared/sgfx-nak/src/sm50.rs\<close>) sets inside the opcode are variable:
  from bit 56 surface atomics (\<open>0xea60\<close>, \<open>0xeac0\<close>), surface loads and stores, reductions
  and geometry output (\<open>0xebxx\<close>), shared atomics (\<open>0xecxx\<close>), global atomics (\<open>0xedxx\<close>),
  compare-and-exchange and global loads and stores (\<open>0xeexx\<close>); from bit 53 \<open>CCtl\<close> on global
  memory, whose bit 52 selects 64-bit addresses; from bit 52 local and shared loads (\<open>0xef4x\<close>) and
  stores (\<open>0xef5x\<close>), \<open>CCtl\<close> on shared memory (\<open>0xef8x\<close>), \<open>Ldc\<close> and \<open>MemBar\<close>
  (\<open>0xef9x\<close>) and \<open>AL2P\<close> (\<open>0xefax\<close>); from bit 51 the bindless forms of the texture
  instructions \<open>Tex\<close>, \<open>Tld\<close> (without and with bit 55, the explicit level), \<open>Tld4\<close>, \<open>Tmml\<close>,
  \<open>Txd\<close> and \<open>Txq\<close>, whose bits 49 and 50 are modifiers; and \<open>Isberd\<close> and \<open>Bar\<close>.
\<close>

definition refused_form :: "u16 \<Rightarrow> nat \<Rightarrow> form" where
  "refused_form opcode k = exact_form opcode (field_mask 0 k) 0"

definition refused_forms :: "form list" where
  "refused_forms =
     map (\<lambda>opcode. refused_form opcode 56) [0xea00, 0xeb00, 0xec00, 0xed00, 0xee00]
     @ [refused_form 0xef60 53]
     @ map (\<lambda>opcode. refused_form opcode 52) [0xef40, 0xef50, 0xef80, 0xef90, 0xefa0]
     @ map (\<lambda>opcode. refused_form opcode 51) [0xdeb8, 0xdd38, 0xddb8, 0xdef8, 0xdf60, 0xde78, 0xdf50]
     @ map (\<lambda>opcode. refused_form opcode 48) [0xefd0, 0xf0a8]"

definition push_form :: "Push \<Rightarrow> form" where
  "push_form p = (case push p of None \<Rightarrow> (0, 0) | Some e \<Rightarrow> entry_form e)"

definition KEYS :: "nat list" where
  "KEYS = [63, 62, 61, 60, 59, 58, 57, 56, 55, 54, 53, 52, 51, 50, 49, 48, 46, 45, 43, 38, 37,
           29, 28, 26, 25, 24, 23, 22, 21, 20, 11, 10, 9, 8]"

definition FLAGS :: "bool list" where
  "FLAGS =
     [False, False, False, False, False, False, False, False, True, True, True, True, False,
      False, False, False, False, False, False, False, True, True, True, True, True, True, True,
      False, True, True, False, False, False, False, False, False, False, True, True, False,
      False, False, False, True, False, True, True, False, True, True, True, True, True, True,
      True, True, True, True, True, True, True, True, True, True]"

section \<open>Evaluating the patterns of literals\<close>

text \<open>
  One pass over the binary digits of the two literals of a form gives all its key bits.
\<close>

fun low_digit :: "num option \<Rightarrow> bool" where
  "low_digit None = False"
| "low_digit (Some num.One) = True"
| "low_digit (Some (num.Bit0 n)) = False"
| "low_digit (Some (num.Bit1 n)) = True"

fun high_digits :: "num option \<Rightarrow> num option" where
  "high_digits None = None"
| "high_digits (Some num.One) = None"
| "high_digits (Some (num.Bit0 n)) = Some n"
| "high_digits (Some (num.Bit1 n)) = Some n"

fun digits_value :: "num option \<Rightarrow> nat" where
  "digits_value None = 0"
| "digits_value (Some n) = numeral n"

fun flagged :: "bool list \<Rightarrow> nat list" where
  "flagged [] = []"
| "flagged (u # us) = (if u then 0 # map Suc (flagged us) else map Suc (flagged us))"

fun key_scan :: "bool list \<Rightarrow> num option \<Rightarrow> num option \<Rightarrow> pattern \<Rightarrow> pattern" where
  "key_scan [] m f acc = acc"
| "key_scan (u # us) m f acc =
     key_scan us (high_digits m) (high_digits f)
       (if u then key_bit (low_digit m) (low_digit f) acc else acc)"

lemma digits_value_0: "bit (digits_value x) 0 \<longleftrightarrow> low_digit x"
  by (cases x rule: low_digit.cases) (auto simp: bit_0)

lemma digits_value_Suc: "bit (digits_value x) (Suc k) \<longleftrightarrow> bit (digits_value (high_digits x)) k"
  by (cases x rule: low_digit.cases) (auto simp: bit_Suc)

lemma key_scan_eq:
  "key_scan us m f acc =
     fold (\<lambda>k. key_bit (bit (digits_value m) k) (bit (digits_value f) k)) (flagged us) acc"
  by (induction us m f acc rule: key_scan.induct)
    (auto simp: digits_value_0 digits_value_Suc fold_map comp_def)

lemma flagged_less: "k \<in> set (flagged us) \<Longrightarrow> k < length us"
  by (induction us arbitrary: k) (auto split: if_splits)

lemma KEYS_flagged: "KEYS = rev (flagged FLAGS)"
  by (simp add: KEYS_def FLAGS_def)

lemma bit_numeral_u64: "k < 64 \<Longrightarrow> bit (numeral n :: u64) k \<longleftrightarrow> bit (digits_value (Some n)) k"
  using bit_of_nat_iff_bit[of "numeral n" k, where 'a=int] by (simp add: bit_numeral_word_iff)

lemma pattern_of_literals:
  "pattern_of KEYS (numeral f, numeral m) = key_scan FLAGS (Some m) (Some f) Stop"
proof -
  have "k < 64" if "k \<in> set (flagged FLAGS)" for k
    using flagged_less[OF that] by (simp add: FLAGS_def)
  then show ?thesis
    by (auto simp: pattern_of_def KEYS_flagged foldr_conv_fold key_scan_eq bit_numeral_u64
        simp del: bit_numeral_word_iff intro!: fold_cong)
qed

lemma lows_weak_cong: "lows ps = lows ps"
  by (rule refl)

lemma all_free_weak_cong: "all_free ps = all_free ps"
  by (rule refl)

lemma highs_weak_cong: "highs ps = highs ps"
  by (rule refl)

lemma counter_lists:
  "counter 0 (Suc 0) = [0, 1]" "counter 0 2 = [0, 1, 2]" "counter 0 3 = [0, 1, 2, 3]" "counter (Suc 0) 3 = [1, 2, 3]"
  "counter 0 6 = [0, 1, 2, 3, 4, 5, 6]" "counter 0 8 = [0, 1, 2, 3, 4, 5, 6, 7, 8]"
  "counter (Suc 0) 14 = [1, 2, 3, 4, 5, 6, 7, 8, 9, 10, 11, 12, 13, 14]"
  by (simp_all add: counter_def upt_conv_Cons)

lemmas table_defs =
  build_def build_fadd_ffma_def build_fmul_mufu_def build_float_compare_def build_fset_def build_fsetp_def
  build_double_def build_bits_def build_integer_def build_iadd_def build_iadd_negs_def build_imad_def
  build_isetp_def build_logic_def build_shifts_def build_shf_def build_shift_def build_conversions_def
  convert_family_def build_convert_def build_moves_def build_lanes_def build_shfl_def build_psetp_def

lemmas table_consts =
  Let_def counter_lists word_binary_def double_binary_def triple_def OP_PRED_def DST_def SRC0_def REG1_def
  REG2_def IMM20_def CB20_def IMM32_def op_range_def op_bit_def

lemmas form_consts =
  decode_forms_def refused_forms_def refused_form_def exact_form_def PRED_def field_mask_def BRANCH_FORMS_def POP_FORMS_def TEXTURE_FORMS_def
  TEXTURE_COMMON_def TXQ_VARIABLES_def IO_VARIABLES_def IO_FORMS_def IPA_VARIABLES_def

end
