(* ===== verification/Recognition_Claims.thy ===== *)
theory Recognition_Claims
  imports Recognition
begin

text \<open>
  The evaluation of the decision tree on all forms of the verifier and on the refused forms, and the
  theorems about recognition that rest on it.
\<close>

section \<open>Evaluation\<close>

lemma forms_separated_literal:
  "separated [63 :: nat, 62, 61, 60, 59, 58, 57, 56, 55, 54, 53, 52, 51, 50, 49, 48, 46, 45, 43, 38, 37,
              29, 28, 26, 25, 24, 23, 22, 21, 20, 11, 10, 9, 8]
     (map (pattern_of KEYS) (map push_form build @ decode_forms @ refused_forms))"
  by (simp add: table_defs table_consts form_consts push_form_def entry_form_def pattern_of_literals FLAGS_def
      cong: all_free_weak_cong lows_weak_cong highs_weak_cong)

lemma forms_separated: "separated KEYS (map (pattern_of KEYS) (map push_form build @ decode_forms @ refused_forms))"
  using forms_separated_literal by (simp only: KEYS_def[symmetric])

section \<open>Operands\<close>

text \<open>
  The register and constant buffer fields that the checks of an entry read are variable in it: an
  operand is never part of the opcode.
\<close>

definition entry_operands_free :: "OpEncoding \<Rightarrow> bool" where
  "entry_operands_free e \<longleftrightarrow>
     op_fixed e AND op_mask e = 0
     \<and> list_all (\<lambda>r. op_range (fst r) (fst r + 8) AND NOT (op_mask e) = 0 \<and> 0 < snd r \<and> snd r \<le> 2) (op_regs e)
     \<and> (case op_cb e of NoCb \<Rightarrow> True
        | Word k \<Rightarrow> op_range k (k + 19) AND NOT (op_mask e) = 0
        | Double k \<Rightarrow> op_range k (k + 19) AND NOT (op_mask e) = 0)"

fun push_operands_free :: "Push \<Rightarrow> bool" where
  "push_operands_free p = (case push p of None \<Rightarrow> False | Some e \<Rightarrow> entry_operands_free e)"

lemmas operand_lists =
  W_DST_def W_UNARY_def W_S0_def W_BINARY_def W_S0_S2_def W_TERNARY_def W_PRED_S0_def W_PRED_BINARY_def
  D_S0_def D_BINARY_def D_S0_S2_def D_TERNARY_def D_PRED_S0_def D_PRED_BINARY_def

lemma build_operands_free: "list_all push_operands_free build"
  by (simp add: table_defs table_consts operand_lists entry_operands_free_def)

lemma build_length: "length build = 527"
  by (simp add: table_defs counter_lists triple_def Let_def)

section \<open>Recognition is unambiguous\<close>

lemma push_all_forms:
  "list_all push_operands_free ps \<Longrightarrow>
     \<exists>es. push_all ps = Some es \<and> map entry_form es = map push_form ps \<and> list_all entry_operands_free es"
proof (induction ps)
  case (Cons p ps)
  then show ?case by (cases "push p") (auto simp: push_form_def)
qed simp

lemma table_exists:
  obtains table where "ALU_ENCODINGS = Some table" "map entry_form table = map push_form build"
    "list_all entry_operands_free table" "length table = 527"
proof -
  obtain es where es: "push_all build = Some es" "map entry_form es = map push_form build"
    "list_all entry_operands_free es"
    using push_all_forms[OF build_operands_free] by blast
  then have "length es = 527" using build_length by (metis length_map)
  with es show ?thesis using that by (simp add: ALU_ENCODINGS_def)
qed

lemma at_most_one_form:
  "length (filter (\<lambda>f. form_matches f w) (map push_form build @ decode_forms @ refused_forms)) \<le> 1"
  by (rule separated_forms[OF forms_separated])

lemma find_alu_encoding_None:
  assumes "\<forall>f \<in> set (map push_form build). \<not> form_matches f w"
  shows "find_alu_encoding w = None"
proof -
  obtain table where t: "ALU_ENCODINGS = Some table" "map entry_form table = map push_form build"
    by (rule table_exists)
  have "\<not> op_matches e w" if "e \<in> set table" for e
    using assms that t(2) by (metis op_matches_form imageI list.set_map)
  then show ?thesis by (simp add: find_alu_encoding_def t(1) find_None_iff)
qed

lemma decode_outside_forms:
  assumes "\<forall>f \<in> set (map push_form build @ decode_forms). \<not> form_matches f w"
  shows "decode w ip len m limits = Err Instruction"
proof -
  have "find_alu_encoding w = None" using assms by (intro find_alu_encoding_None) auto
  moreover have "\<forall>f \<in> set decode_forms. \<not> form_matches f w" using assms by simp
  ultimately show ?thesis
    by (simp add: decode_def decode_alu_def decode_control_def decode_kill_def decode_query_def
        decode_interpolate_def decode_system_def decode_pixel_def decode_predicate_def
        exact_iff_form decode_forms_def BRANCH_FORMS_def POP_FORMS_def TEXTURE_FORMS_def IO_FORMS_def)
qed

text \<open>recognition of instructions. The table is built without a failed assertion and has 527
entries; the register and constant buffer fields of every entry are variable bits of it; and any
instruction word is matched by at most one of the table entries and of the forms that \<open>decode\<close>
tests after the table, so that the outcome does not depend on the order of the tests.\<close>

theorem recognition_unambiguous:
  "\<exists>table. ALU_ENCODINGS = Some table \<and> length table = 527 \<and> list_all entry_operands_free table
     \<and> (\<forall>w. length (filter (\<lambda>f. form_matches f w) (map entry_form table @ decode_forms)) \<le> 1)"
proof -
  obtain table where t: "ALU_ENCODINGS = Some table" "map entry_form table = map push_form build"
    "list_all entry_operands_free table" "length table = 527"
    by (rule table_exists)
  have "length (filter (\<lambda>f. form_matches f w) (map entry_form table @ decode_forms)) \<le> 1" for w
    using at_most_one_form[of w] by (simp add: t(2))
  with t show ?thesis by blast
qed

text \<open>C7: the memory boundary. No word that has the opcode of a surface, global, local or shared memory
access, an atomic, a constant load, a cache or barrier operation, a bindless texture access or an address
query is accepted: the opcodes and the modifier bits inside them are those of the compiler's encoder
(\<open>refused_forms\<close>), and every other bit of the word, the address of the instruction, the metadata and
the limits are arbitrary.\<close>

theorem memory_access_refused:
  assumes "f \<in> set refused_forms" "form_matches f w"
  shows "decode w ip len m limits = Err Instruction"
proof (rule decode_outside_forms)
  have "filter (\<lambda>f. form_matches f w) refused_forms \<noteq> []" using assms by (auto simp: filter_empty_conv)
  then have "filter (\<lambda>f. form_matches f w) (map push_form build @ decode_forms) = []"
    using at_most_one_form[of w] by (cases "filter (\<lambda>f. form_matches f w) refused_forms") (auto simp: filter_map)
  then show "\<forall>f \<in> set (map push_form build @ decode_forms). \<not> form_matches f w"
    by (auto simp: filter_empty_conv)
qed

theorem memory_access_refused_witness:
  "decode 0xeed4200000170205 8 64 (metadata_new Vertex) \<lparr>limit_cb_sizes = replicate 32 0, limit_resource_mask = 0\<rparr>
     = Err Instruction"
  by (rule memory_access_refused[of "refused_form 0xee00 56"])
    (simp_all add: refused_forms_def refused_form_def exact_form_def form_matches_def field_mask_def)

end
