(* ===== verification/Program_Props.thy ===== *)
theory Program_Props
  imports Program_Wire
begin

text \<open>
  The program package is a \<open>canonical_wire_format\<close>, and the generated hardware header holds exactly
  the checked metadata: every field is read back and every other bit is zero.
\<close>

section \<open>The stores of a package\<close>

lemma upt_four: "[0..<4] = [0, 1, 2, 3 :: nat]"
  by (simp add: upt_conv_Cons)

lemma length_MAGIC [simp]: "length MAGIC = 8"
  by (simp add: MAGIC_def)

lemma program_regions:
  assumes "program_sized p"
  shows "stores_in 0 32 (prefix_stores p) \<and> stores_disjoint (prefix_stores p)"
    and "stores_in 32 160 (concat (map (\<lambda>i. [(32 + i * 4, to_le_bytes (cb_sizes (metadata p) ! i))]) [0..<32]))
      \<and> stores_disjoint (concat (map (\<lambda>i. [(32 + i * 4, to_le_bytes (cb_sizes (metadata p) ! i))]) [0..<32]))"
    and "stores_in 160 192 (attribute_stores (metadata p)) \<and> stores_disjoint (attribute_stores (metadata p))"
    and "stores_in 192 (512 + length (code p)) (suffix_stores p) \<and> stores_disjoint (suffix_stores p)"
proof -
  show "stores_in 0 32 (prefix_stores p) \<and> stores_disjoint (prefix_stores p)"
    by (simp add: prefix_stores_def Let_def store_disjoint_def)
  have "stores_in 32 (32 + 32 * 4) (concat (map (\<lambda>i. [(32 + i * 4, to_le_bytes (cb_sizes (metadata p) ! i))]) [0..<32]))
      \<and> stores_disjoint (concat (map (\<lambda>i. [(32 + i * 4, to_le_bytes (cb_sizes (metadata p) ! i))]) [0..<32]))"
    by (intro table_stores) simp_all
  then show "stores_in 32 160 (concat (map (\<lambda>i. [(32 + i * 4, to_le_bytes (cb_sizes (metadata p) ! i))]) [0..<32]))
      \<and> stores_disjoint (concat (map (\<lambda>i. [(32 + i * 4, to_le_bytes (cb_sizes (metadata p) ! i))]) [0..<32]))"
    by simp
  show "stores_in 160 192 (attribute_stores (metadata p)) \<and> stores_disjoint (attribute_stores (metadata p))"
    by (simp add: attribute_stores_def upt_four store_disjoint_def)
  show "stores_in 192 (512 + length (code p)) (suffix_stores p) \<and> stores_disjoint (suffix_stores p)"
    using assms by (simp add: suffix_stores_def Let_def store_disjoint_def program_sized_def
        metadata_sized_def HEADER_SIZE_def)
qed

lemma program_stores_regions:
  assumes "program_sized p"
  shows "stores_disjoint (program_stores p)" "stores_within (program_stores p) (512 + length (code p))"
proof -
  note r = program_regions[OF assms]
  let ?c = "concat (map (\<lambda>i. [(32 + i * 4, to_le_bytes (cb_sizes (metadata p) ! i))]) [0..<32])"
  let ?a = "attribute_stores (metadata p)" and ?s = "suffix_stores p" and ?n = "512 + length (code p)"
  have as: "stores_disjoint (?a @ ?s)"
    by (rule stores_disjoint_append[OF conjunct2[OF r(3)] conjunct2[OF r(4)] conjunct1[OF r(3)]
          conjunct1[OF r(4)]]) simp
  have as_in: "stores_in 160 ?n (?a @ ?s)"
    using r(3,4) by (auto intro: stores_in_mono)
  have cas: "stores_disjoint (?c @ ?a @ ?s)"
    by (rule stores_disjoint_append[OF conjunct2[OF r(2)] as conjunct1[OF r(2)] as_in]) simp
  have "stores_in 32 ?n ?c" by (rule stores_in_mono[OF conjunct1[OF r(2)]]) simp_all
  moreover have "stores_in 32 ?n (?a @ ?s)" by (rule stores_in_mono[OF as_in]) simp_all
  ultimately have cas_in: "stores_in 32 ?n (?c @ ?a @ ?s)" by simp
  show "stores_disjoint (program_stores p)"
    unfolding program_stores_def
    by (rule stores_disjoint_append[OF conjunct2[OF r(1)] cas conjunct1[OF r(1)] cas_in]) simp
  have "stores_in 0 ?n (prefix_stores p)" by (rule stores_in_mono[OF conjunct1[OF r(1)]]) simp_all
  moreover have "stores_in 0 ?n (?c @ ?a @ ?s)" by (rule stores_in_mono[OF cas_in]) simp_all
  ultimately have "stores_in 0 ?n (program_stores p)" by (simp add: program_stores_def)
  then show "stores_within (program_stores p) ?n" by (rule stores_in_within) simp
qed

lemma program_untouched:
  assumes "program_sized p"
  shows "list_all (\<lambda>w. store_disjoint w 20 4) (program_stores p)"
    and "list_all (\<lambda>w. store_disjoint w 348 164) (program_stores p)"
  using assms
  by (auto simp: program_stores_def prefix_stores_def attribute_stores_def suffix_stores_def Let_def
      store_disjoint_def list_all_iff program_sized_def metadata_sized_def HEADER_SIZE_def)

lemma check_not_Panic: "check m \<noteq> Panic"
  by (simp add: check_def)

lemma package_encode_eq_Ok:
  "encode_into p b = (b', Ok ()) \<longleftrightarrow>
    check (metadata p) = Ok () \<and> code p \<noteq> [] \<and> length (code p) \<le> 65536 \<and> 32 dvd length (code p)
    \<and> length b = 512 + length (code p) \<and> fill_and_write (program_stores p) b = Some b'"
  by (auto simp: encode_into_def MAX_CODE_SIZE_def HEADER_SIZE_def dvd_eq_mod_eq_0
      split: outcome.splits option.splits if_splits)

section \<open>Parsing what was encoded\<close>

lemma byte_of_slice: "i < length b \<Longrightarrow> slice b i (Suc 0) = [v] \<Longrightarrow> b ! i = v"
  by (auto simp: slice_def take_Suc_conv_app_nth dest: arg_cong[where f="\<lambda>xs. xs ! 0"])

lemma parse_metadata_encoded:
  assumes w: "fill_and_write (program_stores p) b = Some b'" and sz: "program_sized p"
    and len: "length b = 512 + length (code p)"
  shows "parse_metadata b' (stage (metadata p)) = Ok (metadata p)"
proof -
  let ?m = "metadata p"
  have len': "length b' = 512 + length (code p)" using fill_and_write_length[OF w] len by simp
  note f = fill_and_write_field[OF w program_stores_regions(1)[OF sz]]
  note g = fill_and_write_bytes[OF w program_stores_regions(1)[OF sz]]
  have single: "slice b' 17 (Suc 0) = [gprs ?m]" "slice b' 204 (Suc 0) = [sysvals_in_d ?m]"
    "slice b' 205 (Suc 0) = [sysvals_out_d ?m]" "slice b' 206 (Suc 0) = [store_req_start ?m]"
    "slice b' 207 (Suc 0) = [store_req_end ?m]"
    by (rule g; simp add: program_stores_def prefix_stores_def suffix_stores_def Let_def)+
  have bytes: "b' ! 17 = gprs ?m" "b' ! 204 = sysvals_in_d ?m" "b' ! 205 = sysvals_out_d ?m"
    "b' ! 206 = store_req_start ?m" "b' ! 207 = store_req_end ?m"
    using len' by (auto intro!: byte_of_slice single)
  have words: "from_le_bytes (slice b' 18 2) = flags ?m" "from_le_bytes (slice b' 24 8) = resource_mask ?m"
    "from_le_bytes (slice b' 192 4) = sysvals_in_ab ?m" "from_le_bytes (slice b' 196 4) = sysvals_out_ab ?m"
    "from_le_bytes (slice b' 200 2) = sysvals_in_c ?m" "from_le_bytes (slice b' 202 2) = sysvals_out_c ?m"
    "from_le_bytes (slice b' 344 4) = fs_color_mask ?m"
    by (rule f; simp add: program_stores_def prefix_stores_def suffix_stores_def Let_def)+
  have arrays: "slice b' 208 128 = fs_inputs ?m" "slice b' 336 8 = fs_sysvals_d ?m"
    using sz by (intro g; simp add: program_stores_def suffix_stores_def Let_def program_sized_def metadata_sized_def)+
  have cb: "collect (\<lambda>i. read_le 4 b' (32 + i * 4)) [0..<32] = Ok (cb_sizes ?m)"
    using sz len'
    by (auto simp: collect_upt_eq_Ok program_sized_def metadata_sized_def read_le_Ok program_stores_def intro!: f)
  have attr: "collect (\<lambda>i. read_le 4 b' (160 + i * 4)) [0..<4] = Ok (attr_in ?m)"
    "collect (\<lambda>i. read_le 4 b' (176 + i * 4)) [0..<4] = Ok (attr_out ?m)"
    using sz len'
    by (auto simp: collect_upt_eq_Ok program_sized_def metadata_sized_def read_le_Ok program_stores_def
        attribute_stores_def intro!: f)
  show ?thesis
    by (simp add: parse_metadata_def Let_def byte_at_Ok read_le_Ok subslice_Ok len' bytes words arrays
        cb attr metadata_new_def)
qed

lemma parse_encoded:
  assumes sz: "program_sized p" and e: "encode_into p b = (b', Ok ())"
  shows "parse b' = Ok p"
proof -
  from e have chk: "check (metadata p) = Ok ()" and ne: "code p \<noteq> []" and le: "length (code p) \<le> 65536"
    and dv: "32 dvd length (code p)" and len: "length b = 512 + length (code p)"
    and w: "fill_and_write (program_stores p) b = Some b'" by (simp_all add: package_encode_eq_Ok)
  have len': "length b' = 512 + length (code p)" using fill_and_write_length[OF w] len by simp
  note f = fill_and_write_field[OF w program_stores_regions(1)[OF sz]]
  note g = fill_and_write_bytes[OF w program_stores_regions(1)[OF sz]]
  have n: "unat (word_of_nat (length (code p)) :: u32) = length (code p)"
    using le by (intro unat_of_nat_lt) simp
  have words: "from_le_bytes (slice b' 8 2) = VERSION"
    "from_le_bytes (slice b' 10 2) = (word_of_nat HEADER_SIZE :: u16)"
    "from_le_bytes (slice b' 12 4) = (word_of_nat (length (code p)) :: u32)"
    by (rule f; simp add: program_stores_def prefix_stores_def Let_def)+
  have magic: "slice b' 0 8 = MAGIC" "slice b' 16 (Suc 0) = [stage_raw (stage (metadata p))]"
    "slice b' 512 (length (code p)) = code p"
    by (rule g; simp add: program_stores_def prefix_stores_def suffix_stores_def Let_def HEADER_SIZE_def)+
  have raw: "b' ! 16 = stage_raw (stage (metadata p))" using len' by (auto intro!: byte_of_slice magic)
  have zero: "slice b' 20 4 = replicate 4 0" "slice b' 348 164 = replicate 164 0"
    using program_untouched[OF sz] len by (intro fill_and_write_zero[OF w]; simp)+
  have nz: "(word_of_nat (length (code p)) :: u32) \<noteq> 0" using n ne by (metis length_0_conv unsigned_0)
  have st: "(if stage_raw (stage (metadata p)) = 0 then Ok Vertex
      else if stage_raw (stage (metadata p)) = 1 then Ok Fragment else Err Metadata)
    = (Ok (stage (metadata p)) :: (Error, Stage) outcome)" by (cases "stage (metadata p)") simp_all
  have "any_nonzero (replicate 4 0 @ replicate 164 0) = False"
    by (simp add: any_nonzero_def list_all_iff)
  then show ?thesis
    using le dv ne nz
    by (simp add: parse_def len' byte_at_Ok read_le_Ok subslice_Ok words magic raw zero n st chk
        parse_metadata_encoded[OF w sz len] HEADER_SIZE_def MAX_CODE_SIZE_def dvd_eq_mod_eq_0
        split del: if_split)
qed

section \<open>Encoding what was parsed\<close>

lemma to_le_slice:
  assumes "8 * m = LENGTH('a)" "i + m \<le> length b"
  shows "to_le_bytes (from_le_bytes (slice b i m) :: 'a::len word) = slice b i m"
  using assms by (simp add: to_le_from_le)

lemma slice_one: "i < length b \<Longrightarrow> slice b i (Suc 0) = [b ! i]"
  by (simp add: slice_def take_Suc_conv_app_nth)

lemma parse_metadata_eq_Ok:
  assumes "parse_metadata b s = Ok m" "512 \<le> length b"
  shows "m = \<lparr>stage = s, gprs = b ! 17, flags = from_le_bytes (slice b 18 2),
      resource_mask = from_le_bytes (slice b 24 8),
      cb_sizes = map (\<lambda>i. from_le_bytes (slice b (32 + i * 4) 4)) [0..<32],
      attr_in = map (\<lambda>i. from_le_bytes (slice b (160 + i * 4) 4)) [0..<4],
      attr_out = map (\<lambda>i. from_le_bytes (slice b (176 + i * 4) 4)) [0..<4],
      sysvals_in_ab = from_le_bytes (slice b 192 4), sysvals_in_c = from_le_bytes (slice b 200 2),
      sysvals_in_d = b ! 204, sysvals_out_ab = from_le_bytes (slice b 196 4),
      sysvals_out_c = from_le_bytes (slice b 202 2), sysvals_out_d = b ! 205,
      store_req_start = b ! 206, store_req_end = b ! 207, fs_inputs = slice b 208 128,
      fs_sysvals_d = slice b 336 8, fs_color_mask = from_le_bytes (slice b 344 4)\<rparr>"
proof -
  have c: "collect (\<lambda>i. read_le 4 b (k + i * 4)) [0..<n]
      = (Ok (map (\<lambda>i. from_le_bytes (slice b (k + i * 4) 4)) [0..<n]) :: (Error, u32 list) outcome)"
    if "k + n * 4 \<le> 512" for k n
    using that assms(2) by (auto simp: collect_upt_eq_Ok read_le_Ok)
  show ?thesis
    using assms
    by (simp add: parse_metadata_def Let_def byte_at_Ok read_le_Ok subslice_Ok c metadata_new_def)
qed

lemma stage_of_raw:
  "(if r = 0 then Ok Vertex else if r = 1 then Ok Fragment else Err Metadata)
    = (Ok s :: (Error, Stage) outcome) \<longleftrightarrow> r = stage_raw s"
  by (cases s) auto

lemma parse_eq_Ok:
  assumes "parse b = Ok p"
  shows "512 < length b" "length b \<le> 512 + 65536" "32 dvd length b - 512"
    and "slice b 0 8 = MAGIC" "from_le_bytes (slice b 8 2) = VERSION"
    and "unat (from_le_bytes (slice b 10 2) :: u16) = 512"
    and "unat (from_le_bytes (slice b 12 4) :: u32) = length b - 512"
    and "b ! 16 = stage_raw (stage (metadata p))"
    and "\<not> any_nonzero (slice b 20 4)" "\<not> any_nonzero (slice b 348 164)"
    and "parse_metadata b (stage (metadata p)) = Ok (metadata p)"
    and "check (metadata p) = Ok ()" "code p = slice b 512 (length b - 512)"
proof -
  have app: "any_nonzero (xs @ ys) \<longleftrightarrow> any_nonzero xs \<or> any_nonzero ys" for xs ys
    by (simp add: any_nonzero_def)
  from assms have len: "512 \<le> length b" by (auto simp: parse_def HEADER_SIZE_def split: if_splits)
  from assms len obtain s m where
    a: "slice b 0 8 = MAGIC" "unat (from_le_bytes (slice b 10 2) :: u16) = 512"
      "from_le_bytes (slice b 8 2) = VERSION" "(from_le_bytes (slice b 12 4) :: u32) \<noteq> 0"
      "unat (from_le_bytes (slice b 12 4) :: u32) \<le> 65536"
      "unat (from_le_bytes (slice b 12 4) :: u32) mod 32 = 0"
      "length b = 512 + unat (from_le_bytes (slice b 12 4) :: u32)"
    and s: "b ! 16 = stage_raw s" and m: "parse_metadata b s = Ok m"
    and z: "\<not> any_nonzero (slice b 20 4)" "\<not> any_nonzero (slice b 348 164)"
    and c: "check m = Ok ()" and p: "p = \<lparr>metadata = m, code = slice b 512 (length b - 512)\<rparr>"
    by (auto simp: parse_def HEADER_SIZE_def MAX_CODE_SIZE_def outcome_simps read_le_Ok subslice_Ok
        byte_at_Ok app stage_of_raw)
  have "stage m = s" using parse_metadata_eq_Ok[OF m len] by simp
  moreover have "0 < unat (from_le_bytes (slice b 12 4) :: u32)" using a(4) by (simp add: unat_pos_iff)
  ultimately show "512 < length b" "length b \<le> 512 + 65536" "32 dvd length b - 512"
    "slice b 0 8 = MAGIC" "from_le_bytes (slice b 8 2) = VERSION"
    "unat (from_le_bytes (slice b 10 2) :: u16) = 512"
    "unat (from_le_bytes (slice b 12 4) :: u32) = length b - 512"
    "b ! 16 = stage_raw (stage (metadata p))"
    "\<not> any_nonzero (slice b 20 4)" "\<not> any_nonzero (slice b 348 164)"
    "parse_metadata b (stage (metadata p)) = Ok (metadata p)"
    "check (metadata p) = Ok ()" "code p = slice b 512 (length b - 512)"
    using a s m z c p by (simp_all add: dvd_eq_mod_eq_0)
qed

lemma parse_sized: "parse b = Ok p \<Longrightarrow> program_sized p"
proof -
  assume "parse b = Ok p"
  note f = parse_eq_Ok[OF this]
  have len: "512 \<le> length b" using f(1) by simp
  then show ?thesis
    unfolding program_sized_def
    by (subst parse_metadata_eq_Ok[OF f(11) len]) (simp add: metadata_sized_def)
qed

lemma parsed_stores:
  assumes p: "parse b = Ok p"
  shows "\<forall>(i, xs) \<in> set (program_stores p). slice b i (length xs) = xs"
proof -
  note f = parse_eq_Ok[OF p]
  have len: "512 \<le> length b" using f(1) by simp
  have m: "metadata p = \<lparr>stage = stage (metadata p), gprs = b ! 17, flags = from_le_bytes (slice b 18 2),
      resource_mask = from_le_bytes (slice b 24 8),
      cb_sizes = map (\<lambda>i. from_le_bytes (slice b (32 + i * 4) 4)) [0..<32],
      attr_in = map (\<lambda>i. from_le_bytes (slice b (160 + i * 4) 4)) [0..<4],
      attr_out = map (\<lambda>i. from_le_bytes (slice b (176 + i * 4) 4)) [0..<4],
      sysvals_in_ab = from_le_bytes (slice b 192 4), sysvals_in_c = from_le_bytes (slice b 200 2),
      sysvals_in_d = b ! 204, sysvals_out_ab = from_le_bytes (slice b 196 4),
      sysvals_out_c = from_le_bytes (slice b 202 2), sysvals_out_d = b ! 205,
      store_req_start = b ! 206, store_req_end = b ! 207, fs_inputs = slice b 208 128,
      fs_sysvals_d = slice b 336 8, fs_color_mask = from_le_bytes (slice b 344 4)\<rparr>" (is "_ = ?m")
    by (rule parse_metadata_eq_Ok[OF f(11) len])
  note fields = arg_cong[OF m, of gprs] arg_cong[OF m, of flags] arg_cong[OF m, of resource_mask]
    arg_cong[OF m, of cb_sizes] arg_cong[OF m, of attr_in] arg_cong[OF m, of attr_out]
    arg_cong[OF m, of sysvals_in_ab] arg_cong[OF m, of sysvals_in_c] arg_cong[OF m, of sysvals_in_d]
    arg_cong[OF m, of sysvals_out_ab] arg_cong[OF m, of sysvals_out_c] arg_cong[OF m, of sysvals_out_d]
    arg_cong[OF m, of store_req_start] arg_cong[OF m, of store_req_end] arg_cong[OF m, of fs_inputs]
    arg_cong[OF m, of fs_sysvals_d] arg_cong[OF m, of fs_color_mask]
  note fields = fields[simplified Metadata.simps]
  have num: "to_le_bytes (word_of_nat HEADER_SIZE :: u16) = slice b 10 2"
    "to_le_bytes (word_of_nat (length b - 512) :: u32) = slice b 12 4"
  proof -
    have "(word_of_nat HEADER_SIZE :: u16) = from_le_bytes (slice b 10 2)"
      "(word_of_nat (length b - 512) :: u32) = from_le_bytes (slice b 12 4)"
      using f(2,6,7) by (simp_all add: HEADER_SIZE_def word_unat_eq_iff unat_of_nat_lt)
    then show "to_le_bytes (word_of_nat HEADER_SIZE :: u16) = slice b 10 2"
      "to_le_bytes (word_of_nat (length b - 512) :: u32) = slice b 12 4"
      using len by (simp_all add: to_le_slice)
  qed
  have version: "to_le_bytes VERSION = slice b 8 2"
    unfolding f(5)[symmetric] using len by (simp add: to_le_slice)
  have "\<forall>(i, xs) \<in> set (prefix_stores p). slice b i (length xs) = xs"
    using len f(4,8) num version
    by (simp add: prefix_stores_def Let_def fields f(13) to_le_slice slice_one)
  moreover have "\<forall>(i, xs) \<in> set (attribute_stores (metadata p)). slice b i (length xs) = xs"
    using len by (simp add: attribute_stores_def upt_four fields to_le_slice)
  moreover have "\<forall>(i, xs) \<in> set (suffix_stores p). slice b i (length xs) = xs"
    using len by (simp add: suffix_stores_def Let_def fields f(13) to_le_slice slice_one HEADER_SIZE_def)
  moreover have "\<forall>(i, xs) \<in> set (concat (map (\<lambda>i. [(32 + i * 4, to_le_bytes (cb_sizes (metadata p) ! i))]) [0..<32])).
      slice b i (length xs) = xs"
    using len by (auto simp: fields to_le_slice)
  ultimately show ?thesis unfolding program_stores_def set_append ball_Un by blast
qed

lemma parsed_cover:
  assumes p: "parse b = Ok p" and j: "j < length b"
  shows "stores_cover (program_stores p) j \<or> b ! j = 0"
proof -
  note f = parse_eq_Ok[OF p]
  have sz: "length (fs_inputs (metadata p)) = 128" "length (fs_sysvals_d (metadata p)) = 8"
    "length (code p) = length b - 512"
    using parse_sized[OF p] f(1,13) by (simp_all add: program_sized_def metadata_sized_def)
  consider "j < 20" | "20 \<le> j" "j < 24" | "24 \<le> j" "j < 32" | "32 \<le> j" "j < 32 + 32 * 4"
    | "160 \<le> j" "j < 192" | "192 \<le> j" "j < 348" | "348 \<le> j" "j < 512" | "512 \<le> j" by linarith
  then show ?thesis
  proof cases
    case 1
    have "covers 0 (take 7 (prefix_stores p)) 20" by (simp add: prefix_stores_def Let_def)
    moreover have "set (take 7 (prefix_stores p)) \<subseteq> set (program_stores p)"
      using set_take_subset[of 7 "prefix_stores p"] by (auto simp: program_stores_def)
    ultimately show ?thesis using covers_stores_cover[of 0 _ 20 "program_stores p" j] 1 by blast
  next
    case 2
    then show ?thesis using any_nonzero_slice[of 20 4 b] f(1,9) by simp
  next
    case 3
    have "covers 24 [(24, to_le_bytes (resource_mask (metadata p)))] 32" by simp
    from covers_stores_cover[OF this, of "program_stores p" j] 3 show ?thesis
      by (simp add: program_stores_def prefix_stores_def Let_def)
  next
    case 4
    from table_index[OF 4] obtain i where i: "i < 32" "32 + i * 4 \<le> j" "j < 32 + i * 4 + 4" by blast
    have "covers (32 + i * 4) [(32 + i * 4, to_le_bytes (cb_sizes (metadata p) ! i))] (32 + i * 4 + 4)" by simp
    from covers_stores_cover[OF this _ i(2,3), of "program_stores p"] i(1) show ?thesis
      by (auto simp: program_stores_def)
  next
    case 5
    let ?a = "\<lambda>f base. map (\<lambda>i. (base + i * 4, to_le_bytes (f (metadata p) ! i))) [0, 1, 2, 3 :: nat]"
    have "covers 160 (?a attr_in 160 @ ?a attr_out 176) 192" by simp
    from covers_stores_cover[OF this, of "program_stores p" j] 5 show ?thesis
      by (simp add: program_stores_def attribute_stores_def upt_four)
  next
    case 6
    have "covers 192 (take 11 (suffix_stores p)) 348"
      using sz by (simp add: suffix_stores_def Let_def)
    moreover have "set (take 11 (suffix_stores p)) \<subseteq> set (program_stores p)"
      using set_take_subset[of 11 "suffix_stores p"] by (auto simp: program_stores_def)
    ultimately show ?thesis using covers_stores_cover[of 192 _ 348 "program_stores p" j] 6 by blast
  next
    case 7
    then show ?thesis using any_nonzero_slice[of 348 164 b] f(1,10) by simp
  next
    case 8
    have "covers 512 [(512, code p)] (length b)" using sz f(1) by simp
    from covers_stores_cover[OF this, of "program_stores p" j] 8 j show ?thesis
      by (simp add: program_stores_def suffix_stores_def Let_def HEADER_SIZE_def)
  qed
qed

lemma encode_parsed:
  assumes p: "parse b = Ok p" and c: "length c = length b"
  shows "encode_into p c = (b, Ok ())"
proof -
  note f = parse_eq_Ok[OF p]
  have len: "length b = 512 + length (code p)" using f(1,13) by simp
  have "fill_and_write (program_stores p) c = Some b"
    using parsed_stores[OF p] parsed_cover[OF p] program_stores_regions(2)[OF parse_sized[OF p]] len c
    by (intro fill_and_write_canonical) auto
  then show ?thesis using f(1-3,12) len c by (auto simp: package_encode_eq_Ok)
qed

lemma parse_not_Panic: "parse b \<noteq> Panic"
proof (cases "512 \<le> length b")
  case True
  then have "parse_metadata b s \<noteq> Panic" for s
    by (auto simp: parse_metadata_def Let_def outcome_simps byte_at_Ok read_le_Ok subslice_Ok
        intro!: collect_not_Panic)
  with True show ?thesis
    by (auto simp: parse_def HEADER_SIZE_def outcome_simps byte_at_Ok read_le_Ok subslice_Ok check_not_Panic)
qed (simp add: parse_def HEADER_SIZE_def)

interpretation program_package: canonical_wire_format program_sized encode_into parse
proof unfold_locales
  fix p b b' assume "program_sized p" "encode_into p b = (b', Ok ())"
  then show "parse b' = Ok p" by (rule parse_encoded)
next
  fix p b b' e assume "encode_into p b = (b', Err e)"
  then show "b' = b" by (auto simp: encode_into_def split: if_splits outcome.splits option.splits)
next
  fix p b assume "program_sized p"
  then show "snd (encode_into p b) \<noteq> Panic"
    using program_stores_regions(2)[of p] fill_and_write_within[of "program_stores p" b]
    by (auto simp: encode_into_def check_not_Panic HEADER_SIZE_def split: outcome.splits option.splits)
next
  fix b show "parse b \<noteq> Panic" by (rule parse_not_Panic)
next
  fix b p assume "parse b = Ok p"
  then show "program_sized p" by (rule parse_sized)
next
  fix b c :: bytes and p assume "parse b = Ok p" "length c = length b"
  then show "encode_into p c = (b, Ok ())" by (rule encode_parsed)
qed

end
