(* ===== verification/Program_Claims.thy ===== *)
theory Program_Claims
  imports Program_Props
begin

text \<open>
  The properties of program packages and of the hardware header made from their metadata.
\<close>

section \<open>Bits of a header\<close>

definition header_bit :: "u32 list \<Rightarrow> nat \<Rightarrow> bool" where
  "header_bit h k = bit (h ! (k div 32)) (k mod 32)"

lemma set_bit_step_spec:
  assumes "start + i < 32 * length h"
  shows "\<exists>h'. set_bit_step start v i h = Some h' \<and> length h' = length h
    \<and> (\<forall>k < 32 * length h. header_bit h' k \<longleftrightarrow> header_bit h k \<or> k = start + i \<and> bit v i)"
proof -
  let ?j = "start + i"
  have j: "?j div 32 < length h" using assms by (simp add: less_mult_imp_div_less mult.commute)
  have same: "k = ?j \<longleftrightarrow> k div 32 = ?j div 32 \<and> k mod 32 = ?j mod 32" for k
    by (metis div_mult_mod_eq)
  have m: "k mod 32 < 32" for k :: nat by simp
  show ?thesis
  proof (cases "bit v i")
    case True
    then have "v AND push_bit i 1 \<noteq> 0" by (simp only: bit_iff_and_push_bit_not_eq_0[symmetric])
    then have step: "set_bit_step start v i h
      = Some (h[?j div 32 := h ! (?j div 32) OR push_bit (?j mod 32) 1])"
      using j unfolding set_bit_step_def by (simp only: if_True simp_thms)
    have "header_bit (h[?j div 32 := h ! (?j div 32) OR push_bit (?j mod 32) 1]) k
        \<longleftrightarrow> header_bit h k \<or> k = ?j" if "k < 32 * length h" for k
    proof -
      have "k div 32 < length h" using that by (simp add: less_mult_imp_div_less mult.commute)
      then show ?thesis
        unfolding header_bit_def same
        by (cases "k div 32 = ?j div 32")
          (auto simp: bit_or_iff bit_exp_iff)
    qed
    with step True show ?thesis by simp
  next
    case False
    then have "\<not> v AND push_bit i 1 \<noteq> 0"
      by (simp only: bit_iff_and_push_bit_not_eq_0[symmetric] not_False_eq_True)
    then have "set_bit_step start v i h = Some h"
      unfolding set_bit_step_def by (simp only: if_False simp_thms)
    with False show ?thesis by simp
  qed
qed

lemma set_bits_spec:
  assumes "start + count \<le> 32 * length h"
  shows "\<exists>h'. set_bits h start count v = Some h' \<and> length h' = length h
    \<and> (\<forall>k < 32 * length h. header_bit h' k \<longleftrightarrow>
        header_bit h k \<or> start \<le> k \<and> k < start + count \<and> bit v (k - start))"
proof -
  have "\<exists>h'. set_bits_from start v is h = Some h' \<and> length h' = length h
    \<and> (\<forall>k < 32 * length h. header_bit h' k \<longleftrightarrow> header_bit h k \<or> (\<exists>i \<in> set is. k = start + i \<and> bit v i))"
    if "\<forall>i \<in> set is. start + i < 32 * length h" for "is" h
    using that
  proof (induction "is" arbitrary: h)
    case Nil
    then show ?case by simp
  next
    case (Cons i "is")
    obtain h1 where h1: "set_bit_step start v i h = Some h1" "length h1 = length h"
      "\<forall>k < 32 * length h. header_bit h1 k \<longleftrightarrow> header_bit h k \<or> k = start + i \<and> bit v i"
      using set_bit_step_spec[of start i h v] Cons.prems by auto
    obtain h2 where h2: "set_bits_from start v is h1 = Some h2" "length h2 = length h1"
      "\<forall>k < 32 * length h1. header_bit h2 k \<longleftrightarrow>
        header_bit h1 k \<or> (\<exists>i \<in> set is. k = start + i \<and> bit v i)"
      using Cons.IH[of h1] Cons.prems h1(2) by auto
    show ?case using h1 h2 by auto
  qed
  from this[of "[0..<count]" h] assms obtain h' where
    h': "set_bits_from start v [0..<count] h = Some h'" "length h' = length h"
    "\<forall>k < 32 * length h. header_bit h' k \<longleftrightarrow>
      header_bit h k \<or> (\<exists>i \<in> set [0..<count]. k = start + i \<and> bit v i)" by auto
  have "(\<exists>i \<in> set [0..<count]. k = start + i \<and> bit v i)
      \<longleftrightarrow> start \<le> k \<and> k < start + count \<and> bit v (k - start)" for k
    by (auto intro: bexI[of _ "k - start"])
  with h' show ?thesis by (simp add: set_bits_def)
qed

text \<open>Fields as byte windows, so that the lemmas on disjoint stores apply.\<close>

definition field_store :: "nat \<times> nat \<times> u32 \<Rightarrow> store" where
  "field_store f = (fst f, replicate (fst (snd f)) 0)"

lemma write_fields_spec:
  assumes "stores_in 0 640 (map field_store fs)" "length h = 20"
  shows "\<exists>h'. write_fields fs h = Some h' \<and> length h' = 20
    \<and> (\<forall>k < 640. header_bit h' k \<longleftrightarrow> header_bit h k
        \<or> (\<exists>(s, c, v) \<in> set fs. s \<le> k \<and> k < s + c \<and> bit v (k - s)))"
  using assms
proof (induction fs arbitrary: h)
  case Nil
  then show ?case by simp
next
  case (Cons f fs)
  obtain s c v where f: "f = (s, c, v)" by (cases f)
  then obtain h1 where h1: "set_bits h s c v = Some h1" "length h1 = 20"
    "\<forall>k < 640. header_bit h1 k \<longleftrightarrow> header_bit h k \<or> s \<le> k \<and> k < s + c \<and> bit v (k - s)"
    using set_bits_spec[of s c h v] Cons.prems by (auto simp: field_store_def)
  obtain h2 where h2: "write_fields fs h1 = Some h2" "length h2 = 20"
    "\<forall>k < 640. header_bit h2 k \<longleftrightarrow> header_bit h1 k
        \<or> (\<exists>(s, c, v) \<in> set fs. s \<le> k \<and> k < s + c \<and> bit v (k - s))"
    using Cons.IH[OF _ h1(2)] Cons.prems(1) by auto
  show ?case using h1 h2 by (auto simp: f)
qed

lemma distinct_fields_apart:
  assumes "stores_disjoint (map field_store fs)" "(s, c, v) \<in> set fs" "(s', c', v') \<in> set fs"
    and "(s, c, v) \<noteq> (s', c', v')"
  shows "s + c \<le> s' \<or> s' + c' \<le> s"
  using assms
  by (induction fs) (auto simp: field_store_def store_disjoint_def list_all_iff)

lemma table_fields:
  "stores_in base (base + n * 2) (map field_store (map (\<lambda>i. (base + i * 2, 2, f i)) [0..<n]))
    \<and> stores_disjoint (map field_store (map (\<lambda>i. (base + i * 2, 2, f i)) [0..<n]))"
proof -
  have eq: "map field_store (map (\<lambda>i. (base + i * 2, 2, f i)) [0..<n])
      = concat (map (\<lambda>i. [field_store (base + i * 2, 2, f i)]) [0..<n])"
    by (induction n) auto
  show ?thesis unfolding eq by (rule table_stores) (simp_all add: field_store_def)
qed

section \<open>The fields of a header\<close>

lemma vertex_fields_apart:
  "stores_in 140 640 (map field_store (vertex_fields m))
    \<and> list_all (\<lambda>w. store_disjoint w 160 32) (map field_store (vertex_fields m))
    \<and> stores_disjoint (map field_store (vertex_fields m))"
  by (simp add: vertex_fields_def upt_four field_store_def store_disjoint_def)

lemma fragment_fields_apart:
  "list_all (\<lambda>w. 14 \<le> fst w \<and> fst w + length (snd w) \<le> 16 \<or> 192 \<le> fst w) (map field_store (fragment_fields m))
    \<and> stores_in 14 640 (map field_store (fragment_fields m))
    \<and> stores_disjoint (map field_store (fragment_fields m))"
proof -
  let ?in = "map (\<lambda>i. (192 + i * 2, 2, ucast (fs_inputs m ! i) :: u32)) [0..<128]"
  let ?sys = "map (\<lambda>i. (560 + i * 2, 2, ucast (fs_sysvals_d m ! i) :: u32)) [0..<8]"
  let ?last = "[(576, 32, fs_color_mask m), (608, 1, if flags m AND FLAG_SAMPLE_MASK \<noteq> 0 then 1 else 0),
     (609, 1, if flags m AND FLAG_DEPTH \<noteq> 0 then 1 else 0 :: u32)]"
  have i: "stores_in 192 448 (map field_store ?in)" "stores_disjoint (map field_store ?in)"
    using table_fields[of 192 128 "\<lambda>i. ucast (fs_inputs m ! i)"] by simp_all
  have s: "stores_in 560 576 (map field_store ?sys)" "stores_disjoint (map field_store ?sys)"
    using table_fields[of 560 8 "\<lambda>i. ucast (fs_sysvals_d m ! i)"] by simp_all
  have e: "stores_in 576 640 (map field_store ?last)" "stores_disjoint (map field_store ?last)"
    by (simp_all add: field_store_def store_disjoint_def)
  have se: "stores_disjoint (map field_store ?sys @ map field_store ?last)"
    by (rule stores_disjoint_append[OF s(2) e(2) s(1) e(1)]) simp
  have se_in: "stores_in 560 640 (map field_store ?sys @ map field_store ?last)"
    by (rule stores_in_append[OF s(1) e(1)]) simp_all
  let ?c = "map field_store [(464, 16, ucast (sysvals_in_c m) :: u32)]"
  have c: "stores_in 464 480 ?c" "stores_disjoint ?c" by (simp_all add: field_store_def)
  have cse: "stores_disjoint (?c @ map field_store ?sys @ map field_store ?last)"
    by (rule stores_disjoint_append[OF c(2) se c(1) se_in]) simp
  have cse_in: "stores_in 464 640 (?c @ map field_store ?sys @ map field_store ?last)"
    by (rule stores_in_append[OF c(1) se_in]) simp_all
  have icse: "stores_disjoint (map field_store ?in @ ?c @ map field_store ?sys @ map field_store ?last)"
    by (rule stores_disjoint_append[OF i(2) cse i(1) cse_in]) simp
  have icse_in: "stores_in 192 640 (map field_store ?in @ ?c @ map field_store ?sys @ map field_store ?last)"
    by (rule stores_in_append[OF i(1) cse_in]) simp_all
  let ?h = "map field_store [(14, 1, 1), (15, 1, if flags m AND FLAG_KILL \<noteq> 0 then 1 else 0 :: u32)]"
  have h: "stores_in 14 16 ?h" "stores_disjoint ?h" by (simp_all add: field_store_def store_disjoint_def)
  have all: "stores_disjoint (?h @ map field_store ?in @ ?c @ map field_store ?sys @ map field_store ?last)"
    by (rule stores_disjoint_append[OF h(2) icse h(1) icse_in]) simp
  have split: "map field_store (fragment_fields m)
      = ?h @ map field_store ?in @ ?c @ map field_store ?sys @ map field_store ?last"
    unfolding fragment_fields_def map_append by simp
  have "stores_in 14 640 (map field_store (fragment_fields m))"
    unfolding split by (rule stores_in_append[OF h(1) icse_in]) simp_all
  moreover have "list_all (\<lambda>w. 14 \<le> fst w \<and> fst w + length (snd w) \<le> 16 \<or> 192 \<le> fst w) ?h"
    "list_all (\<lambda>w. 14 \<le> fst w \<and> fst w + length (snd w) \<le> 16 \<or> 192 \<le> fst w)
      (map field_store ?in @ ?c @ map field_store ?sys @ map field_store ?last)"
    using h(1) icse_in unfolding stores_in_def list_all_iff by blast+
  ultimately show ?thesis using all unfolding split list_all_append[of _ ?h] by blast
qed

lemma header_fields_apart:
  "stores_in 0 640 (map field_store (header_fields m))"
  "stores_disjoint (map field_store (header_fields m))"
proof -
  show "stores_in 0 640 (map field_store (header_fields m))"
    using vertex_fields_apart[of m] fragment_fields_apart[of m]
    by (auto simp: header_fields_def field_store_def intro: stores_in_mono)
  show "stores_disjoint (map field_store (header_fields m))"
    using vertex_fields_apart[of m] fragment_fields_apart[of m]
    by (auto simp: header_fields_def field_store_def store_disjoint_def stores_in_def list_all_iff)
qed

lemma header_values_fit:
  assumes "check m = Ok ()" "metadata_sized m" "(s, c, v) \<in> set (header_fields m)"
  shows "unat v < 2 ^ c"
proof -
  have u8: "unat (ucast x :: u32) = unat x" for x :: u8
    by (simp add: unsigned_ucast_eq take_bit_nat_eq_self unat_u8_u32)
  have u16: "unat (ucast x :: u32) = unat x" for x :: u16
    using unat_less_2p[of x] by (simp add: unsigned_ucast_eq take_bit_nat_eq_self)
  have b8: "unat (x :: u8) < 256" and b16: "unat (y :: u16) < 65536" and b32: "unat (z :: u32) < 4294967296"
    for x y z using unat_less_2p[of x] unat_less_2p[of y] unat_less_2p[of z] by simp_all
  have io: "list_all (\<lambda>x. unat x \<le> 3) (fs_inputs m @ fs_sysvals_d m)"
    using assms(1) by (auto simp: check_def list_ex_iff list_all_iff word_less_nat_alt not_less split: if_splits)
  have nth: "i < 128 \<Longrightarrow> unat (fs_inputs m ! i) < 4" "j < 8 \<Longrightarrow> unat (fs_sysvals_d m ! j) < 4" for i j
  proof -
    have small: "unat x < 4" if "x \<in> set (fs_inputs m @ fs_sysvals_d m)" for x
      using io that unfolding list_all_iff by fastforce
    show "i < 128 \<Longrightarrow> unat (fs_inputs m ! i) < 4" "j < 8 \<Longrightarrow> unat (fs_sysvals_d m ! j) < 4"
      using assms(2) by (auto simp: metadata_sized_def intro!: small)
  qed
  show ?thesis
    using assms(3) nth b8 b16 b32
    by (auto simp: header_fields_def vertex_fields_def fragment_fields_def u8 u16 split: if_splits)
qed

section \<open>A program for the witnesses\<close>

definition sample_program :: Program where
  "sample_program = \<lparr>metadata = (metadata_new Vertex)\<lparr>gprs := 8, store_req_end := 7\<rparr>,
     code = replicate 64 1\<rparr>"

lemma sample_program_sized: "program_sized sample_program"
  by (simp add: sample_program_def program_sized_def metadata_sized_def metadata_new_def)

lemma sample_program_check: "check (metadata sample_program) = Ok ()"
  by (simp add: sample_program_def check_def metadata_new_def FLAG_DEPTH_def FLAG_SAMPLE_MASK_def
      FLAG_KILL_def MAX_CB_SIZE_def list_ex_iff)

section \<open>Properties\<close>

text \<open>C38: A program package is parsed to the program it was encoded from; when the encoder reports
  an error the buffer is as it was and the error is the one of \<open>check\<close> or the size of the buffer.\<close>

theorem program_round_trip:
  assumes "program_sized p"
  shows "case encode_into p b of
     (b', Ok _) \<Rightarrow> parse b' = Ok p \<and> check (metadata p) = Ok ()
   | (b', Err e) \<Rightarrow> b' = b \<and> (check (metadata p) = Err e \<or> e = Size)
   | (b', Panic) \<Rightarrow> False"
proof (cases rule: program_package.encode_cases[OF assms, of b, case_names encoded refused])
  case (encoded c)
  then have "check (metadata p) = Ok ()" by (simp add: package_encode_eq_Ok)
  with encoded show ?thesis by simp
next
  case (refused e)
  then show ?thesis by (auto simp: encode_into_def split: if_splits outcome.splits option.splits)
qed

theorem program_round_trip_witness:
  "program_sized sample_program \<and> (\<exists>b'. encode_into sample_program (replicate 576 3) = (b', Ok ())
    \<and> parse b' = Ok sample_program)"
proof -
  have "length (code sample_program) = 64" "code sample_program \<noteq> []" by (simp_all add: sample_program_def)
  then have "\<exists>b'. encode_into sample_program (replicate 576 3) = (b', Ok ())"
    using program_stores_regions(2)[OF sample_program_sized] sample_program_check
      fill_and_write_within[of "program_stores sample_program" "replicate 576 3"]
    by (auto simp: package_encode_eq_Ok)
  then show ?thesis
    using program_round_trip[OF sample_program_sized, of "replicate 576 3"] sample_program_sized by auto
qed

text \<open>\<open>parse\<close> accepts exactly the packages that \<open>encode_into\<close> writes, and returns the program they
  were written from.\<close>

theorem program_canonical:
  "parse b = Ok p \<longleftrightarrow> program_sized p \<and> (\<exists>c. length c = length b \<and> encode_into p c = (b, Ok ()))"
  by (rule program_package.decode_iff)

text \<open>Every metadata field of a checked program fits its bits in the hardware header and is found
  there untruncated, and every other bit of the header is zero.\<close>

theorem header_holds_metadata:
  assumes "check m = Ok ()" "metadata_sized m"
  shows "\<exists>h. header m = Some h \<and> length h = 20
    \<and> (\<forall>(s, c, v) \<in> set (header_fields m). unat v < 2 ^ c \<and> (\<forall>i < c. header_bit h (s + i) = bit v i))
    \<and> (\<forall>k < 640. header_bit h k \<longrightarrow> (\<exists>(s, c, v) \<in> set (header_fields m). s \<le> k \<and> k < s + c))"
proof -
  obtain h where h: "header m = Some h" "length h = 20"
    and bits: "\<forall>k < 640. header_bit h k \<longleftrightarrow> header_bit (replicate 20 0) k
        \<or> (\<exists>(s, c, v) \<in> set (header_fields m). s \<le> k \<and> k < s + c \<and> bit v (k - s))"
    using write_fields_spec[OF header_fields_apart(1), of "replicate 20 0" m] by (auto simp: header_def)
  have zero: "\<not> header_bit (replicate 20 0) k" if "k < 640" for k
    using that by (simp add: header_bit_def less_mult_imp_div_less)
  have "header_bit h (s + i) = bit v i" if f: "(s, c, v) \<in> set (header_fields m)" and i: "i < c" for s c v i
  proof -
    have "s + c \<le> 640"
      using header_fields_apart(1)[of m] f
      by (auto simp: stores_in_def list_all_iff field_store_def)
    then have k: "s + i < 640" using i by simp
    have "s' = s \<and> c' = c \<and> v' = v"
      if "(s', c', v') \<in> set (header_fields m)" "s' \<le> s + i" "s + i < s' + c'" for s' c' v'
      using distinct_fields_apart[OF header_fields_apart(2) f that(1)] that(2,3) i by force
    then have same: "s' = s \<and> c' = c \<and> v' = v"
      if "(s', c', v') \<in> set (header_fields m) \<and> s' \<le> s + i \<and> s + i < s' + c'" for s' c' v'
      using that by blast
    have "header_bit h (s + i) \<longleftrightarrow> (\<exists>(s', c', v') \<in> set (header_fields m).
        s' \<le> s + i \<and> s + i < s' + c' \<and> bit v' (s + i - s'))"
      using bits k zero[OF k] by blast
    also have "\<dots> \<longleftrightarrow> bit v i"
    proof
      assume "\<exists>(s', c', v') \<in> set (header_fields m). s' \<le> s + i \<and> s + i < s' + c' \<and> bit v' (s + i - s')"
      then obtain s' c' v' where o: "(s', c', v') \<in> set (header_fields m)" "s' \<le> s + i"
        "s + i < s' + c'" "bit v' (s + i - s')" by blast
      then show "bit v i" using same[of s' c' v'] by simp
    next
      assume "bit v i"
      then show "\<exists>(s', c', v') \<in> set (header_fields m). s' \<le> s + i \<and> s + i < s' + c' \<and> bit v' (s + i - s')"
        using f i by (intro bexI[of _ "(s, c, v)"]) auto
    qed
    finally show ?thesis .
  qed
  moreover have "unat v < 2 ^ c" if "(s, c, v) \<in> set (header_fields m)" for s c v
    using header_values_fit[OF assms that] .
  moreover have "\<exists>(s, c, v) \<in> set (header_fields m). s \<le> k \<and> k < s + c"
    if "k < 640" "header_bit h k" for k using bits that zero by blast
  ultimately show ?thesis using h by blast
qed

theorem header_holds_metadata_witness:
  "\<exists>h. header (metadata sample_program) = Some h \<and> header_bit h 152 \<and> header_bit h 153
    \<and> header_bit h 154 \<and> \<not> header_bit h 155"
proof -
  have "metadata_sized (metadata sample_program)"
    using sample_program_sized by (simp add: program_sized_def)
  from header_holds_metadata[OF sample_program_check this] obtain h where
    h: "header (metadata sample_program) = Some h"
    and f: "\<forall>(s, c, v) \<in> set (header_fields (metadata sample_program)). \<forall>i < c. header_bit h (s + i) = bit v i"
    by blast
  have "(152, 8, 7) \<in> set (header_fields (metadata sample_program))"
    by (simp add: header_fields_def vertex_fields_def sample_program_def metadata_new_def)
  then have all: "\<forall>i < 8. header_bit h (152 + i) = bit (7 :: u32) i" using f by blast
  have "bit (7 :: u32) 0" "bit (7 :: u32) 1" "bit (7 :: u32) 2" "\<not> bit (7 :: u32) 3"
    by code_simp+
  with all[rule_format, of 0] all[rule_format, of 1] all[rule_format, of 2] all[rule_format, of 3] h
  show ?thesis by simp
qed

end
