(* ===== verification/Verify_Claims.thy ===== *)
theory Verify_Claims
  imports Verify_Props Recognition_Claims Program_Claims
begin

text \<open>
  The theorems about the program verifier: control safety and progress of accepted programs, the
  authority of accepted instructions, exact branch targets, and the absence of panics.
\<close>

section \<open>Forms are recognised alone\<close>

lemma only_nth:
  assumes "i < length decode_forms" "form_matches (decode_forms ! i) w"
  shows "find_alu_encoding w = None"
    "\<forall>g \<in> set (take i decode_forms @ drop (Suc i) decode_forms). \<not> form_matches g w"
proof -
  have split: "decode_forms = take i decode_forms @ decode_forms ! i # drop (Suc i) decode_forms"
    using assms(1) by (rule id_take_nth_drop)
  have "filter (\<lambda>f. form_matches f w) (map push_form build @ decode_forms @ refused_forms)
    = filter (\<lambda>f. form_matches f w) (map push_form build @ take i decode_forms)
      @ decode_forms ! i # filter (\<lambda>f. form_matches f w) (drop (Suc i) decode_forms @ refused_forms)"
    using assms(2) by (subst split) simp
  then have e: "filter (\<lambda>f. form_matches f w) (map push_form build @ take i decode_forms) = []"
    "filter (\<lambda>f. form_matches f w) (drop (Suc i) decode_forms @ refused_forms) = []"
    using at_most_one_form[of w] by (auto simp del: filter_append)
  then have "\<forall>g \<in> set (map push_form build). \<not> form_matches g w" by (auto simp: filter_empty_conv)
  then show "find_alu_encoding w = None" by (rule find_alu_encoding_None)
  show "\<forall>g \<in> set (take i decode_forms @ drop (Suc i) decode_forms). \<not> form_matches g w"
    using e by (auto simp: filter_empty_conv)
qed

text \<open>The forms of the textures and of the query are the numbers 10 to 15 of \<open>decode_forms\<close>.\<close>

definition texture_body :: "u64 \<Rightarrow> Metadata \<Rightarrow> Limits \<Rightarrow> nat \<Rightarrow> (Error, Flow) outcome" where
  "texture_body w m limits kind =
     and_then (texture_resource w m limits) (\<lambda>_.
     if field w 28 3 = 5 \<or> field w 31 4 = 0 \<or> kind = 2 \<and> field w 54 2 = 3 then Err Instruction else
     and_then (reg w 0 (count_ones (field w 31 4)) m) (\<lambda>_.
     and_then (reg w 8 1 m) (\<lambda>_.
     and_then (reg w 20 1 m) (\<lambda>_.
     Ok FNext))))"

lemma decode_forms_length: "length decode_forms = 22"
  by (simp add: decode_forms_def BRANCH_FORMS_def POP_FORMS_def TEXTURE_FORMS_def IO_FORMS_def)

lemmas decode_form_lists =
  decode_forms_def BRANCH_FORMS_def POP_FORMS_def TEXTURE_FORMS_def IO_FORMS_def

lemma decode_texture_nth:
  assumes "k < 5" "exact w (fst (TEXTURE_FORMS ! k)) (fst (snd (TEXTURE_FORMS ! k))) 0"
  shows "decode w ip len m limits = texture_body w m limits (snd (snd (TEXTURE_FORMS ! k)))"
proof -
  have nth: "decode_forms ! (10 + k) = exact_form (fst (TEXTURE_FORMS ! k)) (fst (snd (TEXTURE_FORMS ! k))) 0"
    using assms(1) by (auto simp: decode_form_lists nth_append less_Suc_eq numeral_eq_Suc)
  have i: "10 + k < length decode_forms" using assms(1) by (simp add: decode_forms_length)
  have "form_matches (decode_forms ! (10 + k)) w" using assms(2) by (simp add: nth exact_iff_form)
  note only = only_nth[OF i this]
  consider "k = 0" | "k = 1" | "k = 2" | "k = 3" | "k = 4" using assms(1) by linarith
  then show ?thesis
    using only assms(2)
    by cases (simp_all add: decode_def decode_alu_def decode_control_def decode_kill_def texture_body_def
        decode_form_lists exact_iff_form)
qed

lemma decode_query_form:
  assumes "exact w 0xdf48 TXQ_VARIABLES 0"
  shows "Some (decode w ip len m limits) = decode_query w m limits"
proof -
  have i: "15 < length decode_forms" by (simp add: decode_forms_length)
  have nth: "decode_forms ! 15 = exact_form 0xdf48 TXQ_VARIABLES 0" by (simp add: decode_form_lists)
  have "form_matches (decode_forms ! 15) w" using assms by (simp add: nth exact_iff_form)
  note only = only_nth[OF i this]
  show ?thesis
    using only assms
    by (simp add: decode_def decode_alu_def decode_control_def decode_kill_def decode_query_def
        decode_form_lists exact_iff_form)
qed

definition io_fixed :: "bool \<Rightarrow> u64" where
  "io_fixed wr = 0xff00 OR push_bit 39 255 OR (if wr then push_bit 32 1 else 0)"

lemma decode_io_form:
  assumes "exact w (if wr then 0xeff0 else 0xefd8) IO_VARIABLES (io_fixed wr)"
  shows "Some (decode w ip len m limits) = decode_io IO_FORMS w m"
proof -
  let ?i = "if wr then 17 else 16 :: nat"
  have i: "?i < length decode_forms" by (simp add: decode_forms_length)
  have nth: "decode_forms ! ?i = exact_form (if wr then 0xeff0 else 0xefd8) IO_VARIABLES (io_fixed wr)"
    by (simp add: decode_form_lists io_fixed_def)
  have "form_matches (decode_forms ! ?i) w" using assms by (simp only: nth exact_iff_form)
  note only = only_nth[OF i this]
  show ?thesis
    using only assms
    by (cases wr) (simp_all add: decode_def decode_alu_def decode_control_def decode_kill_def decode_query_def
        decode_form_lists exact_iff_form io_fixed_def)
qed

section \<open>Authority of operands\<close>

definition register_ok :: "Metadata \<Rightarrow> u64 \<Rightarrow> nat \<Rightarrow> nat \<Rightarrow> bool" where
  "register_ok m w pos width \<longleftrightarrow>
     unat (field w pos 8) = 255 \<or> unat (field w pos 8) + width \<le> unat (gprs m)"

definition constant_ok :: "Metadata \<Rightarrow> Limits \<Rightarrow> u64 \<Rightarrow> nat \<Rightarrow> nat \<Rightarrow> bool" where
  "constant_ok m limits w pos width \<longleftrightarrow>
     (let offset = 4 * unat (field w pos 14); bank = unat (field w (pos + 14) 5)
      in bank < 32 \<and> offset + width \<le> unat (cb_sizes m ! bank)
         \<and> offset + width \<le> unat (limit_cb_sizes limits ! bank))"

definition texture_ok :: "Metadata \<Rightarrow> Limits \<Rightarrow> u64 \<Rightarrow> bool" where
  "texture_ok m limits w \<longleftrightarrow>
     (let handle = unat (field w 36 13)
      in 8 \<le> handle \<and> handle - 8 < MAX_RESOURCES
         \<and> bit (resource_mask m) (handle - 8) \<and> bit (limit_resource_mask limits) (handle - 8))"

lemma reg_Ok: "reg w pos width m = Ok u \<longleftrightarrow> register_ok m w pos width"
  by (simp add: reg_def register_ok_def Let_def)

lemma reg_not_Panic: "reg w pos width m \<noteq> Panic"
  by (simp add: reg_def Let_def)

lemma unat_field_less: "n < 64 \<Longrightarrow> unat (field w start n) < 2 ^ n"
proof -
  assume n: "n < 64"
  have "push_bit n 1 - 1 = (mask n :: u64)" by (simp add: mask_eq_exp_minus_1 push_bit_eq_mult)
  then have "unat (field w start n) \<le> unat (mask n :: u64)"
    by (simp add: field_def word_and_le1 flip: word_le_nat_alt)
  also have "unat (mask n :: u64) = 2 ^ n - 1" using n by (simp add: unat_mask)
  finally show ?thesis by (rule order.strict_trans1) simp
qed

lemma cb_facts:
  assumes "width \<le> 8"
  shows "unat (field w pos 14) < 2 ^ 14" "unat (field w (pos + 14) 5) < 32"
    "unat (ucast (field w pos 14) * (4 :: u32)) = 4 * unat (field w pos 14)"
    "checked_add (ucast (field w pos 14) * (4 :: u32)) (word_of_nat width)
       = Some (ucast (field w pos 14) * 4 + word_of_nat width)"
    "unat (ucast (field w pos 14) * (4 :: u32) + word_of_nat width) = 4 * unat (field w pos 14) + width"
proof -
  show o: "unat (field w pos 14) < 2 ^ 14" and "unat (field w (pos + 14) 5) < 32"
    using unat_field_less[of 14 w pos] unat_field_less[of 5 w "pos + 14"] by simp_all
  have c: "unat (ucast (field w pos 14) :: u32) = unat (field w pos 14)"
    using o by (simp add: unat_ucast_u32)
  then show e: "unat (ucast (field w pos 14) * (4 :: u32)) = 4 * unat (field w pos 14)"
    using o unat_mult_lt[of "ucast (field w pos 14) :: u32" 4] by simp
  have s: "unat (word_of_nat width :: u32) = width" using assms by (intro unat_of_nat_lt) simp
  have lt: "4 * unat (field w pos 14) + width < 2 ^ LENGTH(32)" using o assms by simp
  note add = checked_add_nat[OF e s lt]
  show "checked_add (ucast (field w pos 14) * (4 :: u32)) (word_of_nat width)
       = Some (ucast (field w pos 14) * 4 + word_of_nat width)"
    "unat (ucast (field w pos 14) * (4 :: u32) + word_of_nat width) = 4 * unat (field w pos 14) + width"
    using add by simp_all
qed

lemma cb_Ok:
  assumes "cb w pos (word_of_nat width) m limits = Ok u" "width \<le> 8"
  shows "constant_ok m limits w pos width"
  using assms(1) unfolding cb_def Let_def cb_facts(4)[OF assms(2)] constant_ok_def
  by (auto simp: outcome_simps index_at_def word_le_nat_alt not_less cb_facts[OF assms(2)] split: if_splits)

lemma find_filter: "find P xs = (case filter P xs of [] \<Rightarrow> None | x # _ \<Rightarrow> Some x)"
  by (induction xs) auto

lemma found_entry:
  assumes "ALU_ENCODINGS = Some table" "e \<in> set table" "op_matches e w"
  shows "find_alu_encoding w = Some e"
proof -
  obtain table' where t: "ALU_ENCODINGS = Some table'" "map entry_form table' = map push_form build"
    by (rule table_exists)
  have "table' = table" using t(1) assms(1) by (metis option.inject)
  with t(2) have tab: "map entry_form table = map push_form build" by simp
  have "length (filter (\<lambda>f. form_matches f w) (map entry_form table)) \<le> 1"
    using at_most_one_form[of w] by (simp add: tab)
  then have le: "length (filter (\<lambda>e. op_matches e w) table) \<le> 1"
    by (simp add: filter_map comp_def op_matches_form)
  have "e \<in> set (filter (\<lambda>e. op_matches e w) table)" using assms(2,3) by simp
  with le have "filter (\<lambda>e. op_matches e w) table = [e]"
    by (cases "filter (\<lambda>e. op_matches e w) table") (auto split: if_splits)
  then show ?thesis by (simp add: find_alu_encoding_def assms(1) find_filter)
qed

lemma texture_resource_Ok:
  assumes "texture_resource w m limits = Ok u"
  shows "texture_ok m limits w"
proof -
  have c: "8 \<le> field w 36 13" "field w 36 13 - 8 < 64"
    "resource_mask m AND push_bit (unat (field w 36 13 - 8)) 1 \<noteq> 0"
    "limit_resource_mask limits AND push_bit (unat (field w 36 13 - 8)) 1 \<noteq> 0"
    using assms by (auto simp: texture_resource_def outcome_simps checked_simps has_bit_def not_le split: if_splits)
  have u: "unat (field w 36 13 - 8) = unat (field w 36 13) - 8" using unat_sub_le[OF c(1)] by simp
  have bit: "bit x k" if "x AND push_bit k 1 \<noteq> 0" for x :: u64 and k
    using that by (metis and_exp_eq_0_iff_not_bit push_bit_eq_mult mult_1)
  show ?thesis
    using c(1,2) bit[OF c(3)] bit[OF c(4)]
    by (simp add: texture_ok_def Let_def u MAX_RESOURCES_def word_le_nat_alt word_less_nat_alt)
qed

section \<open>Claims\<close>

text \<open>C3: operand authority of computational instructions. In an accepted instruction that matches a
table entry (any entry: the match is unique) every register operand is the zero register or lies below
the declared register count, an FP64 instruction is declared, and a constant buffer operand lies within
both the declared and the authorised size of its bank; the instruction continues with the next one.\<close>

theorem accepted_alu_authority:
  assumes "decode w ip len m limits = Ok f" "ALU_ENCODINGS = Some table" "e \<in> set table" "op_matches e w"
  shows "f = FNext \<and> (\<forall>(pos, width) \<in> set (op_regs e). register_ok m w pos width)
    \<and> (op_fp64 e \<longrightarrow> flags m AND FLAG_FP64 \<noteq> 0)
    \<and> (case op_cb e of NoCb \<Rightarrow> True | Word pos \<Rightarrow> constant_ok m limits w pos 4
       | Double pos \<Rightarrow> constant_ok m limits w pos 8)"
proof -
  have alu: "decode_alu w m limits = Some (Ok f)"
    using assms(1) found_entry[OF assms(2-4)] by (simp add: decode_def decode_alu_def)
  have regs: "\<forall>r \<in> set (op_regs e). reg w (fst r) (snd r) m = Ok ()"
    and fp: "\<not> (op_fp64 e \<and> flags m AND FLAG_FP64 = 0)"
    and const: "(case op_cb e of NoCb \<Rightarrow> Ok () | Word pos \<Rightarrow> cb w pos 4 m limits | Double pos \<Rightarrow> cb w pos 8 m limits) = Ok ()"
    and f: "f = FNext"
    using alu found_entry[OF assms(2-4)] by (auto simp: decode_alu_def outcome_simps for_each_unit_Ok)
  have "\<forall>(pos, width) \<in> set (op_regs e). register_ok m w pos width" using regs by (auto simp: reg_Ok)
  moreover have "case op_cb e of NoCb \<Rightarrow> True | Word pos \<Rightarrow> constant_ok m limits w pos 4
      | Double pos \<Rightarrow> constant_ok m limits w pos 8"
    using const cb_Ok[of w _ 4 m limits] cb_Ok[of w _ 8 m limits] by (cases "op_cb e") auto
  ultimately show ?thesis using f fp by blast
qed

text \<open>C4: texture authority. An accepted texture instruction or texture query names a resource that the
metadata declares and the limits authorise, and writes only declared registers.\<close>

theorem accepted_texture_authority:
  assumes "decode w ip len m limits = Ok f"
    and "list_ex (\<lambda>(opcode, variables, kind). exact w opcode variables 0) TEXTURE_FORMS \<or> exact w 0xdf48 TXQ_VARIABLES 0"
  shows "f = FNext \<and> texture_ok m limits w \<and> field w 31 4 \<noteq> 0
    \<and> register_ok m w 0 (count_ones (field w 31 4)) \<and> register_ok m w 8 1"
  using assms(2)
proof
  assume "list_ex (\<lambda>(opcode, variables, kind). exact w opcode variables 0) TEXTURE_FORMS"
  then obtain k where k: "k < length TEXTURE_FORMS"
    "exact w (fst (TEXTURE_FORMS ! k)) (fst (snd (TEXTURE_FORMS ! k))) 0"
    by (auto simp: list_ex_iff in_set_conv_nth split: prod.splits)
  then have "k < 5" by (simp add: TEXTURE_FORMS_def)
  from decode_texture_nth[OF this k(2)] assms(1) show ?thesis
    by (auto simp: texture_body_def outcome_simps reg_Ok dest: texture_resource_Ok split: if_splits)
next
  assume q: "exact w 0xdf48 TXQ_VARIABLES 0"
  have "decode_query w m limits = Some (Ok f)" using decode_query_form[OF q] assms(1) by metis
  then show ?thesis
    using q by (auto simp: decode_query_def outcome_simps reg_Ok dest: texture_resource_Ok split: if_splits)
qed

section \<open>Validation as a whole\<close>

text \<open>The specification of an acceptable program, without any worklist.\<close>

definition valid_program :: "Program \<Rightarrow> Limits \<Rightarrow> bool" where
  "valid_program p limits \<longleftrightarrow>
     (let m = metadata p; n = 3 * (length (code p) div 32)
      in check m = Ok ()
         \<and> code p \<noteq> [] \<and> length (code p) \<le> MAX_CODE_SIZE \<and> length (code p) mod 32 = 0
         \<and> resource_mask m AND NOT (limit_resource_mask limits) = 0
         \<and> (\<forall>i < 32. cb_sizes m ! i \<le> limit_cb_sizes limits ! i)
         \<and> (\<forall>k < length (code p) div 32. schedule_ok (code p) k)
         \<and> (\<forall>ip < n. program_instr p limits ip \<noteq> None)
         \<and> (\<exists>d. control_safe (program_instr p limits) n d))"

lemma header_exists: "\<exists>h. header m = Some h"
  using write_fields_spec[OF header_fields_apart(1), of "replicate 20 0" m] by (auto simp: header_def)

lemma code_bounds:
  assumes "length b \<le> MAX_CODE_SIZE" "length b mod 32 = 0" "b \<noteq> []"
  shows "length b \<le> 2 ^ 16" "0 < 3 * (length b div 32)" "3 * (length b div 32) \<le> 2 ^ 14"
proof -
  show l: "length b \<le> 2 ^ 16" using assms(1) by (simp add: MAX_CODE_SIZE_def)
  have "0 < length b" using assms(3) by simp
  then have "32 \<le> length b" using assms(2) by (metis mod_less not_le less_numeral_extra(3))
  then show "0 < 3 * (length b div 32)" by (simp add: div_greater_zero_iff)
  have "length b div 32 \<le> 2048" using l by simp
  then show "3 * (length b div 32) \<le> 2 ^ 14" by simp
qed

lemma decoded_flows_ok:
  assumes "decode_all (code p) (metadata p) limits = Ok flows" "length (code p) mod 32 = 0"
    "length (code p) \<le> 2 ^ 16"
  shows "list_all (flow_ok (length flows)) flows"
  using decode_all_Ok[OF assms(1)] decode_flow_ok[OF _ assms(2,3)] by (metis list_all_length)

lemma decoded_control:
  assumes "decode_all (code p) (metadata p) limits = Ok flows" "length (code p) mod 32 = 0"
    "length (code p) \<le> MAX_CODE_SIZE" "code p \<noteq> []"
  shows "(\<exists>d. prove_control (code p) flows = Ok d) \<longleftrightarrow>
      (\<exists>d. control_safe (program_instr p limits) (3 * (length (code p) div 32)) d)"
    "prove_control (code p) flows = Ok d \<Longrightarrow> control_safe (program_instr p limits) (3 * (length (code p) div 32)) d"
proof -
  note b = code_bounds[OF assms(3,2,4)]
  note l = decode_all_Ok(1)[OF assms(1)] and ok = decoded_flows_ok[OF assms(1,2) b(1)]
  have le: "length flows \<le> 2 ^ 14" using l b(3) by simp
  have ne: "flows \<noteq> []" using l b(2) by (metis list.size(3) less_numeral_extra(3))
  show "(\<exists>d. prove_control (code p) flows = Ok d) \<longleftrightarrow>
      (\<exists>d. control_safe (program_instr p limits) (3 * (length (code p) div 32)) d)"
    using prove_control_iff[OF ok le ne, of "code p"] unfolding pass_instr_program[OF assms(1)] l .
  show "control_safe (program_instr p limits) (3 * (length (code p) div 32)) d"
    if "prove_control (code p) flows = Ok d"
    using prove_control_safe[OF that ok le] unfolding pass_instr_program[OF assms(1)] l .
qed

text \<open>C1: validation is exact. A program is accepted if and only if it meets the specification: checked
metadata, a code size in range, no resource or constant buffer beyond the authority of the limits,
valid schedules, accepted instructions throughout, and a control flow that the abstract machine runs
safely; in particular the worklist pass refuses no safe control flow.\<close>

theorem validate_iff: "(\<exists>v. validate p limits = Ok v) \<longleftrightarrow> valid_program p limits"
proof -
  have any: "list_ex (\<lambda>i. limit_cb_sizes limits ! i < cb_sizes (metadata p) ! i) [0..<32]
    \<longleftrightarrow> \<not> (\<forall>i < 32. cb_sizes (metadata p) ! i \<le> limit_cb_sizes limits ! i)"
    by (auto simp: list_ex_iff not_less not_le)
  obtain h where h: "header (metadata p) = Some h" using header_exists by blast
  have "(\<exists>v. validate p limits = Ok v) \<longleftrightarrow>
      check (metadata p) = Ok () \<and> code p \<noteq> [] \<and> length (code p) \<le> MAX_CODE_SIZE \<and> length (code p) mod 32 = 0
      \<and> resource_mask (metadata p) AND NOT (limit_resource_mask limits) = 0
      \<and> (\<forall>i < 32. cb_sizes (metadata p) ! i \<le> limit_cb_sizes limits ! i)
      \<and> (\<exists>flows d. decode_all (code p) (metadata p) limits = Ok flows \<and> prove_control (code p) flows = Ok d)"
    unfolding validate_def Let_def any
    by (auto simp: outcome_simps h not_less) (metis not_le)
  also have "\<dots> \<longleftrightarrow>
      check (metadata p) = Ok () \<and> code p \<noteq> [] \<and> length (code p) \<le> MAX_CODE_SIZE \<and> length (code p) mod 32 = 0
      \<and> resource_mask (metadata p) AND NOT (limit_resource_mask limits) = 0
      \<and> (\<forall>i < 32. cb_sizes (metadata p) ! i \<le> limit_cb_sizes limits ! i)
      \<and> (\<exists>flows. decode_all (code p) (metadata p) limits = Ok flows)
      \<and> (\<exists>d. control_safe (program_instr p limits) (3 * (length (code p) div 32)) d)"
    using decoded_control(1)[of p limits] by metis
  also have "\<dots> \<longleftrightarrow> valid_program p limits"
    unfolding valid_program_def Let_def decode_all_iff by blast
  finally show ?thesis .
qed

text \<open>C2: control safety. In an accepted program the machine that starts at the first instruction with an
empty reconvergence stack never leaves the code, reaches every instruction with one stack only, holds
only well-formed frames, never pops a frame that is not there, and never stacks more frames than the
reported depth, which is attained and is at most 16.\<close>

theorem validated_control_safe:
  assumes "validate p limits = Ok v"
  shows "control_safe (program_instr p limits) (3 * (length (code p) div 32)) (max_control_depth v)"
proof -
  obtain flows h where v: "code p \<noteq> []" "length (code p) \<le> MAX_CODE_SIZE" "length (code p) mod 32 = 0"
    "decode_all (code p) (metadata p) limits = Ok flows" "prove_control (code p) flows = Ok (max_control_depth v)"
    using assms by (rule validate_Ok)
  show ?thesis by (rule decoded_control(2)[OF v(4,3,2,1,5)])
qed

text \<open>C6: progress. In an accepted program the machine is never stuck: every configuration it reaches has
a successor, or stands on an exit instruction that is not predicated off.\<close>

theorem validated_progress:
  assumes "validate p limits = Ok v" "machine_reaches (program_instr p limits) s"
  shows "(\<exists>t. machine_step (program_instr p limits) s t)
    \<or> (\<exists>w. program_instr p limits (fst s) = Some (w, FExit))"
proof -
  let ?i = "program_instr p limits"
  obtain flows where v: "code p \<noteq> []" "length (code p) \<le> MAX_CODE_SIZE" "length (code p) mod 32 = 0"
    "decode_all (code p) (metadata p) limits = Ok flows" "prove_control (code p) flows = Ok (max_control_depth v)"
    using assms(1) by (rule validate_Ok)
  have safe: "control_safe ?i (3 * (length (code p) div 32)) (max_control_depth v)"
    by (rule decoded_control(2)[OF v(4,3,2,1,5)])
  obtain ip fs where s: "s = (ip, fs)" by fastforce
  from safe assms(2) obtain w f where f: "?i ip = Some (w, f)"
    "\<And>k. f = FPop k \<Longrightarrow> \<not> never w \<Longrightarrow> unwind k fs \<noteq> None"
    unfolding control_safe_def s by blast
  show ?thesis
  proof (cases "never w")
    case True
    then have "may_skip w" by (simp add: may_skip_def)
    then have "machine_step ?i s (Suc ip, fs)" unfolding s using f(1) by (rule machine_step.skip[rotated])
    then show ?thesis by blast
  next
    case False
    have "\<exists>t. machine_step ?i (ip, fs) t" if "f \<noteq> FExit"
      using f False that
      by (cases f) (fastforce intro: machine_step.fall machine_step.branch machine_step.push machine_step.pop)+
    then show ?thesis using f(1) by (cases "f = FExit") (auto simp: s)
  qed
qed

text \<open>The sign-extended 24-bit displacement of a branch.\<close>

definition displacement :: "u64 \<Rightarrow> int" where
  "displacement w = (let raw = int (unat (field w 20 24)) in if raw < 2 ^ 23 then raw else raw - 2 ^ 24)"

lemma relative_target_eq: "relative_target w ip = int ip + 8 + displacement w"
proof -
  let ?f = "field w 20 24"
  obtain n where n: "unat ?f = n" by simp
  have less: "n < 2 ^ 24" unfolding n[symmetric] by (rule unat_field_less) simp
  have x: "unat (push_bit 40 ?f) = n * 2 ^ 40" using unat_push_bit[of ?f 40] less by (simp add: n)
  then have u: "uint (push_bit 40 ?f) = int n * 2 ^ 40"
    by (metis int_ops(7) of_nat_numeral of_nat_power uint_nat)
  have "sint (push_bit 40 ?f) = uint (push_bit 40 ?f) - 2 ^ 64 * of_bool (bit (uint (push_bit 40 ?f)) 63)"
  proof -
    have "0 \<le> uint (push_bit 40 ?f)" "uint (push_bit 40 ?f) < 2 ^ 64"
      using unsigned_greater_eq[of "push_bit 40 ?f", where 'a = int] unsigned_less[of "push_bit 40 ?f", where 'a = int]
      by simp_all
    then have "take_bit 64 (uint (push_bit 40 ?f)) = uint (push_bit 40 ?f)" by (rule take_bit_int_eq_self)
    then show ?thesis by (simp add: sint_uint signed_take_bit_eq_take_bit_minus)
  qed
  moreover have "bit (uint (push_bit 40 ?f)) 63 \<longleftrightarrow> 2 ^ 23 \<le> n"
  proof -
    have "bit (uint (push_bit 40 ?f)) 63 \<longleftrightarrow> odd (int n * 2 ^ 40 div 2 ^ 63)"
      by (simp add: u bit_iff_odd)
    also have "int n * 2 ^ 40 div 2 ^ 63 = int (n div 2 ^ 23)" by (simp add: zdiv_int)
    also have "odd (int (n div 2 ^ 23)) \<longleftrightarrow> 2 ^ 23 \<le> n"
    proof (cases "2 ^ 23 \<le> n")
      case True
      then have "n div 2 ^ 23 = 1" using less by (intro div_nat_eqI) simp_all
      then show ?thesis using True by simp
    qed simp
    finally show ?thesis .
  qed
  moreover have "sint (signed_drop_bit 40 (push_bit 40 ?f)) = drop_bit 40 (sint (push_bit 40 ?f))"
    by (rule sint_signed_drop_bit_eq)
  moreover have "drop_bit 40 (int n * 2 ^ 40 - 2 ^ 64) = int n - 2 ^ 24" "drop_bit 40 (int n * 2 ^ 40) = int n"
  proof -
    have "int n * 2 ^ 40 - 2 ^ 64 = (int n - 2 ^ 24) * 2 ^ 40" by (simp add: algebra_simps)
    then show "drop_bit 40 (int n * 2 ^ 40 - 2 ^ 64) = int n - 2 ^ 24"
      by (simp only: drop_bit_eq_div) simp
  qed (simp add: drop_bit_eq_div)
  ultimately have "sint (signed_drop_bit 40 (push_bit 40 ?f)) = (if int n < 2 ^ 23 then int n else int n - 2 ^ 24)"
    using u by (auto simp: of_bool_def)
  then show ?thesis by (simp add: relative_target_def displacement_def Let_def n)
qed

text \<open>Branch targets. A relative branch is accepted exactly if the address past it plus its sign-extended
24-bit displacement is the address of an instruction of the code (not a schedule word, not outside), and
then its target is that instruction's number.\<close>

theorem branch_index_iff:
  assumes "len mod 32 = 0" "len \<le> MAX_CODE_SIZE"
  shows "branch_index w ip len = Ok index \<longleftrightarrow>
    unat index < 3 * (len div 32) \<and> int (instr_address (unat index)) = int ip + 8 + displacement w"
proof
  have len: "len \<le> 2 ^ 16" using assms(2) by (simp add: MAX_CODE_SIZE_def)
  show "branch_index w ip len = Ok index \<Longrightarrow>
      unat index < 3 * (len div 32) \<and> int (instr_address (unat index)) = int ip + 8 + displacement w"
    using branch_index_Ok[OF _ assms(1) len] by (simp add: relative_target_eq)
next
  assume i: "unat index < 3 * (len div 32) \<and> int (instr_address (unat index)) = int ip + 8 + displacement w"
  let ?i = "unat index"
  have t: "relative_target w ip = int (instr_address ?i)" using i by (simp add: relative_target_eq)
  have fits: "instr_address ?i + 8 \<le> len" using i by (simp add: instr_address_less)
  define q l where "q = ?i div 3" and "l = ?i mod 3"
  have l: "l < 3" and qi: "?i = q * 3 + l" by (simp_all add: q_def l_def)
  have a: "instr_address ?i = q * 32 + 8 * (l + 1)" by (simp add: instr_address_def q_def l_def)
  have small: "8 * (l + 1) < 32" using l by simp
  then have d: "instr_address ?i div 32 = q" "instr_address ?i mod 32 = 8 * (l + 1)"
    unfolding a by (simp_all add: div_mult_self3 mod_mult_self3)
  have m8: "instr_address ?i mod 8 = 0"
  proof -
    have "instr_address ?i = 8 * (q * 4 + l + 1)" unfolding a by simp
    then show ?thesis by (metis mod_mult_self1_is_0)
  qed
  have r: "\<not> (int (instr_address ?i) < 8 \<or> int len \<le> int (instr_address ?i)
      \<or> int (instr_address ?i) mod 8 \<noteq> 0 \<or> int (instr_address ?i) mod 32 = 0)"
  proof -
    have "int (instr_address ?i) mod 8 = 0" using m8 zmod_int[of "instr_address ?i" 8] by simp
    moreover have "int (instr_address ?i) mod 32 \<noteq> 0"
    proof -
      have "int (instr_address ?i) mod 32 = int (instr_address ?i mod 32)"
        using zmod_int[of "instr_address ?i" 32] by simp
      then show ?thesis unfolding d(2) by simp
    qed
    ultimately show ?thesis using fits unfolding a by simp
  qed
  have "q * 3 + 8 * (l + 1) div 8 - 1 = ?i" using qi by simp
  then have "word_of_nat (instr_address ?i div 32 * 3 + instr_address ?i mod 32 div 8 - 1) = index"
    unfolding d by simp
  then show "branch_index w ip len = Ok index"
    unfolding branch_index_def Let_def t nat_int using r by simp
qed

section \<open>Absence of panics\<close>

definition limits_sized :: "Limits \<Rightarrow> bool" where
  "limits_sized limits \<longleftrightarrow> length (limit_cb_sizes limits) = 32"

lemma cb_not_Panic:
  assumes "metadata_sized m" "limits_sized limits"
  shows "cb w pos n m limits \<noteq> Panic"
proof -
  have "unat (field w (pos + 14) 5) < 32" using unat_field_less[of 5 w "pos + 14"] by simp
  then show ?thesis
    using assms
    by (auto simp: cb_def Let_def index_at_def outcome_simps metadata_sized_def limits_sized_def)
qed

lemma has_bit_Ok: "n < LENGTH('a::len) \<Longrightarrow> has_bit (x :: 'a word) n = Ok (bit x n)"
  by (simp add: has_bit_def and_exp_eq_0_iff_not_bit push_bit_eq_mult)

lemma texture_resource_not_Panic: "texture_resource w m limits \<noteq> Panic"
  by (auto simp: texture_resource_def outcome_simps has_bit_Ok word_le_nat_alt)

text \<open>The addresses that reach a table or a shift are in its range.\<close>

lemma attribute_not_Panic:
  assumes "metadata_sized m"
  shows "attribute m addr wr freq \<noteq> Panic"
  using assms
  by (auto simp: attribute_def vertex_attribute_def fragment_attribute_def Let_def index_at_def has_bit_def outcome_simps
      metadata_sized_def)

lemma decode_alu_not_Panic:
  assumes "metadata_sized m" "limits_sized limits"
  shows "decode_alu w m limits \<noteq> Some Panic"
proof -
  have r: "for_each (\<lambda>r _. reg w (fst r) (snd r) m) rs () \<noteq> Panic" for rs :: "(nat \<times> nat) list"
    by (rule for_each_not_Panic[where P = "\<lambda>_. True"]) (simp_all add: reg_not_Panic)
  have c: "(case k of NoCb \<Rightarrow> Ok () | Word pos \<Rightarrow> cb w pos 4 m limits | Double pos \<Rightarrow> cb w pos 8 m limits) \<noteq> Panic" for k
    using cb_not_Panic[OF assms] by (cases k) auto
  show ?thesis using r c by (auto simp: decode_alu_def outcome_simps split: option.splits)
qed

lemma decode_branch_not_Panic: "decode_branch forms w ip len \<noteq> Some Panic"
  by (induction forms w ip len rule: decode_branch.induct) (auto simp: branch_index_def Let_def outcome_simps)

lemma decode_pop_not_Panic: "decode_pop forms w \<noteq> Some Panic"
  by (induction forms w rule: decode_pop.induct) auto

lemma decode_control_not_Panic: "decode_control w ip len m \<noteq> Some Panic"
  using decode_branch_not_Panic[of BRANCH_FORMS w ip len] decode_pop_not_Panic[of POP_FORMS w]
  by (auto simp: decode_control_def decode_kill_def split: option.splits)

lemma decode_texture_not_Panic: "decode_texture forms w m limits \<noteq> Some Panic"
  by (induction forms w m limits rule: decode_texture.induct)
    (auto simp: outcome_simps texture_resource_not_Panic reg_not_Panic)

lemma decode_io_not_Panic: "metadata_sized m \<Longrightarrow> decode_io forms w m \<noteq> Some Panic"
proof (induction forms w m rule: decode_io.induct)
  case (2 opcode wr forms w m)
  have "for_each (io_component m wr addr) is () \<noteq> Panic" for addr "is"
    by (rule for_each_not_Panic[where P = "\<lambda>_. True"]) (use 2(2) in \<open>auto simp: io_component_def Let_def outcome_simps attribute_not_Panic\<close>)
  with 2 show ?case by (auto simp: outcome_simps Let_def reg_not_Panic)
qed simp

lemma decode_rest_not_Panic:
  assumes "metadata_sized m"
  shows "decode_query w m limits \<noteq> Some Panic" "decode_interpolate w m \<noteq> Some Panic"
  "decode_system w m \<noteq> Some Panic" "decode_pixel w m \<noteq> Some Panic" "decode_predicate w m \<noteq> Some Panic"
      apply (simp add: decode_query_def outcome_simps reg_not_Panic texture_resource_not_Panic)
     apply (simp add: decode_interpolate_def outcome_simps reg_not_Panic attribute_not_Panic[OF assms])
    apply (simp add: decode_system_def Let_def outcome_simps reg_not_Panic)
   apply (simp add: decode_pixel_def outcome_simps reg_not_Panic)
  apply (simp add: decode_predicate_def outcome_simps reg_not_Panic)
  done

lemma decode_instr_not_Panic:
  assumes "metadata_sized m" "limits_sized limits"
  shows "decode w ip len m limits \<noteq> Panic"
proof
  have first: "first_of rs (Err e) = Panic \<Longrightarrow> Some Panic \<in> set rs" for rs :: "(Error, Flow) outcome option list" and e
  proof (induction rs)
    case (Cons r rs)
    then show ?case by (cases r) auto
  qed simp
  assume "decode w ip len m limits = Panic"
  from first[OF this[unfolded decode_def]] show False
    unfolding list.set insert_iff empty_iff
    using decode_alu_not_Panic[OF assms, of w] decode_control_not_Panic[of w ip len m]
      decode_texture_not_Panic[of TEXTURE_FORMS w m limits] decode_io_not_Panic[OF assms(1), of IO_FORMS w]
      decode_rest_not_Panic[OF assms(1), of w] decode_rest_not_Panic(1)[OF assms(1), of w limits]
    by metis
qed

lemma decode_all_not_Panic:
  assumes "metadata_sized m" "limits_sized limits"
  shows "decode_all b m limits \<noteq> Panic"
proof -
  have lane: "decode_lane b m limits s k l \<noteq> Panic" if "k < length b div 32" "l < 3" for s k l
  proof -
    have "k * 32 + 32 \<le> length b" using that(1) div_times_less_eq_dividend[of "length b" 32] by linarith
    then have "k * 32 + 8 + l * 8 + 8 \<le> length b" using that(2) by linarith
    then show ?thesis
      using decode_instr_not_Panic[OF assms] by (simp add: decode_lane_def Let_def read_le_def)
  qed
  have "decode_bundle b m limits k \<noteq> Panic" if "k < length b div 32" for k
  proof -
    have "k * 32 + 8 \<le> length b" using that div_times_less_eq_dividend[of "length b" 32] by linarith
    moreover have "collect (decode_lane b m limits s k) [0..<3] \<noteq> Panic" for s
      by (rule collect_not_Panic) (use lane[OF that] in auto)
    ultimately show ?thesis by (simp add: decode_bundle_def read_le_def)
  qed
  then have "collect (decode_bundle b m limits) [0..<length b div 32] \<noteq> Panic"
    by (intro collect_not_Panic) auto
  then show ?thesis by (simp add: decode_all_def outcome_simps)
qed

text \<open>C5: the verifier is total. On any program and any limits (fixed-size arrays of the declared lengths)
\<open>validate\<close> returns: no slice, index, shift, \<open>unwrap\<close> or assertion of it can panic, whatever the untrusted
code is. That includes the maps of attributes and inputs, which the code indexes by an address it reads
from an instruction.\<close>

theorem validate_never_panics:
  assumes "metadata_sized (metadata p)" "limits_sized limits"
  shows "validate p limits \<noteq> Panic"
proof
  assume panic: "validate p limits = Panic"
  obtain h where h: "header (metadata p) = Some h" using header_exists by blast
  have "check (metadata p) \<noteq> Panic" by (simp add: check_def)
  with panic h decode_all_not_Panic[OF assms] obtain flows where
    c: "code p \<noteq> []" "length (code p) \<le> MAX_CODE_SIZE" "length (code p) mod 32 = 0"
    and flows: "decode_all (code p) (metadata p) limits = Ok flows" "prove_control (code p) flows = Panic"
    by (auto simp: validate_def Let_def outcome_simps not_less split: if_splits)
  note b = code_bounds[OF c(2,3,1)]
  note l = decode_all_Ok[OF flows(1)] and ok = decoded_flows_ok[OF flows(1) c(3) b(1)]
  have n: "0 < length flows" "length flows \<le> 2 ^ 14" using l(1) b by simp_all
  have "\<forall>ip < length flows. instruction_word (code p) ip \<noteq> Panic" using l(2) by fastforce
  from control_loop_not_Panic[OF pass_inv_start[OF n(1)] refl ok n(2) this] flows(2) n(1)
  show False by (simp add: prove_control_def index_at_def)
qed

section \<open>A sample program\<close>

text \<open>One bundle: a synchronisation point is pushed, popped by the next instruction, and the program exits
at the target of the frame.\<close>

definition sample_shader :: Program where
  "sample_shader =
     \<lparr>metadata = metadata_new Vertex,
      code = [0, 0, 0, 0, 0, 0, 0, 0, 0x0f, 0, 0x87, 0, 0, 0, 0x90, 0xe2,
              0x0f, 0, 7, 0, 0, 0, 0xf8, 0xf0, 0x0f, 0, 7, 0, 0, 0, 0, 0xe3]\<rparr>"

definition sample_limits :: Limits where
  "sample_limits = \<lparr>limit_cb_sizes = replicate 32 0, limit_resource_mask = 0\<rparr>"

lemma sample_words:
  "read_le 8 (code sample_shader) 0 = Ok (0 :: u64)"
  "read_le 8 (code sample_shader) 8 = Ok (0xe29000000087000f :: u64)"
  "read_le 8 (code sample_shader) 16 = Ok (0xf0f800000007000f :: u64)"
  "read_le 8 (code sample_shader) 24 = Ok (0xe30000000007000f :: u64)"
  by (simp_all add: sample_shader_def read_le_def slice_def from_le_bytes_def)

lemma control_form_no_alu:
  "i < 22 \<Longrightarrow> form_matches (decode_forms ! i) w \<Longrightarrow> find_alu_encoding w = None"
  using only_nth(1) by (simp add: decode_forms_length)

lemmas control_eval =
  decode_form_lists exact_form_def form_matches_def PRED_def field_mask_def exact_def

lemma sample_decodes:
  "decode 0xe29000000087000f 8 32 m limits = Ok (FPush 1 2)"
  "decode 0xf0f800000007000f 16 32 m limits = Ok (FPop 1)"
  "decode 0xe30000000007000f 24 32 m limits = Ok FExit"
proof -
  have n: "find_alu_encoding 0xe29000000087000f = None" "find_alu_encoding 0xf0f800000007000f = None"
    "find_alu_encoding 0xe30000000007000f = None"
    by (rule control_form_no_alu[of 3], simp_all add: control_eval)
      (rule control_form_no_alu[of 6], simp_all add: control_eval,
       rule control_form_no_alu[of 1], simp_all add: control_eval)
  show "decode 0xe29000000087000f 8 32 m limits = Ok (FPush 1 2)"
    by (simp add: decode_def decode_alu_def n decode_control_def control_eval branch_index_def relative_target_def Let_def field_def)
  show "decode 0xf0f800000007000f 16 32 m limits = Ok (FPop 1)"
    by (simp add: decode_def decode_alu_def n decode_control_def control_eval)
  show "decode 0xe30000000007000f 24 32 m limits = Ok FExit"
    by (simp add: decode_def decode_alu_def n decode_control_def control_eval)
qed

lemma sample_decode_all:
  "decode_all (code sample_shader) m limits = Ok [FPush 1 2, FPop 1, FExit]"
proof -
  have l: "length (code sample_shader) = 32" by (simp add: sample_shader_def)
  have upt: "[0..<Suc 0] = [0]" "[0..<3] = [0, 1, 2 :: nat]" by (simp_all add: upt_conv_Cons)
  show ?thesis
    by (simp add: decode_all_def l upt decode_bundle_def sample_words decode_lane_def sample_decodes)
qed

lemma sample_control: "prove_control (code sample_shader) [FPush 1 2, FPop 1, FExit] = Ok 1"
  by (simp add: prove_control_def index_at_def control_turn_def instruction_word_def sample_words Let_def
      field_def propagate_def flow_step_def push_frame_def EMPTY_STACK_def)

lemma sample_validates: "\<exists>v. validate sample_shader sample_limits = Ok v \<and> max_control_depth v = 1"
proof -
  obtain h where h: "header (metadata_new Vertex) = Some h" using header_exists by blast
  have m: "metadata sample_shader = metadata_new Vertex" and c: "code sample_shader \<noteq> []"
    "length (code sample_shader) = 32"
    by (simp_all add: sample_shader_def)
  have "check (metadata_new Vertex) = Ok ()"
    by (simp add: check_def metadata_new_def MAX_CB_SIZE_def list_ex_iff)
  moreover have "resource_mask (metadata_new Vertex) = 0" "cb_sizes (metadata_new Vertex) = replicate 32 0"
    by (simp_all add: metadata_new_def)
  ultimately show ?thesis
    by (simp add: validate_def Let_def m c h MAX_CODE_SIZE_def sample_limits_def list_ex_iff sample_decode_all sample_control)
qed

theorem validated_control_safe_witness:
  "control_safe (program_instr sample_shader sample_limits) 3 1"
proof -
  obtain v where v: "validate sample_shader sample_limits = Ok v" "max_control_depth v = 1"
    using sample_validates by blast
  from validated_control_safe[OF v(1)] show ?thesis by (simp add: v(2)) (simp add: sample_shader_def)
qed

theorem validated_progress_witness:
  "(\<exists>t. machine_step (program_instr sample_shader sample_limits) (0, []) t)
    \<or> (\<exists>w. program_instr sample_shader sample_limits 0 = Some (w, FExit))"
proof -
  obtain v where "validate sample_shader sample_limits = Ok v" using sample_validates by blast
  from validated_progress[OF this machine_reaches_start] show ?thesis by simp
qed

theorem branch_index_iff_witness:
  "unat (2 :: u16) < 3 \<and> int (instr_address 2) = 8 + 8 + displacement 0xe29000000087000f"
proof -
  have "branch_index 0xe29000000087000f 8 32 = Ok 2"
    by (simp add: branch_index_def relative_target_def Let_def field_def)
  then have "unat (2 :: u16) < 3 * (32 div 32)
      \<and> int (instr_address (unat (2 :: u16))) = int 8 + 8 + displacement 0xe29000000087000f"
    by (rule branch_index_iff[THEN iffD1, rotated 2]) (simp_all add: MAX_CODE_SIZE_def)
  then show ?thesis by simp
qed

theorem validate_never_panics_witness: "validate sample_shader sample_limits \<noteq> Panic"
  by (rule validate_never_panics)
    (simp_all add: sample_shader_def sample_limits_def metadata_sized_def limits_sized_def metadata_new_def)

text \<open>The query of a texture's dimensions with handle 8, which is the first resource.\<close>

theorem accepted_texture_authority_witness:
  "texture_ok ((metadata_new Vertex)\<lparr>resource_mask := 1\<rparr>) (sample_limits\<lparr>limit_resource_mask := 1\<rparr>) 0xdf48008080470100
    \<and> register_ok ((metadata_new Vertex)\<lparr>resource_mask := 1\<rparr>) 0xdf48008080470100 8 1"
proof -
  let ?m = "(metadata_new Vertex)\<lparr>resource_mask := 1\<rparr>" and ?l = "sample_limits\<lparr>limit_resource_mask := 1\<rparr>"
  have q: "exact 0xdf48008080470100 0xdf48 TXQ_VARIABLES 0"
    by (simp add: exact_def TXQ_VARIABLES_def PRED_def field_mask_def)
  have ones: "count_ones 1 = 1" unfolding count_ones_def by code_simp
  have "decode_query 0xdf48008080470100 ?m ?l = Some (Ok FNext)"
    using q by (simp add: decode_query_def texture_resource_def has_bit_def field_def checked_sub_def reg_def Let_def
        metadata_new_def sample_limits_def ones)
  then have "decode 0xdf48008080470100 8 32 ?m ?l = Ok FNext" using decode_query_form[OF q] by (metis option.inject)
  from accepted_texture_authority[OF this] q show ?thesis by blast
qed

text \<open>\<open>FADD R1, R2, R3\<close>, the register form of the first entry of the table.\<close>

definition FADD_entry :: OpEncoding where
  "FADD_entry = the (push (hd build_fadd_ffma))"

lemma FADD_first: "\<exists>es. ALU_ENCODINGS = Some (FADD_entry # es)"
proof -
  obtain table where t: "ALU_ENCODINGS = Some table" by (rule table_exists)
  have "build = hd build_fadd_ffma # tl build"
    by (simp add: build_def build_fadd_ffma_def triple_def Let_def)
  then have "push_all (hd build_fadd_ffma # tl build) = Some table" using t by (metis ALU_ENCODINGS_def)
  then show ?thesis by (auto simp: t FADD_entry_def split: bind_splits)
qed

lemma FADD_fields:
  "op_matches FADD_entry 0x5c58000000370201" "op_regs FADD_entry = [(0, 1), (8, 1), (20, 1)]"
  "op_cb FADD_entry = NoCb" "op_fp64 FADD_entry = False"
  by (simp_all add: FADD_entry_def op_matches_def build_fadd_ffma_def table_consts W_BINARY_def)

theorem accepted_alu_authority_witness:
  "register_ok (metadata_new Vertex) 0x5c58000000370201 20 1
    \<and> decode 0x5c58000000370201 8 32 (metadata_new Vertex) sample_limits = Ok FNext"
proof -
  obtain es where t: "ALU_ENCODINGS = Some (FADD_entry # es)" using FADD_first by blast
  have "decode_alu 0x5c58000000370201 (metadata_new Vertex) sample_limits = Some (Ok FNext)"
    by (simp add: decode_alu_def find_alu_encoding_def t FADD_fields reg_def Let_def field_def metadata_new_def)
  then have d: "decode 0x5c58000000370201 8 32 (metadata_new Vertex) sample_limits = Ok FNext"
    by (simp add: decode_def)
  have "FADD_entry \<in> set (FADD_entry # es)" by simp
  from accepted_alu_authority[OF d t this FADD_fields(1)] d show ?thesis
    by (simp add: FADD_fields)
qed

end
