(* ===== verification/Float32.thy ===== *)
theory Float32
  imports Complex_Main Machine
begin

text \<open>
  Single precision floats as their bit patterns, with finiteness and the rational value of the
  finite ones. The comparisons the code makes on finite values are the comparisons of the values
  (so that the two zeros are equal).
\<close>

type_synonym f32 = u32

definition f32_is_finite :: "f32 \<Rightarrow> bool" where
  "f32_is_finite x \<longleftrightarrow> take_bit 8 (drop_bit 23 x) \<noteq> 255"

text \<open>The value of a finite single precision number (subnormal numbers have exponent field 0).\<close>

definition f32_value :: "f32 \<Rightarrow> rat" where
  "f32_value x =
     (let e = unat (take_bit 8 (drop_bit 23 x)); m = unat (take_bit 23 x);
          magnitude = (if e = 0 then of_nat m / 2 ^ 149 else of_nat (2 ^ 23 + m) * 2 ^ e / 2 ^ 150)
      in if bit x 31 then - magnitude else magnitude)"

end
