(* ===== verification/Draw_Wire.thy ===== *)
theory Draw_Wire
  imports Bytes Float32
begin

text \<open>
  \<open>shared/maxwell-program-wire/src/draw.rs\<close>: the address-free metadata of a programmable draw.
  A record of 256 bytes with the fixed-function state is followed by six tables (programs, vertex
  streams, attributes, uniforms, images, targets) and inline uniform data. \<open>parse\<close> is translated
  check by check, in the order of the code; each accessor reads a table entry from the bytes again.
  \<open>usize\<close> values are numbers, \<open>f32\<close> values their bit patterns.
\<close>

section \<open>Data\<close>

definition MAGIC :: u32 where "MAGIC = 0x444d4753"
definition VERSION :: u32 where "VERSION = 1"
definition HEADER_SIZE :: nat where "HEADER_SIZE = 256"
definition MAX_PROGRAMS :: nat where "MAX_PROGRAMS = 2"
definition MAX_STREAMS :: nat where "MAX_STREAMS = 8"
definition MAX_ATTRIBUTES :: nat where "MAX_ATTRIBUTES = 16"
definition MAX_UNIFORMS :: nat where "MAX_UNIFORMS = 64"
definition MAX_IMAGES :: nat where "MAX_IMAGES = 32"
definition MAX_TARGETS :: nat where "MAX_TARGETS = 8"
definition PROGRAM_SIZE :: nat where "PROGRAM_SIZE = 32"
definition STREAM_SIZE :: nat where "STREAM_SIZE = 40"
definition ATTRIBUTE_SIZE :: nat where "ATTRIBUTE_SIZE = 16"
definition UNIFORM_SIZE :: nat where "UNIFORM_SIZE = 48"
definition IMAGE_SIZE :: nat where "IMAGE_SIZE = 64"
definition TARGET_SIZE :: nat where "TARGET_SIZE = 48"
definition SAMPLER_BUFFER :: u32 where "SAMPLER_BUFFER = push_bit 15 1"
definition SAMPLER_LOGICAL_SHIFT :: nat where "SAMPLER_LOGICAL_SHIFT = 16"
definition SAMPLER_DIMENSION_SHIFT :: nat where "SAMPLER_DIMENSION_SHIFT = 20"

datatype Error = Truncated | Magic | Version | Size | Reserved | Count | Section | State
  | Duplicate | OutOfRange

record Range =
  rg_token :: u64
  rg_offset :: u64
  rg_size :: u64

definition default_range :: Range where
  "default_range = \<lparr>rg_token = 0, rg_offset = 0, rg_size = 0\<rparr>"

text \<open>\<open>Range::end\<close>; the error \<open>Range\<close> of the code is \<open>OutOfRange\<close> here.\<close>

definition range_end :: "Range \<Rightarrow> (Error, u64) outcome" where
  "range_end r =
     (if rg_token r = 0 \<or> rg_size r = 0 then Err OutOfRange
      else ok_or (checked_add (rg_offset r) (rg_size r)) OutOfRange)"

record Program =
  p_stage :: u32
  p_range :: Range

record Stream =
  s_range :: Range
  s_stride :: u32
  s_divisor :: u32

record Attribute =
  a_location :: u32
  a_stream :: u32
  a_offset :: u32
  a_format :: u32

record Uniform =
  u_stage :: u32
  u_slot :: u32
  u_range :: Range
  u_inline_offset :: u32
  u_inline_size :: u32

record Image =
  i_token :: u64
  i_base_level :: u32
  i_level_count :: u32
  i_base_layer :: u32
  i_layer_count :: u32
  i_sampler :: u32
  i_min_lod :: u32
  i_max_lod :: u32
  i_lod_bias :: u32
  i_border_color :: "u32 list"
  i_stage :: u32
  i_slot :: u32

record Target =
  t_token :: u64
  t_level :: u32
  t_layer :: u32
  t_blend_enable :: u32
  t_write_mask :: u32
  t_src_color :: u32
  t_dst_color :: u32
  t_color_op :: u32
  t_src_alpha :: u32
  t_dst_alpha :: u32
  t_alpha_op :: u32

record State =
  topology :: u32
  st_count :: u32
  st_instances :: u32
  st_first :: u32
  base_vertex :: u32
  first_instance :: u32
  index_format :: u32
  index :: Range
  viewport :: "f32 list"
  scissor :: "u32 list"
  raster :: u32
  depth :: u32
  blend_constant :: "f32 list"
  depth_token :: u64
  depth_level :: u32
  depth_layer :: u32

record Section =
  sec_offset :: nat
  sec_count :: nat
  sec_stride :: nat

record Draw =
  data :: bytes
  state :: State
  programs :: Section
  streams :: Section
  attributes :: Section
  uniforms :: Section
  images :: Section
  targets :: Section
  inline :: bytes

section \<open>Reading\<close>

text \<open>\<open>Section::bytes\<close>\<close>

definition section_bytes :: "Section \<Rightarrow> bytes \<Rightarrow> nat \<Rightarrow> (Error, bytes option) outcome" where
  "section_bytes s b i =
     (if sec_count s \<le> i then Ok None
      else and_then (subslice b (sec_offset s + i * sec_stride s) (sec_stride s))
        (\<lambda>entry. Ok (Some entry)))"

definition u32_at :: "bytes \<Rightarrow> nat \<Rightarrow> (Error, u32) outcome" where
  "u32_at b i = read_le 4 b i"

definition u64_at :: "bytes \<Rightarrow> nat \<Rightarrow> (Error, u64) outcome" where
  "u64_at b i = read_le 8 b i"

definition range_at :: "bytes \<Rightarrow> nat \<Rightarrow> (Error, Range) outcome" where
  "range_at b i =
     and_then (u64_at b i) (\<lambda>token. and_then (u64_at b (i + 8)) (\<lambda>offset.
     and_then (u64_at b (i + 16)) (\<lambda>size.
     Ok \<lparr>rg_token = token, rg_offset = offset, rg_size = size\<rparr>)))"

text \<open>\<open>floats\<close> and the other arrays of words.\<close>

definition words_at :: "nat \<Rightarrow> bytes \<Rightarrow> nat \<Rightarrow> (Error, u32 list) outcome" where
  "words_at n b i = collect (\<lambda>k. u32_at b (i + k * 4)) [0..<n]"

definition zero_bytes :: "bytes \<Rightarrow> (Error, unit) outcome" where
  "zero_bytes b = (if any_nonzero b then Err Reserved else Ok ())"

definition zero_window :: "bytes \<Rightarrow> nat \<Rightarrow> nat \<Rightarrow> (Error, unit) outcome" where
  "zero_window b i n = and_then (subslice b i n) zero_bytes"

definition stage_valid :: "u32 \<Rightarrow> bool" where
  "stage_valid v \<longleftrightarrow> v = 0 \<or> v = 4"

definition sampler_valid :: "u32 \<Rightarrow> bool" where
  "sampler_valid flags \<longleftrightarrow>
     flags AND NOT (0x1fff OR SAMPLER_BUFFER OR push_bit SAMPLER_LOGICAL_SHIFT 15
       OR push_bit SAMPLER_DIMENSION_SHIFT 7) = 0
     \<and> drop_bit SAMPLER_LOGICAL_SHIFT flags AND 15 \<in> {0, 2, 3, 4}
     \<and> drop_bit SAMPLER_DIMENSION_SHIFT flags \<le> 4
     \<and> list_all (\<lambda>shift. drop_bit shift flags AND 3 < 3) [3, 5, 7]
     \<and> (flags AND push_bit 9 1 \<noteq> 0 \<or> flags AND push_bit 10 7 = 0)"

definition vertex_format_size :: "u32 \<Rightarrow> u32 option" where
  "vertex_format_size format =
     (if format \<le> 11 then Some ((format mod 4 + 1) * 4)
      else if format \<le> 18 then Some 4
      else if format \<le> 20 then Some 8
      else if format = 21 then Some 4
      else None)"

section \<open>The tables\<close>

definition read_program :: "bytes \<Rightarrow> (Error, Program) outcome" where
  "read_program b =
     and_then (u32_at b 0) (\<lambda>stage. and_then (range_at b 8) (\<lambda>range.
     Ok \<lparr>p_stage = stage, p_range = range\<rparr>))"

definition read_stream :: "bytes \<Rightarrow> (Error, Stream) outcome" where
  "read_stream b =
     and_then (range_at b 0) (\<lambda>range. and_then (u32_at b 24) (\<lambda>stride.
     and_then (u32_at b 28) (\<lambda>divisor.
     Ok \<lparr>s_range = range, s_stride = stride, s_divisor = divisor\<rparr>)))"

definition read_attribute :: "bytes \<Rightarrow> (Error, Attribute) outcome" where
  "read_attribute b =
     and_then (u32_at b 0) (\<lambda>location. and_then (u32_at b 4) (\<lambda>stream.
     and_then (u32_at b 8) (\<lambda>offset. and_then (u32_at b 12) (\<lambda>format.
     Ok \<lparr>a_location = location, a_stream = stream, a_offset = offset, a_format = format\<rparr>))))"

definition read_uniform :: "bytes \<Rightarrow> (Error, Uniform) outcome" where
  "read_uniform b =
     and_then (u32_at b 0) (\<lambda>stage. and_then (u32_at b 4) (\<lambda>slot.
     and_then (range_at b 8) (\<lambda>range. and_then (u32_at b 32) (\<lambda>offset.
     and_then (u32_at b 36) (\<lambda>size.
     Ok \<lparr>u_stage = stage, u_slot = slot, u_range = range, u_inline_offset = offset,
         u_inline_size = size\<rparr>)))))"

definition read_image :: "bytes \<Rightarrow> (Error, Image) outcome" where
  "read_image b =
     and_then (u64_at b 0) (\<lambda>token. and_then (u32_at b 8) (\<lambda>base_level.
     and_then (u32_at b 12) (\<lambda>level_count. and_then (u32_at b 16) (\<lambda>base_layer.
     and_then (u32_at b 20) (\<lambda>layer_count. and_then (u32_at b 24) (\<lambda>sampler.
     and_then (u32_at b 28) (\<lambda>min_lod. and_then (u32_at b 32) (\<lambda>max_lod.
     and_then (u32_at b 36) (\<lambda>bias. and_then (words_at 4 b 40) (\<lambda>border.
     and_then (u32_at b 56) (\<lambda>stage. and_then (u32_at b 60) (\<lambda>slot.
     Ok \<lparr>i_token = token, i_base_level = base_level, i_level_count = level_count,
         i_base_layer = base_layer, i_layer_count = layer_count, i_sampler = sampler,
         i_min_lod = min_lod, i_max_lod = max_lod, i_lod_bias = bias, i_border_color = border,
         i_stage = stage, i_slot = slot\<rparr>))))))))))))"

definition read_target :: "bytes \<Rightarrow> (Error, Target) outcome" where
  "read_target b =
     and_then (u64_at b 0) (\<lambda>token. and_then (u32_at b 8) (\<lambda>level.
     and_then (u32_at b 12) (\<lambda>layer. and_then (u32_at b 16) (\<lambda>enable.
     and_then (u32_at b 20) (\<lambda>mask. and_then (u32_at b 24) (\<lambda>src_color.
     and_then (u32_at b 28) (\<lambda>dst_color. and_then (u32_at b 32) (\<lambda>color_op.
     and_then (u32_at b 36) (\<lambda>src_alpha. and_then (u32_at b 40) (\<lambda>dst_alpha.
     and_then (u32_at b 44) (\<lambda>alpha_op.
     Ok \<lparr>t_token = token, t_level = level, t_layer = layer, t_blend_enable = enable,
         t_write_mask = mask, t_src_color = src_color, t_dst_color = dst_color,
         t_color_op = color_op, t_src_alpha = src_alpha, t_dst_alpha = dst_alpha,
         t_alpha_op = alpha_op\<rparr>)))))))))))"

text \<open>An accessor: no entry past the end of the table, otherwise the entry read from its bytes.\<close>

definition table_entry ::
    "(bytes \<Rightarrow> (Error, 'a) outcome) \<Rightarrow> (Draw \<Rightarrow> Section) \<Rightarrow> Draw \<Rightarrow> nat \<Rightarrow> (Error, 'a option) outcome" where
  "table_entry read sec d i =
     and_then (section_bytes (sec d) (data d) i) (\<lambda>b.
       case b of None \<Rightarrow> Ok None | Some entry \<Rightarrow> and_then (read entry) (\<lambda>x. Ok (Some x)))"

definition program :: "Draw \<Rightarrow> nat \<Rightarrow> (Error, Program option) outcome" where
  "program = table_entry read_program programs"

definition stream :: "Draw \<Rightarrow> nat \<Rightarrow> (Error, Stream option) outcome" where
  "stream = table_entry read_stream streams"

definition attribute :: "Draw \<Rightarrow> nat \<Rightarrow> (Error, Attribute option) outcome" where
  "attribute = table_entry read_attribute attributes"

definition uniform :: "Draw \<Rightarrow> nat \<Rightarrow> (Error, Uniform option) outcome" where
  "uniform = table_entry read_uniform uniforms"

definition image_entry :: "Draw \<Rightarrow> nat \<Rightarrow> (Error, Image option) outcome" where
  "image_entry = table_entry read_image images"

definition target :: "Draw \<Rightarrow> nat \<Rightarrow> (Error, Target option) outcome" where
  "target = table_entry read_target targets"

text \<open>\<open>draw.program(i).unwrap()\<close> and \<open>zero(&draw.programs.bytes(data, i).unwrap()[from..to])\<close>\<close>

definition entry_unwrap ::
    "(Draw \<Rightarrow> nat \<Rightarrow> (Error, 'a option) outcome) \<Rightarrow> Draw \<Rightarrow> nat \<Rightarrow> (Error, 'a) outcome" where
  "entry_unwrap get d i = and_then (get d i) unwrap"

definition entry_zero :: "Section \<Rightarrow> Draw \<Rightarrow> nat \<Rightarrow> nat \<Rightarrow> nat \<Rightarrow> (Error, unit) outcome" where
  "entry_zero sec d i lo hi =
     and_then (section_bytes sec (data d) i) (\<lambda>b. and_then (unwrap b) (\<lambda>entry.
     zero_window entry lo (hi - lo)))"


section \<open>Checks\<close>

definition section_counts :: "nat list" where
  "section_counts =
     [MAX_PROGRAMS, MAX_STREAMS, MAX_ATTRIBUTES, MAX_UNIFORMS, MAX_IMAGES, MAX_TARGETS]"

definition section_strides :: "nat list" where
  "section_strides =
     [PROGRAM_SIZE, STREAM_SIZE, ATTRIBUTE_SIZE, UNIFORM_SIZE, IMAGE_SIZE, TARGET_SIZE]"

text \<open>One turn of the loop over the section headers.\<close>

definition section_step ::
    "bytes \<Rightarrow> nat \<Rightarrow> nat \<times> Section list \<Rightarrow> (Error, nat \<times> Section list) outcome" where
  "section_step b i st =
     and_then (u32_at b (72 + i * 4)) (\<lambda>count.
     if section_counts ! i < unat count then Err Count else
     and_then (u32_at b (96 + i * 4)) (\<lambda>offset.
     if unat offset \<noteq> fst st then Err Section else
     and_then (ok_or (usize_mul (unat count) (section_strides ! i)) Size) (\<lambda>total.
     and_then (ok_or (usize_add (fst st) total) Size) (\<lambda>cursor.
     if length b < cursor then Err Truncated else
     Ok (cursor, snd st @
       [\<lparr>sec_offset = unat offset, sec_count = unat count, sec_stride = section_strides ! i\<rparr>])))))"

definition read_state :: "bytes \<Rightarrow> (Error, State) outcome" where
  "read_state b =
     and_then (u32_at b 16) (\<lambda>topo. and_then (u32_at b 20) (\<lambda>count.
     and_then (u32_at b 24) (\<lambda>instances. and_then (u32_at b 28) (\<lambda>first.
     and_then (u32_at b 32) (\<lambda>base. and_then (u32_at b 36) (\<lambda>first_inst.
     and_then (u32_at b 44) (\<lambda>format. and_then (range_at b 48) (\<lambda>range.
     and_then (words_at 6 b 128) (\<lambda>view. and_then (words_at 4 b 152) (\<lambda>sciss.
     and_then (u32_at b 168) (\<lambda>rast. and_then (u32_at b 172) (\<lambda>dep.
     and_then (words_at 4 b 176) (\<lambda>blend. and_then (u64_at b 192) (\<lambda>token.
     and_then (u32_at b 200) (\<lambda>level. and_then (u32_at b 204) (\<lambda>layer.
     Ok \<lparr>topology = topo, st_count = count, st_instances = instances, st_first = first,
         base_vertex = base, first_instance = first_inst, index_format = format, index = range,
         viewport = view, scissor = sciss, raster = rast, depth = dep, blend_constant = blend,
         depth_token = token, depth_level = level, depth_layer = layer\<rparr>))))))))))))))))"

definition state_invalid :: "State \<Rightarrow> bool" where
  "state_invalid s \<longleftrightarrow>
     2 < topology s
     \<or> st_count s = 0
     \<or> st_instances s = 0
     \<or> 1048576 < st_count s
     \<or> 65536 < st_instances s
     \<or> checked_add (st_first s) (st_count s) = None
     \<or> checked_add (first_instance s) (st_instances s) = None
     \<or> 2 < index_format s
     \<or> raster s AND NOT 7 \<noteq> 0
     \<or> drop_bit 1 (raster s) = 3
     \<or> depth s AND NOT 31 \<noteq> 0
     \<or> \<not> list_all f32_is_finite (viewport s @ blend_constant s)
     \<or> f32_value (viewport s ! 2) \<le> 0
     \<or> f32_value (viewport s ! 0) < 0
     \<or> f32_value (viewport s ! 1) < 0
     \<or> \<not> (0 \<le> f32_value (viewport s ! 4) \<and> f32_value (viewport s ! 4) \<le> 1)
     \<or> \<not> (0 \<le> f32_value (viewport s ! 5) \<and> f32_value (viewport s ! 5) \<le> 1)
     \<or> checked_add (scissor s ! 0) (scissor s ! 2) = None
     \<or> checked_add (scissor s ! 1) (scissor s ! 3) = None
     \<or> depth_token s = 0 \<and> (depth s \<noteq> 0 \<or> depth_level s \<noteq> 0 \<or> depth_layer s \<noteq> 0)"

definition check_index :: "State \<Rightarrow> (Error, unit) outcome" where
  "check_index s =
     (if index_format s = 0 then
        if index s \<noteq> default_range \<or> base_vertex s \<noteq> 0 then Err State else Ok ()
      else
        and_then (range_end (index s)) (\<lambda>_.
        let width = (if index_format s = 1 then 2 else 4) in
        if rg_offset (index s) mod width \<noteq> 0
           \<or> (case checked_mul (u64_from (st_first s + st_count s)) width of
                None \<Rightarrow> True | Some n \<Rightarrow> rg_size (index s) < n)
        then Err OutOfRange else Ok ()))"

text \<open>The loop bodies over the tables. The bit sets of the code hold the values seen so far.\<close>

definition check_program :: "Draw \<Rightarrow> nat \<Rightarrow> u32 \<Rightarrow> (Error, u32) outcome" where
  "check_program d i seen =
     and_then (entry_unwrap program d i) (\<lambda>p.
     if \<not> stage_valid (p_stage p) then Err State else
     (let flag = push_bit (unat (p_stage p)) 1 in
      if seen AND flag \<noteq> 0 then Err Duplicate else
      and_then (range_end (p_range p)) (\<lambda>_.
      and_then (entry_zero (programs d) d i 4 8) (\<lambda>_. Ok (seen OR flag)))))"

definition check_stream :: "Draw \<Rightarrow> nat \<Rightarrow> unit \<Rightarrow> (Error, unit) outcome" where
  "check_stream d i _ =
     and_then (entry_unwrap stream d i) (\<lambda>s.
     and_then (range_end (s_range s)) (\<lambda>_.
     if s_stride s = 0 \<or> 2048 < s_stride s \<or> 1 < s_divisor s then Err State else
     entry_zero (streams d) d i 32 40))"

definition check_attribute :: "Draw \<Rightarrow> nat \<Rightarrow> u32 \<Rightarrow> (Error, u32) outcome" where
  "check_attribute d i seen =
     and_then (entry_unwrap attribute d i) (\<lambda>a.
     and_then (ok_or (vertex_format_size (a_format a)) State) (\<lambda>size.
     if 16 \<le> a_location a \<or> sec_count (streams d) \<le> unat (a_stream a) then Err OutOfRange else
     and_then (ok_or (checked_add (a_offset a) size) OutOfRange) (\<lambda>n.
     and_then (entry_unwrap stream d (unat (a_stream a))) (\<lambda>s.
     if s_stride s < n then Err OutOfRange else
     (let flag = push_bit (unat (a_location a)) 1 in
      if seen AND flag \<noteq> 0 then Err Duplicate else Ok (seen OR flag))))))"

definition check_uniform_range :: "Draw \<Rightarrow> Uniform \<Rightarrow> (Error, unit) outcome" where
  "check_uniform_range d u =
     (if rg_token (u_range u) = 0 then
        if u_range u \<noteq> default_range \<or> u_inline_size u = 0 \<or> 65536 < u_inline_size u
           \<or> (case usize_add (unat (u_inline_offset u)) (unat (u_inline_size u)) of
                None \<Rightarrow> True | Some n \<Rightarrow> length (inline d) < n)
        then Err OutOfRange else Ok ()
      else
        and_then (range_end (u_range u)) (\<lambda>_.
        if 65536 < rg_size (u_range u) \<or> u_inline_offset u \<noteq> 0 \<or> u_inline_size u \<noteq> 0
        then Err OutOfRange else Ok ()))"

definition check_uniform :: "Draw \<Rightarrow> nat \<Rightarrow> u32 list \<Rightarrow> (Error, u32 list) outcome" where
  "check_uniform d i seen =
     and_then (entry_unwrap uniform d i) (\<lambda>u.
     if \<not> stage_valid (u_stage u) \<or> 32 \<le> u_slot u then Err State else
     (let s = (if u_stage u = 4 then 1 else 0); flag = push_bit (unat (u_slot u)) 1 in
      if seen ! s AND flag \<noteq> 0 then Err Duplicate else
      and_then (check_uniform_range d u) (\<lambda>_.
      and_then (entry_zero (uniforms d) d i 40 48) (\<lambda>_. Ok (seen[s := seen ! s OR flag])))))"

definition image_invalid :: "Image \<Rightarrow> bool" where
  "image_invalid i \<longleftrightarrow>
     i_token i = 0
     \<or> \<not> stage_valid (i_stage i)
     \<or> 16 \<le> i_slot i
     \<or> i_level_count i = 0
     \<or> i_layer_count i = 0
     \<or> checked_add (i_base_level i) (i_level_count i) = None
     \<or> checked_add (i_base_layer i) (i_layer_count i) = None
     \<or> \<not> sampler_valid (i_sampler i)
     \<or> \<not> list_all f32_is_finite [i_min_lod i, i_max_lod i, i_lod_bias i]
     \<or> f32_value (i_min_lod i) < 0
     \<or> f32_value (i_max_lod i) < f32_value (i_min_lod i)
     \<or> 15 < f32_value (i_max_lod i)
     \<or> 16 < \<bar>f32_value (i_lod_bias i)\<bar>
     \<or> \<not> list_all f32_is_finite (i_border_color i)"

definition buffer_image_invalid :: "Image \<Rightarrow> bool" where
  "buffer_image_invalid i \<longleftrightarrow>
     i_sampler i AND SAMPLER_BUFFER \<noteq> 0
     \<and> (i_base_layer i \<noteq> 0
        \<or> i_layer_count i \<noteq> 1
        \<or> i_base_level i mod 4 \<noteq> 0
        \<or> i_level_count i mod 4 \<noteq> 0
        \<or> i_sampler i \<noteq> SAMPLER_BUFFER)"

definition check_image :: "Draw \<Rightarrow> nat \<Rightarrow> unit \<Rightarrow> (Error, unit) outcome" where
  "check_image d i _ =
     and_then (entry_unwrap image_entry d i) (\<lambda>im.
     if image_invalid im then Err State else
     if buffer_image_invalid im then Err State else
     for_each (\<lambda>j _.
       and_then (entry_unwrap image_entry d j) (\<lambda>prev.
       if (i_stage im, i_slot im) = (i_stage prev, i_slot prev) then Err Duplicate else Ok ()))
       [0..<i] ())"

definition target_invalid :: "Target \<Rightarrow> bool" where
  "target_invalid t \<longleftrightarrow>
     t_token t = 0
     \<or> 1 < t_blend_enable t
     \<or> t_write_mask t AND NOT 15 \<noteq> 0
     \<or> list_ex (\<lambda>x. 14 < x) [t_src_color t, t_dst_color t, t_src_alpha t, t_dst_alpha t]
     \<or> 4 < t_color_op t
     \<or> 4 < t_alpha_op t"

definition check_target :: "Draw \<Rightarrow> nat \<Rightarrow> unit \<Rightarrow> (Error, unit) outcome" where
  "check_target d i _ =
     and_then (entry_unwrap target d i) (\<lambda>t.
     if target_invalid t then Err State else
     for_each (\<lambda>j _.
       and_then (entry_unwrap target d j) (\<lambda>prev.
       if (t_token t, t_level t, t_layer t) = (t_token prev, t_level prev, t_layer prev)
       then Err Duplicate else Ok ()))
       [0..<i] ())"

definition check_tables :: "Draw \<Rightarrow> (Error, unit) outcome" where
  "check_tables d =
     and_then (for_each (check_program d) [0..<sec_count (programs d)] 0) (\<lambda>_.
     and_then (for_each (check_stream d) [0..<sec_count (streams d)] ()) (\<lambda>_.
     and_then (for_each (check_attribute d) [0..<sec_count (attributes d)] 0) (\<lambda>_.
     and_then (for_each (check_uniform d) [0..<sec_count (uniforms d)] [0, 0]) (\<lambda>_.
     and_then (for_each (check_image d) [0..<sec_count (images d)] ()) (\<lambda>_.
     for_each (check_target d) [0..<sec_count (targets d)] ())))))"

definition check_header :: "bytes \<Rightarrow> (Error, unit) outcome" where
  "check_header b =
     (if length b < HEADER_SIZE then Err Truncated else
      and_then (u32_at b 0) (\<lambda>magic. if magic \<noteq> MAGIC then Err Magic else
      and_then (u32_at b 4) (\<lambda>version. if version \<noteq> VERSION then Err Version else
      and_then (u32_at b 8) (\<lambda>size. if unat size \<noteq> length b then Err Size else
      and_then (zero_window b 12 4) (\<lambda>_.
      and_then (zero_window b 40 4) (\<lambda>_.
      zero_window b 208 (HEADER_SIZE - 208)))))))"

definition read_draw :: "bytes \<Rightarrow> (Error, Draw) outcome" where
  "read_draw b =
     and_then (for_each (section_step b) [0..<6] (HEADER_SIZE, [])) (\<lambda>(cursor, sections).
     and_then (u32_at b 120) (\<lambda>inline_offset. and_then (u32_at b 124) (\<lambda>inline_len.
     if unat inline_offset \<noteq> cursor \<or> usize_add cursor (unat inline_len) \<noteq> Some (length b)
     then Err Section else
     and_then (read_state b) (\<lambda>st.
     if state_invalid st then Err State else
     and_then (check_index st) (\<lambda>_.
     and_then (subslice b (unat inline_offset) (length b - unat inline_offset)) (\<lambda>rest.
     Ok \<lparr>data = b, state = st, programs = sections ! 0, streams = sections ! 1,
         attributes = sections ! 2, uniforms = sections ! 3, images = sections ! 4,
         targets = sections ! 5, inline = rest\<rparr>))))))"

definition parse :: "bytes \<Rightarrow> (Error, Draw) outcome" where
  "parse b =
     and_then (check_header b) (\<lambda>_.
     and_then (read_draw b) (\<lambda>d.
     if sec_count (programs d) \<noteq> 2 \<or> sec_count (targets d) = 0 \<and> depth_token (state d) = 0
     then Err Count else
     and_then (check_tables d) (\<lambda>_. Ok d)))"

end
