(* ===== verification/Draw_Props.thy ===== *)
theory Draw_Props
  imports Draw_Wire
begin

text \<open>
  The draw record read declaratively. \<open>sections_ok\<close> says that the six tables and the inline data
  lie one behind the other; \<open>tables_of\<close> collects the entries of the tables as lists;
  \<open>draw_ok\<close> states on numbers, sets and lists what a draw must satisfy. The lemmas show that each
  check of \<open>parse\<close> is its part of this specification and that no read leaves the buffer. The
  duplicate checks of the code are instances of the interface \<open>slot_set\<close>.
\<close>

section \<open>Sets of slots\<close>

text \<open>A loop that records the slot of each element and stops at one it has seen.\<close>

locale slot_set =
  fixes has :: "'s \<Rightarrow> 'k \<Rightarrow> bool"
    and add :: "'s \<Rightarrow> 'k \<Rightarrow> 's"
    and slot :: "'k \<Rightarrow> bool"
    and sound :: "'s \<Rightarrow> bool"
    and none :: "'s"
  assumes has_add: "sound s \<Longrightarrow> slot j \<Longrightarrow> slot k \<Longrightarrow> has (add s k) j \<longleftrightarrow> j = k \<or> has s j"
    and sound_add: "sound s \<Longrightarrow> slot k \<Longrightarrow> sound (add s k)"
    and sound_none: "sound none"
    and has_none: "slot k \<Longrightarrow> \<not> has none k"
begin

lemma loop_Ok:
  assumes "\<And>x s t. x \<in> set xs \<Longrightarrow> f x s = Ok t \<longleftrightarrow> P x \<and> \<not> has s (key x) \<and> t = add s (key x)"
    and "\<And>x. x \<in> set xs \<Longrightarrow> P x \<Longrightarrow> slot (key x)" and "sound s"
  shows "(\<exists>t. for_each f xs s = Ok t) \<longleftrightarrow>
    (\<forall>x \<in> set xs. P x \<and> \<not> has s (key x)) \<and> distinct (map key xs)"
  using assms
proof (induction xs arbitrary: s)
  case Nil
  then show ?case by simp
next
  case (Cons x xs)
  have step: "f x s = Ok t \<longleftrightarrow> P x \<and> \<not> has s (key x) \<and> t = add s (key x)" for t
    using Cons.prems(1) by simp
  show ?case
  proof (cases "P x \<and> \<not> has s (key x)")
    case False
    then have "f x s \<noteq> Ok t" for t using step by simp
    then show ?thesis using False by (auto simp: and_then_eq_Ok)
  next
    case True
    then have run: "f x s = Ok (add s (key x))" using step by simp
    have slot: "slot (key x)" using True Cons.prems(2) by simp
    have "sound (add s (key x))" using Cons.prems(3) slot by (rule sound_add)
    then have "(\<exists>t. for_each f xs (add s (key x)) = Ok t) \<longleftrightarrow>
        (\<forall>y \<in> set xs. P y \<and> \<not> has (add s (key x)) (key y)) \<and> distinct (map key xs)"
      using Cons.prems(1,2) by (intro Cons.IH) auto
    moreover have "P y \<and> \<not> has (add s (key x)) (key y) \<longleftrightarrow> P y \<and> key y \<noteq> key x \<and> \<not> has s (key y)"
      if "y \<in> set xs" for y
      using has_add[OF Cons.prems(3), of "key y" "key x"] slot Cons.prems(2) that by auto
    ultimately have "(\<exists>t. for_each f xs (add s (key x)) = Ok t) \<longleftrightarrow>
        (\<forall>y \<in> set xs. P y \<and> key y \<noteq> key x \<and> \<not> has s (key y)) \<and> distinct (map key xs)"
      by (metis (no_types, lifting))
    moreover have "(\<exists>t. for_each f (x # xs) s = Ok t) \<longleftrightarrow> (\<exists>t. for_each f xs (add s (key x)) = Ok t)"
      by (simp add: run)
    moreover have "key x \<notin> set (map key xs) \<longleftrightarrow> (\<forall>y \<in> set xs. key y \<noteq> key x)"
      by (simp add: image_iff) metis
    ultimately show ?thesis using True by auto
  qed
qed

lemma loop_none_Ok:
  assumes "\<And>x s t. x \<in> set xs \<Longrightarrow> f x s = Ok t \<longleftrightarrow> P x \<and> \<not> has s (key x) \<and> t = add s (key x)"
    and "\<And>x. x \<in> set xs \<Longrightarrow> P x \<Longrightarrow> slot (key x)"
  shows "(\<exists>t. for_each f xs none = Ok t) \<longleftrightarrow> (\<forall>x \<in> set xs. P x) \<and> distinct (map key xs)"
proof -
  have "(\<exists>t. for_each f xs none = Ok t) \<longleftrightarrow>
      (\<forall>x \<in> set xs. P x \<and> \<not> has none (key x)) \<and> distinct (map key xs)"
    using assms by (intro loop_Ok sound_none) auto
  then show ?thesis using assms(2) has_none by blast
qed

end

text \<open>The code keeps the slots as bits of a 32-bit word, or of one word per stage.\<close>

definition slot_in :: "u32 \<Rightarrow> nat \<Rightarrow> bool" where
  "slot_in w k \<longleftrightarrow> w AND push_bit k 1 \<noteq> 0"

definition slot_add :: "u32 \<Rightarrow> nat \<Rightarrow> u32" where
  "slot_add w k = w OR push_bit k 1"

lemma slot_in_bit: "k < 32 \<Longrightarrow> slot_in w k \<longleftrightarrow> bit w k"
  unfolding slot_in_def
  by (metis and_exp_eq_0_iff_not_bit push_bit_of_1)

lemma bit_slot_add: "k < 32 \<Longrightarrow> j < 32 \<Longrightarrow> bit (slot_add w k) j \<longleftrightarrow> j = k \<or> bit w j"
  by (auto simp: slot_add_def bit_simps)

interpretation word_slots: slot_set slot_in slot_add "\<lambda>k. k < 32" "\<lambda>_. True" 0
  by unfold_locales (auto simp: slot_in_bit bit_slot_add)

interpretation stage_slots: slot_set
    "\<lambda>ws (s, k). slot_in (ws ! s) k" "\<lambda>ws (s, k). ws[s := slot_add (ws ! s) k]"
    "\<lambda>(s, k). s < 2 \<and> k < 32" "\<lambda>ws. length ws = 2" "[0, 0]"
proof unfold_locales
  fix s :: "u32 list" and j k :: "nat \<times> nat"
  assume "length s = 2" "case j of (s, k) \<Rightarrow> s < 2 \<and> k < 32" "case k of (s, k) \<Rightarrow> s < 2 \<and> k < 32"
  then show "(case j of (i, l) \<Rightarrow> slot_in ((case k of (i, l) \<Rightarrow> s[i := slot_add (s ! i) l]) ! i) l)
      \<longleftrightarrow> j = k \<or> (case j of (i, l) \<Rightarrow> slot_in (s ! i) l)"
    by (cases j; cases k) (auto simp: slot_in_bit bit_slot_add nth_list_update)
next
  fix k :: "nat \<times> nat"
  assume "case k of (s, k) \<Rightarrow> s < 2 \<and> k < 32"
  then show "\<not> (case k of (s, k) \<Rightarrow> slot_in ([0, 0] ! s) k)"
    by (cases k) (auto simp: slot_in_bit nth_Cons')
qed auto

text \<open>The other way the code finds duplicates: a comparison with every earlier element.\<close>

lemma earlier_distinct:
  "(\<forall>i < n. \<forall>j < i. key i \<noteq> key j) \<longleftrightarrow> distinct (map key [0..<n])"
  by (auto simp: distinct_conv_nth nat_neq_iff) metis

section \<open>Sections\<close>

definition count_field :: "bytes \<Rightarrow> nat \<Rightarrow> nat" where
  "count_field b k = unat (from_le_bytes (slice b (72 + k * 4) 4) :: u32)"

definition offset_field :: "bytes \<Rightarrow> nat \<Rightarrow> nat" where
  "offset_field b k = unat (from_le_bytes (slice b (96 + k * 4) 4) :: u32)"

definition section_start :: "bytes \<Rightarrow> nat \<Rightarrow> nat" where
  "section_start b k = HEADER_SIZE + (\<Sum>j < k. count_field b j * section_strides ! j)"

definition sections_ok :: "bytes \<Rightarrow> nat \<Rightarrow> bool" where
  "sections_ok b n \<longleftrightarrow>
     (\<forall>k < n. count_field b k \<le> section_counts ! k \<and> offset_field b k = section_start b k
        \<and> section_start b (Suc k) \<le> length b)"

definition section_of :: "bytes \<Rightarrow> nat \<Rightarrow> Section" where
  "section_of b k =
     \<lparr>sec_offset = section_start b k, sec_count = count_field b k, sec_stride = section_strides ! k\<rparr>"

lemmas layout_constants = HEADER_SIZE_def MAX_PROGRAMS_def MAX_STREAMS_def MAX_ATTRIBUTES_def
  MAX_UNIFORMS_def MAX_IMAGES_def MAX_TARGETS_def PROGRAM_SIZE_def STREAM_SIZE_def
  ATTRIBUTE_SIZE_def UNIFORM_SIZE_def IMAGE_SIZE_def TARGET_SIZE_def

lemma section_limits: "k < 6 \<Longrightarrow> section_counts ! k \<le> 64 \<and> section_strides ! k \<le> 64 \<and> 0 < section_strides ! k"
  by (auto simp: section_counts_def section_strides_def layout_constants less_Suc_eq numeral_eq_Suc)

lemma section_start_Suc:
  "section_start b (Suc k) = section_start b k + count_field b k * section_strides ! k"
  by (simp add: section_start_def)

lemma section_start_mono: "j \<le> k \<Longrightarrow> section_start b j \<le> section_start b k"
  unfolding section_start_def by (intro add_left_mono sum_mono2) auto

lemma section_step_Ok:
  assumes "HEADER_SIZE \<le> length b" "length b < 2 ^ 64" "k < 6" "fst st = section_start b k"
  shows "section_step b k st = Ok st' \<longleftrightarrow>
    count_field b k \<le> section_counts ! k \<and> offset_field b k = section_start b k
    \<and> section_start b (Suc k) \<le> length b
    \<and> st' = (section_start b (Suc k), snd st @ [section_of b k])"
proof -
  have reads: "u32_at b (72 + k * 4) = Ok (from_le_bytes (slice b (72 + k * 4) 4))"
    "u32_at b (96 + k * 4) = Ok (from_le_bytes (slice b (96 + k * 4) 4))"
    using assms(1,3) by (simp_all add: u32_at_def read_le_Ok HEADER_SIZE_def)
  have "count_field b k * section_strides ! k < 2 ^ 64" if "count_field b k \<le> section_counts ! k"
  proof -
    have "count_field b k * section_strides ! k \<le> 64 * 64"
      using that section_limits[OF assms(3)] by (intro mult_le_mono) auto
    then show ?thesis by simp
  qed
  then show ?thesis
    using assms(2,4)
    by (auto simp: section_step_def reads count_field_def[symmetric] offset_field_def[symmetric]
        section_start_Suc section_of_def usize_mul_def usize_add_def outcome_simps not_less)
qed

lemma sections_Ok:
  assumes "HEADER_SIZE \<le> length b" "length b < 2 ^ 64" "k \<le> 6"
  shows "for_each (section_step b) [0..<k] (HEADER_SIZE, []) = Ok st \<longleftrightarrow>
    sections_ok b k \<and> st = (section_start b k, map (section_of b) [0..<k])"
  using assms(3)
proof (induction k arbitrary: st)
  case 0
  then show ?case by (auto simp: sections_ok_def section_start_def)
next
  case (Suc k)
  have "for_each (section_step b) [0..<Suc k] (HEADER_SIZE, []) = Ok st \<longleftrightarrow>
      sections_ok b k \<and>
      section_step b k (section_start b k, map (section_of b) [0..<k]) = Ok st"
    using Suc by (auto simp: for_each_append and_then_eq_Ok simp del: for_each.simps)
      (auto simp: and_then_eq_Ok)
  also have "\<dots> \<longleftrightarrow> sections_ok b (Suc k) \<and>
      st = (section_start b (Suc k), map (section_of b) [0..<Suc k])"
    using Suc.prems by (subst section_step_Ok[OF assms(1,2)]) (auto simp: sections_ok_def less_Suc_eq)
  finally show ?case .
qed


section \<open>Entries\<close>

lemma in_table:
  assumes "sections_ok b 6" "k < 6" "i < count_field b k"
  shows "section_start b k + i * section_strides ! k + section_strides ! k \<le> length b"
proof -
  have "i * section_strides ! k + section_strides ! k = Suc i * section_strides ! k" by simp
  also have "\<dots> \<le> count_field b k * section_strides ! k"
    using assms(3) by (intro mult_le_mono1) simp
  finally show ?thesis
    using assms(1,2) section_start_Suc[of b k] by (fastforce simp: sections_ok_def)
qed

definition entry_bytes :: "bytes \<Rightarrow> nat \<Rightarrow> nat \<Rightarrow> bytes" where
  "entry_bytes b k i = slice b (section_start b k + i * section_strides ! k) (section_strides ! k)"

lemma section_bytes_of:
  assumes "sections_ok b 6" "k < 6"
  shows "section_bytes (section_of b k) b i =
    Ok (if i < count_field b k then Some (entry_bytes b k i) else None)"
  using in_table[OF assms, of i]
  by (auto simp: section_bytes_def section_of_def subslice_Ok entry_bytes_def)

lemma length_entry_bytes:
  "sections_ok b 6 \<Longrightarrow> k < 6 \<Longrightarrow> i < count_field b k \<Longrightarrow> length (entry_bytes b k i) = section_strides ! k"
  unfolding entry_bytes_def by (rule length_slice) (rule in_table)

text \<open>Every record of the right length is read.\<close>

lemma range_at_total: "i + 24 \<le> length b \<Longrightarrow> \<exists>r. range_at b i = Ok r"
  by (simp add: range_at_def u64_at_def read_le_Ok)

lemma words_at_total: "i + 4 * n \<le> length b \<Longrightarrow> \<exists>ws. words_at n b i = Ok ws \<and> length ws = n"
proof -
  assume le: "i + 4 * n \<le> length b"
  have "words_at n b i = Ok (map (\<lambda>k. from_le_bytes (slice b (i + k * 4) 4)) [0..<n])"
    unfolding words_at_def u32_at_def using le by (intro collect_Ok_map read_le_Ok) auto
  then show ?thesis by simp
qed

lemma entry_reads:
  "length b = PROGRAM_SIZE \<Longrightarrow> \<exists>x. read_program b = Ok x"
  "length b = STREAM_SIZE \<Longrightarrow> \<exists>x. read_stream b = Ok x"
  "length b = ATTRIBUTE_SIZE \<Longrightarrow> \<exists>x. read_attribute b = Ok x"
  "length b = UNIFORM_SIZE \<Longrightarrow> \<exists>x. read_uniform b = Ok x"
  "length b = IMAGE_SIZE \<Longrightarrow> \<exists>x. read_image b = Ok x \<and> length (i_border_color x) = 4"
  "length b = TARGET_SIZE \<Longrightarrow> \<exists>x. read_target b = Ok x"
  using range_at_total[of 8 b] range_at_total[of 0 b] words_at_total[of 40 4 b]
  by (auto simp: read_program_def read_stream_def read_attribute_def read_uniform_def read_image_def
      read_target_def u32_at_def u64_at_def read_le_Ok layout_constants)

lemma read_state_total:
  "HEADER_SIZE \<le> length b \<Longrightarrow>
    \<exists>s. read_state b = Ok s \<and> length (viewport s) = 6 \<and> length (scissor s) = 4
      \<and> length (blend_constant s) = 4"
  using range_at_total[of 48 b] words_at_total[of 128 6 b] words_at_total[of 152 4 b]
    words_at_total[of 176 4 b]
  by (auto simp: read_state_def u32_at_def u64_at_def read_le_Ok HEADER_SIZE_def)

section \<open>The tables as lists\<close>

definition draw_of :: "bytes \<Rightarrow> State \<Rightarrow> Draw" where
  "draw_of b st =
     \<lparr>data = b, state = st, programs = section_of b 0, streams = section_of b 1,
      attributes = section_of b 2, uniforms = section_of b 3, images = section_of b 4,
      targets = section_of b 5, inline = drop (section_start b 6) b\<rparr>"

definition listed ::
    "(Draw \<Rightarrow> nat \<Rightarrow> (Error, 'a option) outcome) \<Rightarrow> Draw \<Rightarrow> nat \<Rightarrow> 'a list \<Rightarrow> bool" where
  "listed get d n xs \<longleftrightarrow> length xs = n \<and> (\<forall>i < n. get d i = Ok (Some (xs ! i)))"

record Tables =
  tb_programs :: "Program list"
  tb_streams :: "Stream list"
  tb_attributes :: "Attribute list"
  tb_uniforms :: "Uniform list"
  tb_images :: "Image list"
  tb_targets :: "Target list"

definition tables_of :: "Draw \<Rightarrow> Tables \<Rightarrow> bool" where
  "tables_of d t \<longleftrightarrow>
     listed program d (sec_count (programs d)) (tb_programs t)
     \<and> listed stream d (sec_count (streams d)) (tb_streams t)
     \<and> listed attribute d (sec_count (attributes d)) (tb_attributes t)
     \<and> listed uniform d (sec_count (uniforms d)) (tb_uniforms t)
     \<and> listed image_entry d (sec_count (images d)) (tb_images t)
     \<and> listed target d (sec_count (targets d)) (tb_targets t)"

lemmas accessors = program_def stream_def attribute_def uniform_def image_entry_def target_def

lemma draw_of_simps [simp]:
  "data (draw_of b st) = b" "state (draw_of b st) = st"
  "programs (draw_of b st) = section_of b 0" "streams (draw_of b st) = section_of b 1"
  "attributes (draw_of b st) = section_of b 2" "uniforms (draw_of b st) = section_of b 3"
  "images (draw_of b st) = section_of b 4" "targets (draw_of b st) = section_of b 5"
  "inline (draw_of b st) = drop (section_start b 6) b"
  by (simp_all add: draw_of_def)

lemma sec_count_of [simp]: "sec_count (section_of b k) = count_field b k"
  by (simp add: section_of_def)

lemma table_entry_of:
  assumes "sections_ok b 6" "k < 6" "sec (draw_of b st) = section_of b k"
  shows "table_entry read sec (draw_of b st) i =
    (if i < count_field b k then and_then (read (entry_bytes b k i)) (\<lambda>x. Ok (Some x)) else Ok None)"
  by (simp add: table_entry_def assms(3) section_bytes_of[OF assms(1,2)])

lemma listed_exists:
  assumes "sections_ok b 6" "k < 6" "sec (draw_of b st) = section_of b k"
    and "\<And>e. length e = section_strides ! k \<Longrightarrow> \<exists>x. read e = Ok x"
  shows "\<exists>xs. listed (table_entry read sec) (draw_of b st) (count_field b k) xs"
proof -
  have "\<exists>x. table_entry read sec (draw_of b st) i = Ok (Some x)" if "i < count_field b k" for i
    using assms(4)[OF length_entry_bytes[OF assms(1,2) that]] that
    by (auto simp: table_entry_of[where sec = sec and k = k, OF assms(1-3)])
  then obtain g where "table_entry read sec (draw_of b st) i = Ok (Some (g i))"
    if "i < count_field b k" for i
    by metis
  then have "listed (table_entry read sec) (draw_of b st) (count_field b k) (map g [0..<count_field b k])"
    by (simp add: listed_def)
  then show ?thesis ..
qed

lemma tables_exist:
  assumes "sections_ok b 6"
  shows "\<exists>t. tables_of (draw_of b st) t"
proof -
  have strides: "section_strides ! 0 = PROGRAM_SIZE" "section_strides ! 1 = STREAM_SIZE"
    "section_strides ! 2 = ATTRIBUTE_SIZE" "section_strides ! 3 = UNIFORM_SIZE"
    "section_strides ! 4 = IMAGE_SIZE" "section_strides ! 5 = TARGET_SIZE"
    by (simp_all add: section_strides_def)
  have "\<exists>ps. listed program (draw_of b st) (count_field b 0) ps"
    unfolding program_def by (rule listed_exists[OF assms]) (auto simp: strides(1) entry_reads)
  moreover have "\<exists>ss. listed stream (draw_of b st) (count_field b 1) ss"
    unfolding stream_def by (rule listed_exists[OF assms]) (auto simp del: One_nat_def simp: strides(2) entry_reads)
  moreover have "\<exists>as. listed attribute (draw_of b st) (count_field b 2) as"
    unfolding attribute_def by (rule listed_exists[OF assms]) (auto simp: strides(3) entry_reads)
  moreover have "\<exists>us. listed uniform (draw_of b st) (count_field b 3) us"
    unfolding uniform_def by (rule listed_exists[OF assms]) (auto simp: strides(4) entry_reads)
  moreover have "\<exists>is. listed image_entry (draw_of b st) (count_field b 4) is"
    unfolding image_entry_def
    by (rule listed_exists[OF assms]) (auto simp: strides(5) dest: entry_reads(5))
  moreover have "\<exists>ts. listed target (draw_of b st) (count_field b 5) ts"
    unfolding target_def by (rule listed_exists[OF assms]) (auto simp: strides(6) entry_reads)
  ultimately obtain ps ss "as" us "is" ts where
    "tables_of (draw_of b st) \<lparr>tb_programs = ps, tb_streams = ss, tb_attributes = as,
       tb_uniforms = us, tb_images = is, tb_targets = ts\<rparr>"
    by (auto simp: tables_of_def simp del: One_nat_def)
  then show ?thesis ..
qed

lemma listed_unique: "listed get d n xs \<Longrightarrow> listed get d n ys \<Longrightarrow> xs = ys"
  by (auto simp: listed_def intro!: nth_equalityI)

lemma listed_unwrap:
  "listed get d n xs \<Longrightarrow> i < n \<Longrightarrow> entry_unwrap get d i = Ok (xs ! i)"
  by (simp add: listed_def entry_unwrap_def)


section \<open>What a draw must satisfy\<close>

definition range_ok :: "Range \<Rightarrow> bool" where
  "range_ok r \<longleftrightarrow>
     rg_token r \<noteq> 0 \<and> rg_size r \<noteq> 0 \<and> unat (rg_offset r) + unat (rg_size r) < 2 ^ 64"

definition state_ok :: "State \<Rightarrow> bool" where
  "state_ok s \<longleftrightarrow>
     unat (topology s) \<le> 2
     \<and> 0 < unat (st_count s) \<and> unat (st_count s) \<le> 2 ^ 20
     \<and> 0 < unat (st_instances s) \<and> unat (st_instances s) \<le> 2 ^ 16
     \<and> unat (st_first s) + unat (st_count s) < 2 ^ 32
     \<and> unat (first_instance s) + unat (st_instances s) < 2 ^ 32
     \<and> unat (index_format s) \<le> 2
     \<and> unat (raster s) < 6
     \<and> unat (depth s) < 32
     \<and> (\<forall>x \<in> set (viewport s) \<union> set (blend_constant s). f32_is_finite x)
     \<and> 0 \<le> f32_value (viewport s ! 0) \<and> 0 \<le> f32_value (viewport s ! 1)
     \<and> 0 < f32_value (viewport s ! 2)
     \<and> f32_value (viewport s ! 4) \<in> {0..1} \<and> f32_value (viewport s ! 5) \<in> {0..1}
     \<and> unat (scissor s ! 0) + unat (scissor s ! 2) < 2 ^ 32
     \<and> unat (scissor s ! 1) + unat (scissor s ! 3) < 2 ^ 32
     \<and> (depth_token s = 0 \<longrightarrow> depth s = 0 \<and> depth_level s = 0 \<and> depth_layer s = 0)"

definition index_width :: "State \<Rightarrow> nat" where
  "index_width s = (if index_format s = 1 then 2 else 4)"

definition index_ok :: "State \<Rightarrow> bool" where
  "index_ok s \<longleftrightarrow>
     (if index_format s = 0 then index s = default_range \<and> base_vertex s = 0
      else range_ok (index s) \<and> index_width s dvd unat (rg_offset (index s))
        \<and> (unat (st_first s) + unat (st_count s)) * index_width s \<le> unat (rg_size (index s)))"

definition attribute_ok :: "Stream list \<Rightarrow> Attribute \<Rightarrow> bool" where
  "attribute_ok ss a \<longleftrightarrow>
     unat (a_location a) < 16 \<and> unat (a_stream a) < length ss
     \<and> (\<exists>size. vertex_format_size (a_format a) = Some size
          \<and> unat (a_offset a) + unat size \<le> unat (s_stride (ss ! unat (a_stream a))))"

definition stream_ok :: "Stream \<Rightarrow> bool" where
  "stream_ok s \<longleftrightarrow>
     range_ok (s_range s) \<and> 0 < unat (s_stride s) \<and> unat (s_stride s) \<le> 2048 \<and> unat (s_divisor s) \<le> 1"

definition uniform_ok :: "nat \<Rightarrow> Uniform \<Rightarrow> bool" where
  "uniform_ok n u \<longleftrightarrow>
     stage_valid (u_stage u) \<and> unat (u_slot u) < 32
     \<and> (if rg_token (u_range u) = 0 then
          u_range u = default_range \<and> 0 < unat (u_inline_size u) \<and> unat (u_inline_size u) \<le> 65536
          \<and> unat (u_inline_offset u) + unat (u_inline_size u) \<le> n
        else
          range_ok (u_range u) \<and> unat (rg_size (u_range u)) \<le> 65536
          \<and> u_inline_offset u = 0 \<and> u_inline_size u = 0)"

text \<open>A two-dimensional window of levels and layers, or a typed buffer of whole words.\<close>

definition image_ok :: "Image \<Rightarrow> bool" where
  "image_ok i \<longleftrightarrow>
     i_token i \<noteq> 0 \<and> stage_valid (i_stage i) \<and> unat (i_slot i) < 16
     \<and> 0 < unat (i_level_count i) \<and> unat (i_base_level i) + unat (i_level_count i) < 2 ^ 32
     \<and> 0 < unat (i_layer_count i) \<and> unat (i_base_layer i) + unat (i_layer_count i) < 2 ^ 32
     \<and> sampler_valid (i_sampler i)
     \<and> (\<forall>x \<in> {i_min_lod i, i_max_lod i, i_lod_bias i} \<union> set (i_border_color i). f32_is_finite x)
     \<and> 0 \<le> f32_value (i_min_lod i) \<and> f32_value (i_min_lod i) \<le> f32_value (i_max_lod i)
     \<and> f32_value (i_max_lod i) \<le> 15 \<and> \<bar>f32_value (i_lod_bias i)\<bar> \<le> 16
     \<and> (bit (i_sampler i) 15 \<longrightarrow>
          i_sampler i = SAMPLER_BUFFER \<and> i_base_layer i = 0 \<and> i_layer_count i = 1
          \<and> 4 dvd unat (i_base_level i) \<and> 4 dvd unat (i_level_count i))"

definition target_ok :: "Target \<Rightarrow> bool" where
  "target_ok t \<longleftrightarrow>
     t_token t \<noteq> 0 \<and> unat (t_blend_enable t) \<le> 1 \<and> unat (t_write_mask t) < 16
     \<and> (\<forall>x \<in> {t_src_color t, t_dst_color t, t_src_alpha t, t_dst_alpha t}. unat x \<le> 14)
     \<and> unat (t_color_op t) \<le> 4 \<and> unat (t_alpha_op t) \<le> 4"

definition tables_ok :: "nat \<Rightarrow> Tables \<Rightarrow> bool" where
  "tables_ok n t \<longleftrightarrow>
     (\<forall>p \<in> set (tb_programs t). stage_valid (p_stage p) \<and> range_ok (p_range p))
     \<and> distinct (map p_stage (tb_programs t))
     \<and> (\<forall>s \<in> set (tb_streams t). stream_ok s)
     \<and> (\<forall>a \<in> set (tb_attributes t). attribute_ok (tb_streams t) a)
     \<and> distinct (map a_location (tb_attributes t))
     \<and> (\<forall>u \<in> set (tb_uniforms t). uniform_ok n u)
     \<and> distinct (map (\<lambda>u. (u_stage u, u_slot u)) (tb_uniforms t))
     \<and> (\<forall>i \<in> set (tb_images t). image_ok i)
     \<and> distinct (map (\<lambda>i. (i_stage i, i_slot i)) (tb_images t))
     \<and> (\<forall>x \<in> set (tb_targets t). target_ok x)
     \<and> distinct (map (\<lambda>x. (t_token x, t_level x, t_layer x)) (tb_targets t))"

text \<open>The reserved bytes of the entries of a table are zero.\<close>

definition reserved_zero :: "bytes \<Rightarrow> nat \<Rightarrow> nat \<Rightarrow> nat \<Rightarrow> bool" where
  "reserved_zero b k lo hi \<longleftrightarrow>
     (\<forall>i < count_field b k. \<not> any_nonzero (slice (entry_bytes b k i) lo (hi - lo)))"

section \<open>The checks are their specifications\<close>

lemma low_bits_iff: "n \<le> LENGTH('a) \<Longrightarrow> (w :: 'a::len word) AND NOT (mask n) = 0 \<longleftrightarrow> unat w < 2 ^ n"
proof -
  have "unat (w AND NOT (mask n)) = 0 \<longleftrightarrow> unat w div 2 ^ n = 0"
    by (simp add: unat_and_not_mask)
  then show ?thesis by (simp add: unat_eq_0 div_eq_0_iff)
qed

lemma range_end_Ok: "(\<exists>e. range_end r = Ok e) \<longleftrightarrow> range_ok r"
  by (auto simp: range_end_def range_ok_def outcome_simps checked_simps)

lemma state_invalid_iff:
  assumes "length (viewport s) = 6"
  shows "\<not> state_invalid s \<longleftrightarrow> state_ok s"
proof -
  have raster: "raster s AND NOT 7 = 0 \<and> drop_bit 1 (raster s) \<noteq> 3 \<longleftrightarrow> unat (raster s) < 6"
  proof -
    have "(7 :: u32) = mask 3" by (simp add: mask_eq_exp_minus_1)
    then have "raster s AND NOT 7 = 0 \<longleftrightarrow> unat (raster s) < 8"
      using low_bits_iff[of 3 "raster s"] by simp
    moreover have "drop_bit 1 (raster s) = 3 \<longleftrightarrow> unat (raster s) div 2 = 3"
      using unat_drop_bit[of 1 "raster s"] by (simp add: word_unat_eq_iff)
    ultimately show ?thesis by auto
  qed
  have depth: "depth s AND NOT 31 = 0 \<longleftrightarrow> unat (depth s) < 32"
  proof -
    have "(31 :: u32) = mask 5" by (simp add: mask_eq_exp_minus_1)
    then show ?thesis using low_bits_iff[of 5 "depth s"] by simp
  qed
  show ?thesis
    unfolding state_invalid_def state_ok_def de_Morgan_disj raster[symmetric] depth[symmetric]
    by (auto simp: checked_simps unat_pos_iff word_le_nat_alt not_less list_all_iff)
qed

lemma check_index_Ok:
  assumes "state_ok s"
  shows "check_index s = Ok () \<longleftrightarrow> index_ok s"
proof (cases "index_format s = 0")
  case True
  then show ?thesis by (auto simp: check_index_def index_ok_def)
next
  case False
  define w :: u64 where "w = (if index_format s = 1 then 2 else 4)"
  have w: "unat w = index_width s" "index_width s \<le> 4" by (simp_all add: index_width_def w_def)
  have sum: "unat (st_first s + st_count s) = unat (st_first s) + unat (st_count s)"
    "unat (st_first s) + unat (st_count s) < 2 ^ 32"
    using assms by (simp_all add: state_ok_def unat_add_lt)
  have fits: "unat (u64_from (st_first s + st_count s)) * unat w < 2 ^ 64"
  proof -
    have "(unat (st_first s) + unat (st_count s)) * index_width s \<le> 2 ^ 32 * 4"
      using sum(2) w(2) by (intro mult_le_mono) auto
    then show ?thesis by (simp add: w sum)
  qed
  then have mul: "checked_mul (u64_from (st_first s + st_count s)) w
      = Some (u64_from (st_first s + st_count s) * w)"
    by (simp add: checked_mul_def)
  have size: "unat (u64_from (st_first s + st_count s) * w)
      = (unat (st_first s) + unat (st_count s)) * index_width s"
    using unat_mult_lt[of "u64_from (st_first s + st_count s)" w] fits
    by (simp only: unat_u64_from sum(1) w(1)) simp
  have "rg_offset (index s) mod w = 0 \<longleftrightarrow> index_width s dvd unat (rg_offset (index s))"
    unfolding word_unat_eq_iff unat_mod_distrib w by (simp add: dvd_eq_mod_eq_0)
  then show ?thesis
    using False range_end_Ok[of "index s"] mul size
    by (auto simp: check_index_def index_ok_def w_def[symmetric] and_then_eq_Ok word_less_nat_alt not_less)
qed


lemma entry_zero_Ok:
  assumes "sections_ok b 6" "k < 6" "i < count_field b k" "lo \<le> hi" "hi \<le> section_strides ! k"
  shows "entry_zero (section_of b k) (draw_of b st) i lo hi = Ok () \<longleftrightarrow>
      \<not> any_nonzero (slice (entry_bytes b k i) lo (hi - lo))"
    and "entry_zero (section_of b k) (draw_of b st) i lo hi \<noteq> Panic"
  using assms length_entry_bytes[OF assms(1-3)]
  by (auto simp: entry_zero_def section_bytes_of zero_window_def subslice_Ok zero_bytes_def)

lemma range_end_not_Panic: "range_end r \<noteq> Panic"
  by (simp add: range_end_def outcome_simps)

lemma range_end_then_Ok: "and_then (range_end r) (\<lambda>_. f) = Ok x \<longleftrightarrow> range_ok r \<and> f = Ok x"
  using range_end_Ok[of r] by (auto simp: and_then_eq_Ok)

lemma distinct_upt_nth:
  assumes "length xs = n" "inj g"
  shows "distinct (map (\<lambda>i. g (f (xs ! i))) [0..<n]) \<longleftrightarrow> distinct (map f xs)"
proof -
  have "map (\<lambda>i. g (f (xs ! i))) [0..<n] = map g (map f xs)"
    using assms(1) by (intro nth_equalityI) auto
  then show ?thesis using assms(2) by (simp only: distinct_map inj_on_subset[OF assms(2)] subset_UNIV simp_thms)
qed

lemma inj_unat: "inj (unat :: 'a::len word \<Rightarrow> nat)"
  by (rule injI) (simp add: word_unat_eq_iff)

lemma all_upt_nth: "length xs = n \<Longrightarrow> (\<forall>i < n. Q (xs ! i)) \<longleftrightarrow> (\<forall>x \<in> set xs. Q x)"
  by (auto simp: set_conv_nth)

lemma stage_valid_less: "stage_valid v \<Longrightarrow> unat v < 32"
  by (auto simp: stage_valid_def)

lemma programs_Ok:
  assumes "sections_ok b 6" "listed program (draw_of b st) (count_field b 0) ps"
  shows "(\<exists>t. for_each (check_program (draw_of b st)) [0..<count_field b 0] 0 = Ok t) \<longleftrightarrow>
    (\<forall>p \<in> set ps. stage_valid (p_stage p) \<and> range_ok (p_range p)) \<and> distinct (map p_stage ps)
    \<and> reserved_zero b 0 4 8"
proof -
  let ?n = "count_field b 0"
  let ?P = "\<lambda>i. stage_valid (p_stage (ps ! i)) \<and> range_ok (p_range (ps ! i))
      \<and> \<not> any_nonzero (slice (entry_bytes b 0 i) 4 4)"
  have len: "length ps = ?n" using assms(2) by (simp add: listed_def)
  have "check_program (draw_of b st) i s = Ok t \<longleftrightarrow> ?P i
      \<and> \<not> slot_in s (unat (p_stage (ps ! i))) \<and> t = slot_add s (unat (p_stage (ps ! i)))"
    if "i < ?n" for i s t
    using listed_unwrap[OF assms(2) that] entry_zero_Ok(1)[OF assms(1) _ that, of 4 8]
      range_end_Ok[of "p_range (ps ! i)"]
    by (auto simp: check_program_def Let_def if_eq_Ok and_then_eq_Ok slot_in_def
        slot_add_def section_strides_def PROGRAM_SIZE_def)
  then have "(\<exists>t. for_each (check_program (draw_of b st)) [0..<?n] 0 = Ok t) \<longleftrightarrow>
      (\<forall>i \<in> set [0..<?n]. ?P i) \<and> distinct (map (\<lambda>i. unat (p_stage (ps ! i))) [0..<?n])"
    by (intro word_slots.loop_none_Ok) (auto simp: stage_valid_less)
  also have "\<dots> \<longleftrightarrow> (\<forall>p \<in> set ps. stage_valid (p_stage p) \<and> range_ok (p_range p))
      \<and> distinct (map p_stage ps) \<and> reserved_zero b 0 4 8"
    unfolding distinct_upt_nth[OF len inj_unat]
    by (auto simp: reserved_zero_def all_upt_nth[OF len, symmetric])
  finally show ?thesis .
qed

lemma streams_Ok:
  assumes "sections_ok b 6" "listed stream (draw_of b st) (count_field b 1) ss"
  shows "for_each (check_stream (draw_of b st)) [0..<count_field b 1] () = Ok () \<longleftrightarrow>
    (\<forall>s \<in> set ss. stream_ok s) \<and> reserved_zero b 1 32 40"
proof -
  let ?n = "count_field b 1"
  have len: "length ss = ?n" using assms(2) by (simp add: listed_def)
  have "check_stream (draw_of b st) i () = Ok () \<longleftrightarrow>
      stream_ok (ss ! i) \<and> \<not> any_nonzero (slice (entry_bytes b 1 i) 32 8)" if "i < ?n" for i
    using listed_unwrap[OF assms(2) that] entry_zero_Ok(1)[OF assms(1) _ that, of 32 40]
    by (auto simp: check_stream_def if_eq_Ok range_end_then_Ok section_strides_def STREAM_SIZE_def
        stream_ok_def unat_pos_iff word_less_nat_alt not_less)
  then show ?thesis
    by (auto simp: for_each_unit_Ok reserved_zero_def all_upt_nth[OF len, symmetric])
qed

lemma attributes_Ok:
  assumes "sections_ok b 6" "listed stream (draw_of b st) (count_field b 1) ss"
    and "listed attribute (draw_of b st) (count_field b 2) as"
  shows "(\<exists>t. for_each (check_attribute (draw_of b st)) [0..<count_field b 2] 0 = Ok t) \<longleftrightarrow>
    (\<forall>a \<in> set as. attribute_ok ss a) \<and> distinct (map a_location as)"
proof -
  let ?n = "count_field b 2"
  have len: "length as = ?n" and slen: "length ss = count_field b 1"
    using assms(2,3) by (simp_all add: listed_def)
  have "check_attribute (draw_of b st) i s = Ok t \<longleftrightarrow> attribute_ok ss (as ! i)
      \<and> \<not> slot_in s (unat (a_location (as ! i))) \<and> t = slot_add s (unat (a_location (as ! i)))"
    (is "?check = Ok t \<longleftrightarrow> ?Q") if "i < ?n" for i s t
  proof (cases "unat (a_stream (as ! i)) < count_field b 1")
    case False
    then show ?thesis
      using listed_unwrap[OF assms(3) that] slen
      by (auto simp: check_attribute_def attribute_ok_def and_then_eq_Ok)
  next
    case True
    note stride = listed_unwrap[OF assms(2) True]
    have "unat (s_stride (ss ! unat (a_stream (as ! i)))) < 2 ^ 32" 
      using unat_u32_less by simp
    then show ?thesis
      using listed_unwrap[OF assms(3) that] stride True slen
      by (cases "vertex_format_size (a_format (as ! i))")
        (auto simp: check_attribute_def attribute_ok_def and_then_eq_Ok outcome_simps checked_simps
          Let_def slot_in_def slot_add_def word_le_nat_alt word_less_nat_alt not_less not_le unat_add_lt)
  qed
  then have "(\<exists>t. for_each (check_attribute (draw_of b st)) [0..<?n] 0 = Ok t) \<longleftrightarrow>
      (\<forall>i \<in> set [0..<?n]. attribute_ok ss (as ! i))
      \<and> distinct (map (\<lambda>i. unat (a_location (as ! i))) [0..<?n])"
    by (intro word_slots.loop_none_Ok) (auto simp: attribute_ok_def)
  then show ?thesis
    unfolding distinct_upt_nth[OF len inj_unat] by (auto simp: all_upt_nth[OF len, symmetric])
qed


definition uniform_key :: "Uniform \<Rightarrow> nat \<times> nat" where
  "uniform_key u = (if u_stage u = 4 then 1 else 0, unat (u_slot u))"

lemma check_uniform_range_Ok:
  "check_uniform_range d u = Ok () \<and> stage_valid (u_stage u) \<and> unat (u_slot u) < 32
    \<longleftrightarrow> uniform_ok (length (inline d)) u"
proof -
  have "unat (u_inline_offset u) + unat (u_inline_size u) < 2 ^ 64"
    using unat_u32_less[of "u_inline_offset u"] unat_u32_less[of "u_inline_size u"] by simp
  then show ?thesis
    by (auto simp: check_uniform_range_def uniform_ok_def usize_add_def range_end_then_Ok
        unat_pos_iff word_less_nat_alt not_less)
qed

lemma unat_eq_iff: "unat (a :: 'a::len word) = unat b \<longleftrightarrow> a = b"
  by (simp add: word_unat_eq_iff)

lemma uniform_key_distinct:
  assumes "\<forall>u \<in> set us. stage_valid (u_stage u)" "length us = n"
  shows "distinct (map (\<lambda>i. uniform_key (us ! i)) [0..<n]) \<longleftrightarrow>
    distinct (map (\<lambda>u. (u_stage u, u_slot u)) us)"
proof -
  have key: "uniform_key u = uniform_key v \<longleftrightarrow> (u_stage u, u_slot u) = (u_stage v, u_slot v)"
    if "u \<in> set us" "v \<in> set us" for u v
    using bspec[OF assms(1) that(1)] bspec[OF assms(1) that(2)] unat_eq_iff[of "u_slot u" "u_slot v"]
    by (auto simp: uniform_key_def stage_valid_def)
  then have "distinct (map uniform_key us) \<longleftrightarrow> distinct (map (\<lambda>u. (u_stage u, u_slot u)) us)"
    by (simp add: distinct_map inj_on_def)
  moreover have "map (\<lambda>i. uniform_key (us ! i)) [0..<n] = map uniform_key us"
    using assms(2) by (intro nth_equalityI) auto
  ultimately show ?thesis by simp
qed

lemma uniforms_Ok:
  assumes "sections_ok b 6" "listed uniform (draw_of b st) (count_field b 3) us"
  shows "(\<exists>t. for_each (check_uniform (draw_of b st)) [0..<count_field b 3] [0, 0] = Ok t) \<longleftrightarrow>
    (\<forall>u \<in> set us. uniform_ok (length b - section_start b 6) u)
    \<and> distinct (map (\<lambda>u. (u_stage u, u_slot u)) us) \<and> reserved_zero b 3 40 48"
proof -
  let ?n = "count_field b 3" and ?d = "draw_of b st"
  let ?P = "\<lambda>i. uniform_ok (length (inline ?d)) (us ! i)
      \<and> \<not> any_nonzero (slice (entry_bytes b 3 i) 40 8)"
  have len: "length us = ?n" using assms(2) by (simp add: listed_def)
  have "check_uniform ?d i s = Ok t \<longleftrightarrow> ?P i
      \<and> \<not> (case uniform_key (us ! i) of (w, k) \<Rightarrow> slot_in (s ! w) k)
      \<and> t = (case uniform_key (us ! i) of (w, k) \<Rightarrow> s[w := slot_add (s ! w) k])"
    if "i < ?n" for i s t
  proof -
    have zero: "entry_zero (section_of b 3) ?d i 40 48 = Ok () \<longleftrightarrow>
        \<not> any_nonzero (slice (entry_bytes b 3 i) 40 8)"
      using entry_zero_Ok(1)[OF assms(1) _ that, of 40 48]
      by (simp add: section_strides_def UNIFORM_SIZE_def)
    show ?thesis
      unfolding check_uniform_range_Ok[symmetric]
      using listed_unwrap[OF assms(2) that]
      by (auto simp: check_uniform_def Let_def if_eq_Ok and_then_eq_Ok zero uniform_key_def
          slot_in_def slot_add_def word_le_nat_alt)
  qed
  then have "(\<exists>t. for_each (check_uniform ?d) [0..<?n] [0, 0] = Ok t) \<longleftrightarrow>
      (\<forall>i \<in> set [0..<?n]. ?P i) \<and> distinct (map (\<lambda>i. uniform_key (us ! i)) [0..<?n])"
    by (intro stage_slots.loop_none_Ok) (auto simp: uniform_key_def uniform_ok_def)
  also have "\<dots> \<longleftrightarrow> (\<forall>u \<in> set us. uniform_ok (length b - section_start b 6) u)
      \<and> distinct (map (\<lambda>i. uniform_key (us ! i)) [0..<?n]) \<and> reserved_zero b 3 40 48"
    by (auto simp: reserved_zero_def all_upt_nth[OF len, symmetric])
  also have "\<dots> \<longleftrightarrow> (\<forall>u \<in> set us. uniform_ok (length b - section_start b 6) u)
      \<and> distinct (map (\<lambda>u. (u_stage u, u_slot u)) us) \<and> reserved_zero b 3 40 48"
    using uniform_key_distinct[OF _ len] by (auto simp: uniform_ok_def)
  finally show ?thesis .
qed

text \<open>Loops that compare each entry with the earlier ones.\<close>

lemma earlier_loop_Ok:
  assumes "listed get d n xs"
    and "\<And>i u. i < n \<Longrightarrow> check i u = Ok () \<longleftrightarrow> good (xs ! i) \<and> (\<forall>j < i. key (xs ! i) \<noteq> key (xs ! j))"
  shows "for_each check [0..<n] () = Ok () \<longleftrightarrow> (\<forall>x \<in> set xs. good x) \<and> distinct (map key xs)"
proof -
  have len: "length xs = n" using assms(1) by (simp add: listed_def)
  have "for_each check [0..<n] () = Ok () \<longleftrightarrow>
      (\<forall>i < n. good (xs ! i)) \<and> (\<forall>i < n. \<forall>j < i. key (xs ! i) \<noteq> key (xs ! j))"
    using assms(2) by (auto simp: for_each_unit_Ok)
  also have "\<dots> \<longleftrightarrow> (\<forall>x \<in> set xs. good x) \<and> distinct (map key xs)"
    using distinct_upt_nth[OF len inj_on_id, of key]
    by (simp add: earlier_distinct all_upt_nth[OF len])
  finally show ?thesis .
qed

lemma buffer_flag: "w AND SAMPLER_BUFFER \<noteq> 0 \<longleftrightarrow> bit w 15"
  using slot_in_bit[of 15 w] by (simp add: slot_in_def SAMPLER_BUFFER_def)

lemma image_checks:
  "\<not> image_invalid i \<and> \<not> buffer_image_invalid i \<longleftrightarrow> image_ok i"
proof -
  have mod4: "w mod 4 = 0 \<longleftrightarrow> 4 dvd unat (w :: u32)" for w
    by (simp add: word_unat_eq_iff unat_mod_distrib dvd_eq_mod_eq_0)
  show ?thesis
    unfolding image_invalid_def buffer_image_invalid_def image_ok_def de_Morgan_disj buffer_flag
    by (auto simp: checked_simps unat_pos_iff word_le_nat_alt not_less not_le list_all_iff mod4)
qed

lemma images_Ok:
  assumes "listed image_entry (draw_of b st) (count_field b 4) is"
  shows "for_each (check_image (draw_of b st)) [0..<count_field b 4] () = Ok () \<longleftrightarrow>
    (\<forall>i \<in> set is. image_ok i) \<and> distinct (map (\<lambda>i. (i_stage i, i_slot i)) is)"
proof (rule earlier_loop_Ok[OF assms])
  fix i u
  assume i: "i < count_field b 4"
  have "entry_unwrap image_entry (draw_of b st) j = Ok (is ! j)" if "j \<le> i" for j
    using listed_unwrap[OF assms, of j] i that by simp
  then show "check_image (draw_of b st) i u = Ok () \<longleftrightarrow>
      image_ok (is ! i) \<and> (\<forall>j < i. (i_stage (is ! i), i_slot (is ! i)) \<noteq> (i_stage (is ! j), i_slot (is ! j)))"
    unfolding image_checks[symmetric]
    by (auto simp: check_image_def for_each_unit_Ok if_eq_Ok)
qed

lemma target_checks: "\<not> target_invalid t \<longleftrightarrow> target_ok t"
proof -
  have "(15 :: u32) = mask 4" by (simp add: mask_eq_exp_minus_1)
  then have "t_write_mask t AND NOT 15 = 0 \<longleftrightarrow> unat (t_write_mask t) < 16"
    using low_bits_iff[of 4 "t_write_mask t"] by simp
  then show ?thesis
    by (auto simp: target_invalid_def target_ok_def word_less_nat_alt not_less)
qed

lemma targets_Ok:
  assumes "listed target (draw_of b st) (count_field b 5) ts"
  shows "for_each (check_target (draw_of b st)) [0..<count_field b 5] () = Ok () \<longleftrightarrow>
    (\<forall>t \<in> set ts. target_ok t) \<and> distinct (map (\<lambda>t. (t_token t, t_level t, t_layer t)) ts)"
proof (rule earlier_loop_Ok[OF assms])
  fix i u
  assume i: "i < count_field b 5"
  have "entry_unwrap target (draw_of b st) j = Ok (ts ! j)" if "j \<le> i" for j
    using listed_unwrap[OF assms, of j] i that by simp
  then show "check_target (draw_of b st) i u = Ok () \<longleftrightarrow>
      target_ok (ts ! i) \<and> (\<forall>j < i. (t_token (ts ! i), t_level (ts ! i), t_layer (ts ! i))
        \<noteq> (t_token (ts ! j), t_level (ts ! j), t_layer (ts ! j)))"
    unfolding target_checks[symmetric]
    by (auto simp: check_target_def for_each_unit_Ok if_eq_Ok)
qed

lemma check_tables_Ok:
  assumes "sections_ok b 6" "tables_of (draw_of b st) t"
  shows "check_tables (draw_of b st) = Ok () \<longleftrightarrow>
    tables_ok (length b - section_start b 6) t
    \<and> reserved_zero b 0 4 8 \<and> reserved_zero b 1 32 40 \<and> reserved_zero b 3 40 48"
proof -
  have lists: "listed program (draw_of b st) (count_field b 0) (tb_programs t)"
    "listed stream (draw_of b st) (count_field b 1) (tb_streams t)"
    "listed attribute (draw_of b st) (count_field b 2) (tb_attributes t)"
    "listed uniform (draw_of b st) (count_field b 3) (tb_uniforms t)"
    "listed image_entry (draw_of b st) (count_field b 4) (tb_images t)"
    "listed target (draw_of b st) (count_field b 5) (tb_targets t)"
    using assms(2) by (simp_all add: tables_of_def)
  note loops = programs_Ok[OF assms(1) lists(1)] streams_Ok[OF assms(1) lists(2)]
    attributes_Ok[OF assms(1) lists(2,3)] uniforms_Ok[OF assms(1) lists(4)] images_Ok[OF lists(5)]
    targets_Ok[OF lists(6)]
  let ?d = "draw_of b st"
  have "check_tables ?d = Ok () \<longleftrightarrow>
      (\<exists>t. for_each (check_program ?d) [0..<count_field b 0] 0 = Ok t)
      \<and> for_each (check_stream ?d) [0..<count_field b 1] () = Ok ()
      \<and> (\<exists>t. for_each (check_attribute ?d) [0..<count_field b 2] 0 = Ok t)
      \<and> (\<exists>t. for_each (check_uniform ?d) [0..<count_field b 3] [0, 0] = Ok t)
      \<and> for_each (check_image ?d) [0..<count_field b 4] () = Ok ()
      \<and> for_each (check_target ?d) [0..<count_field b 5] () = Ok ()"
    by (auto simp: check_tables_def and_then_eq_Ok)
  then show ?thesis unfolding loops tables_ok_def by blast
qed


section \<open>No read leaves the buffer\<close>

lemma check_program_not_Panic:
  assumes "sections_ok b 6" "listed program (draw_of b st) (count_field b 0) ps" "i < count_field b 0"
  shows "check_program (draw_of b st) i s \<noteq> Panic"
  using listed_unwrap[OF assms(2,3)] entry_zero_Ok(2)[OF assms(1) _ assms(3), of 4 8]
  by (auto simp: check_program_def Let_def outcome_simps range_end_not_Panic section_strides_def
      PROGRAM_SIZE_def)

lemma check_stream_not_Panic:
  assumes "sections_ok b 6" "listed stream (draw_of b st) (count_field b 1) ss" "i < count_field b 1"
  shows "check_stream (draw_of b st) i s \<noteq> Panic"
  using listed_unwrap[OF assms(2,3)] entry_zero_Ok(2)[OF assms(1) _ assms(3), of 32 40]
  by (auto simp: check_stream_def outcome_simps range_end_not_Panic section_strides_def STREAM_SIZE_def)

lemma check_attribute_not_Panic:
  assumes "listed stream (draw_of b st) (count_field b 1) ss"
    and "listed attribute (draw_of b st) (count_field b 2) as" "i < count_field b 2"
  shows "check_attribute (draw_of b st) i s \<noteq> Panic"
  using listed_unwrap[OF assms(2,3)] listed_unwrap[OF assms(1)]
  by (auto simp: check_attribute_def Let_def outcome_simps not_le)

lemma check_uniform_not_Panic:
  assumes "sections_ok b 6" "listed uniform (draw_of b st) (count_field b 3) us" "i < count_field b 3"
  shows "check_uniform (draw_of b st) i s \<noteq> Panic"
  using listed_unwrap[OF assms(2,3)] entry_zero_Ok(2)[OF assms(1) _ assms(3), of 40 48]
  by (auto simp: check_uniform_def check_uniform_range_def Let_def outcome_simps range_end_not_Panic
      section_strides_def UNIFORM_SIZE_def split: if_splits)

lemma loop_not_Panic:
  "(\<And>x s. x \<in> set xs \<Longrightarrow> f x s \<noteq> Panic) \<Longrightarrow> for_each f xs s \<noteq> Panic"
  by (rule for_each_not_Panic[where P = "\<lambda>_. True"]) auto

lemma earlier_not_Panic:
  assumes "\<And>j. j < i \<Longrightarrow> entry_unwrap get d j = Ok (xs ! j)"
  shows "for_each (\<lambda>j _. and_then (entry_unwrap get d j) (\<lambda>p. if Q p then Err e else Ok ()))
    [0..<i] () \<noteq> Panic"
  using assms by (intro loop_not_Panic) auto

lemma check_image_not_Panic:
  assumes "listed image_entry (draw_of b st) (count_field b 4) is" "i < count_field b 4"
  shows "check_image (draw_of b st) i s \<noteq> Panic"
proof -
  have get: "entry_unwrap image_entry (draw_of b st) j = Ok (is ! j)" if "j \<le> i" for j
    using listed_unwrap[OF assms(1), of j] assms(2) that by simp
  show ?thesis
    unfolding check_image_def get[OF order_refl] and_then.simps if_eq_Panic
    using earlier_not_Panic[OF get] by simp
qed

lemma check_target_not_Panic:
  assumes "listed target (draw_of b st) (count_field b 5) ts" "i < count_field b 5"
  shows "check_target (draw_of b st) i s \<noteq> Panic"
proof -
  have get: "entry_unwrap target (draw_of b st) j = Ok (ts ! j)" if "j \<le> i" for j
    using listed_unwrap[OF assms(1), of j] assms(2) that by simp
  show ?thesis
    unfolding check_target_def get[OF order_refl] and_then.simps if_eq_Panic
    using earlier_not_Panic[OF get] by simp
qed

lemma check_tables_not_Panic:
  assumes "sections_ok b 6"
  shows "check_tables (draw_of b st) \<noteq> Panic"
proof -
  let ?d = "draw_of b st"
  obtain t where t: "tables_of ?d t" using tables_exist[OF assms] by blast
  note lists = t[unfolded tables_of_def draw_of_simps sec_count_of]
  have "for_each (check_program ?d) [0..<count_field b 0] s \<noteq> Panic" for s
    using lists check_program_not_Panic[OF assms] by (intro loop_not_Panic) auto
  moreover have "for_each (check_stream ?d) [0..<count_field b 1] s \<noteq> Panic" for s
    using lists check_stream_not_Panic[OF assms] by (intro loop_not_Panic) auto
  moreover have "for_each (check_attribute ?d) [0..<count_field b 2] s \<noteq> Panic" for s
    using lists check_attribute_not_Panic by (intro loop_not_Panic) auto
  moreover have "for_each (check_uniform ?d) [0..<count_field b 3] s \<noteq> Panic" for s
    using lists check_uniform_not_Panic[OF assms] by (intro loop_not_Panic) auto
  moreover have "for_each (check_image ?d) [0..<count_field b 4] s \<noteq> Panic" for s
    using lists check_image_not_Panic by (intro loop_not_Panic) auto
  moreover have "for_each (check_target ?d) [0..<count_field b 5] s \<noteq> Panic" for s
    using lists check_target_not_Panic by (intro loop_not_Panic) auto
  ultimately show ?thesis
    unfolding check_tables_def and_then_eq_Panic draw_of_simps sec_count_of by blast
qed

lemma section_step_not_Panic:
  "HEADER_SIZE \<le> length b \<Longrightarrow> k < 6 \<Longrightarrow> section_step b k st \<noteq> Panic"
  by (auto simp: section_step_def u32_at_def read_le_Ok HEADER_SIZE_def outcome_simps)

end
