(* ===== verification/Draw_Fetch.thy ===== *)
theory Draw_Fetch
  imports Draw_Props
begin

text \<open>
  \<open>drivers/gpu/nvidia-gm20b/src/programmable_graphics.rs\<close>: the part of \<open>prepare\<close> that decides which vertices a
  draw fetches. It copies the selected indices into the private arena, takes the largest vertex they
  name, and compares what each vertex stream needs with the range the draw declared for it. The
  authority over buffers is the trait \<open>Authority\<close>, a parameter: it returns the bytes or the address of a
  range, or refuses. A failing \<open>try_reserve\<close> is left out; it returns an error before anything is changed.
\<close>

section \<open>The checks of the preparation\<close>

definition MAX_ARENA :: nat where "MAX_ARENA = 8 * 1024 * 1024"

datatype PrepareError = ArenaOverflow | ArenaBudget | IndexFormat | IndexOffset | IndexRange | IndexAuthority
  | SignedIndex | VertexOverflow | VertexFetch | Refused string

record Authority =
  buffer_bytes :: "Range \<Rightarrow> string + bytes"
  buffer_address :: "Range \<Rightarrow> string + u64"

fun granted :: "string + 'a \<Rightarrow> (PrepareError, 'a) outcome" where
  "granted (Inl e) = Err (Refused e)"
| "granted (Inr a) = Ok a"

text \<open>An accessor of the draw: reading it cannot fail, so a failure here would be a panic.\<close>

fun settled :: "(Error, 'a) outcome \<Rightarrow> ('e, 'a) outcome" where
  "settled (Ok a) = Ok a"
| "settled (Err e) = Panic"
| "settled Panic = Panic"

text \<open>\<open>Builder::alloc\<close>\<close>

definition alloc :: "bytes \<Rightarrow> bytes \<Rightarrow> nat \<Rightarrow> (PrepareError, nat \<times> bytes) outcome" where
  "alloc arena b alignment =
     and_then (ok_or (usize_add (length arena) (alignment - 1)) ArenaOverflow) (\<lambda>n.
     let start = unat ((word_of_nat n :: u64) AND NOT (word_of_nat (alignment - 1))) in
     and_then (ok_or (usize_add start (length b)) ArenaOverflow) (\<lambda>end'.
     if MAX_ARENA < end' then Err ArenaBudget
     else if end' < length arena then Panic
     else Ok (start, splice (arena @ replicate (end' - length arena) 0) start b)))"

text \<open>One turn of the loop of \<open>indexed_bounds\<close>: the smallest and the largest vertex so far.\<close>

definition index_turn :: "nat \<Rightarrow> u32 \<Rightarrow> bytes \<Rightarrow> nat \<Rightarrow> u32 \<times> u32 \<Rightarrow> (PrepareError, u32 \<times> u32) outcome" where
  "index_turn width base b i mm =
     and_then (subslice b (i * width) width) (\<lambda>v.
     let resolved = uint (from_le_bytes v :: u32) + sint base in
     if resolved < 0 \<or> 2 ^ 32 \<le> resolved then Err SignedIndex
     else Ok (min (fst mm) (word_of_int resolved), max (snd mm) (word_of_int resolved)))"

definition indexed_bounds :: "bytes \<Rightarrow> u32 \<Rightarrow> u32 \<Rightarrow> u32 \<Rightarrow> u32 \<Rightarrow> (PrepareError, u32 \<times> u32) outcome" where
  "indexed_bounds b format first count base =
     and_then (if format = 1 then Ok 2 else if format = 2 then Ok 4 else Err IndexFormat) (\<lambda>width.
     and_then (ok_or (usize_mul (unat first) width) IndexOffset) (\<lambda>start.
     and_then (ok_or (case usize_add (unat first) (unat count) of None \<Rightarrow> None | Some n \<Rightarrow> usize_mul n width)
        IndexRange) (\<lambda>end'.
     if end' < start \<or> length b < end' then Err IndexAuthority else
     let view = slice b start (end' - start) in
     for_each (index_turn width base view) [0..<length view div width] (- 1, 0))))"

text \<open>\<open>a + b - 1\<close> on \<open>u32\<close>, which panics when it wraps.\<close>

definition last_of :: "u32 \<Rightarrow> u32 \<Rightarrow> (PrepareError, u32) outcome" where
  "last_of a b = and_then (unwrap (checked_add a b)) (\<lambda>n. unwrap (checked_sub n 1))"

text \<open>The indices: where their private copy lies in the arena, and the last vertex of the draw.\<close>

definition select_indices ::
    "Authority \<Rightarrow> State \<Rightarrow> bytes \<Rightarrow> (PrepareError, (nat \<times> nat) option \<times> u32 \<times> bytes) outcome" where
  "select_indices au st arena =
     (if index_format st \<noteq> 0 then
        and_then (granted (buffer_bytes au (index st))) (\<lambda>b.
        and_then (indexed_bounds b (index_format st) (st_first st) (st_count st) (base_vertex st)) (\<lambda>(_, last').
        let width = (if index_format st = 1 then 2 else 4) in
        and_then (unwrap (usize_mul (unat (st_first st)) width)) (\<lambda>start.
        and_then (unwrap (usize_mul (unat (st_count st)) width)) (\<lambda>size'.
        and_then (subslice b start size') (\<lambda>view.
        and_then (alloc arena view 256) (\<lambda>(offset, arena').
        Ok (Some (offset, size'), last', arena')))))))
      else
        and_then (last_of (st_first st) (st_count st)) (\<lambda>last'. Ok (None, last', arena)))"

definition check_fetch :: "Authority \<Rightarrow> Draw \<Rightarrow> u32 \<Rightarrow> nat \<Rightarrow> unit \<Rightarrow> (PrepareError, unit) outcome" where
  "check_fetch au d last_vertex i _ =
     and_then (settled (entry_unwrap stream d i)) (\<lambda>s.
     and_then (if s_divisor s = 0 then Ok last_vertex
               else last_of (first_instance (state d)) (st_instances (state d))) (\<lambda>last'.
     and_then (ok_or (case checked_add (u64_from last') 1 of
          None \<Rightarrow> None | Some n \<Rightarrow> checked_mul n (u64_from (s_stride s))) VertexOverflow) (\<lambda>required.
     if rg_size (s_range s) < required then Err VertexFetch
     else and_then (granted (buffer_address au (s_range s))) (\<lambda>_. Ok ()))))"

definition prepare_fetches :: "Authority \<Rightarrow> Draw \<Rightarrow> bytes \<Rightarrow> (PrepareError, (nat \<times> nat) option \<times> bytes) outcome" where
  "prepare_fetches au d arena =
     and_then (select_indices au (state d) arena) (\<lambda>(indices, last_vertex, arena').
     and_then (for_each (check_fetch au d last_vertex) [0..<sec_count (streams d)] ()) (\<lambda>_.
     Ok (indices, arena')))"

section \<open>What is fetched\<close>

text \<open>
  The elements of a stream that the draw reads: those of its instances when the stream advances per
  instance, else its consecutive vertices, else the vertices its indices name: the private copy of each
  index plus the signed base vertex.
\<close>

definition fetched :: "State \<Rightarrow> (nat \<times> nat) option \<Rightarrow> bytes \<Rightarrow> Stream \<Rightarrow> int list" where
  "fetched st indices arena s =
     (if s_divisor s \<noteq> 0 then map (\<lambda>k. int (unat (first_instance st) + k)) [0..<unat (st_instances st)]
      else case indices of
        None \<Rightarrow> map (\<lambda>k. int (unat (st_first st) + k)) [0..<unat (st_count st)]
      | Some (offset, _) \<Rightarrow>
          map (\<lambda>k. uint (from_le_bytes (slice arena (offset + k * index_width st) (index_width st)) :: u32)
                 + sint (base_vertex st)) [0..<unat (st_count st)])"

section \<open>Lemmas\<close>

lemma settled_Ok [outcome_simps]: "settled r = Ok a \<longleftrightarrow> r = Ok a"
  by (cases r) auto

lemma granted_simps [outcome_simps]: "granted x = Ok a \<longleftrightarrow> x = Inr a" "granted x \<noteq> Panic"
  by (cases x; simp)+

lemma last_of_Ok:
  assumes "unat a + unat b < 2 ^ 32" "0 < unat b"
  shows "\<exists>n. last_of a b = Ok n \<and> unat n = unat a + unat b - 1"
proof -
  have "checked_add a b = Some (a + b)" "unat (a + b) = unat a + unat b"
    using checked_add_nat[of a "unat a" b "unat b"] assms by auto
  moreover from this assms have "checked_sub (a + b) 1 = Some (a + b - 1)" "unat (a + b - 1) = unat (a + b) - 1"
    by (auto simp: checked_sub_def word_le_nat_alt unat_sub)
  ultimately show ?thesis by (simp add: last_of_def)
qed

lemma alloc_start:
  assumes "length arena + 255 < 2 ^ 64"
  shows "unat ((word_of_nat (length arena + 255) :: u64) AND NOT 255) = round_up 256 (length arena)"
proof -
  have "(255 :: u64) = mask 8" by (simp add: mask_eq_exp_minus_1)
  moreover have "unat (word_of_nat (length arena) :: u64) + (2 ^ 8 - 1) < 2 ^ 64"
    using assms by (simp add: unat_of_nat)
  ultimately show ?thesis
    using assms unat_align_mask[of "word_of_nat (length arena) :: u64" 8] by (simp add: unat_of_nat)
qed

text \<open>An allocation keeps the arena, adds zeros up to the alignment, and then the bytes.\<close>

lemma alloc_Ok:
  assumes "alloc arena b 256 = Ok (o', arena')"
  shows "length arena \<le> o'" "256 dvd o'" "o' + length b = length arena'" "length arena' \<le> MAX_ARENA"
    and "take (length arena) arena' = arena" "slice arena' o' (length b) = b"
proof -
  have ok: "length arena + 255 < 2 ^ 64" "o' = unat ((word_of_nat (length arena + 255) :: u64) AND NOT 255)"
    "o' + length b \<le> MAX_ARENA" "length arena \<le> o' + length b"
    "arena' = splice (arena @ replicate (o' + length b - length arena) 0) o' b"
    using assms by (auto simp: alloc_def usize_add_def outcome_simps Let_def split: if_splits)
  have "o' = round_up 256 (length arena)" using alloc_start[OF ok(1)] ok(2) by simp
  then show o': "length arena \<le> o'" "256 dvd o'" by (simp_all add: round_up_ge)
  show "o' + length b = length arena'" "length arena' \<le> MAX_ARENA"
    using ok(3,4) by (simp_all add: ok(5))
  show "take (length arena) arena' = arena"
    using o'(1) by (simp add: ok(5) splice_def)
  show "slice arena' o' (length b) = b"
    using ok(4) by (simp add: ok(5) slice_splice_same)
qed

lemma alloc_not_Panic: "alloc arena b 256 \<noteq> Panic"
  using alloc_start[of arena] round_up_ge[of 256 "length arena"]
  by (auto simp: alloc_def usize_add_def outcome_simps Let_def)

text \<open>Every vertex the indices name is representable and at most the bound returned.\<close>

definition named :: "nat \<Rightarrow> bytes \<Rightarrow> u32 \<Rightarrow> nat \<Rightarrow> int" where
  "named width b base k = uint (from_le_bytes (slice b (k * width) width) :: u32) + sint base"

lemma index_turns:
  assumes "for_each (index_turn width base b) [0..<n] mm = Ok mm'" "k < n"
  shows "0 \<le> named width b base k \<and> named width b base k \<le> uint (snd mm')"
proof -
  have "\<forall>k \<in> set [0..<n]. 0 \<le> named width b base k \<and> named width b base k \<le> uint (snd mm')"
  proof (rule for_each_invariant[OF assms(1), where I = "\<lambda>ks mm. \<forall>k \<in> set ks.
      0 \<le> named width b base k \<and> named width b base k \<le> uint (snd mm)"], goal_cases)
    case (2 ks k zs mm mm')
    let ?v = "named width b base k"
    from 2(3) have v: "0 \<le> ?v" "?v < 2 ^ 32" "mm' = (min (fst mm) (word_of_int ?v), max (snd mm) (word_of_int ?v))"
      by (auto simp: index_turn_def subslice_def named_def Let_def not_less not_le outcome_simps split: if_splits)
    have "uint (word_of_int ?v :: u32) = ?v" using v(1,2) by (simp add: word_of_int_inverse)
    moreover have "uint (snd mm) \<le> uint (snd mm')" "uint (word_of_int ?v :: u32) \<le> uint (snd mm')"
      by (simp_all add: v(3) flip: word_le_def)
    ultimately show ?case using 2(2) v(1) by fastforce
  qed simp
  then show ?thesis using assms(2) by simp
qed

lemma indexed_bounds_Ok:
  assumes "indexed_bounds b format first count base = Ok (lo, hi)"
  defines "w \<equiv> if format = 1 then 2 else 4"
  shows "(unat first + unat count) * w \<le> length b" "unat first * w < 2 ^ 64" "(unat first + unat count) * w < 2 ^ 64"
    and "k < unat count \<Longrightarrow> named w (slice b (unat first * w) (unat count * w)) base k \<in> {0..uint hi}"
proof -
  have ok: "unat first * w < 2 ^ 64" "(unat first + unat count) * w < 2 ^ 64" "(unat first + unat count) * w \<le> length b"
    "for_each (index_turn w base (slice b (unat first * w) (unat count * w))) [0..<unat count] (- 1, 0) = Ok (lo, hi)"
    using assms(1) unfolding indexed_bounds_def Let_def
    by (auto simp: w_def distrib_right outcome_simps usize_mul_def usize_add_def not_less not_le split: option.splits if_splits)
  show "(unat first + unat count) * w \<le> length b" "unat first * w < 2 ^ 64" "(unat first + unat count) * w < 2 ^ 64"
    using ok by auto
  show "named w (slice b (unat first * w) (unat count * w)) base k \<in> {0..uint hi}" if "k < unat count"
    using index_turns[OF ok(4) that] by simp
qed

lemma indexed_bounds_not_Panic: "indexed_bounds b format first count base \<noteq> Panic"
proof -
  have "for_each (index_turn w base v) [0..<length v div w] mm \<noteq> Panic" for w v mm
  proof (rule for_each_not_Panic[where P = "\<lambda>_. True"])
    fix i mm assume "i \<in> set [0..<length v div w]"
    then have "Suc i * w \<le> length v div w * w" by (intro mult_le_mono1) simp
    also have "\<dots> \<le> length v" by simp
    finally show "index_turn w base v i mm \<noteq> Panic"
      by (simp add: index_turn_def subslice_def outcome_simps Let_def add.commute)
  qed auto
  then show ?thesis
    unfolding indexed_bounds_def Let_def by (auto simp: outcome_simps)
qed

text \<open>
  The private copy of the indices: aligned, behind the arena as it was, with the bytes of exactly the
  selected indices of the declared range.
\<close>

definition index_copied :: "Authority \<Rightarrow> State \<Rightarrow> bytes \<Rightarrow> (nat \<times> nat) option \<Rightarrow> bytes \<Rightarrow> bool" where
  "index_copied au st arena indices arena' \<longleftrightarrow>
     (case indices of
        None \<Rightarrow> index_format st = 0 \<and> arena' = arena
      | Some (offset, n) \<Rightarrow>
          index_format st \<noteq> 0 \<and> n = unat (st_count st) * index_width st \<and> 256 dvd offset
          \<and> length arena \<le> offset \<and> offset + n = length arena' \<and> take (length arena) arena' = arena
          \<and> (\<exists>b. buffer_bytes au (index st) = Inr b
               \<and> unat (st_first st) * index_width st + n \<le> length b
               \<and> slice arena' offset n = slice b (unat (st_first st) * index_width st) n))"

lemma slice_slice: "j + m \<le> n \<Longrightarrow> slice (slice b i n) j m = slice b (i + j) m"
  by (simp add: slice_def drop_take take_take min_def ac_simps)

lemma select_indices_Ok:
  assumes "select_indices au st arena = Ok (indices, last', arena')"
    and "unat (st_first st) + unat (st_count st) < 2 ^ 32" "0 < unat (st_count st)"
  shows "index_copied au st arena indices arena'"
    and "s_divisor s = 0 \<Longrightarrow> v \<in> set (fetched st indices arena' s) \<Longrightarrow> 0 \<le> v \<and> v \<le> uint last'"
proof -
  have "index_copied au st arena indices arena' \<and>
    (s_divisor s = 0 \<longrightarrow> (\<forall>v \<in> set (fetched st indices arena' s). 0 \<le> v \<and> v \<le> uint last'))"
  proof (cases "index_format st = 0")
    case True
    then have r: "indices = None" "arena' = arena" "unat last' = unat (st_first st) + unat (st_count st) - 1"
      using assms last_of_Ok[OF assms(2,3)] by (auto simp: select_indices_def outcome_simps)
    have "uint last' = int (unat last')" by (rule uint_nat)
    then have "int (unat (st_first st) + k) \<le> uint last'" if "k < unat (st_count st)" for k
      using that r(3) by linarith
    then show ?thesis using True by (auto simp: r(1,2) index_copied_def fetched_def)
  next
    case False
    let ?w = "index_width st" and ?first = "unat (st_first st)" and ?count = "unat (st_count st)"
    obtain b lo where b: "buffer_bytes au (index st) = Inr b"
      "indexed_bounds b (index_format st) (st_first st) (st_count st) (base_vertex st) = Ok (lo, last')"
      and view: "?first * ?w + ?count * ?w \<le> length b"
      and "\<exists>o'. indices = Some (o', ?count * ?w) \<and> alloc arena (slice b (?first * ?w) (?count * ?w)) 256 = Ok (o', arena')"
      using assms(1) False
      by (auto simp: select_indices_def outcome_simps usize_mul_def subslice_def index_width_def Let_def split: if_splits)
    then obtain o' where o': "indices = Some (o', ?count * ?w)"
      "alloc arena (slice b (?first * ?w) (?count * ?w)) 256 = Ok (o', arena')" by blast
    note copy = alloc_Ok[OF o'(2), unfolded length_slice[OF view]]
    have "uint (from_le_bytes (slice arena' (o' + k * ?w) ?w) :: u32) + sint (base_vertex st) \<in> {0..uint last'}"
      if "k < ?count" for k
    proof -
      have "k * ?w + ?w \<le> ?count * ?w"
        using that mult_le_mono1[of "Suc k" ?count ?w] by (simp add: add.commute)
      then have "slice arena' (o' + k * ?w) ?w = slice (slice b (?first * ?w) (?count * ?w)) (k * ?w) ?w"
        using slice_slice[of "k * ?w" ?w "?count * ?w" arena' o'] copy(6) by simp
      then show ?thesis
        using indexed_bounds_Ok(4)[OF b(2) that] by (simp add: named_def index_width_def)
    qed
    then show ?thesis
      using False copy b(1) view by (auto simp: o'(1) index_copied_def fetched_def)
  qed
  then show "index_copied au st arena indices arena'"
    and "s_divisor s = 0 \<Longrightarrow> v \<in> set (fetched st indices arena' s) \<Longrightarrow> 0 \<le> v \<and> v \<le> uint last'"
    by blast+
qed

lemma select_indices_not_Panic:
  assumes "unat (st_first st) + unat (st_count st) < 2 ^ 32" "0 < unat (st_count st)"
  shows "select_indices au st arena \<noteq> Panic"
proof (cases "index_format st = 0")
  case True
  then show ?thesis using last_of_Ok[OF assms] by (auto simp: select_indices_def outcome_simps)
next
  case False
  have "unwrap (usize_mul (unat (st_first st)) w) = Ok (unat (st_first st) * w)"
    "unwrap (usize_mul (unat (st_count st)) w) = Ok (unat (st_count st) * w)" if "w \<le> 4" for w
  proof -
    have "n * w < 2 ^ 64" if "n < 2 ^ 32" for n :: nat
    proof -
      have "n * w \<le> n * 4" using \<open>w \<le> 4\<close> by (intro mult_le_mono2)
      moreover have "n * 4 < 2 ^ 64" using that by simp
      ultimately show ?thesis by (rule le_less_trans)
    qed
    moreover have "unat (st_first st) < 2 ^ 32" "unat (st_count st) < 2 ^ 32" using assms(1) by linarith+
    ultimately show "unwrap (usize_mul (unat (st_first st)) w) = Ok (unat (st_first st) * w)"
      "unwrap (usize_mul (unat (st_count st)) w) = Ok (unat (st_count st) * w)"
      by (auto simp: usize_mul_def)
  qed
  then show ?thesis
    using False alloc_not_Panic[of arena] indexed_bounds_not_Panic
    by (auto simp: select_indices_def outcome_simps subslice_def distrib_right Let_def dest!: indexed_bounds_Ok(1) split: if_splits)
qed

text \<open>What the check of a stream shows of the elements it was made for.\<close>

lemma check_fetch_Ok:
  assumes "check_fetch au d last' i () = Ok ()" "stream d i = Ok (Some s)"
  defines "st \<equiv> state d"
  assumes "unat (first_instance st) + unat (st_instances st) < 2 ^ 32" "0 < unat (st_instances st)"
    and "v \<in> set (fetched st indices arena s)" "s_divisor s = 0 \<Longrightarrow> 0 \<le> v \<and> v \<le> uint last'"
  shows "0 \<le> v \<and> (v + 1) * uint (s_stride s) \<le> uint (rg_size (s_range s))"
proof -
  obtain n where n: "last_of (first_instance st) (st_instances st) = Ok n"
    "unat n = unat (first_instance st) + unat (st_instances st) - 1"
    using last_of_Ok[OF assms(4,5)] by auto
  let ?last = "if s_divisor s = 0 then last' else n"
  have "(unat ?last + 1) * unat (s_stride s) \<le> unat (rg_size (s_range s))"
    using assms(1,2) n(1)
    by (auto simp: check_fetch_def st_def entry_unwrap_def outcome_simps checked_simps not_less word_le_nat_alt
        unat_mult_lt unat_add_lt split: if_splits option.splits)
  then have "int ((unat ?last + 1) * unat (s_stride s)) \<le> int (unat (rg_size (s_range s)))" by (rule of_nat_mono)
  then have need: "(uint ?last + 1) * uint (s_stride s) \<le> uint (rg_size (s_range s))"
    by (simp add: distrib_right add.commute)
  have "int (unat (first_instance st) + k) \<le> uint n" if "k < unat (st_instances st)" for k
    using that n(2) uint_nat[of n] by linarith
  then have "0 \<le> v \<and> v \<le> uint ?last"
    using assms(6,7) by (cases "s_divisor s = 0") (auto simp: fetched_def)
  then have v: "0 \<le> v" "v \<le> uint ?last" by auto
  then have "(v + 1) * uint (s_stride s) \<le> (uint ?last + 1) * uint (s_stride s)" by (intro mult_right_mono) auto
  then show ?thesis using need v(1) by linarith
qed

lemma prepare_fetches_Ok:
  assumes "prepare_fetches au d arena = Ok (indices, arena')"
  defines "st \<equiv> state d"
  assumes "unat (st_first st) + unat (st_count st) < 2 ^ 32" "0 < unat (st_count st)"
    and "unat (first_instance st) + unat (st_instances st) < 2 ^ 32" "0 < unat (st_instances st)"
  shows "index_copied au st arena indices arena'"
    and "stream d i = Ok (Some s) \<Longrightarrow> i < sec_count (streams d) \<Longrightarrow> v \<in> set (fetched st indices arena' s)
      \<Longrightarrow> 0 \<le> v \<and> (v + 1) * uint (s_stride s) \<le> uint (rg_size (s_range s))"
proof -
  obtain last' where l: "select_indices au st arena = Ok (indices, last', arena')"
    "for_each (check_fetch au d last') [0..<sec_count (streams d)] () = Ok ()"
    using assms(1) by (auto simp: prepare_fetches_def st_def outcome_simps)
  note sel = select_indices_Ok[OF l(1) assms(3,4)]
  show "index_copied au st arena indices arena'" by (rule sel(1))
  assume "stream d i = Ok (Some s)" "i < sec_count (streams d)" "v \<in> set (fetched st indices arena' s)"
  then show "0 \<le> v \<and> (v + 1) * uint (s_stride s) \<le> uint (rg_size (s_range s))"
    using l(2) check_fetch_Ok[of au d last' i s, folded st_def, OF _ _ assms(5,6)] sel(2)
    by (fastforce simp: for_each_unit_Ok)
qed

lemma prepare_fetches_not_Panic:
  fixes d :: Draw
  defines "st \<equiv> state d"
  assumes "unat (st_first st) + unat (st_count st) < 2 ^ 32" "0 < unat (st_count st)"
    and "unat (first_instance st) + unat (st_instances st) < 2 ^ 32" "0 < unat (st_instances st)"
    and "\<And>i. i < sec_count (streams d) \<Longrightarrow> \<exists>s. stream d i = Ok (Some s)"
  shows "prepare_fetches au d arena \<noteq> Panic"
proof -
  have "check_fetch au d last' i u \<noteq> Panic" if "i < sec_count (streams d)" for last' i u
    using assms(6)[OF that] last_of_Ok[OF assms(4,5)]
    by (auto simp: check_fetch_def st_def entry_unwrap_def outcome_simps)
  then have "for_each (check_fetch au d last') [0..<sec_count (streams d)] () \<noteq> Panic" for last'
    by (intro for_each_not_Panic[where P = "\<lambda>_. True"]) auto
  then show ?thesis
    using select_indices_not_Panic[OF assms(2,3)]
    by (auto simp: prepare_fetches_def st_def outcome_simps)
qed

end
