(* ===== verification/Draw_Claims.thy ===== *)
theory Draw_Claims
  imports Draw_Fetch
begin

text \<open>
  The properties of draw records: \<open>parse\<close> accepts exactly the records of a declarative
  specification and never panics; what it accepts names no slot twice, and, once the vertex ranges were
  checked by the preparation, fetches no byte outside the declared ranges.
\<close>

section \<open>The whole record\<close>

definition header_ok :: "bytes \<Rightarrow> bool" where
  "header_ok b \<longleftrightarrow>
     HEADER_SIZE \<le> length b
     \<and> from_le_bytes (slice b 0 4) = MAGIC
     \<and> from_le_bytes (slice b 4 4) = VERSION
     \<and> unat (from_le_bytes (slice b 8 4) :: u32) = length b
     \<and> \<not> any_nonzero (slice b 12 4) \<and> \<not> any_nonzero (slice b 40 4) \<and> \<not> any_nonzero (slice b 208 48)"

definition draw_ok :: "bytes \<Rightarrow> State \<Rightarrow> Tables \<Rightarrow> bool" where
  "draw_ok b st t \<longleftrightarrow>
     header_ok b \<and> sections_ok b 6
     \<and> unat (from_le_bytes (slice b 120 4) :: u32) = section_start b 6
     \<and> section_start b 6 + unat (from_le_bytes (slice b 124 4) :: u32) = length b
     \<and> read_state b = Ok st \<and> state_ok st \<and> index_ok st
     \<and> tables_of (draw_of b st) t \<and> tables_ok (length b - section_start b 6) t
     \<and> length (tb_programs t) = 2
     \<and> (tb_targets t = [] \<longrightarrow> depth_token st \<noteq> 0)
     \<and> reserved_zero b 0 4 8 \<and> reserved_zero b 1 32 40 \<and> reserved_zero b 3 40 48"

lemma check_header_Ok: "check_header b = Ok u \<longleftrightarrow> header_ok b"
  by (auto simp: check_header_def header_ok_def u32_at_def read_le_Ok zero_window_def subslice_Ok
      zero_bytes_def HEADER_SIZE_def outcome_simps split: if_splits)

lemma check_header_not_Panic: "check_header b \<noteq> Panic"
  by (auto simp: check_header_def u32_at_def read_le_Ok zero_window_def subslice_Ok
      zero_bytes_def HEADER_SIZE_def outcome_simps)

lemma header_length: "header_ok b \<Longrightarrow> HEADER_SIZE \<le> length b \<and> length b < 2 ^ 32"
  using unat_u32_less[of "from_le_bytes (slice b 8 4)"] by (auto simp: header_ok_def)

lemma sections_start: "sections_ok b 6 \<Longrightarrow> section_start b 6 \<le> length b"
proof -
  assume "sections_ok b 6"
  then have "(5 :: nat) < 6 \<Longrightarrow> section_start b (Suc 5) \<le> length b" unfolding sections_ok_def by blast
  then show ?thesis by simp
qed

lemma section_lists:
  "map (section_of b) [0..<6] = [section_of b 0, section_of b 1, section_of b 2, section_of b 3,
    section_of b 4, section_of b 5]"
  by (simp add: upt_rec eval_nat_numeral)

lemma read_draw_Ok:
  assumes "header_ok b"
  shows "read_draw b = Ok d \<longleftrightarrow>
    sections_ok b 6
    \<and> unat (from_le_bytes (slice b 120 4) :: u32) = section_start b 6
    \<and> section_start b 6 + unat (from_le_bytes (slice b 124 4) :: u32) = length b
    \<and> (\<exists>st. read_state b = Ok st \<and> state_ok st \<and> index_ok st \<and> d = draw_of b st)"
proof -
  note len = header_length[OF assms]
  obtain st where st: "read_state b = Ok st" "length (viewport st) = 6"
    using read_state_total len by blast
  have reads: "u32_at b 120 = Ok (from_le_bytes (slice b 120 4))"
    "u32_at b 124 = Ok (from_le_bytes (slice b 124 4))"
    using len by (simp_all add: u32_at_def read_le_Ok HEADER_SIZE_def)
  show ?thesis
  proof (cases "sections_ok b 6")
    case False
    then show ?thesis
      using len by (simp add: read_draw_def and_then_eq_Ok sections_Ok)
  next
    case True
    have start: "section_start b 6 \<le> length b" by (rule sections_start[OF True])
    have "for_each (section_step b) [0..<6] (HEADER_SIZE, [])
        = Ok (section_start b 6, map (section_of b) [0..<6])"
      using len True by (subst sections_Ok) auto
    moreover have "slice b (section_start b 6) (length b - section_start b 6) = drop (section_start b 6) b"
      by (simp add: slice_def)
    moreover have "usize_add (section_start b 6) n = Some (length b) \<longleftrightarrow>
        section_start b 6 + n = length b" for n
      using len by (auto simp: usize_add_def)
    ultimately show ?thesis
      using True start st state_invalid_iff[OF st(2)] check_index_Ok[of st]
      by (auto simp: read_draw_def reads section_lists draw_of_def subslice_Ok and_then_eq_Ok
          if_eq_Ok simp del: upt_rec_numeral)
  qed
qed

lemma draw_parse_Ok: "parse b = Ok d \<longleftrightarrow> (\<exists>st t. draw_ok b st t \<and> d = draw_of b st)"
proof (cases "header_ok b")
  case False
  then have "check_header b \<noteq> Ok u" for u by (simp add: check_header_Ok)
  then have "parse b \<noteq> Ok d" by (auto simp: parse_def and_then_eq_Ok)
  with False show ?thesis by (auto simp: draw_ok_def)
next
  case True
  have run: "check_header b = Ok ()" using True by (simp add: check_header_Ok)
  have lens: "count_field b 0 = length (tb_programs t)" "count_field b 5 = length (tb_targets t)"
    if "tables_of (draw_of b st) t" for st t
    using that by (simp_all add: tables_of_def listed_def)
  have "parse b = Ok d \<longleftrightarrow> read_draw b = Ok d \<and> sec_count (programs d) = 2
      \<and> (sec_count (targets d) = 0 \<longrightarrow> depth_token (state d) \<noteq> 0) \<and> check_tables d = Ok ()"
    by (auto simp: parse_def run and_then_eq_Ok if_eq_Ok)
  also have "\<dots> \<longleftrightarrow> (\<exists>st t. draw_ok b st t \<and> d = draw_of b st)"
  proof
    assume *: "read_draw b = Ok d \<and> sec_count (programs d) = 2
      \<and> (sec_count (targets d) = 0 \<longrightarrow> depth_token (state d) \<noteq> 0) \<and> check_tables d = Ok ()"
    then obtain st where st: "sections_ok b 6" "read_state b = Ok st" "state_ok st" "index_ok st"
      "d = draw_of b st" "unat (from_le_bytes (slice b 120 4) :: u32) = section_start b 6"
      "section_start b 6 + unat (from_le_bytes (slice b 124 4) :: u32) = length b"
      by (auto simp: read_draw_Ok[OF True])
    obtain t where t: "tables_of (draw_of b st) t" using tables_exist[OF st(1)] by blast
    have "draw_ok b st t"
      using * st t True check_tables_Ok[OF st(1) t] lens[OF t] by (auto simp: draw_ok_def)
    with st(5) show "\<exists>st t. draw_ok b st t \<and> d = draw_of b st" by blast
  next
    assume "\<exists>st t. draw_ok b st t \<and> d = draw_of b st"
    then obtain st t where ok: "draw_ok b st t" and d: "d = draw_of b st" by blast
    then have t: "sections_ok b 6" "tables_of (draw_of b st) t" by (simp_all add: draw_ok_def)
    have "read_draw b = Ok d" using ok d by (auto simp: read_draw_Ok[OF True] draw_ok_def)
    then show "read_draw b = Ok d \<and> sec_count (programs d) = 2
      \<and> (sec_count (targets d) = 0 \<longrightarrow> depth_token (state d) \<noteq> 0) \<and> check_tables d = Ok ()"
      using ok d check_tables_Ok[OF t] lens[OF t(2)] by (auto simp: draw_ok_def)
  qed
  finally show ?thesis .
qed

lemma read_draw_not_Panic: "header_ok b \<Longrightarrow> read_draw b \<noteq> Panic"
proof -
  assume "header_ok b"
  note len = header_length[OF this]
  obtain st where st: "read_state b = Ok st" using read_state_total len by blast
  have loop: "for_each (section_step b) [0..<6] (HEADER_SIZE, []) \<noteq> Panic"
    using len section_step_not_Panic by (intro loop_not_Panic) auto
  have "check_index st \<noteq> Panic"
    by (auto simp: check_index_def Let_def outcome_simps range_end_not_Panic split: if_splits)
  moreover have "u32_at b 120 \<noteq> Panic" "u32_at b 124 \<noteq> Panic"
    using len by (simp_all add: u32_at_def read_le_Ok HEADER_SIZE_def)
  moreover have "subslice b (unat x) (length b - unat x) \<noteq> Panic"
    if "unat x = c" "usize_add c n = Some (length b)" for x :: u32 and c n
    using that by (auto simp: subslice_def usize_add_def split: if_splits)
  ultimately show ?thesis
    unfolding read_draw_def and_then_eq_Panic
    using loop st by (auto simp: outcome_simps split: if_splits)
qed

lemma draw_parse_not_Panic: "parse b \<noteq> Panic"
proof
  assume "parse b = Panic"
  then obtain d where d: "header_ok b" "read_draw b = Ok d" "check_tables d = Panic"
    using check_header_not_Panic[of b] read_draw_not_Panic[of b]
    by (auto simp: parse_def and_then_eq_Panic if_eq_Panic check_header_Ok)
  then show False
    using check_tables_not_Panic by (auto simp: read_draw_Ok)
qed


section \<open>A concrete draw\<close>

text \<open>
  An indexed triangle with one vertex stream of two attributes, a uniform in the inline data, an
  image and a colour target, as the words of its record.
\<close>

definition draw_words :: "u32 list" where
  "draw_words =
     [MAGIC, VERSION, 568, 0, 0, 3, 1, 0, 0, 0, 0, 1, 7, 0, 0, 0, 6, 0, 2, 1, 2, 1, 1, 1,
      256, 320, 360, 392, 440, 504, 552, 16, 0, 0, 0x41800000, 0x41800000, 0, 0x3f800000,
      0, 0, 16, 16, 0, 0, 0, 0, 0, 0, 0, 0, 0, 0, 0, 0, 0, 0, 0, 0, 0, 0, 0, 0, 0, 0]
     @ [0, 0, 1, 0, 0, 0, 512, 0] @ [4, 0, 2, 0, 0, 0, 512, 0]
     @ [5, 0, 0, 0, 96, 0, 32, 0, 0, 0]
     @ [0, 0, 0, 2] @ [1, 0, 16, 3]
     @ [4, 0, 0, 0, 0, 0, 0, 0, 0, 16, 0, 0]
     @ [9, 0, 0, 1, 0, 1, 0, 0, 0, 0, 0, 0, 0, 0, 4, 0]
     @ [3, 0, 0, 0, 0, 15, 0, 0, 0, 0, 0, 0]
     @ [0x3f800000, 0, 0, 0x3f800000]"

definition words_bytes :: "u32 list \<Rightarrow> bytes" where
  "words_bytes ws = concat (map to_le_bytes ws)"

definition sample_draw :: bytes where
  "sample_draw = words_bytes draw_words"

lemma length_words_bytes: "length (words_bytes ws) = 4 * length ws"
  by (induction ws) (simp_all add: words_bytes_def)

lemma drop_words_bytes: "drop (4 * i) (words_bytes ws) = words_bytes (drop i ws)"
proof (induction i arbitrary: ws)
  case (Suc i)
  then show ?case by (cases ws) (auto simp: words_bytes_def)
qed simp

lemma take_words_bytes: "take (4 * i) (words_bytes ws) = words_bytes (take i ws)"
proof (induction i arbitrary: ws)
  case 0
  then show ?case by (simp add: words_bytes_def)
next
  case (Suc i)
  then show ?case by (cases ws) (auto simp: words_bytes_def)
qed

lemma slice_words_bytes: "slice (words_bytes ws) (4 * i) (4 * n) = words_bytes (slice ws i n)"
  by (simp add: slice_def drop_words_bytes take_words_bytes)

lemma le_nat_append: "le_nat (xs @ ys) = le_nat xs + 256 ^ length xs * le_nat ys"
  by (induction xs) auto

lemma read_word:
  assumes "i + 4 \<le> length (words_bytes ws)" "4 dvd i"
  shows "(from_le_bytes (slice (words_bytes ws) i 4) :: u32) = ws ! (i div 4)"
proof -
  obtain k where i: "i = 4 * k" using assms(2) by blast
  then have "k < length ws" using assms(1) by (simp add: length_words_bytes)
  then have "slice ws k 1 = [ws ! k]" by (simp add: slice_def take_Suc_conv_app_nth Cons_nth_drop_Suc[symmetric])
  moreover have "slice (words_bytes ws) i 4 = words_bytes (slice ws k 1)"
    using slice_words_bytes[of ws k 1] by (simp add: i)
  ultimately show ?thesis by (simp add: i words_bytes_def from_le_to_le[where n = 4])
qed


lemma read_words:
  assumes "i + 8 \<le> length (words_bytes ws)" "4 dvd i"
  shows "(from_le_bytes (slice (words_bytes ws) i 8) :: u64) =
    word_of_nat (unat (ws ! (i div 4)) + 2 ^ 32 * unat (ws ! (i div 4 + 1)))"
proof -
  obtain k where i: "i = 4 * k" using assms(2) by blast
  then have k: "k + 1 < length ws" using assms(1) by (simp add: length_words_bytes)
  then have "slice ws k 2 = [ws ! k, ws ! (k + 1)]"
    by (simp add: slice_def take_Suc_conv_app_nth eval_nat_numeral Cons_nth_drop_Suc[symmetric])
  moreover have "slice (words_bytes ws) i 8 = words_bytes (slice ws k 2)"
    using slice_words_bytes[of ws k 2] by (simp add: i)
  moreover have "le_nat (to_le_bytes w) = unat w" for w :: u32
    using unat_u32_less[of w] by (simp add: to_le_bytes_def le_nat_split)
  ultimately show ?thesis by (simp add: i words_bytes_def from_le_bytes_def le_nat_append)
qed

lemma zero_words:
  assumes "i + n \<le> length (words_bytes ws)" "4 dvd i" "4 dvd n"
    and "list_all (\<lambda>w. w = 0) (slice ws (i div 4) (n div 4))"
  shows "\<not> any_nonzero (slice (words_bytes ws) i n)"
proof -
  obtain k m where i: "i = 4 * k" "n = 4 * m" using assms(2,3) by blast
  have "list_all (\<lambda>x. x = 0) (words_bytes vs)" if "list_all (\<lambda>w. w = 0) vs" for vs
    using that by (induction vs) (auto simp: words_bytes_def to_le_bytes_0 list_all_iff)
  then show ?thesis using assms(4) by (simp add: i slice_words_bytes any_nonzero_def)
qed

lemma length_sample_draw: "length (words_bytes draw_words) = 568"
  by (simp add: length_words_bytes draw_words_def)

text \<open>Reading the record of the sample.\<close>

lemma sample_reads:
  "i + 4 \<le> 568 \<Longrightarrow> 4 dvd i \<Longrightarrow> u32_at sample_draw i = Ok (draw_words ! (i div 4))"
  "i + 8 \<le> 568 \<Longrightarrow> 4 dvd i \<Longrightarrow> u64_at sample_draw i =
    Ok (word_of_nat (unat (draw_words ! (i div 4)) + 2 ^ 32 * unat (draw_words ! (i div 4 + 1))))"
  by (simp_all add: u32_at_def u64_at_def read_le_Ok sample_draw_def length_sample_draw read_word
      read_words)

lemma sample_entry_reads:
  assumes "i + n \<le> 568" "4 dvd i" "4 dvd j"
  shows "j + 4 \<le> n \<Longrightarrow> u32_at (slice sample_draw i n) j = Ok (draw_words ! ((i + j) div 4))"
    and "j + 8 \<le> n \<Longrightarrow> u64_at (slice sample_draw i n) j = Ok (word_of_nat
      (unat (draw_words ! ((i + j) div 4)) + 2 ^ 32 * unat (draw_words ! ((i + j) div 4 + 1))))"
  using assms
  by (simp_all add: u32_at_def u64_at_def read_le_Ok sample_draw_def length_sample_draw read_word
      read_words slice_slice)

lemma sample_zero:
  assumes "i + n \<le> 568" "4 dvd i" "4 dvd n" "list_all (\<lambda>w. w = 0) (slice draw_words (i div 4) (n div 4))"
  shows "\<not> any_nonzero (slice sample_draw i n)"
  using assms unfolding sample_draw_def by (intro zero_words) (auto simp: length_sample_draw)

lemma sample_header: "header_ok sample_draw"
proof -
  have "\<not> any_nonzero (slice sample_draw 12 4)" "\<not> any_nonzero (slice sample_draw 40 4)"
    "\<not> any_nonzero (slice sample_draw 208 48)"
    by (intro sample_zero; simp add: draw_words_def slice_def)+
  then show ?thesis
    by (simp add: header_ok_def read_word sample_draw_def length_sample_draw HEADER_SIZE_def)
      (simp add: draw_words_def)
qed

definition sample_state :: State where
  "sample_state =
     \<lparr>topology = 0, st_count = 3, st_instances = 1, st_first = 0, base_vertex = 0,
      first_instance = 0, index_format = 1, index = \<lparr>rg_token = 7, rg_offset = 0, rg_size = 6\<rparr>,
      viewport = [0, 0, 0x41800000, 0x41800000, 0, 0x3f800000], scissor = [0, 0, 16, 16],
      raster = 0, depth = 0, blend_constant = [0, 0, 0, 0], depth_token = 0, depth_level = 0,
      depth_layer = 0\<rparr>"

lemma upt_4_6: "[0..<4] = [0, 1, 2, 3 :: nat]" "[0..<6] = [0, 1, 2, 3, 4, 5 :: nat]"
  by (simp_all add: upt_rec)

lemma sample_read_state: "read_state sample_draw = Ok sample_state"
  by (simp add: read_state_def range_at_def words_at_def upt_4_6 sample_reads)
    (simp add: draw_words_def sample_state_def)

lemma sample_state_ok: "state_ok sample_state" "index_ok sample_state"
proof -
  have "f32_value 0 = 0" "f32_value 0x41800000 = 16" "f32_value 0x3f800000 = 1"
    by (simp_all add: f32_value_def Let_def)
  moreover have "f32_is_finite 0" "f32_is_finite 0x41800000" "f32_is_finite 0x3f800000"
    by (simp_all add: f32_is_finite_def)
  ultimately show "state_ok sample_state"
    by (simp add: state_ok_def sample_state_def)
  show "index_ok sample_state"
    by (simp add: index_ok_def sample_state_def index_width_def range_ok_def)
qed


lemma sample_counts:
  "count_field sample_draw 0 = 2" "count_field sample_draw 1 = 1" "count_field sample_draw 2 = 2"
  "count_field sample_draw 3 = 1" "count_field sample_draw 4 = 1" "count_field sample_draw 5 = 1"
  by (simp_all add: count_field_def sample_draw_def read_word length_sample_draw)
    (simp_all add: draw_words_def)

lemma sample_starts:
  "section_start sample_draw 0 = 256" "section_start sample_draw 1 = 320"
  "section_start sample_draw 2 = 360" "section_start sample_draw 3 = 392"
  "section_start sample_draw 4 = 440" "section_start sample_draw 5 = 504"
  "section_start sample_draw 6 = 552"
proof -
  have next_start: "section_start sample_draw m = a + c * d"
    if "m = Suc k" "section_start sample_draw k = a" "count_field sample_draw k = c"
      "section_strides ! k = d" for m k a c d
    using that section_start_Suc[of sample_draw k] by simp
  have strides: "section_strides ! 0 = 32" "section_strides ! 1 = 40" "section_strides ! 2 = 16"
    "section_strides ! 3 = 48" "section_strides ! 4 = 64" "section_strides ! 5 = 48"
    by (simp_all add: section_strides_def layout_constants)
  show s0: "section_start sample_draw 0 = 256" by (simp add: section_start_def HEADER_SIZE_def)
  show s1: "section_start sample_draw 1 = 320"
    using next_start[OF _ s0 sample_counts(1) strides(1), of 1] by simp
  show s2: "section_start sample_draw 2 = 360"
    using next_start[OF _ s1 sample_counts(2) strides(2), of 2] by simp
  show s3: "section_start sample_draw 3 = 392"
    using next_start[OF _ s2 sample_counts(3) strides(3), of 3] by simp
  show s4: "section_start sample_draw 4 = 440"
    using next_start[OF _ s3 sample_counts(4) strides(4), of 4] by simp
  show s5: "section_start sample_draw 5 = 504"
    using next_start[OF _ s4 sample_counts(5) strides(5), of 5] by simp
  show "section_start sample_draw 6 = 552"
    using next_start[OF _ s5 sample_counts(6) strides(6), of 6] by simp
qed

lemma sample_offsets:
  "offset_field sample_draw 0 = 256" "offset_field sample_draw 1 = 320"
  "offset_field sample_draw 2 = 360" "offset_field sample_draw 3 = 392"
  "offset_field sample_draw 4 = 440" "offset_field sample_draw 5 = 504"
  by (simp_all add: offset_field_def sample_draw_def read_word length_sample_draw)
    (simp_all add: draw_words_def)


lemma less_6_cases: "(\<forall>k < 6. Q k) \<longleftrightarrow> Q 0 \<and> Q 1 \<and> Q 2 \<and> Q 3 \<and> Q 4 \<and> Q (5 :: nat)"
proof -
  have "k < 6 \<longleftrightarrow> k = 0 \<or> k = 1 \<or> k = 2 \<or> k = 3 \<or> k = 4 \<or> k = 5" for k :: nat by linarith
  then show ?thesis by auto
qed

lemma sample_sections: "sections_ok sample_draw 6"
proof -
  have "Suc 0 = 1" "Suc 1 = 2" "Suc 2 = 3" "Suc 3 = 4" "Suc 4 = 5" "Suc 5 = 6" by simp_all
  moreover have "length sample_draw = 568" by (simp add: sample_draw_def length_sample_draw)
  ultimately show ?thesis
    unfolding sections_ok_def less_6_cases
    by (simp only: sample_counts sample_offsets sample_starts)
      (simp add: section_counts_def layout_constants)
qed

definition sample_tables :: Tables where
  "sample_tables =
     \<lparr>tb_programs =
        [\<lparr>p_stage = 0, p_range = \<lparr>rg_token = 1, rg_offset = 0, rg_size = 512\<rparr>\<rparr>,
         \<lparr>p_stage = 4, p_range = \<lparr>rg_token = 2, rg_offset = 0, rg_size = 512\<rparr>\<rparr>],
      tb_streams =
        [\<lparr>s_range = \<lparr>rg_token = 5, rg_offset = 0, rg_size = 96\<rparr>, s_stride = 32, s_divisor = 0\<rparr>],
      tb_attributes =
        [\<lparr>a_location = 0, a_stream = 0, a_offset = 0, a_format = 2\<rparr>,
         \<lparr>a_location = 1, a_stream = 0, a_offset = 16, a_format = 3\<rparr>],
      tb_uniforms =
        [\<lparr>u_stage = 4, u_slot = 0, u_range = default_range, u_inline_offset = 0, u_inline_size = 16\<rparr>],
      tb_images =
        [\<lparr>i_token = 9, i_base_level = 0, i_level_count = 1, i_base_layer = 0, i_layer_count = 1,
          i_sampler = 0, i_min_lod = 0, i_max_lod = 0, i_lod_bias = 0, i_border_color = [0, 0, 0, 0],
          i_stage = 4, i_slot = 0\<rparr>],
      tb_targets =
        [\<lparr>t_token = 3, t_level = 0, t_layer = 0, t_blend_enable = 0, t_write_mask = 15,
          t_src_color = 0, t_dst_color = 0, t_color_op = 0, t_src_alpha = 0, t_dst_alpha = 0,
          t_alpha_op = 0\<rparr>]\<rparr>"

lemma sample_strides:
  "section_strides ! 0 = 32" "section_strides ! 1 = 40" "section_strides ! 2 = 16"
  "section_strides ! 3 = 48" "section_strides ! 4 = 64" "section_strides ! 5 = 48"
  by (simp_all add: section_strides_def layout_constants)

lemma sample_listed:
  assumes "count_field sample_draw k = n" "section_start sample_draw k = a" "section_strides ! k = w"
    and "k < 6" "sec (draw_of sample_draw st) = section_of sample_draw k"
    and "map (\<lambda>i. read (slice sample_draw (a + i * w) w)) [0..<n] = map Ok xs"
  shows "listed (table_entry read sec) (draw_of sample_draw st) (count_field sample_draw k) xs"
proof -
  have "length xs = n" using arg_cong[OF assms(6), of length] by simp
  moreover have "read (slice sample_draw (a + i * w) w) = Ok (xs ! i)" if "i < n" for i
    using arg_cong[OF assms(6), of "\<lambda>ys. ys ! i"] that \<open>length xs = n\<close> by simp
  ultimately show ?thesis
    using assms(1-3)
    by (simp add: listed_def table_entry_of[where sec = sec, OF sample_sections assms(4,5)] entry_bytes_def)
qed

lemma sample_tables_of: "tables_of (draw_of sample_draw st) sample_tables"
proof -
  note reads = sample_entry_reads range_at_def words_at_def upt_4_6 upt_rec
  note entries = read_program_def read_stream_def read_attribute_def read_uniform_def read_image_def
    read_target_def
  have "listed program (draw_of sample_draw st) (count_field sample_draw 0) (tb_programs sample_tables)"
    unfolding program_def
    by (rule sample_listed[OF sample_counts(1) sample_starts(1) sample_strides(1)])
      (simp_all add: entries reads, simp add: draw_words_def sample_tables_def)
  moreover have "listed stream (draw_of sample_draw st) (count_field sample_draw 1) (tb_streams sample_tables)"
    unfolding stream_def
    by (rule sample_listed[OF sample_counts(2) sample_starts(2) sample_strides(2)])
      (simp_all add: entries reads, simp add: draw_words_def sample_tables_def)
  moreover have "listed attribute (draw_of sample_draw st) (count_field sample_draw 2) (tb_attributes sample_tables)"
    unfolding attribute_def
    by (rule sample_listed[OF sample_counts(3) sample_starts(3) sample_strides(3)])
      (simp_all add: entries reads, simp add: draw_words_def sample_tables_def)
  moreover have "listed uniform (draw_of sample_draw st) (count_field sample_draw 3) (tb_uniforms sample_tables)"
    unfolding uniform_def
    by (rule sample_listed[OF sample_counts(4) sample_starts(4) sample_strides(4)])
      (simp_all add: entries reads, simp add: draw_words_def sample_tables_def default_range_def)
  moreover have "listed image_entry (draw_of sample_draw st) (count_field sample_draw 4) (tb_images sample_tables)"
    unfolding image_entry_def
    by (rule sample_listed[OF sample_counts(5) sample_starts(5) sample_strides(5)])
      (simp_all add: entries reads, simp add: draw_words_def sample_tables_def)
  moreover have "listed target (draw_of sample_draw st) (count_field sample_draw 5) (tb_targets sample_tables)"
    unfolding target_def
    by (rule sample_listed[OF sample_counts(6) sample_starts(6) sample_strides(6)])
      (simp_all add: entries reads, simp add: draw_words_def sample_tables_def)
  ultimately show ?thesis
    unfolding tables_of_def draw_of_simps sec_count_of by blast
qed

lemma sample_tables_ok: "tables_ok 16 sample_tables"
proof -
  have "f32_value 0 = 0" "f32_is_finite 0" by (simp_all add: f32_value_def f32_is_finite_def)
  moreover have "sampler_valid 0" by (simp add: sampler_valid_def)
  moreover have "vertex_format_size 2 = Some 12" "vertex_format_size 3 = Some 16"
    by (simp_all add: vertex_format_size_def)
  ultimately show ?thesis
    by (simp add: tables_ok_def sample_tables_def stage_valid_def range_ok_def stream_ok_def
        attribute_ok_def uniform_ok_def image_ok_def target_ok_def default_range_def)
qed

lemma sample_reserved:
  "reserved_zero sample_draw 0 4 8" "reserved_zero sample_draw 1 32 40" "reserved_zero sample_draw 3 40 48"
proof -
  have zero: "reserved_zero sample_draw k lo hi"
    if "count_field sample_draw k = n" "section_start sample_draw k = a" "section_strides ! k = w"
      "lo \<le> hi" "hi \<le> w" "\<And>i. i < n \<Longrightarrow> \<not> any_nonzero (slice sample_draw (a + i * w + lo) (hi - lo))"
    for k n a w lo hi
    using that by (simp add: reserved_zero_def entry_bytes_def slice_slice)
  have "\<not> any_nonzero (slice sample_draw (256 + i * 32 + 4) 4)" if "i < 2" for i
    using less_2_cases[OF that] by (intro sample_zero) (auto simp: draw_words_def slice_def)
  then show "reserved_zero sample_draw 0 4 8"
    by (intro zero[OF sample_counts(1) sample_starts(1) sample_strides(1)]) auto
  have "\<not> any_nonzero (slice sample_draw 352 8)" "\<not> any_nonzero (slice sample_draw 432 8)"
    by (intro sample_zero; simp add: draw_words_def slice_def)+
  then show "reserved_zero sample_draw 1 32 40" "reserved_zero sample_draw 3 40 48"
    by (intro zero[OF sample_counts(2) sample_starts(2) sample_strides(2)], simp_all)
      (intro zero[OF sample_counts(4) sample_starts(4) sample_strides(4)], simp_all)
qed

lemma sample_ok: "draw_ok sample_draw sample_state sample_tables"
proof -
  have "unat (from_le_bytes (slice sample_draw 120 4) :: u32) = 552"
    "unat (from_le_bytes (slice sample_draw 124 4) :: u32) = 16"
    by (simp_all add: sample_draw_def read_word length_sample_draw) (simp_all add: draw_words_def)
  moreover have "length sample_draw = 568" by (simp add: sample_draw_def length_sample_draw)
  ultimately show ?thesis
    using sample_header sample_sections sample_read_state sample_state_ok sample_tables_of
      sample_tables_ok sample_reserved
    by (simp add: draw_ok_def sample_starts) (simp add: sample_tables_def)
qed

lemma sample_parses: "parse sample_draw = Ok (draw_of sample_draw sample_state)"
  unfolding draw_parse_Ok using sample_ok by blast


section \<open>Properties\<close>

lemma table_entry_iff:
  assumes "sections_ok b 6" "listed (table_entry read sec) (draw_of b st) n ys"
    and "sec (draw_of b st) = section_of b k" "k < 6" "n = count_field b k"
  shows "table_entry read sec (draw_of b st) i = Ok (if i < n then Some (ys ! i) else None)"
proof (cases "i < n")
  case True
  then show ?thesis using assms(2) by (simp add: listed_def)
next
  case False
  then show ?thesis
    unfolding table_entry_of[where sec = sec, OF assms(1,4,3)] using assms(5) by simp
qed

lemma draw_tables:
  assumes "sections_ok b 6" "tables_of (draw_of b st) t"
  shows "attribute (draw_of b st) i =
      Ok (if i < length (tb_attributes t) then Some (tb_attributes t ! i) else None)"
    "stream (draw_of b st) i = Ok (if i < length (tb_streams t) then Some (tb_streams t ! i) else None)"
    "uniform (draw_of b st) i = Ok (if i < length (tb_uniforms t) then Some (tb_uniforms t ! i) else None)"
    "program (draw_of b st) i = Ok (if i < length (tb_programs t) then Some (tb_programs t ! i) else None)"
    "image_entry (draw_of b st) i = Ok (if i < length (tb_images t) then Some (tb_images t ! i) else None)"
    "target (draw_of b st) i = Ok (if i < length (tb_targets t) then Some (tb_targets t ! i) else None)"
proof -
  note lists = assms(2)[unfolded tables_of_def accessors draw_of_simps sec_count_of]
  have lens: "length (tb_programs t) = count_field b 0" "length (tb_streams t) = count_field b 1"
    "length (tb_attributes t) = count_field b 2" "length (tb_uniforms t) = count_field b 3"
    "length (tb_images t) = count_field b 4" "length (tb_targets t) = count_field b 5"
    using lists by (simp_all only: listed_def)
  show "attribute (draw_of b st) i =
      Ok (if i < length (tb_attributes t) then Some (tb_attributes t ! i) else None)"
    unfolding attribute_def using lists lens by (intro table_entry_iff[OF assms(1), where k = 2]) auto
  show "stream (draw_of b st) i = Ok (if i < length (tb_streams t) then Some (tb_streams t ! i) else None)"
    unfolding stream_def using lists lens by (intro table_entry_iff[OF assms(1), where k = 1]) auto
  show "uniform (draw_of b st) i = Ok (if i < length (tb_uniforms t) then Some (tb_uniforms t ! i) else None)"
    unfolding uniform_def using lists lens by (intro table_entry_iff[OF assms(1), where k = 3]) auto
  show "program (draw_of b st) i = Ok (if i < length (tb_programs t) then Some (tb_programs t ! i) else None)"
    unfolding program_def using lists lens by (intro table_entry_iff[OF assms(1), where k = 0]) auto
  show "image_entry (draw_of b st) i = Ok (if i < length (tb_images t) then Some (tb_images t ! i) else None)"
    unfolding image_entry_def using lists lens by (intro table_entry_iff[OF assms(1), where k = 4]) auto
  show "target (draw_of b st) i = Ok (if i < length (tb_targets t) then Some (tb_targets t ! i) else None)"
    unfolding target_def using lists lens by (intro table_entry_iff[OF assms(1), where k = 5]) auto
qed

lemma draw_entries:
  assumes "draw_ok b st t"
  shows "attribute (draw_of b st) i = Ok (Some a) \<longleftrightarrow> i < length (tb_attributes t) \<and> a = tb_attributes t ! i"
    "stream (draw_of b st) i = Ok (Some s) \<longleftrightarrow> i < length (tb_streams t) \<and> s = tb_streams t ! i"
    "uniform (draw_of b st) i = Ok (Some u) \<longleftrightarrow> i < length (tb_uniforms t) \<and> u = tb_uniforms t ! i"
    "program (draw_of b st) i = Ok (Some p) \<longleftrightarrow> i < length (tb_programs t) \<and> p = tb_programs t ! i"
    "image_entry (draw_of b st) i = Ok (Some im) \<longleftrightarrow> i < length (tb_images t) \<and> im = tb_images t ! i"
    "target (draw_of b st) i = Ok (Some x) \<longleftrightarrow> i < length (tb_targets t) \<and> x = tb_targets t ! i"
  using assms draw_tables[of b st t] by (auto simp: draw_ok_def)

text \<open>C23: \<open>parse\<close> accepts exactly the records of the specification \<open>draw_ok\<close>: a header with the magic,
  the version, the length of the buffer and zero reserved bytes; six tables and the inline data one
  behind the other from byte 256 to the end of the buffer, within the limits of their counts; a
  fixed-function state, an index range and table entries within their numeric bounds, no slot used
  twice, the reserved bytes of the entries zero, two programs and at least one attachment. The result
  is the view of the same bytes. Every check of the code is needed for this and none is missing.\<close>

theorem draw_accepted_iff:
  "parse b = Ok d \<longleftrightarrow> (\<exists>st t. draw_ok b st t \<and> d = draw_of b st)"
  by (rule draw_parse_Ok)

text \<open>C24: Whatever the bytes, \<open>parse\<close> returns: no slice, index or \<open>unwrap\<close> of the code fails. On an
  accepted draw every accessor returns too, with an entry exactly for the indices below the count of
  its table.\<close>

theorem draw_never_panics:
  "case parse b of
     Panic \<Rightarrow> False
   | Err e \<Rightarrow> True
   | Ok d \<Rightarrow> \<forall>i.
       (\<exists>x. program d i = Ok x \<and> (x = None \<longleftrightarrow> sec_count (programs d) \<le> i))
       \<and> (\<exists>x. stream d i = Ok x \<and> (x = None \<longleftrightarrow> sec_count (streams d) \<le> i))
       \<and> (\<exists>x. attribute d i = Ok x \<and> (x = None \<longleftrightarrow> sec_count (attributes d) \<le> i))
       \<and> (\<exists>x. uniform d i = Ok x \<and> (x = None \<longleftrightarrow> sec_count (uniforms d) \<le> i))
       \<and> (\<exists>x. image_entry d i = Ok x \<and> (x = None \<longleftrightarrow> sec_count (images d) \<le> i))
       \<and> (\<exists>x. target d i = Ok x \<and> (x = None \<longleftrightarrow> sec_count (targets d) \<le> i))"
proof (cases "parse b")
  case (Ok d)
  then obtain st t where ok: "sections_ok b 6" "tables_of (draw_of b st) t" and d: "d = draw_of b st"
    by (auto simp: draw_parse_Ok draw_ok_def)
  have "length (tb_programs t) = sec_count (programs d)" "length (tb_streams t) = sec_count (streams d)"
    "length (tb_attributes t) = sec_count (attributes d)" "length (tb_uniforms t) = sec_count (uniforms d)"
    "length (tb_images t) = sec_count (images d)" "length (tb_targets t) = sec_count (targets d)"
    using ok(2)[folded d] by (simp_all only: tables_of_def listed_def)
  then show ?thesis
    using Ok draw_tables[OF ok, folded d] by (simp add: not_less)
next
  case Panic
  then show ?thesis using draw_parse_not_Panic by blast
qed simp

text \<open>The sample names the three vertices its stream holds; with an index past them it is refused.\<close>

definition sample_authority :: "bytes \<Rightarrow> Authority" where
  "sample_authority b = \<lparr>buffer_bytes = (\<lambda>_. Inr b), buffer_address = (\<lambda>_. Inr 0x1000)\<rparr>"

lemma sample_authority_simps [simp]:
  "buffer_bytes (sample_authority b) r = Inr b" "buffer_address (sample_authority b) r = Inr 0x1000"
  by (simp_all add: sample_authority_def)

lemma sample_stream:
  "stream (draw_of sample_draw sample_state) 0 =
     Ok (Some \<lparr>s_range = \<lparr>rg_token = 5, rg_offset = 0, rg_size = 96\<rparr>, s_stride = 32, s_divisor = 0\<rparr>)"
  unfolding draw_entries(2)[OF sample_ok] by (simp add: sample_tables_def)

lemma sample_bounds:
  "indexed_bounds [0, 0, 1, 0, 2, 0] 1 0 3 0 = Ok (0, 2)"
  "indexed_bounds [0, 0, 1, 0, 3, 0] 1 0 3 0 = Ok (0, 3)"
proof -
  have upt: "[0..<3] = [0, 1, 2 :: nat]" by (simp add: upt_rec)
  have step: "indexed_bounds b 1 0 3 0 = for_each (index_turn 2 0 b) [0, 1, 2] (- 1, 0)" if "length b = 6" for b
    using that by (simp add: indexed_bounds_def usize_mul_def usize_add_def slice_def upt del: upt_rec_numeral)
  show "indexed_bounds [0, 0, 1, 0, 2, 0] 1 0 3 0 = Ok (0, 2)" "indexed_bounds [0, 0, 1, 0, 3, 0] 1 0 3 0 = Ok (0, 3)"
    by (simp_all add: step index_turn_def subslice_def slice_def from_le_bytes_def Let_def min_def max_def)
qed

lemma sample_alloc: "alloc [] [0, 0, 1, 0, v, 0] 256 = Ok (0, [0, 0, 1, 0, v, 0])"
  by (simp add: alloc_def usize_add_def MAX_ARENA_def splice_def)

lemma sample_prepare:
  "prepare_fetches (sample_authority [0, 0, 1, 0, 2, 0]) (draw_of sample_draw sample_state) []
     = Ok (Some (0, 6), [0, 0, 1, 0, 2, 0])"
  "prepare_fetches (sample_authority [0, 0, 1, 0, 3, 0]) (draw_of sample_draw sample_state) [] = Err VertexFetch"
proof -
  have select: "select_indices (sample_authority [0, 0, 1, 0, v, 0]) sample_state [] = Ok (Some (0, 6), hi, [0, 0, 1, 0, v, 0])"
    if "indexed_bounds [0, 0, 1, 0, v, 0] 1 0 3 0 = Ok (0, hi)" for v hi
    using that by (simp add: select_indices_def sample_state_def usize_mul_def subslice_def slice_def sample_alloc)
  have nums: "u64_from 2 = 2" "u64_from 3 = 3" "u64_from 32 = 32" by (simp_all add: u64_from_def)
  have count: "count_field sample_draw (Suc 0) = 1" using sample_counts(2) by simp
  note sel = select[OF sample_bounds(1)] select[OF sample_bounds(2)]
  show "prepare_fetches (sample_authority [0, 0, 1, 0, 2, 0]) (draw_of sample_draw sample_state) []
     = Ok (Some (0, 6), [0, 0, 1, 0, 2, 0])"
    by (simp add: prepare_fetches_def sel sample_stream count check_fetch_def entry_unwrap_def checked_add_def
        checked_mul_def nums word_less_nat_alt)
  show "prepare_fetches (sample_authority [0, 0, 1, 0, 3, 0]) (draw_of sample_draw sample_state) [] = Err VertexFetch"
    by (simp add: prepare_fetches_def sel sample_stream count check_fetch_def entry_unwrap_def checked_add_def
        checked_mul_def nums word_less_nat_alt)
qed

text \<open>What an accepted draw fetches: indices, and attributes of the elements of its streams.\<close>

lemma index_fetches:
  assumes "index_ok st" "index_format st \<noteq> 0"
  shows "k < unat (st_count st) \<Longrightarrow>
      unat (rg_offset (index st)) + (unat (st_first st) + k) * index_width st + index_width st
      \<le> unat (rg_offset (index st)) + unat (rg_size (index st))"
    and "index_width st dvd unat (rg_offset (index st))"
    and "unat (rg_offset (index st)) + unat (rg_size (index st)) < 2 ^ 64"
proof -
  have ok: "(unat (st_first st) + unat (st_count st)) * index_width st \<le> unat (rg_size (index st))"
    using assms by (simp add: index_ok_def)
  assume "k < unat (st_count st)"
  then have "Suc (unat (st_first st) + k) * index_width st \<le> (unat (st_first st) + unat (st_count st)) * index_width st"
    by (intro mult_le_mono1) simp
  then show "unat (rg_offset (index st)) + (unat (st_first st) + k) * index_width st + index_width st
      \<le> unat (rg_offset (index st)) + unat (rg_size (index st))"
    using ok by simp
qed (use assms in \<open>auto simp: index_ok_def range_ok_def\<close>)

lemma draw_counts:
  assumes "draw_ok b st t"
  shows "unat (st_first st) + unat (st_count st) < 2 ^ 32" "0 < unat (st_count st)"
    "unat (first_instance st) + unat (st_instances st) < 2 ^ 32" "0 < unat (st_instances st)"
    "length (tb_streams t) = sec_count (streams (draw_of b st))"
  using assms by (auto simp: draw_ok_def state_ok_def tables_of_def listed_def)

lemma attribute_fetches:
  assumes "draw_ok b st t" "attribute (draw_of b st) i = Ok (Some a)"
  defines "s \<equiv> tb_streams t ! unat (a_stream a)"
  obtains size' where "stream (draw_of b st) (unat (a_stream a)) = Ok (Some s)" "stream_ok s"
    "vertex_format_size (a_format a) = Some size'" "unat (a_offset a) + unat size' \<le> unat (s_stride s)"
    "\<And>au arena indices arena' v. prepare_fetches au (draw_of b st) arena = Ok (indices, arena')
      \<Longrightarrow> v \<in> set (fetched st indices arena' s)
      \<Longrightarrow> 0 \<le> v \<and> v * uint (s_stride s) + uint (a_offset a) + uint size' \<le> uint (rg_size (s_range s))"
proof -
  have "attribute_ok (tb_streams t) a" and t: "\<forall>x \<in> set (tb_streams t). stream_ok x"
    using assms(1,2) draw_entries(1)[OF assms(1)] by (auto simp: draw_ok_def tables_ok_def)
  then obtain size' where size': "vertex_format_size (a_format a) = Some size'"
    "unat (a_offset a) + unat size' \<le> unat (s_stride s)" "unat (a_stream a) < length (tb_streams t)"
    by (auto simp: attribute_ok_def s_def)
  then have s: "stream (draw_of b st) (unat (a_stream a)) = Ok (Some s)" "stream_ok s"
    using t draw_entries(2)[OF assms(1)] by (auto simp: s_def)
  have "0 \<le> v \<and> v * uint (s_stride s) + uint (a_offset a) + uint size' \<le> uint (rg_size (s_range s))"
    if "prepare_fetches au (draw_of b st) arena = Ok (indices, arena')" "v \<in> set (fetched st indices arena' s)"
    for au arena indices arena' v
  proof -
    have "0 \<le> v \<and> (v + 1) * uint (s_stride s) \<le> uint (rg_size (s_range s))"
      using prepare_fetches_Ok(2)[OF that(1), unfolded draw_of_simps, OF draw_counts(1-4)[OF assms(1)] s(1) _ that(2)]
        size'(3) draw_counts(5)[OF assms(1)] by simp
    moreover have "uint (a_offset a) + uint size' \<le> uint (s_stride s)"
      using of_nat_mono[OF size'(2), where 'a = int] by simp
    ultimately show ?thesis by (simp add: distrib_right)
  qed
  then show thesis by (rule that[OF s size'(1,2)])
qed

text \<open>C25: The memory an accepted draw fetches lies in what it declared. Of the record alone: every index of
  an indexed draw lies, aligned, in the index range, which does not wrap; every attribute lies within one
  element of the stream it names, which exists and has a range that does not wrap; inline uniform data
  lies in the inline bytes of the record. The record may still name more vertices than a stream holds;
  this the preparation refuses. Whatever the authority answers, its checks do not panic, and when they pass,
  every attribute of every element that the draw fetches from a stream (of its instances, its consecutive
  vertices, or the vertices of its indices and signed base, none of which is negative) lies in the range
  declared for the stream; the indices are those of a private copy of exactly the selected indices of the
  declared range, behind what the arena held before, which is kept.\<close>

theorem draw_fetches_in_bounds:
  assumes "parse b = Ok d"
  shows "(index_format (state d) \<noteq> 0 \<longrightarrow>
      (\<forall>k < unat (st_count (state d)).
         unat (rg_offset (index (state d)))
           + (unat (st_first (state d)) + k) * index_width (state d) + index_width (state d)
         \<le> unat (rg_offset (index (state d))) + unat (rg_size (index (state d))))
      \<and> index_width (state d) dvd unat (rg_offset (index (state d)))
      \<and> unat (rg_offset (index (state d))) + unat (rg_size (index (state d))) < 2 ^ 64)
    \<and> (\<forall>i a. attribute d i = Ok (Some a) \<longrightarrow>
      (\<exists>s size. stream d (unat (a_stream a)) = Ok (Some s) \<and> vertex_format_size (a_format a) = Some size
        \<and> unat (a_offset a) + unat size \<le> unat (s_stride s) \<and> unat (s_stride s) \<le> 2048
        \<and> unat (rg_offset (s_range s)) + unat (rg_size (s_range s)) < 2 ^ 64
        \<and> (\<forall>au arena indices arena'. prepare_fetches au d arena = Ok (indices, arena') \<longrightarrow>
            (\<forall>v \<in> set (fetched (state d) indices arena' s).
               0 \<le> v \<and> v * uint (s_stride s) + uint (a_offset a) + uint size \<le> uint (rg_size (s_range s))))))
    \<and> (\<forall>i u. uniform d i = Ok (Some u) \<longrightarrow> rg_token (u_range u) = 0 \<longrightarrow>
      0 < unat (u_inline_size u)
      \<and> unat (u_inline_offset u) + unat (u_inline_size u) \<le> length (inline d))
    \<and> (\<forall>au arena. prepare_fetches au d arena \<noteq> Panic
      \<and> (\<forall>indices arena'. prepare_fetches au d arena = Ok (indices, arena') \<longrightarrow>
           index_copied au (state d) arena indices arena'))"
proof -
  obtain st t where ok: "draw_ok b st t" and d: "d = draw_of b st"
    using assms by (auto simp: draw_parse_Ok)
  then have st: "index_ok st" and t: "tables_ok (length b - section_start b 6) t" and state: "state d = st"
    by (simp_all add: draw_ok_def)
  note counts = draw_counts[OF ok, folded d]
  have "prepare_fetches au d arena \<noteq> Panic" for au arena
    by (rule prepare_fetches_not_Panic) (use counts draw_entries(2)[OF ok, folded d] in \<open>auto simp: state\<close>)
  moreover have "index_copied au st arena indices arena'" if "prepare_fetches au d arena = Ok (indices, arena')"
    for au arena indices arena'
    using prepare_fetches_Ok(1)[OF that, unfolded state, OF counts(1-4)] .
  moreover have "\<exists>s size. stream d (unat (a_stream a)) = Ok (Some s)
        \<and> vertex_format_size (a_format a) = Some size
        \<and> unat (a_offset a) + unat size \<le> unat (s_stride s) \<and> unat (s_stride s) \<le> 2048
        \<and> unat (rg_offset (s_range s)) + unat (rg_size (s_range s)) < 2 ^ 64
        \<and> (\<forall>au arena indices arena'. prepare_fetches au d arena = Ok (indices, arena') \<longrightarrow>
            (\<forall>v \<in> set (fetched st indices arena' s).
               0 \<le> v \<and> v * uint (s_stride s) + uint (a_offset a) + uint size \<le> uint (rg_size (s_range s))))"
    if "attribute d i = Ok (Some a)" for i a
    using that unfolding d by (rule attribute_fetches[OF ok]) (auto simp: stream_ok_def range_ok_def)
  moreover have "0 < unat (u_inline_size u)
      \<and> unat (u_inline_offset u) + unat (u_inline_size u) \<le> length (inline d)"
    if "uniform d i = Ok (Some u)" "rg_token (u_range u) = 0" for i u
    using that t draw_entries(3)[OF ok] by (auto simp: tables_ok_def uniform_ok_def d)
  ultimately show ?thesis unfolding state using index_fetches[OF st] by blast
qed

theorem draw_fetches_in_bounds_witness:
  "\<exists>d. parse sample_draw = Ok d
     \<and> unat (rg_offset (index (state d))) + (unat (st_first (state d)) + 2) * 2 + 2
       \<le> unat (rg_offset (index (state d))) + unat (rg_size (index (state d)))
     \<and> (\<exists>s. stream d 0 = Ok (Some s)
          \<and> (\<forall>v \<in> set (fetched (state d) (Some (0, 6)) [0, 0, 1, 0, 2, 0] s).
                v * uint (s_stride s) + 16 + 16 \<le> uint (rg_size (s_range s))))"
proof -
  let ?d = "draw_of sample_draw sample_state"
  note all = draw_fetches_in_bounds[OF sample_parses]
  let ?a = "\<lparr>a_location = 1, a_stream = 0, a_offset = 16, a_format = 3\<rparr>"
  have "attribute ?d 1 = Ok (Some ?a)"
    unfolding draw_entries(1)[OF sample_ok] by (simp add: sample_tables_def)
  from all[THEN conjunct2, THEN conjunct1, rule_format, OF this] sample_prepare(1) obtain s size' where
    s: "stream ?d 0 = Ok (Some s)" "vertex_format_size 3 = Some size'"
      "\<forall>v \<in> set (fetched (state ?d) (Some (0, 6)) [0, 0, 1, 0, 2, 0] s).
         v * uint (s_stride s) + 16 + uint size' \<le> uint (rg_size (s_range s))"
    by auto
  from s(2) have "size' = 16" by (simp add: vertex_format_size_def)
  then show ?thesis
    using s all sample_parses by (auto simp: sample_state_def index_width_def)
qed

text \<open>An accepted draw has exactly one vertex and one fragment program, and no attribute location,
  uniform slot, image slot or attachment subresource is bound twice.\<close>

theorem draw_slots_unique:
  assumes "parse b = Ok d"
  shows "(\<exists>p q. {program d 0, program d 1} = {Ok (Some p), Ok (Some q)} \<and> p_stage p = 0 \<and> p_stage q = 4)
    \<and> (\<forall>i j a a'. attribute d i = Ok (Some a) \<and> attribute d j = Ok (Some a')
        \<and> a_location a = a_location a' \<longrightarrow> i = j)
    \<and> (\<forall>i j u u'. uniform d i = Ok (Some u) \<and> uniform d j = Ok (Some u')
        \<and> u_stage u = u_stage u' \<and> u_slot u = u_slot u' \<longrightarrow> i = j)
    \<and> (\<forall>i j m m'. image_entry d i = Ok (Some m) \<and> image_entry d j = Ok (Some m')
        \<and> i_stage m = i_stage m' \<and> i_slot m = i_slot m' \<longrightarrow> i = j)
    \<and> (\<forall>i j x x'. target d i = Ok (Some x) \<and> target d j = Ok (Some x')
        \<and> t_token x = t_token x' \<and> t_level x = t_level x' \<and> t_layer x = t_layer x' \<longrightarrow> i = j)"
proof -
  obtain st t where ok: "draw_ok b st t" and d: "d = draw_of b st"
    using assms by (auto simp: draw_parse_Ok)
  then have t: "tables_ok (length b - section_start b 6) t" and two: "length (tb_programs t) = 2"
    by (simp_all add: draw_ok_def)
  have unique: "i = j" if "distinct (map f xs)" "i < length xs" "j < length xs" "f (xs ! i) = f (xs ! j)"
    for i j xs and f :: "'x \<Rightarrow> 'y"
    using that by (auto simp: distinct_conv_nth)
  obtain p q where pq: "tb_programs t = [p, q]"
    using two by (auto simp: length_Suc_conv numeral_2_eq_2)
  have stages: "p_stage p = 0 \<and> p_stage q = 4 \<or> p_stage p = 4 \<and> p_stage q = 0"
    using t by (auto simp: pq tables_ok_def stage_valid_def)
  have "program d 0 = Ok (Some p)" "program d 1 = Ok (Some q)"
    using draw_entries(4)[OF ok] by (simp_all add: pq d)
  with stages have
    "\<exists>p q. {program d 0, program d 1} = {Ok (Some p), Ok (Some q)} \<and> p_stage p = 0 \<and> p_stage q = 4"
    by (elim disjE) (rule exI[of _ p], rule exI[of _ q], simp, rule exI[of _ q], rule exI[of _ p], auto)
  moreover have "\<forall>i j a a'. attribute d i = Ok (Some a) \<and> attribute d j = Ok (Some a')
      \<and> a_location a = a_location a' \<longrightarrow> i = j"
    using t draw_entries(1)[OF ok] by (auto simp: tables_ok_def d intro: unique)
  moreover have "\<forall>i j u u'. uniform d i = Ok (Some u) \<and> uniform d j = Ok (Some u')
      \<and> u_stage u = u_stage u' \<and> u_slot u = u_slot u' \<longrightarrow> i = j"
    using t draw_entries(3)[OF ok] by (auto simp: tables_ok_def d intro: unique)
  moreover have "\<forall>i j m m'. image_entry d i = Ok (Some m) \<and> image_entry d j = Ok (Some m')
      \<and> i_stage m = i_stage m' \<and> i_slot m = i_slot m' \<longrightarrow> i = j"
    using t draw_entries(5)[OF ok] by (auto simp: tables_ok_def d intro: unique)
  moreover have "\<forall>i j x x'. target d i = Ok (Some x) \<and> target d j = Ok (Some x')
      \<and> t_token x = t_token x' \<and> t_level x = t_level x' \<and> t_layer x = t_layer x' \<longrightarrow> i = j"
    using t draw_entries(6)[OF ok] by (auto simp: tables_ok_def d intro: unique)
  ultimately show ?thesis by (intro conjI)
qed

theorem draw_slots_unique_witness:
  "\<exists>d. parse sample_draw = Ok d
     \<and> (\<exists>p q. {program d 0, program d 1} = {Ok (Some p), Ok (Some q)} \<and> p_stage p = 0 \<and> p_stage q = 4)"
  using draw_slots_unique[OF sample_parses] sample_parses by blast

end
