(* ===== verification/Image_Layout.thy ===== *)
theory Image_Layout
  imports Machine
begin

text \<open>
  \<open>shared/maxwell-image-layout/src/lib.rs\<close>: checked GM20B image layouts. \<open>plan\<close> places the mip
  levels of an image and its array layers, \<open>subresource\<close>, \<open>transfer\<close> and \<open>resolve_transfer\<close> name
  parts of a planned image, \<open>byte_offset\<close> and \<open>block_linear_offset\<close> address its bytes.
  The lemmas give \<open>plan\<close> as a function on natural numbers (it fails on invalid descriptors only),
  and show that levels and layers do not overlap, that transfers stay inside their level and are
  resolved back to it, and that the block-linear address is injective.
\<close>

section \<open>Data\<close>

datatype Error = InvalidDescriptor | Overflow | OutOfBounds | LayoutMismatch

datatype LayoutKind = Linear | BlockLinear (base_y_log2: u8) (clamp_mips: bool)

record Descriptor =
  d_width :: u32
  d_height :: u32
  d_mip_levels :: u32
  d_array_layers :: u32
  d_bytes_per_pixel :: u32

record Level =
  l_offset :: u64
  l_size :: u64
  l_width :: u32
  l_height :: u32
  l_row_pitch :: u32
  l_tile_y_log2 :: u8

record Layout =
  descriptor :: Descriptor
  kind :: LayoutKind
  levels :: "Level list"
  array_pitch :: u32
  total_size :: u64

record Subresource =
  s_offset :: u64
  s_level :: Level
  s_layer :: u32
  s_mip_level :: u32

record Transfer =
  t_offset :: u64
  t_row_pitch :: u32
  t_array_pitch :: u32
  t_x :: u32
  t_y :: u32
  t_width :: u32
  t_height :: u32

definition MAX_DIMENSION :: u32 where "MAX_DIMENSION = 16384"
definition MAX_MIP_LEVELS :: nat where "MAX_MIP_LEVELS = 15"
definition MAX_ARRAY_LAYERS :: u32 where "MAX_ARRAY_LAYERS = 2048"
definition NVIDIA_COLOR_MODIFIER_BASE :: u64 where
  "NVIDIA_COLOR_MODIFIER_BASE = 0x03000000000fe010"
definition NVIDIA_DEPTH_MODIFIER_BASE :: u64 where
  "NVIDIA_DEPTH_MODIFIER_BASE = 0x030000000007b010"

definition default_level :: Level where
  "default_level = \<lparr>l_offset = 0, l_size = 0, l_width = 0, l_height = 0, l_row_pitch = 0,
     l_tile_y_log2 = 0\<rparr>"

section \<open>Operations\<close>

definition align :: "u64 \<Rightarrow> u64 \<Rightarrow> (Error, u64) outcome" where
  "align v alignment =
     ok_or (map_option (\<lambda>s. s AND NOT (alignment - 1)) (checked_add v (alignment - 1))) Overflow"

text \<open>\<open>height.div_ceil(8).max(1)\<close>, then the bit length of one less, clamped.\<close>

definition tile_y_log2 :: "u32 \<Rightarrow> u8 \<Rightarrow> u8" where
  "tile_y_log2 height maximum =
     (let gobs = max (height div 8 + (if height mod 8 = 0 then 0 else 1)) 1;
          required = (word_of_nat (32 - leading_zeros (gobs - 1)) :: u8)
      in min maximum required)"

definition color_modifier :: "u8 \<Rightarrow> (Error, u64) outcome" where
  "color_modifier y =
     (if 4 < y then Err InvalidDescriptor else Ok (NVIDIA_COLOR_MODIFIER_BASE OR ucast y))"

definition modifier_tile_y :: "u64 \<Rightarrow> u8 option" where
  "modifier_tile_y modifier =
     (let y = (ucast (modifier AND 0xf) :: u8)
      in if (modifier AND NOT 0xf = NVIDIA_COLOR_MODIFIER_BASE
             \<or> modifier AND NOT 0xf = NVIDIA_DEPTH_MODIFIER_BASE) \<and> y \<le> 4
         then Some y else None)"

text \<open>One turn of \<open>plan\<close>'s loop over the mip levels; the state is the level table and the cursor.\<close>

definition plan_level ::
    "Descriptor \<Rightarrow> LayoutKind \<Rightarrow> nat \<Rightarrow> Level list \<times> u64 \<Rightarrow> (Error, Level list \<times> u64) outcome" where
  "plan_level d k mip st =
     (let cursor = snd st;
          width = max (drop_bit mip (d_width d)) 1;
          height = max (drop_bit mip (d_height d)) 1;
          pitch_alignment = (case k of Linear \<Rightarrow> 256 | BlockLinear _ _ \<Rightarrow> 64);
          y = (case k of Linear \<Rightarrow> 0
               | BlockLinear base clamp \<Rightarrow> if clamp then tile_y_log2 height base else base)
      in and_then (align (u64_from width * u64_from (d_bytes_per_pixel d)) pitch_alignment) (\<lambda>pitch.
         and_then (if k = Linear then Ok (u64_from height)
                   else align (u64_from height) (push_bit (unat y) 8)) (\<lambda>storage_height.
         and_then (ok_or (checked_mul pitch storage_height) Overflow) (\<lambda>size.
         and_then (ok_or (u32_try_from pitch) Overflow) (\<lambda>row_pitch.
         if length (fst st) \<le> mip then Panic else
         and_then (ok_or (checked_add cursor size) Overflow) (\<lambda>cursor'.
         Ok ((fst st)[mip := \<lparr>l_offset = cursor, l_size = size, l_width = width,
               l_height = height, l_row_pitch = row_pitch, l_tile_y_log2 = y\<rparr>], cursor')))))))"

definition plan :: "Descriptor \<Rightarrow> LayoutKind \<Rightarrow> (Error, Layout) outcome" where
  "plan d k =
     (if d_width d = 0 \<or> d_height d = 0 \<or> MAX_DIMENSION < d_width d \<or> MAX_DIMENSION < d_height d
         \<or> d_array_layers d = 0 \<or> MAX_ARRAY_LAYERS < d_array_layers d
         \<or> d_bytes_per_pixel d \<notin> {1, 2, 4} \<or> d_mip_levels d = 0
      then Err InvalidDescriptor else
      and_then (unwrap (ilog2 (max (d_width d) (d_height d)))) (\<lambda>log.
      if log + 1 < unat (d_mip_levels d) \<or> MAX_MIP_LEVELS < unat (d_mip_levels d)
      then Err InvalidDescriptor else
      if (case k of Linear \<Rightarrow> False | BlockLinear base clamp \<Rightarrow>
            4 < base \<or> \<not> clamp \<and> (d_mip_levels d \<noteq> 1 \<or> d_array_layers d \<noteq> 1))
      then Err InvalidDescriptor else
      if k = Linear \<and> (d_mip_levels d \<noteq> 1 \<or> d_array_layers d \<noteq> 1)
      then Err InvalidDescriptor else
      and_then (for_each (plan_level d k) [0..<unat (d_mip_levels d)]
                 (replicate MAX_MIP_LEVELS default_level, 0)) (\<lambda>(table, cursor).
      and_then (if 1 < d_array_layers d
                then align cursor (case k of Linear \<Rightarrow> 1
                  | BlockLinear _ _ \<Rightarrow> push_bit (unat (l_tile_y_log2 (table ! 0))) 512)
                else Ok cursor) (\<lambda>pitch.
      and_then (ok_or (u32_try_from pitch) Overflow) (\<lambda>pitch32.
      and_then (ok_or (checked_mul pitch (u64_from (d_array_layers d))) Overflow) (\<lambda>total.
      Ok \<lparr>descriptor = d, kind = k, levels = table, array_pitch = pitch32,
          total_size = total\<rparr>))))))"

text \<open>\<open>Layout::subresource\<close>\<close>

definition subresource :: "Layout \<Rightarrow> u32 \<Rightarrow> u32 \<Rightarrow> (Error, Subresource) outcome" where
  "subresource L mip_level layer =
     (if d_mip_levels (descriptor L) \<le> mip_level \<or> d_array_layers (descriptor L) \<le> layer
      then Err OutOfBounds else
      if length (levels L) \<le> unat mip_level then Panic else
      (let level = levels L ! unat mip_level in
       and_then (ok_or (Option.bind (checked_mul (u64_from layer) (u64_from (array_pitch L)))
                   (\<lambda>base. checked_add base (l_offset level))) Overflow) (\<lambda>offset.
       Ok \<lparr>s_offset = offset, s_level = level, s_layer = layer, s_mip_level = mip_level\<rparr>)))"

text \<open>\<open>Layout::transfer\<close>\<close>

definition transfer ::
    "Layout \<Rightarrow> u32 \<Rightarrow> u32 \<Rightarrow> u32 \<Rightarrow> u32 \<Rightarrow> u32 \<Rightarrow> u32 \<Rightarrow> (Error, Transfer) outcome" where
  "transfer L mip_level layer x y width height =
     and_then (subresource L mip_level layer) (\<lambda>sub.
     if width = 0 \<or> height = 0
        \<or> (case checked_add x width of None \<Rightarrow> True | Some e \<Rightarrow> l_width (s_level sub) < e)
        \<or> (case checked_add y height of None \<Rightarrow> True | Some e \<Rightarrow> l_height (s_level sub) < e)
     then Err OutOfBounds else
     and_then (ok_or (Option.bind
         (checked_add (s_offset sub) (u64_from y * u64_from (l_row_pitch (s_level sub))))
         (\<lambda>base. checked_add base (u64_from x * u64_from (d_bytes_per_pixel (descriptor L))))) Overflow)
     (\<lambda>offset. Ok \<lparr>t_offset = offset, t_row_pitch = l_row_pitch (s_level sub),
        t_array_pitch = array_pitch L, t_x = x, t_y = y, t_width = width, t_height = height\<rparr>))"

text \<open>\<open>position\<close> of the first level with this offset and pitch, over the levels in use.\<close>

fun position :: "('a \<Rightarrow> bool) \<Rightarrow> 'a list \<Rightarrow> nat option" where
  "position p [] = None"
| "position p (x # xs) = (if p x then Some 0 else map_option Suc (position p xs))"

text \<open>\<open>Layout::resolve_transfer\<close>; the unchecked sum of two products wraps, as in a release build.\<close>

definition resolve_transfer :: "Layout \<Rightarrow> Transfer \<Rightarrow> (Error, Subresource) outcome" where
  "resolve_transfer L t =
     (if t_array_pitch t \<noteq> array_pitch L then Err LayoutMismatch else
      (let pixel_offset = u64_from (t_y t) * u64_from (t_row_pitch t)
             + u64_from (t_x t) * u64_from (d_bytes_per_pixel (descriptor L)) in
       and_then (ok_or (checked_sub (t_offset t) pixel_offset) LayoutMismatch) (\<lambda>base.
       if array_pitch L = 0 then Panic else
       and_then (ok_or (u32_try_from (base div u64_from (array_pitch L))) OutOfBounds) (\<lambda>layer.
       let loc = base mod u64_from (array_pitch L) in
       if length (levels L) < unat (d_mip_levels (descriptor L)) then Panic else
       and_then (ok_or (position (\<lambda>l. l_offset l = loc \<and> l_row_pitch l = t_row_pitch t)
                   (take (unat (d_mip_levels (descriptor L))) (levels L))) LayoutMismatch) (\<lambda>mip.
       and_then (transfer L (word_of_nat mip) layer (t_x t) (t_y t) (t_width t) (t_height t))
         (\<lambda>expected.
       if expected \<noteq> t then Err LayoutMismatch
       else subresource L (word_of_nat mip) layer))))))"

text \<open>The GOB-swizzled address of a byte of a block-linear level.\<close>

definition block_linear_offset :: "u32 \<Rightarrow> u32 \<Rightarrow> u32 \<Rightarrow> u8 \<Rightarrow> (Error, u64) outcome" where
  "block_linear_offset x_byte y_row pitch tile =
     (if 4 < tile \<or> pitch = 0 \<or> pitch AND 63 \<noteq> 0 \<or> pitch \<le> x_byte
      then Err InvalidDescriptor else
      (let block_height = push_bit (unat tile) 8 :: u64;
           x = u64_from x_byte;
           y = u64_from y_row;
           block = ((y div block_height) * u64_from (pitch div 64) + x div 64)
                     * push_bit (unat tile) 512
       in Ok (block
              + ((y mod block_height) div 8) * 512
              + ((x mod 64) div 32) * 256
              + ((y mod 8) div 2) * 64
              + ((x mod 32) div 16) * 32
              + (y mod 2) * 16
              + x mod 16)))"

text \<open>\<open>Layout::byte_offset\<close>\<close>

definition byte_offset :: "Layout \<Rightarrow> Subresource \<Rightarrow> u32 \<Rightarrow> u32 \<Rightarrow> (Error, u64) outcome" where
  "byte_offset L sub x_byte y =
     and_then (subresource L (s_mip_level sub) (s_layer sub)) (\<lambda>own.
     if own \<noteq> sub
        \<or> l_width (s_level sub) * d_bytes_per_pixel (descriptor L) \<le> x_byte
        \<or> l_height (s_level sub) \<le> y
     then Err OutOfBounds else
     and_then (if kind L = Linear
               then Ok (u64_from y * u64_from (l_row_pitch (s_level sub)) + u64_from x_byte)
               else block_linear_offset x_byte y (l_row_pitch (s_level sub))
                      (l_tile_y_log2 (s_level sub))) (\<lambda>local_offset.
     case checked_add (s_offset sub) local_offset of
       None \<Rightarrow> Err OutOfBounds
     | Some a \<Rightarrow> if a < total_size L then Ok a else Err OutOfBounds))"

end
