(* ===== verification/Image_Layout_Plan.thy ===== *)
theory Image_Layout_Plan
  imports Image_Layout
begin

text \<open>
  The abstract plan of an image on natural numbers (\<open>spec_\<close> definitions: extents, pitches, sizes
  and offsets without machine words), and the refinement of it by \<open>plan\<close>: on a valid descriptor
  \<open>plan\<close> succeeds with exactly these numbers, on any other it reports \<open>InvalidDescriptor\<close>;
  the overflow errors of the code cannot occur.
\<close>

section \<open>The abstract plan\<close>

definition valid_descriptor :: "Descriptor \<Rightarrow> LayoutKind \<Rightarrow> bool" where
  "valid_descriptor d k \<longleftrightarrow>
     0 < unat (d_width d) \<and> unat (d_width d) \<le> 16384
     \<and> 0 < unat (d_height d) \<and> unat (d_height d) \<le> 16384
     \<and> 0 < unat (d_array_layers d) \<and> unat (d_array_layers d) \<le> 2048
     \<and> d_bytes_per_pixel d \<in> {1, 2, 4}
     \<and> 0 < unat (d_mip_levels d)
     \<and> unat (d_mip_levels d) \<le> bit_length (max (unat (d_width d)) (unat (d_height d)))
     \<and> unat (d_mip_levels d) \<le> 15
     \<and> (case k of
          Linear \<Rightarrow> d_mip_levels d = 1 \<and> d_array_layers d = 1
        | BlockLinear base clamp \<Rightarrow>
            base \<le> 4 \<and> (clamp \<or> d_mip_levels d = 1 \<and> d_array_layers d = 1))"

text \<open>The least block height (in powers of two GOBs of 8 rows) that holds the rows, up to a maximum.\<close>

definition spec_tile_height :: "nat \<Rightarrow> nat \<Rightarrow> nat" where
  "spec_tile_height h m = min m (bit_length (max ((h + 7) div 8) 1 - 1))"

definition spec_width :: "Descriptor \<Rightarrow> nat \<Rightarrow> nat" where
  "spec_width d m = max (unat (d_width d) div 2 ^ m) 1"

definition spec_height :: "Descriptor \<Rightarrow> nat \<Rightarrow> nat" where
  "spec_height d m = max (unat (d_height d) div 2 ^ m) 1"

definition spec_tile :: "Descriptor \<Rightarrow> LayoutKind \<Rightarrow> nat \<Rightarrow> nat" where
  "spec_tile d k m =
     (case k of Linear \<Rightarrow> 0
      | BlockLinear base clamp \<Rightarrow>
          if clamp then spec_tile_height (spec_height d m) (unat base) else unat base)"

definition spec_pitch_alignment :: "LayoutKind \<Rightarrow> nat" where
  "spec_pitch_alignment k = (case k of Linear \<Rightarrow> 256 | BlockLinear _ _ \<Rightarrow> 64)"

definition spec_pitch :: "Descriptor \<Rightarrow> LayoutKind \<Rightarrow> nat \<Rightarrow> nat" where
  "spec_pitch d k m =
     round_up (spec_pitch_alignment k) (spec_width d m * unat (d_bytes_per_pixel d))"

definition spec_rows :: "Descriptor \<Rightarrow> LayoutKind \<Rightarrow> nat \<Rightarrow> nat" where
  "spec_rows d k m =
     (case k of Linear \<Rightarrow> spec_height d m
      | BlockLinear _ _ \<Rightarrow> round_up (8 * 2 ^ spec_tile d k m) (spec_height d m))"

definition spec_size :: "Descriptor \<Rightarrow> LayoutKind \<Rightarrow> nat \<Rightarrow> nat" where
  "spec_size d k m = spec_pitch d k m * spec_rows d k m"

definition spec_offset :: "Descriptor \<Rightarrow> LayoutKind \<Rightarrow> nat \<Rightarrow> nat" where
  "spec_offset d k m = (\<Sum>i < m. spec_size d k i)"

definition spec_layer_alignment :: "Descriptor \<Rightarrow> LayoutKind \<Rightarrow> nat" where
  "spec_layer_alignment d k =
     (case k of Linear \<Rightarrow> 1 | BlockLinear _ _ \<Rightarrow> 512 * 2 ^ spec_tile d k 0)"

definition spec_layer_pitch :: "Descriptor \<Rightarrow> LayoutKind \<Rightarrow> nat" where
  "spec_layer_pitch d k =
     (if 1 < unat (d_array_layers d)
      then round_up (spec_layer_alignment d k) (spec_offset d k (unat (d_mip_levels d)))
      else spec_offset d k (unat (d_mip_levels d)))"

definition spec_level :: "Descriptor \<Rightarrow> LayoutKind \<Rightarrow> nat \<Rightarrow> Level" where
  "spec_level d k m =
     \<lparr>l_offset = word_of_nat (spec_offset d k m), l_size = word_of_nat (spec_size d k m),
      l_width = word_of_nat (spec_width d m), l_height = word_of_nat (spec_height d m),
      l_row_pitch = word_of_nat (spec_pitch d k m),
      l_tile_y_log2 = word_of_nat (spec_tile d k m)\<rparr>"

definition spec_layout :: "Descriptor \<Rightarrow> LayoutKind \<Rightarrow> Layout" where
  "spec_layout d k =
     \<lparr>descriptor = d, kind = k,
      levels = map (spec_level d k) [0..<unat (d_mip_levels d)]
                 @ replicate (15 - unat (d_mip_levels d)) default_level,
      array_pitch = word_of_nat (spec_layer_pitch d k),
      total_size = word_of_nat (spec_layer_pitch d k * unat (d_array_layers d))\<rparr>"

section \<open>Bounds\<close>

lemma valid_bounds:
  assumes "valid_descriptor d k"
  shows "unat (d_width d) \<le> 16384" "unat (d_height d) \<le> 16384"
    and "unat (d_array_layers d) \<le> 2048" "unat (d_mip_levels d) \<le> 15"
    and "0 < unat (d_array_layers d)" "0 < unat (d_mip_levels d)"
  using assms by (auto simp: valid_descriptor_def)

lemma unat_bpp: "valid_descriptor d k \<Longrightarrow> 0 < unat (d_bytes_per_pixel d) \<and> unat (d_bytes_per_pixel d) \<le> 4"
  by (auto simp: valid_descriptor_def)

lemma spec_tile_height_le: "spec_tile_height h m \<le> m"
  by (simp add: spec_tile_height_def)

lemma spec_tile_le: "valid_descriptor d k \<Longrightarrow> spec_tile d k m \<le> 4"
  using spec_tile_height_le[of "spec_height d m"]
  by (auto simp: valid_descriptor_def spec_tile_def word_le_nat_alt split: LayoutKind.splits
      intro: le_trans)

lemma spec_extent_bounds:
  assumes "n \<le> (16384 :: nat)" "m < 15"
  shows "max (n div 2 ^ m) 1 \<le> 16384 div 2 ^ m"
proof -
  have "2 ^ m \<le> (2 :: nat) ^ 14" using assms by (intro power_increasing) auto
  then have "1 \<le> 16384 div (2 :: nat) ^ m" by (simp add: Suc_le_eq div_greater_zero_iff)
  with assms(1) show ?thesis by (simp add: div_le_mono)
qed

lemma spec_pitch_bounds:
  assumes "valid_descriptor d k" "m < 15"
  shows "spec_width d m * unat (d_bytes_per_pixel d) \<le> spec_pitch d k m"
    and "spec_pitch d k m \<le> 4 * (16384 div 2 ^ m) + 256" and "0 < spec_pitch d k m"
proof -
  let ?a = "spec_pitch_alignment k"
  have a: "0 < ?a" "?a \<le> 256" by (auto simp: spec_pitch_alignment_def split: LayoutKind.splits)
  have b: "0 < unat (d_bytes_per_pixel d)" "unat (d_bytes_per_pixel d) \<le> 4"
    using unat_bpp[OF assms(1)] by auto
  have w: "spec_width d m \<le> 16384 div 2 ^ m" "0 < spec_width d m"
    using assms spec_extent_bounds by (auto simp: valid_descriptor_def spec_width_def)
  show le: "spec_width d m * unat (d_bytes_per_pixel d) \<le> spec_pitch d k m"
    unfolding spec_pitch_def by (rule round_up_ge[OF a(1)])
  have "spec_width d m * unat (d_bytes_per_pixel d) \<le> 16384 div 2 ^ m * 4"
    using w(1) b(2) by (rule mult_le_mono)
  moreover have "spec_pitch d k m < spec_width d m * unat (d_bytes_per_pixel d) + ?a"
    unfolding spec_pitch_def by (rule round_up_less[OF a(1)])
  ultimately show "spec_pitch d k m \<le> 4 * (16384 div 2 ^ m) + 256" using a(2) by linarith
  have "0 < spec_width d m * unat (d_bytes_per_pixel d)" using w(2) b(1) by simp
  with le show "0 < spec_pitch d k m" by linarith
qed

lemma spec_rows_bounds:
  assumes "valid_descriptor d k" "m < 15"
  shows "spec_height d m \<le> spec_rows d k m" and "spec_rows d k m \<le> 16384 div 2 ^ m + 128"
    and "0 < spec_rows d k m"
proof -
  let ?a = "8 * 2 ^ spec_tile d k m :: nat"
  have "(2 :: nat) ^ spec_tile d k m \<le> 2 ^ 4"
    using spec_tile_le[OF assms(1)] by (intro power_increasing) auto
  then have a: "0 < ?a" "?a \<le> 128" by auto
  have h: "spec_height d m \<le> 16384 div 2 ^ m" "0 < spec_height d m"
    using assms spec_extent_bounds by (auto simp: valid_descriptor_def spec_height_def)
  show le: "spec_height d m \<le> spec_rows d k m"
    using round_up_ge[OF a(1)] by (auto simp: spec_rows_def split: LayoutKind.splits)
  show "spec_rows d k m \<le> 16384 div 2 ^ m + 128"
    using round_up_less[OF a(1), of "spec_height d m"] h a(2)
    by (auto simp: spec_rows_def split: LayoutKind.splits)
  from le h(2) show "0 < spec_rows d k m" by linarith
qed

definition size_bound :: "nat \<Rightarrow> nat" where
  "size_bound m = (4 * (16384 div 2 ^ m) + 256) * (16384 div 2 ^ m + 128)"

lemma spec_size_bounds:
  assumes "valid_descriptor d k" "m < 15"
  shows "spec_size d k m \<le> size_bound m" and "0 < spec_size d k m"
  using spec_pitch_bounds[OF assms] spec_rows_bounds[OF assms]
  by (auto simp: spec_size_def size_bound_def intro: mult_le_mono)

lemma size_bound_sum: "(\<Sum>i < 15. size_bound i) < 1500000000"
  by (simp add: size_bound_def lessThan_nat_numeral)

lemma spec_offset_bound:
  assumes "valid_descriptor d k" "m \<le> 15"
  shows "spec_offset d k m < 1500000000"
proof -
  have "spec_offset d k m \<le> (\<Sum>i < m. size_bound i)"
    unfolding spec_offset_def using assms by (intro sum_mono spec_size_bounds(1)) auto
  also have "\<dots> \<le> (\<Sum>i < 15. size_bound i)"
    using assms by (intro sum_mono2) auto
  finally show ?thesis using size_bound_sum by linarith
qed

lemma spec_offset_Suc: "spec_offset d k (Suc m) = spec_offset d k m + spec_size d k m"
  by (simp add: spec_offset_def)

lemma spec_offset_mono: "m \<le> n \<Longrightarrow> spec_offset d k m \<le> spec_offset d k n"
  unfolding spec_offset_def by (intro sum_mono2) auto

lemma spec_level_within:
  "m < n \<Longrightarrow> spec_offset d k m + spec_size d k m \<le> spec_offset d k n"
  using spec_offset_mono[of "Suc m" n d k] by (simp add: spec_offset_Suc)

lemma spec_layer_pitch_bounds:
  assumes "valid_descriptor d k"
  shows "spec_offset d k (unat (d_mip_levels d)) \<le> spec_layer_pitch d k"
    and "spec_layer_pitch d k < 1500010000" and "0 < spec_layer_pitch d k"
proof -
  let ?a = "spec_layer_alignment d k"
  let ?o = "spec_offset d k (unat (d_mip_levels d))"
  have "(2 :: nat) ^ spec_tile d k 0 \<le> 2 ^ 4"
    using spec_tile_le[OF assms] by (intro power_increasing) auto
  then have a: "0 < ?a" "?a \<le> 8192"
    by (auto simp: spec_layer_alignment_def split: LayoutKind.splits)
  have o: "?o < 1500000000" using assms by (intro spec_offset_bound) (auto simp: valid_descriptor_def)
  show le: "?o \<le> spec_layer_pitch d k"
    using round_up_ge[OF a(1)] by (auto simp: spec_layer_pitch_def)
  show "spec_layer_pitch d k < 1500010000"
    using round_up_less[OF a(1), of ?o] a(2) o by (auto simp: spec_layer_pitch_def)
  have "0 < ?o"
    using spec_level_within[of 0 "unat (d_mip_levels d)" d k] spec_size_bounds(2)[OF assms, of 0] assms
    by (simp add: valid_descriptor_def)
  with le show "0 < spec_layer_pitch d k" by linarith
qed

section \<open>The code computes the abstract plan\<close>

lemma align_Ok:
  assumes "a = word_of_nat (2 ^ k)" "k < 16" "unat v < 2 ^ 40"
  shows "\<exists>r. align v a = Ok r \<and> unat r = round_up (2 ^ k) (unat v)"
proof -
  have k: "(2 :: nat) ^ k \<le> 2 ^ 15" using assms(2) by (intro power_increasing) auto
  have m: "a - 1 = mask k"
    using assms(1) by (simp add: mask_eq_exp_minus_1)
  have "unat (mask k :: u64) = 2 ^ k - 1"
    using assms(2) by (intro unat_mask) simp
  then have "unat v + unat (mask k :: u64) < 2 ^ 64" using assms(3) k by simp
  then have "checked_add v (mask k) = Some (v + mask k)" by (simp add: checked_add_def)
  moreover have "unat ((v + mask k) AND NOT (mask k)) = round_up (2 ^ k) (unat v)"
    using assms(3) k by (intro unat_align_mask) simp
  ultimately show ?thesis by (simp add: align_def m)
qed

lemma tile_y_log2_spec: "unat (tile_y_log2 h m) = spec_tile_height (unat h) (unat m)"
proof -
  let ?g = "max (h div 8 + (if h mod 8 = 0 then 0 else 1)) 1 :: u32"
  have h: "unat h < 4294967296" by (rule unat_u32_less)
  have m8: "h mod 8 = 0 \<longleftrightarrow> unat h mod 8 = 0"
    by (simp add: word_unat_eq_iff unat_mod_distrib)
  have "unat (h div 8 + (if h mod 8 = 0 then 0 else 1)) = (unat h + 7) div 8"
  proof (cases "unat h mod 8 = 0")
    case True
    with m8 show ?thesis by (simp add: unat_div_distrib div_ceil_8)
  next
    case False
    have "unat (h div 8 + 1) = unat (h div 8) + unat (1 :: u32)"
      using h div_le_dividend[of "unat h" 8] by (intro unat_add_lt) (simp add: unat_div_distrib)
    with False m8 show ?thesis by (simp add: unat_div_distrib div_ceil_8)
  qed
  then have g: "unat ?g = max ((unat h + 7) div 8) 1" by (simp add: unat_max)
  have "1 \<le> ?g" by simp
  then have g1: "unat (?g - 1) = max ((unat h + 7) div 8) 1 - 1"
    using g by (subst unat_sub_le) auto
  have b: "bit_length (unat (?g - 1)) \<le> 32" by (rule bit_length_u32)
  have "unat (word_of_nat (32 - leading_zeros (?g - 1)) :: u8) = bit_length (unat (?g - 1))"
    using b by (simp add: leading_zeros_def unat_of_nat_lt)
  then show ?thesis
    by (simp only: tile_y_log2_def Let_def unat_min spec_tile_height_def g1)
qed

lemma valid_levels: "valid_descriptor d k \<Longrightarrow> m < unat (d_mip_levels d) \<Longrightarrow> m < 15"
  by (auto simp: valid_descriptor_def)

lemma unat_spec_extents:
  "unat (max (drop_bit m (d_width d)) 1) = spec_width d m"
  "unat (max (drop_bit m (d_height d)) 1) = spec_height d m"
  unfolding unat_max unat_drop_bit spec_width_def spec_height_def by simp_all

lemma word_of_unat: "unat (w :: 'a::len word) = n \<Longrightarrow> w = word_of_nat n"
  by auto

text \<open>One turn of the loop writes the level the abstract plan gives.\<close>

lemma plan_level_Ok:
  assumes v: "valid_descriptor d k" and m: "m < unat (d_mip_levels d)"
    and len: "length ls = 15" and cur: "unat cursor = spec_offset d k m"
  shows "\<exists>cursor'. plan_level d k m (ls, cursor) = Ok (ls[m := spec_level d k m], cursor')
    \<and> unat cursor' = spec_offset d k (Suc m)"
proof -
  have m15: "m < 15" using v m by (rule valid_levels)
  define w where "w = max (drop_bit m (d_width d)) 1"
  define h where "h = max (drop_bit m (d_height d)) 1"
  define y where "y = (case k of Linear \<Rightarrow> 0
    | BlockLinear base clamp \<Rightarrow> if clamp then tile_y_log2 h base else base)"
  define pa where "pa = (case k of Linear \<Rightarrow> 256 | BlockLinear _ _ \<Rightarrow> (64 :: u64))"
  have w: "unat w = spec_width d m" and h: "unat h = spec_height d m"
    by (simp_all only: w_def h_def unat_spec_extents)
  have y: "unat y = spec_tile d k m"
    by (auto simp: y_def spec_tile_def h tile_y_log2_spec split: LayoutKind.splits)
  have y4: "unat y \<le> 4" using spec_tile_le[OF v] y by simp
  note pb = spec_pitch_bounds[OF v m15] and rb = spec_rows_bounds[OF v m15]
  have wb: "unat (u64_from w * u64_from (d_bytes_per_pixel d))
      = spec_width d m * unat (d_bytes_per_pixel d)" by (simp add: w)
  have e16: "16384 div (2 :: nat) ^ m \<le> 16384" by (rule div_le_dividend)
  have p66: "spec_pitch d k m \<le> 66000" using pb(2) e16 by linarith
  have "unat (u64_from w * u64_from (d_bytes_per_pixel d)) \<le> 66000"
    unfolding wb using pb(1,2) e16 by linarith
  then have wlt: "unat (u64_from w * u64_from (d_bytes_per_pixel d)) < 2 ^ 40"
    by (rule le_less_trans) simp
  obtain pitch where pitch: "align (u64_from w * u64_from (d_bytes_per_pixel d)) pa = Ok pitch"
    "unat pitch = spec_pitch d k m"
  proof (cases k)
    case Linear
    then show thesis using align_Ok[of pa 8, OF _ _ wlt] that
      by (auto simp: pa_def wb spec_pitch_def spec_pitch_alignment_def simp del: unat_u64_from_mult)
  next
    case (BlockLinear b c)
    then show thesis using align_Ok[of pa 6, OF _ _ wlt] that
      by (auto simp: pa_def wb spec_pitch_def spec_pitch_alignment_def simp del: unat_u64_from_mult)
  qed
  obtain rows where rows: "(if k = Linear then Ok (u64_from h)
      else align (u64_from h) (push_bit (unat y) 8)) = Ok rows" "unat rows = spec_rows d k m"
  proof (cases k)
    case Linear
    then show thesis using that h by (simp add: spec_rows_def)
  next
    case (BlockLinear b c)
    have "push_bit (unat y) (8 :: u64) = word_of_nat (2 ^ (unat y + 3))"
      by (simp add: push_bit_eq_mult power_add mult.commute)
    moreover have "unat (u64_from h) < 2 ^ 40" using unat_u32_less[of h] by simp
    ultimately obtain r where "align (u64_from h) (push_bit (unat y) 8) = Ok r"
      "unat r = round_up (2 ^ (unat y + 3)) (unat (u64_from h))"
      using align_Ok[of "push_bit (unat y) 8" "unat y + 3" "u64_from h"] y4 by auto
    then show thesis using that BlockLinear h y by (simp add: spec_rows_def power_add mult.commute)
  qed
  have size: "unat pitch * unat rows = spec_size d k m" by (simp add: pitch rows spec_size_def)
  have off: "spec_offset d k (Suc m) < 1500000000" using v m15 by (intro spec_offset_bound) auto
  have cm: "checked_mul pitch rows = Some (pitch * rows)" "unat (pitch * rows) = spec_size d k m"
    using size off by (simp_all add: checked_mul_def unat_mult_lt spec_offset_Suc)
  have p32: "u32_try_from pitch = Some (ucast pitch)" "unat (ucast pitch :: u32) = spec_pitch d k m"
    using p66 pitch(2) by (simp_all add: u32_try_from_def unat_ucast_u32)
  have ca: "checked_add cursor (pitch * rows) = Some (cursor + pitch * rows)"
    "unat (cursor + pitch * rows) = spec_offset d k (Suc m)"
    using cur cm off by (simp_all add: checked_add_def unat_add_lt spec_offset_Suc)
  have lvl: "\<lparr>l_offset = cursor, l_size = pitch * rows, l_width = w, l_height = h,
      l_row_pitch = ucast pitch, l_tile_y_log2 = y\<rparr> = spec_level d k m"
    unfolding spec_level_def
    using word_of_unat[OF cur] word_of_unat[OF cm(2)] word_of_unat[OF w] word_of_unat[OF h]
      word_of_unat[OF p32(2)] word_of_unat[OF y] by simp
  have "plan_level d k m (ls, cursor) = Ok (ls[m := spec_level d k m], cursor + pitch * rows)"
    unfolding plan_level_def Let_def fst_conv snd_conv w_def[symmetric] h_def[symmetric]
      y_def[symmetric] pa_def[symmetric]
    using m15 len by (simp add: pitch rows cm p32 ca lvl)
  then show ?thesis using ca(2) by blast
qed

lemma plan_levels_Ok:
  assumes v: "valid_descriptor d k" and n: "n \<le> unat (d_mip_levels d)"
  shows "\<exists>cursor. for_each (plan_level d k) [0..<n] (replicate MAX_MIP_LEVELS default_level, 0)
      = Ok (map (spec_level d k) [0..<n] @ replicate (15 - n) default_level, cursor)
    \<and> unat cursor = spec_offset d k n"
  using n
proof (induction n)
  case 0
  show ?case by (simp add: spec_offset_def MAX_MIP_LEVELS_def)
next
  case (Suc n)
  then obtain cursor where IH:
    "for_each (plan_level d k) [0..<n] (replicate MAX_MIP_LEVELS default_level, 0)
      = Ok (map (spec_level d k) [0..<n] @ replicate (15 - n) default_level, cursor)"
    "unat cursor = spec_offset d k n" by auto
  have n15: "n < 15" using v Suc.prems by (intro valid_levels) auto
  let ?ls = "map (spec_level d k) [0..<n] @ replicate (15 - n) default_level"
  obtain cursor' where step: "plan_level d k n (?ls, cursor) = Ok (?ls[n := spec_level d k n], cursor')"
    "unat cursor' = spec_offset d k (Suc n)"
    using plan_level_Ok[OF v, of n ?ls cursor] Suc.prems IH(2) n15 by auto
  have "15 - n = Suc (15 - Suc n)" using n15 by simp
  then have "?ls[n := spec_level d k n]
      = map (spec_level d k) [0..<Suc n] @ replicate (15 - Suc n) default_level"
    by (simp add: list_update_append)
  with step IH show ?case by (simp add: for_each_append)
qed

lemma valid_descriptor_iff:
  "valid_descriptor d k \<longleftrightarrow>
     \<not> (d_width d = 0 \<or> d_height d = 0 \<or> MAX_DIMENSION < d_width d \<or> MAX_DIMENSION < d_height d
         \<or> d_array_layers d = 0 \<or> MAX_ARRAY_LAYERS < d_array_layers d
         \<or> d_bytes_per_pixel d \<notin> {1, 2, 4} \<or> d_mip_levels d = 0)
     \<and> \<not> (bit_length (max (unat (d_width d)) (unat (d_height d))) < unat (d_mip_levels d)
         \<or> MAX_MIP_LEVELS < unat (d_mip_levels d))
     \<and> \<not> (case k of Linear \<Rightarrow> False | BlockLinear base clamp \<Rightarrow>
            4 < base \<or> \<not> clamp \<and> (d_mip_levels d \<noteq> 1 \<or> d_array_layers d \<noteq> 1))
     \<and> \<not> (k = Linear \<and> (d_mip_levels d \<noteq> 1 \<or> d_array_layers d \<noteq> 1))"
  unfolding valid_descriptor_def MAX_DIMENSION_def MAX_ARRAY_LAYERS_def MAX_MIP_LEVELS_def
  by (cases k) (auto simp: word_le_nat_alt word_less_nat_alt unat_pos_iff not_less)

lemma plan_ilog2:
  assumes "d_width d \<noteq> 0"
  shows "\<exists>log. ilog2 (max (d_width d) (d_height d)) = Some log
    \<and> log + 1 = bit_length (max (unat (d_width d)) (unat (d_height d)))"
proof -
  have "0 < unat (d_width d)" using assms by (simp add: unat_pos_iff)
  then have pos: "0 < max (unat (d_width d)) (unat (d_height d))" by simp
  then have "max (d_width d) (d_height d) \<noteq> 0" by (metis less_numeral_extra(3) unat_0 unat_max)
  moreover have "0 < bit_length (max (unat (d_width d)) (unat (d_height d)))"
    using pos by (rule bit_length_pos)
  ultimately show ?thesis by (simp add: ilog2_def unat_max)
qed

lemma plan_invalid:
  assumes "\<not> valid_descriptor d k"
  shows "plan d k = Err InvalidDescriptor"
proof (cases "d_width d = 0 \<or> d_height d = 0 \<or> MAX_DIMENSION < d_width d
    \<or> MAX_DIMENSION < d_height d \<or> d_array_layers d = 0 \<or> MAX_ARRAY_LAYERS < d_array_layers d
    \<or> d_bytes_per_pixel d \<notin> {1, 2, 4} \<or> d_mip_levels d = 0")
  case True
  then show ?thesis unfolding plan_def by (rule if_P)
next
  case False
  then obtain log where log: "ilog2 (max (d_width d) (d_height d)) = Some log"
    "log + 1 = bit_length (max (unat (d_width d)) (unat (d_height d)))"
    using plan_ilog2 by blast
  note start = plan_def if_not_P[OF False] log(1) unwrap.simps and_then.simps
  consider (mips) "log + 1 < unat (d_mip_levels d) \<or> MAX_MIP_LEVELS < unat (d_mip_levels d)"
    | (other) "\<not> (log + 1 < unat (d_mip_levels d) \<or> MAX_MIP_LEVELS < unat (d_mip_levels d))"
      "(case k of Linear \<Rightarrow> False | BlockLinear base clamp \<Rightarrow>
          4 < base \<or> \<not> clamp \<and> (d_mip_levels d \<noteq> 1 \<or> d_array_layers d \<noteq> 1))
        \<or> k = Linear \<and> (d_mip_levels d \<noteq> 1 \<or> d_array_layers d \<noteq> 1)"
    using assms[unfolded valid_descriptor_iff] False unfolding log(2) by satx
  then show ?thesis
  proof cases
    case mips
    then show ?thesis by (simp only: start if_P)
  next
    case other
    show ?thesis unfolding start if_not_P[OF other(1)] using other(2) by auto
  qed
qed

lemma plan_valid:
  assumes v: "valid_descriptor d k"
  shows "plan d k = Ok (spec_layout d k)"
proof -
  let ?n = "unat (d_mip_levels d)"
  have w0: "d_width d \<noteq> 0" using v by (auto simp: valid_descriptor_def)
  obtain log where log: "ilog2 (max (d_width d) (d_height d)) = Some log"
    "log + 1 = bit_length (max (unat (d_width d)) (unat (d_height d)))"
    using plan_ilog2[OF w0] by blast
  let ?ls = "map (spec_level d k) [0..<?n] @ replicate (15 - ?n) default_level"
  obtain cursor where levels: "for_each (plan_level d k) [0..<?n]
      (replicate MAX_MIP_LEVELS default_level, 0) = Ok (?ls, cursor)"
    and cursor: "unat cursor = spec_offset d k ?n"
    using plan_levels_Ok[OF v, of ?n] by blast
  have n: "0 < ?n" "?n \<le> 15" using v by (auto simp: valid_descriptor_def)
  have tile: "unat (l_tile_y_log2 (?ls ! 0)) = spec_tile d k 0"
    using n spec_tile_le[OF v, of 0] by (simp add: nth_append spec_level_def unat_of_nat_lt)
  note lp = spec_layer_pitch_bounds[OF v]
  let ?a = "case k of Linear \<Rightarrow> 1
    | BlockLinear _ _ \<Rightarrow> push_bit (unat (l_tile_y_log2 (?ls ! 0))) 512"
  have t4: "spec_tile d k 0 \<le> 4" by (rule spec_tile_le[OF v])
  have c40: "unat cursor < 2 ^ 40" using lp(1,2) cursor by simp
  obtain pitch where pitch: "(if 1 < d_array_layers d then align cursor ?a else Ok cursor) = Ok pitch"
    "unat pitch = spec_layer_pitch d k"
  proof (cases "1 < d_array_layers d")
    case False
    then have "\<not> 1 < unat (d_array_layers d)" by (simp add: word_less_nat_alt)
    with False show thesis using that cursor by (simp add: spec_layer_pitch_def)
  next
    case True
    then have layers: "1 < unat (d_array_layers d)" by (simp add: word_less_nat_alt)
    then obtain b c where k: "k = BlockLinear b c"
      using v by (cases k) (auto simp: valid_descriptor_def)
    have "push_bit (spec_tile d k 0) (512 :: u64) = word_of_nat (2 ^ (spec_tile d k 0 + 9))"
      by (simp add: push_bit_eq_mult power_add mult.commute)
    then obtain r where "align cursor (push_bit (spec_tile d k 0) 512) = Ok r"
      "unat r = round_up (2 ^ (spec_tile d k 0 + 9)) (unat cursor)"
      using align_Ok[of "push_bit (spec_tile d k 0) 512" "spec_tile d k 0 + 9" cursor] t4 c40 by auto
    then show thesis
      using True layers that k tile cursor
      by (simp add: spec_layer_pitch_def spec_layer_alignment_def power_add mult.commute)
  qed
  have p32: "u32_try_from pitch = Some (ucast pitch)" "unat (ucast pitch :: u32) = spec_layer_pitch d k"
    using lp(2) pitch(2) by (simp_all add: u32_try_from_def unat_ucast_u32)
  have "spec_layer_pitch d k * unat (d_array_layers d) < 4294967296 * 4294967296"
    using lp(2) unat_u32_less[of "d_array_layers d"] by (intro mult_strict_mono) auto
  then have cm: "checked_mul pitch (u64_from (d_array_layers d))
      = Some (pitch * u64_from (d_array_layers d))"
    "unat (pitch * u64_from (d_array_layers d)) = spec_layer_pitch d k * unat (d_array_layers d)"
    using pitch(2) by (simp_all add: checked_mul_def unat_mult_lt)
  have w1: "ucast pitch = (word_of_nat (spec_layer_pitch d k) :: u32)"
    using word_of_unat[OF p32(2)] .
  have w2: "pitch * u64_from (d_array_layers d)
      = word_of_nat (spec_layer_pitch d k * unat (d_array_layers d))"
    using word_of_unat[OF cm(2)] .
  note c = v[unfolded valid_descriptor_iff, folded log(2)]
  note checks = if_not_P[OF conjunct1[OF c]] if_not_P[OF conjunct1[OF conjunct2[OF c]]]
    if_not_P[OF conjunct1[OF conjunct2[OF conjunct2[OF c]]]]
    if_not_P[OF conjunct2[OF conjunct2[OF conjunct2[OF c]]]]
  show ?thesis
    by (simp only: plan_def checks log(1) unwrap.simps and_then.simps levels prod.case pitch(1) p32(1) cm(1)
        ok_or.simps w1 w2 spec_layout_def)
qed

end
