(* ===== verification/Image_Address.thy ===== *)
theory Image_Address
  imports Image_Layout_Plan
begin

text \<open>
  Addresses of bytes inside one mip level, on natural numbers. \<open>level_addressing\<close> is the contract
  an addressing mode gives its client: inside a well-formed level every byte has an address below
  the level's size and no two bytes share one. The pitch-linear and the block-linear (GOB swizzled)
  modes of the code are its two interpretations.
\<close>

lemma radix_unique:
  "a < n \<Longrightarrow> b < n \<Longrightarrow> q * n + a = r * n + b \<longleftrightarrow> q = r \<and> a = (b :: nat)"
proof
  assume a: "a < n" and b: "b < n" and e: "q * n + a = r * n + b"
  have "(q * n + a) div n = (r * n + b) div n" "(q * n + a) mod n = (r * n + b) mod n"
    using e by simp_all
  with a b show "q = r \<and> a = b" by simp
qed simp

lemma radix_less: "q < m \<Longrightarrow> a < n \<Longrightarrow> q * n + a < m * (n :: nat)"
proof -
  assume "q < m" "a < n"
  then have "q * n + a < Suc q * n" by simp
  also have "\<dots> \<le> m * n" using \<open>q < m\<close> by (intro mult_le_mono1) simp
  finally show ?thesis .
qed

locale level_addressing =
  fixes well_formed :: "nat \<Rightarrow> nat \<Rightarrow> nat \<Rightarrow> bool"
    and local_address :: "nat \<Rightarrow> nat \<Rightarrow> nat \<Rightarrow> nat \<Rightarrow> nat"
  assumes address_within: "well_formed tile pitch rows \<Longrightarrow> x < pitch \<Longrightarrow> y < rows
      \<Longrightarrow> local_address tile pitch x y < pitch * rows"
    and address_injective: "well_formed tile pitch rows \<Longrightarrow> x < pitch \<Longrightarrow> y < rows \<Longrightarrow> x' < pitch
      \<Longrightarrow> y' < rows \<Longrightarrow> local_address tile pitch x y = local_address tile pitch x' y'
      \<Longrightarrow> x = x' \<and> y = y'"
begin

lemma address_bij:
  assumes "well_formed tile pitch rows"
  shows "bij_betw (\<lambda>(x, y). local_address tile pitch x y) ({..<pitch} \<times> {..<rows}) {..<pitch * rows}"
proof -
  let ?f = "\<lambda>(x, y). local_address tile pitch x y"
  have inj: "inj_on ?f ({..<pitch} \<times> {..<rows})"
    using address_injective[OF assms] by (auto simp: inj_on_def)
  have "?f ` ({..<pitch} \<times> {..<rows}) \<subseteq> {..<pitch * rows}"
    using address_within[OF assms] by auto
  moreover have "card (?f ` ({..<pitch} \<times> {..<rows})) = card {..<pitch * rows}"
    by (simp add: card_image[OF inj] card_cartesian_product)
  ultimately have "?f ` ({..<pitch} \<times> {..<rows}) = {..<pitch * rows}"
    by (intro card_subset_eq) auto
  with inj show ?thesis by (simp add: bij_betw_def)
qed

text \<open>Two bytes of an image stored at bases that keep the levels apart never share an address.\<close>

lemma based_injective:
  assumes "well_formed t p r" "well_formed t' p' r'" "x < p" "y < r" "x' < p'" "y' < r'"
    and "base + p * r \<le> base' \<or> base' + p' * r' \<le> base \<or> base = base' \<and> t = t' \<and> p = p' \<and> r = r'"
    and "base + local_address t p x y = base' + local_address t' p' x' y'"
  shows "base = base' \<and> x = x' \<and> y = y'"
proof -
  have "local_address t p x y < p * r" "local_address t' p' x' y' < p' * r'"
    using address_within assms by blast+
  with assms(7,8) have "base = base' \<and> t = t' \<and> p = p' \<and> r = r'" by linarith
  with assms show ?thesis using address_injective[of t p r x y x' y'] by simp
qed

end

section \<open>Pitch-linear levels\<close>

definition linear_well_formed :: "nat \<Rightarrow> nat \<Rightarrow> nat \<Rightarrow> bool" where
  "linear_well_formed tile pitch rows \<longleftrightarrow> 0 < pitch"

definition linear_local :: "nat \<Rightarrow> nat \<Rightarrow> nat \<Rightarrow> nat \<Rightarrow> nat" where
  "linear_local tile pitch x y = y * pitch + x"

interpretation linear_levels: level_addressing linear_well_formed linear_local
proof unfold_locales
  fix tile pitch rows x y :: nat
  assume "x < pitch" "y < rows"
  then have "y * pitch + x < rows * pitch" by (intro radix_less)
  then show "linear_local tile pitch x y < pitch * rows"
    by (simp add: linear_local_def mult.commute)
qed (auto simp: linear_local_def radix_unique)

section \<open>Block-linear levels\<close>

definition block_linear_well_formed :: "nat \<Rightarrow> nat \<Rightarrow> nat \<Rightarrow> bool" where
  "block_linear_well_formed tile pitch rows \<longleftrightarrow>
     0 < pitch \<and> 64 dvd pitch \<and> 8 * 2 ^ tile dvd rows"

definition block_linear_local :: "nat \<Rightarrow> nat \<Rightarrow> nat \<Rightarrow> nat \<Rightarrow> nat" where
  "block_linear_local tile pitch x y =
     ((y div (8 * 2 ^ tile)) * (pitch div 64) + x div 64) * (512 * 2 ^ tile)
     + ((y mod (8 * 2 ^ tile)) div 8) * 512 + ((x mod 64) div 32) * 256 + ((y mod 8) div 2) * 64
     + ((x mod 32) div 16) * 32 + (y mod 2) * 16 + x mod 16"

text \<open>The address as mixed radix digits, most significant first.\<close>

definition block_digits :: "nat \<Rightarrow> nat \<Rightarrow> nat \<Rightarrow> nat \<Rightarrow> nat" where
  "block_digits tile pitch x y =
     ((((((y div (8 * 2 ^ tile)) * (pitch div 64) + x div 64) * 2 ^ tile
        + (y mod (8 * 2 ^ tile)) div 8) * 2 + (x mod 64) div 32) * 4 + (y mod 8) div 2) * 2
        + (x mod 32) div 16) * 2 + y mod 2"

lemma block_linear_local_digits:
  "block_linear_local tile pitch x y = block_digits tile pitch x y * 16 + x mod 16"
  by (simp add: block_linear_local_def block_digits_def algebra_simps)

lemma row_digit_bound: "(y mod (8 * 2 ^ tile)) div 8 < (2 :: nat) ^ tile"
proof -
  have "y mod (8 * 2 ^ tile) < 8 * 2 ^ tile" by simp
  then show ?thesis by (simp add: less_mult_imp_div_less mult.commute)
qed

lemma digit_bounds:
  "(x mod 64) div 32 < (2 :: nat)" "(y mod 8) div 2 < (4 :: nat)" "(x mod 32) div 16 < (2 :: nat)"
  "y mod 2 < (2 :: nat)" "x mod 16 < (16 :: nat)"
  by (simp_all add: less_mult_imp_div_less)

lemma x_from_digits: "x = 64 * (x div 64) + 32 * ((x mod 64) div 32) + 16 * ((x mod 32) div 16) + x mod (16 :: nat)"
proof -
  have "x mod 64 = 32 * (x mod 64 div 32) + x mod 64 mod 32" by simp
  moreover have "x mod 64 mod 32 = x mod 32" by (simp add: mod_mod_cancel)
  moreover have "x mod 32 = 16 * (x mod 32 div 16) + x mod 32 mod 16" by simp
  moreover have "x mod 32 mod 16 = x mod 16" by (simp add: mod_mod_cancel)
  moreover have "x = 64 * (x div 64) + x mod 64" by simp
  ultimately show ?thesis by linarith
qed

lemma y_from_digits:
  "y = 8 * 2 ^ tile * (y div (8 * 2 ^ tile)) + 8 * ((y mod (8 * 2 ^ tile)) div 8)
     + 2 * ((y mod 8) div 2) + y mod (2 :: nat)"
proof -
  have "y mod (8 * 2 ^ tile) mod 8 = y mod 8" by (simp add: mod_mod_cancel)
  moreover have "y mod (8 * 2 ^ tile)
      = 8 * (y mod (8 * 2 ^ tile) div 8) + y mod (8 * 2 ^ tile) mod 8" by simp
  moreover have "y mod 8 = 2 * (y mod 8 div 2) + y mod 8 mod 2" by simp
  moreover have "y mod 8 mod 2 = y mod 2" by (simp add: mod_mod_cancel)
  moreover have "y = 8 * 2 ^ tile * (y div (8 * 2 ^ tile)) + y mod (8 * 2 ^ tile)" by simp
  ultimately show ?thesis by linarith
qed

lemma block_linear_local_injective:
  assumes "64 dvd pitch" "x < pitch" "x' < pitch"
    and "block_linear_local tile pitch x y = block_linear_local tile pitch x' y'"
  shows "x = x' \<and> y = y'"
proof -
  have bx: "x div 64 < pitch div 64" "x' div 64 < pitch div 64"
    using assms(1-3) by (auto simp: less_mult_imp_div_less dvd_def)
  have "block_digits tile pitch x y * 16 + x mod 16 = block_digits tile pitch x' y' * 16 + x' mod 16"
    using assms(4) by (simp only: block_linear_local_digits)
  then have "y div (8 * 2 ^ tile) = y' div (8 * 2 ^ tile)" "x div 64 = x' div 64"
    "(y mod (8 * 2 ^ tile)) div 8 = (y' mod (8 * 2 ^ tile)) div 8"
    "(x mod 64) div 32 = (x' mod 64) div 32" "(y mod 8) div 2 = (y' mod 8) div 2"
    "(x mod 32) div 16 = (x' mod 32) div 16" "y mod 2 = y' mod 2" "x mod 16 = x' mod 16"
    by (simp_all only: block_digits_def radix_unique row_digit_bound digit_bounds bx simp_thms)
  then show ?thesis
    using x_from_digits[of x] x_from_digits[of x'] y_from_digits[of y tile]
      y_from_digits[of y' tile] by simp
qed

lemma block_linear_local_within:
  assumes "64 dvd pitch" "8 * 2 ^ tile dvd rows" "x < pitch" "y < rows"
  shows "block_linear_local tile pitch x y < pitch * rows"
proof -
  obtain P where P: "pitch = 64 * P" using assms(1) by (auto simp: dvd_def)
  obtain R where R: "rows = 8 * 2 ^ tile * R" using assms(2) by (auto simp: dvd_def)
  have "x div 64 < P" using assms(3) P by (simp add: less_mult_imp_div_less)
  moreover have "y div (8 * 2 ^ tile) < R"
    using assms(4) R by (simp add: less_mult_imp_div_less mult.commute)
  ultimately have "y div (8 * 2 ^ tile) * P + x div 64 < R * P" by (intro radix_less)
  then have "block_digits tile pitch x y * 16 + x mod 16 < R * P * 2 ^ tile * 2 * 4 * 2 * 2 * 16"
    unfolding block_digits_def P
    by (intro radix_less row_digit_bound digit_bounds) simp
  also have "\<dots> = pitch * rows" by (simp add: P R)
  finally show ?thesis by (simp only: block_linear_local_digits)
qed

interpretation block_levels: level_addressing block_linear_well_formed block_linear_local
proof unfold_locales
  fix tile pitch rows x y :: nat
  assume "block_linear_well_formed tile pitch rows" "x < pitch" "y < rows"
  then show "block_linear_local tile pitch x y < pitch * rows"
    by (intro block_linear_local_within) (auto simp: block_linear_well_formed_def)
next
  fix tile pitch rows x y x' y' :: nat
  assume "block_linear_well_formed tile pitch rows" "x < pitch" "x' < pitch"
    and "block_linear_local tile pitch x y = block_linear_local tile pitch x' y'"
  then show "x = x' \<and> y = y'"
    by (intro block_linear_local_injective) (auto simp: block_linear_well_formed_def)
qed

end
