(* ===== verification/Image_Layout_Props.thy ===== *)
theory Image_Layout_Props
  imports Image_Address
begin

text \<open>
  Facts about planned images: what \<open>subresource\<close>, \<open>transfer\<close> and \<open>byte_offset\<close> return on a
  layout made by \<open>plan\<close>, all read on natural numbers, and the properties built on them.
\<close>

section \<open>Planned layouts\<close>

lemma plan_eq_Ok: "plan d k = Ok L \<longleftrightarrow> valid_descriptor d k \<and> L = spec_layout d k"
  by (cases "valid_descriptor d k") (auto simp: plan_valid plan_invalid)

lemma spec_layout_fields [simp]:
  "descriptor (spec_layout d k) = d" "kind (spec_layout d k) = k"
  by (simp_all add: spec_layout_def)

lemma spec_layout_levels:
  "valid_descriptor d k \<Longrightarrow> length (levels (spec_layout d k)) = 15"
  "m < unat (d_mip_levels d) \<Longrightarrow> levels (spec_layout d k) ! m = spec_level d k m"
  by (auto simp: spec_layout_def valid_descriptor_def nth_append)

lemma spec_extent_le:
  assumes "valid_descriptor d k"
  shows "spec_width d m \<le> 16384" "spec_height d m \<le> 16384"
  using valid_bounds(1,2)[OF assms] div_le_dividend[of "unat (d_width d)" "2 ^ m"]
    div_le_dividend[of "unat (d_height d)" "2 ^ m"]
  unfolding spec_width_def spec_height_def by linarith+

lemma spec_pitch_le: "valid_descriptor d k \<Longrightarrow> m < 15 \<Longrightarrow> spec_pitch d k m \<le> 65792"
  using spec_pitch_bounds(2)[of d k m] div_le_dividend[of 16384 "2 ^ m"] by linarith

lemma spec_level_fields:
  assumes "valid_descriptor d k" "m < unat (d_mip_levels d)"
  shows "unat (l_offset (spec_level d k m)) = spec_offset d k m"
    and "unat (l_size (spec_level d k m)) = spec_size d k m"
    and "unat (l_width (spec_level d k m)) = spec_width d m"
    and "unat (l_height (spec_level d k m)) = spec_height d m"
    and "unat (l_row_pitch (spec_level d k m)) = spec_pitch d k m"
    and "unat (l_tile_y_log2 (spec_level d k m)) = spec_tile d k m"
proof -
  have m: "m < 15" using assms by (rule valid_levels)
  note spec_level_def [simp] and spec_offset_bound[of d k m] spec_offset_bound[of d k "Suc m"]
  then have off: "spec_offset d k m < 1500000000" "spec_size d k m < 1500000000"
    using assms(1) m by (auto simp: spec_offset_Suc)
  show "unat (l_offset (spec_level d k m)) = spec_offset d k m"
    "unat (l_size (spec_level d k m)) = spec_size d k m"
    using off by (simp_all add: unat_of_nat_lt)
  show "unat (l_width (spec_level d k m)) = spec_width d m"
    "unat (l_height (spec_level d k m)) = spec_height d m"
    using spec_extent_le[OF assms(1), of m] by (simp_all add: unat_of_nat_lt)
  show "unat (l_row_pitch (spec_level d k m)) = spec_pitch d k m"
    using spec_pitch_le[OF assms(1) m] by (simp add: unat_of_nat_lt)
  show "unat (l_tile_y_log2 (spec_level d k m)) = spec_tile d k m"
    using spec_tile_le[OF assms(1), of m] by (simp add: unat_of_nat_lt)
qed

lemma spec_layout_sizes:
  assumes "valid_descriptor d k"
  shows "unat (array_pitch (spec_layout d k)) = spec_layer_pitch d k"
    and "unat (total_size (spec_layout d k)) = spec_layer_pitch d k * unat (d_array_layers d)"
proof -
  note lp = spec_layer_pitch_bounds(2)[OF assms]
  show "unat (array_pitch (spec_layout d k)) = spec_layer_pitch d k"
    using lp by (simp add: spec_layout_def unat_of_nat_lt)
  have "unat (d_array_layers d) \<le> 2048" using assms by (simp add: valid_descriptor_def)
  with lp have "spec_layer_pitch d k * unat (d_array_layers d) \<le> 1500010000 * 2048"
    by (intro mult_le_mono) auto
  then have "spec_layer_pitch d k * unat (d_array_layers d) < 2 ^ LENGTH(64)" by simp
  then show "unat (total_size (spec_layout d k)) = spec_layer_pitch d k * unat (d_array_layers d)"
    unfolding spec_layout_def Layout.simps by (rule unat_of_nat_lt)
qed

section \<open>Subresources\<close>

definition sub_base :: "Descriptor \<Rightarrow> LayoutKind \<Rightarrow> nat \<Rightarrow> nat \<Rightarrow> nat" where
  "sub_base d k mip layer = layer * spec_layer_pitch d k + spec_offset d k mip"

lemma sub_base_within:
  assumes "valid_descriptor d k" "mip < unat (d_mip_levels d)" "layer < unat (d_array_layers d)"
  shows "sub_base d k mip layer + spec_size d k mip
    \<le> spec_layer_pitch d k * unat (d_array_layers d)"
    and "spec_layer_pitch d k * unat (d_array_layers d) < 2 ^ 42"
proof -
  have "spec_offset d k mip + spec_size d k mip \<le> spec_layer_pitch d k"
    using spec_level_within[OF assms(2), of d k] spec_layer_pitch_bounds(1)[OF assms(1)] by linarith
  then have "sub_base d k mip layer + spec_size d k mip \<le> Suc layer * spec_layer_pitch d k"
    by (simp add: sub_base_def)
  also have "\<dots> \<le> unat (d_array_layers d) * spec_layer_pitch d k"
    using assms(3) by (intro mult_le_mono1) simp
  finally show "sub_base d k mip layer + spec_size d k mip
    \<le> spec_layer_pitch d k * unat (d_array_layers d)" by (simp add: mult.commute)
  have "unat (d_array_layers d) \<le> 2048" using assms by (simp add: valid_descriptor_def)
  then have "spec_layer_pitch d k * unat (d_array_layers d) \<le> 1500010000 * 2048"
    using spec_layer_pitch_bounds(2)[OF assms(1)] by (intro mult_le_mono) auto
  then show "spec_layer_pitch d k * unat (d_array_layers d) < 2 ^ 42" by simp
qed

lemma sub_base_disjoint:
  assumes "valid_descriptor d k" "m < unat (d_mip_levels d)" "m' < unat (d_mip_levels d)"
    and "(m, l) \<noteq> (m', l')"
  shows "sub_base d k m l + spec_size d k m \<le> sub_base d k m' l'
    \<or> sub_base d k m' l' + spec_size d k m' \<le> sub_base d k m l"
proof -
  let ?P = "spec_layer_pitch d k"
  have in_layer: "spec_offset d k i + spec_size d k i \<le> ?P" if "i < unat (d_mip_levels d)" for i
    using spec_level_within[OF that, of d k] spec_layer_pitch_bounds(1)[OF assms(1)] by linarith
  have later: "sub_base d k i a + spec_size d k i \<le> sub_base d k j b"
    if "a < b" "i < unat (d_mip_levels d)" for i j a b
  proof -
    have "sub_base d k i a + spec_size d k i \<le> Suc a * ?P" using in_layer[OF that(2)] by (simp add: sub_base_def)
    also have "\<dots> \<le> b * ?P" using that(1) by (intro mult_le_mono1) simp
    finally show ?thesis by (simp add: sub_base_def)
  qed
  show ?thesis
  proof (cases l l' rule: linorder_cases)
    case equal
    with assms(4) have "m < m' \<or> m' < m" by auto
    then show ?thesis
      using spec_level_within[of m m' d k] spec_level_within[of m' m d k] equal
      by (auto simp: sub_base_def)
  qed (use later assms in auto)
qed

lemma subresource_spec:
  assumes v: "valid_descriptor d k"
    and mip: "unat mip < unat (d_mip_levels d)" and layer: "unat layer < unat (d_array_layers d)"
  shows "\<exists>s. subresource (spec_layout d k) mip layer = Ok s
    \<and> unat (s_offset s) = sub_base d k (unat mip) (unat layer)
    \<and> s_level s = spec_level d k (unat mip) \<and> s_layer s = layer \<and> s_mip_level s = mip"
proof -
  let ?L = "spec_layout d k"
  have n: "unat mip < length (levels ?L)"
    using spec_layout_levels(1)[OF v] mip v by (simp add: valid_descriptor_def)
  have mul: "unat (u64_from layer * u64_from (array_pitch ?L)) = unat layer * spec_layer_pitch d k"
    by (simp add: spec_layout_sizes[OF v])
  have lt: "sub_base d k (unat mip) (unat layer) < 2 ^ 42"
    using sub_base_within[OF v mip layer] by linarith
  have m: "checked_mul (u64_from layer) (u64_from (array_pitch ?L))
      = Some (u64_from layer * u64_from (array_pitch ?L))"
    using lt by (simp add: checked_mul_def spec_layout_sizes[OF v] sub_base_def)
  have "unat layer * spec_layer_pitch d k + spec_offset d k (unat mip) < 2 ^ LENGTH(64)"
    using lt by (simp add: sub_base_def)
  note a = checked_add_nat[OF mul spec_level_fields(1)[OF v mip] this]
  have "\<not> (d_mip_levels (descriptor ?L) \<le> mip \<or> d_array_layers (descriptor ?L) \<le> layer)"
    using mip layer by (simp add: word_le_nat_alt)
  then show ?thesis
    using n m a by (simp add: subresource_def Let_def spec_layout_levels(2)[OF mip] sub_base_def)
qed

lemma subresource_eq_Ok:
  assumes v: "valid_descriptor d k"
  shows "subresource (spec_layout d k) mip layer = Ok s \<longleftrightarrow>
    unat mip < unat (d_mip_levels d) \<and> unat layer < unat (d_array_layers d)
    \<and> unat (s_offset s) = sub_base d k (unat mip) (unat layer)
    \<and> s_level s = spec_level d k (unat mip) \<and> s_layer s = layer \<and> s_mip_level s = mip"
    (is "?l = ?r")
proof (cases "unat mip < unat (d_mip_levels d) \<and> unat layer < unat (d_array_layers d)")
  case False
  then have "d_mip_levels d \<le> mip \<or> d_array_layers d \<le> layer" by (simp add: word_le_nat_alt not_less)
  then have "subresource (spec_layout d k) mip layer = Err OutOfBounds" by (simp add: subresource_def)
  then show ?thesis using False by auto
next
  case True
  then obtain s' where s': "subresource (spec_layout d k) mip layer = Ok s'"
    "unat (s_offset s') = sub_base d k (unat mip) (unat layer)"
    "s_level s' = spec_level d k (unat mip)" "s_layer s' = layer" "s_mip_level s' = mip"
    using subresource_spec[OF v] by blast
  have "?r \<longleftrightarrow> s = s'" using s'(2-5) True by (auto simp: word_unat_eq_iff[where 'a=64] intro: Subresource.equality)
  then show ?thesis using s'(1) by auto
qed

section \<open>Transfers\<close>

lemma checked_add_above:
  "(case checked_add x w of None \<Rightarrow> True | Some e \<Rightarrow> b < e) \<longleftrightarrow> unat b < unat x + unat (w :: u32)"
proof (cases "unat x + unat w < 2 ^ LENGTH(32)")
  case True
  then show ?thesis by (simp add: checked_add_def word_less_nat_alt unat_add_lt)
next
  case False
  then show ?thesis using unat_u32_less[of b] by (simp add: checked_add_def)
qed

lemma word_of_nat_u64_sum:
  "unat (a :: u64) = m \<Longrightarrow> unat b = n \<Longrightarrow> m + n < 2 ^ 64 \<Longrightarrow> unat (a + b) = m + n"
  by (simp add: unat_add_lt)

text \<open>Every pixel row of an accepted rectangle lies in its level.\<close>

lemma rectangle_within_level:
  assumes v: "valid_descriptor d k" and m: "m < 15"
    and "x + w \<le> spec_width d m" "y + h \<le> spec_height d m" "0 < h"
  shows "y * spec_pitch d k m + x * unat (d_bytes_per_pixel d)
      + ((h - 1) * spec_pitch d k m + w * unat (d_bytes_per_pixel d)) \<le> spec_size d k m"
proof -
  let ?b = "unat (d_bytes_per_pixel d)" and ?p = "spec_pitch d k m"
  have "(x + w) * ?b \<le> spec_width d m * ?b" using assms(3) by (rule mult_le_mono1)
  then have row: "(x + w) * ?b \<le> ?p" using spec_pitch_bounds(1)[OF v m] by linarith
  have "y * ?p + x * ?b + ((h - 1) * ?p + w * ?b) = (y + (h - 1)) * ?p + (x + w) * ?b"
    by (simp add: algebra_simps)
  also have "\<dots> \<le> (y + (h - 1)) * ?p + ?p" using row by simp
  also have "\<dots> = (y + h) * ?p" using assms(5) by (cases h) (simp_all add: algebra_simps)
  also have "\<dots> \<le> spec_rows d k m * ?p"
    using assms(4) spec_rows_bounds(1)[OF v m] by (intro mult_le_mono1) linarith
  finally show ?thesis by (simp add: spec_size_def mult.commute)
qed

lemma transfer_accepts:
  assumes v: "valid_descriptor d k"
    and mip: "unat mip < unat (d_mip_levels d)" and layer: "unat layer < unat (d_array_layers d)"
    and w: "w \<noteq> 0" and h: "h \<noteq> 0" and xw: "unat x + unat w \<le> spec_width d (unat mip)"
    and yh: "unat y + unat h \<le> spec_height d (unat mip)"
  shows "\<exists>offset. transfer (spec_layout d k) mip layer x y w h
      = Ok \<lparr>t_offset = offset, t_row_pitch = l_row_pitch (spec_level d k (unat mip)),
      t_array_pitch = array_pitch (spec_layout d k), t_x = x, t_y = y, t_width = w, t_height = h\<rparr>
    \<and> unat offset = sub_base d k (unat mip) (unat layer)
        + (unat y * spec_pitch d k (unat mip) + unat x * unat (d_bytes_per_pixel d))"
proof -
  have m15: "unat mip < 15" by (rule valid_levels[OF v mip])
  obtain s where s: "subresource (spec_layout d k) mip layer = Ok s"
    "unat (s_offset s) = sub_base d k (unat mip) (unat layer)"
    "s_level s = spec_level d k (unat mip)"
    using subresource_spec[OF v mip layer] by blast
  let ?row = "u64_from y * u64_from (l_row_pitch (spec_level d k (unat mip)))"
  let ?col = "u64_from x * u64_from (d_bytes_per_pixel d)"
  have row: "unat ?row = unat y * spec_pitch d k (unat mip)"
    by (simp add: spec_level_fields[OF v mip])
  have col: "unat ?col = unat x * unat (d_bytes_per_pixel d)" by simp
  have "0 < unat h" using h by (simp add: unat_pos_iff)
  note rectangle_within_level[OF v m15 xw yh this]
  then have "sub_base d k (unat mip) (unat layer) + (unat y * spec_pitch d k (unat mip)
      + unat x * unat (d_bytes_per_pixel d)) < 2 ^ 42"
    using sub_base_within[OF v mip layer] by linarith
  then have lt: "sub_base d k (unat mip) (unat layer) + unat y * spec_pitch d k (unat mip)
      + unat x * unat (d_bytes_per_pixel d) < 2 ^ LENGTH(64)" by simp
  then have lt1: "sub_base d k (unat mip) (unat layer) + unat y * spec_pitch d k (unat mip)
      < 2 ^ LENGTH(64)" by simp
  note a1 = checked_add_nat[OF s(2) row lt1]
  note a2 = checked_add_nat[OF a1(2) col lt]
  have chk: "\<not> (w = 0 \<or> h = 0
        \<or> (case checked_add x w of None \<Rightarrow> True | Some e \<Rightarrow> l_width (s_level s) < e)
        \<or> (case checked_add y h of None \<Rightarrow> True | Some e \<Rightarrow> l_height (s_level s) < e))"
    using w h xw yh by (simp add: checked_add_above s(3) spec_level_fields[OF v mip])
  have "transfer (spec_layout d k) mip layer x y w h = Ok \<lparr>t_offset = s_offset s + ?row + ?col,
      t_row_pitch = l_row_pitch (spec_level d k (unat mip)),
      t_array_pitch = array_pitch (spec_layout d k), t_x = x, t_y = y, t_width = w, t_height = h\<rparr>"
    unfolding transfer_def s(1) and_then.simps s(3) if_not_P[OF chk[unfolded s(3)]] spec_layout_fields a1(1)
      bind.bind_lunit a2(1) ok_or.simps ..
  then show ?thesis using a2(2) by (auto simp: add.assoc)
qed

lemma transfer_eq_Ok:
  assumes v: "valid_descriptor d k"
  shows "transfer (spec_layout d k) mip layer x y w h = Ok t \<longleftrightarrow>
    unat mip < unat (d_mip_levels d) \<and> unat layer < unat (d_array_layers d)
    \<and> w \<noteq> 0 \<and> h \<noteq> 0 \<and> unat x + unat w \<le> spec_width d (unat mip)
    \<and> unat y + unat h \<le> spec_height d (unat mip)
    \<and> unat (t_offset t) = sub_base d k (unat mip) (unat layer)
        + (unat y * spec_pitch d k (unat mip) + unat x * unat (d_bytes_per_pixel d))
    \<and> t_row_pitch t = l_row_pitch (spec_level d k (unat mip))
    \<and> t_array_pitch t = array_pitch (spec_layout d k)
    \<and> t_x t = x \<and> t_y t = y \<and> t_width t = w \<and> t_height t = h"
    (is "?l = ?r")
proof (cases "unat mip < unat (d_mip_levels d) \<and> unat layer < unat (d_array_layers d)
    \<and> w \<noteq> 0 \<and> h \<noteq> 0 \<and> unat x + unat w \<le> spec_width d (unat mip)
    \<and> unat y + unat h \<le> spec_height d (unat mip)")
  case False
  show ?thesis
  proof
    assume ?l
    then obtain s where s: "subresource (spec_layout d k) mip layer = Ok s"
      and chk: "\<not> (w = 0 \<or> h = 0
        \<or> (case checked_add x w of None \<Rightarrow> True | Some e \<Rightarrow> l_width (s_level s) < e)
        \<or> (case checked_add y h of None \<Rightarrow> True | Some e \<Rightarrow> l_height (s_level s) < e))"
      unfolding transfer_def by (auto simp: outcome_simps simp del: de_Morgan_disj)
    from s have "unat mip < unat (d_mip_levels d)" "unat layer < unat (d_array_layers d)"
      "s_level s = spec_level d k (unat mip)"
      by (auto simp: subresource_eq_Ok[OF v])
    with chk False show ?r
      by (simp add: checked_add_above spec_level_fields[OF v] not_less)
  next
    assume ?r
    with False show ?l by blast
  qed
next
  case True
  then obtain offset where "transfer (spec_layout d k) mip layer x y w h
      = Ok \<lparr>t_offset = offset, t_row_pitch = l_row_pitch (spec_level d k (unat mip)),
      t_array_pitch = array_pitch (spec_layout d k), t_x = x, t_y = y, t_width = w, t_height = h\<rparr>"
    "unat offset = sub_base d k (unat mip) (unat layer)
        + (unat y * spec_pitch d k (unat mip) + unat x * unat (d_bytes_per_pixel d))"
    using transfer_accepts[OF v, of mip layer w h x y] by blast
  then show ?thesis using True
    by (auto simp: word_unat_eq_iff[where 'a=64] intro: Transfer.equality)
qed

section \<open>Resolving a transfer\<close>

lemma position_first:
  assumes "i < length xs" "p (xs ! i)" "\<And>j. j < i \<Longrightarrow> \<not> p (xs ! j)"
  shows "position p xs = Some i"
  using assms
proof (induction xs arbitrary: i)
  case Nil
  then show ?case by simp
next
  case (Cons x xs)
  show ?case
  proof (cases i)
    case 0
    with Cons.prems show ?thesis by simp
  next
    case (Suc k)
    have "\<not> p x" using Cons.prems(3)[of 0] Suc by simp
    moreover have "\<not> p (xs ! j)" if "j < k" for j using Cons.prems(3)[of "Suc j"] Suc that by simp
    then have "position p xs = Some k" using Cons.prems Suc by (intro Cons.IH) auto
    ultimately show ?thesis using Suc by simp
  qed
qed

lemma spec_offset_less:
  assumes "valid_descriptor d k" "i < j" "j \<le> 15"
  shows "spec_offset d k i < spec_offset d k j"
  using spec_level_within[OF assms(2), of d k] spec_size_bounds(2)[OF assms(1), of i] assms(2,3)
  by linarith

lemma unat_word_of_nat_mip:
  assumes "m < 15" shows "unat (word_of_nat m :: u32) = m"
  using assms by (simp add: unat_of_nat_lt)

lemma transfer_not_Panic_resolved:
  assumes v: "valid_descriptor d k"
    and t: "transfer (spec_layout d k) mip layer x y w h = Ok t"
  shows "resolve_transfer (spec_layout d k) t = subresource (spec_layout d k) mip layer"
proof -
  let ?L = "spec_layout d k" and ?m = "unat mip" and ?P = "spec_layer_pitch d k"
  note f = t[unfolded transfer_eq_Ok[OF v]]
  then have mip: "?m < unat (d_mip_levels d)" and layer: "unat layer < unat (d_array_layers d)"
    by simp_all
  have m15: "?m < 15" by (rule valid_levels[OF v mip])
  have P: "0 < ?P" by (rule spec_layer_pitch_bounds(3)[OF v])
  let ?px = "u64_from (t_y t) * u64_from (t_row_pitch t)
      + u64_from (t_x t) * u64_from (d_bytes_per_pixel d)"
  have "unat (t_offset t) < 2 ^ 64" using unat_u64_less[of "t_offset t"] by simp
  then have px: "unat ?px = unat y * spec_pitch d k ?m + unat x * unat (d_bytes_per_pixel d)"
    using f spec_level_fields(5)[OF v mip] by (intro word_of_nat_u64_sum) auto
  then have le: "?px \<le> t_offset t" using f by (simp add: word_le_nat_alt)
  then have base: "unat (t_offset t - ?px) = sub_base d k ?m (unat layer)"
    using f px by (simp add: unat_sub)
  have off: "spec_offset d k ?m < ?P"
    using spec_offset_less[OF v mip] spec_layer_pitch_bounds(1)[OF v] valid_bounds(4)[OF v] by linarith
  have ap: "unat (u64_from (array_pitch ?L)) = ?P" by (simp add: spec_layout_sizes[OF v])
  have dv: "unat ((t_offset t - ?px) div u64_from (array_pitch ?L)) = unat layer"
    using base off unfolding unat_div_distrib ap by (simp add: sub_base_def)
  have md: "unat ((t_offset t - ?px) mod u64_from (array_pitch ?L)) = spec_offset d k ?m"
    using base off unfolding unat_mod_distrib ap by (simp add: sub_base_def)
  have u32: "u32_try_from ((t_offset t - ?px) div u64_from (array_pitch ?L)) = Some layer"
    using dv unat_u32_less[of layer] unat_ucast_u32[of "(t_offset t - ?px) div u64_from (array_pitch ?L)"]
    by (simp add: u32_try_from_def word_unat_eq_iff)
  have ap0: "array_pitch ?L \<noteq> 0" using ap P by (auto simp: word_unat_eq_iff)
  let ?ls = "take (unat (d_mip_levels d)) (levels ?L)"
  have nth: "?ls ! j = spec_level d k j" if "j < unat (d_mip_levels d)" for j
    using that spec_layout_levels(2)[OF that] by simp
  have len: "length (levels ?L) = 15" by (rule spec_layout_levels(1)[OF v])
  have pos: "position (\<lambda>l. l_offset l = (t_offset t - ?px) mod u64_from (array_pitch ?L)
      \<and> l_row_pitch l = t_row_pitch t) ?ls = Some ?m"
  proof (rule position_first)
    show "?m < length ?ls" using mip len valid_bounds(4)[OF v] by simp
    show "l_offset (?ls ! ?m) = (t_offset t - ?px) mod u64_from (array_pitch ?L)
        \<and> l_row_pitch (?ls ! ?m) = t_row_pitch t"
    proof
      show "l_offset (?ls ! ?m) = (t_offset t - ?px) mod u64_from (array_pitch ?L)"
        by (simp only: nth[OF mip] word_unat_eq_iff spec_level_fields(1)[OF v mip] md)
      show "l_row_pitch (?ls ! ?m) = t_row_pitch t" using f by (simp only: nth[OF mip])
    qed
    fix j assume j: "j < ?m"
    then have "j < unat (d_mip_levels d)" using mip by simp
    moreover have "spec_offset d k j \<noteq> spec_offset d k ?m"
      using spec_offset_less[OF v j] m15 by simp
    ultimately show "\<not> (l_offset (?ls ! j) = (t_offset t - ?px) mod u64_from (array_pitch ?L)
        \<and> l_row_pitch (?ls ! j) = t_row_pitch t)"
      by (simp only: nth word_unat_eq_iff spec_level_fields(1)[OF v] md simp_thms)
  qed
  have c1: "\<not> t_array_pitch t \<noteq> array_pitch ?L" using f by simp
  have c2: "\<not> length (levels ?L) < unat (d_mip_levels d)" using len valid_bounds(4)[OF v] by simp
  have again: "transfer ?L mip layer (t_x t) (t_y t) (t_width t) (t_height t) = Ok t"
    using t f by simp
  show ?thesis
    by (unfold resolve_transfer_def Let_def spec_layout_fields if_not_P[OF c1] if_not_P[OF ap0]
      if_not_P[OF c2] checked_sub_def if_P[OF le] ok_or.simps and_then.simps u32 pos
      of_nat_unat ucast_id again) simp
qed

section \<open>Byte addresses\<close>

text \<open>The address of a byte inside its level, by the addressing mode of the layout.\<close>

definition spec_local :: "Descriptor \<Rightarrow> LayoutKind \<Rightarrow> nat \<Rightarrow> nat \<Rightarrow> nat \<Rightarrow> nat" where
  "spec_local d k m x y =
     (if k = Linear then linear_local 0 (spec_pitch d k m) x y
      else block_linear_local (spec_tile d k m) (spec_pitch d k m) x y)"

lemma block_linear_rows:
  fixes y :: nat
  assumes "t \<le> 4" "y < 2 ^ 32"
  shows "y < 8 * 2 ^ t * (y div (8 * 2 ^ t) + 1)" and "8 * 2 ^ t * (y div (8 * 2 ^ t) + 1) \<le> 2 ^ 32"
proof -
  show "y < 8 * 2 ^ t * (y div (8 * 2 ^ t) + 1)"
    using dividend_less_times_div[of "8 * 2 ^ t" y] by (simp add: distrib_left)
  have "(2 :: nat) ^ 32 = 2 ^ (3 + t) * 2 ^ (29 - t)" using assms(1) by (simp only: power_add[symmetric]) simp
  then have e: "(2 :: nat) ^ 32 = 8 * 2 ^ t * 2 ^ (29 - t)" by (simp add: power_add)
  then have "y div (8 * 2 ^ t) < 2 ^ (29 - t)" using assms(2)
    by (intro less_mult_imp_div_less) (simp only: mult.commute)
  then have "8 * 2 ^ t * (y div (8 * 2 ^ t) + 1) \<le> 8 * 2 ^ t * 2 ^ (29 - t)"
    by (intro mult_le_mono2) simp
  then show "8 * 2 ^ t * (y div (8 * 2 ^ t) + 1) \<le> 2 ^ 32" by (simp only: e)
qed

text \<open>No product or sum of the address computation leaves 64 bits, for any pitch and row.\<close>

lemma block_linear_offset_spec:
  assumes "tile \<le> 4" "0 < unat p" "64 dvd unat p" "unat x < unat p"
  shows "\<exists>a. block_linear_offset x y p tile = Ok a
    \<and> unat a = block_linear_local (unat tile) (unat p) (unat x) (unat y)"
proof -
  let ?t = "unat tile"
  have t: "?t \<le> 4" using assms(1) by (simp add: word_le_nat_alt)
  then have "(2 :: nat) ^ ?t \<le> 2 ^ 4" by (intro power_increasing) auto
  then have tt: "(2 :: nat) ^ ?t \<le> 16" by simp
  have "p AND 63 = p AND mask 6" by (simp add: mask_eq_exp_minus_1)
  moreover have "(2 :: nat) ^ 6 dvd unat p" using assms(3) by simp
  ultimately have p63: "p AND 63 = 0" by (simp only: and_mask_dvd_nat)
  have ok: "\<not> (4 < tile \<or> p = 0 \<or> p AND 63 \<noteq> 0 \<or> p \<le> x)"
    using assms p63 by (auto simp: word_le_nat_alt word_less_nat_alt)
  let ?N = "block_linear_local ?t (unat p) (unat x) (unat y)"
  let ?rows = "8 * 2 ^ ?t * (unat y div (8 * 2 ^ ?t) + 1)"
  have y32: "unat y < 2 ^ 32" using unat_u32_less[of y] by simp
  note rows = block_linear_rows[OF t y32]
  have "unat p * ?rows \<le> (2 ^ 32 - 1) * 2 ^ 32"
    using unat_u32_less[of p] rows(2) by (intro mult_le_mono) auto
  moreover have "?N < unat p * ?rows"
    using assms rows(1) by (intro block_linear_local_within) auto
  ultimately have N: "?N < 2 ^ LENGTH(64)" by simp
  have small: "unat x < 2 ^ LENGTH(64)" "unat y < 2 ^ LENGTH(64)" "8 * 2 ^ ?t < (2 :: nat) ^ LENGTH(64)"
    using unat_u32_less[of x] unat_u32_less[of y] tt by simp_all
  have my: "unat y mod (8 * 2 ^ ?t) < 2 ^ LENGTH(64)"
    using small(2) mod_less_eq_dividend[of "unat y" "8 * 2 ^ ?t"] by linarith
  have e1: "push_bit ?t (8 :: u64) = word_of_nat (8 * 2 ^ ?t)"
    "push_bit ?t (512 :: u64) = word_of_nat (512 * 2 ^ ?t)"
    by (simp_all add: push_bit_eq_mult mult.commute)
  have e2: "u64_from (p div 64) = word_of_nat (unat p div 64)"
    unfolding u64_from_nat unat_div_distrib by simp
  have e3: "unat x mod 64 < 2 ^ LENGTH(64)" "unat x mod 32 < 2 ^ LENGTH(64)"
    "unat y mod 8 < 2 ^ LENGTH(64)"
    by (rule less_trans[OF mod_less_divisor], simp, simp)+
  have "block_linear_offset x y p tile = Ok (word_of_nat ?N)"
    unfolding block_linear_offset_def Let_def if_not_P[OF ok] e1 e2 u64_from_nat[of x]
      u64_from_nat[of y] word_of_nat_div[OF small(2,3)] word_of_nat_mod[OF small(2,3)]
      block_linear_local_def
    using small my e3
    by (simp add: word_of_nat_div_numeral word_of_nat_mod_numeral del: of_nat_unat)
  with unat_of_nat_lt[OF N] show ?thesis by blast
qed

text \<open>The levels of a plan are well formed for the addressing mode of its layout.\<close>

lemma plan_levels_well_formed:
  assumes "valid_descriptor d k" "m < 15"
  shows "linear_well_formed (spec_tile d k m) (spec_pitch d k m) (spec_rows d k m)"
    and "k \<noteq> Linear \<Longrightarrow>
      block_linear_well_formed (spec_tile d k m) (spec_pitch d k m) (spec_rows d k m)"
  using spec_pitch_bounds(3)[OF assms]
  by (auto simp: linear_well_formed_def block_linear_well_formed_def spec_pitch_def
      spec_pitch_alignment_def spec_rows_def intro: dvd_round_up split: LayoutKind.splits)

lemma spec_local_within:
  assumes "valid_descriptor d k" "m < 15" "x < spec_pitch d k m" "y < spec_rows d k m"
  shows "spec_local d k m x y < spec_size d k m"
  using plan_levels_well_formed[OF assms(1,2)] assms(3,4)
    linear_levels.address_within[of "spec_tile d k m"] block_levels.address_within
  by (auto simp: spec_local_def spec_size_def linear_local_def)

lemma row_bytes:
  assumes v: "valid_descriptor d k" and m: "m < unat (d_mip_levels d)"
  shows "unat (l_width (spec_level d k m) * d_bytes_per_pixel d)
    = spec_width d m * unat (d_bytes_per_pixel d)"
proof -
  have "unat (d_bytes_per_pixel d) \<le> 4" using v by (auto simp: valid_descriptor_def)
  then have "spec_width d m * unat (d_bytes_per_pixel d) \<le> 16384 * 4"
    using spec_extent_le(1)[OF v] by (intro mult_le_mono) auto
  then show ?thesis by (simp add: unat_mult_lt spec_level_fields[OF v m])
qed

lemma unat_linear_local:
  assumes "unat (p :: u32) \<le> 65792" "unat (y :: u32) \<le> 16384" "unat (x :: u32) \<le> 65792"
  shows "unat (u64_from y * u64_from p + u64_from x) = linear_local 0 (unat p) (unat x) (unat y)"
proof -
  have "unat y * unat p \<le> 16384 * 65792" using assms by (intro mult_le_mono)
  then have "unat y * unat p + unat x < 2 ^ 64" using assms(3) by simp
  then show ?thesis by (intro trans[OF word_of_nat_u64_sum]) (auto simp: linear_local_def)
qed

lemma byte_offset_local:
  assumes v: "valid_descriptor d k" and m: "m < unat (d_mip_levels d)"
    and x: "unat x < spec_pitch d k m" and y: "unat y \<le> 16384"
  shows "\<exists>a. (if k = Linear
      then Ok (u64_from y * u64_from (l_row_pitch (spec_level d k m)) + u64_from x)
      else block_linear_offset x y (l_row_pitch (spec_level d k m)) (l_tile_y_log2 (spec_level d k m)))
    = Ok a \<and> unat a = spec_local d k m (unat x) (unat y)"
proof (cases "k = Linear")
  case True
  have "unat x \<le> 65792" using x spec_pitch_le[OF v valid_levels[OF v m]] by simp
  then have "unat (u64_from y * u64_from (l_row_pitch (spec_level d k m)) + u64_from x)
      = linear_local 0 (spec_pitch d k m) (unat x) (unat y)"
    using unat_linear_local[of "l_row_pitch (spec_level d k m)" y x] y
      spec_pitch_le[OF v valid_levels[OF v m]] by (simp only: spec_level_fields[OF v m])
  then show ?thesis unfolding if_P[OF True] spec_local_def by blast
next
  case False
  note wf = plan_levels_well_formed(2)[OF v valid_levels[OF v m] False]
  have "l_tile_y_log2 (spec_level d k m) \<le> 4"
    using spec_tile_le[OF v] by (simp add: word_le_nat_alt spec_level_fields[OF v m])
  then show ?thesis
    using block_linear_offset_spec[of "l_tile_y_log2 (spec_level d k m)"
        "l_row_pitch (spec_level d k m)" x y] False wf x
    by (simp add: spec_local_def spec_level_fields[OF v m] block_linear_well_formed_def)
qed

lemma byte_offset_check:
  assumes v: "valid_descriptor d k" and s: "subresource (spec_layout d k) mip layer = Ok s"
  shows "(s \<noteq> s \<or> l_width (s_level s) * d_bytes_per_pixel d \<le> x \<or> l_height (s_level s) \<le> y)
    \<longleftrightarrow> \<not> (unat x < spec_width d (unat mip) * unat (d_bytes_per_pixel d)
      \<and> unat y < spec_height d (unat mip))"
proof -
  have mip: "unat mip < unat (d_mip_levels d)" "s_level s = spec_level d k (unat mip)"
    using s by (auto simp: subresource_eq_Ok[OF v])
  show ?thesis
    by (simp only: mip(2) word_le_nat_alt row_bytes[OF v mip(1)] spec_level_fields[OF v mip(1)]
        simp_thms de_Morgan_conj not_less)
qed

lemma byte_offset_outside:
  assumes v: "valid_descriptor d k" and s: "subresource (spec_layout d k) mip layer = Ok s"
    and out: "\<not> (unat x < spec_width d (unat mip) * unat (d_bytes_per_pixel d)
      \<and> unat y < spec_height d (unat mip))"
  shows "byte_offset (spec_layout d k) s x y = Err OutOfBounds"
proof -
  have "s_mip_level s = mip" "s_layer s = layer" using s by (auto simp: subresource_eq_Ok[OF v])
  then show ?thesis
    using byte_offset_check[OF v s, of x y] out s
    by (simp add: byte_offset_def)
qed

text \<open>The address function of an image: it accepts exactly the bytes of its own levels.\<close>

lemma byte_offset_eq_Ok:
  assumes v: "valid_descriptor d k" and s: "subresource (spec_layout d k) mip layer = Ok s"
  shows "byte_offset (spec_layout d k) s x y = Ok a \<longleftrightarrow>
    unat x < spec_width d (unat mip) * unat (d_bytes_per_pixel d)
    \<and> unat y < spec_height d (unat mip)
    \<and> unat a = sub_base d k (unat mip) (unat layer) + spec_local d k (unat mip) (unat x) (unat y)"
    (is "?l = ?r")
proof -
  let ?L = "spec_layout d k" and ?m = "unat mip"
  from s have mip: "?m < unat (d_mip_levels d)" and layer: "unat layer < unat (d_array_layers d)"
    and so: "unat (s_offset s) = sub_base d k ?m (unat layer)" "s_level s = spec_level d k ?m"
      "s_layer s = layer" "s_mip_level s = mip"
    by (auto simp: subresource_eq_Ok[OF v])
  have m15: "?m < 15" by (rule valid_levels[OF v mip])
  let ?in = "unat x < spec_width d ?m * unat (d_bytes_per_pixel d) \<and> unat y < spec_height d ?m"
  note chk = byte_offset_check[OF v s, of x y]
  show ?thesis
  proof (cases ?in)
    case False
    then show ?thesis using byte_offset_outside[OF v s False] by auto
  next
    case True
    have x: "unat x < spec_pitch d k ?m" using True spec_pitch_bounds(1)[OF v m15] by linarith
    have y: "unat y \<le> 16384" using True spec_extent_le(2)[OF v, of ?m] by linarith
    obtain q :: u64 where q: "(if k = Linear
        then Ok (u64_from y * u64_from (l_row_pitch (spec_level d k ?m)) + u64_from x)
        else block_linear_offset x y (l_row_pitch (spec_level d k ?m)) (l_tile_y_log2 (spec_level d k ?m)))
      = Ok q" "unat q = spec_local d k ?m (unat x) (unat y)"
      using byte_offset_local[OF v mip x y] by blast
    have "unat y < spec_rows d k ?m" using True spec_rows_bounds(1)[OF v m15] by linarith
    then have "spec_local d k ?m (unat x) (unat y) < spec_size d k ?m"
      by (rule spec_local_within[OF v m15 x])
    then have A: "sub_base d k ?m (unat layer) + spec_local d k ?m (unat x) (unat y)
        < unat (total_size ?L)"
      using sub_base_within(1)[OF v mip layer] by (simp only: spec_layout_sizes[OF v])
    then have "sub_base d k ?m (unat layer) + spec_local d k ?m (unat x) (unat y) < 2 ^ LENGTH(64)"
      using unat_u64_less[of "total_size ?L"] by simp
    note add = checked_add_nat[OF so(1) q(2) this]
    have "byte_offset ?L s x y = Ok (s_offset s + q)"
      using True chk add A q(1)[folded so(2)]
      by (simp add: byte_offset_def so s spec_layout_fields word_less_nat_alt split del: if_split)
    then show ?thesis using True add(2) by (auto simp: word_unat_eq_iff[where 'a=64])
  qed
qed

lemma byte_offset_inside:
  assumes v: "valid_descriptor d k" and s: "subresource (spec_layout d k) mip layer = Ok s"
    and "unat x < spec_width d (unat mip) * unat (d_bytes_per_pixel d)
      \<and> unat y < spec_height d (unat mip)"
  shows "\<exists>a. byte_offset (spec_layout d k) s x y = Ok a"
proof -
  let ?n = "sub_base d k (unat mip) (unat layer) + spec_local d k (unat mip) (unat x) (unat y)"
  from s have mip: "unat mip < unat (d_mip_levels d)" and layer: "unat layer < unat (d_array_layers d)"
    by (auto simp: subresource_eq_Ok[OF v])
  note m15 = valid_levels[OF v mip]
  have "unat x < spec_pitch d k (unat mip)" "unat y < spec_rows d k (unat mip)"
    using assms(3) spec_pitch_bounds(1)[OF v m15] spec_rows_bounds(1)[OF v m15] by linarith+
  from spec_local_within[OF v m15 this] have "?n < 2 ^ 64"
    using sub_base_within[OF v mip layer] by simp
  then have "unat (word_of_nat ?n :: u64) = ?n" by (intro unat_of_nat_lt) simp
  then show ?thesis using byte_offset_eq_Ok[OF v s, of x y "word_of_nat ?n"] assms(3) by blast
qed

text \<open>
  The address of a byte determines it: the levels and layers are apart, and inside one the
  addressing mode is injective, by the interpretations of \<open>level_addressing\<close>.
\<close>

lemma spec_address_injective:
  assumes v: "valid_descriptor d k"
    and "m < unat (d_mip_levels d)" "m' < unat (d_mip_levels d)"
    and "x < spec_width d m * unat (d_bytes_per_pixel d)" "y < spec_height d m"
    and "x' < spec_width d m' * unat (d_bytes_per_pixel d)" "y' < spec_height d m'"
    and "sub_base d k m l + spec_local d k m x y = sub_base d k m' l' + spec_local d k m' x' y'"
  shows "(m, l) = (m', l') \<and> x = x' \<and> y = y'"
proof -
  note m15 = valid_levels[OF v assms(2)] valid_levels[OF v assms(3)]
  have x: "x < spec_pitch d k m" "x' < spec_pitch d k m'"
    using assms(4,6) spec_pitch_bounds(1)[OF v m15(1)] spec_pitch_bounds(1)[OF v m15(2)] by linarith+
  have y: "y < spec_rows d k m" "y' < spec_rows d k m'"
    using assms(5,7) spec_rows_bounds(1)[OF v m15(1)] spec_rows_bounds(1)[OF v m15(2)] by linarith+
  have ml: "(m, l) = (m', l')"
  proof (rule ccontr)
    assume "(m, l) \<noteq> (m', l')"
    from sub_base_disjoint[OF v assms(2,3) this] show False
      using assms(8) spec_local_within[OF v m15(1) x(1) y(1)] spec_local_within[OF v m15(2) x(2) y(2)]
      by linarith
  qed
  moreover have "x = x' \<and> y = y'"
  proof (cases "k = Linear")
    case True
    then show ?thesis
      using linear_levels.based_injective[OF plan_levels_well_formed(1)[OF v m15(1)]
          plan_levels_well_formed(1)[OF v m15(2)] x(1) y(1) x(2) y(2), of 0 0] ml assms(8)
      by (simp add: spec_local_def linear_local_def)
  next
    case False
    then show ?thesis
      using block_levels.based_injective[OF plan_levels_well_formed(2)[OF v m15(1)]
          plan_levels_well_formed(2)[OF v m15(2)] x(1) y(1) x(2) y(2), of 0 0] ml assms(8)
      by (simp add: spec_local_def)
  qed
  ultimately show ?thesis by simp
qed

end
