(* ===== verification/Image_Layout_Claims.thy ===== *)
theory Image_Layout_Claims
  imports Image_Layout_Props
begin

text \<open>
  What \<open>shared/maxwell-image-layout/src/lib.rs\<close> promises its callers: the planner accepts exactly
  the valid descriptors and computes the abstract plan, subresources never overlap, transfers stay
  in their level and are recognised again, and no two bytes of an image share an address.
\<close>

section \<open>An image for the witnesses\<close>

text \<open>A 100 by 40 image of four byte pixels with seven mip levels and three layers.\<close>

definition sample_descriptor :: Descriptor where
  "sample_descriptor = \<lparr>d_width = 100, d_height = 40, d_mip_levels = 7, d_array_layers = 3,
     d_bytes_per_pixel = 4\<rparr>"

definition sample_kind :: LayoutKind where "sample_kind = BlockLinear 4 True"

definition sample_layout :: Layout where
  "sample_layout = spec_layout sample_descriptor sample_kind"

lemma sample_valid: "valid_descriptor sample_descriptor sample_kind"
  by (simp add: valid_descriptor_def sample_descriptor_def sample_kind_def bit_length.simps)

lemma sample_plan: "plan sample_descriptor sample_kind = Ok sample_layout"
  by (simp add: plan_valid[OF sample_valid] sample_layout_def)

lemma sample_fields [simp]:
  "d_mip_levels sample_descriptor = 7" "d_array_layers sample_descriptor = 3"
  "d_bytes_per_pixel sample_descriptor = 4" "spec_width sample_descriptor 1 = 50"
  "spec_height sample_descriptor 1 = 20" "spec_width sample_descriptor 2 = 25"
  "spec_height sample_descriptor 2 = 10"
  "spec_width sample_descriptor (Suc 0) = 50" "spec_height sample_descriptor (Suc 0) = 20"
  by (simp_all add: sample_descriptor_def spec_width_def spec_height_def)

lemma sample_subresource:
  "\<exists>s. subresource sample_layout 1 2 = Ok s" "\<exists>s. subresource sample_layout 2 1 = Ok s"
  unfolding sample_layout_def using subresource_spec[OF sample_valid, of 1 2]
    subresource_spec[OF sample_valid, of 2 1] by auto

lemma sample_transfer: "\<exists>t. transfer sample_layout 1 2 10 5 20 8 = Ok t"
  unfolding sample_layout_def using transfer_accepts[OF sample_valid, of 1 2 20 8 10 5] by auto

lemma gob_rows:
  "(h :: nat) \<le> 8 * (max ((h + 7) div 8) 1 - 1 + 1)"
  "0 < max ((h + 7) div 8) 1 - 1 \<Longrightarrow> 8 * (max ((h + 7) div 8) 1 - 1) < h"
  by (simp_all add: max_def) presburger+

section \<open>Properties\<close>

text \<open>C32: \<open>plan\<close> succeeds on exactly the valid descriptors and its tables are the abstract plan.\<close>

theorem plan_refines_spec:
  "plan d k = (if valid_descriptor d k then Ok (spec_layout d k) else Err InvalidDescriptor)"
  by (simp add: plan_valid plan_invalid)

text \<open>C33: The storage of a mip level of a layer lies inside the planned allocation, and the storage
  of two different subresources has no byte in common, for every accepted image descriptor.\<close>

theorem subresources_disjoint:
  assumes "plan d k = Ok L" "subresource L m l = Ok s" "subresource L m' l' = Ok s'"
    and "(m, l) \<noteq> (m', l')"
  shows "unat (s_offset s) + unat (l_size (s_level s)) \<le> unat (total_size L)
    \<and> {unat (s_offset s)..<unat (s_offset s) + unat (l_size (s_level s))}
      \<inter> {unat (s_offset s')..<unat (s_offset s') + unat (l_size (s_level s'))} = {}"
proof -
  from assms(1) have v: "valid_descriptor d k" and L: "L = spec_layout d k" by (auto simp: plan_eq_Ok)
  have ml: "(unat m, unat l) \<noteq> (unat m', unat l')" using assms(4) by (auto simp: word_unat_eq_iff)
  note s = assms(2)[unfolded L subresource_eq_Ok[OF v]] assms(3)[unfolded L subresource_eq_Ok[OF v]]
  have "unat (s_offset s) + unat (l_size (s_level s)) \<le> unat (total_size L)"
    using s sub_base_within(1)[OF v] by (simp add: L spec_layout_sizes[OF v] spec_level_fields[OF v])
  moreover have "{unat (s_offset s)..<unat (s_offset s) + unat (l_size (s_level s))}
      \<inter> {unat (s_offset s')..<unat (s_offset s') + unat (l_size (s_level s'))} = {}"
    using s sub_base_disjoint[OF v _ _ ml] by (auto simp: spec_level_fields[OF v])
  ultimately show ?thesis ..
qed

theorem subresources_disjoint_witness:
  "\<exists>s s'. {unat (s_offset s)..<unat (s_offset s) + unat (l_size (s_level s))}
      \<inter> {unat (s_offset s')..<unat (s_offset s') + unat (l_size (s_level s'))} = {}
    \<and> subresource sample_layout 1 2 = Ok s \<and> subresource sample_layout 2 1 = Ok s'"
  using sample_subresource subresources_disjoint[OF sample_plan, of 1 2 _ 2 1] by fastforce

text \<open>When \<open>transfer\<close> accepts a rectangle of a subresource, every row of it, the last byte included,
  lies in the storage of that subresource.\<close>

theorem transfer_within_level:
  assumes "plan d k = Ok L" "transfer L mip layer x y w h = Ok t"
  shows "\<exists>s. subresource L mip layer = Ok s \<and> unat (s_offset s) \<le> unat (t_offset t)
    \<and> unat (t_offset t) + (unat h - 1) * unat (t_row_pitch t) + unat w * unat (d_bytes_per_pixel d)
        \<le> unat (s_offset s) + unat (l_size (s_level s))"
proof -
  from assms(1) have v: "valid_descriptor d k" and L: "L = spec_layout d k" by (auto simp: plan_eq_Ok)
  note t = assms(2)[unfolded L transfer_eq_Ok[OF v]]
  then have mip: "unat mip < unat (d_mip_levels d)" by blast
  then obtain s where s: "subresource L mip layer = Ok s"
    "unat (s_offset s) = sub_base d k (unat mip) (unat layer)" "s_level s = spec_level d k (unat mip)"
    using subresource_spec[OF v] t unfolding L by blast
  have "0 < unat h" using t by (simp add: unat_pos_iff)
  with t rectangle_within_level[OF v valid_levels[OF v mip], of "unat x" "unat w" "unat y" "unat h"]
  show ?thesis using s by (simp add: spec_level_fields[OF v mip])
qed

theorem transfer_within_level_witness:
  "\<exists>t s. transfer sample_layout 1 2 10 5 20 8 = Ok t \<and> subresource sample_layout 1 2 = Ok s
    \<and> unat (s_offset s) \<le> unat (t_offset t)"
  using sample_transfer transfer_within_level[OF sample_plan] by blast

text \<open>C34: transfers are resolved to the subresource they were made for, and to no other.\<close>

theorem resolve_transfer_iff:
  assumes "plan d k = Ok L"
  shows "resolve_transfer L t = Ok s \<longleftrightarrow>
    (\<exists>mip layer. transfer L mip layer (t_x t) (t_y t) (t_width t) (t_height t) = Ok t
      \<and> subresource L mip layer = Ok s)"
proof
  assume "resolve_transfer L t = Ok s"
  then show "\<exists>mip layer. transfer L mip layer (t_x t) (t_y t) (t_width t) (t_height t) = Ok t
      \<and> subresource L mip layer = Ok s"
    unfolding resolve_transfer_def Let_def by (auto simp: outcome_simps split: if_splits)
next
  from assms have v: "valid_descriptor d k" and L: "L = spec_layout d k" by (auto simp: plan_eq_Ok)
  assume "\<exists>mip layer. transfer L mip layer (t_x t) (t_y t) (t_width t) (t_height t) = Ok t
      \<and> subresource L mip layer = Ok s"
  then show "resolve_transfer L t = Ok s" unfolding L using transfer_not_Panic_resolved[OF v] by metis
qed

theorem resolve_transfer_iff_witness:
  "\<exists>t s. transfer sample_layout 1 2 10 5 20 8 = Ok t \<and> resolve_transfer sample_layout t = Ok s"
proof -
  obtain t s where t: "transfer sample_layout 1 2 10 5 20 8 = Ok t"
    and s: "subresource sample_layout 1 2 = Ok s" using sample_transfer sample_subresource by blast
  have "t_x t = 10 \<and> t_y t = 5 \<and> t_width t = 20 \<and> t_height t = 8"
    using t by (auto simp: sample_layout_def transfer_eq_Ok[OF sample_valid])
  with t s have "resolve_transfer sample_layout t = Ok s"
    by (intro iffD2[OF resolve_transfer_iff[OF sample_plan]]) auto
  with t show ?thesis by blast
qed

text \<open>C35: the address of a byte is in the storage of its level exactly for the bytes of the level.\<close>

theorem byte_offset_total:
  assumes "plan d k = Ok L" "subresource L mip layer = Ok s"
  shows "case byte_offset L s x y of
      Ok a \<Rightarrow> unat x < unat (l_width (s_level s)) * unat (d_bytes_per_pixel d)
        \<and> unat y < unat (l_height (s_level s)) \<and> unat (s_offset s) \<le> unat a
        \<and> unat a < unat (s_offset s) + unat (l_size (s_level s))
    | Err e \<Rightarrow> e = OutOfBounds \<and> \<not> (unat x < unat (l_width (s_level s)) * unat (d_bytes_per_pixel d)
        \<and> unat y < unat (l_height (s_level s)))
    | Panic \<Rightarrow> False"
proof -
  from assms(1) have v: "valid_descriptor d k" and L: "L = spec_layout d k" by (auto simp: plan_eq_Ok)
  note s = assms(2)[unfolded L] and S = assms(2)[unfolded L subresource_eq_Ok[OF v]]
  then have mip: "unat mip < unat (d_mip_levels d)" by blast
  note m15 = valid_levels[OF v mip] and f = spec_level_fields[OF v mip]
  show ?thesis
  proof (cases "unat x < spec_width d (unat mip) * unat (d_bytes_per_pixel d)
      \<and> unat y < spec_height d (unat mip)")
    case False
    then show ?thesis using byte_offset_outside[OF v s False] S f L by simp
  next
    case True
    then have "unat x < spec_pitch d k (unat mip)" "unat y < spec_rows d k (unat mip)"
      using spec_pitch_bounds(1)[OF v m15] spec_rows_bounds(1)[OF v m15] by linarith+
    note w = spec_local_within[OF v m15 this]
    obtain a where a: "byte_offset L s x y = Ok a" using byte_offset_inside[OF v s True] L by blast
    then show ?thesis using byte_offset_eq_Ok[OF v s, of x y a] True w S f L by simp
  qed
qed

theorem byte_offset_total_witness:
  "\<exists>s. subresource sample_layout 1 2 = Ok s \<and> (case byte_offset sample_layout s 199 19 of
      Ok a \<Rightarrow> unat a < unat (s_offset s) + unat (l_size (s_level s)) | Err e \<Rightarrow> False | Panic \<Rightarrow> False)"
proof -
  obtain s where s: "subresource sample_layout 1 2 = Ok s" using sample_subresource by blast
  then have "unat (l_width (s_level s)) = 50" "unat (l_height (s_level s)) = 20"
    by (auto simp: sample_layout_def subresource_eq_Ok[OF sample_valid] spec_level_fields[OF sample_valid])
  with s byte_offset_total[OF sample_plan s, of 199 19] show ?thesis
    by (auto split: outcome.splits)
qed

text \<open>C36: two different bytes of an image never share an address.\<close>

theorem byte_offset_injective:
  assumes "plan d k = Ok L" "subresource L m l = Ok s" "subresource L m' l' = Ok s'"
    and "byte_offset L s x y = Ok a" "byte_offset L s' x' y' = Ok a"
  shows "m = m' \<and> l = l' \<and> x = x' \<and> y = y'"
proof -
  from assms(1) have v: "valid_descriptor d k" and L: "L = spec_layout d k" by (auto simp: plan_eq_Ok)
  note S = assms(2)[unfolded L subresource_eq_Ok[OF v]] assms(3)[unfolded L subresource_eq_Ok[OF v]]
  note A = iffD1[OF byte_offset_eq_Ok[OF v assms(2)[unfolded L]] assms(4)[unfolded L]]
    iffD1[OF byte_offset_eq_Ok[OF v assms(3)[unfolded L]] assms(5)[unfolded L]]
  have "(unat m, unat l) = (unat m', unat l') \<and> unat x = unat x' \<and> unat y = unat y'"
    by (rule spec_address_injective[OF v]) (use S A in auto)
  then show ?thesis by (simp add: word_unat_eq_iff)
qed

theorem byte_offset_injective_witness:
  "\<exists>s s' a a'. subresource sample_layout 1 2 = Ok s \<and> subresource sample_layout 2 1 = Ok s'
    \<and> byte_offset sample_layout s 7 3 = Ok a \<and> byte_offset sample_layout s' 7 3 = Ok a' \<and> a \<noteq> a'"
proof -
  obtain s s' where s: "subresource sample_layout 1 2 = Ok s" "subresource sample_layout 2 1 = Ok s'"
    using sample_subresource by blast
  obtain a where a: "byte_offset sample_layout s 7 3 = Ok a"
    using byte_offset_inside[OF sample_valid s(1)[unfolded sample_layout_def], of 7 3]
    by (auto simp: sample_layout_def)
  obtain a' where a': "byte_offset sample_layout s' 7 3 = Ok a'"
    using byte_offset_inside[OF sample_valid s(2)[unfolded sample_layout_def], of 7 3]
    by (auto simp: sample_layout_def)
  have "a \<noteq> a'" using byte_offset_injective[OF sample_plan s, of 7 3 a 7 3] a a' by auto
  with s a a' show ?thesis by blast
qed

text \<open>C37: the block-linear swizzle is a bijection from the bytes of a tile-aligned level to its storage,
  for every pitch and height of 32 bits: no intermediate result of the 64-bit arithmetic wraps.\<close>

theorem block_linear_offset_bijective:
  assumes "unat tile \<le> 4" "0 < unat pitch" "64 dvd unat pitch" "8 * 2 ^ unat tile dvd rows"
    and "rows \<le> 2 ^ 32"
  shows "bij_betw (\<lambda>(x, y). case block_linear_offset (word_of_nat x) (word_of_nat y) pitch tile of
      Ok a \<Rightarrow> unat a | Err e \<Rightarrow> 0 | Panic \<Rightarrow> 0)
    ({..<unat pitch} \<times> {..<rows}) {..<unat pitch * rows}"
proof -
  have "block_linear_well_formed (unat tile) (unat pitch) rows"
    using assms by (simp add: block_linear_well_formed_def)
  note bij = block_levels.address_bij[OF this]
  have t: "tile \<le> 4" using assms(1) by (simp add: word_le_nat_alt)
  have "(case block_linear_offset (word_of_nat x) (word_of_nat y) pitch tile of
      Ok a \<Rightarrow> unat a | Err e \<Rightarrow> 0 | Panic \<Rightarrow> 0)
    = block_linear_local (unat tile) (unat pitch) x y" if "x < unat pitch" "y < rows" for x y
  proof -
    have x: "unat (word_of_nat x :: u32) = x" and y: "unat (word_of_nat y :: u32) = y"
      using that assms(5) unat_u32_less[of pitch] by (simp_all add: unat_of_nat_lt)
    show ?thesis
      using block_linear_offset_spec[OF t assms(2,3), of "word_of_nat x" "word_of_nat y"] that
      unfolding x y by auto
  qed
  then show ?thesis by (intro iffD1[OF bij_betw_cong bij]) auto
qed

theorem block_linear_offset_bijective_witness:
  "bij_betw (\<lambda>(x, y). case block_linear_offset (word_of_nat x) (word_of_nat y) 128 1 of
      Ok a \<Rightarrow> unat a | Err e \<Rightarrow> 0 | Panic \<Rightarrow> 0)
    ({..<128} \<times> {..<32}) {..<4096}"
  using block_linear_offset_bijective[of 1 128 32] by simp

text \<open>The clamped block height is the least power of two of GOB rows that holds the image rows,
  unless the maximum is smaller.\<close>

theorem tile_y_log2_minimal:
  "tile_y_log2 height maximum \<le> maximum
    \<and> (unat height \<le> 8 * 2 ^ unat (tile_y_log2 height maximum) \<or> tile_y_log2 height maximum = maximum)
    \<and> (tile_y_log2 height maximum = 0 \<or> 8 * 2 ^ (unat (tile_y_log2 height maximum) - 1) < unat height)"
proof -
  let ?h = "unat height" and ?g = "max ((unat height + 7) div 8) 1 - 1"
  have t: "unat (tile_y_log2 height maximum) = min (unat maximum) (bit_length ?g)"
    by (simp add: tile_y_log2_spec spec_tile_height_def)
  note g = gob_rows(1)[of ?h] gob_rows(2)[of ?h]
  have "?g < 2 ^ bit_length ?g" by (rule bit_length_less)
  then have "?g + 1 \<le> 2 ^ bit_length ?g" by linarith
  then have fits: "?h \<le> 8 * 2 ^ bit_length ?g" using g(1) by linarith
  have low: "8 * 2 ^ (n - 1) < ?h" if "n \<noteq> 0" "n \<le> bit_length ?g" for n
  proof -
    have "0 < ?g" using that by (cases "?g = 0") auto
    have "(2 :: nat) ^ (n - 1) \<le> 2 ^ (bit_length ?g - 1)" using that by (intro power_increasing) auto
    also have "\<dots> \<le> ?g" using \<open>0 < ?g\<close> by (rule bit_length_ge)
    finally show ?thesis using g(2) \<open>0 < ?g\<close> by linarith
  qed
  have n: "n \<le> M \<and> (?h \<le> 8 * 2 ^ n \<or> n = M) \<and> (n = 0 \<or> 8 * 2 ^ (n - 1) < ?h)"
    if "n = min M (bit_length ?g)" for n M
  proof -
    have "n \<le> M" "n \<le> bit_length ?g" "n = bit_length ?g \<or> n = M"
      unfolding that by (rule min.cobounded1, rule min.cobounded2, unfold min_def, argo)
    with fits low[of n] show ?thesis by blast
  qed
  from n[OF t] show ?thesis by (simp only: word_le_nat_alt word_unat_eq_iff unsigned_0)
qed

text \<open>The two DRM format modifiers: what is written is read back, and nothing else is read.\<close>

theorem modifier_tile_y_iff:
  "modifier_tile_y modifier = Some y \<longleftrightarrow>
    color_modifier y = Ok modifier
    \<or> y \<le> 4 \<and> modifier = NVIDIA_DEPTH_MODIFIER_BASE OR ucast y"
proof -
  have "NVIDIA_COLOR_MODIFIER_BASE AND 15 = 0" "NVIDIA_DEPTH_MODIFIER_BASE AND 15 = 0"
    by (simp_all add: NVIDIA_COLOR_MODIFIER_BASE_def NVIDIA_DEPTH_MODIFIER_BASE_def)
  note low = this[THEN low_nibble_iff]
  show ?thesis
  proof (cases "y \<le> 4")
    case True
    then have "\<not> 4 < y" by (simp add: not_less)
    with True show ?thesis
      by (auto simp: modifier_tile_y_def color_modifier_def Let_def low[OF True] eq_commute[of _ modifier])
  next
    case False
    then show ?thesis by (auto simp: modifier_tile_y_def color_modifier_def Let_def not_le)
  qed
qed
end
