(* ===== verification/Image_Wire.thy ===== *)
theory Image_Wire
  imports Bytes Machine
begin

text \<open>
  \<open>shared/maxwell-image-layout/src/wire.rs\<close>: the fixed record of an image upload or blit. The
  record is a \<open>canonical_wire_format\<close>: every field survives the round trip, reserved bytes are
  zero, and the decoder accepts nothing an encoder would not write.
\<close>

section \<open>Data\<close>

definition MAGIC :: u32 where "MAGIC = 0x49324D47"
definition VERSION :: u16 where "VERSION = 1"
definition RECORD_SIZE :: nat where "RECORD_SIZE = 128"
definition FLIP_X :: u32 where "FLIP_X = 1"
definition FLIP_Y :: u32 where "FLIP_Y = 2"

datatype Error = InvalidSize | UnsupportedVersion | InvalidField | ReservedNotZero | Overflow

datatype Opcode = Upload | Blit

fun opcode_raw :: "Opcode \<Rightarrow> u16" where
  "opcode_raw Upload = 1"
| "opcode_raw Blit = 2"

datatype Filter = Nearest | Linear

fun filter_raw :: "Filter \<Rightarrow> u32" where
  "filter_raw Nearest = 0"
| "filter_raw Linear = 1"

text \<open>\<open>[x, y, width, height]\<close>\<close>

datatype rect = Rect (rect_x: u32) (rect_y: u32) (rect_w: u32) (rect_h: u32)

record Command =
  opcode :: Opcode
  source_attachment :: u64
  destination_attachment :: u64
  source_offset :: u64
  source_stride :: u32
  source_mip :: u32
  source_layer :: u32
  destination_mip :: u32
  destination_layer :: u32
  source_rect :: rect
  destination_rect :: rect
  filter_mode :: Filter
  flip_x :: bool
  flip_y :: bool

section \<open>Validation\<close>

definition validate_rect :: "rect \<Rightarrow> (Error, unit) outcome" where
  "validate_rect r =
     (if rect_w r = 0 \<or> rect_h r = 0 then Err InvalidField else
      and_then (ok_or (checked_add (rect_x r) (rect_w r)) Overflow) (\<lambda>_.
      and_then (ok_or (checked_add (rect_y r) (rect_h r)) Overflow) (\<lambda>_. Ok ())))"

definition upload_span :: "Command \<Rightarrow> (Error, u64) outcome" where
  "upload_span c =
     (if opcode c \<noteq> Upload then Err InvalidField else
      and_then (validate_rect (source_rect c)) (\<lambda>_.
      and_then (ok_or (checked_mul (rect_w (source_rect c)) 4) Overflow) (\<lambda>row_bytes.
      if source_stride c < row_bytes then Err InvalidField else
      ok_or (Option.bind (checked_mul (u64_from (rect_h (source_rect c) - 1)) (u64_from (source_stride c)))
               (\<lambda>padding. checked_add padding (u64_from row_bytes))) Overflow)))"

definition validate :: "Command \<Rightarrow> (Error, unit) outcome" where
  "validate c =
     (if source_attachment c = 0 \<or> destination_attachment c = 0 then Err InvalidField else
      and_then (validate_rect (source_rect c)) (\<lambda>_.
      and_then (validate_rect (destination_rect c)) (\<lambda>_.
      case opcode c of
        Upload \<Rightarrow>
          if source_mip c \<noteq> 0 \<or> source_layer c \<noteq> 0
             \<or> rect_x (source_rect c) \<noteq> 0 \<or> rect_y (source_rect c) \<noteq> 0
             \<or> rect_w (source_rect c) \<noteq> rect_w (destination_rect c)
             \<or> rect_h (source_rect c) \<noteq> rect_h (destination_rect c)
             \<or> filter_mode c \<noteq> Nearest \<or> flip_x c \<or> flip_y c
          then Err InvalidField else
          and_then (upload_span c) (\<lambda>span.
          and_then (ok_or (checked_add (source_offset c) span) Overflow) (\<lambda>_. Ok ()))
      | Blit \<Rightarrow>
          if source_offset c \<noteq> 0 \<or> source_stride c \<noteq> 0 then Err InvalidField else Ok ())))"

section \<open>Encoding\<close>

definition rect_field :: "rect \<Rightarrow> nat \<Rightarrow> u32" where
  "rect_field r i = [rect_x r, rect_y r, rect_w r, rect_h r] ! i"

definition command_flags :: "Command \<Rightarrow> u32" where
  "command_flags c = (if flip_x c then FLIP_X else 0) OR (if flip_y c then FLIP_Y else 0)"

text \<open>The stores of \<open>encode_into\<close>, in program order.\<close>

definition command_stores :: "Command \<Rightarrow> store list" where
  "command_stores c =
     [(0, to_le_bytes MAGIC), (4, to_le_bytes VERSION), (6, to_le_bytes (opcode_raw (opcode c))),
      (8, to_le_bytes (command_flags c)), (12, to_le_bytes (filter_raw (filter_mode c))),
      (16, to_le_bytes (source_attachment c)), (24, to_le_bytes (destination_attachment c)),
      (32, to_le_bytes (source_offset c)), (40, to_le_bytes (source_stride c)),
      (44, to_le_bytes (source_mip c)), (48, to_le_bytes (source_layer c)),
      (52, to_le_bytes (destination_mip c)), (56, to_le_bytes (destination_layer c))]
     @ concat (map (\<lambda>i. [(64 + i * 4, to_le_bytes (rect_field (source_rect c) i)),
                        (80 + i * 4, to_le_bytes (rect_field (destination_rect c) i))]) [0..<4])"

definition encode_into :: "Command \<Rightarrow> bytes \<Rightarrow> bytes \<times> (Error, unit) outcome" where
  "encode_into c b =
     (if length b \<noteq> RECORD_SIZE then (b, Err InvalidSize) else
      case validate c of
        Err e \<Rightarrow> (b, Err e)
      | Panic \<Rightarrow> (b, Panic)
      | Ok _ \<Rightarrow> (case fill_and_write (command_stores c) b of
            Some b' \<Rightarrow> (b', Ok ())
          | None \<Rightarrow> (b, Panic)))"

section \<open>Decoding\<close>

definition read_rect :: "bytes \<Rightarrow> nat \<Rightarrow> (Error, rect) outcome" where
  "read_rect b base =
     and_then (read_le 4 b base) (\<lambda>x. and_then (read_le 4 b (base + 4)) (\<lambda>y.
     and_then (read_le 4 b (base + 8)) (\<lambda>w. and_then (read_le 4 b (base + 12)) (\<lambda>h.
     Ok (Rect x y w h)))))"

definition decode :: "bytes \<Rightarrow> (Error, Command) outcome" where
  "decode b =
     (if length b \<noteq> RECORD_SIZE then Err InvalidSize else
      and_then (read_le 4 b 0) (\<lambda>magic. and_then (read_le 2 b 4) (\<lambda>version.
      if magic \<noteq> MAGIC \<or> version \<noteq> VERSION then Err UnsupportedVersion else
      and_then (read_le 4 b 8) (\<lambda>flags.
      and_then (subslice b 60 4) (\<lambda>pad. and_then (subslice b 96 (length b - 96)) (\<lambda>tail.
      if flags AND NOT (FLIP_X OR FLIP_Y) \<noteq> 0 \<or> any_nonzero pad \<or> any_nonzero tail
      then Err ReservedNotZero else
      and_then (read_le 2 b 6) (\<lambda>op :: u16.
      and_then (if op = 1 then Ok Upload else if op = 2 then Ok Blit else Err InvalidField) (\<lambda>oper.
      and_then (read_le 4 b 12) (\<lambda>fil :: u32.
      and_then (if fil = 0 then Ok Nearest else if fil = 1 then Ok Linear else Err InvalidField) (\<lambda>mode.
      and_then (read_le 8 b 16) (\<lambda>src. and_then (read_le 8 b 24) (\<lambda>dst.
      and_then (read_le 8 b 32) (\<lambda>off. and_then (read_le 4 b 40) (\<lambda>stride.
      and_then (read_le 4 b 44) (\<lambda>smip. and_then (read_le 4 b 48) (\<lambda>slayer.
      and_then (read_le 4 b 52) (\<lambda>dmip. and_then (read_le 4 b 56) (\<lambda>dlayer.
      and_then (read_rect b 64) (\<lambda>srect. and_then (read_rect b 80) (\<lambda>drect.
      let command = \<lparr>opcode = oper, source_attachment = src, destination_attachment = dst,
            source_offset = off, source_stride = stride, source_mip = smip, source_layer = slayer,
            destination_mip = dmip, destination_layer = dlayer, source_rect = srect,
            destination_rect = drect, filter_mode = mode, flip_x = flags AND FLIP_X \<noteq> 0,
            flip_y = flags AND FLIP_Y \<noteq> 0\<rparr>
      in and_then (validate command) (\<lambda>_. Ok command)))))))))))))))))))))"

section \<open>The record is a canonical wire format\<close>

lemma upt_4: "[0..<4] = [0, 1, 2, 3 :: nat]"
  by (simp add: upt_conv_Cons)

lemmas command_stores_list =
  command_stores_def upt_4 rect_field_def

lemma command_stores_within: "stores_within (command_stores c) 128"
  by (simp add: command_stores_list stores_within_def)

lemma command_stores_disjoint: "stores_disjoint (command_stores c)"
  by (simp add: command_stores_list store_disjoint_def)

lemma command_stores_cover: "j < 60 \<or> 64 \<le> j \<and> j < 96 \<Longrightarrow> stores_cover (command_stores c) j"
proof -
  let ?r = "\<lambda>base r. map (\<lambda>i. (base + i * 4, to_le_bytes (rect_field r i))) [0, 1, 2, 3 :: nat]"
  have "covers 0 (take 13 (command_stores c)) 60"
    by (simp add: command_stores_list)
  moreover have "covers 64 (?r 64 (source_rect c) @ ?r 80 (destination_rect c)) 96"
    by simp
  moreover have "set (take 13 (command_stores c)) \<subseteq> set (command_stores c)" by (rule set_take_subset)
  moreover have "set (?r 64 (source_rect c) @ ?r 80 (destination_rect c)) \<subseteq> set (command_stores c)"
    by (simp add: command_stores_def upt_4)
  moreover assume "j < 60 \<or> 64 \<le> j \<and> j < 96"
  ultimately show ?thesis using covers_stores_cover by blast
qed

lemma flags_of_flips:
  "command_flags c AND NOT FLIP_X AND NOT FLIP_Y = 0"
  "(command_flags c AND FLIP_X \<noteq> 0) = flip_x c" "(command_flags c AND FLIP_Y \<noteq> 0) = flip_y c"
  by (simp_all add: command_flags_def FLIP_X_def FLIP_Y_def)

lemma validate_not_Panic [simp]: "validate c \<noteq> Panic"
  by (auto simp: validate_def upload_span_def validate_rect_def outcome_simps split: Opcode.splits)

lemma encode_into_eq_Ok:
  "encode_into c b = (b', Ok ()) \<longleftrightarrow>
    length b = 128 \<and> validate c = Ok () \<and> fill_and_write (command_stores c) b = Some b'"
  by (auto simp: encode_into_def RECORD_SIZE_def split: outcome.splits option.splits)

text \<open>\<open>decode\<close> on a buffer of the right length is a function of its fields.\<close>

lemmas decode_128 = decode_def [unfolded RECORD_SIZE_def read_rect_def]

lemma decode_encode_into:
  assumes "encode_into c b = (b', Ok ())"
  shows "decode b' = Ok c"
proof -
  from assms have val: "validate c = Ok ()" and b: "length b = 128"
    and w: "fill_and_write (command_stores c) b = Some b'" by (simp_all add: encode_into_eq_Ok)
  have len: "length b' = 128" using fill_and_write_length[OF w] b by simp
  note f = fill_and_write_field[OF w command_stores_disjoint]
  have fields: "from_le_bytes (slice b' 0 4) = MAGIC" "from_le_bytes (slice b' 4 2) = VERSION"
    "from_le_bytes (slice b' 6 2) = opcode_raw (opcode c)"
    "from_le_bytes (slice b' 8 4) = command_flags c"
    "from_le_bytes (slice b' 12 4) = filter_raw (filter_mode c)"
    "from_le_bytes (slice b' 16 8) = source_attachment c"
    "from_le_bytes (slice b' 24 8) = destination_attachment c"
    "from_le_bytes (slice b' 32 8) = source_offset c"
    "from_le_bytes (slice b' 40 4) = source_stride c"
    "from_le_bytes (slice b' 44 4) = source_mip c" "from_le_bytes (slice b' 48 4) = source_layer c"
    "from_le_bytes (slice b' 52 4) = destination_mip c"
    "from_le_bytes (slice b' 56 4) = destination_layer c"
    by (rule f; simp add: command_stores_list)+
  have rects:
    "from_le_bytes (slice b' 64 4) = rect_x (source_rect c)"
    "from_le_bytes (slice b' 68 4) = rect_y (source_rect c)"
    "from_le_bytes (slice b' 72 4) = rect_w (source_rect c)"
    "from_le_bytes (slice b' 76 4) = rect_h (source_rect c)"
    "from_le_bytes (slice b' 80 4) = rect_x (destination_rect c)"
    "from_le_bytes (slice b' 84 4) = rect_y (destination_rect c)"
    "from_le_bytes (slice b' 88 4) = rect_w (destination_rect c)"
    "from_le_bytes (slice b' 92 4) = rect_h (destination_rect c)"
    by (rule f; simp add: command_stores_list)+
  have zeros: "slice b' 60 4 = replicate 4 0" "slice b' 96 32 = replicate 32 0"
    by (rule fill_and_write_zero[OF w]; simp add: b command_stores_list store_disjoint_def)+
  have op: "opcode_raw (opcode c) = 1 \<longleftrightarrow> opcode c = Upload"
    "opcode_raw (opcode c) = 2 \<longleftrightarrow> opcode c = Blit" by (cases "opcode c"; simp)+
  have fl: "filter_raw (filter_mode c) = 0 \<longleftrightarrow> filter_mode c = Nearest"
    "filter_raw (filter_mode c) = 1 \<longleftrightarrow> filter_mode c = Linear" by (cases "filter_mode c"; simp)+
  have same: "\<lparr>opcode = opcode c, source_attachment = source_attachment c,
      destination_attachment = destination_attachment c, source_offset = source_offset c,
      source_stride = source_stride c, source_mip = source_mip c, source_layer = source_layer c,
      destination_mip = destination_mip c, destination_layer = destination_layer c,
      source_rect = source_rect c, destination_rect = destination_rect c,
      filter_mode = filter_mode c, flip_x = flip_x c, flip_y = flip_y c\<rparr> = c"
    (is "?c = _") by simp
  have "decode b' = (let command = ?c in and_then (validate command) (\<lambda>_. Ok command))"
    by (cases "opcode c"; cases "filter_mode c")
      (simp_all add: decode_128 len subslice_Ok read_le_Ok fields rects zeros op fl flags_of_flips)
  then show ?thesis unfolding same by (simp add: val)
qed

lemma rect_of_fields:
  "rect_field (Rect x y w h) 0 = x" "rect_field (Rect x y w h) (Suc 0) = y"
  "rect_field (Rect x y w h) 2 = w" "rect_field (Rect x y w h) 3 = h"
  by (simp_all add: rect_field_def)

lemma flips_of_flags:
  assumes "flags AND NOT FLIP_X AND NOT FLIP_Y = 0"
  shows "(if flags AND FLIP_X \<noteq> 0 then FLIP_X else 0) OR (if flags AND FLIP_Y \<noteq> 0 then FLIP_Y else 0)
    = flags"
proof -
  have "flags AND NOT (FLIP_X OR FLIP_Y) = 0" using assms by simp
  moreover have "NOT (FLIP_X OR FLIP_Y) = NOT (mask 2)"
    by (simp add: FLIP_X_def FLIP_Y_def mask_eq_exp_minus_1)
  ultimately have "flags AND NOT (mask 2) = 0" by simp
  then have "unat flags div 4 = 0" using unat_and_not_mask[of flags 2] by simp
  then have "unat flags < 4" by (simp add: div_eq_0_iff)
  then have "unat flags = 0 \<or> unat flags = 1 \<or> unat flags = 2 \<or> unat flags = 3" by linarith
  then have "flags = 0 \<or> flags = 1 \<or> flags = 2 \<or> flags = 3" by (simp add: word_unat_eq_iff)
  then show ?thesis by (auto simp: FLIP_X_def FLIP_Y_def)
qed

lemma encode_into_decode:
  assumes d: "decode b = Ok c" and len: "length a = length b"
  shows "encode_into c a = (b, Ok ())"
proof -
  have b: "length b = 128" using d by (auto simp: decode_128 split: if_splits)
  from d obtain srect drect oper mode where
    magic: "from_le_bytes (slice b 0 4) = MAGIC" "from_le_bytes (slice b 4 2) = VERSION"
    and flags: "from_le_bytes (slice b 8 4) AND NOT FLIP_X AND NOT FLIP_Y = 0"
    and zero: "\<not> any_nonzero (slice b 60 4)" "\<not> any_nonzero (slice b 96 32)"
    and oper: "opcode_raw oper = from_le_bytes (slice b 6 2)"
    and mode: "filter_raw mode = from_le_bytes (slice b 12 4)"
    and srect: "srect = Rect (from_le_bytes (slice b 64 4)) (from_le_bytes (slice b 68 4))
      (from_le_bytes (slice b 72 4)) (from_le_bytes (slice b 76 4))"
    and drect: "drect = Rect (from_le_bytes (slice b 80 4)) (from_le_bytes (slice b 84 4))
      (from_le_bytes (slice b 88 4)) (from_le_bytes (slice b 92 4))"
    and c: "c = \<lparr>opcode = oper, source_attachment = from_le_bytes (slice b 16 8),
      destination_attachment = from_le_bytes (slice b 24 8),
      source_offset = from_le_bytes (slice b 32 8), source_stride = from_le_bytes (slice b 40 4),
      source_mip = from_le_bytes (slice b 44 4), source_layer = from_le_bytes (slice b 48 4),
      destination_mip = from_le_bytes (slice b 52 4),
      destination_layer = from_le_bytes (slice b 56 4), source_rect = srect,
      destination_rect = drect, filter_mode = mode,
      flip_x = from_le_bytes (slice b 8 4) AND FLIP_X \<noteq> 0,
      flip_y = from_le_bytes (slice b 8 4) AND FLIP_Y \<noteq> 0\<rparr>"
    and val: "validate c = Ok ()"
    by (auto simp: decode_128 b subslice_Ok read_le_Ok outcome_simps Let_def split: if_splits)
  have "command_flags c = from_le_bytes (slice b 8 4)"
    using flips_of_flags[OF flags] by (simp add: command_flags_def c)
  then have "\<forall>(i, xs) \<in> set (command_stores c). slice b i (length xs) = xs"
    by (simp add: command_stores_def upt_4 rect_of_fields c srect drect oper mode
        magic[symmetric] to_le_from_le b)
  moreover have "stores_cover (command_stores c) j \<or> b ! j = 0" if "j < length b" for j
    using that zero b command_stores_cover[of j c]
    by (cases "j < 60 \<or> 64 \<le> j \<and> j < 96") (auto simp: any_nonzero_slice)
  ultimately have "fill_and_write (command_stores c) a = Some b"
    using len b by (intro fill_and_write_canonical) (simp_all add: command_stores_within)
  then show ?thesis by (simp add: encode_into_eq_Ok len b val)
qed

interpretation image_command: canonical_wire_format "\<lambda>_. True" encode_into decode
proof (unfold_locales; (rule TrueI)?)
  fix c b b' assume "encode_into c b = (b', Ok ())"
  then show "decode b' = Ok c" by (rule decode_encode_into)
next
  fix c b b' e assume "encode_into c b = (b', Err e)"
  then show "b' = b" by (auto simp: encode_into_def split: if_splits outcome.splits option.splits)
next
  fix c b
  have "length b = 128 \<Longrightarrow> fill_and_write (command_stores c) b \<noteq> None"
    using fill_and_write_within[of "command_stores c" b] command_stores_within[of c] by auto
  then show "snd (encode_into c b) \<noteq> Panic"
    by (auto simp: encode_into_def RECORD_SIZE_def split: outcome.splits option.splits)
next
  fix b show "decode b \<noteq> Panic"
    by (auto simp: decode_128 subslice_Ok read_le_Ok outcome_simps Let_def)
next
  fix b a :: bytes and c assume "decode b = Ok c" "length a = length b"
  then show "encode_into c a = (b, Ok ())" by (rule encode_into_decode)
qed

section \<open>Properties\<close>

text \<open>C39: encoding either writes a record that decodes to the command, or leaves the buffer alone.\<close>

theorem command_round_trip:
  "case encode_into c b of
     (b', Ok _) \<Rightarrow> length b = RECORD_SIZE \<and> validate c = Ok () \<and> decode b' = Ok c
   | (b', Err e) \<Rightarrow> b' = b \<and> (length b \<noteq> RECORD_SIZE \<and> e = InvalidSize \<or> validate c = Err e)
   | (b', Panic) \<Rightarrow> False"
proof (cases rule: image_command.encode_cases[OF TrueI, of c b, case_names encoded refused])
  case (encoded c')
  then have "length b = RECORD_SIZE" "validate c = Ok ()"
    by (simp_all add: encode_into_eq_Ok RECORD_SIZE_def)
  with encoded show ?thesis by simp
next
  case (refused e)
  then show ?thesis
    by (auto simp: encode_into_def split: if_splits outcome.splits option.splits)
qed

text \<open>the decoder accepts exactly what the encoder writes: the record is canonical.\<close>

theorem command_canonical:
  "decode b = Ok c \<longleftrightarrow> (\<exists>a. length a = length b \<and> encode_into c a = (b, Ok ()))"
  using image_command.decode_iff[of b c] by simp

lemma upload_span_eq_Ok:
  assumes "upload_span c = Ok span"
  shows "4 * unat (rect_w (source_rect c)) \<le> unat (source_stride c)"
    and "0 < unat (rect_w (source_rect c))" "0 < unat (rect_h (source_rect c))"
    and "unat span = (unat (rect_h (source_rect c)) - 1) * unat (source_stride c)
      + 4 * unat (rect_w (source_rect c))"
proof -
  let ?w = "rect_w (source_rect c)" and ?h = "rect_h (source_rect c)" and ?s = "source_stride c"
  from assms have h0: "?w \<noteq> 0" "?h \<noteq> 0"
    and w4: "unat ?w * 4 < 2 ^ 32" and stride: "\<not> ?s < ?w * 4"
    and pad: "checked_mul (u64_from (?h - 1)) (u64_from ?s) = Some (u64_from (?h - 1) * u64_from ?s)"
    and span: "checked_add (u64_from (?h - 1) * u64_from ?s) (u64_from (?w * 4)) = Some span"
    by (auto simp: upload_span_def validate_rect_def outcome_simps checked_mul_def checked_add_def
        bind_eq_Some_conv split: if_splits)
  have w: "unat (?w * 4) = 4 * unat ?w" using w4 by (simp add: unat_mult_lt)
  show "4 * unat ?w \<le> unat ?s" using stride w by (simp add: word_less_nat_alt)
  show "0 < unat ?w" "0 < unat ?h" using h0 by (simp_all add: unat_pos_iff)
  have "1 \<le> ?h" using h0(2) by (simp add: word_le_nat_alt unat_pos_iff Suc_le_eq)
  then have h: "unat (?h - 1) = unat ?h - 1" by (simp add: unat_sub)
  have lt: "unat (u64_from (?h - 1) * u64_from ?s) + unat (u64_from (?w * 4)) < 2 ^ LENGTH(64)"
    and sp: "span = u64_from (?h - 1) * u64_from ?s + u64_from (?w * 4)"
    using span by (auto simp: checked_add_def split: if_splits)
  then show "unat span = (unat ?h - 1) * unat ?s + 4 * unat ?w"
    using w h by (simp add: unat_add_lt)
qed

text \<open>A valid upload reads whole rows inside its declared span, rows apart, without wrapping.\<close>

theorem upload_rows_in_span:
  assumes "validate c = Ok ()" "opcode c = Upload"
  shows "\<exists>span. upload_span c = Ok span \<and> unat (source_offset c) + unat span < 2 ^ 64
    \<and> (\<forall>y < unat (rect_h (source_rect c)).
        y * unat (source_stride c) + 4 * unat (rect_w (source_rect c)) \<le> unat span
        \<and> y * unat (source_stride c) + 4 * unat (rect_w (source_rect c))
            \<le> Suc y * unat (source_stride c))
    \<and> rect_w (source_rect c) = rect_w (destination_rect c)
    \<and> rect_h (source_rect c) = rect_h (destination_rect c)"
proof -
  from assms obtain span where span: "upload_span c = Ok span"
    and add: "unat (source_offset c) + unat span < 2 ^ 64"
    and eq: "rect_w (source_rect c) = rect_w (destination_rect c)"
      "rect_h (source_rect c) = rect_h (destination_rect c)"
    by (auto simp: validate_def outcome_simps checked_add_def split: if_splits)
  note sp = upload_span_eq_Ok[OF span]
  have "y * unat (source_stride c) + 4 * unat (rect_w (source_rect c)) \<le> unat span"
    if "y < unat (rect_h (source_rect c))" for y
  proof -
    have "y * unat (source_stride c) \<le> (unat (rect_h (source_rect c)) - 1) * unat (source_stride c)"
      using that by (intro mult_le_mono1) linarith
    then show ?thesis using sp(4) by linarith
  qed
  with span add eq sp(1) show ?thesis by auto
qed

theorem upload_rows_in_span_witness:
  "\<exists>c span. validate c = Ok () \<and> upload_span c = Ok span \<and> unat (source_offset c) + unat span < 2 ^ 64"
proof -
  let ?c = "\<lparr>opcode = Upload, source_attachment = 5, destination_attachment = 6, source_offset = 64,
    source_stride = 24, source_mip = 0, source_layer = 0, destination_mip = 3, destination_layer = 5,
    source_rect = Rect 0 0 4 3, destination_rect = Rect 7 9 4 3, filter_mode = Nearest,
    flip_x = False, flip_y = False\<rparr>"
  have "validate ?c = Ok ()" "opcode ?c = Upload"
    by (simp_all add: validate_def validate_rect_def upload_span_def checked_add_def checked_mul_def
        u64_from_def)
  from upload_rows_in_span[OF this] show ?thesis using \<open>validate ?c = Ok ()\<close> by blast
qed

end
