(* ===== verification/Image_Descriptor.thy ===== *)
theory Image_Descriptor
  imports Image_Layout Float32
begin

text \<open>
  \<open>shared/maxwell-image-layout/src/descriptor.rs\<close>: the GM107 texture descriptor (eight words) of a
  checked image and the level-of-detail fields of a sampler. The lemmas read every field of an
  emitted descriptor back: the shifts and disjunctions of the code place no field over another.
  Single precision floats are their bit patterns with their rational value.
\<close>

section \<open>Texture descriptors\<close>

datatype Dimension = D1 | D1Array | D2 | D2Array | Cube

record Texture =
  tx_address :: u64
  tx_width :: u32
  tx_height :: u32
  tx_row_pitch :: u32
  tx_tile_y_log2 :: "u8 option"
  tx_format :: u32
  tx_alpha_mask :: bool
  tx_mip_levels :: u32
  tx_first_mip :: u32
  tx_last_mip :: u32
  tx_layers :: u32
  tx_dimension :: Dimension

text \<open>The component sizes, types and channel sources of a format.\<close>

definition texture_format :: "u32 \<Rightarrow> bool \<Rightarrow> u32 \<times> u32 list \<times> u32 list" where
  "texture_format format alpha_mask =
     (if format = 6 then (0x2f, [7, 4, 4, 4], [2, 2, 2, 7])
      else (8, [2, 2, 2, 2],
            if format = 2 \<and> alpha_mask then [7, 7, 7, 5]
            else if format = 2 then [5, 6, 6, 7]
            else if format = 3 then [4, 3, 6, 7]
            else [4, 3, 2, 5]))"

definition texture_type :: "Dimension \<Rightarrow> bool \<Rightarrow> u32" where
  "texture_type dimension pitch_linear =
     (case dimension of
        D1 \<Rightarrow> 0
      | D1Array \<Rightarrow> 0x02000000
      | D2 \<Rightarrow> if pitch_linear then 0x03800000 else 0x00800000
      | D2Array \<Rightarrow> 0x02800000
      | Cube \<Rightarrow> 0x01800000)"

definition texture :: "Texture \<Rightarrow> (Error, u32 list) outcome" where
  "texture d =
     (if 2 ^ 48 \<le> tx_address d \<or> tx_width d = 0 \<or> 16384 < tx_width d \<or> tx_height d = 0
         \<or> 16384 < tx_height d \<or> 6 < tx_format d \<or> tx_mip_levels d = 0 \<or> 15 < tx_mip_levels d
         \<or> tx_last_mip d < tx_first_mip d \<or> tx_mip_levels d \<le> tx_last_mip d \<or> tx_layers d = 0
         \<or> 2048 < tx_layers d
         \<or> (case tx_tile_y_log2 d of None \<Rightarrow> False | Some y \<Rightarrow> 4 < y)
         \<or> tx_alpha_mask d \<and> tx_format d \<noteq> 2
      then Err InvalidDescriptor else
      if tx_tile_y_log2 d = None
         \<and> (tx_row_pitch d = 0 \<or> tx_row_pitch d AND 31 \<noteq> 0 \<or> tx_mip_levels d \<noteq> 1
            \<or> tx_layers d \<noteq> 1 \<or> tx_dimension d \<noteq> D2)
      then Err InvalidDescriptor else
      if tx_dimension d \<in> {D1, D1Array} \<and> tx_height d \<noteq> 1
         \<or> tx_dimension d = Cube \<and> (tx_width d \<noteq> tx_height d \<or> tx_layers d \<noteq> 6)
         \<or> tx_dimension d \<in> {D1, D2} \<and> tx_layers d \<noteq> 1
      then Err InvalidDescriptor else
      (let (size, types, channels) = texture_format (tx_format d) (tx_alpha_mask d);
           tic0 = size OR push_bit 7 (types ! 0) OR push_bit 10 (types ! 1)
             OR push_bit 13 (types ! 2) OR push_bit 16 (types ! 3)
             OR push_bit 19 (channels ! 0) OR push_bit 22 (channels ! 1)
             OR push_bit 25 (channels ! 2) OR push_bit 28 (channels ! 3);
           depth = (if tx_dimension d = Cube then tx_layers d div 6 else tx_layers d)
       in Ok [tic0,
              ucast (tx_address d),
              ucast (drop_bit 32 (tx_address d))
                OR (if tx_tile_y_log2 d \<noteq> None then 0x00600000 else 0x00400000),
              0x10000 OR push_bit 28 (tx_mip_levels d - 1)
                OR (case tx_tile_y_log2 d of
                      Some y \<Rightarrow> push_bit 3 (ucast y)
                    | None \<Rightarrow> drop_bit 5 (tx_row_pitch d)),
              0xe0000000 OR texture_type (tx_dimension d) (tx_tile_y_log2 d = None)
                OR (if tx_format d \<in> {4, 5} then 0x00400000 else 0) OR (tx_width d - 1),
              0x80000000 OR push_bit 16 (depth - 1) OR (tx_height d - 1),
              0,
              tx_first_mip d OR push_bit 4 (tx_last_mip d)]))"

section \<open>Sampler levels of detail\<close>

text \<open>
  \<open>(v.min(15.0) * 256.0) as u32\<close>: for \<open>0 \<le> v\<close> the product is exact (a power of two, far
  from overflow) and the cast truncates.
\<close>

definition lod_fixed :: "f32 \<Rightarrow> u32" where
  "lod_fixed x = word_of_int \<lfloor>min (f32_value x) 15 * 256\<rfloor>"

definition sampler_lod ::
    "u32 list \<Rightarrow> u32 \<Rightarrow> bool \<Rightarrow> f32 \<Rightarrow> f32 \<Rightarrow> (Error, u32 list) outcome" where
  "sampler_lod words mip_levels linear_mip lo hi =
     (if mip_levels = 0 \<or> 15 < mip_levels \<or> \<not> f32_is_finite lo \<or> \<not> f32_is_finite hi
         \<or> f32_value lo < 0 \<or> f32_value hi < f32_value lo
      then Err InvalidDescriptor else
      (let w1 = (words ! 1 AND NOT 0xc0)
             OR (if mip_levels = 1 then 0x40 else if linear_mip then 0xc0 else 0x80);
           w2 = (lod_fixed lo AND 0xfff) OR push_bit 12 (lod_fixed hi AND 0xfff)
       in Ok (words[1 := w1, 2 := w2])))"

section \<open>Reading the fields back\<close>

lemma unat_minus_1: "0 < unat (w :: 'a::len word) \<Longrightarrow> unat (w - 1) = unat w - 1"
  by (metis gr_implies_not_zero unat_eq_0 unat_minus_one)

text \<open>What an accepted texture satisfies, on numbers.\<close>

lemma texture_accepted:
  assumes "texture d = Ok w"
  shows "unat (tx_address d) < 2 ^ 48" "0 < unat (tx_width d)" "unat (tx_width d) \<le> 16384"
    "0 < unat (tx_height d)" "unat (tx_height d) \<le> 16384"
    "0 < unat (tx_mip_levels d)" "unat (tx_mip_levels d) \<le> 15"
    "unat (tx_first_mip d) \<le> unat (tx_last_mip d)" "unat (tx_last_mip d) < unat (tx_mip_levels d)"
    "0 < unat (tx_layers d)" "unat (tx_layers d) \<le> 2048"
    "tx_tile_y_log2 d = Some y \<Longrightarrow> unat y \<le> 4"
    "tx_tile_y_log2 d = None \<Longrightarrow> tx_row_pitch d AND 31 = 0"
    "tx_dimension d = Cube \<Longrightarrow> tx_layers d = 6"
  using assms
  by (auto simp: texture_def word_le_nat_alt word_less_nat_alt unat_pos_iff not_le not_less
      split: if_splits)

lemma nth_eight:
  "[a, b, c, d, e, f, g, h] ! 1 = b" "[a, b, c, d, e, f, g, h] ! 2 = c" "[a, b, c, d, e, f, g, h] ! 3 = d"
  "[a, b, c, d, e, f, g, h] ! 4 = e" "[a, b, c, d, e, f, g, h] ! 5 = f" "[a, b, c, d, e, f, g, h] ! 7 = h"
  "length [a, b, c, d, e, f, g, h] = 8"
  by simp_all

text \<open>The words of an accepted texture.\<close>

lemma texture_words:
  assumes "texture d = Ok w"
  shows "w ! 1 = ucast (tx_address d)"
    "w ! 2 = ucast (drop_bit 32 (tx_address d))
      OR (if tx_tile_y_log2 d \<noteq> None then 0x00600000 else 0x00400000)"
    "w ! 3 = 0x10000 OR push_bit 28 (tx_mip_levels d - 1)
      OR (case tx_tile_y_log2 d of Some y \<Rightarrow> push_bit 3 (ucast y) | None \<Rightarrow> drop_bit 5 (tx_row_pitch d))"
    "w ! 4 = 0xe0000000 OR texture_type (tx_dimension d) (tx_tile_y_log2 d = None)
      OR (if tx_format d \<in> {4, 5} then 0x00400000 else 0) OR (tx_width d - 1)"
    "w ! 5 = 0x80000000
      OR push_bit 16 ((if tx_dimension d = Cube then tx_layers d div 6 else tx_layers d) - 1)
      OR (tx_height d - 1)"
    "w ! 7 = tx_first_mip d OR push_bit 4 (tx_last_mip d)"
    "length w = 8"
proof -
  obtain size types channels where fmt: "texture_format (tx_format d) (tx_alpha_mask d)
    = (size, types, channels)" by (cases "texture_format (tx_format d) (tx_alpha_mask d)")
  from assms[unfolded texture_def Let_def fmt prod.case if_eq_Ok] obtain tic0 where
    w: "w = [tic0, ucast (tx_address d),
      ucast (drop_bit 32 (tx_address d))
        OR (if tx_tile_y_log2 d \<noteq> None then 0x00600000 else 0x00400000),
      0x10000 OR push_bit 28 (tx_mip_levels d - 1)
        OR (case tx_tile_y_log2 d of Some y \<Rightarrow> push_bit 3 (ucast y) | None \<Rightarrow> drop_bit 5 (tx_row_pitch d)),
      0xe0000000 OR texture_type (tx_dimension d) (tx_tile_y_log2 d = None)
        OR (if tx_format d \<in> {4, 5} then 0x00400000 else 0) OR (tx_width d - 1),
      0x80000000
        OR push_bit 16 ((if tx_dimension d = Cube then tx_layers d div 6 else tx_layers d) - 1)
        OR (tx_height d - 1),
      0, tx_first_mip d OR push_bit 4 (tx_last_mip d)]" by blast
  show "w ! 1 = ucast (tx_address d)"
    "w ! 2 = ucast (drop_bit 32 (tx_address d))
      OR (if tx_tile_y_log2 d \<noteq> None then 0x00600000 else 0x00400000)"
    "w ! 3 = 0x10000 OR push_bit 28 (tx_mip_levels d - 1)
      OR (case tx_tile_y_log2 d of Some y \<Rightarrow> push_bit 3 (ucast y) | None \<Rightarrow> drop_bit 5 (tx_row_pitch d))"
    "w ! 4 = 0xe0000000 OR texture_type (tx_dimension d) (tx_tile_y_log2 d = None)
      OR (if tx_format d \<in> {4, 5} then 0x00400000 else 0) OR (tx_width d - 1)"
    "w ! 5 = 0x80000000
      OR push_bit 16 ((if tx_dimension d = Cube then tx_layers d div 6 else tx_layers d) - 1)
      OR (tx_height d - 1)"
    "w ! 7 = tx_first_mip d OR push_bit 4 (tx_last_mip d)"
    "length w = 8"
    unfolding w by (rule nth_eight)+
qed

text \<open>The abstract content of a descriptor.\<close>

definition texture_kind :: "Dimension \<Rightarrow> bool \<Rightarrow> nat" where
  "texture_kind dimension pitch_linear =
     (case dimension of D1 \<Rightarrow> 0 | D1Array \<Rightarrow> 4 | D2 \<Rightarrow> if pitch_linear then 7 else 1
      | D2Array \<Rightarrow> 5 | Cube \<Rightarrow> 3)"

text \<open>Every field of an accepted texture descriptor is found untruncated at its place in the eight
  words: the 48-bit address, the dimensions and layer count less one, the levels, the row pitch, the
  block height and the type. The row pitch of a pitch-linear image is read back when it is below
  \<open>2 ^ 21\<close>; above, its shifted value would overlap a fixed bit of the word.\<close>

theorem texture_fields:
  assumes "texture d = Ok w" "unat (tx_row_pitch d) < 2 ^ 21"
  shows "bits_of 0 32 (w ! 1) + 2 ^ 32 * bits_of 0 16 (w ! 2) = unat (tx_address d)
    \<and> bits_of 0 16 (w ! 4) + 1 = unat (tx_width d)
    \<and> bits_of 0 16 (w ! 5) + 1 = unat (tx_height d)
    \<and> bits_of 16 14 (w ! 5) + 1 = (if tx_dimension d = Cube then 1 else unat (tx_layers d))
    \<and> bits_of 28 4 (w ! 3) + 1 = unat (tx_mip_levels d)
    \<and> bits_of 0 4 (w ! 7) = unat (tx_first_mip d) \<and> bits_of 4 4 (w ! 7) = unat (tx_last_mip d)
    \<and> bits_of 23 3 (w ! 4) = texture_kind (tx_dimension d) (tx_tile_y_log2 d = None)
    \<and> bits_of 22 1 (w ! 4) = (if tx_format d \<in> {4, 5} then 1 else 0)
    \<and> (case tx_tile_y_log2 d of
         Some y \<Rightarrow> bits_of 21 3 (w ! 2) = 3 \<and> bits_of 3 3 (w ! 3) = unat y
       | None \<Rightarrow> bits_of 21 3 (w ! 2) = 2 \<and> 32 * bits_of 0 16 (w ! 3) = unat (tx_row_pitch d))"
proof -
  note w = texture_words[OF assms(1)] and a = texture_accepted[OF assms(1)]
  have m: "unat (tx_width d - 1) = unat (tx_width d) - 1" "unat (tx_height d - 1) = unat (tx_height d) - 1"
    "unat (tx_mip_levels d - 1) = unat (tx_mip_levels d) - 1"
    "unat (tx_layers d - 1) = unat (tx_layers d) - 1"
    using a by (simp_all add: unat_minus_1)
  have u: "unat (ucast v :: u32) = unat v mod 2 ^ 32" for v :: u64
    by (simp add: unsigned_ucast_eq take_bit_eq_mod)
  have high: "unat (tx_address d) div 2 ^ 32 < 2 ^ 16"
    using a(1) by (simp add: less_mult_imp_div_less)
  have address: "bits_of 0 32 (w ! 1) + 2 ^ 32 * bits_of 0 16 (w ! 2) = unat (tx_address d)"
  proof -
    have "bits_of 0 32 (w ! 1) = unat (tx_address d) mod 2 ^ 32"
      unfolding w(1) by (simp add: bits_of_nat u)
    moreover have "bits_of 0 16 (w ! 2) = unat (tx_address d) div 2 ^ 32"
      using high by (simp add: w bits_of_or bits_of_const) (simp add: bits_of_nat u unat_drop_bit)
    ultimately show ?thesis by simp
  qed
  have width: "bits_of 0 16 (w ! 4) + 1 = unat (tx_width d)"
    using a m by (simp add: w field_simps_bits texture_type_def split: Dimension.splits)
  have height: "bits_of 0 16 (w ! 5) + 1 = unat (tx_height d)"
    using a m by (simp add: w field_simps_bits)
  have cube: "unat ((if tx_dimension d = Cube then tx_layers d div 6 else tx_layers d) - 1)
      = (if tx_dimension d = Cube then 0 else unat (tx_layers d) - 1)"
    using a(14) m by simp
  have depth: "bits_of 16 14 (w ! 5) + 1 = (if tx_dimension d = Cube then 1 else unat (tx_layers d))"
  proof -
    let ?e = "(if tx_dimension d = Cube then tx_layers d div 6 else tx_layers d) - 1"
    have "unat (tx_layers d) - 1 < 2 ^ 14" using a(11) by simp
    then have "unat ?e < 2 ^ 14" unfolding cube by simp
    then have "bits_of 16 14 (push_bit 16 ?e) = unat ?e" by (intro bits_of_push_same) simp_all
    then show ?thesis using a m cube by (simp add: w bits_of_or bits_of_low bits_of_const)
  qed
  let ?pitch = "case tx_tile_y_log2 d of Some y \<Rightarrow> push_bit 3 (ucast y) | None \<Rightarrow> drop_bit 5 (tx_row_pitch d)"
  have pitch: "unat ?pitch = (case tx_tile_y_log2 d of Some y \<Rightarrow> 8 * unat y | None \<Rightarrow> unat (tx_row_pitch d) div 32)"
  proof (cases "tx_tile_y_log2 d")
    case None
    then show ?thesis by (simp add: unat_drop_bit)
  next
    case (Some y)
    have "unat (ucast y :: u32) = unat y" by (simp add: unsigned_ucast_eq take_bit_nat_eq_self unat_u8_u32)
    then show ?thesis using Some a(12)[OF Some] unat_push_bit[of "ucast y :: u32" 3] by simp
  qed
  have small: "unat ?pitch < 2 ^ 16"
    using a(12) assms(2) by (auto simp: pitch less_mult_imp_div_less split: option.splits)
  have mips: "bits_of 28 4 (w ! 3) + 1 = unat (tx_mip_levels d)"
  proof -
    have "bits_of 28 4 (push_bit 28 (tx_mip_levels d - 1)) = unat (tx_mip_levels d - 1)"
      using a m by (intro bits_of_push_same) simp_all
    moreover have "bits_of 28 4 ?pitch = 0" using small by (intro bits_of_low) simp
    ultimately show ?thesis using a m by (simp only: w bits_of_or) (simp add: bits_of_const)
  qed
  have lods: "bits_of 0 4 (w ! 7) = unat (tx_first_mip d)" "bits_of 4 4 (w ! 7) = unat (tx_last_mip d)"
    using a by (simp_all add: w field_simps_bits)
  have kind: "bits_of 23 3 (w ! 4) = texture_kind (tx_dimension d) (tx_tile_y_log2 d = None)"
    "bits_of 22 1 (w ! 4) = (if tx_format d \<in> {4, 5} then 1 else 0)"
    using a m by (simp_all add: w field_simps_bits texture_type_def texture_kind_def
        split: Dimension.splits)
  have kind2: "bits_of 21 3 (w ! 2) = (if tx_tile_y_log2 d \<noteq> None then 3 else 2)"
  proof -
    have "bits_of 21 3 (ucast (drop_bit 32 (tx_address d)) :: u32) = 0"
      using high by (simp add: bits_of_nat u unat_drop_bit)
    then show ?thesis by (simp add: w bits_of_or bits_of_const)
  qed
  have mod32: "32 dvd unat (tx_row_pitch d)" if "tx_tile_y_log2 d = None"
  proof -
    have "tx_row_pitch d AND mask 5 = 0" using a(13)[OF that] by (simp add: mask_eq_exp_minus_1)
    then have "2 ^ 5 dvd unat (tx_row_pitch d)" by (simp only: and_mask_dvd_nat)
    then show ?thesis by simp
  qed
  have tile: "case tx_tile_y_log2 d of
         Some y \<Rightarrow> bits_of 21 3 (w ! 2) = 3 \<and> bits_of 3 3 (w ! 3) = unat y
       | None \<Rightarrow> bits_of 21 3 (w ! 2) = 2 \<and> 32 * bits_of 0 16 (w ! 3) = unat (tx_row_pitch d)"
  proof (cases "tx_tile_y_log2 d")
    case None
    have "bits_of 0 16 ?pitch = unat (tx_row_pitch d) div 32"
      using small None pitch by (simp add: bits_of_all)
    then have "bits_of 0 16 (w ! 3) = unat (tx_row_pitch d) div 32"
      by (simp add: w bits_of_or bits_of_push_high bits_of_const)
    then show ?thesis using None kind2 mod32 by simp
  next
    case (Some y)
    have "bits_of 3 3 ?pitch = unat y"
      using a(12)[OF Some] Some pitch by (simp add: bits_of_nat)
    then have "bits_of 3 3 (w ! 3) = unat y"
      by (simp add: w bits_of_or bits_of_push_high bits_of_const)
    then show ?thesis using Some kind2 by simp
  qed
  show ?thesis using address width height depth mips lods kind tile by blast
qed

theorem texture_fields_witness:
  "\<exists>w. texture \<lparr>tx_address = 0x1234567890, tx_width = 64, tx_height = 48, tx_row_pitch = 256,
      tx_tile_y_log2 = Some 3, tx_format = 4, tx_alpha_mask = False, tx_mip_levels = 7,
      tx_first_mip = 1, tx_last_mip = 6, tx_layers = 6, tx_dimension = D2Array\<rparr> = Ok w
    \<and> bits_of 16 14 (w ! 5) + 1 = 6 \<and> bits_of 0 32 (w ! 1) + 2 ^ 32 * bits_of 0 16 (w ! 2) = 0x1234567890"
proof -
  let ?d = "\<lparr>tx_address = 0x1234567890, tx_width = 64, tx_height = 48, tx_row_pitch = 256,
      tx_tile_y_log2 = Some 3, tx_format = 4, tx_alpha_mask = False, tx_mip_levels = 7,
      tx_first_mip = 1, tx_last_mip = 6, tx_layers = 6, tx_dimension = D2Array\<rparr>"
  have "\<exists>w. texture ?d = Ok w" by (simp add: texture_def texture_format_def Let_def)
  then obtain w where "texture ?d = Ok w" by blast
  with texture_fields[OF this] show ?thesis by simp
qed

section \<open>Levels of detail\<close>

lemma lod_fixed_bounds:
  assumes "0 \<le> f32_value x"
  shows "int (unat (lod_fixed x)) = \<lfloor>min (f32_value x) 15 * 256\<rfloor>" and "unat (lod_fixed x) \<le> 3840"
proof -
  let ?v = "min (f32_value x) 15 * 256"
  have "0 \<le> ?v" "?v \<le> 3840" using assms by auto
  then have v: "0 \<le> \<lfloor>?v\<rfloor>" "\<lfloor>?v\<rfloor> \<le> 3840" by (simp_all add: floor_le_iff)
  then show i: "int (unat (lod_fixed x)) = \<lfloor>?v\<rfloor>"
    by (simp add: lod_fixed_def unsigned_of_int take_bit_int_eq_self)
  show "unat (lod_fixed x) \<le> 3840" using i v by linarith
qed

text \<open>The level-of-detail fields of an accepted sampler hold the two bounds, clamped to 15, in
  4.8 fixed point and in order; the mip filter follows from the level count; nothing else of the
  sampler words changes.\<close>

theorem sampler_lod_fields:
  assumes "sampler_lod words mip_levels linear_mip lo hi = Ok w" "length words = 8"
  shows "int (bits_of 0 12 (w ! 2)) = \<lfloor>min (f32_value lo) 15 * 256\<rfloor>
    \<and> int (bits_of 12 12 (w ! 2)) = \<lfloor>min (f32_value hi) 15 * 256\<rfloor>
    \<and> bits_of 0 12 (w ! 2) \<le> bits_of 12 12 (w ! 2)
    \<and> bits_of 6 2 (w ! 1) = (if mip_levels = 1 then 1 else if linear_mip then 3 else 2)
    \<and> w ! 1 AND NOT 0xc0 = words ! 1 AND NOT 0xc0
    \<and> (\<forall>i. i = 1 \<or> i = 2 \<or> w ! i = words ! i)"
proof -
  from assms have lo: "0 \<le> f32_value lo" "f32_value lo \<le> f32_value hi"
    and w: "w = words[1 := (words ! 1 AND NOT 0xc0)
             OR (if mip_levels = 1 then 0x40 else if linear_mip then 0xc0 else 0x80),
        2 := (lod_fixed lo AND 0xfff) OR push_bit 12 (lod_fixed hi AND 0xfff)]"
    by (auto simp: sampler_lod_def Let_def if_eq_Ok)
  have hi: "0 \<le> f32_value hi" using lo by linarith
  have mask: "v AND 0xfff = v" if "unat v \<le> 3840" for v :: u32
  proof -
    have "v AND mask 12 = take_bit 12 v" by (simp only: take_bit_eq_mask)
    also have "\<dots> = v" using that by (simp add: word_unat_eq_iff unsigned_take_bit_eq take_bit_nat_eq_self)
    finally show ?thesis by (simp add: mask_eq_exp_minus_1)
  qed
  note L = lod_fixed_bounds[OF lo(1)] and H = lod_fixed_bounds[OF hi]
  have w2: "w ! 2 = lod_fixed lo OR push_bit 12 (lod_fixed hi)"
    using assms(2) by (simp add: w mask[OF L(2)] mask[OF H(2)])
  have w1: "w ! 1 = (words ! 1 AND NOT 0xc0)
      OR (if mip_levels = 1 then 0x40 else if linear_mip then 0xc0 else 0x80)"
    using assms(2) by (simp add: w)
  have f: "bits_of 0 12 (w ! 2) = unat (lod_fixed lo)" "bits_of 12 12 (w ! 2) = unat (lod_fixed hi)"
    using L(2) H(2) by (simp_all add: w2 field_simps_bits)
  moreover have "\<lfloor>min (f32_value lo) 15 * 256\<rfloor> \<le> \<lfloor>min (f32_value hi) 15 * 256\<rfloor>"
    using lo by (intro floor_mono) auto
  then have "unat (lod_fixed lo) \<le> unat (lod_fixed hi)" using L(1) H(1) by linarith
  moreover have "bits_of 6 2 (w ! 1) = (if mip_levels = 1 then 1 else if linear_mip then 3 else 2)"
  proof -
    have "(NOT 0xc0 :: u32) = 0xffffff3f" by simp
    then show ?thesis by (simp only: w1 bits_of_or bits_of_and) (simp add: bits_of_const)
  qed
  moreover have "w ! 1 AND NOT 0xc0 = words ! 1 AND NOT 0xc0"
    unfolding w1 by (simp add: bit.conj_disj_distrib2)
  moreover have "\<forall>i. i = 1 \<or> i = 2 \<or> w ! i = words ! i"
    unfolding w by (metis nth_list_update_neq)
  ultimately show ?thesis using L(1) H(1) by simp
qed

theorem sampler_lod_fields_witness:
  "\<exists>w. sampler_lod (replicate 8 0) 7 True 0x3fc00000 0x40c00000 = Ok w
    \<and> int (bits_of 0 12 (w ! 2)) = 384 \<and> int (bits_of 12 12 (w ! 2)) = 1536"
proof -
  have v: "f32_value 0x3fc00000 = 3 / 2" "f32_value 0x40c00000 = 6"
    by (simp_all add: f32_value_def Let_def take_bit_eq_mod drop_bit_eq_div bit_iff_odd)
  have "\<exists>w. sampler_lod (replicate 8 0) 7 True 0x3fc00000 0x40c00000 = Ok w"
    by (simp add: sampler_lod_def f32_is_finite_def v)
  then obtain w where "sampler_lod (replicate 8 0) 7 True 0x3fc00000 0x40c00000 = Ok w" by blast
  with sampler_lod_fields[OF this] show ?thesis by (simp add: v)
qed

end
