(* ===== verification/Shader_Pack.thy ===== *)
theory Shader_Pack
  imports Bytes Machine
begin

text \<open>
  \<open>shared/maxwell-shader-pack/src/lib.rs\<close>: the identities of the fixed shader programs and the
  routine that lays them out in kernel memory. The compiled programs and their headers are binary
  artifacts; they are the parameters \<open>header\<close> and \<open>code\<close> of \<open>copy_pack\<close>.
\<close>

section \<open>Shaders\<close>

definition SHADER_ALIGNMENT :: nat where "SHADER_ALIGNMENT = 4096"
definition SHADER_SIZE :: nat where "SHADER_SIZE = 4096"
definition PACK_SIZE :: nat where "PACK_SIZE = 15 * SHADER_ALIGNMENT"

datatype ShaderVariant =
     VsStride16Pos2 | VsStride16Pos2Uv2 | VsStride40Pos4 | VsStride40Pos4Color4
     | VsStride40Pos4Color4Uv2 | FsSolid | FsVertexColor | FsTextureRgba | FsTextureAlphaMask
     | FsTextureVertexColorRgba | VsStride24Pos4Uv2 | VsStride28Pos4Color3
     | FsTextureRgbIgnoreAlpha | FsTextureNv12 | FsTextureVertexColorNv12

definition ALL_shaders :: "ShaderVariant list" where
  "ALL_shaders =
    [VsStride16Pos2, VsStride16Pos2Uv2, VsStride40Pos4, VsStride40Pos4Color4,
     VsStride40Pos4Color4Uv2, FsSolid, FsVertexColor, FsTextureRgba, FsTextureAlphaMask,
     FsTextureVertexColorRgba, VsStride24Pos4Uv2, VsStride28Pos4Color3, FsTextureRgbIgnoreAlpha,
     FsTextureNv12, FsTextureVertexColorNv12]"

text \<open>\<open>ShaderVariant::from_raw\<close>, \<open>raw\<close>, \<open>offset\<close> and \<open>start\<close>\<close>

definition shader_from_raw :: "u16 \<Rightarrow> ShaderVariant option" where
  "shader_from_raw raw = (if raw < 15 then Some (ALL_shaders ! unat raw) else None)"

fun shader_raw :: "ShaderVariant \<Rightarrow> u16" where
  "shader_raw VsStride16Pos2 = 0"
| "shader_raw VsStride16Pos2Uv2 = 1"
| "shader_raw VsStride40Pos4 = 2"
| "shader_raw VsStride40Pos4Color4 = 3"
| "shader_raw VsStride40Pos4Color4Uv2 = 4"
| "shader_raw FsSolid = 5"
| "shader_raw FsVertexColor = 6"
| "shader_raw FsTextureRgba = 7"
| "shader_raw FsTextureAlphaMask = 8"
| "shader_raw FsTextureVertexColorRgba = 9"
| "shader_raw VsStride24Pos4Uv2 = 10"
| "shader_raw VsStride28Pos4Color3 = 11"
| "shader_raw FsTextureRgbIgnoreAlpha = 12"
| "shader_raw FsTextureNv12 = 13"
| "shader_raw FsTextureVertexColorNv12 = 14"

definition shader_offset :: "ShaderVariant \<Rightarrow> nat" where
  "shader_offset v = unat (shader_raw v) * SHADER_ALIGNMENT"

definition shader_start :: "ShaderVariant \<Rightarrow> u32" where
  "shader_start v = word_of_nat (shader_offset v) + 0x30"

definition is_vertex :: "ShaderVariant \<Rightarrow> bool" where
  "is_vertex v \<longleftrightarrow>
     v \<in> {VsStride16Pos2, VsStride16Pos2Uv2, VsStride40Pos4, VsStride40Pos4Color4,
          VsStride40Pos4Color4Uv2, VsStride24Pos4Uv2, VsStride28Pos4Color3}"

fun shader_gprs :: "ShaderVariant \<Rightarrow> u32" where
  "shader_gprs VsStride16Pos2 = 8"
| "shader_gprs VsStride16Pos2Uv2 = 8"
| "shader_gprs VsStride40Pos4 = 7"
| "shader_gprs VsStride40Pos4Color4 = 7"
| "shader_gprs VsStride40Pos4Color4Uv2 = 7"
| "shader_gprs FsSolid = 4"
| "shader_gprs FsVertexColor = 5"
| "shader_gprs FsTextureRgba = 4"
| "shader_gprs FsTextureAlphaMask = 4"
| "shader_gprs FsTextureVertexColorRgba = 8"
| "shader_gprs VsStride24Pos4Uv2 = 7"
| "shader_gprs VsStride28Pos4Color3 = 7"
| "shader_gprs FsTextureRgbIgnoreAlpha = 4"
| "shader_gprs FsTextureNv12 = 6"
| "shader_gprs FsTextureVertexColorNv12 = 8"

section \<open>Pipelines\<close>

datatype PipelineVariant =
     Stride16Solid | Stride16TextureRgba | Stride16TextureAlphaMask | Stride40Solid
     | Stride40VertexColor | Stride40TextureVertexColorRgba | Stride24Solid | Stride24TextureRgba
     | Stride24TextureRgbIgnoreAlpha | Stride28VertexColor | Stride32Solid | Stride32VertexColor
     | Stride24TextureAlphaMask

definition ALL_pipelines :: "PipelineVariant list" where
  "ALL_pipelines =
    [Stride16Solid, Stride16TextureRgba, Stride16TextureAlphaMask, Stride40Solid,
     Stride40VertexColor, Stride40TextureVertexColorRgba, Stride24Solid, Stride24TextureRgba,
     Stride24TextureRgbIgnoreAlpha, Stride28VertexColor, Stride32Solid, Stride32VertexColor,
     Stride24TextureAlphaMask]"

definition pipeline_from_raw :: "u32 \<Rightarrow> PipelineVariant option" where
  "pipeline_from_raw raw = (if raw < 13 then Some (ALL_pipelines ! unat raw) else None)"

fun pipeline_raw :: "PipelineVariant \<Rightarrow> u32" where
  "pipeline_raw Stride16Solid = 0"
| "pipeline_raw Stride16TextureRgba = 1"
| "pipeline_raw Stride16TextureAlphaMask = 2"
| "pipeline_raw Stride40Solid = 3"
| "pipeline_raw Stride40VertexColor = 4"
| "pipeline_raw Stride40TextureVertexColorRgba = 5"
| "pipeline_raw Stride24Solid = 6"
| "pipeline_raw Stride24TextureRgba = 7"
| "pipeline_raw Stride24TextureRgbIgnoreAlpha = 8"
| "pipeline_raw Stride28VertexColor = 9"
| "pipeline_raw Stride32Solid = 10"
| "pipeline_raw Stride32VertexColor = 11"
| "pipeline_raw Stride24TextureAlphaMask = 12"

definition pipeline_shaders :: "PipelineVariant \<Rightarrow> ShaderVariant \<times> ShaderVariant" where
  "pipeline_shaders p =
    [(VsStride16Pos2, FsSolid), (VsStride16Pos2Uv2, FsTextureRgba),
     (VsStride16Pos2Uv2, FsTextureAlphaMask), (VsStride40Pos4, FsSolid),
     (VsStride40Pos4Color4, FsVertexColor), (VsStride40Pos4Color4Uv2, FsTextureVertexColorRgba),
     (VsStride40Pos4, FsSolid), (VsStride24Pos4Uv2, FsTextureRgba),
     (VsStride24Pos4Uv2, FsTextureRgbIgnoreAlpha), (VsStride28Pos4Color3, FsVertexColor),
     (VsStride40Pos4, FsSolid), (VsStride40Pos4Color4, FsVertexColor),
     (VsStride24Pos4Uv2, FsTextureAlphaMask)]
      ! unat (pipeline_raw p)"

definition pipeline_stride :: "PipelineVariant \<Rightarrow> u32" where
  "pipeline_stride p =
     [16, 16, 16, 40, 40, 40, 24, 24, 24, 28, 32, 32, 24] ! unat (pipeline_raw p)"

section \<open>The pack\<close>

text \<open>The stores of \<open>copy_pack\<close>: the pack is cleared, then each program is placed on its page.\<close>

definition pack_stores :: "(ShaderVariant \<Rightarrow> bytes) \<Rightarrow> (ShaderVariant \<Rightarrow> bytes) \<Rightarrow> store list" where
  "pack_stores header code =
     concat (map (\<lambda>v. [(shader_offset v + 0x30, header v), (shader_offset v + 0x80, code v)])
       ALL_shaders)"

definition copy_pack ::
    "(ShaderVariant \<Rightarrow> bytes) \<Rightarrow> (ShaderVariant \<Rightarrow> bytes) \<Rightarrow> bytes \<Rightarrow> bytes \<times> (string, unit) outcome" where
  "copy_pack header code b =
     (if length b < PACK_SIZE then (b, Err ''Maxwell shader pack backing too small'') else
      case run_writes ((0, replicate PACK_SIZE 0) # pack_stores header code) b of
        Some b' \<Rightarrow> (b', Ok ())
      | None \<Rightarrow> (b, Panic))"

section \<open>Identities\<close>

lemma shader_raw_ALL: "i < 15 \<Longrightarrow> unat (shader_raw (ALL_shaders ! i)) = i"
proof -
  have "list_all (\<lambda>i. unat (shader_raw (ALL_shaders ! i)) = i) [0..<15]" by code_simp
  then show "i < 15 \<Longrightarrow> unat (shader_raw (ALL_shaders ! i)) = i" by (simp add: list_all_iff)
qed

lemma ALL_shaders_raw: "unat (shader_raw v) < 15" "ALL_shaders ! unat (shader_raw v) = v"
  by (cases v; simp add: ALL_shaders_def)+

lemma shader_from_raw_raw [simp]: "shader_from_raw (shader_raw v) = Some v"
  using ALL_shaders_raw[of v] by (simp add: shader_from_raw_def word_less_nat_alt)

lemma shader_from_raw_eq_Some: "shader_from_raw r = Some v \<longleftrightarrow> r = shader_raw v"
proof
  assume "shader_from_raw r = Some v"
  then have "unat r < 15" "v = ALL_shaders ! unat r"
    by (auto simp: shader_from_raw_def word_less_nat_alt split: if_splits)
  then show "r = shader_raw v" using shader_raw_ALL[of "unat r"] by (simp add: word_unat_eq_iff)
qed simp

lemma pipeline_raw_ALL: "i < 13 \<Longrightarrow> unat (pipeline_raw (ALL_pipelines ! i)) = i"
proof -
  have "list_all (\<lambda>i. unat (pipeline_raw (ALL_pipelines ! i)) = i) [0..<13]" by code_simp
  then show "i < 13 \<Longrightarrow> unat (pipeline_raw (ALL_pipelines ! i)) = i" by (simp add: list_all_iff)
qed

lemma pipeline_from_raw_eq_Some: "pipeline_from_raw r = Some p \<longleftrightarrow> r = pipeline_raw p"
proof
  assume "pipeline_from_raw r = Some p"
  then have "unat r < 13" "p = ALL_pipelines ! unat r"
    by (auto simp: pipeline_from_raw_def word_less_nat_alt split: if_splits)
  then show "r = pipeline_raw p" using pipeline_raw_ALL[of "unat r"] by (simp add: word_unat_eq_iff)
next
  assume "r = pipeline_raw p"
  then show "pipeline_from_raw r = Some p"
    by (cases p) (simp_all add: pipeline_from_raw_def ALL_pipelines_def)
qed

lemma pack_stores_table:
  "pack_stores header code = concat (map (\<lambda>i. [(i * 4096 + 0x30, header (ALL_shaders ! i)),
     (i * 4096 + 0x80, code (ALL_shaders ! i))]) [0..<15])"
proof -
  have "ALL_shaders = map ((!) ALL_shaders) [0..<length ALL_shaders]" by (rule map_nth[symmetric])
  moreover have "length ALL_shaders = 15" by (simp add: ALL_shaders_def)
  ultimately have all: "ALL_shaders = map ((!) ALL_shaders) [0..<15]" by simp
  show ?thesis unfolding pack_stores_def
    by (subst all, simp only: map_map, intro arg_cong[where f=concat] map_cong[OF refl])
      (simp add: shader_offset_def SHADER_ALIGNMENT_def shader_raw_ALL)
qed

lemma pack_stores_regions:
  assumes "\<And>v. length (header v) = 80" "\<And>v. length (code v) \<le> SHADER_SIZE - 0x80"
  shows "stores_in 0 PACK_SIZE (pack_stores header code)" "stores_disjoint (pack_stores header code)"
proof -
  have "length (code v) \<le> 3968" for v using assms(2)[of v] by (simp add: SHADER_SIZE_def)
  then have "stores_in 0 (0 + 15 * 4096) (pack_stores header code) \<and> stores_disjoint (pack_stores header code)"
    unfolding pack_stores_table using assms(1)
    by (intro table_stores) (simp_all add: store_disjoint_def)
  then show "stores_in 0 PACK_SIZE (pack_stores header code)" "stores_disjoint (pack_stores header code)"
    by (simp_all add: PACK_SIZE_def SHADER_ALIGNMENT_def)
qed

lemma shader_offset_bound: "shader_offset v + 4096 \<le> 61440"
  using ALL_shaders_raw(1)[of v] by (simp add: shader_offset_def SHADER_ALIGNMENT_def)

lemma shader_raw_injective: "unat (shader_raw u) = unat (shader_raw v) \<Longrightarrow> u = v"
  by (metis ALL_shaders_raw(2))

lemma shader_offset_apart:
  "u = v \<or> shader_offset u + 4096 \<le> shader_offset v \<or> shader_offset v + 4096 \<le> shader_offset u"
proof -
  have "u = v \<or> unat (shader_raw u) < unat (shader_raw v) \<or> unat (shader_raw v) < unat (shader_raw u)"
    by (meson linorder_neqE_nat shader_raw_injective)
  then show ?thesis by (elim disjE) (simp_all add: shader_offset_def SHADER_ALIGNMENT_def)
qed

lemma ALL_shaders_complete: "v \<in> set ALL_shaders"
  by (cases v) (simp_all add: ALL_shaders_def)

section \<open>Properties\<close>

text \<open>C40: \<open>copy_pack\<close> writes each program's header and code to the offset its identity promises, zeroes
  the rest of the pack, and leaves every byte behind the pack as it was.\<close>

theorem copy_pack_layout:
  assumes "\<And>v. length (header v) = 80" "\<And>v. length (code v) \<le> SHADER_SIZE - 0x80"
    and "PACK_SIZE \<le> length b"
  shows "\<exists>b'. copy_pack header code b = (b', Ok ()) \<and> length b' = length b
    \<and> drop PACK_SIZE b' = drop PACK_SIZE b
    \<and> (\<forall>v. slice b' (unat (shader_start v)) 80 = header v
        \<and> slice b' (unat (shader_start v) + 80) (length (code v)) = code v
        \<and> \<not> any_nonzero (slice b' (shader_offset v) 0x30)
        \<and> (\<forall>j. j < SHADER_SIZE \<longrightarrow> 0x80 + length (code v) \<le> j \<longrightarrow> b' ! (shader_offset v + j) = 0))"
proof -
  note reg = pack_stores_regions[OF assms(1,2)]
  let ?b = "splice b 0 (replicate PACK_SIZE 0)" and ?ws = "pack_stores header code"
  have len: "length ?b = length b" using assms(3) by simp
  have "stores_within ?ws (length ?b)" using stores_in_within[OF reg(1)] assms(3) len by simp
  then obtain b' where w: "run_writes ?ws ?b = Some b'" and l: "length b' = length b"
    using run_writes_within[of ?ws ?b] len by auto
  have copy: "copy_pack header code b = (b', Ok ())" using assms(3) w by (simp add: copy_pack_def)
  have "slice b' PACK_SIZE (length b - PACK_SIZE) = slice ?b PACK_SIZE (length b - PACK_SIZE)"
    using run_writes_other[OF w _ stores_in_other[OF reg(1)]] len assms(3) by simp
  also have "\<dots> = slice b PACK_SIZE (length b - PACK_SIZE)"
    using assms(3) by (intro slice_splice_other) auto
  finally have tail: "drop PACK_SIZE b' = drop PACK_SIZE b" using l assms(3) by (simp add: slice_def)
  have page: "slice b' (unat (shader_start v)) 80 = header v
        \<and> slice b' (unat (shader_start v) + 80) (length (code v)) = code v
        \<and> \<not> any_nonzero (slice b' (shader_offset v) 0x30)
        \<and> (\<forall>j. j < SHADER_SIZE \<longrightarrow> 0x80 + length (code v) \<le> j \<longrightarrow> b' ! (shader_offset v + j) = 0)" for v
  proof -
    let ?o = "shader_offset v"
    have code: "length (code u) \<le> 3968" for u using assms(2)[of u] by (simp add: SHADER_SIZE_def)
    have start: "unat (shader_start v) = ?o + 0x30"
      using shader_offset_bound[of v] by (simp add: shader_start_def unat_add_lt unat_of_nat_lt)
    have mem: "(?o + 0x30, header v) \<in> set ?ws" "(?o + 0x80, code v) \<in> set ?ws"
      unfolding pack_stores_def set_concat set_map using ALL_shaders_complete[of v] by force+
    have h: "slice b' (unat (shader_start v)) 80 = header v"
      using run_writes_read[OF w reg(2) mem(1)] assms(1) start by simp
    have c: "slice b' (unat (shader_start v) + 80) (length (code v)) = code v"
      using run_writes_read[OF w reg(2) mem(2)] start by (simp add: add.commute)
    have zero: "\<not> any_nonzero (slice b' (?o + i) n)"
      if "i + n \<le> 0x30 \<or> 0x80 + length (code v) \<le> i" "i + n \<le> 4096" for i n
    proof -
      have "list_all (\<lambda>s. store_disjoint s (?o + i) n) ?ws"
        unfolding pack_stores_def list_all_iff
      proof safe
        fix k xs assume "(k, xs) \<in> set (concat (map (\<lambda>v. [(shader_offset v + 0x30, header v),
          (shader_offset v + 0x80, code v)]) ALL_shaders))"
        then obtain u where u: "(k, xs) = (shader_offset u + 0x30, header u)
          \<or> (k, xs) = (shader_offset u + 0x80, code u)" by auto
        show "store_disjoint (k, xs) (?o + i) n"
          using shader_offset_apart[of u v] u that assms(1)[of u] code[of u]
          by (auto simp: store_disjoint_def)
      qed
      from run_writes_other[OF w _ this] have "slice b' (?o + i) n = slice ?b (?o + i) n"
        using that(2) shader_offset_bound[of v] assms(3) len
        by (simp add: PACK_SIZE_def SHADER_ALIGNMENT_def)
      also have "\<dots> = replicate n 0"
        using that(2) shader_offset_bound[of v] assms(3)
        by (simp add: slice_def splice_def PACK_SIZE_def SHADER_ALIGNMENT_def)
      finally show ?thesis by simp
    qed
    have "b' ! (?o + j) = 0" if "j < SHADER_SIZE" "0x80 + length (code v) \<le> j" for j
    proof -
      have "?o + j + 1 \<le> length b'"
        using that(1) shader_offset_bound[of v] assms(3) l
        by (simp add: PACK_SIZE_def SHADER_ALIGNMENT_def SHADER_SIZE_def)
      with zero[of j 1] that show ?thesis by (simp add: any_nonzero_slice SHADER_SIZE_def)
    qed
    with h c zero[of 0 "0x30"] show ?thesis by simp
  qed
  show ?thesis using copy l tail page by blast
qed

theorem copy_pack_layout_witness:
  "\<exists>b'. copy_pack (\<lambda>v. replicate 80 7) (\<lambda>v. [1, 2, 3]) (replicate 70000 9) = (b', Ok ())
    \<and> slice b' (unat (shader_start FsSolid) + 80) 3 = [1, 2, 3]"
proof -
  have "length (replicate 80 (7 :: u8)) = 80" "length [1, 2, 3 :: u8] \<le> SHADER_SIZE - 0x80"
    "PACK_SIZE \<le> length (replicate 70000 (9 :: u8))"
    by (simp_all add: SHADER_SIZE_def PACK_SIZE_def SHADER_ALIGNMENT_def)
  from copy_pack_layout[OF this] obtain b' where
    "copy_pack (\<lambda>v. replicate 80 7) (\<lambda>v. [1, 2, 3]) (replicate 70000 9) = (b', Ok ())"
    "slice b' (unat (shader_start FsSolid) + 80) (length [1, 2, 3 :: u8]) = [1, 2, 3]" by blast
  then show ?thesis by (auto simp: numeral_3_eq_3)
qed

text \<open>Raw identities of shaders and pipelines round trip; every pipeline pairs a vertex with a
  fragment program, and every program declares between 4 and 8 registers.\<close>

theorem shader_identities:
  "(shader_from_raw r = Some v \<longleftrightarrow> r = shader_raw v)
    \<and> (pipeline_from_raw q = Some p \<longleftrightarrow> q = pipeline_raw p)
    \<and> is_vertex (fst (pipeline_shaders p)) \<and> \<not> is_vertex (snd (pipeline_shaders p))
    \<and> 4 \<le> shader_gprs v \<and> shader_gprs v \<le> 8"
proof -
  have "is_vertex (fst (pipeline_shaders p))" "\<not> is_vertex (snd (pipeline_shaders p))"
    by (cases p; simp add: pipeline_shaders_def is_vertex_def)+
  moreover have "4 \<le> shader_gprs v" "shader_gprs v \<le> 8" by (cases v; simp)+
  ultimately show ?thesis by (simp add: shader_from_raw_eq_Some pipeline_from_raw_eq_Some)
qed

end
