(* ===== verification/Submit_Wire.thy ===== *)
theory Submit_Wire
  imports Shader_Pack
begin

text \<open>
  \<open>shared/maxwell-submit-wire/src/lib.rs\<close>: the submission a userspace client hands to the kernel: a
  table of command words, a table of resources and a table of relocations. \<open>encode\<close> and \<open>decode\<close>
  are translated statement by statement; \<open>usize\<close> values are numbers.
\<close>

section \<open>Data\<close>

definition MAGIC :: u32 where "MAGIC = 0x53324D47"
definition VERSION_MAJOR :: u16 where "VERSION_MAJOR = 1"
definition VERSION_MINOR :: u16 where "VERSION_MINOR = 1"
definition HEADER_SIZE :: nat where "HEADER_SIZE = 64"
definition RESOURCE_SIZE :: nat where "RESOURCE_SIZE = 32"
definition RELOCATION_SIZE :: nat where "RELOCATION_SIZE = 32"
definition MAX_SUBMIT_SIZE :: nat where "MAX_SUBMIT_SIZE = 2 * 1024 * 1024"
definition OPERATION_WORDS :: nat where "OPERATION_WORDS = 64"
definition MAX_OPERATIONS :: nat where "MAX_OPERATIONS = 1024"
definition MAX_COMMAND_WORDS :: nat where "MAX_COMMAND_WORDS = OPERATION_WORDS * MAX_OPERATIONS"
definition MAX_RESOURCES :: nat where "MAX_RESOURCES = 1024"
definition MAX_RELOCATIONS :: nat where "MAX_RELOCATIONS = 8192"
definition ACCESS_READ :: u32 where "ACCESS_READ = 1"
definition ACCESS_WRITE :: u32 where "ACCESS_WRITE = 2"
definition ACCESS_MASK :: u32 where "ACCESS_MASK = ACCESS_READ OR ACCESS_WRITE"

datatype Error =
    Overflow | InvalidSize | UnsupportedVersion | InvalidField | ReservedNotZero | InvalidTable
  | RelocationsNotSorted | RelocationOutOfBounds | NonZeroPlaceholder

record Resource =
  attachment_token :: u64
  range_offset :: u64
  range_size :: u64
  r_access :: u32

datatype AddressEncoding = GpuVa64

fun encoding_raw :: "AddressEncoding \<Rightarrow> u16" where
  "encoding_raw GpuVa64 = 1"

definition encoding_from_raw :: "u16 \<Rightarrow> (Error, AddressEncoding) outcome" where
  "encoding_from_raw v = (if v = 1 then Ok GpuVa64 else Err InvalidField)"

definition word_count :: "AddressEncoding \<Rightarrow> u32" where
  "word_count e = 2"

definition placeholder_is_valid :: "AddressEncoding \<Rightarrow> u32 list \<Rightarrow> bool" where
  "placeholder_is_valid e words \<longleftrightarrow> words = [0, 0]"

datatype RelocationSource = Attachment u32 | CanonicalShader ShaderVariant

record Relocation =
  commands_word_offset :: u32
  reloc_source :: RelocationSource
  resource_offset :: u64
  required_size :: u64
  access :: u32
  encoding :: AddressEncoding

record Submit =
  commands :: "u32 list"
  resources :: "Resource list"
  relocations :: "Relocation list"

record Layout =
  total :: nat
  commands_offset :: nat
  resources_offset :: nat
  relocations_offset :: nat

section \<open>Layout\<close>

text \<open>\<open>alignment\<close> is a power of two: \<open>value & !(alignment - 1)\<close> drops the remainder.\<close>

definition align_up :: "nat \<Rightarrow> nat \<Rightarrow> (Error, nat) outcome" where
  "align_up v alignment =
     (case usize_add v (alignment - 1) of
        Some s \<Rightarrow> Ok (s - s mod alignment)
      | None \<Rightarrow> Err Overflow)"

definition layout :: "nat \<Rightarrow> nat \<Rightarrow> nat \<Rightarrow> (Error, Layout) outcome" where
  "layout commands_count resource_count relocation_count =
     (if commands_count = 0 \<or> commands_count mod OPERATION_WORDS \<noteq> 0
         \<or> MAX_COMMAND_WORDS < commands_count \<or> MAX_RESOURCES < resource_count
         \<or> MAX_RELOCATIONS < relocation_count
      then Err InvalidSize else
      and_then (ok_or (usize_mul commands_count 4) Overflow) (\<lambda>commands_size.
      and_then (ok_or (usize_mul resource_count RESOURCE_SIZE) Overflow) (\<lambda>resources_size.
      and_then (ok_or (usize_mul relocation_count RELOCATION_SIZE) Overflow) (\<lambda>relocations_size.
      and_then (ok_or (usize_add HEADER_SIZE commands_size) Overflow) (\<lambda>commands_end.
      and_then (align_up commands_end 8) (\<lambda>res_off.
      and_then (ok_or (usize_add res_off resources_size) Overflow) (\<lambda>rel_off.
      and_then (ok_or (usize_add rel_off relocations_size) Overflow) (\<lambda>tot.
      if MAX_SUBMIT_SIZE < tot \<or> 4294967295 < tot then Err InvalidSize
      else Ok \<lparr>total = tot, commands_offset = HEADER_SIZE, resources_offset = res_off,
             relocations_offset = rel_off\<rparr>))))))))"

definition encoded_len :: "Submit \<Rightarrow> (Error, nat) outcome" where
  "encoded_len s =
     and_then (layout (length (commands s)) (length (resources s)) (length (relocations s)))
       (\<lambda>l. Ok (total l))"

section \<open>Validation\<close>

definition validate_access :: "u32 \<Rightarrow> (Error, unit) outcome" where
  "validate_access a = (if a = 0 \<or> a AND NOT ACCESS_MASK \<noteq> 0 then Err InvalidField else Ok ())"

definition validate_resource :: "Resource \<Rightarrow> (Error, unit) outcome" where
  "validate_resource r =
     and_then (validate_access (r_access r)) (\<lambda>_.
     if attachment_token r = 0 \<or> range_size r = 0
        \<or> checked_add (range_offset r) (range_size r) = None
     then Err InvalidField else Ok ())"

text \<open>The checks of a relocation's source against the resource it names.\<close>

definition validate_source :: "Relocation \<Rightarrow> Resource option \<Rightarrow> (Error, unit) outcome" where
  "validate_source rel res =
     (case reloc_source rel of
        Attachment index \<Rightarrow>
          and_then (ok_or res RelocationOutOfBounds) (\<lambda>r.
          if access rel AND NOT (r_access r) \<noteq> 0 \<or> required_size rel = 0
          then Err RelocationOutOfBounds else
          and_then (ok_or (checked_add (resource_offset rel) (required_size rel)) Overflow) (\<lambda>range_end.
          if range_size r < range_end then Err RelocationOutOfBounds else Ok ()))
      | CanonicalShader variant \<Rightarrow>
          if resource_offset rel \<noteq> 0 \<or> required_size rel \<noteq> word_of_nat SHADER_SIZE
             \<or> access rel \<noteq> ACCESS_READ \<or> encoding rel \<noteq> GpuVa64
          then Err RelocationOutOfBounds else Ok ())"

definition validate_relocation ::
    "Relocation \<Rightarrow> u32 option \<Rightarrow> u32 list \<Rightarrow> Resource list \<Rightarrow> (Error, unit) outcome" where
  "validate_relocation rel previous_end cmds res =
     and_then (validate_access (access rel)) (\<lambda>_.
     if (case previous_end of None \<Rightarrow> False | Some p \<Rightarrow> commands_word_offset rel < p)
     then Err RelocationsNotSorted else
     and_then (validate_source rel
       (case reloc_source rel of
          Attachment index \<Rightarrow> if unat index < length res then Some (res ! unat index) else None
        | CanonicalShader _ \<Rightarrow> None)) (\<lambda>_.
     and_then (ok_or (checked_add (commands_word_offset rel) (word_count (encoding rel))) Overflow)
       (\<lambda>word_end.
     if length cmds < unat word_end then Err RelocationOutOfBounds else
     and_then (subslice cmds (unat (commands_word_offset rel))
         (unat word_end - unat (commands_word_offset rel))) (\<lambda>words.
     if \<not> placeholder_is_valid (encoding rel) words then Err NonZeroPlaceholder else Ok ()))))"

section \<open>Encoding\<close>

fun source_raw :: "RelocationSource \<Rightarrow> u16 \<times> u32" where
  "source_raw (Attachment index) = (0, index)"
| "source_raw (CanonicalShader variant) = (1, ucast (shader_raw variant))"

definition header_stores :: "Layout \<Rightarrow> Submit \<Rightarrow> store list" where
  "header_stores l s =
     [(0, to_le_bytes MAGIC), (4, to_le_bytes VERSION_MAJOR), (6, to_le_bytes VERSION_MINOR),
      (8, to_le_bytes (word_of_nat HEADER_SIZE :: u16)), (10, to_le_bytes (0 :: u16)),
      (12, to_le_bytes (word_of_nat (total l) :: u32)),
      (16, to_le_bytes (word_of_nat (commands_offset l) :: u32)),
      (20, to_le_bytes (word_of_nat (length (commands s)) :: u32)),
      (24, to_le_bytes (word_of_nat (resources_offset l) :: u32)),
      (28, to_le_bytes (word_of_nat (length (resources s)) :: u32)),
      (32, to_le_bytes (word_of_nat (relocations_offset l) :: u32)),
      (36, to_le_bytes (word_of_nat (length (relocations s)) :: u32))]"

definition command_store :: "Layout \<Rightarrow> Submit \<Rightarrow> nat \<Rightarrow> store list" where
  "command_store l s i = [(commands_offset l + i * 4, to_le_bytes (commands s ! i))]"

definition resource_stores :: "Layout \<Rightarrow> Submit \<Rightarrow> nat \<Rightarrow> store list" where
  "resource_stores l s i =
     (let offset = resources_offset l + i * RESOURCE_SIZE; r = resources s ! i in
      [(offset, to_le_bytes (attachment_token r)), (offset + 8, to_le_bytes (range_offset r)),
       (offset + 16, to_le_bytes (range_size r)), (offset + 24, to_le_bytes (r_access r))])"

definition relocation_stores :: "Layout \<Rightarrow> Submit \<Rightarrow> nat \<Rightarrow> store list" where
  "relocation_stores l s i =
     (let offset = relocations_offset l + i * RELOCATION_SIZE; r = relocations s ! i in
      [(offset, to_le_bytes (commands_word_offset r)),
       (offset + 4, to_le_bytes (snd (source_raw (reloc_source r)))),
       (offset + 8, to_le_bytes (resource_offset r)),
       (offset + 16, to_le_bytes (required_size r)), (offset + 24, to_le_bytes (access r)),
       (offset + 28, to_le_bytes (encoding_raw (encoding r))),
       (offset + 30, to_le_bytes (fst (source_raw (reloc_source r))))])"

text \<open>All stores of \<open>encode\<close>, in program order.\<close>

definition submit_stores :: "Layout \<Rightarrow> Submit \<Rightarrow> store list" where
  "submit_stores l s =
     header_stores l s
     @ concat (map (command_store l s) [0..<length (commands s)])
     @ concat (map (resource_stores l s) [0..<length (resources s)])
     @ concat (map (relocation_stores l s) [0..<length (relocations s)])"

definition validate_submit :: "Submit \<Rightarrow> (Error, u32 option) outcome" where
  "validate_submit s =
     and_then (for_each (\<lambda>r _. validate_resource r) (resources s) ()) (\<lambda>_.
     for_each (\<lambda>rel previous_end.
         and_then (validate_relocation rel previous_end (commands s) (resources s)) (\<lambda>_.
         Ok (checked_add (commands_word_offset rel) (word_count (encoding rel)))))
       (relocations s) None)"

definition encode :: "Submit \<Rightarrow> bytes \<Rightarrow> bytes \<times> (Error, unit) outcome" where
  "encode s b =
     (case layout (length (commands s)) (length (resources s)) (length (relocations s)) of
        Err e \<Rightarrow> (b, Err e)
      | Panic \<Rightarrow> (b, Panic)
      | Ok l \<Rightarrow>
          if length b \<noteq> total l then (b, Err InvalidSize) else
          case validate_submit s of
            Err e \<Rightarrow> (b, Err e)
          | Panic \<Rightarrow> (b, Panic)
          | Ok _ \<Rightarrow>
              (case fill_and_write (submit_stores l s) b of
                 Some b' \<Rightarrow> (b', Ok ())
               | None \<Rightarrow> (b, Panic)))"

section \<open>Decoding\<close>

record DecodedSubmit =
  payload :: bytes
  d_layout :: Layout
  commands_count :: nat
  resource_count :: nat
  relocation_count :: nat

text \<open>\<open>DecodedSubmit::commands_word\<close>, \<open>resource\<close> and \<open>relocation\<close>\<close>

definition commands_word :: "DecodedSubmit \<Rightarrow> nat \<Rightarrow> (Error, u32 option) outcome" where
  "commands_word d index =
     (if index < commands_count d
      then and_then (read_le 4 (payload d) (commands_offset (d_layout d) + index * 4))
             (\<lambda>w. Ok (Some w))
      else Ok None)"

definition resource :: "DecodedSubmit \<Rightarrow> nat \<Rightarrow> (Error, Resource option) outcome" where
  "resource d index =
     (if resource_count d \<le> index then Ok None else
      (let offset = resources_offset (d_layout d) + index * RESOURCE_SIZE; b = payload d in
       and_then (read_le 8 b offset) (\<lambda>token.
       and_then (read_le 8 b (offset + 8)) (\<lambda>start.
       and_then (read_le 8 b (offset + 16)) (\<lambda>size.
       and_then (read_le 4 b (offset + 24)) (\<lambda>acc.
       Ok (Some \<lparr>attachment_token = token, range_offset = start, range_size = size,
             r_access = acc\<rparr>)))))))"

text \<open>The \<open>match\<close> on the source kind; \<open>None\<close> is the \<open>return None\<close> of the accessor.\<close>

definition decode_source :: "u16 \<Rightarrow> u16 \<Rightarrow> u32 \<Rightarrow> RelocationSource option" where
  "decode_source minor source_kind index =
     (if source_kind = 0 then Some (Attachment index)
      else if source_kind = 1 \<and> 1 \<le> minor
      then if unat index < 2 ^ 16 then map_option CanonicalShader (shader_from_raw (ucast index))
           else None
      else None)"

definition relocation :: "DecodedSubmit \<Rightarrow> nat \<Rightarrow> (Error, Relocation option) outcome" where
  "relocation d index =
     (if relocation_count d \<le> index then Ok None else
      (let offset = relocations_offset (d_layout d) + index * RELOCATION_SIZE; b = payload d in
       and_then (read_le 2 b (offset + 30)) (\<lambda>source_kind.
       and_then (read_le 2 b 6) (\<lambda>minor.
       and_then (read_le 4 b (offset + 4)) (\<lambda>source_index.
       case decode_source minor source_kind source_index of
         None \<Rightarrow> Ok None
       | Some src \<Rightarrow>
           and_then (read_le 4 b offset) (\<lambda>word_offset.
           and_then (read_le 8 b (offset + 8)) (\<lambda>res_offset.
           and_then (read_le 8 b (offset + 16)) (\<lambda>req.
           and_then (read_le 4 b (offset + 24)) (\<lambda>acc.
           and_then (read_le 2 b (offset + 28)) (\<lambda>enc.
           case encoding_from_raw enc of
             Ok e \<Rightarrow> Ok (Some \<lparr>commands_word_offset = word_offset, reloc_source = src,
                 resource_offset = res_offset, required_size = req, access = acc, encoding = e\<rparr>)
           | Err _ \<Rightarrow> Ok None
           | Panic \<Rightarrow> Panic))))))))))"

text \<open>One turn of the resource loop and of the relocation loop of \<open>decode\<close>.\<close>

definition decode_resource :: "DecodedSubmit \<Rightarrow> nat \<Rightarrow> unit \<Rightarrow> (Error, unit) outcome" where
  "decode_resource d index _ =
     and_then (read_le 4 (payload d) (resources_offset (d_layout d) + index * RESOURCE_SIZE + 28))
       (\<lambda>reserved :: u32.
     if reserved \<noteq> 0 then Err ReservedNotZero else
     and_then (resource d index) (\<lambda>r.
     and_then (ok_or r InvalidTable) validate_resource))"

definition decode_relocation ::
    "DecodedSubmit \<Rightarrow> nat \<Rightarrow> u32 option \<Rightarrow> (Error, u32 option) outcome" where
  "decode_relocation d index previous_end =
     and_then (relocation d index) (\<lambda>found.
     and_then (ok_or found InvalidField) (\<lambda>rel.
     and_then (validate_access (access rel)) (\<lambda>_.
     if (case previous_end of None \<Rightarrow> False | Some p \<Rightarrow> commands_word_offset rel < p)
     then Err RelocationsNotSorted else
     and_then (case reloc_source rel of
          Attachment index \<Rightarrow> resource d (unat index)
        | CanonicalShader _ \<Rightarrow> Ok None) (\<lambda>res.
     and_then (validate_source rel res) (\<lambda>_.
     and_then (ok_or (checked_add (commands_word_offset rel) (word_count (encoding rel))) Overflow)
       (\<lambda>word_end.
     if commands_count d < unat word_end then Err RelocationOutOfBounds else
     and_then (collect (\<lambda>word. and_then (commands_word d word) (\<lambda>w. ok_or w RelocationOutOfBounds))
         (take 2 [unat (commands_word_offset rel)..<unat word_end])) (\<lambda>words.
     if \<not> placeholder_is_valid (encoding rel)
          (take (unat (word_count (encoding rel)))
            (words @ drop (length words) [0, 0]))
     then Err NonZeroPlaceholder else Ok (Some word_end))))))))"

definition decode :: "bytes \<Rightarrow> (Error, DecodedSubmit) outcome" where
  "decode b =
     (if length b < HEADER_SIZE \<or> MAX_SUBMIT_SIZE < length b then Err InvalidSize else
      and_then (read_le 4 b 0) (\<lambda>magic. and_then (read_le 2 b 4) (\<lambda>major.
      if magic \<noteq> MAGIC \<or> major \<noteq> VERSION_MAJOR then Err UnsupportedVersion else
      and_then (read_le 2 b 6) (\<lambda>minor. and_then (read_le 2 b 8) (\<lambda>header_size :: u16.
      if VERSION_MINOR < minor \<or> unat header_size \<noteq> HEADER_SIZE then Err UnsupportedVersion else
      and_then (read_le 2 b 10) (\<lambda>flags :: u16. and_then (subslice b 40 (HEADER_SIZE - 40)) (\<lambda>rest.
      if flags \<noteq> 0 \<or> any_nonzero rest then Err ReservedNotZero else
      and_then (read_le 4 b 12) (\<lambda>size :: u32.
      if unat size \<noteq> length b then Err InvalidSize else
      and_then (read_le 4 b 16) (\<lambda>com_off :: u32. and_then (read_le 4 b 20) (\<lambda>com_count :: u32.
      and_then (read_le 4 b 24) (\<lambda>res_off :: u32. and_then (read_le 4 b 28) (\<lambda>res_count :: u32.
      and_then (read_le 4 b 32) (\<lambda>rel_off :: u32. and_then (read_le 4 b 36) (\<lambda>rel_count :: u32.
      and_then (layout (unat com_count) (unat res_count) (unat rel_count)) (\<lambda>expected.
      if unat com_off \<noteq> commands_offset expected \<or> unat res_off \<noteq> resources_offset expected
         \<or> unat rel_off \<noteq> relocations_offset expected \<or> total expected \<noteq> length b
      then Err InvalidTable else
      and_then (ok_or (usize_mul (unat com_count) 4) Overflow) (\<lambda>commands_size.
      and_then (ok_or (usize_add (commands_offset expected) commands_size) Overflow) (\<lambda>padding_start.
      and_then (if padding_start \<le> resources_offset expected
          then subslice b padding_start (resources_offset expected - padding_start) else Panic) (\<lambda>pad.
      if any_nonzero pad then Err ReservedNotZero else
      (let d = \<lparr>payload = b, d_layout = expected, commands_count = unat com_count,
          resource_count = unat res_count, relocation_count = unat rel_count\<rparr> in
       and_then (for_each (decode_resource d) [0..<unat res_count] ()) (\<lambda>_.
       and_then (for_each (decode_relocation d) [0..<unat rel_count] None) (\<lambda>_.
       Ok d)))))))))))))))))))))"

text \<open>What the accessors of a decoded submission return for all their indices.\<close>

definition decoded_submit :: "DecodedSubmit \<Rightarrow> (Error, Submit) outcome" where
  "decoded_submit d =
     and_then (collect (\<lambda>i. and_then (commands_word d i) unwrap) [0..<commands_count d]) (\<lambda>cs.
     and_then (collect (\<lambda>i. and_then (resource d i) unwrap) [0..<resource_count d]) (\<lambda>rs.
     and_then (collect (\<lambda>i. and_then (relocation d i) unwrap) [0..<relocation_count d]) (\<lambda>ls.
     Ok \<lparr>commands = cs, resources = rs, relocations = ls\<rparr>)))"

end
