(* ===== verification/Submit_Props.thy ===== *)
theory Submit_Props
  imports Submit_Wire
begin

text \<open>
  What a valid submission is (\<open>valid_submit\<close>, on numbers), that the checks of the encoder and of the
  decoder are this specification, and that the decoder inverts the encoder. \<open>represents\<close> relates the
  bytes a decoded submission borrows with the tables they stand for.
\<close>

section \<open>The layout of a payload\<close>

lemma layout_eq_Ok:
  "layout c r n = Ok l \<longleftrightarrow>
    0 < c \<and> 64 dvd c \<and> c \<le> 65536 \<and> r \<le> 1024 \<and> n \<le> 8192
    \<and> 64 + 4 * c + 32 * r + 32 * n \<le> 2097152
    \<and> l = \<lparr>total = 64 + 4 * c + 32 * r + 32 * n, commands_offset = 64,
         resources_offset = 64 + 4 * c, relocations_offset = 64 + 4 * c + 32 * r\<rparr>"
proof (cases "0 < c \<and> 64 dvd c \<and> c \<le> 65536 \<and> r \<le> 1024 \<and> n \<le> 8192")
  case True
  then obtain k where k: "c = 64 * k" by (auto simp: dvd_def)
  have "(64 + 4 * c + 7) mod 8 = 7" by (simp add: k) presburger
  then have "64 + 4 * c + 7 - (64 + 4 * c + 7) mod 8 = 64 + 4 * c" by simp
  with True show ?thesis
    by (auto simp: layout_def align_up_def usize_add_def usize_mul_def HEADER_SIZE_def RESOURCE_SIZE_def
        RELOCATION_SIZE_def MAX_SUBMIT_SIZE_def OPERATION_WORDS_def MAX_COMMAND_WORDS_def
        MAX_OPERATIONS_def MAX_RESOURCES_def MAX_RELOCATIONS_def mult.commute dvd_eq_mod_eq_0)
next
  case False
  then show ?thesis
    by (auto simp: layout_def OPERATION_WORDS_def MAX_COMMAND_WORDS_def MAX_OPERATIONS_def
        MAX_RESOURCES_def MAX_RELOCATIONS_def dvd_eq_mod_eq_0)
qed

lemma layout_not_Panic: "layout c r n \<noteq> Panic"
  by (auto simp: layout_def align_up_def outcome_simps split: option.splits)

section \<open>Valid submissions\<close>

definition valid_access :: "u32 \<Rightarrow> bool" where
  "valid_access a \<longleftrightarrow> a \<in> {ACCESS_READ, ACCESS_WRITE, ACCESS_READ OR ACCESS_WRITE}"

definition valid_resource :: "Resource \<Rightarrow> bool" where
  "valid_resource r \<longleftrightarrow> valid_access (r_access r) \<and> attachment_token r \<noteq> 0 \<and> range_size r \<noteq> 0
     \<and> unat (range_offset r) + unat (range_size r) < 2 ^ 64"

text \<open>The source of a relocation is authorised: inside the visible range of a listed resource and
  with no access the resource does not grant, or one whole canonical shader page for reading.\<close>

definition valid_source :: "Relocation \<Rightarrow> Resource list \<Rightarrow> bool" where
  "valid_source rel res \<longleftrightarrow>
     (case reloc_source rel of
        Attachment i \<Rightarrow> unat i < length res \<and> access rel AND NOT (r_access (res ! unat i)) = 0
          \<and> required_size rel \<noteq> 0
          \<and> unat (resource_offset rel) + unat (required_size rel) \<le> unat (range_size (res ! unat i))
      | CanonicalShader _ \<Rightarrow> resource_offset rel = 0 \<and> required_size rel = 4096
          \<and> access rel = ACCESS_READ)"

definition valid_relocation :: "Relocation \<Rightarrow> u32 list \<Rightarrow> Resource list \<Rightarrow> bool" where
  "valid_relocation rel cmds res \<longleftrightarrow>
     valid_access (access rel) \<and> valid_source rel res
     \<and> unat (commands_word_offset rel) + 2 \<le> length cmds \<and> unat (commands_word_offset rel) + 2 < 2 ^ 32
     \<and> cmds ! unat (commands_word_offset rel) = 0 \<and> cmds ! (unat (commands_word_offset rel) + 1) = 0"

text \<open>Relocated words come in order and never overlap.\<close>

definition before :: "Relocation \<Rightarrow> Relocation \<Rightarrow> bool" where
  "before r r' \<longleftrightarrow> unat (commands_word_offset r) + 2 \<le> unat (commands_word_offset r')"

definition valid_submit :: "Submit \<Rightarrow> bool" where
  "valid_submit s \<longleftrightarrow> list_all valid_resource (resources s)
     \<and> list_all (\<lambda>rel. valid_relocation rel (commands s) (resources s)) (relocations s)
     \<and> sorted_wrt before (relocations s)"

lemma validate_access_Ok: "validate_access a = Ok x \<longleftrightarrow> valid_access a"
proof -
  have "a AND NOT ACCESS_MASK = 0 \<longleftrightarrow> unat a < 4"
  proof -
    have m: "ACCESS_MASK = mask 2" by (simp add: ACCESS_MASK_def ACCESS_READ_def ACCESS_WRITE_def mask_eq_exp_minus_1)
    have "a AND NOT ACCESS_MASK = 0 \<longleftrightarrow> unat (a AND NOT (mask 2)) = 0"
      unfolding m by (simp only: unsigned_eq_0_iff)
    then show ?thesis unfolding unat_and_not_mask by (simp add: div_eq_0_iff)
  qed
  moreover have "unat a < 4 \<longleftrightarrow> a = 0 \<or> a = 1 \<or> a = 2 \<or> a = 3"
  proof -
    have "unat a < 4 \<longleftrightarrow> unat a = 0 \<or> unat a = 1 \<or> unat a = 2 \<or> unat a = 3" by linarith
    then show ?thesis by (simp add: word_unat_eq_iff)
  qed
  ultimately show ?thesis
    by (auto simp: validate_access_def valid_access_def ACCESS_READ_def ACCESS_WRITE_def)
qed

lemma validate_resource_Ok: "validate_resource r = Ok x \<longleftrightarrow> valid_resource r"
  by (auto simp: validate_resource_def valid_resource_def outcome_simps validate_access_Ok checked_add_def)

definition lookup_source :: "Relocation \<Rightarrow> Resource list \<Rightarrow> Resource option" where
  "lookup_source rel res =
     (case reloc_source rel of
        Attachment i \<Rightarrow> if unat i < length res then Some (res ! unat i) else None
      | CanonicalShader _ \<Rightarrow> None)"

lemma validate_source_Ok: "validate_source rel (lookup_source rel res) = Ok x \<longleftrightarrow> valid_source rel res"
proof (cases "reloc_source rel")
  case (Attachment i)
  show ?thesis
  proof (cases "unat i < length res")
    case True
    let ?r = "res ! unat i"
    have "\<not> range_size ?r < resource_offset rel + required_size rel
        \<longleftrightarrow> unat (resource_offset rel) + unat (required_size rel) \<le> unat (range_size ?r)"
      if "unat (resource_offset rel) + unat (required_size rel) < 2 ^ LENGTH(64)"
      using that by (simp add: word_less_nat_alt unat_add_lt not_less)
    moreover have "unat (range_size ?r) < 2 ^ LENGTH(64)" by (rule unat_less_2p)
    ultimately show ?thesis
      using True Attachment
      by (auto simp: validate_source_def valid_source_def lookup_source_def outcome_simps checked_add_def)
  next
    case False
    then show ?thesis using Attachment
      by (simp add: validate_source_def valid_source_def lookup_source_def)
  qed
next
  case (CanonicalShader v)
  have "encoding rel = GpuVa64" by (cases "encoding rel")
  then show ?thesis using CanonicalShader
    by (auto simp: validate_source_def valid_source_def lookup_source_def SHADER_SIZE_def)
qed

lemma validate_source_not_Panic: "validate_source rel res \<noteq> Panic"
  by (auto simp: validate_source_def outcome_simps split: RelocationSource.splits)

lemma word_end_Ok:
  "checked_add woff (word_count e) = Some we \<longleftrightarrow> unat woff + 2 < 2 ^ 32 \<and> we = woff + 2"
  by (auto simp: checked_add_def word_count_def)

definition after_previous :: "u32 option \<Rightarrow> Relocation \<Rightarrow> bool" where
  "after_previous prev rel \<longleftrightarrow>
     (case prev of None \<Rightarrow> True | Some p \<Rightarrow> unat p \<le> unat (commands_word_offset rel))"

lemma slice_two: "i + 2 \<le> length xs \<Longrightarrow> slice xs i 2 = [xs ! i, xs ! (i + 1)]"
  by (intro nth_equalityI) (auto simp: less_2_cases_iff)

lemma validate_relocation_Ok:
  "validate_relocation rel prev cmds res = Ok x \<longleftrightarrow>
    valid_relocation rel cmds res \<and> after_previous prev rel"
proof (cases "unat (commands_word_offset rel) + 2 < 2 ^ LENGTH(32)")
  case True
  let ?w = "commands_word_offset rel"
  have we: "unat (?w + 2) = unat ?w + 2" using True by (simp add: unat_add_lt)
  have sub: "subslice cmds (unat ?w) 2
      = (Ok [cmds ! unat ?w, cmds ! Suc (unat ?w)] :: (Error, u32 list) outcome)"
    if "unat ?w + 2 \<le> length cmds" using that by (simp add: subslice_Ok slice_two)
  have prev: "(case prev of None \<Rightarrow> False | Some p \<Rightarrow> ?w < p) \<longleftrightarrow> \<not> after_previous prev rel"
    by (simp add: after_previous_def word_less_nat_alt not_le split: option.split)
  have add: "checked_add ?w (word_count (encoding rel)) = Some (?w + 2)"
    using True by (simp add: word_end_Ok)
  show ?thesis
  proof (cases "unat ?w + 2 \<le> length cmds")
    case le: True
    then show ?thesis using True
      unfolding validate_relocation_def lookup_source_def[symmetric] prev add
      by (auto simp: outcome_simps validate_access_Ok validate_source_Ok sub[OF le] we
          valid_relocation_def placeholder_is_valid_def)
  next
    case False
    then show ?thesis
      unfolding validate_relocation_def prev add
      by (auto simp: outcome_simps we valid_relocation_def)
  qed
next
  case False
  then have "checked_add (commands_word_offset rel) (word_count (encoding rel)) = None"
    by (auto simp: checked_add_def word_count_def)
  then show ?thesis using False
    by (auto simp: validate_relocation_def outcome_simps valid_relocation_def)
qed

lemma validate_relocation_not_Panic: "validate_relocation rel prev cmds res \<noteq> Panic"
proof
  assume "validate_relocation rel prev cmds res = Panic"
  then obtain we where "checked_add (commands_word_offset rel) (word_count (encoding rel)) = Some we"
    "\<not> length cmds < unat we" and pan: "subslice cmds (unat (commands_word_offset rel))
      (unat we - unat (commands_word_offset rel)) = (Panic :: (Error, u32 list) outcome)"
    by (auto simp: validate_relocation_def outcome_simps validate_access_def validate_source_not_Panic
        split: if_splits)
  then have "unat we = unat (commands_word_offset rel) + 2" "unat we \<le> length cmds"
    by (auto simp: word_end_Ok unat_add_lt)
  with pan show False by (simp add: subslice_def)
qed

definition relocation_step ::
    "u32 list \<Rightarrow> Resource list \<Rightarrow> Relocation \<Rightarrow> u32 option \<Rightarrow> (Error, u32 option) outcome" where
  "relocation_step cmds res rel prev =
     and_then (validate_relocation rel prev cmds res)
       (\<lambda>_. Ok (checked_add (commands_word_offset rel) (word_count (encoding rel))))"

lemma relocation_step_Ok:
  "relocation_step cmds res rel prev = Ok next \<longleftrightarrow>
    valid_relocation rel cmds res \<and> after_previous prev rel \<and> next = Some (commands_word_offset rel + 2)"
  by (auto simp: relocation_step_def outcome_simps validate_relocation_Ok valid_relocation_def
      checked_add_def word_count_def)

lemma relocation_loop_Ok:
  "(\<exists>x. for_each (relocation_step cmds res) rels prev = Ok x) \<longleftrightarrow>
    list_all (\<lambda>rel. valid_relocation rel cmds res) rels \<and> sorted_wrt before rels
    \<and> list_all (after_previous prev) rels"
proof (induction rels arbitrary: prev)
  case Nil
  show ?case by simp
next
  case (Cons rel rels)
  have we: "list_all (after_previous (Some (commands_word_offset rel + 2))) rels
      \<longleftrightarrow> list_all (before rel) rels" if "valid_relocation rel cmds res"
    using that by (simp add: after_previous_def before_def valid_relocation_def unat_add_lt list_all_iff)
  have trans: "after_previous prev r" if "after_previous prev rel" "before rel r" for r
    using that by (auto simp: after_previous_def before_def split: option.splits)
  show ?case
    using we trans
    by (auto simp: outcome_simps relocation_step_Ok Cons.IH list_all_iff)
qed

lemma validate_submit_Ok: "(\<exists>x. validate_submit s = Ok x) \<longleftrightarrow> valid_submit s"
proof -
  have res: "(\<exists>x. for_each (\<lambda>r _. validate_resource r) rs u = Ok x) \<longleftrightarrow> list_all valid_resource rs"
    for rs u
    by (induction rs arbitrary: u) (auto simp: outcome_simps validate_resource_Ok)
  have "list_all (after_previous None) rels" for rels by (simp add: after_previous_def list_all_iff)
  then show ?thesis
    using res[of "resources s" "()"] relocation_loop_Ok[of "commands s" "resources s" "relocations s" None]
    by (auto simp: validate_submit_def relocation_step_def[symmetric, abs_def] outcome_simps valid_submit_def)
qed

end
