(* ===== verification/Submit_Roundtrip.thy ===== *)
theory Submit_Roundtrip
  imports Submit_Props
begin

text \<open>
  The encoder and the decoder of submissions against each other: what is encoded is decoded to the
  same tables, what is decoded is a valid submission, and a payload of the current minor version is
  the only encoding of its tables.
\<close>

section \<open>The tables a payload stands for\<close>

definition represents :: "DecodedSubmit \<Rightarrow> Submit \<Rightarrow> bool" where
  "represents d s \<longleftrightarrow>
     commands_count d = length (commands s) \<and> resource_count d = length (resources s)
     \<and> relocation_count d = length (relocations s)
     \<and> (\<forall>i < length (commands s). commands_word d i = Ok (Some (commands s ! i)))
     \<and> (\<forall>i < length (resources s). resource d i = Ok (Some (resources s ! i)))
     \<and> (\<forall>i < length (relocations s). relocation d i = Ok (Some (relocations s ! i)))"

lemma decoded_submit_eq_Ok: "decoded_submit d = Ok s \<longleftrightarrow> represents d s"
proof -
  have "decoded_submit d = Ok s \<longleftrightarrow>
      collect (\<lambda>i. and_then (commands_word d i) unwrap) [0..<commands_count d] = Ok (commands s)
      \<and> collect (\<lambda>i. and_then (resource d i) unwrap) [0..<resource_count d] = Ok (resources s)
      \<and> collect (\<lambda>i. and_then (relocation d i) unwrap) [0..<relocation_count d] = Ok (relocations s)"
    unfolding decoded_submit_def by (auto simp: outcome_simps)
  then show ?thesis
    by (auto simp: represents_def collect_upt_eq_Ok outcome_simps)
qed

lemma represents_resource:
  "represents d s \<Longrightarrow>
    resource d i = Ok (if i < length (resources s) then Some (resources s ! i) else None)"
  by (auto simp: represents_def resource_def)

lemma two_words:
  assumes "represents d s" "i + 2 \<le> length (commands s)"
  shows "collect (\<lambda>w. and_then (commands_word d w) (\<lambda>w. ok_or w RelocationOutOfBounds)) [i..<i + 2]
    = Ok [commands s ! i, commands s ! (i + 1)]"
proof -
  have "[i..<i + 2] = [i, i + 1]" by (simp add: upt_conv_Cons)
  moreover have "commands_word d i = Ok (Some (commands s ! i))"
    "commands_word d (i + 1) = Ok (Some (commands s ! (i + 1)))"
    using assms by (auto simp: represents_def)
  ultimately show ?thesis by simp
qed

lemma take_word_count: "take (unat (word_count e)) [x, y] = [x, y]"
  by (simp add: word_count_def)

text \<open>On the bytes of a submission, the decoder's relocation check is the encoder's.\<close>

lemma decode_relocation_represents:
  assumes r: "represents d s" and i: "i < length (relocations s)"
  shows "decode_relocation d i prev = relocation_step (commands s) (resources s) (relocations s ! i) prev"
proof -
  let ?rel = "relocations s ! i" and ?w = "commands_word_offset (relocations s ! i)"
  have rel: "relocation d i = Ok (Some ?rel)" and n: "commands_count d = length (commands s)"
    using assms by (auto simp: represents_def)
  have src: "(case reloc_source ?rel of Attachment index \<Rightarrow> resource d (unat index) | CanonicalShader _ \<Rightarrow> Ok None)
      = Ok (lookup_source ?rel (resources s))"
    by (simp add: lookup_source_def represents_resource[OF r] split: RelocationSource.split)
  show ?thesis
  proof (cases "unat ?w + 2 < 2 ^ LENGTH(32)")
    case True
    have we: "unat (?w + 2) = unat ?w + 2" using True by (simp add: unat_add_lt)
    have add: "checked_add ?w (word_count (encoding ?rel)) = Some (?w + 2)"
      using True by (simp add: word_end_Ok)
    show ?thesis
    proof (cases "length (commands s) < unat (?w + 2)")
      case True
      then show ?thesis
        by (simp add: decode_relocation_def relocation_step_def validate_relocation_def rel src n add
            lookup_source_def[symmetric] and_then_assoc if_distrib[of "\<lambda>r. and_then r _"])
    next
      case False
      then have le: "unat ?w + 2 \<le> length (commands s)" using we by simp
      have sub: "subslice (commands s) (unat ?w) (unat (?w + 2) - unat ?w)
          = (Ok [commands s ! unat ?w, commands s ! (unat ?w + 1)] :: (Error, u32 list) outcome)"
        using le by (simp add: we subslice_Ok slice_two)
      have col: "collect (\<lambda>w. and_then (commands_word d w) (\<lambda>w. ok_or w RelocationOutOfBounds))
          (take 2 [unat ?w..<unat (?w + 2)]) = Ok [commands s ! unat ?w, commands s ! (unat ?w + 1)]"
        using two_words[OF r le] by (simp only: we take_all_iff length_upt diff_add_inverse order_refl take_all)
      show ?thesis using False
        by (simp add: decode_relocation_def relocation_step_def validate_relocation_def rel src n add
            lookup_source_def[symmetric] and_then_assoc sub col take_word_count
            if_distrib[of "\<lambda>r. and_then r _"] del: upt_Suc take_upt)
    qed
  next
    case False
    then have "checked_add ?w (word_count (encoding ?rel)) = None"
      by (auto simp: checked_add_def word_count_def)
    then show ?thesis
      by (simp add: decode_relocation_def relocation_step_def validate_relocation_def rel src
          lookup_source_def[symmetric] and_then_assoc if_distrib[of "\<lambda>r. and_then r _"])
  qed
qed

section \<open>The stores of the encoder\<close>

lemma submit_regions:
  assumes "layout (length (commands s)) (length (resources s)) (length (relocations s)) = Ok l"
  shows "stores_in 0 40 (header_stores l s) \<and> stores_disjoint (header_stores l s)"
    and "stores_in (commands_offset l) (resources_offset l)
        (concat (map (command_store l s) [0..<length (commands s)]))
      \<and> stores_disjoint (concat (map (command_store l s) [0..<length (commands s)]))"
    and "stores_in (resources_offset l) (relocations_offset l)
        (concat (map (resource_stores l s) [0..<length (resources s)]))
      \<and> stores_disjoint (concat (map (resource_stores l s) [0..<length (resources s)]))"
    and "stores_in (relocations_offset l) (total l)
        (concat (map (relocation_stores l s) [0..<length (relocations s)]))
      \<and> stores_disjoint (concat (map (relocation_stores l s) [0..<length (relocations s)]))"
proof -
  note l = assms[unfolded layout_eq_Ok]
  have off: "resources_offset l = commands_offset l + length (commands s) * 4"
    "relocations_offset l = resources_offset l + length (resources s) * 32"
    "total l = relocations_offset l + length (relocations s) * 32"
    using l by auto
  show "stores_in 0 40 (header_stores l s) \<and> stores_disjoint (header_stores l s)"
    by (simp add: header_stores_def store_disjoint_def)
  show "stores_in (commands_offset l) (resources_offset l)
        (concat (map (command_store l s) [0..<length (commands s)]))
      \<and> stores_disjoint (concat (map (command_store l s) [0..<length (commands s)]))"
    unfolding off(1) by (intro table_stores) (simp_all add: command_store_def)
  show "stores_in (resources_offset l) (relocations_offset l)
        (concat (map (resource_stores l s) [0..<length (resources s)]))
      \<and> stores_disjoint (concat (map (resource_stores l s) [0..<length (resources s)]))"
    unfolding off(2) by (intro table_stores)
      (simp_all add: resource_stores_def Let_def RESOURCE_SIZE_def store_disjoint_def)
  show "stores_in (relocations_offset l) (total l)
        (concat (map (relocation_stores l s) [0..<length (relocations s)]))
      \<and> stores_disjoint (concat (map (relocation_stores l s) [0..<length (relocations s)]))"
    unfolding off(3) by (intro table_stores)
      (simp_all add: relocation_stores_def Let_def RELOCATION_SIZE_def store_disjoint_def)
qed

lemma submit_stores_regions:
  assumes "layout (length (commands s)) (length (resources s)) (length (relocations s)) = Ok l"
  shows "stores_disjoint (submit_stores l s)" "stores_within (submit_stores l s) (total l)"
    and "j + n \<le> 64 \<Longrightarrow> 40 \<le> j \<Longrightarrow> list_all (\<lambda>w. store_disjoint w j n) (submit_stores l s)"
proof -
  note r = submit_regions[OF assms]
  have off: "commands_offset l = 64" "64 \<le> resources_offset l" "resources_offset l \<le> relocations_offset l"
    "relocations_offset l \<le> total l" using assms by (auto simp: layout_eq_Ok)
  let ?c = "concat (map (command_store l s) [0..<length (commands s)])"
  let ?r = "concat (map (resource_stores l s) [0..<length (resources s)])"
  let ?l = "concat (map (relocation_stores l s) [0..<length (relocations s)])"
  have rl: "stores_disjoint (?r @ ?l)" "stores_in (resources_offset l) (total l) (?r @ ?l)"
    using r off by (auto intro: stores_disjoint_append stores_in_mono)
  have crl: "stores_disjoint (?c @ ?r @ ?l)" "stores_in 64 (total l) (?c @ ?r @ ?l)"
    using stores_disjoint_append[of ?c "?r @ ?l" "commands_offset l" "resources_offset l"] r rl off
    by (auto intro: stores_in_mono)
  show "stores_disjoint (submit_stores l s)"
    unfolding submit_stores_def
    by (rule stores_disjoint_append[OF conjunct2[OF r(1)] crl(1) conjunct1[OF r(1)] crl(2)]) simp
  have "stores_in 0 (total l) (submit_stores l s)"
    unfolding submit_stores_def stores_in_simps(3)[of _ _ "header_stores l s"]
    using r(1) crl(2) off by (auto intro: stores_in_mono)
  then show "stores_within (submit_stores l s) (total l)" by (rule stores_in_within) simp
  assume "j + n \<le> 64" "40 \<le> j"
  then show "list_all (\<lambda>w. store_disjoint w j n) (submit_stores l s)"
    unfolding submit_stores_def list_all_append[of _ "header_stores l s"]
    using stores_in_other[OF conjunct1[OF r(1)], of j n] stores_in_other[OF crl(2), of j n] by simp
qed

lemma member_stores:
  "i < length (commands s) \<Longrightarrow> set (command_store l s i) \<subseteq> set (submit_stores l s)"
  "i < length (resources s) \<Longrightarrow> set (resource_stores l s i) \<subseteq> set (submit_stores l s)"
  "i < length (relocations s) \<Longrightarrow> set (relocation_stores l s i) \<subseteq> set (submit_stores l s)"
  "set (header_stores l s) \<subseteq> set (submit_stores l s)"
  by (auto simp: submit_stores_def)

lemma reserved_untouched:
  assumes l: "layout (length (commands s)) (length (resources s)) (length (relocations s)) = Ok l"
    and i: "i < length (resources s)"
  shows "list_all (\<lambda>w. store_disjoint w (resources_offset l + i * 32 + 28) 4) (submit_stores l s)"
proof -
  let ?j = "resources_offset l + i * 32 + 28"
  note r = submit_regions[OF l] and off = l[unfolded layout_eq_Ok]
  have upper: "?j + 4 \<le> relocations_offset l" using i off by auto
  have lower: "64 \<le> resources_offset l" using off by auto
  have "list_all (\<lambda>w. store_disjoint w ?j 4) (resource_stores l s k)" for k
  proof -
    have k: "stores_in (resources_offset l + k * 32) (resources_offset l + k * 32 + 28) (resource_stores l s k)"
      by (simp add: resource_stores_def Let_def RESOURCE_SIZE_def)
    have "k * 32 + 28 \<le> i * 32 + 28 \<or> i * 32 + 32 \<le> k * 32" by (cases "k \<le> i") auto
    then show ?thesis by (intro stores_in_other[OF k]) auto
  qed
  then show ?thesis
    unfolding submit_stores_def list_all_append
    using stores_in_other[OF conjunct1[OF r(1)], of ?j 4] stores_in_other[OF conjunct1[OF r(2)], of ?j 4]
      stores_in_other[OF conjunct1[OF r(4)], of ?j 4] upper lower
    by (auto simp: list_all_iff)
qed

lemma encode_eq_Ok:
  "encode s b = (b', Ok ()) \<longleftrightarrow>
    (\<exists>l. layout (length (commands s)) (length (resources s)) (length (relocations s)) = Ok l
      \<and> length b = total l \<and> valid_submit s \<and> fill_and_write (submit_stores l s) b = Some b')"
  using validate_submit_Ok[of s]
  by (auto simp: encode_def split: outcome.splits option.splits)

lemma decode_source_raw:
  "source_raw src = (k, i) \<Longrightarrow> decode_source VERSION_MINOR k i = Some src"
proof (cases src)
  case (CanonicalShader v)
  assume "source_raw src = (k, i)"
  then have k: "k = 1" and i: "i = ucast (shader_raw v)" using CanonicalShader by auto
  have "unat (ucast (shader_raw v) :: u32) = unat (shader_raw v)"
    using ALL_shaders_raw(1)[of v] by (simp add: unsigned_ucast_eq take_bit_nat_eq_self)
  then have "unat i < 2 ^ 16" "(ucast i :: u16) = shader_raw v"
    using ALL_shaders_raw(1)[of v] i by (simp_all add: word_unat_eq_iff unsigned_ucast_eq take_bit_nat_eq_self)
  then show ?thesis using k CanonicalShader by (simp add: decode_source_def VERSION_MINOR_def)
qed (auto simp: decode_source_def)

text \<open>The tables found in an encoded payload.\<close>

lemma encoded_represents:
  assumes l: "layout (length (commands s)) (length (resources s)) (length (relocations s)) = Ok l"
    and b: "length b = total l" and w: "fill_and_write (submit_stores l s) b = Some b'"
  shows "represents \<lparr>payload = b', d_layout = l, commands_count = length (commands s),
      resource_count = length (resources s), relocation_count = length (relocations s)\<rparr> s"
proof -
  have len: "length b' = total l" using fill_and_write_length[OF w] b by simp
  note f = fill_and_write_field[OF w submit_stores_regions(1)[OF l]]
  note off = l[unfolded layout_eq_Ok]
  let ?d = "\<lparr>payload = b', d_layout = l, commands_count = length (commands s),
      resource_count = length (resources s), relocation_count = length (relocations s)\<rparr>"
  have cmd: "commands_word ?d i = Ok (Some (commands s ! i))" if i: "i < length (commands s)" for i
  proof -
    have "from_le_bytes (slice b' (commands_offset l + i * 4) 4) = commands s ! i"
      using member_stores(1)[OF i, of l] by (intro f) (auto simp: command_store_def)
    moreover have "commands_offset l + i * 4 + 4 \<le> length b'" using i off len by auto
    ultimately show ?thesis using i by (simp add: commands_word_def read_le_Ok)
  qed
  have res: "resource ?d i = Ok (Some (resources s ! i))" if i: "i < length (resources s)" for i
  proof -
    let ?o = "resources_offset l + i * RESOURCE_SIZE" and ?r = "resources s ! i"
    have mem: "(?o, to_le_bytes (attachment_token ?r)) \<in> set (submit_stores l s)"
      "(?o + 8, to_le_bytes (range_offset ?r)) \<in> set (submit_stores l s)"
      "(?o + 16, to_le_bytes (range_size ?r)) \<in> set (submit_stores l s)"
      "(?o + 24, to_le_bytes (r_access ?r)) \<in> set (submit_stores l s)"
      using member_stores(2)[OF i, of l] by (auto simp: resource_stores_def Let_def)
    have "from_le_bytes (slice b' ?o 8) = attachment_token ?r"
      "from_le_bytes (slice b' (?o + 8) 8) = range_offset ?r"
      "from_le_bytes (slice b' (?o + 16) 8) = range_size ?r"
      "from_le_bytes (slice b' (?o + 24) 4) = r_access ?r"
      by (rule f, rule mem, simp)+
    moreover have "?o + 32 \<le> length b'" using i off len by (auto simp: RESOURCE_SIZE_def)
    ultimately show ?thesis using i by (simp add: resource_def Let_def read_le_Ok)
  qed
  have rel: "relocation ?d i = Ok (Some (relocations s ! i))" if i: "i < length (relocations s)" for i
  proof -
    let ?o = "relocations_offset l + i * RELOCATION_SIZE" and ?r = "relocations s ! i"
    obtain kd ix where src: "source_raw (reloc_source ?r) = (kd, ix)" by (cases "source_raw (reloc_source ?r)")
    have mem: "(6, to_le_bytes VERSION_MINOR) \<in> set (submit_stores l s)"
      "(?o, to_le_bytes (commands_word_offset ?r)) \<in> set (submit_stores l s)"
      "(?o + 4, to_le_bytes ix) \<in> set (submit_stores l s)"
      "(?o + 8, to_le_bytes (resource_offset ?r)) \<in> set (submit_stores l s)"
      "(?o + 16, to_le_bytes (required_size ?r)) \<in> set (submit_stores l s)"
      "(?o + 24, to_le_bytes (access ?r)) \<in> set (submit_stores l s)"
      "(?o + 28, to_le_bytes (encoding_raw (encoding ?r))) \<in> set (submit_stores l s)"
      "(?o + 30, to_le_bytes kd) \<in> set (submit_stores l s)"
      using member_stores(3)[OF i, of l] member_stores(4)[where l=l and s=s] src
      by (auto simp: relocation_stores_def header_stores_def Let_def)
    have "from_le_bytes (slice b' 6 2) = VERSION_MINOR"
      "from_le_bytes (slice b' ?o 4) = commands_word_offset ?r"
      "from_le_bytes (slice b' (?o + 4) 4) = ix"
      "from_le_bytes (slice b' (?o + 8) 8) = resource_offset ?r"
      "from_le_bytes (slice b' (?o + 16) 8) = required_size ?r"
      "from_le_bytes (slice b' (?o + 24) 4) = access ?r"
      "from_le_bytes (slice b' (?o + 28) 2) = encoding_raw (encoding ?r)"
      "from_le_bytes (slice b' (?o + 30) 2) = kd"
      by (rule f, rule mem, simp)+
    moreover have "?o + 32 \<le> length b'" "8 \<le> length b'" using i off len by (auto simp: RELOCATION_SIZE_def)
    moreover have "encoding ?r = GpuVa64" by (cases "encoding ?r")
    ultimately show ?thesis using i decode_source_raw[OF src]
      by (simp add: relocation_def Let_def read_le_Ok encoding_from_raw_def)
  qed
  show ?thesis using cmd res rel by (simp add: represents_def)
qed

section \<open>The decoder\<close>

lemma no_padding:
  fixes r :: "(Error, DecodedSubmit) outcome"
  assumes "layout c rc lc = Ok l" "total l = length b"
  shows "and_then (ok_or (usize_mul c 4) Overflow) (\<lambda>commands_size.
      and_then (ok_or (usize_add (commands_offset l) commands_size) Overflow) (\<lambda>padding_start.
      and_then (if padding_start \<le> resources_offset l
          then subslice b padding_start (resources_offset l - padding_start) else Panic) (\<lambda>pad.
      if any_nonzero pad then Err ReservedNotZero else r))) = r"
  using assms
  by (auto simp: layout_eq_Ok usize_mul_def usize_add_def subslice_def slice_def any_nonzero_def)

lemma decode_eq_Ok:
  "decode b = Ok d \<longleftrightarrow>
    64 \<le> length b \<and> length b \<le> 2097152
    \<and> from_le_bytes (slice b 0 4) = MAGIC \<and> from_le_bytes (slice b 4 2) = VERSION_MAJOR
    \<and> (from_le_bytes (slice b 6 2) :: u16) \<le> VERSION_MINOR
    \<and> unat (from_le_bytes (slice b 8 2) :: u16) = 64
    \<and> (from_le_bytes (slice b 10 2) :: u16) = 0 \<and> \<not> any_nonzero (slice b 40 24)
    \<and> unat (from_le_bytes (slice b 12 4) :: u32) = length b
    \<and> layout (commands_count d) (resource_count d) (relocation_count d) = Ok (d_layout d)
    \<and> unat (from_le_bytes (slice b 16 4) :: u32) = commands_offset (d_layout d)
    \<and> unat (from_le_bytes (slice b 24 4) :: u32) = resources_offset (d_layout d)
    \<and> unat (from_le_bytes (slice b 32 4) :: u32) = relocations_offset (d_layout d)
    \<and> total (d_layout d) = length b
    \<and> d = \<lparr>payload = b, d_layout = d_layout d,
        commands_count = unat (from_le_bytes (slice b 20 4) :: u32),
        resource_count = unat (from_le_bytes (slice b 28 4) :: u32),
        relocation_count = unat (from_le_bytes (slice b 36 4) :: u32)\<rparr>
    \<and> for_each (decode_resource d) [0..<resource_count d] () = Ok ()
    \<and> (\<exists>x. for_each (decode_relocation d) [0..<relocation_count d] None = Ok x)"
    (is "_ \<longleftrightarrow> ?rhs")
proof (cases "64 \<le> length b \<and> length b \<le> 2097152")
  case False
  then show ?thesis by (auto simp: decode_def HEADER_SIZE_def MAX_SUBMIT_SIZE_def)
next
  case True
  let ?cc = "unat (from_le_bytes (slice b 20 4) :: u32)"
    and ?rc = "unat (from_le_bytes (slice b 28 4) :: u32)"
    and ?lc = "unat (from_le_bytes (slice b 36 4) :: u32)"
  note pad = no_padding[where b=b]
  show ?thesis
  proof
    assume "decode b = Ok d"
    then show ?rhs
      using True
      unfolding decode_def Let_def HEADER_SIZE_def
      by (auto simp: outcome_simps read_le_Ok subslice_Ok not_less pad)
  next
    assume rhs: ?rhs
    define l where "l = d_layout d"
    have d: "d = \<lparr>payload = b, d_layout = l, commands_count = ?cc, resource_count = ?rc,
        relocation_count = ?lc\<rparr>" unfolding l_def using rhs by blast
    then have c: "commands_count d = ?cc" "resource_count d = ?rc" "relocation_count d = ?lc" by simp_all
    have lay: "layout ?cc ?rc ?lc = Ok l" "total l = length b" using rhs by (simp_all add: c l_def)
    obtain x where loops: "for_each (decode_resource d) [0..<?rc] () = Ok ()"
      "for_each (decode_relocation d) [0..<?lc] None = Ok x" using rhs by (auto simp: c)
    have res: "(let d = \<lparr>payload = b, d_layout = l, commands_count = ?cc, resource_count = ?rc,
        relocation_count = ?lc\<rparr> in and_then (for_each (decode_resource d) [0..<?rc] ()) (\<lambda>_.
        and_then (for_each (decode_relocation d) [0..<?lc] None) (\<lambda>_. Ok d))) = Ok d"
      using loops by (simp add: d[symmetric])
    show "decode b = Ok d"
      using rhs True unfolding l_def[symmetric] decode_def HEADER_SIZE_def
      by (simp add: read_le_Ok subslice_Ok lay pad[OF lay] res MAX_SUBMIT_SIZE_def
          not_less[symmetric, of _ VERSION_MINOR] del: not_less)
  qed
qed

text \<open>On represented tables, the loops of the decoder are the checks of the specification.\<close>

definition reserved_clear :: "DecodedSubmit \<Rightarrow> bool" where
  "reserved_clear d \<longleftrightarrow> (\<forall>i < resource_count d.
     (from_le_bytes (slice (payload d) (resources_offset (d_layout d) + i * 32 + 28) 4) :: u32) = 0)"

lemma loops_of_represented:
  assumes r: "represents d s"
    and "resources_offset (d_layout d) + resource_count d * 32 \<le> length (payload d)"
  shows "for_each (decode_resource d) [0..<resource_count d] () = Ok () \<longleftrightarrow>
      reserved_clear d \<and> list_all valid_resource (resources s)"
    and "(\<exists>x. for_each (decode_relocation d) [0..<relocation_count d] None = Ok x) \<longleftrightarrow>
      list_all (\<lambda>rel. valid_relocation rel (commands s) (resources s)) (relocations s)
      \<and> sorted_wrt before (relocations s)"
proof -
  have n: "resource_count d = length (resources s)" "relocation_count d = length (relocations s)"
    using r by (auto simp: represents_def)
  have res: "decode_resource d i () = Ok () \<longleftrightarrow>
      (from_le_bytes (slice (payload d) (resources_offset (d_layout d) + i * 32 + 28) 4) :: u32) = 0
      \<and> valid_resource (resources s ! i)" if "i < resource_count d" for i
  proof -
    have "Suc i * 32 \<le> resource_count d * 32" using that by (intro mult_le_mono1) simp
    then have "resources_offset (d_layout d) + i * 32 + 28 + 4 \<le> length (payload d)"
      using assms(2) by simp
    then show ?thesis
      using that n by (simp add: decode_resource_def read_le_Ok RESOURCE_SIZE_def
          represents_resource[OF r] validate_resource_Ok)
  qed
  then show "for_each (decode_resource d) [0..<resource_count d] () = Ok () \<longleftrightarrow>
      reserved_clear d \<and> list_all valid_resource (resources s)"
    by (auto simp: for_each_unit_Ok reserved_clear_def list_all_length n)
  have "for_each (decode_relocation d) [0..<relocation_count d] None
      = for_each (relocation_step (commands s) (resources s)) (relocations s) None"
    using n(2) decode_relocation_represents[OF r] by (intro for_each_index) auto
  then show "(\<exists>x. for_each (decode_relocation d) [0..<relocation_count d] None = Ok x) \<longleftrightarrow>
      list_all (\<lambda>rel. valid_relocation rel (commands s) (resources s)) (relocations s)
      \<and> sorted_wrt before (relocations s)"
    by (simp add: relocation_loop_Ok) (simp add: after_previous_def list_all_iff)
qed

lemma decode_represents:
  assumes "decode b = Ok d"
  shows "\<exists>s. represents d s \<and> valid_submit s"
proof -
  note d = assms[unfolded decode_eq_Ok]
  then have lay: "layout (commands_count d) (resource_count d) (relocation_count d) = Ok (d_layout d)"
    and pl: "payload d = b" and tot: "total (d_layout d) = length b"
    by (blast, metis DecodedSubmit.select_convs(1), blast)
  note off = lay[unfolded layout_eq_Ok]
  have fits: "resources_offset (d_layout d) + resource_count d * 32 \<le> length (payload d)"
    using off tot pl by auto
  have c: "\<exists>w. commands_word d i = Ok (Some w)" if "i < commands_count d" for i
    using that off tot pl by (auto simp: commands_word_def read_le_def)
  have r: "\<exists>w. resource d i = Ok (Some w)" if "i < resource_count d" for i
    using that off tot pl by (auto simp: resource_def RESOURCE_SIZE_def read_le_def Let_def)
  have l: "\<exists>w. relocation d i = Ok (Some w)" if i: "i < relocation_count d" for i
  proof -
    obtain x where "for_each (decode_relocation d) [0..<relocation_count d] None = Ok x" using d by blast
    from for_each_Ok_all[OF this, of i] i show ?thesis
      by (auto simp: decode_relocation_def outcome_simps)
  qed
  let ?c = "\<lambda>i. SOME w. commands_word d i = Ok (Some w)" and ?r = "\<lambda>i. SOME w. resource d i = Ok (Some w)"
    and ?l = "\<lambda>i. SOME w. relocation d i = Ok (Some w)"
  let ?s = "\<lparr>commands = map ?c [0..<commands_count d], resources = map ?r [0..<resource_count d],
    relocations = map ?l [0..<relocation_count d]\<rparr>"
  have "represents d ?s"
    unfolding represents_def using c[THEN someI_ex] r[THEN someI_ex] l[THEN someI_ex] by simp
  moreover from this have "valid_submit ?s"
    using loops_of_represented[OF _ fits, of ?s] d by (auto simp: valid_submit_def)
  ultimately show ?thesis by blast
qed

lemma decode_encode:
  assumes "encode s b = (b', Ok ())"
  shows "\<exists>d. decode b' = Ok d \<and> represents d s"
proof -
  from assms obtain l where l: "layout (length (commands s)) (length (resources s)) (length (relocations s)) = Ok l"
    and b: "length b = total l" and v: "valid_submit s"
    and w: "fill_and_write (submit_stores l s) b = Some b'" by (auto simp: encode_eq_Ok)
  let ?d = "\<lparr>payload = b', d_layout = l, commands_count = length (commands s),
      resource_count = length (resources s), relocation_count = length (relocations s)\<rparr>"
  note r = encoded_represents[OF l b w] and off = l[unfolded layout_eq_Ok]
  have len: "length b' = total l" using fill_and_write_length[OF w] b by simp
  note f = fill_and_write_field[OF w submit_stores_regions(1)[OF l]]
  have hdr: "header_stores l s = [(0, to_le_bytes MAGIC), (4, to_le_bytes VERSION_MAJOR), (6, to_le_bytes VERSION_MINOR),
      (8, to_le_bytes (word_of_nat HEADER_SIZE :: u16)), (10, to_le_bytes (0 :: u16)),
      (12, to_le_bytes (word_of_nat (total l) :: u32)),
      (16, to_le_bytes (word_of_nat (commands_offset l) :: u32)),
      (20, to_le_bytes (word_of_nat (length (commands s)) :: u32)),
      (24, to_le_bytes (word_of_nat (resources_offset l) :: u32)),
      (28, to_le_bytes (word_of_nat (length (resources s)) :: u32)),
      (32, to_le_bytes (word_of_nat (relocations_offset l) :: u32)),
      (36, to_le_bytes (word_of_nat (length (relocations s)) :: u32))]" by (simp only: header_stores_def)
  have mem: "x \<in> set (header_stores l s) \<Longrightarrow> x \<in> set (submit_stores l s)" for x
    using member_stores(4)[of l s] by auto
  have fields: "from_le_bytes (slice b' 0 4) = MAGIC" "from_le_bytes (slice b' 4 2) = VERSION_MAJOR"
    "from_le_bytes (slice b' 6 2) = VERSION_MINOR"
    "from_le_bytes (slice b' 8 2) = (word_of_nat HEADER_SIZE :: u16)"
    "from_le_bytes (slice b' 10 2) = (0 :: u16)"
    "from_le_bytes (slice b' 12 4) = (word_of_nat (total l) :: u32)"
    "from_le_bytes (slice b' 16 4) = (word_of_nat (commands_offset l) :: u32)"
    "from_le_bytes (slice b' 20 4) = (word_of_nat (length (commands s)) :: u32)"
    "from_le_bytes (slice b' 24 4) = (word_of_nat (resources_offset l) :: u32)"
    "from_le_bytes (slice b' 28 4) = (word_of_nat (length (resources s)) :: u32)"
    "from_le_bytes (slice b' 32 4) = (word_of_nat (relocations_offset l) :: u32)"
    "from_le_bytes (slice b' 36 4) = (word_of_nat (length (relocations s)) :: u32)"
    by (rule f, rule mem, simp add: hdr, simp)+
  have zero: "slice b' 40 24 = replicate 24 0"
    using off b submit_stores_regions(3)[OF l, of 40 24] by (intro fill_and_write_zero[OF w]) auto
  have num: "unat (word_of_nat n :: u32) = n" if "n \<le> total l" for n
    using that off by (intro unat_of_nat_lt) auto
  have clear: "reserved_clear ?d"
  proof -
    have "slice b' (resources_offset l + i * 32 + 28) 4 = replicate 4 0" if "i < length (resources s)" for i
      using reserved_untouched[OF l that] that off b by (intro fill_and_write_zero[OF w]) auto
    then show ?thesis by (simp add: reserved_clear_def from_le_bytes_def)
  qed
  have "resources_offset (d_layout ?d) + resource_count ?d * 32 \<le> length (payload ?d)"
    using off len by auto
  note loops = loops_of_represented[OF r this]
  have le: "total l \<le> total l" "commands_offset l \<le> total l" "resources_offset l \<le> total l"
    "relocations_offset l \<le> total l" "length (commands s) \<le> total l" "length (resources s) \<le> total l"
    "length (relocations s) \<le> total l" "64 \<le> total l" "total l \<le> 2097152" using off by auto
  have run: "for_each (decode_resource ?d) [0..<length (resources s)] () = Ok ()"
    "\<exists>x. for_each (decode_relocation ?d) [0..<length (relocations s)] None = Ok x"
    using loops v clear by (simp_all add: valid_submit_def)
  have "decode b' = Ok ?d"
    unfolding decode_eq_Ok
    using le(8,9) run by (simp add: fields zero num le l len HEADER_SIZE_def)
  then show ?thesis using r by blast
qed

section \<open>No panics\<close>

lemma accessors_not_Panic:
  assumes "layout (commands_count d) (resource_count d) (relocation_count d) = Ok (d_layout d)"
    and "total (d_layout d) = length (payload d)"
  shows "commands_word d i \<noteq> Panic" "resource d i \<noteq> Panic" "relocation d i \<noteq> Panic"
    and "decode_resource d i u \<noteq> Panic \<or> resource_count d \<le> i"
  using assms
  by (auto simp: layout_eq_Ok commands_word_def resource_def relocation_def decode_resource_def
      RESOURCE_SIZE_def RELOCATION_SIZE_def Let_def outcome_simps read_le_def validate_resource_def
      validate_access_def encoding_from_raw_def
      split: option.splits outcome.splits)

lemma decode_relocation_not_Panic:
  assumes "layout (commands_count d) (resource_count d) (relocation_count d) = Ok (d_layout d)"
    and "total (d_layout d) = length (payload d)"
  shows "decode_relocation d i prev \<noteq> Panic"
proof -
  note a = accessors_not_Panic[OF assms]
  have "collect (\<lambda>word. and_then (commands_word d word) (\<lambda>w. ok_or w RelocationOutOfBounds)) ws \<noteq> Panic"
    for ws by (intro collect_not_Panic) (simp add: outcome_simps a)
  then show ?thesis
    by (simp add: decode_relocation_def outcome_simps a validate_access_def validate_source_not_Panic
        split: RelocationSource.split)
qed

lemma decode_not_Panic: "decode b \<noteq> Panic"
proof (cases "64 \<le> length b \<and> length b \<le> 2097152")
  case False
  then show ?thesis by (auto simp: decode_def HEADER_SIZE_def MAX_SUBMIT_SIZE_def)
next
  case True
  have pad: False
    if "layout c rc lc = Ok l" "total l = length b" "usize_mul c 4 = Some n"
      "usize_add (commands_offset l) n = Some m"
      "(if m \<le> resources_offset l then subslice b m (resources_offset l - m) else Panic)
        = (Panic :: (Error, bytes) outcome)" for c rc lc l n m
    using that by (auto simp: layout_eq_Ok usize_mul_def usize_add_def subslice_def split: if_splits)
  have loops: "for_each (decode_resource d) [0..<resource_count d] () \<noteq> Panic"
    "for_each (decode_relocation d) [0..<relocation_count d] None \<noteq> Panic"
    if "layout (commands_count d) (resource_count d) (relocation_count d) = Ok (d_layout d)"
      "total (d_layout d) = length (payload d)" for d
    using accessors_not_Panic(4)[OF that] decode_relocation_not_Panic[OF that]
    by (intro for_each_not_Panic[where P="\<lambda>_. True"]; auto simp: not_le[symmetric])+
  have loops': "for_each (decode_resource \<lparr>payload = b, d_layout = l, commands_count = c,
        resource_count = rc, relocation_count = lc\<rparr>) [0..<rc] () \<noteq> Panic"
    "for_each (decode_relocation \<lparr>payload = b, d_layout = l, commands_count = c,
        resource_count = rc, relocation_count = lc\<rparr>) [0..<lc] None \<noteq> Panic"
    if "layout c rc lc = Ok l" "total l = length b" for c rc lc l
    using loops[of "\<lparr>payload = b, d_layout = l, commands_count = c,
        resource_count = rc, relocation_count = lc\<rparr>"] that by simp_all
  show ?thesis
  proof
    assume "decode b = Panic"
    then show False
      using True unfolding decode_def HEADER_SIZE_def Let_def
      by (auto simp: outcome_simps read_le_Ok subslice_Ok layout_not_Panic loops' dest: pad)
  qed
qed

end
