(* ===== verification/Submit_Claims.thy ===== *)
theory Submit_Claims
  imports Submit_Roundtrip
begin

text \<open>
  The submission format as a \<open>wire_format\<close>, its canonicity for the current minor version, and the
  properties the kernel relies on after decoding.
\<close>

section \<open>Canonical payloads\<close>

lemma decode_source_inverse: "decode_source m k i = Some src \<Longrightarrow> source_raw src = (k, i)"
proof -
  assume a: "decode_source m k i = Some src"
  show "source_raw src = (k, i)"
  proof (cases "k = 0")
    case True
    then show ?thesis using a by (auto simp: decode_source_def)
  next
    case False
    then obtain v where k: "k = 1" and i: "unat i < 2 ^ 16" and v: "shader_from_raw (ucast i) = Some v"
      and src: "src = CanonicalShader v"
      using a by (auto simp: decode_source_def split: if_splits)
    have "(ucast (ucast i :: u16) :: u32) = i"
      using i by (simp add: word_unat_eq_iff unsigned_ucast_eq unsigned_take_bit_eq take_bit_nat_eq_self)
    then show ?thesis using k src v by (simp add: shader_from_raw_eq_Some)
  qed
qed

lemma encoding_raw_inverse: "encoding_from_raw x = Ok e \<Longrightarrow> encoding_raw e = x"
  by (cases e) (simp add: encoding_from_raw_def split: if_splits)

text \<open>Windows of a payload as encodings of the values read there.\<close>

lemma slice_to_le:
  assumes "from_le_bytes (slice b i m) = (v :: 'a::len word)" "8 * m = LENGTH('a)" "i + m \<le> length b"
  shows "slice b i m = to_le_bytes v"
  unfolding assms(1)[symmetric] using assms(2,3) by (simp add: to_le_from_le)

lemma nat_to_word:
  "unat (from_le_bytes (slice b i m) :: 'a::len word) = k \<Longrightarrow>
    from_le_bytes (slice b i m) = (word_of_nat k :: 'a word)"
  by auto

text \<open>The stores of the encoder rewrite a decoded payload of minor version 1 with itself.\<close>

lemma stores_of_decoded:
  assumes d: "decode b = Ok d" and r: "represents d s"
    and minor: "from_le_bytes (slice b 6 2) = VERSION_MINOR"
  shows "\<forall>(i, xs) \<in> set (submit_stores (d_layout d) s). slice b i (length xs) = xs"
proof -
  note D = d[unfolded decode_eq_Ok]
  then have lay: "layout (commands_count d) (resource_count d) (relocation_count d) = Ok (d_layout d)"
    and pl: "payload d = b" and tot: "total (d_layout d) = length b"
    by (blast, metis DecodedSubmit.select_convs(1), blast)
  note off = lay[unfolded layout_eq_Ok]
  have n: "commands_count d = length (commands s)" "resource_count d = length (resources s)"
    "relocation_count d = length (relocations s)" using r by (auto simp: represents_def)
  have num: "unat (from_le_bytes (slice b 20 4) :: u32) = length (commands s)"
    "unat (from_le_bytes (slice b 28 4) :: u32) = length (resources s)"
    "unat (from_le_bytes (slice b 36 4) :: u32) = length (relocations s)"
    using D n by (metis DecodedSubmit.select_convs(3,4,5))+
  have len: "64 \<le> length b" using D by blast
  note word4 = slice_to_le[where b=b and m=4, simplified] and word8 = slice_to_le[where b=b and m=8, simplified]
    and word2 = slice_to_le[where b=b and m=2, simplified]
  have fields: "slice b 0 4 = to_le_bytes MAGIC" "slice b 4 2 = to_le_bytes VERSION_MAJOR"
    "slice b 6 2 = to_le_bytes VERSION_MINOR" "slice b 10 2 = to_le_bytes (0 :: u16)"
    using D minor len by (intro slice_to_le; simp)+
  have numbers: "slice b 8 2 = to_le_bytes (word_of_nat HEADER_SIZE :: u16)"
    "slice b 12 4 = to_le_bytes (word_of_nat (total (d_layout d)) :: u32)"
    "slice b 16 4 = to_le_bytes (word_of_nat (commands_offset (d_layout d)) :: u32)"
    "slice b 20 4 = to_le_bytes (word_of_nat (length (commands s)) :: u32)"
    "slice b 24 4 = to_le_bytes (word_of_nat (resources_offset (d_layout d)) :: u32)"
    "slice b 28 4 = to_le_bytes (word_of_nat (length (resources s)) :: u32)"
    "slice b 32 4 = to_le_bytes (word_of_nat (relocations_offset (d_layout d)) :: u32)"
    "slice b 36 4 = to_le_bytes (word_of_nat (length (relocations s)) :: u32)"
    using D num len tot by (intro slice_to_le nat_to_word; simp add: HEADER_SIZE_def)+
  have hdr: "\<forall>(i, xs) \<in> set (header_stores (d_layout d) s). slice b i (length xs) = xs"
    by (simp add: header_stores_def fields numbers)
  have cmd: "\<forall>(j, xs) \<in> set (command_store (d_layout d) s i). slice b j (length xs) = xs"
    if i: "i < length (commands s)" for i
  proof -
    have "commands_word d i = Ok (Some (commands s ! i))" using r i by (auto simp: represents_def)
    then have "from_le_bytes (slice b (commands_offset (d_layout d) + i * 4) 4) = commands s ! i"
      "commands_offset (d_layout d) + i * 4 + 4 \<le> length b"
      using i n by (auto simp: commands_word_def read_le_eq_Ok outcome_simps pl)
    then show ?thesis by (auto simp: command_store_def intro: word4)
  qed
  have res: "\<forall>(j, xs) \<in> set (resource_stores (d_layout d) s i). slice b j (length xs) = xs"
    if i: "i < length (resources s)" for i
  proof -
    let ?o = "resources_offset (d_layout d) + i * RESOURCE_SIZE"
    have "resource d i = Ok (Some (resources s ! i))" using r i by (auto simp: represents_def)
    then have "from_le_bytes (slice b ?o 8) = attachment_token (resources s ! i)"
      "from_le_bytes (slice b (?o + 8) 8) = range_offset (resources s ! i)"
      "from_le_bytes (slice b (?o + 16) 8) = range_size (resources s ! i)"
      "from_le_bytes (slice b (?o + 24) 4) = r_access (resources s ! i)" "?o + 28 \<le> length b"
      using i n by (cases "resources s ! i"; auto simp: resource_def Let_def read_le_eq_Ok outcome_simps pl)+
    then show ?thesis
      by (auto simp: resource_stores_def Let_def intro!: word4 word8)
  qed
  have rel: "\<forall>(j, xs) \<in> set (relocation_stores (d_layout d) s i). slice b j (length xs) = xs"
    if i: "i < length (relocations s)" for i
  proof -
    let ?o = "relocations_offset (d_layout d) + i * RELOCATION_SIZE" and ?r = "relocations s ! i"
    have "relocation d i = Ok (Some ?r)" using r i by (auto simp: represents_def)
    then obtain kd ix src enc where
      src: "decode_source (from_le_bytes (slice b 6 2)) kd ix = Some src"
      and f: "from_le_bytes (slice b ?o 4) = commands_word_offset ?r"
      "from_le_bytes (slice b (?o + 4) 4) = ix"
      "from_le_bytes (slice b (?o + 8) 8) = resource_offset ?r"
      "from_le_bytes (slice b (?o + 16) 8) = required_size ?r"
      "from_le_bytes (slice b (?o + 24) 4) = access ?r"
      "from_le_bytes (slice b (?o + 28) 2) = enc"
      "from_le_bytes (slice b (?o + 30) 2) = kd"
      and "encoding_from_raw enc = Ok (encoding ?r)" "reloc_source ?r = src" and bnd: "?o + 32 \<le> length b"
      using i n
      by (cases ?r; auto simp: relocation_def Let_def read_le_eq_Ok outcome_simps pl
          split: option.splits outcome.splits)
    moreover from this have "source_raw (reloc_source ?r) = (kd, ix)" "encoding_raw (encoding ?r) = enc"
      by (auto dest: decode_source_inverse encoding_raw_inverse)
    ultimately show ?thesis
      by (auto simp: relocation_stores_def Let_def intro!: word4 word8 word2)
  qed
  show ?thesis
  proof
    fix x assume "x \<in> set (submit_stores (d_layout d) s)"
    then have "x \<in> set (header_stores (d_layout d) s)
        \<or> (\<exists>i < length (commands s). x \<in> set (command_store (d_layout d) s i))
        \<or> (\<exists>i < length (resources s). x \<in> set (resource_stores (d_layout d) s i))
        \<or> (\<exists>i < length (relocations s). x \<in> set (relocation_stores (d_layout d) s i))"
      by (auto simp: submit_stores_def)
    then show "case x of (i, xs) \<Rightarrow> slice b i (length xs) = xs" using hdr cmd res rel by blast
  qed
qed

lemma cover_of_decoded:
  assumes d: "decode b = Ok d" and r: "represents d s" and j: "j < length b"
  shows "stores_cover (submit_stores (d_layout d) s) j \<or> b ! j = 0"
proof -
  let ?l = "d_layout d"
  note D = d[unfolded decode_eq_Ok]
  then have lay: "layout (commands_count d) (resource_count d) (relocation_count d) = Ok ?l"
    and pl: "payload d = b" and tot: "total ?l = length b"
    by (blast, metis DecodedSubmit.select_convs(1), blast)
  have n: "commands_count d = length (commands s)" "resource_count d = length (resources s)"
    "relocation_count d = length (relocations s)" using r by (auto simp: represents_def)
  note off = lay[unfolded layout_eq_Ok n]
  have len: "64 \<le> length b" using D by blast
  consider "j < 40" | "40 \<le> j" "j < 64"
    | "commands_offset ?l \<le> j" "j < commands_offset ?l + length (commands s) * 4"
    | "resources_offset ?l \<le> j" "j < resources_offset ?l + length (resources s) * 32"
    | "relocations_offset ?l \<le> j" "j < relocations_offset ?l + length (relocations s) * 32"
  proof -
    have "commands_offset ?l = 64" "resources_offset ?l = 64 + length (commands s) * 4"
      "relocations_offset ?l = resources_offset ?l + length (resources s) * 32"
      "length b = relocations_offset ?l + length (relocations s) * 32" using off tot by auto
    then show thesis using that j by linarith
  qed
  then show ?thesis
  proof cases
    case 1
    have "covers 0 (header_stores ?l s) 40" by (simp add: header_stores_def)
    from covers_stores_cover[OF this member_stores(4), of j] 1 show ?thesis by simp
  next
    case 2
    have "\<not> any_nonzero (slice b 40 24)" using D by blast
    then show ?thesis using 2 len any_nonzero_slice[of 40 24 b] by simp
  next
    case 3
    from table_index[OF 3] obtain i where i: "i < length (commands s)"
      "commands_offset ?l + i * 4 \<le> j" "j < commands_offset ?l + i * 4 + 4" by blast
    have "covers (commands_offset ?l + i * 4) (command_store ?l s i) (commands_offset ?l + i * 4 + 4)"
      by (simp add: command_store_def)
    from covers_stores_cover[OF this member_stores(1)[OF i(1)] i(2,3)] show ?thesis by simp
  next
    case 4
    from table_index[OF 4] obtain i where i: "i < length (resources s)"
      "resources_offset ?l + i * 32 \<le> j" "j < resources_offset ?l + i * 32 + 32" by blast
    show ?thesis
    proof (cases "j < resources_offset ?l + i * 32 + 28")
      case True
      have "covers (resources_offset ?l + i * 32) (resource_stores ?l s i) (resources_offset ?l + i * 32 + 28)"
        by (simp add: resource_stores_def Let_def RESOURCE_SIZE_def)
      from covers_stores_cover[OF this member_stores(2)[OF i(1)] i(2) True] show ?thesis by simp
    next
      case False
      have fits: "resources_offset ?l + resource_count d * 32 \<le> length (payload d)"
        using off tot pl n by auto
      have "reserved_clear d" using loops_of_represented(1)[OF r fits] D by blast
      then have z: "(from_le_bytes (slice b (resources_offset ?l + i * 32 + 28) 4) :: u32) = 0"
        using i(1) n pl by (simp add: reserved_clear_def)
      have bnd: "resources_offset ?l + i * 32 + 28 + 4 \<le> length b"
        using i(1) off tot by auto
      have "slice b (resources_offset ?l + i * 32 + 28) 4 = to_le_bytes (0 :: u32)"
        using slice_to_le[OF z _ bnd] by simp
      also have "\<dots> = replicate 4 0" by (rule to_le_bytes_0)
      finally have "\<not> any_nonzero (slice b (resources_offset ?l + i * 32 + 28) 4)" by simp
      then show ?thesis using any_nonzero_slice[OF bnd] False i(3) by simp
    qed
  next
    case 5
    from table_index[OF 5] obtain i where i: "i < length (relocations s)"
      "relocations_offset ?l + i * 32 \<le> j" "j < relocations_offset ?l + i * 32 + 32" by blast
    have "covers (relocations_offset ?l + i * 32) (relocation_stores ?l s i) (relocations_offset ?l + i * 32 + 32)"
      by (simp add: relocation_stores_def Let_def RELOCATION_SIZE_def)
    from covers_stores_cover[OF this member_stores(3)[OF i(1)] i(2,3)] show ?thesis by simp
  qed
qed

lemma encode_decoded:
  assumes d: "decode b = Ok d" and r: "represents d s"
    and minor: "from_le_bytes (slice b 6 2) = VERSION_MINOR" and c: "length c = length b"
  shows "encode s c = (b, Ok ())"
proof -
  note D = d[unfolded decode_eq_Ok]
  have n: "commands_count d = length (commands s)" "resource_count d = length (resources s)"
    "relocation_count d = length (relocations s)" using r by (auto simp: represents_def)
  have lay: "layout (length (commands s)) (length (resources s)) (length (relocations s)) = Ok (d_layout d)"
    and tot: "total (d_layout d) = length b" and pl: "payload d = b"
    using D n by (simp, blast, metis DecodedSubmit.select_convs(1))
  have fits: "resources_offset (d_layout d) + resource_count d * 32 \<le> length (payload d)"
    using lay tot pl n by (auto simp: layout_eq_Ok)
  have v: "valid_submit s"
    using loops_of_represented[OF r fits] D by (simp add: valid_submit_def)
  have "fill_and_write (submit_stores (d_layout d) s) c = Some b"
    using stores_of_decoded[OF d r minor] cover_of_decoded[OF d r] c submit_stores_regions(2)[OF lay] tot
    by (intro fill_and_write_canonical) auto
  then show ?thesis using lay tot c v by (simp add: encode_eq_Ok)
qed

section \<open>The submission as a wire format\<close>

definition decode_tables :: "bytes \<Rightarrow> (Error, Submit) outcome" where
  "decode_tables b = and_then (decode b) decoded_submit"

lemma decoded_submit_exists: "decode b = Ok d \<Longrightarrow> \<exists>s. decoded_submit d = Ok s \<and> valid_submit s"
  using decode_represents[of b d] by (simp add: decoded_submit_eq_Ok)

lemma encode_not_Panic: "snd (encode s b) \<noteq> Panic"
proof -
  have "for_each (\<lambda>r _. validate_resource r) rs u \<noteq> Panic" for rs u
    by (rule for_each_not_Panic[where P="\<lambda>_. True"])
      (auto simp: outcome_simps validate_resource_def validate_access_def)
  moreover have "for_each (relocation_step cs rs) ls prev \<noteq> Panic" for cs rs ls prev
    by (rule for_each_not_Panic[where P="\<lambda>_. True"])
      (auto simp: outcome_simps relocation_step_def validate_relocation_not_Panic)
  ultimately have "validate_submit s \<noteq> Panic"
    unfolding validate_submit_def relocation_step_def[symmetric, abs_def] by (simp add: outcome_simps)
  moreover have "fill_and_write (submit_stores l s) b \<noteq> None"
    if "layout (length (commands s)) (length (resources s)) (length (relocations s)) = Ok l"
      "length b = total l" for l
    using fill_and_write_within[of "submit_stores l s" b] submit_stores_regions(2)[OF that(1)] that(2)
    by auto
  ultimately show ?thesis
    by (auto simp: encode_def layout_not_Panic split: outcome.splits option.splits)
qed

interpretation submit_payload: wire_format "\<lambda>_. True" encode decode_tables
proof (unfold_locales; (rule TrueI)?)
  fix s b b' assume "encode s b = (b', Ok ())"
  from decode_encode[OF this] show "decode_tables b' = Ok s"
    by (auto simp: decode_tables_def decoded_submit_eq_Ok)
next
  fix s b b' e assume "encode s b = (b', Err e)"
  then show "b' = b" by (auto simp: encode_def split: if_splits outcome.splits option.splits)
next
  fix s b show "snd (encode s b) \<noteq> Panic" by (rule encode_not_Panic)
next
  fix b show "decode_tables b \<noteq> Panic"
  proof (cases "decode b")
    case (Ok d)
    then show ?thesis using decoded_submit_exists[OF Ok] by (auto simp: decode_tables_def)
  qed (auto simp: decode_tables_def decode_not_Panic)
qed

section \<open>A submission for the witnesses\<close>

definition sample_submit :: Submit where
  "sample_submit = \<lparr>commands = replicate 64 0,
     resources = [\<lparr>attachment_token = 9, range_offset = 4096, range_size = 8192, r_access = 3\<rparr>],
     relocations = [\<lparr>commands_word_offset = 2, reloc_source = Attachment 0, resource_offset = 256,
        required_size = 1024, access = 1, encoding = GpuVa64\<rparr>,
      \<lparr>commands_word_offset = 8, reloc_source = CanonicalShader FsSolid, resource_offset = 0,
        required_size = 4096, access = 1, encoding = GpuVa64\<rparr>]\<rparr>"

lemma sample_submit_encodes: "\<exists>b. encode sample_submit (replicate 416 0) = (b, Ok ())"
proof -
  have "valid_submit sample_submit"
    by (simp add: valid_submit_def sample_submit_def valid_resource_def valid_access_def
        valid_relocation_def valid_source_def before_def ACCESS_READ_def ACCESS_WRITE_def)
  moreover have "layout (length (commands sample_submit)) (length (resources sample_submit))
      (length (relocations sample_submit))
    = Ok \<lparr>total = 416, commands_offset = 64, resources_offset = 320, relocations_offset = 352\<rparr>"
    by (simp add: layout_eq_Ok sample_submit_def)
  ultimately show ?thesis
    using submit_stores_regions(2)[of sample_submit]
      fill_and_write_within[of "submit_stores _ sample_submit" "replicate 416 0"]
    by (fastforce simp: encode_eq_Ok)
qed

section \<open>Properties\<close>

text \<open>C27: A submission is encoded to bytes that decode to the same tables, or the encoder reports an
  error and leaves the buffer as it was; neither panics.\<close>

theorem submit_round_trip:
  "case encode s b of
     (b', Ok _) \<Rightarrow> length b' = length b \<and> (\<exists>d. decode b' = Ok d \<and> decoded_submit d = Ok s)
   | (b', Err _) \<Rightarrow> b' = b
   | (b', Panic) \<Rightarrow> False"
proof (cases rule: submit_payload.encode_cases[OF TrueI, of s b, case_names encoded refused])
  case (encoded c)
  then have "length c = length b" by (auto simp: encode_eq_Ok dest: fill_and_write_length)
  with encoded show ?thesis by (auto simp: decode_tables_def outcome_simps)
next
  case (refused e)
  then show ?thesis by simp
qed

text \<open>C26: Every payload the decoder accepts holds tables that satisfy the specification of a valid
  submission: valid resources, relocations in order, disjoint, inside the commands, over zero
  placeholders, and within the range and access of the resource they name. The layout of the tables
  fills the payload exactly, and no payload makes the decoder panic.\<close>

theorem decode_sound:
  "case decode b of
     Ok d \<Rightarrow> \<exists>s. decoded_submit d = Ok s \<and> valid_submit s
       \<and> layout (length (commands s)) (length (resources s)) (length (relocations s)) = Ok (d_layout d)
       \<and> total (d_layout d) = length b
   | Err _ \<Rightarrow> True
   | Panic \<Rightarrow> False"
proof (cases "decode b")
  case (Ok d)
  from decoded_submit_exists[OF this] obtain s where s: "decoded_submit d = Ok s" "valid_submit s" by blast
  then have "commands_count d = length (commands s)" "resource_count d = length (resources s)"
    "relocation_count d = length (relocations s)"
    by (auto simp: decoded_submit_eq_Ok represents_def)
  moreover have "layout (commands_count d) (resource_count d) (relocation_count d) = Ok (d_layout d)"
    "total (d_layout d) = length b" using Ok[unfolded decode_eq_Ok] by blast+
  ultimately show ?thesis using Ok s by simp
qed (use decode_not_Panic in auto)

text \<open>\<open>encode\<close> succeeds on exactly the valid submissions, into a buffer of exactly
  \<open>encoded_len\<close> bytes.\<close>

theorem encode_accepts_iff:
  "snd (encode s b) = Ok () \<longleftrightarrow> encoded_len s = Ok (length b) \<and> valid_submit s"
proof -
  have "snd (encode s b) = Ok () \<longleftrightarrow> (\<exists>b'. encode s b = (b', Ok ()))" by (cases "encode s b") simp
  also have "\<dots> \<longleftrightarrow> encoded_len s = Ok (length b) \<and> valid_submit s"
    using submit_stores_regions(2)[of s] fill_and_write_within[of "submit_stores _ s" b]
    by (fastforce simp: encode_eq_Ok encoded_len_def outcome_simps)
  finally show ?thesis .
qed

text \<open>A payload of the current minor version is the only encoding of its tables: encoding what
  was decoded gives the same bytes.\<close>

theorem submit_canonical:
  assumes "decode b = Ok d" "decoded_submit d = Ok s" "from_le_bytes (slice b 6 2) = VERSION_MINOR"
    and "length c = length b"
  shows "encode s c = (b, Ok ())"
  using assms by (intro encode_decoded) (auto simp: decoded_submit_eq_Ok)

theorem submit_canonical_witness:
  "\<exists>b d. decode b = Ok d \<and> decoded_submit d = Ok sample_submit
    \<and> encode sample_submit (replicate (length b) 7) = (b, Ok ())"
proof -
  obtain b where b: "encode sample_submit (replicate 416 0) = (b, Ok ())"
    using sample_submit_encodes by blast
  then obtain d where d: "decode b = Ok d" "decoded_submit d = Ok sample_submit"
    using decode_encode[OF b] by (auto simp: decoded_submit_eq_Ok)
  from b obtain l where l: "layout (length (commands sample_submit)) (length (resources sample_submit))
      (length (relocations sample_submit)) = Ok l"
    and w: "fill_and_write (submit_stores l sample_submit) (replicate 416 0) = Some b"
    by (auto simp: encode_eq_Ok)
  have "(6, to_le_bytes VERSION_MINOR) \<in> set (submit_stores l sample_submit)"
    using member_stores(4)[of l sample_submit] by (auto simp: header_stores_def)
  then have "from_le_bytes (slice b 6 2) = VERSION_MINOR"
    by (intro fill_and_write_field[OF w submit_stores_regions(1)[OF l]]) auto
  from submit_canonical[OF d this, of "replicate (length b) 7"] d show ?thesis by auto
qed

end
