(* ===== verification/Scheduler.thy ===== *)
theory Scheduler
  imports Machine
begin

text \<open>
  \<open>userspace/sgfx-backend-scarlet-maxwell/src/scheduler.rs\<close>: the queue of logical submissions. A
  job is a list of chunks; the worker polls the receipts of dispatched chunks, completes the finished
  prefix of the queue and dispatches the next chunks in order, at most sixteen at a time.

  The trait \<open>Transport\<close> is a record of functions. Its methods take \<open>&self\<close> of a type with interior
  state (the device, the clock), so they read and return an explicit state of type \<open>'w\<close>, of which
  nothing is assumed. Whether an allocation succeeds is an argument of \<open>enqueue\<close>.
\<close>

section \<open>Data\<close>

definition MAX_SUBMISSIONS :: nat where "MAX_SUBMISSIONS = 16"
definition MAX_PENDING_BYTES :: nat where "MAX_PENDING_BYTES = 64 * 1024 * 1024"
definition MAX_NATIVE_IN_FLIGHT :: nat where "MAX_NATIVE_IN_FLIGHT = 16"

datatype 'e DispatchError = DispatchBusy | DispatchFailed 'e

datatype 'e AdmissionError = Busy | TooLarge | OutOfMemory | Failed 'e

text \<open>The trait: \<open>Err e\<close> is \<open>Inl e\<close>.\<close>

record ('w, 'c, 'o, 'r, 'g, 'e) Transport =
  chunk_size :: "'c \<Rightarrow> nat"
  requires_idle :: "'c \<Rightarrow> bool"
  ready :: "'w \<Rightarrow> 'c \<Rightarrow> ('e + bool) \<times> 'w"
  submit :: "'w \<Rightarrow> 'o \<Rightarrow> 'c \<Rightarrow> ('e DispatchError + 'r) \<times> 'w"
  poll :: "'w \<Rightarrow> 'r \<Rightarrow> ('e + bool) \<times> 'w"
  complete :: "'w \<Rightarrow> 'g \<Rightarrow> ('e + unit) \<Rightarrow> 'w"

record ('c, 'o, 'r, 'g) Job =
  chunks :: "'c list"
  owner :: 'o
  signal :: 'g
  next_chunk :: nat
  receipts :: "'r list"
  job_bytes :: nat

record ('c, 'o, 'r, 'g, 'e) Scheduler =
  jobs :: "('c, 'o, 'r, 'g) Job list"
  pending_bytes :: nat
  failure :: "'e option"

definition new :: "('c, 'o, 'r, 'g, 'e) Scheduler" where
  "new = \<lparr>jobs = [], pending_bytes = 0, failure = None\<rparr>"

definition is_empty :: "('c, 'o, 'r, 'g, 'e) Scheduler \<Rightarrow> bool" where
  "is_empty s \<longleftrightarrow> jobs s = []"

definition all_receipts :: "('c, 'o, 'r, 'g) Job list \<Rightarrow> 'r list" where
  "all_receipts js = concat (map receipts js)"

definition last_signal :: "('c, 'o, 'r, 'g, 'e) Scheduler \<Rightarrow> 'g option" where
  "last_signal s = (if jobs s = [] then None else Some (signal (last (jobs s))))"

section \<open>Admission\<close>

text \<open>\<open>try_fold\<close> with \<open>checked_add\<close>.\<close>

fun total_size :: "('c \<Rightarrow> nat) \<Rightarrow> 'c list \<Rightarrow> nat \<Rightarrow> nat option" where
  "total_size weigh [] acc = Some acc"
| "total_size weigh (c # cs) acc = Option.bind (usize_add acc (weigh c)) (total_size weigh cs)"

definition saturating_add :: "nat \<Rightarrow> nat \<Rightarrow> nat" where
  "saturating_add a b = min (a + b) (2 ^ 64 - 1)"

definition enqueue ::
    "('w, 'c, 'o, 'r, 'g, 'e) Transport \<Rightarrow> bool \<Rightarrow> bool \<Rightarrow> 'c list \<Rightarrow> 'o \<Rightarrow> 'g
      \<Rightarrow> ('c, 'o, 'r, 'g, 'e) Scheduler \<Rightarrow> ('e AdmissionError + unit) \<times> ('c, 'o, 'r, 'g, 'e) Scheduler" where
  "enqueue t reserve_receipts reserve_job cs own sig s =
     (case failure s of
        Some e \<Rightarrow> (Inl (Failed e), s)
      | None \<Rightarrow>
          case total_size (chunk_size t) cs 0 of
            None \<Rightarrow> (Inl TooLarge, s)
          | Some amount \<Rightarrow>
              if MAX_PENDING_BYTES < amount then (Inl TooLarge, s)
              else if length (jobs s) = MAX_SUBMISSIONS
                \<or> MAX_PENDING_BYTES < saturating_add (pending_bytes s) amount then (Inl Busy, s)
              else if \<not> reserve_receipts then (Inl OutOfMemory, s)
              else if \<not> reserve_job then (Inl OutOfMemory, s)
              else (Inr (), s\<lparr>jobs := jobs s @ [\<lparr>chunks = cs, owner = own, signal = sig, next_chunk = 0,
                                              receipts = [], job_bytes = amount\<rparr>],
                             pending_bytes := pending_bytes s + amount\<rparr>))"

section \<open>Failure\<close>

fun complete_all ::
    "('w, 'c, 'o, 'r, 'g, 'e) Transport \<Rightarrow> ('c, 'o, 'r, 'g) Job list \<Rightarrow> 'e \<Rightarrow> 'w \<Rightarrow> 'w" where
  "complete_all t [] e w = w"
| "complete_all t (j # js) e w = complete_all t js e (complete t w (signal j) (Inl e))"

definition fail ::
    "('w, 'c, 'o, 'r, 'g, 'e) Transport \<Rightarrow> 'e \<Rightarrow> ('c, 'o, 'r, 'g, 'e) Scheduler \<Rightarrow> 'w
      \<Rightarrow> ('c, 'o, 'r, 'g, 'e) Scheduler \<times> 'w" where
  "fail t e s w =
     (s\<lparr>failure := Some e, jobs := [], pending_bytes := 0\<rparr>, complete_all t (jobs s) e w)"

section \<open>Advancing the queue\<close>

text \<open>
  The loop over the receipts of one job: \<open>index\<close> is the receipt to be polled. A finished receipt is
  removed and its place polled again, an unfinished one is skipped.
\<close>

function poll_receipts ::
    "('w, 'c, 'o, 'r, 'g, 'e) Transport \<Rightarrow> nat \<Rightarrow> 'r list \<Rightarrow> bool \<Rightarrow> 'w
      \<Rightarrow> ('e + 'r list \<times> bool) \<times> 'w" where
  "poll_receipts t index rs progressed w =
     (if index < length rs then
        case poll t w (rs ! index) of
          (Inr True, w') \<Rightarrow> poll_receipts t index (take index rs @ drop (Suc index) rs) True w'
        | (Inr False, w') \<Rightarrow> poll_receipts t (Suc index) rs progressed w'
        | (Inl e, w') \<Rightarrow> (Inl e, w')
      else (Inr (rs, progressed), w))"
  by pat_completeness auto

termination by (relation "measure (\<lambda>(t, index, rs, progressed, w). length rs - index)") auto

declare poll_receipts.simps [simp del]

text \<open>The first loop over the jobs; the error of a poll leaves the jobs to \<open>fail\<close>.\<close>

fun poll_jobs ::
    "('w, 'c, 'o, 'r, 'g, 'e) Transport \<Rightarrow> ('c, 'o, 'r, 'g) Job list \<Rightarrow> bool \<Rightarrow> 'w
      \<Rightarrow> ('e + ('c, 'o, 'r, 'g) Job list \<times> bool) \<times> 'w" where
  "poll_jobs t [] progressed w = (Inr ([], progressed), w)"
| "poll_jobs t (j # js) progressed w =
     (case poll_receipts t 0 (receipts j) progressed w of
        (Inl e, w') \<Rightarrow> (Inl e, w')
      | (Inr (rs, p), w') \<Rightarrow>
          case poll_jobs t js p w' of
            (Inl e, w'') \<Rightarrow> (Inl e, w'')
          | (Inr (js', p'), w'') \<Rightarrow> (Inr (j\<lparr>receipts := rs\<rparr> # js', p'), w''))"

definition finished :: "('c, 'o, 'r, 'g) Job \<Rightarrow> bool" where
  "finished j \<longleftrightarrow> next_chunk j = length (chunks j) \<and> receipts j = []"

text \<open>The loop that completes the finished prefix of the queue.\<close>

fun retire_jobs ::
    "('w, 'c, 'o, 'r, 'g, 'e) Transport \<Rightarrow> ('c, 'o, 'r, 'g) Job list \<Rightarrow> nat \<Rightarrow> bool \<Rightarrow> 'w
      \<Rightarrow> ('c, 'o, 'r, 'g) Job list \<times> nat \<times> bool \<times> 'w" where
  "retire_jobs t [] amount progressed w = ([], amount, progressed, w)"
| "retire_jobs t (j # js) amount progressed w =
     (if finished j
      then retire_jobs t js (amount - job_bytes j) True (complete t w (signal j) (Inr ()))
      else (j # js, amount, progressed, w))"

text \<open>What a turn of the dispatch loops does next: go on, return from \<open>advance\<close>, or fail.\<close>

datatype 'e Verdict = Continue | Stop | Abort 'e

text \<open>The dispatch loop of one job.\<close>

function dispatch_job ::
    "('w, 'c, 'o, 'r, 'g, 'e) Transport \<Rightarrow> ('c, 'o, 'r, 'g) Job \<Rightarrow> nat \<Rightarrow> bool \<Rightarrow> 'w
      \<Rightarrow> 'e Verdict \<times> ('c, 'o, 'r, 'g) Job \<times> nat \<times> bool \<times> 'w" where
  "dispatch_job t j in_flight progressed w =
     (if next_chunk j < length (chunks j) then
        (let chunk = chunks j ! next_chunk j in
         if in_flight = MAX_NATIVE_IN_FLIGHT \<or> in_flight \<noteq> 0 \<and> requires_idle t chunk
         then (Stop, j, in_flight, progressed, w)
         else case ready t w chunk of
           (Inl e, w') \<Rightarrow> (Abort e, j, in_flight, progressed, w')
         | (Inr False, w') \<Rightarrow> (Stop, j, in_flight, progressed, w')
         | (Inr True, w') \<Rightarrow>
             case submit t w' (owner j) chunk of
               (Inr receipt, w'') \<Rightarrow>
                 dispatch_job t (j\<lparr>receipts := receipts j @ [receipt], next_chunk := Suc (next_chunk j)\<rparr>)
                   (Suc in_flight) True w''
             | (Inl DispatchBusy, w'') \<Rightarrow> (Stop, j, in_flight, progressed, w'')
             | (Inl (DispatchFailed e), w'') \<Rightarrow> (Abort e, j, in_flight, progressed, w''))
      else (Continue, j, in_flight, progressed, w))"
  by pat_completeness auto

termination
  by (relation "measure (\<lambda>(t, j, in_flight, progressed, w). length (chunks j) - next_chunk j)") auto

declare dispatch_job.simps [simp del]

fun dispatch_jobs ::
    "('w, 'c, 'o, 'r, 'g, 'e) Transport \<Rightarrow> ('c, 'o, 'r, 'g) Job list \<Rightarrow> nat \<Rightarrow> bool \<Rightarrow> 'w
      \<Rightarrow> 'e Verdict \<times> ('c, 'o, 'r, 'g) Job list \<times> bool \<times> 'w" where
  "dispatch_jobs t [] in_flight progressed w = (Continue, [], progressed, w)"
| "dispatch_jobs t (j # js) in_flight progressed w =
     (case dispatch_job t j in_flight progressed w of
        (Continue, j', n, p, w') \<Rightarrow>
          (case dispatch_jobs t js n p w' of (v, js', p', w'') \<Rightarrow> (v, j' # js', p', w''))
      | (v, j', n, p, w') \<Rightarrow> (v, j' # js, p, w'))"

definition advance ::
    "('w, 'c, 'o, 'r, 'g, 'e) Transport \<Rightarrow> ('c, 'o, 'r, 'g, 'e) Scheduler \<Rightarrow> 'w
      \<Rightarrow> bool \<times> ('c, 'o, 'r, 'g, 'e) Scheduler \<times> 'w" where
  "advance t s w =
     (case poll_jobs t (jobs s) False w of
        (Inl e, w1) \<Rightarrow> (True, fail t e s w1)
      | (Inr (js, p), w1) \<Rightarrow>
          case retire_jobs t js (pending_bytes s) p w1 of (js2, amount, p2, w2) \<Rightarrow>
            case dispatch_jobs t js2 (length (all_receipts js2)) p2 w2 of
              (Abort e, js3, p3, w3) \<Rightarrow>
                (True, fail t e (s\<lparr>jobs := js3, pending_bytes := amount\<rparr>) w3)
            | (_, js3, p3, w3) \<Rightarrow> (p3, s\<lparr>jobs := js3, pending_bytes := amount\<rparr>, w3))"

end
