(* ===== verification/Scheduler_Props.thy ===== *)
theory Scheduler_Props
  imports Scheduler "HOL-Library.Multiset"
begin

text \<open>
  What the scheduler does, as a log of events. \<open>logged t\<close> is the transport \<open>t\<close> that also records
  the chunks it accepted, the receipts it reported finished and the signals it completed; it answers
  as \<open>t\<close> does. \<open>micro\<close> is the abstract machine of the queue: one event per step. The lemmas show that
  \<open>advance\<close> is a sequence of such steps, followed by the completion of all jobs with the error when
  the transport failed.
\<close>

section \<open>The log\<close>

datatype ('c, 'r, 'g, 'e) event = Submitted 'c 'r | Retired 'r | Completed 'g "'e + unit"

definition logged ::
    "('w, 'c, 'o, 'r, 'g, 'e) Transport
      \<Rightarrow> ('w \<times> ('c, 'r, 'g, 'e) event list, 'c, 'o, 'r, 'g, 'e) Transport" where
  "logged t =
     \<lparr>chunk_size = chunk_size t, requires_idle = requires_idle t,
      ready = (\<lambda>(w, l) c. case ready t w c of (x, w') \<Rightarrow> (x, (w', l))),
      submit = (\<lambda>(w, l) own c. case submit t w own c of
          (Inr r, w') \<Rightarrow> (Inr r, (w', l @ [Submitted c r])) | (Inl e, w') \<Rightarrow> (Inl e, (w', l))),
      poll = (\<lambda>(w, l) r. case poll t w r of
          (x, w') \<Rightarrow> (x, (w', if x = Inr True then l @ [Retired r] else l))),
      complete = (\<lambda>(w, l) g x. (complete t w g x, l @ [Completed g x]))\<rparr>"

lemma logged_simps [simp]:
  "chunk_size (logged t) = chunk_size t"
  "requires_idle (logged t) = requires_idle t"
  "ready (logged t) (w, l) c = (fst (ready t w c), (snd (ready t w c), l))"
  "submit (logged t) (w, l) own c =
     (fst (submit t w own c), (snd (submit t w own c),
        case fst (submit t w own c) of Inr r \<Rightarrow> l @ [Submitted c r] | Inl e \<Rightarrow> l))"
  "poll (logged t) (w, l) r =
     (fst (poll t w r), (snd (poll t w r), if fst (poll t w r) = Inr True then l @ [Retired r] else l))"
  "complete (logged t) (w, l) g x = (complete t w g x, l @ [Completed g x])"
  by (simp_all add: logged_def split: prod.splits sum.splits)

section \<open>The abstract queue\<close>

type_synonym ('c, 'o, 'r, 'g, 'e) trace = "('c, 'o, 'r, 'g) Job list \<times> ('c, 'r, 'g, 'e) event list"

definition dispatched :: "('c, 'o, 'r, 'g) Job \<Rightarrow> bool" where
  "dispatched j \<longleftrightarrow> next_chunk j = length (chunks j)"

inductive micro :: "('c \<Rightarrow> bool) \<Rightarrow> ('c, 'o, 'r, 'g, 'e) trace \<Rightarrow> ('c, 'o, 'r, 'g, 'e) trace \<Rightarrow> bool"
  for idle where
  send: "list_all dispatched xs \<Longrightarrow> next_chunk j < length (chunks j)
    \<Longrightarrow> length (all_receipts (xs @ j # ys)) < MAX_NATIVE_IN_FLIGHT
    \<Longrightarrow> (idle (chunks j ! next_chunk j) \<Longrightarrow> all_receipts (xs @ j # ys) = [])
    \<Longrightarrow> micro idle (xs @ j # ys, l)
          (xs @ j\<lparr>receipts := receipts j @ [r], next_chunk := Suc (next_chunk j)\<rparr> # ys,
           l @ [Submitted (chunks j ! next_chunk j) r])"
| settle: "receipts j = as @ r # bs
    \<Longrightarrow> micro idle (xs @ j # ys, l) (xs @ j\<lparr>receipts := as @ bs\<rparr> # ys, l @ [Retired r])"
| finish: "finished j \<Longrightarrow> micro idle (j # js, l) (js, l @ [Completed (signal j) (Inr ())])"

abbreviation micros where "micros idle \<equiv> (micro idle)\<^sup>*\<^sup>*"

lemma micros_trans: "micros idle a b \<Longrightarrow> micros idle b c \<Longrightarrow> micros idle a c"
  by (rule rtranclp_trans)

section \<open>Polling\<close>

lemma poll_receipts_micros:
  fixes t :: "('w, 'c, 'o, 'r, 'g, 'e) Transport" and xs ys :: "('c, 'o, 'r, 'g) Job list"
  assumes "poll_receipts (logged t) index rs p (w, l) = (res, (w', l'))" "receipts j = rs"
  shows "\<exists>rs'. micros (requires_idle t) (xs @ j # ys, l) (xs @ j\<lparr>receipts := rs'\<rparr> # ys, l')
    \<and> (\<forall>q. res = Inr q \<longrightarrow> fst q = rs')"
  using assms
proof (induction "length rs - index" arbitrary: index rs p w l j rule: less_induct)
  case less
  note run = less.prems(1)[unfolded poll_receipts.simps[of "logged t" index rs p]]
  show ?case
  proof (cases "index < length rs")
    case False
    with run less.prems(2) have "j\<lparr>receipts := rs\<rparr> = j" "l' = l" "res = Inr (rs, p)" by auto
    then show ?thesis by (intro exI[of _ rs]) auto
  next
    case True
    obtain x v where poll: "poll t w (rs ! index) = (x, v)" by (cases "poll t w (rs ! index)")
    show ?thesis
    proof (cases x)
      case (Inl e)
      with run True poll less.prems(2) have "l' = l" "res = Inl e" "j\<lparr>receipts := rs\<rparr> = j" by auto
      then show ?thesis by (intro exI[of _ rs]) auto
    next
      case (Inr d)
      show ?thesis
      proof (cases d)
        case True': True
        let ?rs = "take index rs @ drop (Suc index) rs"
        have rec: "poll_receipts (logged t) index ?rs True (v, l @ [Retired (rs ! index)]) = (res, (w', l'))"
          using run True poll Inr True' by simp
        have "receipts j = take index rs @ rs ! index # drop (Suc index) rs"
          using less.prems(2) True by (simp add: id_take_nth_drop)
        then have "micro (requires_idle t) (xs @ j # ys, l)
            (xs @ j\<lparr>receipts := ?rs\<rparr> # ys, l @ [Retired (rs ! index)])" by (rule settle)
        moreover have "\<exists>rs'. micros (requires_idle t)
            (xs @ j\<lparr>receipts := ?rs\<rparr> # ys, l @ [Retired (rs ! index)])
            (xs @ j\<lparr>receipts := ?rs, receipts := rs'\<rparr> # ys, l') \<and> (\<forall>q. res = Inr q \<longrightarrow> fst q = rs')"
          by (rule less.hyps[OF _ rec]) (use True in auto)
        ultimately show ?thesis by (auto intro: converse_rtranclp_into_rtranclp)
      next
        case False
        have rec: "poll_receipts (logged t) (Suc index) rs p (v, l) = (res, (w', l'))"
          using run True poll Inr False by simp
        show ?thesis
          by (rule less.hyps[OF _ rec]) (use True less.prems(2) in auto)
      qed
    qed
  qed
qed


lemma receipts_id: "j\<lparr>receipts := receipts j\<rparr> = j"
  by simp

lemma poll_jobs_micros:
  fixes t :: "('w, 'c, 'o, 'r, 'g, 'e) Transport" and xs js :: "('c, 'o, 'r, 'g) Job list"
  assumes "poll_jobs (logged t) js p (w, l) = (res, (w', l'))"
  shows "\<exists>js'. micros (requires_idle t) (xs @ js, l) (xs @ js', l')
    \<and> map signal js' = map signal js \<and> map job_bytes js' = map job_bytes js
    \<and> (\<forall>q. res = Inr q \<longrightarrow> fst q = js')"
  using assms
proof (induction js arbitrary: xs p w l res w' l')
  case Nil
  then show ?case by (intro exI[of _ "[]"]) auto
next
  case (Cons j js)
  obtain res1 w1 l1 where first: "poll_receipts (logged t) 0 (receipts j) p (w, l) = (res1, (w1, l1))"
    by (metis surj_pair)
  obtain rs where rs: "micros (requires_idle t) (xs @ j # js, l) (xs @ j\<lparr>receipts := rs\<rparr> # js, l1)"
    "\<And>q. res1 = Inr q \<Longrightarrow> fst q = rs"
    using poll_receipts_micros[OF first refl] by blast
  show ?case
  proof (cases res1)
    case (Inl e)
    then have "res = Inl e" "l' = l1" using Cons.prems first by simp_all
    then show ?thesis using rs(1) by (intro exI[of _ "j\<lparr>receipts := rs\<rparr> # js"]) auto
  next
    case (Inr q)
    obtain p1 where q: "res1 = Inr (rs, p1)" using Inr rs(2)[of q] by (cases q) auto
    obtain res2 w2 l2 where rest: "poll_jobs (logged t) js p1 (w1, l1) = (res2, (w2, l2))"
      by (metis surj_pair)
    obtain js' where js': "micros (requires_idle t) ((xs @ [j\<lparr>receipts := rs\<rparr>]) @ js, l1)
        ((xs @ [j\<lparr>receipts := rs\<rparr>]) @ js', l2)"
      "map signal js' = map signal js" "map job_bytes js' = map job_bytes js"
      "\<And>q. res2 = Inr q \<Longrightarrow> fst q = js'"
      using Cons.IH[OF rest, of "xs @ [j\<lparr>receipts := rs\<rparr>]"] by blast
    have "micros (requires_idle t) (xs @ j # js, l) (xs @ j\<lparr>receipts := rs\<rparr> # js', l2)"
      using micros_trans[OF rs(1)] js'(1) by simp
    moreover have "l' = l2" "\<forall>q. res = Inr q \<longrightarrow> fst q = j\<lparr>receipts := rs\<rparr> # js'"
      using Cons.prems first q rest js'(4) by (auto split: sum.splits)
    ultimately show ?thesis
      using js'(2,3) by (intro exI[of _ "j\<lparr>receipts := rs\<rparr> # js'"]) auto
  qed
qed

section \<open>Retiring\<close>

lemma retire_jobs_micros:
  fixes t :: "('w, 'c, 'o, 'r, 'g, 'e) Transport" and js :: "('c, 'o, 'r, 'g) Job list"
  assumes "retire_jobs (logged t) js n p (w, l) = (js', n', p', (w', l'))"
    and "n = sum_list (map job_bytes js)"
  shows "micros (requires_idle t) (js, l) (js', l') \<and> n' = sum_list (map job_bytes js')"
  using assms
proof (induction js arbitrary: n p w l)
  case Nil
  then show ?case by auto
next
  case (Cons j js)
  show ?case
  proof (cases "finished j")
    case True
    then have "micro (requires_idle t) (j # js, l) (js, l @ [Completed (signal j) (Inr ())])"
      by (rule finish)
    moreover have "micros (requires_idle t) (js, l @ [Completed (signal j) (Inr ())]) (js', l')
        \<and> n' = sum_list (map job_bytes js')"
      using Cons.prems True by (intro Cons.IH) auto
    ultimately show ?thesis by (auto intro: converse_rtranclp_into_rtranclp)
  next
    case False
    then show ?thesis using Cons.prems by auto
  qed
qed

section \<open>Dispatching\<close>

lemma all_receipts_simps [simp]:
  "all_receipts [] = []"
  "all_receipts (j # js) = receipts j @ all_receipts js"
  "all_receipts (xs @ ys) = all_receipts xs @ all_receipts ys"
  by (simp_all add: all_receipts_def)

lemma dispatch_job_micros:
  fixes t :: "('w, 'c, 'o, 'r, 'g, 'e) Transport" and xs ys :: "('c, 'o, 'r, 'g) Job list"
  assumes "dispatch_job (logged t) j n p (w, l) = (v, j', n', p', (w', l'))"
    and "list_all dispatched xs" "next_chunk j \<le> length (chunks j)"
    and "n = length (all_receipts (xs @ j # ys))" "n \<le> MAX_NATIVE_IN_FLIGHT"
  shows "micros (requires_idle t) (xs @ j # ys, l) (xs @ j' # ys, l')
    \<and> n' = length (all_receipts (xs @ j' # ys)) \<and> n' \<le> MAX_NATIVE_IN_FLIGHT
    \<and> (v = Continue \<longrightarrow> dispatched j')
    \<and> signal j' = signal j \<and> job_bytes j' = job_bytes j"
  using assms
proof (induction "length (chunks j) - next_chunk j" arbitrary: j n p w l rule: less_induct)
  case less
  note run = less.prems(1)[unfolded dispatch_job.simps[of "logged t" j n p]]
  let ?c = "chunks j ! next_chunk j"
  let ?blocked = "n = MAX_NATIVE_IN_FLIGHT \<or> n \<noteq> 0 \<and> requires_idle t ?c"
  show ?case
  proof (cases "next_chunk j < length (chunks j) \<and> \<not> ?blocked")
    case False
    then have "j' = j" "n' = n" "l' = l" "v = Continue \<Longrightarrow> dispatched j"
      using run less.prems(3) by (auto simp: dispatched_def split: if_splits)
    then show ?thesis using less.prems by auto
  next
    case True
    obtain x w1 where rdy: "ready t w ?c = (x, w1)" by (metis surj_pair)
    show ?thesis
    proof (cases "x = Inr True")
      case False
      then have "j' = j" "n' = n" "l' = l" "v \<noteq> Continue"
        using run True rdy by (auto simp: Let_def split: sum.splits bool.splits)
      then show ?thesis using less.prems by auto
    next
      case ok: True
      obtain y w2 where sub: "submit t w1 (owner j) ?c = (y, w2)" by (metis surj_pair)
      show ?thesis
      proof (cases y)
        case (Inl e)
        then have "j' = j" "n' = n" "l' = l" "v \<noteq> Continue"
          using run True rdy ok sub by (auto simp: Let_def split: DispatchError.splits)
        then show ?thesis using less.prems by auto
      next
        case (Inr r)
        let ?j = "j\<lparr>receipts := receipts j @ [r], next_chunk := Suc (next_chunk j)\<rparr>"
        have rec: "dispatch_job (logged t) ?j (Suc n) True (w2, l @ [Submitted ?c r])
            = (v, j', n', p', (w', l'))"
          using run True rdy ok sub Inr by (auto simp: Let_def split: if_splits)
        have "micro (requires_idle t) (xs @ j # ys, l) (xs @ ?j # ys, l @ [Submitted ?c r])"
          using True less.prems(2,4,5) by (intro send) auto
        moreover have "micros (requires_idle t) (xs @ ?j # ys, l @ [Submitted ?c r]) (xs @ j' # ys, l')
            \<and> n' = length (all_receipts (xs @ j' # ys)) \<and> n' \<le> MAX_NATIVE_IN_FLIGHT
            \<and> (v = Continue \<longrightarrow> dispatched j')
            \<and> signal j' = signal ?j \<and> job_bytes j' = job_bytes ?j"
          by (rule less.hyps[OF _ rec less.prems(2)]) (use True less.prems(4,5) in auto)
        ultimately show ?thesis by (auto intro: converse_rtranclp_into_rtranclp)
      qed
    qed
  qed
qed

lemma dispatch_jobs_micros:
  fixes t :: "('w, 'c, 'o, 'r, 'g, 'e) Transport" and xs js :: "('c, 'o, 'r, 'g) Job list"
  assumes "dispatch_jobs (logged t) js n p (w, l) = (v, js', p', (w', l'))"
    and "list_all dispatched xs" "list_all (\<lambda>j. next_chunk j \<le> length (chunks j)) js"
    and "n = length (all_receipts (xs @ js))" "n \<le> MAX_NATIVE_IN_FLIGHT"
  shows "micros (requires_idle t) (xs @ js, l) (xs @ js', l')
    \<and> map signal js' = map signal js \<and> map job_bytes js' = map job_bytes js"
  using assms
proof (induction js arbitrary: xs n p w l v js' p' w' l')
  case Nil
  then show ?case by auto
next
  case (Cons j js)
  obtain v1 j1 n1 p1 w1 l1 where first:
    "dispatch_job (logged t) j n p (w, l) = (v1, j1, n1, p1, (w1, l1))" by (metis surj_pair)
  have step: "micros (requires_idle t) (xs @ j # js, l) (xs @ j1 # js, l1)"
    "n1 = length (all_receipts (xs @ j1 # js))" "n1 \<le> MAX_NATIVE_IN_FLIGHT"
    "v1 = Continue \<Longrightarrow> dispatched j1" "signal j1 = signal j" "job_bytes j1 = job_bytes j"
    using dispatch_job_micros[OF first Cons.prems(2) _ Cons.prems(4,5)] Cons.prems(3) by auto
  show ?case
  proof (cases "v1 = Continue")
    case False
    then have "js' = j1 # js" "l' = l1" using Cons.prems(1) first by (auto split: Verdict.splits)
    then show ?thesis using step by auto
  next
    case True
    obtain v2 js2 p2 w2 l2 where rest:
      "dispatch_jobs (logged t) js n1 p1 (w1, l1) = (v2, js2, p2, (w2, l2))" by (metis surj_pair)
    have "micros (requires_idle t) ((xs @ [j1]) @ js, l1) ((xs @ [j1]) @ js2, l2)
        \<and> map signal js2 = map signal js \<and> map job_bytes js2 = map job_bytes js"
      by (rule Cons.IH[OF rest]) (use Cons.prems(2,3) step True in auto)
    moreover have "js' = j1 # js2" "l' = l2" using Cons.prems(1) first True rest by auto
    ultimately show ?thesis using step micros_trans[OF step(1)] by auto
  qed
qed


section \<open>A whole turn\<close>

definition in_bounds :: "('c, 'o, 'r, 'g) Job list \<Rightarrow> bool" where
  "in_bounds js \<longleftrightarrow>
     list_all (\<lambda>j. next_chunk j \<le> length (chunks j)) js
     \<and> length (all_receipts js) \<le> MAX_NATIVE_IN_FLIGHT"

lemma micro_in_bounds: "micro idle a b \<Longrightarrow> in_bounds (fst a) \<Longrightarrow> in_bounds (fst b)"
  by (induction rule: micro.induct) (auto simp: in_bounds_def)

lemma micros_in_bounds: "micros idle a b \<Longrightarrow> in_bounds (fst a) \<Longrightarrow> in_bounds (fst b)"
  by (induction rule: rtranclp_induct) (auto intro: micro_in_bounds)

lemma complete_all_logged:
  "snd (complete_all (logged t) js e (w, l)) = l @ map (\<lambda>j. Completed (signal j) (Inl e)) js"
  by (induction js arbitrary: w l) auto

lemma fail_logged:
  assumes "fail (logged t) e s (w, l) = (s', (w', l'))"
  shows "s' = s\<lparr>failure := Some e, jobs := [], pending_bytes := 0\<rparr>"
    and "l' = l @ map (\<lambda>j. Completed (signal j) (Inl e)) (jobs s)"
  using assms complete_all_logged[of t "jobs s" e w l] by (auto simp: fail_def)

lemma advance_micros:
  fixes t :: "('w, 'c, 'o, 'r, 'g, 'e) Transport"
  assumes "advance (logged t) s (w, l) = (p, s', (w', l'))"
    and "in_bounds (jobs s)" "pending_bytes s = sum_list (map job_bytes (jobs s))"
  shows "\<exists>js l1. micros (requires_idle t) (jobs s, l) (js, l1)
    \<and> ((s' = s\<lparr>jobs := js, pending_bytes := sum_list (map job_bytes js)\<rparr> \<and> l' = l1)
      \<or> (\<exists>e. s' = s\<lparr>failure := Some e, jobs := [], pending_bytes := 0\<rparr>
            \<and> l' = l1 @ map (\<lambda>j. Completed (signal j) (Inl e)) js))"
proof -
  obtain res w1 l1 where polled: "poll_jobs (logged t) (jobs s) False (w, l) = (res, (w1, l1))"
    by (metis surj_pair)
  obtain js1 where js1: "micros (requires_idle t) (jobs s, l) (js1, l1)"
    "map signal js1 = map signal (jobs s)" "map job_bytes js1 = map job_bytes (jobs s)"
    "\<And>q. res = Inr q \<Longrightarrow> fst q = js1"
    using poll_jobs_micros[OF polled, of "[]"] by auto
  have same: "map (\<lambda>j. Completed (signal j) (Inl e)) js = map (\<lambda>j. Completed (signal j) (Inl e)) js'"
    if "map signal js = map signal js'" for e :: 'e and js js' :: "('c, 'o, 'r, 'g) Job list"
    using arg_cong[OF that, of "map (\<lambda>g. Completed g (Inl e))"] by (simp add: comp_def)
  show ?thesis
  proof (cases res)
    case (Inl e)
    then have f: "fail (logged t) e s (w1, l1) = (s', (w', l'))"
      using assms(1) polled by (auto simp: advance_def)
    from fail_logged[OF f] js1(1) same[OF js1(2)[symmetric]] show ?thesis by metis
  next
    case (Inr q)
    then obtain p1 where q: "res = Inr (js1, p1)" using js1(4)[of q] by (cases q) auto
    obtain js2 n2 p2 w2 l2 where retired:
      "retire_jobs (logged t) js1 (pending_bytes s) p1 (w1, l1) = (js2, n2, p2, (w2, l2))"
      by (metis surj_pair)
    have js2: "micros (requires_idle t) (js1, l1) (js2, l2)" "n2 = sum_list (map job_bytes js2)"
      using retire_jobs_micros[OF retired] assms(3) js1(3) by auto
    have upto2: "micros (requires_idle t) (jobs s, l) (js2, l2)"
      using js1(1) js2(1) by (rule micros_trans)
    then have bounds: "in_bounds js2" using micros_in_bounds assms(2) by fastforce
    obtain v js3 p3 w3 l3 where sent:
      "dispatch_jobs (logged t) js2 (length (all_receipts js2)) p2 (w2, l2) = (v, js3, p3, (w3, l3))"
      by (metis surj_pair)
    have js3: "micros (requires_idle t) (js2, l2) (js3, l3)" "map job_bytes js3 = map job_bytes js2"
      using dispatch_jobs_micros[OF sent, of "[]"] bounds by (auto simp: in_bounds_def)
    have upto3: "micros (requires_idle t) (jobs s, l) (js3, l3)"
      using upto2 js3(1) by (rule micros_trans)
    show ?thesis
    proof (cases "\<exists>e. v = Abort e")
      case True
      then obtain e where "fail (logged t) e (s\<lparr>jobs := js3, pending_bytes := n2\<rparr>) (w3, l3) = (s', (w', l'))"
        using assms(1) polled q retired sent by (auto simp: advance_def)
      from fail_logged[OF this] upto3 show ?thesis by auto
    next
      case False
      then have "s' = s\<lparr>jobs := js3, pending_bytes := n2\<rparr>" "l' = l3"
        using assms(1) polled q retired sent by (auto simp: advance_def split: Verdict.splits)
      then show ?thesis using upto3 js2(2) js3(2) by metis
    qed
  qed
qed

section \<open>The queue and its history\<close>

definition sent :: "('c, 'r, 'g, 'e) event list \<Rightarrow> ('c \<times> 'r) list" where
  "sent l = concat (map (\<lambda>x. case x of Submitted c r \<Rightarrow> [(c, r)] | _ \<Rightarrow> []) l)"

definition retired :: "('c, 'r, 'g, 'e) event list \<Rightarrow> 'r list" where
  "retired l = concat (map (\<lambda>x. case x of Retired r \<Rightarrow> [r] | _ \<Rightarrow> []) l)"

definition completions :: "('c, 'r, 'g, 'e) event list \<Rightarrow> ('g \<times> ('e + unit)) list" where
  "completions l = concat (map (\<lambda>x. case x of Completed g y \<Rightarrow> [(g, y)] | _ \<Rightarrow> []) l)"

lemma log_simps [simp]:
  "sent [] = []" "sent (l @ m) = sent l @ sent m" "sent [Submitted c r] = [(c, r)]"
  "sent [Retired r] = []" "sent [Completed g y] = []"
  "retired [] = []" "retired (l @ m) = retired l @ retired m" "retired [Submitted c r] = []"
  "retired [Retired r] = [r]" "retired [Completed g y] = []"
  "completions [] = []" "completions (l @ m) = completions l @ completions m"
  "completions [Submitted c r] = []" "completions [Retired r] = []" "completions [Completed g y] = [(g, y)]"
  by (simp_all add: sent_def retired_def completions_def)

text \<open>The chunks of earlier jobs are dispatched before those of later ones.\<close>

fun ordered :: "('c, 'o, 'r, 'g) Job list \<Rightarrow> bool" where
  "ordered [] = True"
| "ordered (j # js) = ((dispatched j \<or> list_all (\<lambda>i. next_chunk i = 0) js) \<and> ordered js)"

type_synonym ('c, 'g) admitted = "('c list \<times> 'g) list"

definition chunk_count :: "('c, 'g) admitted \<Rightarrow> nat" where
  "chunk_count A = sum_list (map (length \<circ> fst) A)"

text \<open>
  After \<open>k\<close> of the admitted jobs have been completed: the receipts of the chunks sent fall into those
  of completed jobs and one group per queued job, of which the receipts still in flight are a part.
\<close>

definition queue_inv ::
    "('c, 'g) admitted \<Rightarrow> nat \<Rightarrow> ('c, 'o, 'r, 'g) Job list \<Rightarrow> ('c, 'r, 'g, 'e) event list \<Rightarrow> bool" where
  "queue_inv A k js l \<longleftrightarrow>
     k \<le> length A \<and> map (\<lambda>j. (chunks j, signal j)) js = drop k A
     \<and> completions l = map (\<lambda>(cs, g). (g, Inr ())) (take k A)
     \<and> in_bounds js \<and> ordered js
     \<and> map fst (sent l) = concat (map fst (take k A)) @ concat (map (\<lambda>j. take (next_chunk j) (chunks j)) js)
     \<and> mset (retired l) + mset (all_receipts js) = mset (map snd (sent l))
     \<and> (\<exists>done groups. map snd (sent l) = done @ concat groups \<and> length done = chunk_count (take k A)
          \<and> list_all2 (\<lambda>j rs. length rs = next_chunk j \<and> mset (receipts j) \<subseteq># mset rs) js groups)"

text \<open>What every moment of the history satisfies.\<close>

definition submit_ok :: "('c \<Rightarrow> bool) \<Rightarrow> 'c \<Rightarrow> ('c, 'r, 'g, 'e) event list \<Rightarrow> bool" where
  "submit_ok idle c l \<longleftrightarrow>
     length (sent l) < length (retired l) + MAX_NATIVE_IN_FLIGHT
     \<and> (idle c \<longrightarrow> mset (map snd (sent l)) = mset (retired l))"

definition complete_ok :: "('c, 'g) admitted \<Rightarrow> ('c, 'r, 'g, 'e) event list \<Rightarrow> bool" where
  "complete_ok A l \<longleftrightarrow>
     (let n = chunk_count (take (Suc (length (completions l))) A)
      in n \<le> length (sent l) \<and> mset (take n (map snd (sent l))) \<subseteq># mset (retired l))"

fun moment_ok ::
    "('c \<Rightarrow> bool) \<Rightarrow> ('c, 'g) admitted \<Rightarrow> ('c, 'r, 'g, 'e) event list \<Rightarrow> ('c, 'r, 'g, 'e) event \<Rightarrow> bool" where
  "moment_ok idle A l (Submitted c r) = submit_ok idle c l"
| "moment_ok idle A l (Retired r) = True"
| "moment_ok idle A l (Completed g (Inl e)) = True"
| "moment_ok idle A l (Completed g (Inr u)) = (length (completions l) < length A \<and> complete_ok A l)"

definition history_ok :: "('c \<Rightarrow> bool) \<Rightarrow> ('c, 'g) admitted \<Rightarrow> ('c, 'r, 'g, 'e) event list \<Rightarrow> bool" where
  "history_ok idle A l \<longleftrightarrow>
     (\<forall>before x after. l = before @ x # after \<longrightarrow> moment_ok idle A before x)"

lemma ordered_append:
  "list_all dispatched xs \<Longrightarrow> ordered (xs @ ys) \<longleftrightarrow> ordered ys"
  by (induction xs) auto

lemma ordered_settle: "ordered (xs @ j # ys) \<Longrightarrow> ordered (xs @ j\<lparr>receipts := rs\<rparr> # ys)"
  by (induction xs) (auto simp: dispatched_def)

lemma take_settle:
  "concat (map (\<lambda>j. take (next_chunk j) (chunks j)) (xs @ j\<lparr>receipts := rs\<rparr> # ys))
    = concat (map (\<lambda>j. take (next_chunk j) (chunks j)) (xs @ j # ys))"
  by simp

lemma every_moment_snoc:
  "(\<forall>before y after. l @ [x] = before @ y # after \<longrightarrow> Q before y)
    \<longleftrightarrow> (\<forall>before y after. l = before @ y # after \<longrightarrow> Q before y) \<and> Q l x"
proof -
  have split: "l @ [x] = before @ y # after \<longleftrightarrow>
      after = [] \<and> before = l \<and> y = x \<or> (\<exists>rest. after = rest @ [x] \<and> l = before @ y # rest)"
    for before after y
    by (cases after rule: rev_cases) auto
  show ?thesis unfolding split by blast
qed

lemma history_snoc: "history_ok idle A (l @ [x]) \<longleftrightarrow> history_ok idle A l \<and> moment_ok idle A l x"
  unfolding history_ok_def by (rule every_moment_snoc)

lemma history_append_failures:
  "history_ok idle A l \<Longrightarrow> history_ok idle A (l @ map (\<lambda>j. Completed (signal j) (Inl e)) js)"
proof (induction js rule: rev_induct)
  case (snoc j js)
  then show ?case by (simp add: history_snoc flip: append_assoc)
qed simp

lemma groups_receipts:
  "list_all2 (\<lambda>j rs. length rs = next_chunk j \<and> mset (receipts j) \<subseteq># mset rs) js groups
    \<Longrightarrow> mset (all_receipts js) \<subseteq># mset (concat groups)"
  by (induction rule: list_all2_induct) (auto intro: subset_mset.add_mono)

lemma groups_empty:
  "list_all2 (\<lambda>j rs. length rs = next_chunk j \<and> mset (receipts j) \<subseteq># mset rs) js groups
    \<Longrightarrow> list_all (\<lambda>i. next_chunk i = 0) js \<Longrightarrow> concat groups = []"
  by (induction rule: list_all2_induct) auto

lemma taken_empty:
  "list_all (\<lambda>i. next_chunk i = 0) js \<Longrightarrow> concat (map (\<lambda>j. take (next_chunk j) (chunks j)) js) = []"
  by (induction js) auto

lemma in_flight_length:
  assumes "queue_inv A k js l"
  shows "length (sent l) = length (retired l) + length (all_receipts js)"
proof -
  have "size (mset (retired l) + mset (all_receipts js)) = size (mset (map snd (sent l)))"
    using assms by (simp add: queue_inv_def)
  then show ?thesis by simp
qed

lemma send_inv:
  assumes inv: "queue_inv A k (xs @ j # ys) l" and xs: "list_all dispatched xs"
    and more: "next_chunk j < length (chunks j)"
    and room: "length (all_receipts (xs @ j # ys)) < MAX_NATIVE_IN_FLIGHT"
  shows "queue_inv A k (xs @ j\<lparr>receipts := receipts j @ [r], next_chunk := Suc (next_chunk j)\<rparr> # ys)
    (l @ [Submitted (chunks j ! next_chunk j) r])"
proof -
  let ?j = "j\<lparr>receipts := receipts j @ [r], next_chunk := Suc (next_chunk j)\<rparr>"
  have ord: "ordered (j # ys)" using inv xs by (simp add: queue_inv_def ordered_append)
  with more have rest: "list_all (\<lambda>i. next_chunk i = 0) ys" by (auto simp: dispatched_def)
  obtain don groups where g: "map snd (sent l) = don @ concat groups" "length don = chunk_count (take k A)"
    "list_all2 (\<lambda>j rs. length rs = next_chunk j \<and> mset (receipts j) \<subseteq># mset rs) (xs @ j # ys) groups"
    using inv by (auto simp: queue_inv_def)
  from g(3) obtain gx gj gy where split: "groups = gx @ gj # gy"
    "list_all2 (\<lambda>j rs. length rs = next_chunk j \<and> mset (receipts j) \<subseteq># mset rs) xs gx"
    "length gj = next_chunk j" "mset (receipts j) \<subseteq># mset gj"
    "list_all2 (\<lambda>j rs. length rs = next_chunk j \<and> mset (receipts j) \<subseteq># mset rs) ys gy"
    by (auto simp: list_all2_append1 list_all2_Cons1)
  have gy: "concat gy = []" using groups_empty[OF split(5) rest] .
  have groups: "map snd (sent (l @ [Submitted (chunks j ! next_chunk j) r])) = don @ concat (gx @ (gj @ [r]) # gy)"
    using g(1) split(1) gy by simp
  have all: "list_all2 (\<lambda>j rs. length rs = next_chunk j \<and> mset (receipts j) \<subseteq># mset rs)
      (xs @ ?j # ys) (gx @ (gj @ [r]) # gy)"
    using split by (auto intro!: list_all2_appendI)
  have firsts: "map fst (sent (l @ [Submitted (chunks j ! next_chunk j) r])) = concat (map fst (take k A))
      @ concat (map (\<lambda>j. take (next_chunk j) (chunks j)) (xs @ ?j # ys))"
    using inv more taken_empty[OF rest] by (simp add: queue_inv_def take_Suc_conv_app_nth)
  have balance: "mset (retired (l @ [Submitted (chunks j ! next_chunk j) r])) + mset (all_receipts (xs @ ?j # ys))
      = mset (map snd (sent (l @ [Submitted (chunks j ! next_chunk j) r])))"
    using inv by (simp add: queue_inv_def)
  have "ordered (xs @ ?j # ys)" using ord rest xs by (simp add: ordered_append)
  moreover have "in_bounds (xs @ ?j # ys)" using inv more room by (auto simp: queue_inv_def in_bounds_def)
  moreover have "map (\<lambda>j. (chunks j, signal j)) (xs @ ?j # ys) = drop k A" "k \<le> length A"
    "completions (l @ [Submitted (chunks j ! next_chunk j) r]) = map (\<lambda>(cs, g). (g, Inr ())) (take k A)"
    using inv by (simp_all add: queue_inv_def)
  ultimately show ?thesis
    unfolding queue_inv_def using g(2) groups all firsts balance by blast
qed

lemma list_all2_replace_middle:
  assumes "list_all2 P (xs @ x # ys) zs" "\<And>z. P x z \<Longrightarrow> P x' z"
  shows "list_all2 P (xs @ x' # ys) zs"
proof -
  from assms(1) obtain us z vs where "zs = us @ z # vs" "list_all2 P xs us" "P x z" "list_all2 P ys vs"
    by (auto simp: list_all2_append1 list_all2_Cons1)
  then show ?thesis using assms(2) by (auto intro!: list_all2_appendI)
qed

lemma settle_inv:
  assumes inv: "queue_inv A k (xs @ j # ys) l" and rs: "receipts j = as @ r # bs"
  shows "queue_inv A k (xs @ j\<lparr>receipts := as @ bs\<rparr> # ys) (l @ [Retired r])"
proof -
  let ?j = "j\<lparr>receipts := as @ bs\<rparr>"
  obtain don groups where g: "map snd (sent l) = don @ concat groups" "length don = chunk_count (take k A)"
    "list_all2 (\<lambda>j rs. length rs = next_chunk j \<and> mset (receipts j) \<subseteq># mset rs) (xs @ j # ys) groups"
    using inv by (auto simp: queue_inv_def)
  have "mset (as @ bs) \<subseteq># mset rs" if "mset (receipts j) \<subseteq># mset rs" for rs
    using that rs subset_mset.order_trans[of "mset (as @ bs)" "mset (receipts j)" "mset rs"] by simp
  then have "list_all2 (\<lambda>j rs. length rs = next_chunk j \<and> mset (receipts j) \<subseteq># mset rs) (xs @ ?j # ys) groups"
    by (intro list_all2_replace_middle[OF g(3)]) simp_all
  moreover have "ordered (xs @ ?j # ys)" using inv ordered_settle by (auto simp: queue_inv_def)
  moreover have "in_bounds (xs @ ?j # ys)" using inv rs by (auto simp: queue_inv_def in_bounds_def)
  moreover have "map (\<lambda>j. (chunks j, signal j)) (xs @ ?j # ys) = drop k A" "k \<le> length A"
    "completions (l @ [Retired r]) = map (\<lambda>(cs, g). (g, Inr ())) (take k A)"
    "map fst (sent (l @ [Retired r])) = concat (map fst (take k A))
      @ concat (map (\<lambda>j. take (next_chunk j) (chunks j)) (xs @ ?j # ys))"
    "mset (retired (l @ [Retired r])) + mset (all_receipts (xs @ ?j # ys))
      = mset (map snd (sent (l @ [Retired r])))"
    using inv rs by (simp_all add: queue_inv_def)
  moreover have "map snd (sent (l @ [Retired r])) = don @ concat groups" using g(1) by simp
  ultimately show ?thesis
    unfolding queue_inv_def using g(2) by blast
qed

lemma finish_inv:
  assumes inv: "queue_inv A k (j # js) l" and fin: "finished j"
  shows "queue_inv A (Suc k) js (l @ [Completed (signal j) (Inr ())])"
    and "length (completions l) < length A \<and> complete_ok A l"
proof -
  obtain don groups where g: "map snd (sent l) = don @ concat groups" "length don = chunk_count (take k A)"
    "list_all2 (\<lambda>j rs. length rs = next_chunk j \<and> mset (receipts j) \<subseteq># mset rs) (j # js) groups"
    using inv by (auto simp: queue_inv_def)
  then obtain gj gs where gs: "groups = gj # gs" "length gj = next_chunk j"
    "list_all2 (\<lambda>j rs. length rs = next_chunk j \<and> mset (receipts j) \<subseteq># mset rs) js gs"
    by (auto simp: list_all2_Cons1)
  have head: "drop k A = (chunks j, signal j) # map (\<lambda>j. (chunks j, signal j)) js"
    using inv by (simp add: queue_inv_def)
  then have k: "k < length A" by (metis drop_all leI list.distinct(1))
  have nth: "A ! k = (chunks j, signal j)" "drop (Suc k) A = map (\<lambda>j. (chunks j, signal j)) js"
    using head k by (simp_all add: Cons_nth_drop_Suc[symmetric])
  have take: "take (Suc k) A = take k A @ [(chunks j, signal j)]"
    using k nth(1) by (simp add: take_Suc_conv_app_nth)
  have len: "length gj = length (chunks j)" using gs(2) fin by (simp add: finished_def)
  have count: "chunk_count (take (Suc k) A) = length (don @ gj)"
    by (simp add: take g(2) len chunk_count_def)
  show "queue_inv A (Suc k) js (l @ [Completed (signal j) (Inr ())])"
  proof -
    have "in_bounds js" "ordered js" using inv fin by (auto simp: queue_inv_def in_bounds_def finished_def)
    moreover have "completions (l @ [Completed (signal j) (Inr ())]) = map (\<lambda>(cs, g). (g, Inr ())) (take (Suc k) A)"
      "map fst (sent (l @ [Completed (signal j) (Inr ())])) = concat (map fst (take (Suc k) A))
        @ concat (map (\<lambda>j. take (next_chunk j) (chunks j)) js)"
      "mset (retired (l @ [Completed (signal j) (Inr ())])) + mset (all_receipts js)
        = mset (map snd (sent (l @ [Completed (signal j) (Inr ())])))"
      using inv fin by (simp_all add: queue_inv_def take finished_def)
    moreover have "map snd (sent (l @ [Completed (signal j) (Inr ())])) = (don @ gj) @ concat gs"
      using g(1) gs(1) by simp
    ultimately show ?thesis
      unfolding queue_inv_def using k nth(2)[symmetric] count[symmetric] gs(3)
      by (metis Suc_leI)
  qed
  have done_len: "length (completions l) = k" using inv k by (simp add: queue_inv_def)
  have "mset (don @ gj) + mset (concat gs) = mset (retired l) + mset (all_receipts js)"
    using inv g(1) gs(1) fin by (auto simp: queue_inv_def finished_def)
  moreover obtain X where "mset (concat gs) = mset (all_receipts js) + X"
    using groups_receipts[OF gs(3)] by (auto simp: mset_subset_eq_exists_conv)
  ultimately have "mset (don @ gj) \<subseteq># mset (retired l)"
    by (metis add.assoc add.commute add_left_cancel mset_subset_eq_add_left)
  moreover have "take (length (don @ gj)) (map snd (sent l)) = don @ gj"
    using g(1) gs(1) by simp
  moreover have "length (don @ gj) \<le> length (sent l)"
    using arg_cong[OF g(1), of length] gs(1) by simp
  ultimately show "length (completions l) < length A \<and> complete_ok A l"
    unfolding complete_ok_def done_len count Let_def using k by auto
qed

lemma micro_history:
  assumes "micro idle a b" "queue_inv A k (fst a) (snd a)" "history_ok idle A (snd a)"
  shows "(\<exists>k. queue_inv A k (fst b) (snd b)) \<and> history_ok idle A (snd b)"
  using assms
proof (cases rule: micro.cases)
  case (send xs j ys l r)
  have inv: "queue_inv A k (xs @ j # ys) l" using assms(2) send(1) by simp
  have "submit_ok idle (chunks j ! next_chunk j) l"
    using in_flight_length[OF inv] send(5,6) inv
    by (auto simp: submit_ok_def queue_inv_def)
  then show ?thesis
    using send_inv[OF inv send(3-5)] assms(3) send(1,2) by (auto simp: history_snoc)
next
  case (settle j as r bs xs ys l)
  have "queue_inv A k (xs @ j # ys) l" using assms(2) settle(1) by simp
  from settle_inv[OF this settle(3)] show ?thesis
    using assms(3) settle(1,2) by (auto simp: history_snoc)
next
  case (finish j js l)
  have inv: "queue_inv A k (j # js) l" using assms(2) finish(1) by simp
  from finish_inv[OF inv finish(3)] show ?thesis
    using assms(3) finish(1,2) by (auto simp: history_snoc)
qed

lemma micros_history:
  assumes "micros idle a b" "\<exists>k. queue_inv A k (fst a) (snd a)" "history_ok idle A (snd a)"
  shows "(\<exists>k. queue_inv A k (fst b) (snd b)) \<and> history_ok idle A (snd b)"
  using assms by (induction rule: rtranclp_induct) (blast dest: micro_history)+

end
