(* ===== verification/Scheduler_Claims.thy ===== *)
theory Scheduler_Claims
  imports Scheduler_Props "HOL-Library.Sublist"
begin

text \<open>
  The scheduler over its whole life. \<open>scheduler_run t\<close> are the states reached from the empty queue by
  any sequence of admissions, turns of the worker and failures, with the log of what the transport
  was asked and the list of the admitted submissions; the state of the transport may change
  arbitrarily between the operations (the device makes progress on its own).
\<close>

section \<open>The log changes nothing\<close>

lemma poll_receipts_logged:
  "\<exists>l'. poll_receipts (logged t) i rs p (w, l)
    = (fst (poll_receipts t i rs p w), (snd (poll_receipts t i rs p w), l'))"
proof (induction "length rs - i" arbitrary: i rs p w l rule: less_induct)
  case less
  show ?case
  proof (cases "i < length rs")
    case False
    then show ?thesis by (simp add: poll_receipts.simps[of _ i])
  next
    case True
    obtain x v where x: "poll t w (rs ! i) = (x, v)" by (metis surj_pair)
    note unfold = poll_receipts.simps[of _ i rs p]
    consider e where "x = Inl e" | "x = Inr True" | "x = Inr False"
      by (metis (full_types) sum.exhaust)
    then show ?thesis
    proof cases
      case 1
      with x True show ?thesis by (simp add: unfold)
    next
      case 2
      have "\<exists>l'. poll_receipts (logged t) i (take i rs @ drop (Suc i) rs) True (v, l @ [Retired (rs ! i)])
          = (fst (poll_receipts t i (take i rs @ drop (Suc i) rs) True v),
             (snd (poll_receipts t i (take i rs @ drop (Suc i) rs) True v), l'))"
        by (rule less) (use True in auto)
      with 2 x True show ?thesis by (simp add: unfold)
    next
      case 3
      have "\<exists>l'. poll_receipts (logged t) (Suc i) rs p (v, l)
          = (fst (poll_receipts t (Suc i) rs p v), (snd (poll_receipts t (Suc i) rs p v), l'))"
        by (rule less) (use True in auto)
      with 3 x True show ?thesis by (simp add: unfold)
    qed
  qed
qed

lemma poll_jobs_logged:
  "\<exists>l'. poll_jobs (logged t) js p (w, l)
    = (fst (poll_jobs t js p w), (snd (poll_jobs t js p w), l'))"
proof (induction js arbitrary: p w l)
  case (Cons j js)
  obtain l1 where first: "poll_receipts (logged t) 0 (receipts j) p (w, l)
      = (fst (poll_receipts t 0 (receipts j) p w), (snd (poll_receipts t 0 (receipts j) p w), l1))"
    using poll_receipts_logged[of t 0 "receipts j" p w l] by blast
  obtain x v where x: "poll_receipts t 0 (receipts j) p w = (x, v)" by (metis surj_pair)
  show ?case
  proof (cases x)
    case (Inl e)
    then show ?thesis using first x by simp
  next
    case (Inr q)
    obtain rs p1 where q: "q = (rs, p1)" by (cases q)
    obtain l2 where "poll_jobs (logged t) js p1 (v, l1)
        = (fst (poll_jobs t js p1 v), (snd (poll_jobs t js p1 v), l2))"
      using Cons.IH by blast
    then show ?thesis using first x Inr q by (auto split: prod.splits sum.splits)
  qed
qed simp

lemma retire_jobs_logged:
  "\<exists>l'. retire_jobs (logged t) js n p (w, l) =
    (case retire_jobs t js n p w of (js', n', p', w') \<Rightarrow> (js', n', p', (w', l')))"
  by (induction js arbitrary: n p w l) auto

lemma dispatch_job_logged:
  "\<exists>l'. dispatch_job (logged t) j n p (w, l) =
    (case dispatch_job t j n p w of (v, j', n', p', w') \<Rightarrow> (v, j', n', p', (w', l')))"
proof (induction "length (chunks j) - next_chunk j" arbitrary: j n p w l rule: less_induct)
  case less
  let ?c = "chunks j ! next_chunk j"
  note unfold = dispatch_job.simps[of _ j n p]
  show ?case
  proof (cases "next_chunk j < length (chunks j) \<and> n \<noteq> MAX_NATIVE_IN_FLIGHT
      \<and> \<not> (n \<noteq> 0 \<and> requires_idle t ?c)")
    case False
    then show ?thesis by (auto simp: unfold)
  next
    case True
    then have go: "next_chunk j < length (chunks j)"
      "(n = MAX_NATIVE_IN_FLIGHT \<or> n \<noteq> 0 \<and> requires_idle t ?c) = False" by auto
    obtain x w1 where x: "ready t w ?c = (x, w1)" by (metis surj_pair)
    show ?thesis
    proof (cases "x = Inr True")
      case False
      then show ?thesis using go x by (auto simp: unfold Let_def split: sum.splits bool.splits)
    next
      case ok: True
      obtain y w2 where y: "submit t w1 (owner j) ?c = (y, w2)" by (metis surj_pair)
      show ?thesis
      proof (cases y)
        case (Inl e)
        then show ?thesis using go x ok y by (cases e) (auto simp: unfold Let_def)
      next
        case (Inr r)
        let ?j = "j\<lparr>receipts := receipts j @ [r], next_chunk := Suc (next_chunk j)\<rparr>"
        have "\<exists>l'. dispatch_job (logged t) ?j (Suc n) True (w2, l @ [Submitted ?c r]) =
            (case dispatch_job t ?j (Suc n) True w2 of (v, j', n', p', w') \<Rightarrow> (v, j', n', p', (w', l')))"
          by (rule less) (use go in auto)
        then show ?thesis using go x ok y Inr by (auto simp: unfold Let_def)
      qed
    qed
  qed
qed

lemma dispatch_jobs_logged:
  "\<exists>l'. dispatch_jobs (logged t) js n p (w, l) =
    (case dispatch_jobs t js n p w of (v, js', p', w') \<Rightarrow> (v, js', p', (w', l')))"
proof (induction js arbitrary: n p w l)
  case (Cons j js)
  obtain v j' n' p' w1 where one: "dispatch_job t j n p w = (v, j', n', p', w1)" by (metis surj_pair)
  obtain l1 where l1: "dispatch_job (logged t) j n p (w, l) = (v, j', n', p', (w1, l1))"
    using dispatch_job_logged[of t j n p w l] one by auto
  obtain l2 where "dispatch_jobs (logged t) js n' p' (w1, l1) =
      (case dispatch_jobs t js n' p' w1 of (v, js', p', w') \<Rightarrow> (v, js', p', (w', l2)))"
    using Cons.IH by blast
  then show ?case using one l1 by (cases v) (auto split: prod.splits)
qed simp

lemma complete_all_world: "fst (complete_all (logged t) js e (w, l)) = complete_all t js e w"
  by (induction js arbitrary: w l) auto

lemma fail_erased:
  "\<exists>l'. fail (logged t) e s (w, l) = (fst (fail t e s w), (snd (fail t e s w), l'))"
  using complete_all_world[of t "jobs s" e w l] complete_all_logged[of t "jobs s" e w l]
  by (simp add: fail_def prod_eq_iff)

lemma advance_logged:
  "\<exists>l'. advance (logged t) s (w, l) = (case advance t s w of (p, s', w') \<Rightarrow> (p, s', (w', l')))"
proof -
  obtain x v where x: "poll_jobs t (jobs s) False w = (x, v)" by (metis surj_pair)
  obtain l1 where l1: "poll_jobs (logged t) (jobs s) False (w, l) = (x, (v, l1))"
    using poll_jobs_logged[of t "jobs s" False w l] x by auto
  show ?thesis
  proof (cases x)
    case (Inl e)
    then show ?thesis using x l1 fail_erased[of t e s v l1] by (auto simp: advance_def split: prod.splits)
  next
    case (Inr q)
    obtain js p where q: "q = (js, p)" by (cases q)
    obtain js2 n2 p2 w2 where two: "retire_jobs t js (pending_bytes s) p v = (js2, n2, p2, w2)"
      by (metis surj_pair)
    obtain l2 where l2: "retire_jobs (logged t) js (pending_bytes s) p (v, l1) = (js2, n2, p2, (w2, l2))"
      using retire_jobs_logged[of t js "pending_bytes s" p v l1] two by auto
    obtain u js3 p3 w3 where three:
      "dispatch_jobs t js2 (length (all_receipts js2)) p2 w2 = (u, js3, p3, w3)" by (metis surj_pair)
    obtain l3 where l3:
      "dispatch_jobs (logged t) js2 (length (all_receipts js2)) p2 (w2, l2) = (u, js3, p3, (w3, l3))"
      using dispatch_jobs_logged[of t js2 "length (all_receipts js2)" p2 w2 l2] three by auto
    show ?thesis
    proof (cases u)
      case (Abort e)
      then show ?thesis
        using x l1 Inr q two l2 three l3 fail_erased[of t e "s\<lparr>jobs := js3, pending_bytes := n2\<rparr>" w3 l3]
        by (auto simp: advance_def split: prod.splits)
    qed (use x l1 Inr q two l2 three l3 in \<open>simp_all add: advance_def\<close>)
  qed
qed


section \<open>Runs\<close>

text \<open>
  The operations of the queue in any order. The lock of the queue makes each of them atomic; \<open>w\<close> is
  whatever state the transport has when the operation starts.
\<close>

inductive scheduler_run ::
    "('w, 'c, 'o, 'r, 'g, 'e) Transport
      \<Rightarrow> ('c, 'o, 'r, 'g, 'e) Scheduler \<times> ('c, 'r, 'g, 'e) event list \<times> ('c, 'g) admitted \<Rightarrow> bool"
  for t where
  start: "scheduler_run t (new, [], [])"
| admit: "scheduler_run t (s, l, A) \<Longrightarrow> enqueue t reserve reserve' cs own g s = (Inr (), s')
    \<Longrightarrow> scheduler_run t (s', l, A @ [(cs, g)])"
| refuse: "scheduler_run t (s, l, A) \<Longrightarrow> enqueue t reserve reserve' cs own g s = (Inl e, s')
    \<Longrightarrow> scheduler_run t (s', l, A)"
| turn: "scheduler_run t (s, l, A) \<Longrightarrow> advance (logged t) s (w, l) = (p, s', (w', l'))
    \<Longrightarrow> scheduler_run t (s', l', A)"
| abort: "scheduler_run t (s, l, A) \<Longrightarrow> fail (logged t) e s (w, l) = (s', (w', l'))
    \<Longrightarrow> scheduler_run t (s', l', A)"

text \<open>A queue whose transport has failed: every admitted submission was completed, the first ones
  successfully and the others with an error, and what was sent is a prefix of what was admitted.\<close>

definition ended :: "('c, 'g) admitted \<Rightarrow> ('c, 'r, 'g, 'e) event list \<Rightarrow> bool" where
  "ended A l \<longleftrightarrow>
     (\<exists>k errors. completions l = map (\<lambda>(cs, g). (g, Inr ())) (take k A)
        @ map2 (\<lambda>(cs, g) e. (g, Inl e)) (drop k A) errors
        \<and> k \<le> length A \<and> length errors = length (drop k A))
     \<and> prefix (map fst (sent l)) (concat (map fst A))"

definition weighed :: "('c \<Rightarrow> nat) \<Rightarrow> ('c, 'o, 'r, 'g) Job list \<Rightarrow> bool" where
  "weighed weigh js \<longleftrightarrow> list_all (\<lambda>j. job_bytes j = sum_list (map weigh (chunks j))) js"

definition run_inv ::
    "('w, 'c, 'o, 'r, 'g, 'e) Transport
      \<Rightarrow> ('c, 'o, 'r, 'g, 'e) Scheduler \<times> ('c, 'r, 'g, 'e) event list \<times> ('c, 'g) admitted \<Rightarrow> bool" where
  "run_inv t = (\<lambda>(s, l, A).
     history_ok (requires_idle t) A l
     \<and> length (jobs s) \<le> MAX_SUBMISSIONS \<and> in_bounds (jobs s) \<and> weighed (chunk_size t) (jobs s)
     \<and> pending_bytes s = sum_list (map job_bytes (jobs s)) \<and> pending_bytes s \<le> MAX_PENDING_BYTES
     \<and> (case failure s of
          None \<Rightarrow> \<exists>k. queue_inv A k (jobs s) l
        | Some e \<Rightarrow> jobs s = [] \<and> ended A l))"

lemma total_size_Some:
  "total_size weigh cs acc = Some n \<Longrightarrow> n = acc + sum_list (map weigh cs)"
  by (induction cs arbitrary: acc)
    (fastforce simp: usize_add_def split: if_splits)+

lemma enqueue_Inr:
  assumes "enqueue t m m' cs own g s = (Inr (), s')"
  obtains n where "n = sum_list (map (chunk_size t) cs)" "failure s = None"
    "length (jobs s) \<noteq> MAX_SUBMISSIONS" "pending_bytes s + n \<le> MAX_PENDING_BYTES"
    "s' = s\<lparr>jobs := jobs s @ [\<lparr>chunks = cs, owner = own, signal = g, next_chunk = 0, receipts = [],
       job_bytes = n\<rparr>], pending_bytes := pending_bytes s + n\<rparr>"
  using assms
  by (auto simp: enqueue_def saturating_add_def MAX_PENDING_BYTES_def dest: total_size_Some
      split: option.splits if_splits)

lemma enqueue_Inl: "enqueue t m m' cs own g s = (Inl e, s') \<Longrightarrow> s' = s"
  by (auto simp: enqueue_def split: option.splits if_splits)

lemma ordered_snoc: "ordered js \<Longrightarrow> next_chunk j = 0 \<Longrightarrow> ordered (js @ [j])"
  by (induction js) auto

lemma queue_inv_admit:
  assumes "queue_inv A k js l" "next_chunk j = 0" "receipts j = []"
  shows "queue_inv (A @ [(chunks j, signal j)]) k (js @ [j]) l"
proof -
  obtain don groups where g: "map snd (sent l) = don @ concat groups" "length don = chunk_count (take k A)"
    "list_all2 (\<lambda>j rs. length rs = next_chunk j \<and> mset (receipts j) \<subseteq># mset rs) js groups"
    using assms(1) by (auto simp: queue_inv_def)
  have "list_all2 (\<lambda>j rs. length rs = next_chunk j \<and> mset (receipts j) \<subseteq># mset rs) (js @ [j]) (groups @ [[]])"
    using g(3) assms(2,3) by (auto intro!: list_all2_appendI)
  moreover have "map snd (sent l) = don @ concat (groups @ [[]])" using g(1) by simp
  moreover have k: "k \<le> length A" "take k (A @ [(chunks j, signal j)]) = take k A"
    "drop k (A @ [(chunks j, signal j)]) = drop k A @ [(chunks j, signal j)]"
    using assms(1) by (simp_all add: queue_inv_def)
  moreover have "in_bounds (js @ [j])" "ordered (js @ [j])"
    using assms by (auto simp: queue_inv_def in_bounds_def ordered_snoc)
  moreover have "map fst (sent l) = concat (map fst (take k A))
      @ concat (map (\<lambda>j. take (next_chunk j) (chunks j)) (js @ [j]))"
    "map (\<lambda>j. (chunks j, signal j)) (js @ [j]) = drop k A @ [(chunks j, signal j)]"
    "completions l = map (\<lambda>(cs, g). (g, Inr ())) (take k A)"
    "mset (retired l) + mset (all_receipts (js @ [j])) = mset (map snd (sent l))"
    using assms by (simp_all add: queue_inv_def)
  ultimately show ?thesis
    unfolding queue_inv_def using g(2)
    by (intro conjI exI[of _ don] exI[of _ "groups @ [[]]"]) simp_all
qed

lemma history_admit: "history_ok idle A l \<Longrightarrow> history_ok idle (A @ B) l"
proof -
  assume h: "history_ok idle A l"
  have "moment_ok idle (A @ B) before x" if "moment_ok idle A before x" for before x
  proof (cases x)
    case (Completed g y)
    then show ?thesis using that by (cases y) (auto simp: complete_ok_def)
  qed (use that in auto)
  then show ?thesis using h unfolding history_ok_def by blast
qed

lemma concat_take_prefix:
  assumes "ordered js"
  shows "prefix (concat (map (\<lambda>j. take (next_chunk j) (chunks j)) js)) (concat (map chunks js))"
  using assms
proof (induction js)
  case (Cons j js)
  show ?case
  proof (cases "dispatched j")
    case True
    then show ?thesis using Cons by (simp add: dispatched_def)
  next
    case False
    then have "list_all (\<lambda>i. next_chunk i = 0) js" using Cons.prems by simp
    then have "concat (map (\<lambda>j. take (next_chunk j) (chunks j)) js) = []" by (rule taken_empty)
    then have "concat (map (\<lambda>j. take (next_chunk j) (chunks j)) (j # js)) = take (next_chunk j) (chunks j)"
      by (simp only: list.map concat.simps append_Nil2)
    then show ?thesis by (simp only: list.map concat.simps prefix_prefix[OF take_is_prefix])
  qed
qed simp

lemma sent_prefix:
  assumes "queue_inv A k js l"
  shows "prefix (map fst (sent l)) (concat (map fst A))"
proof -
  have A: "map fst A = map fst (take k A) @ map chunks js"
  proof -
    have "map fst (drop k A) = map fst (map (\<lambda>j. (chunks j, signal j)) js)"
      using assms by (simp only: queue_inv_def)
    then have "map fst (drop k A) = map chunks js" by simp
    then show ?thesis by (metis append_take_drop_id map_append)
  qed
  have "ordered js" using assms by (simp add: queue_inv_def)
  from concat_take_prefix[OF this] assms show ?thesis
    unfolding A by (simp add: queue_inv_def)
qed

lemma ended_fail:
  fixes e :: 'e and l :: "('c, 'r, 'g, 'e) event list" and js :: "('c, 'o, 'r, 'g) Job list"
  assumes "queue_inv A k js l"
  shows "ended A (l @ map (\<lambda>j. Completed (signal j) (Inl e)) js)"
proof -
  let ?m = "map (\<lambda>j. Completed (signal j) (Inl e)) js :: ('c, 'r, 'g, 'e) event list"
  have "completions ?m = map (\<lambda>j. (signal j, Inl e)) js" "sent ?m = []"
    by (induction js) (simp_all add: completions_def sent_def)
  moreover have "map (\<lambda>j. (signal j, Inl e :: 'e + unit)) js
      = map2 (\<lambda>(cs, g) e. (g, Inl e)) (drop k A) (replicate (length (drop k A)) e)"
  proof -
    have drop: "drop k A = map (\<lambda>j. (chunks j, signal j)) js" using assms by (simp add: queue_inv_def)
    show ?thesis unfolding drop by (induction js) auto
  qed
  ultimately show ?thesis
    using assms sent_prefix[OF assms] unfolding ended_def
    by (intro conjI exI[of _ k] exI[of _ "replicate (length (drop k A)) e"]) (simp_all add: queue_inv_def)
qed


lemma micros_jobs:
  "micros idle a b \<Longrightarrow> length (fst b) \<le> length (fst a)
    \<and> (weighed weigh (fst a) \<longrightarrow> weighed weigh (fst b))
    \<and> sum_list (map job_bytes (fst b)) \<le> sum_list (map job_bytes (fst a))"
proof (induction rule: rtranclp_induct)
  case (step b c)
  from step.hyps(2) have "length (fst c) \<le> length (fst b)
      \<and> (weighed weigh (fst b) \<longrightarrow> weighed weigh (fst c))
      \<and> sum_list (map job_bytes (fst c)) \<le> sum_list (map job_bytes (fst b))"
    by (cases rule: micro.cases) (auto simp: weighed_def)
  with step.IH show ?case by auto
qed simp

lemma run_inv_admit:
  assumes "run_inv t (s, l, A)" "enqueue t m m' cs own g s = (Inr (), s')"
  shows "run_inv t (s', l, A @ [(cs, g)])"
proof -
  from enqueue_Inr[OF assms(2)] obtain n where n: "n = sum_list (map (chunk_size t) cs)" "failure s = None"
    "length (jobs s) \<noteq> MAX_SUBMISSIONS" "pending_bytes s + n \<le> MAX_PENDING_BYTES"
    "s' = s\<lparr>jobs := jobs s @ [\<lparr>chunks = cs, owner = own, signal = g, next_chunk = 0, receipts = [],
       job_bytes = n\<rparr>], pending_bytes := pending_bytes s + n\<rparr>" by blast
  obtain k where k: "queue_inv A k (jobs s) l" using assms(1) n(2) by (auto simp: run_inv_def)
  have "\<exists>k. queue_inv (A @ [(cs, g)]) k (jobs s') l"
    using queue_inv_admit[OF k, of "\<lparr>chunks = cs, owner = own, signal = g, next_chunk = 0, receipts = [],
       job_bytes = n\<rparr>"] n(5) by auto
  then show ?thesis
    using assms(1) n by (auto simp: run_inv_def history_admit in_bounds_def weighed_def)
qed

lemma run_inv_abort:
  assumes "run_inv t (s, l, A)" "fail (logged t) e s (w, l) = (s', (w', l'))"
  shows "run_inv t (s', l', A)"
proof (cases "failure s")
  case None
  then obtain k where "queue_inv A k (jobs s) l" using assms(1) by (auto simp: run_inv_def)
  then show ?thesis
    using assms(1) fail_logged[OF assms(2)] ended_fail history_append_failures
    by (auto simp: run_inv_def in_bounds_def weighed_def)
next
  case (Some e')
  then show ?thesis using assms(1) fail_logged[OF assms(2)] by (auto simp: run_inv_def)
qed

lemma run_inv_turn:
  assumes "run_inv t (s, l, A)" "advance (logged t) s (w, l) = (p, s', (w', l'))"
  shows "run_inv t (s', l', A)"
proof -
  from assms(1) have inv: "in_bounds (jobs s)" "pending_bytes s = sum_list (map job_bytes (jobs s))"
    "history_ok (requires_idle t) A l" "length (jobs s) \<le> MAX_SUBMISSIONS"
    "weighed (chunk_size t) (jobs s)" "pending_bytes s \<le> MAX_PENDING_BYTES"
    by (auto simp: run_inv_def)
  from advance_micros[OF assms(2) inv(1,2)] obtain js l1 where
    run: "micros (requires_idle t) (jobs s, l) (js, l1)" and
    result: "(s' = s\<lparr>jobs := js, pending_bytes := sum_list (map job_bytes js)\<rparr> \<and> l' = l1)
      \<or> (\<exists>e. s' = s\<lparr>failure := Some e, jobs := [], pending_bytes := 0\<rparr>
            \<and> l' = l1 @ map (\<lambda>j. Completed (signal j) (Inl e)) js)" by blast
  have js: "length js \<le> MAX_SUBMISSIONS" "weighed (chunk_size t) js" "in_bounds js"
    "sum_list (map job_bytes js) \<le> MAX_PENDING_BYTES"
    using micros_jobs[OF run, of "chunk_size t"] micros_in_bounds[OF run] inv by auto
  show ?thesis
  proof (cases "failure s")
    case None
    then obtain k where "queue_inv A k (jobs s) l" using assms(1) by (auto simp: run_inv_def)
    then have "(\<exists>k. queue_inv A k js l1) \<and> history_ok (requires_idle t) A l1"
      using micros_history[OF run] inv(3) by auto
    then show ?thesis
      using result js None ended_fail history_append_failures
      by (auto simp: run_inv_def in_bounds_def weighed_def)
  next
    case (Some e)
    then have none: "jobs s = []" "ended A l" using assms(1) by (auto simp: run_inv_def)
    have stuck: "\<not> micro idle ([], l) b" for idle and l :: "('b, 'd, 'e, 'f) event list" and b
      by (auto elim: micro.cases)
    from run none(1) have "js = [] \<and> l1 = l"
      by (cases rule: converse_rtranclpE) (auto simp: stuck)
    then show ?thesis using result Some none inv assms(1) by (auto simp: run_inv_def)
  qed
qed

lemma scheduler_run_inv: "scheduler_run t x \<Longrightarrow> run_inv t x"
proof (induction rule: scheduler_run.induct)
  case start
  have "queue_inv [] 0 [] []" by (simp add: queue_inv_def in_bounds_def chunk_count_def)
  then show ?case by (auto simp: run_inv_def new_def history_ok_def in_bounds_def weighed_def)
next
  case (admit s l A m m' cs own g s')
  then show ?case by (blast intro: run_inv_admit)
next
  case (refuse s l A m m' cs own g e s')
  then show ?case using enqueue_Inl[OF refuse.hyps(2)] by simp
next
  case (turn s l A w p s' w' l')
  then show ?case by (blast intro: run_inv_turn)
next
  case (abort s l A e w s' w' l')
  then show ?case by (blast intro: run_inv_abort)
qed


section \<open>Draining the queue\<close>

text \<open>A transport that answers: nothing fails, nothing is busy, every receipt is finished when polled.\<close>

definition responsive :: "('w, 'c, 'o, 'r, 'g, 'e) Transport \<Rightarrow> bool" where
  "responsive t \<longleftrightarrow>
     (\<forall>w c. fst (ready t w c) = Inr True) \<and> (\<forall>w own c. \<exists>r. fst (submit t w own c) = Inr r)
     \<and> (\<forall>w r. fst (poll t w r) = Inr True)"

definition remaining :: "('c, 'o, 'r, 'g) Job list \<Rightarrow> nat" where
  "remaining js = sum_list (map (\<lambda>j. length (chunks j) - next_chunk j) js)"

text \<open>\<open>n\<close> turns of the worker.\<close>

fun turns ::
    "('w, 'c, 'o, 'r, 'g, 'e) Transport \<Rightarrow> nat \<Rightarrow> ('c, 'o, 'r, 'g, 'e) Scheduler \<Rightarrow> 'w
      \<Rightarrow> ('c, 'o, 'r, 'g, 'e) Scheduler \<times> 'w" where
  "turns t 0 s w = (s, w)"
| "turns t (Suc n) s w = (case advance t s w of (p, s', w') \<Rightarrow> turns t n s' w')"

lemma responsive_logged: "responsive t \<Longrightarrow> responsive (logged t)"
  by (auto simp: responsive_def)

lemma poll_receipts_responsive:
  assumes "responsive t"
  shows "\<exists>p' w'. poll_receipts t 0 rs p w = (Inr ([], p'), w')"
proof (induction rs arbitrary: p w)
  case Nil
  show ?case by (simp add: poll_receipts.simps[of _ 0])
next
  case (Cons r rs)
  obtain w' where "poll t w r = (Inr True, w')"
    using assms by (metis responsive_def prod.collapse)
  then have "poll_receipts t 0 (r # rs) p w = poll_receipts t 0 rs True w'"
    by (simp add: poll_receipts.simps[of _ 0 "r # rs"])
  then show ?case using Cons.IH by simp
qed

lemma poll_jobs_responsive:
  assumes "responsive t"
  shows "\<exists>p' w'. poll_jobs t js p w = (Inr (map (\<lambda>j. j\<lparr>receipts := []\<rparr>) js, p'), w')"
proof (induction js arbitrary: p w)
  case (Cons j js)
  obtain p1 w1 where "poll_receipts t 0 (receipts j) p w = (Inr ([], p1), w1)"
    using poll_receipts_responsive[OF assms] by blast
  moreover obtain p2 w2 where "poll_jobs t js p1 w1 = (Inr (map (\<lambda>j. j\<lparr>receipts := []\<rparr>) js, p2), w2)"
    using Cons.IH by blast
  ultimately show ?case by simp
qed simp

lemma retire_jobs_drop: "\<exists>n' p' w'. retire_jobs t js n p w = (dropWhile finished js, n', p', w')"
  by (induction js arbitrary: n p w) auto

lemma dispatch_job_responsive:
  assumes "responsive t" "dispatch_job t j n p w = (v, j', n', p', w')"
  shows "(\<forall>e. v \<noteq> Abort e) \<and> length (chunks j') - next_chunk j' \<le> length (chunks j) - next_chunk j
    \<and> (n = 0 \<longrightarrow> next_chunk j < length (chunks j)
        \<longrightarrow> length (chunks j') - next_chunk j' < length (chunks j) - next_chunk j)"
  using assms(2)
proof (induction "length (chunks j) - next_chunk j" arbitrary: j n p w rule: less_induct)
  case less
  let ?c = "chunks j ! next_chunk j"
  note run = less.prems[unfolded dispatch_job.simps[of _ j n p]]
  show ?case
  proof (cases "next_chunk j < length (chunks j)
      \<and> \<not> (n = MAX_NATIVE_IN_FLIGHT \<or> n \<noteq> 0 \<and> requires_idle t ?c)")
    case False
    then show ?thesis using run by (auto simp: MAX_NATIVE_IN_FLIGHT_def split: if_splits)
  next
    case True
    obtain w1 where w1: "ready t w ?c = (Inr True, w1)"
      using assms(1) by (metis responsive_def prod.collapse)
    obtain r w2 where w2: "submit t w1 (owner j) ?c = (Inr r, w2)"
      using assms(1) by (metis responsive_def prod.collapse)
    let ?j = "j\<lparr>receipts := receipts j @ [r], next_chunk := Suc (next_chunk j)\<rparr>"
    have "dispatch_job t ?j (Suc n) True w2 = (v, j', n', p', w')"
      using run True w1 w2 by (auto simp: Let_def split: if_splits)
    from less.hyps[OF _ this] True show ?thesis by fastforce
  qed
qed

lemma dispatch_jobs_responsive:
  assumes "responsive t" "dispatch_jobs t js n p w = (v, js', p', w')"
  shows "(\<forall>e. v \<noteq> Abort e) \<and> remaining js' \<le> remaining js
    \<and> (n = 0 \<longrightarrow> js \<noteq> [] \<longrightarrow> next_chunk (hd js) < length (chunks (hd js)) \<longrightarrow> remaining js' < remaining js)"
  using assms(2)
proof (induction js arbitrary: n p w v js' p' w')
  case Nil
  then show ?case by (auto simp: remaining_def)
next
  case (Cons j js)
  obtain v1 j1 n1 p1 w1 where one: "dispatch_job t j n p w = (v1, j1, n1, p1, w1)" by (metis surj_pair)
  note j1 = dispatch_job_responsive[OF assms(1) one]
  show ?case
  proof (cases "v1 = Continue")
    case False
    then have "js' = j1 # js" "v = v1" using Cons.prems one by (auto split: Verdict.splits)
    then show ?thesis using j1 by (auto simp: remaining_def)
  next
    case True
    obtain v2 js2 p2 w2 where two: "dispatch_jobs t js n1 p1 w1 = (v2, js2, p2, w2)" by (metis surj_pair)
    then have "js' = j1 # js2" "v = v2" using Cons.prems one True by auto
    moreover have "(\<forall>e. v2 \<noteq> Abort e) \<and> remaining js2 \<le> remaining js" using Cons.IH[OF two] by blast
    ultimately show ?thesis using j1 by (auto simp: remaining_def)
  qed
qed

lemma remaining_dropWhile: "remaining (dropWhile finished js) = remaining js"
  by (induction js) (auto simp: remaining_def finished_def)

lemma advance_responsive:
  assumes "responsive t" "in_bounds (jobs s)" "advance t s w = (p, s', w')"
  shows "failure s' = failure s \<and> (jobs s' = [] \<or> remaining (jobs s') < remaining (jobs s))"
proof -
  let ?js = "map (\<lambda>j. j\<lparr>receipts := []\<rparr>) (jobs s)"
  let ?js2 = "dropWhile finished ?js"
  obtain p1 w1 where one: "poll_jobs t (jobs s) False w = (Inr (?js, p1), w1)"
    using poll_jobs_responsive[OF assms(1)] by blast
  obtain n2 p2 w2 where two: "retire_jobs t ?js (pending_bytes s) p1 w1 = (?js2, n2, p2, w2)"
    using retire_jobs_drop by metis
  have empty: "all_receipts ?js2 = []"
    unfolding all_receipts_def by (fastforce dest: set_dropWhileD)
  obtain v js3 p3 w3 where three: "dispatch_jobs t ?js2 0 p2 w2 = (v, js3, p3, w3)" by (metis surj_pair)
  note step = dispatch_jobs_responsive[OF assms(1) three]
  have s': "s' = s\<lparr>jobs := js3, pending_bytes := n2\<rparr>"
    using assms(3) one two empty three step by (auto simp: advance_def split: Verdict.splits)
  have rem: "remaining ?js2 = remaining (jobs s)"
    unfolding remaining_dropWhile by (simp add: remaining_def comp_def)
  show ?thesis
  proof (cases "?js2 = []")
    case True
    have "js3 = []" using three unfolding True by simp
    then show ?thesis using s' by simp
  next
    case False
    then have "\<not> finished (hd ?js2)" "hd ?js2 \<in> set ?js"
      by (simp_all only: hd_dropWhile not_False_eq_True) (metis hd_in_set set_dropWhileD)
    then have "next_chunk (hd ?js2) < length (chunks (hd ?js2))"
      using assms(2) by (fastforce simp: finished_def in_bounds_def list_all_iff)
    then have "remaining js3 < remaining ?js2" using step False by simp
    then show ?thesis using s' rem by simp
  qed
qed


lemma turns_run:
  assumes "scheduler_run t (s, l, A)" "turns (logged t) n s (w, l) = (s', (w', l'))"
  shows "scheduler_run t (s', l', A)"
  using assms
proof (induction n arbitrary: s w l)
  case (Suc n)
  obtain p s1 w1 l1 where one: "advance (logged t) s (w, l) = (p, s1, (w1, l1))" by (metis surj_pair)
  then have "scheduler_run t (s1, l1, A)" using Suc.prems(1) by (rule scheduler_run.turn[rotated])
  moreover have "turns (logged t) n s1 (w1, l1) = (s', (w', l'))" using Suc.prems(2) one by simp
  ultimately show ?case by (rule Suc.IH)
qed simp

lemma run_in_bounds: "scheduler_run t (s, l, A) \<Longrightarrow> in_bounds (jobs s)"
  using scheduler_run_inv by (auto simp: run_inv_def)

lemma turns_drain:
  assumes "scheduler_run t (s, l, A)" "responsive t" "remaining (jobs s) < n"
    and "turns (logged t) n s (w, l) = (s', (w', l'))"
  shows "jobs s' = [] \<and> failure s' = failure s"
  using assms
proof (induction n arbitrary: s w l)
  case (Suc n)
  obtain p s1 w1 l1 where one: "advance (logged t) s (w, l) = (p, s1, (w1, l1))" by (metis surj_pair)
  note run1 = scheduler_run.turn[OF Suc.prems(1) one]
  have step: "failure s1 = failure s" "jobs s1 = [] \<or> remaining (jobs s1) < remaining (jobs s)"
    using advance_responsive[OF responsive_logged[OF Suc.prems(2)] run_in_bounds[OF Suc.prems(1)] one]
    by auto
  have rest: "turns (logged t) n s1 (w1, l1) = (s', (w', l'))" using Suc.prems(4) one by simp
  show ?case
  proof (cases n)
    case 0
    then show ?thesis using step rest Suc.prems(3) by auto
  next
    case (Suc m)
    have "remaining (jobs s1) < n"
      using step(2) Suc.prems(3) Suc by (auto simp: remaining_def)
    from Suc.IH[OF run1 Suc.prems(2) this rest] step(1) show ?thesis by simp
  qed
qed simp

section \<open>A concrete queue\<close>

definition sample_transport :: "(unit, nat, unit, nat, nat, unit) Transport" where
  "sample_transport =
     \<lparr>chunk_size = (\<lambda>c. c), requires_idle = (\<lambda>c. c = 2), ready = (\<lambda>w c. (Inr True, w)),
      submit = (\<lambda>w own c. (Inr c, w)), poll = (\<lambda>w r. (Inr True, w)), complete = (\<lambda>w g x. w)\<rparr>"

definition sample_queue :: "(nat, unit, nat, nat, unit) Scheduler" where
  "sample_queue =
     \<lparr>jobs = [\<lparr>chunks = [1, 2], owner = (), signal = 7, next_chunk = 0, receipts = [], job_bytes = 3\<rparr>],
      pending_bytes = 3, failure = None\<rparr>"

lemma sample_transport_simps:
  "chunk_size sample_transport c = c" "requires_idle sample_transport c \<longleftrightarrow> c = 2"
  "ready sample_transport w c = (Inr True, w)" "submit sample_transport w own c = (Inr c, w)"
  "poll sample_transport w r = (Inr True, w)" "complete sample_transport w g x = w"
  by (simp_all add: sample_transport_def)

lemma sample_queue_run: "scheduler_run sample_transport (sample_queue, [], [([1, 2], 7)])"
proof -
  have "enqueue sample_transport True True [1, 2] () 7 new = (Inr (), sample_queue)"
    by (simp add: enqueue_def new_def sample_queue_def sample_transport_def usize_add_def
        MAX_PENDING_BYTES_def MAX_SUBMISSIONS_def saturating_add_def)
  from scheduler_run.admit[OF scheduler_run.start this] show ?thesis by simp
qed

lemma sample_responsive: "responsive sample_transport"
  by (simp add: responsive_def sample_transport_def)

text \<open>After the first turn, with the first chunk dispatched and the second waiting for it.\<close>

definition sample_queue1 :: "(nat, unit, nat, nat, unit) Scheduler" where
  "sample_queue1 =
     \<lparr>jobs = [\<lparr>chunks = [1, 2], owner = (), signal = 7, next_chunk = 1, receipts = [1], job_bytes = 3\<rparr>],
      pending_bytes = 3, failure = None\<rparr>"

lemma sample_turn1:
  "advance (logged sample_transport) sample_queue ((), []) = (True, sample_queue1, ((), [Submitted 1 1]))"
  by (simp add: advance_def sample_queue_def sample_queue1_def poll_receipts.simps sample_transport_simps
      dispatch_job.simps finished_def all_receipts_def MAX_NATIVE_IN_FLIGHT_def)

lemma sample_queue1_run: "scheduler_run sample_transport (sample_queue1, [Submitted 1 1], [([1, 2], 7)])"
  using scheduler_run.turn[OF sample_queue_run sample_turn1] .

section \<open>Properties\<close>

text \<open>C28: In every state the queue can reach, at most 16 submissions are queued, the accounted bytes are
  the sizes of exactly the queued chunks and at most 64 MiB (so the subtraction on completion never
  wraps), at most 16 receipts are in flight, no job is dispatched past its last chunk, and a failed
  queue is empty.\<close>

theorem scheduler_invariant:
  assumes "scheduler_run t (s, l, A)"
  shows "length (jobs s) \<le> 16
    \<and> pending_bytes s = sum_list (map (\<lambda>j. sum_list (map (chunk_size t) (chunks j))) (jobs s))
    \<and> pending_bytes s \<le> 64 * 1024 * 1024
    \<and> length (all_receipts (jobs s)) \<le> 16
    \<and> (\<forall>j \<in> set (jobs s). next_chunk j \<le> length (chunks j))
    \<and> (failure s \<noteq> None \<longrightarrow> jobs s = [])"
proof -
  have inv: "run_inv t (s, l, A)" using assms by (rule scheduler_run_inv)
  then have "sum_list (map job_bytes (jobs s))
      = sum_list (map (\<lambda>j. sum_list (map (chunk_size t) (chunks j))) (jobs s))"
    by (intro arg_cong[where f = sum_list] map_cong) (auto simp: run_inv_def weighed_def list_all_iff)
  then show ?thesis
    using inv by (auto simp: run_inv_def in_bounds_def list_all_iff MAX_SUBMISSIONS_def
        MAX_PENDING_BYTES_def MAX_NATIVE_IN_FLIGHT_def split: option.splits)
qed

theorem scheduler_invariant_witness:
  "length (all_receipts (jobs sample_queue1)) \<le> 16 \<and> pending_bytes sample_queue1 = 3"
  using scheduler_invariant[OF sample_queue1_run] by (simp add: sample_queue1_def)

text \<open>C29: The queue is first in, first out, and nothing is lost or done twice. The chunks handed to the
  transport are, in order, a prefix of the chunks of the admitted submissions: none is skipped,
  replayed or overtaken, even when the transport is busy or fails. The signals are completed in the
  order of admission, each exactly once: while the transport works, successfully, with the
  submissions not yet completed still queued; after a failure every remaining one with an error.\<close>

theorem scheduler_fifo:
  assumes "scheduler_run t (s, l, A)"
  shows "prefix (map fst (sent l)) (concat (map fst A))
    \<and> (case failure s of
         None \<Rightarrow> \<exists>k. completions l = map (\<lambda>(cs, g). (g, Inr ())) (take k A)
           \<and> map (\<lambda>j. (chunks j, signal j)) (jobs s) = drop k A
       | Some _ \<Rightarrow> \<exists>k errors. completions l = map (\<lambda>(cs, g). (g, Inr ())) (take k A)
             @ map2 (\<lambda>(cs, g) e. (g, Inl e)) (drop k A) errors
           \<and> length errors = length (drop k A))"
proof -
  have inv: "run_inv t (s, l, A)" using assms by (rule scheduler_run_inv)
  show ?thesis
  proof (cases "failure s")
    case None
    then obtain k where k: "queue_inv A k (jobs s) l" using inv by (auto simp: run_inv_def)
    from sent_prefix[OF k] k None show ?thesis by (auto simp: queue_inv_def)
  next
    case (Some e)
    then have "ended A l" using inv by (simp add: run_inv_def)
    then show ?thesis using Some by (auto simp: ended_def)
  qed
qed

theorem scheduler_fifo_witness:
  "prefix (map fst (sent [Submitted (1 :: nat) (1 :: nat) :: (nat, nat, nat, unit) event])) [1, 2]"
  using scheduler_fifo[OF sample_queue1_run] by simp

text \<open>C30: What the log shows at every moment. A chunk is handed to the transport only while fewer than
  16 receipts are outstanding, and a chunk that touches memory from the CPU only when every receipt
  of every chunk before it, of any submission, has been seen finished. A submission is completed
  successfully only when all its chunks and those of all submissions before it have been handed over
  and their receipts have been seen finished, even if a later receipt finished first.\<close>

theorem scheduler_ordering:
  assumes "scheduler_run t (s, l, A)"
  shows "(\<forall>before c r after. l = before @ Submitted c r # after \<longrightarrow>
        length (sent before) < length (retired before) + 16
        \<and> (requires_idle t c \<longrightarrow> mset (map snd (sent before)) = mset (retired before)))
    \<and> (\<forall>before g after. l = before @ Completed g (Inr ()) # after \<longrightarrow>
        (let n = chunk_count (take (Suc (length (completions before))) A)
         in n \<le> length (sent before) \<and> mset (take n (map snd (sent before))) \<subseteq># mset (retired before)))"
proof -
  have "history_ok (requires_idle t) A l"
    using scheduler_run_inv[OF assms] by (auto simp: run_inv_def)
  then have all: "moment_ok (requires_idle t) A before x" if "l = before @ x # after" for before x after
    using that by (auto simp: history_ok_def)
  show ?thesis
  proof (intro conjI allI impI)
    fix before c r after
    assume "l = before @ Submitted c r # after"
    from all[OF this] show "length (sent before) < length (retired before) + 16"
      by (simp add: submit_ok_def MAX_NATIVE_IN_FLIGHT_def)
  next
    fix before c r after
    assume "l = before @ Submitted c r # after" "requires_idle t c"
    from all[OF this(1)] this(2) show "mset (map snd (sent before)) = mset (retired before)"
      by (simp add: submit_ok_def)
  next
    fix before g after
    assume "l = before @ Completed g (Inr ()) # after"
    from all[OF this] show "let n = chunk_count (take (Suc (length (completions before))) A)
        in n \<le> length (sent before) \<and> mset (take n (map snd (sent before))) \<subseteq># mset (retired before)"
      by (simp add: complete_ok_def)
  qed
qed

theorem scheduler_ordering_witness:
  "length (sent ([] :: (nat, nat, nat, unit) event list)) < length (retired ([] :: (nat, nat, nat, unit) event list)) + 16"
  using scheduler_ordering[OF sample_queue1_run] by blast

text \<open>C31: If the transport answers, the worker empties the queue: after one more turn than there are
  chunks left, every admitted submission has been completed successfully, in order, whatever mix of
  chunks, barriers and submissions was queued.\<close>

theorem scheduler_drains:
  assumes "scheduler_run t (s, l, A)" "failure s = None" "responsive t"
  shows "\<exists>s' w' l'. turns (logged t) (Suc (remaining (jobs s))) s (w, l) = (s', (w', l'))
    \<and> is_empty s' \<and> failure s' = None \<and> completions l' = map (\<lambda>(cs, g). (g, Inr ())) A"
proof -
  obtain s' w' l' where run: "turns (logged t) (Suc (remaining (jobs s))) s (w, l) = (s', (w', l'))"
    by (metis surj_pair)
  have empty: "jobs s' = []" "failure s' = None"
    using turns_drain[OF assms(1,3) _ run] assms(2) by auto
  obtain k where "queue_inv A k (jobs s') l'"
    using scheduler_run_inv[OF turns_run[OF assms(1) run]] empty(2) by (auto simp: run_inv_def)
  then have "completions l' = map (\<lambda>(cs, g). (g, Inr ())) A"
    using empty(1) by (auto simp: queue_inv_def)
  then show ?thesis using run empty by (auto simp: is_empty_def)
qed

theorem scheduler_drains_witness:
  "\<exists>s' l'. turns (logged sample_transport) 3 sample_queue ((), []) = (s', ((), l'))
    \<and> completions l' = [(7, Inr ())]"
  using scheduler_drains[OF sample_queue_run _ sample_responsive, of "()"]
  by (auto simp: sample_queue_def remaining_def eval_nat_numeral simp del: turns.simps)

end
