(* ===== verification/Action.thy ===== *)
theory Action
  imports Bytes
begin

text \<open>
  Stateful operations of the drivers: a method with \<open>&mut self\<close> that talks to a device is a function
  of an explicit state (the fields it may change and the outside world) to its result and the new
  state. \<open>act_bind\<close> is the \<open>?\<close> operator: what was changed before an error stays changed. \<open>wp\<close> is the
  weakest precondition of an operation, with one postcondition on result and state; the rules below
  are the verification conditions the proofs about the Type-C policies are built from.
\<close>

text \<open>The diagnostic messages of the drivers.\<close>

type_synonym reason = string

type_synonym ('s, 'e, 'a) action = "'s \<Rightarrow> ('e, 'a) outcome \<times> 's"

definition act_return :: "'a \<Rightarrow> ('s, 'e, 'a) action" where
  "act_return a s = (Ok a, s)"

definition act_throw :: "'e \<Rightarrow> ('s, 'e, 'a) action" where
  "act_throw e s = (Err e, s)"

definition act_lift :: "('e, 'a) outcome \<Rightarrow> ('s, 'e, 'a) action" where
  "act_lift r s = (r, s)"

definition act_bind :: "('s, 'e, 'a) action \<Rightarrow> ('a \<Rightarrow> ('s, 'e, 'b) action) \<Rightarrow> ('s, 'e, 'b) action" where
  "act_bind m f s = (case m s of (Ok a, s') \<Rightarrow> f a s' | (Err e, s') \<Rightarrow> (Err e, s') | (Panic, s') \<Rightarrow> (Panic, s'))"

definition act_catch :: "('s, 'e, 'a) action \<Rightarrow> ('e \<Rightarrow> ('s, 'f, 'a) action) \<Rightarrow> ('s, 'f, 'a) action" where
  "act_catch m h s = (case m s of (Ok a, s') \<Rightarrow> (Ok a, s') | (Err e, s') \<Rightarrow> h e s' | (Panic, s') \<Rightarrow> (Panic, s'))"

definition act_get :: "('s, 'e, 's) action" where
  "act_get s = (Ok s, s)"

definition act_modify :: "('s \<Rightarrow> 's) \<Rightarrow> ('s, 'e, unit) action" where
  "act_modify f s = (Ok (), f s)"

definition act_when :: "bool \<Rightarrow> ('s, 'e, unit) action \<Rightarrow> ('s, 'e, unit) action" where
  "act_when c m = (if c then m else act_return ())"

text \<open>\<open>Result::map_err\<close>.\<close>

definition act_map_err :: "('e \<Rightarrow> 'f) \<Rightarrow> ('s, 'e, 'a) action \<Rightarrow> ('s, 'f, 'a) action" where
  "act_map_err g m = act_catch m (\<lambda>e. act_throw (g e))"

text \<open>An operation on the second part of the state: the outside world beside a policy.\<close>

definition act_on_snd :: "('w, 'e, 'a) action \<Rightarrow> ('p \<times> 'w, 'e, 'a) action" where
  "act_on_snd m s = (case m (snd s) of (r, w) \<Rightarrow> (r, (fst s, w)))"

text \<open>Reading and changing the policy beside the outside world, and an operation with errors of another type.\<close>

definition io_step :: "('w, 'x, 'a) action \<Rightarrow> ('x \<Rightarrow> 'e) \<Rightarrow> ('p \<times> 'w, 'e, 'a) action" where
  "io_step m f = act_map_err f (act_on_snd m)"

definition change :: "('p \<Rightarrow> 'p) \<Rightarrow> ('p \<times> 'w, 'e, unit) action" where
  "change f = act_modify (map_prod f id)"

definition policy :: "('p \<times> 'w, 'e, 'p) action" where
  "policy = act_bind act_get (\<lambda>s. act_return (fst s))"

text \<open>An operation of a part of the policy, a field with its own state.\<close>

definition act_zoom :: "('q \<Rightarrow> 'p) \<Rightarrow> ('p \<Rightarrow> 'q \<Rightarrow> 'q) \<Rightarrow> ('p \<times> 'w, 'e, 'a) action \<Rightarrow> ('q \<times> 'w, 'e, 'a) action" where
  "act_zoom get put m s = (case m (get (fst s), snd s) of (r, (p, w)) \<Rightarrow> (r, (put p (fst s), w)))"

text \<open>A call whose result is used as a value (\<open>let result = ...\<close>, \<open>is_err\<close>).\<close>

definition act_try :: "('s, 'e, 'a) action \<Rightarrow> ('s, 'f, 'e + 'a) action" where
  "act_try m s = (case m s of (Ok a, s') \<Rightarrow> (Ok (Inr a), s') | (Err e, s') \<Rightarrow> (Ok (Inl e), s') | (Panic, s') \<Rightarrow> (Panic, s'))"

section \<open>Weakest preconditions\<close>

definition wp :: "('s, 'e, 'a) action \<Rightarrow> (('e, 'a) outcome \<Rightarrow> 's \<Rightarrow> bool) \<Rightarrow> 's \<Rightarrow> bool" where
  "wp m Q s = (case m s of (r, s') \<Rightarrow> Q r s')"

named_theorems wp_simps \<open>weakest preconditions of the combinators\<close>

lemma wp_return [wp_simps]: "wp (act_return a) Q s = Q (Ok a) s"
  by (simp add: wp_def act_return_def)

lemma wp_throw [wp_simps]: "wp (act_throw e) Q s = Q (Err e) s"
  by (simp add: wp_def act_throw_def)

lemma wp_lift [wp_simps]: "wp (act_lift r) Q s = Q r s"
  by (simp add: wp_def act_lift_def)

lemma wp_bind [wp_simps]:
  "wp (act_bind m f) Q s =
     wp m (\<lambda>r s'. case r of Ok a \<Rightarrow> wp (f a) Q s' | Err e \<Rightarrow> Q (Err e) s' | Panic \<Rightarrow> Q Panic s') s"
  by (simp add: wp_def act_bind_def split: prod.splits outcome.splits)

lemma wp_catch [wp_simps]:
  "wp (act_catch m h) Q s =
     wp m (\<lambda>r s'. case r of Ok a \<Rightarrow> Q (Ok a) s' | Err e \<Rightarrow> wp (h e) Q s' | Panic \<Rightarrow> Q Panic s') s"
  by (simp add: wp_def act_catch_def split: prod.splits outcome.splits)

lemma wp_get [wp_simps]: "wp act_get Q s = Q (Ok s) s"
  by (simp add: wp_def act_get_def)

lemma wp_modify [wp_simps]: "wp (act_modify f) Q s = Q (Ok ()) (f s)"
  by (simp add: wp_def act_modify_def)

lemma wp_when [wp_simps]: "wp (act_when c m) Q s = (if c then wp m Q s else Q (Ok ()) s)"
  by (simp add: act_when_def wp_return)

lemma wp_map_err [wp_simps]:
  "wp (act_map_err g m) Q s =
     wp m (\<lambda>r s'. case r of Ok a \<Rightarrow> Q (Ok a) s' | Err e \<Rightarrow> Q (Err (g e)) s' | Panic \<Rightarrow> Q Panic s') s"
  by (simp add: act_map_err_def wp_catch wp_throw cong: outcome.case_cong)

lemma wp_on_snd [wp_simps]: "wp (act_on_snd m) Q s = wp m (\<lambda>r w. Q r (fst s, w)) (snd s)"
  by (simp add: wp_def act_on_snd_def split: prod.splits)

lemma wp_zoom [wp_simps]:
  "wp (act_zoom get put m) Q s = wp m (\<lambda>r s'. Q r (put (fst s') (fst s), snd s')) (get (fst s), snd s)"
  by (simp add: wp_def act_zoom_def split: prod.splits)

lemma wp_try [wp_simps]:
  "wp (act_try m) Q s =
     wp m (\<lambda>r s'. case r of Ok a \<Rightarrow> Q (Ok (Inr a)) s' | Err e \<Rightarrow> Q (Ok (Inl e)) s' | Panic \<Rightarrow> Q Panic s') s"
  by (simp add: wp_def act_try_def split: prod.splits outcome.splits)

lemma wp_if [wp_simps]: "wp (if c then m else n) Q s = (if c then wp m Q s else wp n Q s)"
  by simp

text \<open>A specification proved once is used by consequence, and by sequencing.\<close>

lemma wp_mono: "wp m P s \<Longrightarrow> (\<And>r s'. P r s' \<Longrightarrow> Q r s') \<Longrightarrow> wp m Q s"
  by (auto simp: wp_def split: prod.splits)

lemma wp_bindI:
  assumes "wp m P s" "\<And>a s'. P (Ok a) s' \<Longrightarrow> wp (f a) Q s'" "\<And>e s'. P (Err e) s' \<Longrightarrow> Q (Err e) s'"
    and "\<And>s'. \<not> P Panic s'"
  shows "wp (act_bind m f) Q s"
  unfolding wp_bind using assms by (intro wp_mono[OF assms(1)]) (auto split: outcome.splits)

lemma wp_catchI:
  assumes "wp m P s" "\<And>a s'. P (Ok a) s' \<Longrightarrow> Q (Ok a) s'" "\<And>e s'. P (Err e) s' \<Longrightarrow> wp (h e) Q s'"
    and "\<And>s'. \<not> P Panic s'"
  shows "wp (act_catch m h) Q s"
  unfolding wp_catch using assms by (intro wp_mono[OF assms(1)]) (auto split: outcome.splits)

lemma wp_result: "wp m Q s \<Longrightarrow> m s = (r, s') \<Longrightarrow> Q r s'"
  by (simp add: wp_def)

lemma wp_conj: "wp m P s \<Longrightarrow> wp m Q s \<Longrightarrow> wp m (\<lambda>r s'. P r s' \<and> Q r s') s"
  by (auto simp: wp_def split: prod.splits)

end
