(* ===== verification/Typec.thy ===== *)
theory Typec
  imports Action Machine
begin

text \<open>
  \<open>drivers/usb/tegra210-xusb/src/typec.rs\<close>: the registers of the BM92T Type-C controller and of the
  BQ24193 charger, and the stable snapshot of the port. The trait \<open>Registers\<close> is a record of
  functions over an outside world of type \<open>'w\<close> (the bus, the devices and the clock), of which nothing
  is assumed: every read may fail, and two reads of one register may differ. A read fills a buffer of
  the caller's length, so it returns the byte for each index. Diagnostic messages are \<open>string\<close>s.
\<close>

definition BM92T_ADDRESS :: u8 where "BM92T_ADDRESS = 0x18"
definition CHARGER_ADDRESS :: u8 where "CHARGER_ADDRESS = 0x6b"
definition STATUS1 :: u8 where "STATUS1 = 0x03"
definition STATUS2 :: u8 where "STATUS2 = 0x04"
definition COMMAND :: u8 where "COMMAND = 0x05"
definition DP_STATUS :: u8 where "DP_STATUS = 0x18"

record 'w Registers =
  io_read :: "'w \<Rightarrow> u8 \<Rightarrow> u8 \<Rightarrow> nat \<Rightarrow> (reason + (nat \<Rightarrow> u8)) \<times> 'w"
  io_write :: "'w \<Rightarrow> u8 \<Rightarrow> u8 \<Rightarrow> bytes \<Rightarrow> (reason + unit) \<times> 'w"
  io_clock :: "'w \<Rightarrow> u64 \<Rightarrow> u64 \<times> 'w"

definition read_bytes :: "'w Registers \<Rightarrow> u8 \<Rightarrow> u8 \<Rightarrow> nat \<Rightarrow> ('w, reason, bytes) action" where
  "read_bytes io address register n w =
     (case io_read io w address register n of
        (Inr f, w') \<Rightarrow> (Ok (map f [0..<n]), w')
      | (Inl e, w') \<Rightarrow> (Err e, w'))"

definition write_bytes :: "'w Registers \<Rightarrow> u8 \<Rightarrow> u8 \<Rightarrow> bytes \<Rightarrow> ('w, reason, unit) action" where
  "write_bytes io address register data w =
     (case io_write io w address register data of (Inr u, w') \<Rightarrow> (Ok (), w') | (Inl e, w') \<Rightarrow> (Err e, w'))"

text \<open>The kernel samples its timer; the host tests take the fallback.\<close>

definition post_io_time :: "'w Registers \<Rightarrow> u64 \<Rightarrow> ('w, 'e, u64) action" where
  "post_io_time io fallback w = (case io_clock io w fallback of (t, w') \<Rightarrow> (Ok t, w'))"

definition word_reg :: "'w Registers \<Rightarrow> u8 \<Rightarrow> ('w, reason, u16) action" where
  "word_reg io register =
     act_bind (read_bytes io BM92T_ADDRESS register 2) (\<lambda>b. act_return (from_le_bytes b))"

definition byte_reg :: "'w Registers \<Rightarrow> u8 \<Rightarrow> ('w, reason, u8) action" where
  "byte_reg io register =
     act_bind (read_bytes io CHARGER_ADDRESS register 1) (\<lambda>b. act_lift (byte_at b 0))"

definition NOT_LATCHED :: reason where
  "NOT_LATCHED = ''BM92T configuration did not latch''"

definition update_word :: "'w Registers \<Rightarrow> u8 \<Rightarrow> u16 \<Rightarrow> u16 \<Rightarrow> ('w, reason, unit) action" where
  "update_word io register msk bits =
     act_bind (word_reg io register) (\<lambda>old.
     let new = (old AND NOT msk) OR (bits AND msk) in
     act_when (new \<noteq> old)
       (act_bind (write_bytes io BM92T_ADDRESS register (to_le_bytes new)) (\<lambda>_.
        act_bind (word_reg io register) (\<lambda>back.
        act_when (back AND msk \<noteq> new AND msk) (act_throw NOT_LATCHED)))))"

section \<open>The state of the port\<close>

datatype DataRole = NoRole | Device | Host | Accessory

datatype Orientation = NoSide | Cc1 | Cc2

record PortState =
  status1 :: u16
  status2 :: u16
  dp_status :: u16
  attached :: bool
  data_role :: DataRole
  side :: Orientation
  is_source :: bool
  is_host :: bool
  vbus_valid :: bool
  otg_inserted :: bool
  dp_active :: bool
  fault :: u8
  command_busy :: bool

definition role_of :: "u16 \<Rightarrow> DataRole" where
  "role_of s1 =
     (if s1 AND 0x80 = 0 then NoRole
      else if drop_bit 8 s1 AND 3 = 1 then Device
      else if drop_bit 8 s1 AND 3 = 2 then Host
      else if drop_bit 8 s1 AND 3 = 3 then Accessory
      else NoRole)"

definition side_of :: "u16 \<Rightarrow> Orientation" where
  "side_of s1 = (if s1 AND 0x80 = 0 then NoSide else if s1 AND 0x800 \<noteq> 0 then Cc2 else Cc1)"

definition host_role :: "u16 \<Rightarrow> u16 \<Rightarrow> u16 \<Rightarrow> bool" where
  "host_role s1 s2 dp \<longleftrightarrow>
     s1 AND 0x80 \<noteq> 0 \<and> role_of s1 = Host \<and> (ucast (s1 AND 3) :: u8) = 0 \<and> \<not> s1 AND 0x2000 \<noteq> 0
     \<and> s2 AND 0xc00 = 0 \<and> \<not> (s1 AND 0x80 \<noteq> 0 \<and> dp AND 0x8080 \<noteq> 0)"

definition from_registers :: "u16 \<Rightarrow> u16 \<Rightarrow> u16 \<Rightarrow> PortState" where
  "from_registers s1 s2 dp =
     \<lparr>status1 = s1, status2 = s2, dp_status = dp, attached = (s1 AND 0x80 \<noteq> 0), data_role = role_of s1,
      side = side_of s1, is_source = (s1 AND 0x80 \<noteq> 0 \<and> s1 AND 0x1000 \<noteq> 0),
      is_host = (host_role s1 s2 dp \<and> s1 AND 0x80 \<noteq> 0 \<and> s1 AND 0x400 \<noteq> 0),
      vbus_valid = (s1 AND 0x80 \<noteq> 0 \<and> s1 AND 0x400 \<noteq> 0),
      otg_inserted = (s1 AND 0x80 \<noteq> 0 \<and> s2 AND 0x2000 \<noteq> 0),
      dp_active = (s1 AND 0x80 \<noteq> 0 \<and> dp AND 0x8080 \<noteq> 0), fault = ucast (s1 AND 3),
      command_busy = (s1 AND 0x2000 \<noteq> 0)\<rparr>"

definition can_source :: "PortState \<Rightarrow> bool" where
  "can_source st \<longleftrightarrow>
     attached st \<and> data_role st \<noteq> Accessory \<and> is_source st \<and> otg_inserted st \<and> fault st = 0
     \<and> status2 st AND 0xc00 = 0 \<and> \<not> dp_active st"

section \<open>Snapshots\<close>

datatype ObservationError = ObsTransport reason | ObsFault PortState | ObsUnsafe reason

definition OBSERVED_FAULT :: reason where
  "OBSERVED_FAULT = ''BM92T observed a Type-C electrical fault''"
definition UNSTABLE :: reason where
  "UNSTABLE = ''BM92T attachment changed during status read''"

fun obs_reason :: "ObservationError \<Rightarrow> reason" where
  "obs_reason (ObsTransport r) = r"
| "obs_reason (ObsUnsafe r) = r"
| "obs_reason (ObsFault st) = OBSERVED_FAULT"

text \<open>One turn of the loop: the snapshot, or nothing when the attachment changed under the reads.\<close>

definition snapshot_turn :: "'w Registers \<Rightarrow> ('w, ObservationError, PortState option) action" where
  "snapshot_turn io =
     act_bind (act_map_err ObsTransport (word_reg io STATUS1)) (\<lambda>earlier.
     if earlier AND 3 \<noteq> 0 then act_throw (ObsFault (from_registers earlier 0 0)) else
     act_bind (act_map_err ObsTransport (word_reg io STATUS2)) (\<lambda>s2.
     act_bind (act_map_err ObsTransport (word_reg io DP_STATUS)) (\<lambda>dp.
     act_bind (act_map_err ObsTransport (word_reg io STATUS1)) (\<lambda>later.
     if later AND 3 \<noteq> 0 then act_throw (ObsFault (from_registers later s2 dp))
     else if earlier = later then act_return (Some (from_registers earlier s2 dp))
     else act_return None))))"

fun snapshot_loop :: "nat \<Rightarrow> 'w Registers \<Rightarrow> ('w, ObservationError, PortState) action" where
  "snapshot_loop 0 io = act_throw (ObsUnsafe UNSTABLE)"
| "snapshot_loop (Suc n) io =
     act_bind (snapshot_turn io) (\<lambda>r. case r of Some st \<Rightarrow> act_return st | None \<Rightarrow> snapshot_loop n io)"

definition snapshot_once :: "'w Registers \<Rightarrow> ('w, ObservationError, PortState) action" where
  "snapshot_once = snapshot_loop 3"

definition snapshot_checked :: "'w Registers \<Rightarrow> ('w, ObservationError, PortState) action" where
  "snapshot_checked io =
     act_catch (snapshot_once io)
       (\<lambda>e. case e of ObsTransport r \<Rightarrow> snapshot_once io | e \<Rightarrow> act_throw e)"

definition snapshot :: "'w Registers \<Rightarrow> ('w, reason, PortState) action" where
  "snapshot io =
     act_catch (snapshot_checked io)
       (\<lambda>e. case e of ObsFault st \<Rightarrow> act_return st | e \<Rightarrow> act_throw (obs_reason e))"

end
