(* ===== verification/Pd_Policy.thy ===== *)
theory Pd_Policy
  imports Typec
begin

text \<open>
  \<open>drivers/usb/tegra210-xusb/src/pd.rs\<close>: the USB power delivery policy of the BM92T controller. A
  sink attachment is negotiated (select a source profile, send the request, wait for the contract,
  send PS_RDY, swap the data role) in bounded steps of a state machine; each step is one call of
  \<open>poll\<close>. The fields of \<open>PdPolicy\<close> and the outside world are the state of the actions.
\<close>

definition ALERT :: u8 where "ALERT = 0x02"
definition SOURCE_CAPS :: u8 where "SOURCE_CAPS = 0x08"
definition CURRENT_PDO :: u8 where "CURRENT_PDO = 0x28"
definition CURRENT_RDO :: u8 where "CURRENT_RDO = 0x2b"
definition SET_RDO :: u8 where "SET_RDO = 0x30"
definition ALERT_FAULT :: u16 where "ALERT_FAULT = 3"
definition ALERT_DONE :: u16 where "ALERT_DONE = 4"
definition ALERT_PLUGPULL :: u16 where "ALERT_PLUGPULL = 8"
definition ALERT_CONTRACT :: u16 where "ALERT_CONTRACT = 0x1000"
definition ALERT_PDO :: u16 where "ALERT_PDO = 0x4000"
definition SEND_RDO :: u16 where "SEND_RDO = 0x0707"
definition PS_RDY :: u16 where "PS_RDY = 0x0505"
definition DR_SWAP :: u16 where "DR_SWAP = 0x1818"
definition SETTLE_NS :: u64 where "SETTLE_NS = 250000000"
definition COMMAND_TIMEOUT_NS :: u64 where "COMMAND_TIMEOUT_NS = 1000000000"

text \<open>The messages of the code, named once: they are only ever carried, never inspected.\<close>

definition FAULT :: reason where "FAULT = ''BM92T PD fault during data-role handoff''"
definition PLUGPULL :: reason where "PLUGPULL = ''BM92T connection changed during data-role handoff''"
definition CONTRACT_CHANGED :: reason where "CONTRACT_CHANGED = ''BM92T completed power contract changed''"
definition PATH_CHANGED :: reason where
  "PATH_CHANGED = ''BM92T sink power or USB path changed during data-role handoff''"
definition CAPS_LENGTH :: reason where "CAPS_LENGTH = ''BM92T source capabilities have invalid length''"
definition DOCK_PROFILE :: reason where
  "DOCK_PROFILE = ''BM92T Nintendo dock profile requires fixed 15V at 2.6-3A''"
definition NO_PROFILE :: reason where "NO_PROFILE = ''BM92T source has no supported fixed power profile''"
definition BELOW_RESERVE :: reason where
  "BELOW_RESERVE = ''BM92T source current is below USB power reserve''"
definition NO_CURRENT :: reason where
  "NO_CURRENT = ''BM92T source cannot supply a supported charging current''"
definition NOT_VALIDATED :: reason where "NOT_VALIDATED = ''BM92T PD contract was not validated''"
definition OBJECT_LENGTH :: reason where "OBJECT_LENGTH = ''BM92T refreshed PDO or RDO has invalid length''"
definition POWER_CHANGED :: reason where
  "POWER_CHANGED = ''BM92T power contract changed during data-role handoff''"
definition CHANGED_AFTER :: reason where
  "CHANGED_AFTER = ''BM92T power contract changed after current-object validation''"
definition BUSY_BEFORE :: reason where "BUSY_BEFORE = ''BM92T controller busy before data-role command''"
definition TIMED_OUT :: reason where "TIMED_OUT = ''BM92T data-role command timed out''"
definition REJECTED :: reason where "REJECTED = ''BM92T data-role command was rejected or aborted''"
definition STILL_BUSY :: reason where "STILL_BUSY = ''BM92T PS_RDY completion still reports busy''"
definition BECAME_BUSY :: reason where
  "BECAME_BUSY = ''BM92T controller became busy after PS_RDY completion''"
definition NOT_DUAL_ROLE :: reason where
  "NOT_DUAL_ROLE = ''BM92T source does not advertise dual-role USB data''"
definition NO_HOST_ROLE :: reason where
  "NO_HOST_ROLE = ''BM92T DR_SWAP completion did not establish USB host role''"
definition LOST_PATH :: reason where "LOST_PATH = ''BM92T retained charging lost its valid sink power path''"
definition REVALIDATION :: reason where
  "REVALIDATION = ''BM92T completed contract revalidation timed out''"
definition LOST_HOST :: reason where "LOST_HOST = ''BM92T completed handoff lost its USB host role''"
definition PROFILE_CHANGED :: reason where
  "PROFILE_CHANGED = ''BM92T power profile changed during capability discovery''"
definition ROLE_CHANGED :: reason where
  "ROLE_CHANGED = ''BM92T controller or data role changed before RDO request''"
definition PROFILE_CHANGED_SEND :: reason where
  "PROFILE_CHANGED_SEND = ''BM92T power profile changed before RDO send command''"
definition ROLE_CHANGED_SEND :: reason where
  "ROLE_CHANGED_SEND = ''BM92T controller or data role changed before RDO send command''"

section \<open>Data\<close>

datatype PdPhase =
  Idle | WaitContract | WaitReady | WaitSwap | Complete
| Revalidate reason | Unsupported reason | Failed reason

record Contract =
  c_source_pdo0 :: u32
  c_current_pdo :: u32
  c_rdo :: u32
  c_charger_input :: u8
  input_current_ma :: u16
  caps_count :: u8
  object_position :: u8
  voltage_mv :: u16
  operating_current_ma :: u16
  maximum_current_ma :: u16
  advertised_current_ma :: u16
  charging_limit_ma :: u16
  drd_supported :: bool

record PdStatus =
  phase :: PdPhase
  contract :: "Contract option"
  source_caps_len :: "u8 option"
  source_pdo0 :: "u32 option"
  current_pdo :: "u32 option"
  rdo :: "u32 option"
  charger_input :: "u8 option"
  last_alert :: u16
  last_status1 :: u16
  charge_ready_at_ns :: "u64 option"

definition default_status :: PdStatus where
  "default_status =
     \<lparr>phase = Idle, contract = None, source_caps_len = None, source_pdo0 = None, current_pdo = None,
      rdo = None, charger_input = None, last_alert = 0, last_status1 = 0, charge_ready_at_ns = None\<rparr>"

record PdPolicy =
  status :: PdStatus
  orientation :: "Orientation option"
  stable_since :: "u64 option"
  stable_polls :: u8
  deadline :: u64
  contract_seen :: bool
  recovered_charge_at :: "u64 option"
  captured_alert :: "u16 option"

definition default_policy :: PdPolicy where
  "default_policy =
     \<lparr>status = default_status, orientation = None, stable_since = None, stable_polls = 0, deadline = 0,
      contract_seen = False, recovered_charge_at = None, captured_alert = None\<rparr>"

datatype PdError = Transport reason | Unsafe reason

fun pd_reason :: "PdError \<Rightarrow> reason" where
  "pd_reason (Transport r) = r"
| "pd_reason (Unsafe r) = r"

fun of_observation :: "ObservationError \<Rightarrow> PdError" where
  "of_observation (ObsTransport r) = Transport r"
| "of_observation (ObsFault st) = Unsafe (obs_reason (ObsFault st))"
| "of_observation (ObsUnsafe r) = Unsafe (obs_reason (ObsUnsafe r))"

type_synonym ('w, 'a) pd_action = "(PdPolicy \<times> 'w, PdError, 'a) action"

definition change_status :: "(PdStatus \<Rightarrow> PdStatus) \<Rightarrow> ('w, unit) pd_action" where
  "change_status f = change (status_update f)"

definition take_snapshot :: "'w Registers \<Rightarrow> ('w, PortState) pd_action" where
  "take_snapshot io = act_map_err of_observation (act_on_snd (snapshot_checked io))"

definition pd_word :: "'w Registers \<Rightarrow> u8 \<Rightarrow> ('w, u16) pd_action" where
  "pd_word io register =
     act_bind (io_step (read_bytes io BM92T_ADDRESS register 2) Transport)
       (\<lambda>b. act_return (from_le_bytes b))"

definition object :: "'w Registers \<Rightarrow> u8 \<Rightarrow> ('w, u8 \<times> u32) pd_action" where
  "object io register =
     act_bind (io_step (read_bytes io BM92T_ADDRESS register 5) Transport) (\<lambda>b.
     act_bind (act_lift (byte_at b 0)) (\<lambda>n.
     act_bind (act_lift (read_le 4 b 1)) (\<lambda>v. act_return (n, v))))"

definition input_limit :: "'w Registers \<Rightarrow> ('w, u8) pd_action" where
  "input_limit io =
     act_bind (io_step (read_bytes io CHARGER_ADDRESS 0 1) Transport) (\<lambda>b. act_lift (byte_at b 0))"

definition pd_time :: "'w Registers \<Rightarrow> u64 \<Rightarrow> ('w, u64) pd_action" where
  "pd_time io now = act_on_snd (post_io_time io now)"

definition sink_power_valid :: "PortState \<Rightarrow> bool" where
  "sink_power_valid st \<longleftrightarrow>
     attached st \<and> vbus_valid st \<and> status1 st AND 0x4000 \<noteq> 0 \<and> \<not> is_source st \<and> \<not> otg_inserted st
     \<and> fault st = 0 \<and> status2 st AND 0xc00 = 0 \<and> \<not> dp_active st
     \<and> (data_role st = Device \<or> data_role st = Host)"

section \<open>Transitions of the policy\<close>

definition host_allowed :: "PdPolicy \<Rightarrow> bool" where
  "host_allowed p \<longleftrightarrow> phase (status p) = Idle \<or> phase (status p) = Complete"

definition fail :: "reason \<Rightarrow> PdPolicy \<Rightarrow> PdPolicy" where
  "fail r p = p\<lparr>status := (status p)\<lparr>phase := Failed r, charge_ready_at_ns := None\<rparr>,
                stable_since := None, recovered_charge_at := None\<rparr>"

definition transport_lost :: "reason \<Rightarrow> u64 \<Rightarrow> PdPolicy \<Rightarrow> PdPolicy" where
  "transport_lost r now p =
     (case phase (status p) of
        Complete \<Rightarrow> p\<lparr>recovered_charge_at := charge_ready_at_ns (status p),
                      status := (status p)\<lparr>phase := Revalidate r, charge_ready_at_ns := None\<rparr>,
                      deadline := sat_add now COMMAND_TIMEOUT_NS\<rparr>
      | Revalidate _ \<Rightarrow> if now < deadline p then p else fail r p
      | Idle \<Rightarrow> p
      | _ \<Rightarrow> fail r p)"

definition observation_failed :: "reason \<Rightarrow> PdPolicy \<Rightarrow> PdPolicy" where
  "observation_failed r p = (if phase (status p) \<noteq> Idle then fail r p else p)"

definition data_role_failed :: "reason \<Rightarrow> PdPolicy \<Rightarrow> PdPolicy" where
  "data_role_failed r p = p\<lparr>status := (status p)\<lparr>phase := Failed r\<rparr>, stable_since := None\<rparr>"

definition unsupported :: "reason \<Rightarrow> PdPolicy \<Rightarrow> PdPolicy" where
  "unsupported r p = p\<lparr>status := (status p)\<lparr>phase := Unsupported r\<rparr>, stable_since := None\<rparr>"

definition reset :: "Orientation option \<Rightarrow> PdPolicy \<Rightarrow> PdPolicy" where
  "reset o' p = default_policy\<lparr>orientation := o'\<rparr>"

definition same_attachment :: "PortState \<Rightarrow> PdPolicy \<Rightarrow> bool \<times> PdPolicy" where
  "same_attachment st p =
     (if \<not> attached st then (False, (reset None p)\<lparr>status := default_status\<lparr>last_status1 := status1 st\<rparr>\<rparr>)
      else if orientation p \<noteq> Some (side st)
      then (False, (reset (Some (side st)) p)\<lparr>status := default_status\<lparr>last_status1 := status1 st\<rparr>\<rparr>)
      else (True, p\<lparr>status := (status p)\<lparr>last_status1 := status1 st\<rparr>\<rparr>))"

definition completed :: "PdPhase \<Rightarrow> bool" where
  "completed ph \<longleftrightarrow> (case ph of Complete \<Rightarrow> True | Revalidate _ \<Rightarrow> True | _ \<Rightarrow> False)"

definition take_alert :: "'w Registers \<Rightarrow> ('w, u16) pd_action" where
  "take_alert io =
     act_bind policy (\<lambda>p.
     case captured_alert p of
       Some alert \<Rightarrow> act_bind (change (\<lambda>p. p\<lparr>captured_alert := None\<rparr>)) (\<lambda>_. act_return alert)
     | None \<Rightarrow> pd_word io ALERT)"

definition event :: "'w Registers \<Rightarrow> bool \<Rightarrow> ('w, (u16 \<times> PortState) option) pd_action" where
  "event io initial_drain =
     act_bind (take_alert io) (\<lambda>alert.
     act_bind (change_status (\<lambda>s. s\<lparr>last_alert := alert\<rparr>)) (\<lambda>_.
     if alert AND ALERT_FAULT \<noteq> 0 then act_throw (Unsafe FAULT)
     else if \<not> initial_drain \<and> alert AND ALERT_PLUGPULL \<noteq> 0 then act_throw (Unsafe PLUGPULL)
     else act_bind policy (\<lambda>p.
     if completed (phase (status p)) \<and> alert AND (ALERT_CONTRACT OR ALERT_PDO) \<noteq> 0
     then act_throw (Unsafe CONTRACT_CHANGED)
     else act_bind (take_snapshot io) (\<lambda>st.
     act_bind policy (\<lambda>p.
     act_bind (change (\<lambda>p. snd (same_attachment st p))) (\<lambda>_.
     if \<not> fst (same_attachment st p) then act_return None
     else if alert AND ALERT_FAULT \<noteq> 0 \<or> fault st \<noteq> 0 then act_throw (Unsafe FAULT)
     else if \<not> initial_drain \<and> alert AND ALERT_PLUGPULL \<noteq> 0 then act_throw (Unsafe PLUGPULL)
     else if \<not> sink_power_valid st then act_throw (Unsafe PATH_CHANGED)
     else act_return (Some (alert, st))))))))"

section \<open>Selection of the power profile\<close>

definition pdo_voltage :: "u32 \<Rightarrow> u32" where "pdo_voltage pdo = drop_bit 10 pdo AND 0x3ff"
definition pdo_current :: "u32 \<Rightarrow> u32" where "pdo_current pdo = pdo AND 0x3ff"

text \<open>The two guards with \<open>continue\<close>.\<close>

definition candidate :: "bool \<Rightarrow> nat \<Rightarrow> u32 \<Rightarrow> bool" where
  "candidate dock index pdo \<longleftrightarrow>
     \<not> (drop_bit 30 pdo \<noteq> 0 \<or> pdo_voltage pdo \<notin> {100, 180, 240, 300} \<or> pdo_current pdo = 0
        \<or> 300 < pdo_current pdo)
     \<and> \<not> (dock \<and> (index \<noteq> 1 \<or> pdo_voltage pdo \<noteq> 300 \<or> pdo_current pdo < 260))"

definition better :: "u32 \<Rightarrow> u32 \<Rightarrow> u32 \<Rightarrow> u32 \<Rightarrow> bool" where
  "better pdo watts previous previous_watts \<longleftrightarrow>
     previous_watts < watts \<or> watts = previous_watts \<and> pdo_voltage previous < pdo_voltage pdo"

definition select_turn ::
    "bool \<Rightarrow> bytes \<Rightarrow> nat \<Rightarrow> (nat \<times> u32 \<times> u32) option \<Rightarrow> (PdError, (nat \<times> u32 \<times> u32) option) outcome" where
  "select_turn dock caps index selected =
     and_then (read_le 4 caps (1 + index * 4)) (\<lambda>pdo.
     if \<not> candidate dock index pdo then Ok selected else
     let watts = pdo_voltage pdo * pdo_current pdo in
     Ok (case selected of
           None \<Rightarrow> Some (index + 1, pdo, watts)
         | Some (_, previous, previous_watts) \<Rightarrow>
             if better pdo watts previous previous_watts then Some (index + 1, pdo, watts) else selected))"

definition CURRENT_TABLE :: "u16 list" where
  "CURRENT_TABLE = [100, 150, 500, 900, 1200, 1500, 2000, 3000]"

definition make_contract :: "u32 \<Rightarrow> u8 \<Rightarrow> u8 \<Rightarrow> nat \<Rightarrow> u32 \<Rightarrow> (PdError, Contract) outcome" where
  "make_contract pdo0 input count position pdo =
     (let voltage_units = (ucast (pdo_voltage pdo) :: u16);
          mv = voltage_units * 50;
          advertised = (ucast (pdo_current pdo) :: u16) * 10;
          reserve = (if mv = 5000 then 2500000 else 4500000) div (ucast mv :: u32)
      in and_then (ok_or (checked_sub (ucast advertised) reserve) (Unsafe BELOW_RESERVE)) (\<lambda>available.
         let board = (if mv = 5000 \<or> mv = 9000 then 2000 else if mv = 12000 then 1500 else 1200 :: u32);
             limit = min available board
         in and_then (ok_or (find (\<lambda>current. (ucast current :: u32) \<le> limit) (rev CURRENT_TABLE))
                        (Unsafe NO_CURRENT)) (\<lambda>charging.
            Ok \<lparr>c_source_pdo0 = pdo0, c_current_pdo = pdo,
                c_rdo = push_bit 28 (word_of_nat position) OR 0x4000000
                  OR push_bit 10 (ucast (charging div 10)) OR (pdo AND 0x3ff),
                c_charger_input = input, input_current_ma = CURRENT_TABLE ! unat (input AND 7),
                caps_count = count, object_position = word_of_nat position, voltage_mv = mv,
                operating_current_ma = charging, maximum_current_ma = advertised,
                advertised_current_ma = advertised, charging_limit_ma = charging,
                drd_supported = (pdo0 AND 0x2000000 \<noteq> 0)\<rparr>)))"

definition select_profile :: "bytes \<Rightarrow> u32 \<Rightarrow> u8 \<Rightarrow> u8 \<Rightarrow> (PdError, Contract) outcome" where
  "select_profile caps pdo0 len input =
     (if len = 0 \<or> 28 < len \<or> len mod 4 \<noteq> 0 then Err (Unsafe CAPS_LENGTH) else
      let count = len div 4;
          dock = (count = 2 \<and> pdo_voltage pdo0 = 100 \<and> pdo_current pdo0 = 50)
      in and_then (for_each (select_turn dock caps) [0..<unat count] None) (\<lambda>selected.
         and_then (ok_or selected (Unsafe (if dock then DOCK_PROFILE else NO_PROFILE)))
           (\<lambda>(position, pdo, _). make_contract pdo0 input count position pdo)))"

definition discover :: "'w Registers \<Rightarrow> ('w, Contract) pd_action" where
  "discover io =
     act_bind (io_step (read_bytes io BM92T_ADDRESS SOURCE_CAPS 29) Transport) (\<lambda>caps.
     act_bind (act_lift (byte_at caps 0)) (\<lambda>len.
     act_bind (change_status (\<lambda>s. s\<lparr>source_caps_len := Some len\<rparr>)) (\<lambda>_.
     act_bind (act_lift (read_le 4 caps 1)) (\<lambda>pdo0.
     act_bind (change_status (\<lambda>s. s\<lparr>source_pdo0 := Some pdo0\<rparr>)) (\<lambda>_.
     act_bind (object io CURRENT_PDO) (\<lambda>(_, inherited_pdo).
     act_bind (change_status (\<lambda>s. s\<lparr>current_pdo := Some inherited_pdo\<rparr>)) (\<lambda>_.
     act_bind (object io CURRENT_RDO) (\<lambda>(_, inherited_rdo).
     act_bind (change_status (\<lambda>s. s\<lparr>rdo := Some inherited_rdo\<rparr>)) (\<lambda>_.
     act_bind (input_limit io) (\<lambda>input.
     act_bind (change_status (\<lambda>s. s\<lparr>charger_input := Some input\<rparr>)) (\<lambda>_.
     act_lift (select_profile caps pdo0 len input))))))))))))"

end
