(* ===== verification/Pd_Poll.thy ===== *)
theory Pd_Poll
  imports Pd_Policy
begin

text \<open>
  \<open>drivers/usb/tegra210-xusb/src/pd.rs\<close>, continued: the validation of the contract, the commands, and
  the steps of the monitor (\<open>poll\<close>, \<open>poll_with_alert\<close>, \<open>capture_alert\<close>, \<open>next_deadline_ns\<close>).
\<close>

section \<open>The contract in force\<close>

definition unchanged_contract :: "'w Registers \<Rightarrow> ('w, unit) pd_action" where
  "unchanged_contract io =
     act_bind policy (\<lambda>p.
     act_bind (act_lift (ok_or (contract (status p)) (Unsafe NOT_VALIDATED))) (\<lambda>expected.
     act_bind (object io CURRENT_PDO) (\<lambda>(pdo_len, pdo).
     act_bind (change_status (\<lambda>s. s\<lparr>current_pdo := Some pdo\<rparr>)) (\<lambda>_.
     if pdo_len \<noteq> 4 then act_throw (Unsafe OBJECT_LENGTH)
     else if pdo \<noteq> c_current_pdo expected then act_throw (Unsafe POWER_CHANGED)
     else act_bind (object io CURRENT_RDO) (\<lambda>(rdo_len, r).
     act_bind (change_status (\<lambda>s. s\<lparr>rdo := Some r\<rparr>)) (\<lambda>_.
     if rdo_len \<noteq> 4 then act_throw (Unsafe OBJECT_LENGTH)
     else if (r XOR c_rdo expected) AND 0xf00fffff \<noteq> 0 then act_throw (Unsafe POWER_CHANGED)
     else act_bind (input_limit io) (\<lambda>input.
     change_status (\<lambda>s. s\<lparr>charger_input := Some input\<rparr>))))))))"

definition checked_contract_state :: "'w Registers \<Rightarrow> ('w, PortState option) pd_action" where
  "checked_contract_state io =
     act_bind (unchanged_contract io) (\<lambda>_.
     act_bind (event io False) (\<lambda>r.
     case r of
       None \<Rightarrow> act_return None
     | Some (alert, st) \<Rightarrow>
         if alert AND (ALERT_CONTRACT OR ALERT_PDO) \<noteq> 0 then act_throw (Unsafe CHANGED_AFTER)
         else act_return (Some st)))"

section \<open>Commands\<close>

definition write_command :: "'w Registers \<Rightarrow> u16 \<Rightarrow> ('w, reason, unit) action" where
  "write_command io cmd = write_bytes io BM92T_ADDRESS COMMAND (to_le_bytes cmd)"

definition start_phase :: "'w Registers \<Rightarrow> PdPhase \<Rightarrow> u64 \<Rightarrow> ('w, unit) pd_action" where
  "start_phase io ph now =
     act_bind (change_status (\<lambda>s. s\<lparr>phase := ph\<rparr>)) (\<lambda>_.
     act_bind (pd_time io now) (\<lambda>t.
     change (\<lambda>p. p\<lparr>deadline := sat_add t COMMAND_TIMEOUT_NS\<rparr>)))"

text \<open>The arm of a failed command write.\<close>

definition command_write_failed :: "'w Registers \<Rightarrow> u16 \<Rightarrow> reason \<Rightarrow> ('w, bool) pd_action" where
  "command_write_failed io cmd r =
     act_bind policy (\<lambda>p.
     if cmd \<noteq> DR_SWAP \<or> charge_ready_at_ns (status p) = None then act_throw (Unsafe r)
     else act_bind (event io False) (\<lambda>e.
     case e of
       None \<Rightarrow> act_return False
     | Some _ \<Rightarrow>
         act_bind (checked_contract_state io) (\<lambda>c.
         case c of
           None \<Rightarrow> act_return False
         | Some _ \<Rightarrow> act_bind (change (data_role_failed r)) (\<lambda>_. act_return True))))"

definition send_command :: "'w Registers \<Rightarrow> u16 \<Rightarrow> PdPhase \<Rightarrow> u64 \<Rightarrow> ('w, bool) pd_action" where
  "send_command io cmd ph now =
     act_bind (act_catch
        (act_bind (act_on_snd (write_command io cmd)) (\<lambda>_. act_return None))
        (\<lambda>r. act_return (Some r))) (\<lambda>failure.
     case failure of
       Some r \<Rightarrow> command_write_failed io cmd r
     | None \<Rightarrow> act_bind (start_phase io ph now) (\<lambda>_. act_return True))"

definition command :: "'w Registers \<Rightarrow> u16 \<Rightarrow> PdPhase \<Rightarrow> u64 \<Rightarrow> ('w, bool) pd_action" where
  "command io cmd ph now =
     act_bind (event io False) (\<lambda>e.
     case e of
       None \<Rightarrow> act_return False
     | Some (_, st) \<Rightarrow>
         if command_busy st then act_throw (Unsafe BUSY_BEFORE)
         else act_bind (checked_contract_state io) (\<lambda>c.
         case c of
           None \<Rightarrow> act_return False
         | Some st \<Rightarrow>
             if command_busy st then act_throw (Unsafe BUSY_BEFORE)
             else if cmd = DR_SWAP \<and> data_role st = Host
             then act_bind (change_status (\<lambda>s. s\<lparr>phase := Complete\<rparr>)) (\<lambda>_. act_return True)
             else send_command io cmd ph now))"

section \<open>Waiting for a command\<close>

text \<open>A swap that timed out or was rejected keeps the charging work if the power is still valid.\<close>

definition swap_failed :: "'w Registers \<Rightarrow> reason \<Rightarrow> ('w, unit) pd_action" where
  "swap_failed io r =
     act_bind (checked_contract_state io) (\<lambda>c.
     case c of None \<Rightarrow> act_return () | Some _ \<Rightarrow> change (data_role_failed r))"

definition wait_contract :: "'w Registers \<Rightarrow> u16 \<Rightarrow> PortState \<Rightarrow> u64 \<Rightarrow> ('w, unit) pd_action" where
  "wait_contract io alert st now =
     act_bind (act_when (alert AND ALERT_CONTRACT \<noteq> 0)
       (act_bind (unchanged_contract io) (\<lambda>_. change (\<lambda>p. p\<lparr>contract_seen := True\<rparr>)))) (\<lambda>_.
     act_bind policy (\<lambda>p.
     act_when (contract_seen p \<and> \<not> command_busy st)
       (act_bind (unchanged_contract io) (\<lambda>_.
        act_bind (command io PS_RDY WaitReady now) (\<lambda>_. act_return ())))))"

definition wait_ready :: "'w Registers \<Rightarrow> PortState \<Rightarrow> u64 \<Rightarrow> ('w, unit) pd_action" where
  "wait_ready io st now =
     (if command_busy st then act_throw (Unsafe STILL_BUSY)
      else act_bind (checked_contract_state io) (\<lambda>c.
      case c of
        None \<Rightarrow> act_return ()
      | Some fresh \<Rightarrow>
          if command_busy fresh then act_throw (Unsafe BECAME_BUSY)
          else act_bind (pd_time io now) (\<lambda>t.
          act_bind (change_status (\<lambda>s. s\<lparr>charge_ready_at_ns := Some (sat_add t 2000000000)\<rparr>)) (\<lambda>_.
          if data_role fresh = Host then change_status (\<lambda>s. s\<lparr>phase := Complete\<rparr>)
          else act_bind policy (\<lambda>p.
          act_bind (act_lift (unwrap (contract (status p)))) (\<lambda>ct.
          if \<not> drd_supported ct then change (unsupported NOT_DUAL_ROLE)
          else act_bind (command io DR_SWAP WaitSwap now) (\<lambda>_. act_return ())))))))"

definition wait_swap :: "'w Registers \<Rightarrow> ('w, unit) pd_action" where
  "wait_swap io =
     act_bind (checked_contract_state io) (\<lambda>c.
     case c of
       None \<Rightarrow> act_return ()
     | Some fresh \<Rightarrow>
         if command_busy fresh \<or> data_role fresh \<noteq> Host then change (data_role_failed NO_HOST_ROLE)
         else change_status (\<lambda>s. s\<lparr>phase := Complete\<rparr>))"

definition wait :: "'w Registers \<Rightarrow> u64 \<Rightarrow> ('w, unit) pd_action" where
  "wait io now =
     act_bind (event io False) (\<lambda>e.
     case e of
       None \<Rightarrow> act_return ()
     | Some (alert, st) \<Rightarrow>
         act_bind (pd_time io now) (\<lambda>t.
         act_bind policy (\<lambda>p.
         if deadline p \<le> t then
           (if phase (status p) = WaitSwap then swap_failed io TIMED_OUT else act_throw (Unsafe TIMED_OUT))
         else if alert AND ALERT_DONE \<noteq> 0 \<and> drop_bit 4 (status1 st) AND 7 \<noteq> 0 then
           (if phase (status p) = WaitSwap then swap_failed io REJECTED else act_throw (Unsafe REJECTED))
         else case phase (status p) of
           WaitContract \<Rightarrow> wait_contract io alert st now
         | WaitReady \<Rightarrow> act_when (alert AND ALERT_DONE \<noteq> 0) (wait_ready io st now)
         | WaitSwap \<Rightarrow> act_when (alert AND ALERT_DONE \<noteq> 0) (wait_swap io)
         | _ \<Rightarrow> act_return ())))"

section \<open>Alerts and deadlines\<close>

definition capture_alert :: "u16 \<Rightarrow> PdPolicy \<Rightarrow> PdPolicy" where
  "capture_alert alert p0 =
     (let p = p0\<lparr>status := (status p0)\<lparr>last_alert := alert\<rparr>,
                captured_alert := Some ((case captured_alert p0 of Some a \<Rightarrow> a | None \<Rightarrow> 0) OR alert)\<rparr>
      in if alert AND ALERT_FAULT \<noteq> 0 then fail FAULT p
         else if phase (status p) \<noteq> Idle \<and> alert AND ALERT_PLUGPULL \<noteq> 0 then fail PLUGPULL p
         else if completed (phase (status p)) \<and> alert AND (ALERT_CONTRACT OR ALERT_PDO) \<noteq> 0
         then fail CONTRACT_CHANGED p
         else p)"

definition next_deadline_ns :: "PdPolicy \<Rightarrow> u64 \<Rightarrow> u64 option" where
  "next_deadline_ns p now =
     (case phase (status p) of
        Idle \<Rightarrow> map_option (\<lambda>since. sat_add since SETTLE_NS) (stable_since p)
      | WaitContract \<Rightarrow> Some (deadline p)
      | WaitReady \<Rightarrow> Some (deadline p)
      | WaitSwap \<Rightarrow> Some (deadline p)
      | Revalidate _ \<Rightarrow> Some (min (deadline p) (sat_add now 100000000))
      | _ \<Rightarrow> None)"

section \<open>One step of the monitor\<close>

text \<open>The caller's snapshot is detached or on the other side: only a fresh snapshot releases the policy.\<close>

definition poll_detached :: "'w Registers \<Rightarrow> PortState \<Rightarrow> ('w, unit) pd_action" where
  "poll_detached io raw =
     act_catch
       (act_bind (take_snapshot io) (\<lambda>fresh.
        act_bind policy (\<lambda>p.
        act_when (\<not> attached fresh
            \<or> side fresh \<noteq> (case orientation p of Some o' \<Rightarrow> o' | None \<Rightarrow> side raw))
          (change (\<lambda>p. (reset (if attached fresh then Some (side fresh) else None) p)
             \<lparr>status := default_status\<lparr>last_status1 := status1 fresh\<rparr>\<rparr>)))))
       (\<lambda>e. change (fail (pd_reason e)))"

definition poll_terminal :: "'w Registers \<Rightarrow> PortState \<Rightarrow> ('w, unit) pd_action" where
  "poll_terminal io raw =
     act_bind policy (\<lambda>p.
     act_when (charge_ready_at_ns (status p) \<noteq> None)
       (act_catch
         (if \<not> sink_power_valid raw then act_throw (Unsafe LOST_PATH)
          else act_bind (event io False) (\<lambda>e.
          case e of
            None \<Rightarrow> act_return ()
          | Some _ \<Rightarrow> act_bind (checked_contract_state io) (\<lambda>_. act_return ())))
         (\<lambda>e. change (fail (pd_reason e)))))"

text \<open>The contract check of a completed handoff: no transport error may hide a lost host role.\<close>

definition completed_check :: "'w Registers \<Rightarrow> bool \<Rightarrow> ('w, PortState option) pd_action" where
  "completed_check io role_lost =
     act_catch (checked_contract_state io)
       (\<lambda>e. if role_lost then act_throw (Unsafe (pd_reason e)) else act_throw e)"

definition poll_completed :: "'w Registers \<Rightarrow> bool \<Rightarrow> u64 \<Rightarrow> ('w, unit) pd_action" where
  "poll_completed io revalidating now =
     act_bind (event io False) (\<lambda>e.
     case e of
       None \<Rightarrow> act_return ()
     | Some (_, st) \<Rightarrow>
         let role_lost = (command_busy st \<or> data_role st \<noteq> Host) in
         act_bind (completed_check io role_lost) (\<lambda>c.
         case c of
           None \<Rightarrow> act_return ()
         | Some checked \<Rightarrow>
             if role_lost \<or> command_busy checked \<or> data_role checked \<noteq> Host
             then change (\<lambda>p. (data_role_failed LOST_HOST p)\<lparr>recovered_charge_at := None\<rparr>)
             else act_when revalidating
               (act_bind (pd_time io now) (\<lambda>t.
                act_bind policy (\<lambda>p.
                if deadline p \<le> t then act_throw (Unsafe REVALIDATION)
                else change (\<lambda>p. p\<lparr>status := (status p)\<lparr>phase := Complete,
                                      charge_ready_at_ns := recovered_charge_at p\<rparr>,
                                   recovered_charge_at := None\<rparr>))))))"

definition active_step :: "'w Registers \<Rightarrow> bool \<Rightarrow> bool \<Rightarrow> u64 \<Rightarrow> ('w, unit) pd_action" where
  "active_step io done revalidating now =
     act_catch (if done then poll_completed io revalidating now else wait io now)
       (\<lambda>e. case e of
          Transport r \<Rightarrow>
            if done then act_bind (pd_time io now) (\<lambda>t. change (transport_lost r t))
            else change (fail r)
        | Unsafe r \<Rightarrow> change (fail r))"

definition poll_active :: "'w Registers \<Rightarrow> PortState \<Rightarrow> u64 \<Rightarrow> ('w, unit) pd_action" where
  "poll_active io raw now =
     (if \<not> sink_power_valid raw then change (fail PATH_CHANGED) else
      act_bind policy (\<lambda>p.
      let revalidating = (case phase (status p) of Revalidate _ \<Rightarrow> True | _ \<Rightarrow> False);
          done = (phase (status p) = Complete \<or> revalidating)
      in act_bind (if revalidating then act_bind (pd_time io now) (\<lambda>t. act_return (deadline p \<le> t))
                   else act_return False) (\<lambda>expired.
         if expired then change (fail REVALIDATION)
         else active_step io done revalidating now)))"

definition unstable :: "PdPolicy \<Rightarrow> PdPolicy" where
  "unstable p = p\<lparr>stable_since := None, stable_polls := 0\<rparr>"

text \<open>The check repeated before each of the two writes of the request.\<close>

definition request_guard :: "'w Registers \<Rightarrow> reason \<Rightarrow> reason \<Rightarrow> ('w, bool) pd_action" where
  "request_guard io changed role =
     act_bind (event io False) (\<lambda>e.
     case e of
       None \<Rightarrow> act_return False
     | Some (alert, fresh) \<Rightarrow>
         if alert AND (ALERT_CONTRACT OR ALERT_PDO) \<noteq> 0 then act_throw (Unsafe changed)
         else if command_busy fresh \<or> data_role fresh \<noteq> Device then act_throw (Unsafe role)
         else act_return True)"

definition request_payload :: "Contract \<Rightarrow> bytes" where
  "request_payload ct = 4 # to_le_bytes (c_rdo ct)"

definition request :: "'w Registers \<Rightarrow> Contract \<Rightarrow> u64 \<Rightarrow> ('w, unit) pd_action" where
  "request io ct now =
     act_bind (change_status (\<lambda>s. s\<lparr>contract := Some ct\<rparr>)) (\<lambda>_.
     act_bind (request_guard io PROFILE_CHANGED ROLE_CHANGED) (\<lambda>go.
     act_when go
       (act_bind (io_step (write_bytes io BM92T_ADDRESS SET_RDO (request_payload ct)) Unsafe) (\<lambda>_.
        act_bind (request_guard io PROFILE_CHANGED_SEND ROLE_CHANGED_SEND) (\<lambda>go.
        act_when go
          (act_bind (io_step (write_command io SEND_RDO) Unsafe) (\<lambda>_.
           start_phase io WaitContract now)))))))"

definition attempt :: "'w Registers \<Rightarrow> u64 \<Rightarrow> ('w, unit) pd_action" where
  "attempt io now =
     act_bind (event io True) (\<lambda>e.
     case e of
       None \<Rightarrow> act_return ()
     | Some (_, fresh) \<Rightarrow>
         if command_busy fresh \<or> data_role fresh \<noteq> Device then change unstable
         else act_bind (act_catch (act_bind (discover io) (\<lambda>ct. act_return (Some ct)))
                (\<lambda>e. act_bind (change (unsupported (pd_reason e))) (\<lambda>_. act_return None))) (\<lambda>found.
         case found of
           None \<Rightarrow> act_return ()
         | Some ct \<Rightarrow> request io ct now))"

definition poll_idle :: "'w Registers \<Rightarrow> PortState \<Rightarrow> u64 \<Rightarrow> ('w, unit) pd_action" where
  "poll_idle io raw now =
     (if \<not> sink_power_valid raw \<or> data_role raw \<noteq> Device \<or> command_busy raw then change unstable else
      act_bind (change (\<lambda>p. p\<lparr>stable_since := Some (case stable_since p of Some t \<Rightarrow> t | None \<Rightarrow> now),
                              stable_polls := (if stable_polls p = - 1 then - 1 else stable_polls p + 1)\<rparr>)) (\<lambda>_.
      act_bind policy (\<lambda>p.
      if stable_polls p < 2 \<or> sat_sub now (the (stable_since p)) < SETTLE_NS then act_return ()
      else act_catch (attempt io now) (\<lambda>e. change (fail (pd_reason e))))))"

definition poll :: "'w Registers \<Rightarrow> PortState \<Rightarrow> u64 \<Rightarrow> ('w, unit) pd_action" where
  "poll io raw now =
     act_bind (change_status (\<lambda>s. s\<lparr>last_status1 := status1 raw\<rparr>)) (\<lambda>_.
     act_bind policy (\<lambda>p.
     if \<not> attached raw \<or> (\<exists>o' \<in> set_option (orientation p). o' \<noteq> side raw) then poll_detached io raw
     else
       act_bind (change (\<lambda>p. if orientation p = None then p\<lparr>orientation := Some (side raw)\<rparr> else p)) (\<lambda>_.
       case phase (status p) of
         Unsupported _ \<Rightarrow> poll_terminal io raw
       | Failed _ \<Rightarrow> poll_terminal io raw
       | Idle \<Rightarrow> poll_idle io raw now
       | _ \<Rightarrow> poll_active io raw now)))"

definition poll_with_alert :: "'w Registers \<Rightarrow> PortState \<Rightarrow> u64 \<Rightarrow> u16 \<Rightarrow> ('w, unit) pd_action" where
  "poll_with_alert io raw now alert =
     act_bind (change (capture_alert alert)) (\<lambda>_.
     if alert AND ALERT_FAULT \<noteq> 0
     then change (\<lambda>p. p\<lparr>orientation := (if attached raw then Some (side raw) else None)\<rparr>)
     else poll io raw now)"

end
