(* ===== verification/Typec_Log.thy ===== *)
theory Typec_Log
  imports Typec
begin

text \<open>
  The history of the bus: \<open>logged io\<close> is \<open>io\<close> with every transaction appended to a log kept beside
  the outside world. The model of the code is instantiated with it, so that theorems can speak of the
  transactions an operation made and in which order, for every behaviour of the devices.
\<close>

datatype transaction =
  Rd u8 u8 bytes        \<comment> \<open>a read of a register of a device, and the bytes it gave\<close>
| RdFail u8 u8
| Wr u8 u8 bytes
| WrFail u8 u8 bytes    \<comment> \<open>a write that reported an error: it may or may not have happened\<close>

type_synonym history = "transaction list"

definition logged :: "'w Registers \<Rightarrow> ('w \<times> history) Registers" where
  "logged io =
     \<lparr>io_read = (\<lambda>(w, l) a r n.
        case io_read io w a r n of
          (Inr f, w') \<Rightarrow> (Inr f, (w', l @ [Rd a r (map f [0..<n])]))
        | (Inl e, w') \<Rightarrow> (Inl e, (w', l @ [RdFail a r]))),
      io_write = (\<lambda>(w, l) a r d.
        case io_write io w a r d of
          (Inr u, w') \<Rightarrow> (Inr u, (w', l @ [Wr a r d]))
        | (Inl e, w') \<Rightarrow> (Inl e, (w', l @ [WrFail a r d]))),
      io_clock = (\<lambda>(w, l) now. case io_clock io w now of (t, w') \<Rightarrow> (t, (w', l)))\<rparr>"

text \<open>The writes of a history, the uncertain ones included.\<close>

fun writes :: "history \<Rightarrow> (u8 \<times> u8 \<times> bytes) list" where
  "writes [] = []"
| "writes (Wr a r d # l) = (a, r, d) # writes l"
| "writes (WrFail a r d # l) = (a, r, d) # writes l"
| "writes (Rd a r d # l) = writes l"
| "writes (RdFail a r # l) = writes l"

lemma writes_append [simp]: "writes (l @ l') = writes l @ writes l'"
  by (induction l rule: writes.induct) auto

text \<open>A 16-bit register of the controller that was read as \<open>v\<close>.\<close>

definition Word :: "u8 \<Rightarrow> u16 \<Rightarrow> transaction" where
  "Word r v = Rd BM92T_ADDRESS r (to_le_bytes v)"

lemma writes_Word [simp]: "writes (Word r v # l) = writes l"
  by (simp add: Word_def)

section \<open>Rules\<close>

lemma wp_read_bytes:
  assumes "\<And>w' b. length b = n \<Longrightarrow> Q (Ok b) (w', l @ [Rd a r b])"
    and "\<And>w' e. Q (Err e) (w', l @ [RdFail a r])"
  shows "wp (read_bytes (logged io) a r n) Q (w, l)"
  using assms by (auto simp: wp_def read_bytes_def logged_def split: prod.splits sum.splits)

lemma wp_write_bytes:
  assumes "\<And>w'. Q (Ok ()) (w', l @ [Wr a r d])" "\<And>w' e. Q (Err e) (w', l @ [WrFail a r d])"
  shows "wp (write_bytes (logged io) a r d) Q (w, l)"
  using assms by (auto simp: wp_def write_bytes_def logged_def split: prod.splits sum.splits)

lemma wp_post_io_time:
  assumes "\<And>w' t. Q (Ok t) (w', l)"
  shows "wp (post_io_time (logged io) now) Q (w, l)"
  using assms by (auto simp: wp_def post_io_time_def logged_def split: prod.splits)

lemma wp_word_reg:
  assumes "\<And>w' v. Q (Ok v) (w', l @ [Word r v])" "\<And>w' e. Q (Err e) (w', l @ [RdFail BM92T_ADDRESS r])"
  shows "wp (word_reg (logged io) r) Q (w, l)"
proof -
  have "Q (Ok (from_le_bytes b)) (w', l @ [Rd BM92T_ADDRESS r b])" if "length b = 2" for w' and b :: bytes
    using assms(1)[of "from_le_bytes b" w'] that
    by (simp add: Word_def to_le_from_le)
  then show ?thesis
    unfolding word_reg_def by (simp add: wp_simps) (rule wp_read_bytes, simp_all add: assms(2) wp_simps)
qed

lemma wp_byte_reg:
  assumes "\<And>w' v. Q (Ok v) (w', l @ [Rd CHARGER_ADDRESS r [v]])"
    and "\<And>w' e. Q (Err e) (w', l @ [RdFail CHARGER_ADDRESS r])"
  shows "wp (byte_reg (logged io) r) Q (w, l)"
proof -
  have "Q (Ok (b ! 0)) (w', l @ [Rd CHARGER_ADDRESS r b])" if "length b = 1" for w' and b :: bytes
    using assms(1)[of "b ! 0" w'] that by (cases b) auto
  then show ?thesis
    unfolding byte_reg_def
    by (simp add: wp_simps) (rule wp_read_bytes, simp_all add: assms(2) wp_simps bytes_simps)
qed

section \<open>Snapshots\<close>

text \<open>
  A stable snapshot at the end of a history: \<open>STATUS1\<close> was read twice with the same value, around
  the two other registers, and shows no fault.
\<close>

definition stable :: "PortState \<Rightarrow> history \<Rightarrow> bool" where
  "stable st l \<longleftrightarrow>
     (\<exists>l1 s1 s2 dp. l = l1 @ [Word STATUS1 s1, Word STATUS2 s2, Word DP_STATUS dp, Word STATUS1 s1]
        \<and> st = from_registers s1 s2 dp \<and> s1 AND 3 = 0)"

lemma stable_append: "stable st l \<Longrightarrow> stable st (l' @ l)"
  unfolding stable_def by (metis append.assoc)

lemma stable_faultless: "stable st l \<Longrightarrow> fault st = 0"
  by (auto simp: stable_def from_registers_def)

text \<open>What every observation of the port does to the history.\<close>

definition observed :: "history \<Rightarrow> ('e, PortState) outcome \<Rightarrow> 'w \<times> history \<Rightarrow> bool" where
  "observed l r s' \<longleftrightarrow>
     (\<exists>l0. snd s' = l @ l0 \<and> writes l0 = [] \<and> r \<noteq> Panic \<and> (\<forall>st. r = Ok st \<longrightarrow> stable st l0))"

definition observed_turn :: "history \<Rightarrow> ('e, PortState option) outcome \<Rightarrow> 'w \<times> history \<Rightarrow> bool" where
  "observed_turn l r s' \<longleftrightarrow>
     (\<exists>l0. snd s' = l @ l0 \<and> writes l0 = [] \<and> r \<noteq> Panic \<and> (\<forall>st. r = Ok (Some st) \<longrightarrow> stable st l0))"

lemma observedI: "writes l0 = [] \<Longrightarrow> r \<noteq> Panic \<Longrightarrow> (\<And>st. r = Ok st \<Longrightarrow> stable st l0) \<Longrightarrow> observed l r (w, l @ l0)"
  by (auto simp: observed_def)

lemma wp_snapshot_turn: "wp (snapshot_turn (logged io)) (observed_turn l) (w, l)"
  unfolding snapshot_turn_def wp_simps
  apply (rule wp_word_reg; simp add: wp_simps)
   apply (intro conjI impI)
    apply (simp add: observed_turn_def)
   apply (rule wp_word_reg; simp add: wp_simps)
    apply (rule wp_word_reg; simp add: wp_simps)
     apply (rule wp_word_reg; simp add: wp_simps)
      apply (force simp: observed_turn_def stable_def)
     apply (simp_all add: observed_turn_def)
  done

lemma wp_snapshot_loop: "wp (snapshot_loop n (logged io)) (observed l) (w, l)"
proof (induction n arbitrary: w l)
  case 0
  show ?case by (simp add: wp_simps observed_def)
next
  case (Suc n)
  show ?case
    unfolding snapshot_loop.simps
  proof (rule wp_bindI[OF wp_snapshot_turn])
    fix a :: "PortState option" and s' :: "'a \<times> history"
    assume a: "observed_turn l (Ok a :: (ObservationError, _) outcome) s'"
    obtain w' l' where s': "s' = (w', l')" by (cases s')
    from a s' obtain l0 where l0: "l' = l @ l0" "writes l0 = []" "\<And>st. a = Some st \<Longrightarrow> stable st l0"
      by (auto simp: observed_turn_def)
    show "wp (case a of None \<Rightarrow> snapshot_loop n (logged io) | Some st \<Rightarrow> act_return st) (observed l) s'"
    proof (cases a)
      case None
      have "wp (snapshot_loop n (logged io)) (observed l) (w', l')"
      proof (rule wp_mono[OF Suc.IH])
        fix r and s :: "'a \<times> history"
        assume "observed l' r s"
        then show "observed l r s"
          using l0 stable_append by (fastforce simp: observed_def)
      qed
      then show ?thesis using None s' by simp
    next
      case (Some st)
      then show ?thesis using l0 s' by (auto simp: wp_simps observed_def)
    qed
  next
    fix e and s' :: "'a \<times> history"
    assume "observed_turn l (Err e :: (ObservationError, _) outcome) s'"
    then show "observed l (Err e) s'" by (auto simp: observed_turn_def observed_def)
  next
    show "\<not> observed_turn l (Panic :: (ObservationError, _) outcome) s'" for s' :: "'a \<times> history"
      by (simp add: observed_turn_def)
  qed
qed

lemma observed_later: "observed l1 r s' \<Longrightarrow> l1 = l @ l0 \<Longrightarrow> writes l0 = [] \<Longrightarrow> observed l r s'"
  using stable_append by (fastforce simp: observed_def)

lemma wp_snapshot_checked: "wp (snapshot_checked (logged io)) (observed l) (w, l)"
  unfolding snapshot_checked_def snapshot_once_def
proof (rule wp_catchI[OF wp_snapshot_loop])
  fix e :: ObservationError and s' :: "'a \<times> history"
  assume e: "observed l (Err e :: (ObservationError, PortState) outcome) s'"
  obtain w' l' where s': "s' = (w', l')" by (cases s')
  from e s' obtain l0 where l0: "l' = l @ l0" "writes l0 = []" by (auto simp: observed_def)
  show "wp (case e of ObsTransport r \<Rightarrow> snapshot_loop 3 (logged io) | e \<Rightarrow> act_throw e) (observed l) s'"
  proof (cases e)
    case (ObsTransport r)
    have "wp (snapshot_loop 3 (logged io)) (observed l) (w', l')"
      using l0 by (intro wp_mono[OF wp_snapshot_loop]) (blast intro: observed_later)
    then show ?thesis using ObsTransport s' by simp
  qed (use e in \<open>simp_all add: wp_simps\<close>)
qed (auto simp: observed_def)

end
