(* ===== verification/Op_Spec.thy ===== *)
theory Op_Spec
  imports Action
begin

text \<open>
  Proof rules for operations on a state of their own beside an outside world with a history.
  \<open>op_spec m p Q\<close> states that the operation \<open>m\<close>, started with the state \<open>p\<close> over any world and any
  history, ends with a result, a state and a list of new entries of the history that satisfy \<open>Q\<close>;
  \<open>io_spec m Q\<close> is the same for an operation without a state of its own.
\<close>

definition op_spec ::
    "('p \<times> 'w \<times> 't list, 'e, 'a) action \<Rightarrow> 'p \<Rightarrow> (('e, 'a) outcome \<Rightarrow> 'p \<Rightarrow> 't list \<Rightarrow> bool) \<Rightarrow> bool" where
  "op_spec m p Q \<longleftrightarrow>
     (\<forall>w l. wp m (\<lambda>r s'. \<exists>l0. snd (snd s') = l @ l0 \<and> Q r (fst s') l0) (p, (w, l)))"

named_theorems op_rules \<open>operations without input or output\<close>

lemma op_return [op_rules]: "op_spec (act_return a) p Q = Q (Ok a) p []"
  by (simp add: op_spec_def wp_simps)

lemma op_throw [op_rules]: "op_spec (act_throw e) p Q = Q (Err e) p []"
  by (simp add: op_spec_def wp_simps)

lemma op_lift [op_rules]: "op_spec (act_lift r) p Q = Q r p []"
  by (simp add: op_spec_def wp_simps)

lemma op_change [op_rules]: "op_spec (change f) p Q = Q (Ok ()) (f p) []"
  by (simp add: op_spec_def change_def wp_simps)

lemma op_bind_policy [op_rules]: "op_spec (act_bind policy f) p Q = op_spec (f p) p Q"
  by (simp add: op_spec_def policy_def wp_simps)

lemma op_bind_return [op_rules]: "op_spec (act_bind (act_return a) f) p Q = op_spec (f a) p Q"
  by (simp add: op_spec_def wp_simps)

lemma op_bind_change [op_rules]: "op_spec (act_bind (change g) f) p Q = op_spec (f ()) (g p) Q"
  by (simp add: op_spec_def change_def wp_simps)

lemma op_bind_lift [op_rules]:
  "op_spec (act_bind (act_lift r) f) p Q =
     (case r of Ok a \<Rightarrow> op_spec (f a) p Q | Err e \<Rightarrow> Q (Err e) p [] | Panic \<Rightarrow> Q Panic p [])"
  by (cases r) (simp_all add: op_spec_def wp_simps)

lemma op_bind_throw [op_rules]: "op_spec (act_bind (act_throw e) f) p Q = Q (Err e) p []"
  by (simp add: op_spec_def wp_simps)

lemma op_if [op_rules]: "op_spec (if c then m else n) p Q = (if c then op_spec m p Q else op_spec n p Q)"
  by simp

lemma op_when [op_rules]: "op_spec (act_when c m) p Q = (if c then op_spec m p Q else Q (Ok ()) p [])"
  by (simp add: act_when_def op_return)

lemma op_mono: "op_spec m p P \<Longrightarrow> (\<And>r p' l0. P r p' l0 \<Longrightarrow> Q r p' l0) \<Longrightarrow> op_spec m p Q"
  unfolding op_spec_def by (fast elim: wp_mono)

lemma op_specD:
  fixes m :: "('p \<times> 'w \<times> 't list, 'e, 'a) action"
  shows "op_spec m p Q \<Longrightarrow> wp m (\<lambda>r s'. \<exists>l0. snd (snd s') = l @ l0 \<and> Q r (fst s') l0) (p, (w, l))"
  by (simp add: op_spec_def)

text \<open>What a single run shows.\<close>

lemma op_result:
  fixes m :: "('p \<times> 'w \<times> 't list, 'e, 'a) action"
  assumes "op_spec m p Q" "m (p, (w, l)) = (r, (p', (w', l')))"
  shows "\<exists>l0. l' = l @ l0 \<and> Q r p' l0"
  using op_specD[OF assms(1), of l w] assms(2) by (simp add: wp_def)

text \<open>Sequencing: the transactions of the parts are appended.\<close>

lemma op_bind:
  fixes m :: "('p \<times> 'w \<times> 't list, 'e, 'a) action"
  assumes "op_spec m p P"
    and "\<And>a p' l0. P (Ok a) p' l0 \<Longrightarrow> op_spec (f a) p' (\<lambda>r p'' l1. Q r p'' (l0 @ l1))"
    and "\<And>e p' l0. P (Err e) p' l0 \<Longrightarrow> Q (Err e) p' l0" "\<And>p' l0. \<not> P Panic p' l0"
  shows "op_spec (act_bind m f) p Q"
  unfolding op_spec_def
proof (intro allI)
  fix w l
  have "wp m (\<lambda>r s'. \<exists>l0. snd (snd s') = l @ l0 \<and> P r (fst s') l0) (p, w, l)"
    using assms(1) by (simp add: op_spec_def)
  then show "wp (act_bind m f) (\<lambda>r s'. \<exists>l0. snd (snd s') = l @ l0 \<and> Q r (fst s') l0) (p, w, l)"
  proof (rule wp_bindI)
    fix a and s' :: "'p \<times> 'w \<times> 't list"
    assume "\<exists>l0. snd (snd s') = l @ l0 \<and> P (Ok a) (fst s') l0"
    then obtain p' w' l0 where s': "s' = (p', (w', l @ l0))" "P (Ok a) p' l0"
      by (cases s') auto
    show "wp (f a) (\<lambda>r s'. \<exists>l0. snd (snd s') = l @ l0 \<and> Q r (fst s') l0) s'"
      unfolding s'(1) using op_specD[OF assms(2)[OF s'(2)], of "l @ l0" w']
      by (rule wp_mono) auto
  qed (use assms(3,4) in auto)
qed

lemma op_catch:
  fixes m :: "('p \<times> 'w \<times> 't list, 'e, 'a) action"
  assumes "op_spec m p P" "\<And>a p' l0. P (Ok a) p' l0 \<Longrightarrow> Q (Ok a) p' l0"
    and "\<And>e p' l0. P (Err e) p' l0 \<Longrightarrow> op_spec (h e) p' (\<lambda>r p'' l1. Q r p'' (l0 @ l1))"
    and "\<And>p' l0. \<not> P Panic p' l0"
  shows "op_spec (act_catch m h) p Q"
  unfolding op_spec_def
proof (intro allI)
  fix w l
  have "wp m (\<lambda>r s'. \<exists>l0. snd (snd s') = l @ l0 \<and> P r (fst s') l0) (p, w, l)"
    using assms(1) by (simp add: op_spec_def)
  then show "wp (act_catch m h) (\<lambda>r s'. \<exists>l0. snd (snd s') = l @ l0 \<and> Q r (fst s') l0) (p, w, l)"
  proof (rule wp_catchI)
    fix e and s' :: "'p \<times> 'w \<times> 't list"
    assume "\<exists>l0. snd (snd s') = l @ l0 \<and> P (Err e) (fst s') l0"
    then obtain p' w' l0 where s': "s' = (p', (w', l @ l0))" "P (Err e) p' l0"
      by (cases s') auto
    show "wp (h e) (\<lambda>r s'. \<exists>l0. snd (snd s') = l @ l0 \<and> Q r (fst s') l0) s'"
      unfolding s'(1) using op_specD[OF assms(3)[OF s'(2)], of "l @ l0" w']
      by (rule wp_mono) auto
  qed (use assms(2,4) in auto)
qed

lemma op_conj: "op_spec m p P \<Longrightarrow> op_spec m p Q \<Longrightarrow> op_spec m p (\<lambda>r p' l0. P r p' l0 \<and> Q r p' l0)"
  unfolding op_spec_def wp_def by (fastforce split: prod.splits)

section \<open>Input and output\<close>

text \<open>Operations that only touch the bus leave the policy as it is.\<close>

lemma op_io:
  assumes "\<And>w l. wp m (\<lambda>r s'. \<exists>l0. snd s' = l @ l0 \<and> Q r p l0) (w, l)"
  shows "op_spec (act_on_snd m) p Q"
  using assms by (simp add: op_spec_def wp_simps)

lemma op_io_step:
  assumes "\<And>w l. wp m (\<lambda>r s'. \<exists>l0. snd s' = l @ l0 \<and>
      (case r of Ok a \<Rightarrow> Q (Ok a) p l0 | Err e \<Rightarrow> Q (Err (f e)) p l0 | Panic \<Rightarrow> Q Panic p l0)) (w, l)"
  shows "op_spec (io_step m f) p Q"
  unfolding op_spec_def io_step_def wp_simps
proof (intro allI)
  show "wp m (\<lambda>r w'. case r of
      Ok a \<Rightarrow> \<exists>l0. snd (snd (fst (p, (w, l)), w')) = l @ l0 \<and> Q (Ok a) (fst (fst (p, (w, l)), w')) l0
    | Err e \<Rightarrow> \<exists>l0. snd (snd (fst (p, (w, l)), w')) = l @ l0 \<and> Q (Err (f e)) (fst (fst (p, (w, l)), w')) l0
    | Panic \<Rightarrow> \<exists>l0. snd (snd (fst (p, (w, l)), w')) = l @ l0 \<and> Q Panic (fst (fst (p, (w, l)), w')) l0)
    (snd (p, (w, l)))" for w l
    unfolding snd_conv by (rule wp_mono[OF assms[of l w]]) (auto split: outcome.splits)
qed

text \<open>A part of the state.\<close>

lemma op_zoom:
  assumes "op_spec m (get p) (\<lambda>r q l. Q r (put q p) l)"
  shows "op_spec (act_zoom get put m) p Q"
  using assms by (simp add: op_spec_def wp_simps)

lemma op_try:
  assumes "op_spec m p (\<lambda>r p' l. case r of Ok a \<Rightarrow> Q (Ok (Inr a)) p' l | Err e \<Rightarrow> Q (Ok (Inl e)) p' l | Panic \<Rightarrow> Q Panic p' l)"
  shows "op_spec (act_try m) p Q"
  unfolding op_spec_def wp_simps
  by (intro allI, rule wp_mono[OF op_specD[OF assms]]) (auto split: outcome.splits)

lemma op_map_err:
  assumes "op_spec m p (\<lambda>r p' l. case r of Ok a \<Rightarrow> Q (Ok a) p' l | Err e \<Rightarrow> Q (Err (g e)) p' l | Panic \<Rightarrow> Q Panic p' l)"
  shows "op_spec (act_map_err g m) p Q"
  unfolding op_spec_def wp_simps
  by (intro allI, rule wp_mono[OF op_specD[OF assms]]) (auto split: outcome.splits)

section \<open>Operations of the world alone\<close>

definition io_spec :: "('w \<times> 't list, 'e, 'a) action \<Rightarrow> (('e, 'a) outcome \<Rightarrow> 't list \<Rightarrow> bool) \<Rightarrow> bool" where
  "io_spec m Q \<longleftrightarrow> (\<forall>w l. wp m (\<lambda>r s'. \<exists>l0. snd s' = l @ l0 \<and> Q r l0) (w, l))"

named_theorems io_rules \<open>operations without input or output\<close>

lemma io_return [io_rules]: "io_spec (act_return a) Q = Q (Ok a) []"
  by (simp add: io_spec_def wp_simps)

lemma io_throw [io_rules]: "io_spec (act_throw e) Q = Q (Err e) []"
  by (simp add: io_spec_def wp_simps)

lemma io_lift [io_rules]: "io_spec (act_lift r) Q = Q r []"
  by (simp add: io_spec_def wp_simps)

lemma io_if [io_rules]: "io_spec (if c then m else n) Q = (if c then io_spec m Q else io_spec n Q)"
  by simp

lemma io_when [io_rules]: "io_spec (act_when c m) Q = (if c then io_spec m Q else Q (Ok ()) [])"
  by (simp add: act_when_def io_return)

lemma io_mono: "io_spec m P \<Longrightarrow> (\<And>r l0. P r l0 \<Longrightarrow> Q r l0) \<Longrightarrow> io_spec m Q"
  unfolding io_spec_def by (fast elim: wp_mono)

lemma io_specD: "io_spec m Q \<Longrightarrow> wp m (\<lambda>r s'. \<exists>l0. snd s' = l @ l0 \<and> Q r l0) (w, l)"
  by (simp add: io_spec_def)

lemma io_bind:
  fixes m :: "('w \<times> 't list, 'e, 'a) action"
  assumes "io_spec m P"
    and "\<And>a l0. P (Ok a) l0 \<Longrightarrow> io_spec (f a) (\<lambda>r l1. Q r (l0 @ l1))"
    and "\<And>e l0. P (Err e) l0 \<Longrightarrow> Q (Err e) l0" "\<And>l0. \<not> P Panic l0"
  shows "io_spec (act_bind m f) Q"
  unfolding io_spec_def
proof (intro allI, rule wp_bindI[OF io_specD[OF assms(1)]], goal_cases)
  case (1 w l a s')
  then obtain w' l0 where s': "s' = (w', l @ l0)" "P (Ok a) l0"
    by (cases s') auto
  show ?case
    unfolding s'(1) using io_specD[OF assms(2)[OF s'(2)], of "l @ l0" w'] by (rule wp_mono) auto
qed (use assms(3,4) in auto)

lemma io_catch:
  fixes m :: "('w \<times> 't list, 'e, 'a) action"
  assumes "io_spec m P" "\<And>a l0. P (Ok a) l0 \<Longrightarrow> Q (Ok a) l0"
    and "\<And>e l0. P (Err e) l0 \<Longrightarrow> io_spec (h e) (\<lambda>r l1. Q r (l0 @ l1))" "\<And>l0. \<not> P Panic l0"
  shows "io_spec (act_catch m h) Q"
  unfolding io_spec_def
proof (intro allI, rule wp_catchI[OF io_specD[OF assms(1)]], goal_cases)
  case (2 w l e s')
  then obtain w' l0 where s': "s' = (w', l @ l0)" "P (Err e) l0"
    by (cases s') auto
  show ?case
    unfolding s'(1) using io_specD[OF assms(3)[OF s'(2)], of "l @ l0" w'] by (rule wp_mono) auto
qed (use assms(2,4) in auto)

lemma io_try:
  assumes "io_spec m (\<lambda>r l. case r of Ok a \<Rightarrow> Q (Ok (Inr a)) l | Err e \<Rightarrow> Q (Ok (Inl e)) l | Panic \<Rightarrow> Q Panic l)"
  shows "io_spec (act_try m) Q"
  unfolding io_spec_def wp_simps
  by (intro allI, rule wp_mono[OF io_specD[OF assms]]) (auto split: outcome.splits)

text \<open>An operation of the bus within a policy.\<close>

lemma op_on_io: "io_spec m (\<lambda>r l. Q r p l) \<Longrightarrow> op_spec (act_on_snd m) p Q"
  by (rule op_io) (simp add: io_spec_def)

lemma op_io_err:
  "io_spec m (\<lambda>r l. case r of Ok a \<Rightarrow> Q (Ok a) p l | Err e \<Rightarrow> Q (Err (f e)) p l | Panic \<Rightarrow> Q Panic p l)
    \<Longrightarrow> op_spec (io_step m f) p Q"
  by (rule op_io_step) (simp add: io_spec_def)

end
