(* ===== verification/Typec_Ops.thy ===== *)
theory Typec_Ops
  imports Typec_Log Op_Spec
begin

text \<open>The proof rules of the bus of the Type-C port, in the form the policies use.\<close>

lemma op_time_rule:
  assumes "\<And>t. op_spec (f t) p Q"
  shows "op_spec (act_bind (act_on_snd (post_io_time (logged io) now)) f) p Q"
  using assms unfolding op_spec_def wp_simps
  by (intro allI) (simp, rule wp_post_io_time, simp)

lemma op_read_bytes:
  assumes "\<And>b. length b = n \<Longrightarrow> Q (Ok b) p [Rd a r b]" "\<And>e. Q (Err (g e)) p [RdFail a r]"
  shows "op_spec (io_step (read_bytes (logged io) a r n) g) p Q"
  using assms by (intro op_io_step wp_read_bytes) auto

lemma op_write_bytes:
  assumes "Q (Ok ()) p [Wr a r d]" "\<And>e. Q (Err (g e)) p [WrFail a r d]"
  shows "op_spec (io_step (write_bytes (logged io) a r d) g) p Q"
  using assms by (intro op_io_step wp_write_bytes) auto

end
