(* ===== verification/Pd_Props.thy ===== *)
theory Pd_Props
  imports Pd_Poll Typec_Ops
begin

text \<open>The specifications of the parts of the power delivery policy.\<close>

lemma pd_change_status [op_rules]: "op_spec (change_status f) p Q = Q (Ok ()) (status_update f p) []"
  by (simp add: change_status_def op_change)

lemma pd_bind_change_status [op_rules]:
  "op_spec (act_bind (change_status g) f) p Q = op_spec (f ()) (status_update g p) Q"
  by (simp add: change_status_def op_bind_change)

lemma pd_time_rule:
  "(\<And>t. op_spec (f t) p Q) \<Longrightarrow> op_spec (act_bind (pd_time (logged io) now) f) p Q"
  unfolding pd_time_def by (rule op_time_rule)

lemma pd_take_snapshot:
  "op_spec (take_snapshot (logged io)) p
     (\<lambda>r p' l0. p' = p \<and> writes l0 = [] \<and> r \<noteq> Panic \<and> (\<forall>st. r = Ok st \<longrightarrow> stable st l0))"
  unfolding op_spec_def take_snapshot_def wp_simps
  by (intro allI) (simp, rule wp_mono[OF wp_snapshot_checked], auto simp: observed_def split: outcome.splits)

section \<open>Events\<close>

text \<open>Everything but the diagnostics is as it was.\<close>

definition same_core :: "PdPolicy \<Rightarrow> PdPolicy \<Rightarrow> bool" where
  "same_core p p' \<longleftrightarrow>
     phase (status p') = phase (status p) \<and> contract (status p') = contract (status p)
     \<and> charge_ready_at_ns (status p') = charge_ready_at_ns (status p) \<and> orientation p' = orientation p
     \<and> stable_since p' = stable_since p \<and> stable_polls p' = stable_polls p \<and> deadline p' = deadline p
     \<and> contract_seen p' = contract_seen p \<and> recovered_charge_at p' = recovered_charge_at p"

lemma same_core_refl [simp]: "same_core p p"
  by (simp add: same_core_def)

lemma same_core_trans: "same_core p p' \<Longrightarrow> same_core p' p'' \<Longrightarrow> same_core p p''"
  by (simp add: same_core_def)

lemma same_core_status:
  "(\<And>s. phase (f s) = phase s) \<Longrightarrow> (\<And>s. contract (f s) = contract s)
    \<Longrightarrow> (\<And>s. charge_ready_at_ns (f s) = charge_ready_at_ns s) \<Longrightarrow> same_core p (status_update f p)"
  by (simp add: same_core_def)

text \<open>The policy was released by a snapshot that shows no attachment, or the other side of the cable.\<close>

definition fresh_policy :: "PortState \<Rightarrow> PdPolicy" where
  "fresh_policy st =
     default_policy\<lparr>orientation := (if attached st then Some (side st) else None),
       status := default_status\<lparr>last_status1 := status1 st\<rparr>\<rparr>"

definition released :: "PdPolicy \<Rightarrow> PdPolicy \<Rightarrow> history \<Rightarrow> bool" where
  "released p p' l \<longleftrightarrow>
     (\<exists>st. stable st l \<and> (\<not> attached st \<or> orientation p \<noteq> Some (side st)) \<and> p' = fresh_policy st)"

lemma released_later: "released p' p'' l \<Longrightarrow> same_core p p' \<Longrightarrow> released p p'' (l0 @ l)"
  unfolding released_def same_core_def by (metis stable_append)

definition event_post ::
    "PdPolicy \<Rightarrow> (PdError, (u16 \<times> PortState) option) outcome \<Rightarrow> PdPolicy \<Rightarrow> history \<Rightarrow> bool" where
  "event_post p r p' l \<longleftrightarrow>
     r \<noteq> Panic \<and> writes l = []
     \<and> (case r of
          Ok None \<Rightarrow> released p p' l
        | Ok (Some (alert, st)) \<Rightarrow>
            same_core p p' \<and> stable st l \<and> sink_power_valid st \<and> orientation p = Some (side st)
        | _ \<Rightarrow> same_core p p')"

lemma take_alert_spec:
  "op_spec (take_alert (logged io)) p (\<lambda>r p' l0. same_core p p' \<and> writes l0 = [] \<and> r \<noteq> Panic)"
proof (cases "captured_alert p")
  case None
  then show ?thesis
    unfolding take_alert_def pd_word_def op_rules
    by (auto intro!: op_bind[OF op_read_bytes[where Q = "\<lambda>r p' l0. p' = p \<and> writes l0 = [] \<and> r \<noteq> Panic"]]
        simp: op_rules)
next
  case (Some a)
  then show ?thesis
    unfolding take_alert_def op_rules by (simp add: op_rules same_core_def)
qed

lemma event_spec: "op_spec (event (logged io) initial) p (event_post p)"
  unfolding event_def
proof (rule op_bind[OF take_alert_spec], goal_cases)
  case (1 alert p1 l1)
  let ?p = "status_update (\<lambda>s. s\<lparr>last_alert := alert\<rparr>) p1"
  have core: "same_core p ?p" using 1 by (simp add: same_core_def)
  have refused: "event_post p (Err e) ?p (l1 @ [])" for e
    using 1 core by (simp add: event_post_def)
  have snap: "op_spec (act_bind (take_snapshot (logged io)) f) ?p (\<lambda>r p'. event_post p r p' \<circ> (@) l1)"
    if "f = (\<lambda>st. act_bind policy (\<lambda>p. act_bind (change (\<lambda>p. snd (same_attachment st p))) (\<lambda>_.
      if \<not> fst (same_attachment st p) then act_return None
      else if alert AND ALERT_FAULT \<noteq> 0 \<or> fault st \<noteq> 0 then act_throw (Unsafe FAULT)
      else if \<not> initial \<and> alert AND ALERT_PLUGPULL \<noteq> 0 then act_throw (Unsafe PLUGPULL)
      else if \<not> sink_power_valid st then act_throw (Unsafe PATH_CHANGED)
      else act_return (Some (alert, st)))))" for f
    unfolding that
  proof (rule op_bind[OF pd_take_snapshot], goal_cases)
    case (1 st p2 l2)
    then have l2: "p2 = ?p" "writes l2 = []" "stable st (l1 @ l2)" by (simp_all add: stable_append)
    have w: "writes (l1 @ l2) = []" using \<open>same_core p p1 \<and> _\<close> l2 by simp
    show ?case
    proof (cases "attached st \<and> orientation p = Some (side st)")
      case True
      then have "fst (same_attachment st ?p)" "same_core p (snd (same_attachment st ?p))"
        using core by (auto simp: same_attachment_def same_core_def)
      then show ?thesis using l2 w True by (simp add: op_rules event_post_def)
    next
      case False
      then have "\<not> fst (same_attachment st ?p)" "snd (same_attachment st ?p) = fresh_policy st"
        using core by (auto simp: same_attachment_def same_core_def fresh_policy_def reset_def default_policy_def)
      then show ?thesis using l2 w False by (auto simp: op_rules event_post_def released_def)
    qed
  qed (use 1 core in \<open>auto simp: event_post_def\<close>)
  show ?case using snap[OF refl] refused by (simp add: op_rules comp_def)
qed (auto simp: event_post_def)

section \<open>The contract in force\<close>

lemma object_spec:
  "op_spec (object (logged io) r) p
     (\<lambda>res p' l. p' = p \<and> writes l = [] \<and> res \<noteq> Panic
        \<and> (\<forall>n v. res = Ok (n, v) \<longrightarrow> l = [Rd BM92T_ADDRESS r (n # to_le_bytes v)]))"
  unfolding object_def
proof (rule op_bind[OF op_read_bytes[where Q = "\<lambda>res p' l. p' = p \<and> writes l = [] \<and> res \<noteq> Panic
      \<and> (\<forall>b. res = Ok b \<longrightarrow> length b = 5 \<and> l = [Rd BM92T_ADDRESS r b])"]], goal_cases)
  case (3 b p' l)
  then have b: "length b = 5" "l = [Rd BM92T_ADDRESS r b]" "p' = p" by auto
  have "b ! 0 # slice b 1 4 = b" using b(1) by (auto simp: slice_def eval_nat_numeral length_Suc_conv)
  then have "b ! 0 # to_le_bytes (from_le_bytes (slice b 1 4) :: u32) = b"
    using b(1) by (simp add: to_le_from_le)
  then show ?case using b by (simp add: op_rules byte_at_Ok read_le_Ok)
qed auto

lemma input_limit_spec:
  "op_spec (input_limit (logged io)) p
     (\<lambda>res p' l. p' = p \<and> writes l = [] \<and> res \<noteq> Panic
        \<and> (\<forall>v. res = Ok v \<longrightarrow> l = [Rd CHARGER_ADDRESS 0 [v]]))"
  unfolding input_limit_def
proof (rule op_bind[OF op_read_bytes[where Q = "\<lambda>res p' l. p' = p \<and> writes l = [] \<and> res \<noteq> Panic
      \<and> (\<forall>b. res = Ok b \<longrightarrow> length b = 1 \<and> l = [Rd CHARGER_ADDRESS 0 b])"]], goal_cases)
  case (3 b p' l)
  then show ?case by (cases b) (auto simp: op_rules byte_at_def)
qed auto

text \<open>The registers of the contract were read, and are those of the contract \<open>ct\<close>.\<close>

definition contract_read :: "Contract \<Rightarrow> history \<Rightarrow> bool" where
  "contract_read ct l \<longleftrightarrow>
     (\<exists>r b. l = [Rd BM92T_ADDRESS CURRENT_PDO (4 # to_le_bytes (c_current_pdo ct)),
                 Rd BM92T_ADDRESS CURRENT_RDO (4 # to_le_bytes r), Rd CHARGER_ADDRESS 0 [b]]
        \<and> (r XOR c_rdo ct) AND 0xf00fffff = 0)"

definition contract_post ::
    "PdPolicy \<Rightarrow> (PdError, unit) outcome \<Rightarrow> PdPolicy \<Rightarrow> history \<Rightarrow> bool" where
  "contract_post p r p' l \<longleftrightarrow>
     r \<noteq> Panic \<and> writes l = [] \<and> same_core p p'
     \<and> (r = Ok () \<longrightarrow> (\<exists>ct. contract (status p) = Some ct \<and> contract_read ct l))"

lemma unchanged_contract_spec: "op_spec (unchanged_contract (logged io)) p (contract_post p)"
proof (cases "contract (status p)")
  case None
  then show ?thesis by (simp add: unchanged_contract_def op_rules contract_post_def)
next
  case (Some ct)
  have core: "same_core p (status_update (\<lambda>s. s\<lparr>current_pdo := a\<rparr>) p)"
    "same_core p (status_update (\<lambda>s. s\<lparr>current_pdo := a, rdo := b\<rparr>) p)"
    "same_core p (status_update (\<lambda>s. s\<lparr>current_pdo := a, rdo := b, charger_input := c\<rparr>) p)" for a b c
    by (simp_all add: same_core_def)
  show ?thesis
    unfolding unchanged_contract_def op_rules Some ok_or.simps outcome.case
  proof (rule op_bind[OF object_spec], goal_cases)
    case (1 a p1 l1)
    obtain n v where a: "a = (n, v)" by (cases a)
    have l1: "p1 = p" "writes l1 = []" "l1 = [Rd BM92T_ADDRESS CURRENT_PDO (n # to_le_bytes v)]"
      using 1 a by auto
    show ?case
    proof (cases "n = 4 \<and> v = c_current_pdo ct")
      case False
      then show ?thesis using l1 a core(1) by (auto simp: op_rules contract_post_def)
    next
      case True
      show ?thesis
        unfolding a prod.case op_rules using True l1(1)
      proof (simp, intro op_bind[OF object_spec], goal_cases)
        case (1 a2 p2 l2)
        obtain n2 v2 where a2: "a2 = (n2, v2)" by (cases a2)
        have l2: "writes l2 = []" "l2 = [Rd BM92T_ADDRESS CURRENT_RDO (n2 # to_le_bytes v2)]"
          "p2 = status_update (\<lambda>s. s\<lparr>current_pdo := Some (c_current_pdo ct)\<rparr>) p"
          using 1 a2 by auto
        show ?case
        proof (cases "n2 = 4 \<and> (v2 XOR c_rdo ct) AND 0xf00fffff = 0")
          case False
          then show ?thesis
            using l1 l2 a2 core(2) by (auto simp: op_rules contract_post_def comp_def)
        next
          case t2: True
          show ?thesis
            unfolding a2 prod.case op_rules using t2
          proof (simp, intro op_bind[OF input_limit_spec], goal_cases)
            case (1 b p3 l3)
            then show ?case
              using l1 l2 True t2 core(3) Some
              by (auto simp: op_rules contract_post_def contract_read_def comp_def)
          next
            case (2 e p3 l3)
            then show ?case using l1 l2 core(2) by (auto simp: contract_post_def comp_def)
          qed auto
        qed
      next
        case (2 e p2 l2)
        then show ?case using l1 core(1) by (auto simp: contract_post_def)
      qed auto
    qed
  qed (auto simp: contract_post_def)
qed

text \<open>The contract was read back, and then a stable snapshot showed a valid sink on the same side.\<close>

definition verified :: "PdPolicy \<Rightarrow> PortState \<Rightarrow> history \<Rightarrow> bool" where
  "verified p st l \<longleftrightarrow>
     (\<exists>ct l1 l2. l = l1 @ l2 \<and> contract (status p) = Some ct \<and> contract_read ct l1 \<and> stable st l2
        \<and> sink_power_valid st \<and> orientation p = Some (side st))"

definition checked_post ::
    "PdPolicy \<Rightarrow> (PdError, PortState option) outcome \<Rightarrow> PdPolicy \<Rightarrow> history \<Rightarrow> bool" where
  "checked_post p r p' l \<longleftrightarrow>
     r \<noteq> Panic \<and> writes l = []
     \<and> (case r of
          Ok None \<Rightarrow> released p p' l
        | Ok (Some st) \<Rightarrow> same_core p p' \<and> verified p st l
        | _ \<Rightarrow> same_core p p')"

lemma checked_contract_state_spec: "op_spec (checked_contract_state (logged io)) p (checked_post p)"
  unfolding checked_contract_state_def
proof (rule op_bind[OF unchanged_contract_spec], goal_cases)
  case (1 a p1 l1)
  then obtain ct where l1: "writes l1 = []" "same_core p p1" "contract (status p) = Some ct" "contract_read ct l1"
    by (auto simp: contract_post_def)
  show ?case
  proof (rule op_bind[OF event_spec], goal_cases)
    case (1 e p2 l2)
    show ?case
    proof (cases e)
      case None
      then show ?thesis
        using 1 l1 released_later by (auto simp: op_rules event_post_def checked_post_def)
    next
      case (Some x)
      obtain alert st where x: "x = (alert, st)" by (cases x)
      have e: "same_core p1 p2" "stable st l2" "sink_power_valid st" "orientation p1 = Some (side st)" "writes l2 = []"
        using 1 Some x by (auto simp: event_post_def)
      have "same_core p p2" "orientation p = Some (side st)"
        using e l1 by (auto simp: same_core_def)
      then have "verified p st (l1 @ l2)" using e l1 unfolding verified_def by blast
      then show ?thesis
        using e l1 Some x \<open>same_core p p2\<close> by (auto simp: op_rules checked_post_def)
    qed
  next
    case (2 e p2 l2)
    then show ?case using l1 same_core_trans by (auto simp: event_post_def checked_post_def)
  qed (simp add: event_post_def)
qed (auto simp: contract_post_def checked_post_def)

end
