(* ===== verification/Pd_Session.thy ===== *)
theory Pd_Session
  imports Pd_Props
begin

text \<open>
  The negotiation of one attachment: what the policy has written to the controller since it was
  released, which writes were made on what evidence, and on what evidence a handoff is complete.
\<close>

definition command_write :: "u16 \<Rightarrow> u8 \<times> u8 \<times> bytes" where
  "command_write cmd = (BM92T_ADDRESS, COMMAND, to_le_bytes cmd)"

text \<open>The writes of a complete negotiation, in order.\<close>

definition handshake :: "Contract \<Rightarrow> (u8 \<times> u8 \<times> bytes) list" where
  "handshake ct =
     [(BM92T_ADDRESS, SET_RDO, request_payload ct), command_write SEND_RDO, command_write PS_RDY,
      command_write DR_SWAP]"

text \<open>What each phase says of the writes of the session, the contract and the charging work.\<close>

definition session_ok :: "PdPolicy \<Rightarrow> (u8 \<times> u8 \<times> bytes) list \<Rightarrow> bool" where
  "session_ok p ws \<longleftrightarrow>
     (let ct = contract (status p); charge = charge_ready_at_ns (status p); blank = (ws = [] \<and> ct = None \<and> charge = None)
      in case phase (status p) of
        Idle \<Rightarrow> blank
      | WaitContract \<Rightarrow> \<exists>c. ct = Some c \<and> ws = take 2 (handshake c) \<and> charge = None
      | WaitReady \<Rightarrow> \<exists>c. ct = Some c \<and> ws = take 3 (handshake c) \<and> charge = None
      | WaitSwap \<Rightarrow> \<exists>c. ct = Some c \<and> ws = take 4 (handshake c) \<and> charge \<noteq> None
      | Complete \<Rightarrow> \<exists>c n. ct = Some c \<and> 3 \<le> n \<and> ws = take n (handshake c) \<and> charge \<noteq> None
      | Revalidate _ \<Rightarrow> \<exists>c n. ct = Some c \<and> 3 \<le> n \<and> ws = take n (handshake c) \<and> charge = None
          \<and> recovered_charge_at p \<noteq> None
      | Unsupported _ \<Rightarrow> blank \<or> (\<exists>c. ct = Some c \<and> ws = take 3 (handshake c))
      | Failed _ \<Rightarrow> blank \<or> (\<exists>c n. ct = Some c \<and> ws = take n (handshake c) \<and> (charge \<noteq> None \<longrightarrow> 3 \<le> n)))"

lemma session_ok_core: "same_core p p' \<Longrightarrow> session_ok p' ws = session_ok p ws"
  unfolding session_ok_def same_core_def by (cases "phase (status p)") simp_all

text \<open>
  Every write comes directly after a stable snapshot of a valid sink on the side of the session, with
  the controller not busy; and of a device, unless the write is PS_RDY.
\<close>

definition snapshot_allows :: "PdPolicy \<Rightarrow> history \<Rightarrow> (u8 \<times> u8 \<times> bytes) list \<Rightarrow> bool" where
  "snapshot_allows p l ws \<longleftrightarrow>
     (\<exists>st. stable st l \<and> sink_power_valid st \<and> \<not> command_busy st \<and> orientation p = Some (side st)
        \<and> (ws \<noteq> [command_write PS_RDY] \<longrightarrow> data_role st = Device))"

text \<open>The registers of the negotiation.\<close>

definition pd_message :: "(u8 \<times> u8 \<times> bytes) list \<Rightarrow> bool" where
  "pd_message ws \<longleftrightarrow> (\<exists>r d. ws = [(BM92T_ADDRESS, r, d)] \<and> (r = SET_RDO \<and> length d = 5 \<or> r = COMMAND \<and> length d = 2))"

definition write_allowed :: "PdPolicy \<Rightarrow> history \<Rightarrow> (u8 \<times> u8 \<times> bytes) list \<Rightarrow> bool" where
  "write_allowed p l ws \<longleftrightarrow> snapshot_allows p l ws \<and> pd_message ws"

definition guarded_writes :: "PdPolicy \<Rightarrow> history \<Rightarrow> bool" where
  "guarded_writes p l \<longleftrightarrow>
     (\<forall>pre x post. l = pre @ x # post \<and> writes [x] \<noteq> [] \<longrightarrow> write_allowed p pre (writes [x]))"

lemma writes_empty: "writes l = [] \<longleftrightarrow> (\<forall>x \<in> set l. writes [x] = [])"
  by (induction l rule: writes.induct) auto

lemma guarded_quiet: "writes l = [] \<Longrightarrow> guarded_writes p l"
  unfolding guarded_writes_def using writes_empty[of l] by auto

lemma snapshot_allows_later: "snapshot_allows p l ws \<Longrightarrow> snapshot_allows p (l' @ l) ws"
  unfolding snapshot_allows_def using stable_append by blast

lemma write_allowed_later: "write_allowed p l ws \<Longrightarrow> write_allowed p (l' @ l) ws"
  unfolding write_allowed_def using snapshot_allows_later by blast

lemma guarded_append:
  assumes "guarded_writes p l1" "guarded_writes p l2"
  shows "guarded_writes p (l1 @ l2)"
  unfolding guarded_writes_def
proof (intro allI impI, elim conjE)
  fix pre x post
  assume eq: "l1 @ l2 = pre @ x # post" and x: "writes [x] \<noteq> []"
  then consider us where "l1 = pre @ us" "us @ l2 = x # post" | us where "pre = l1 @ us" "l2 = us @ x # post"
    by (auto simp: append_eq_append_conv2)
  then show "write_allowed p pre (writes [x])"
  proof cases
    case 1
    then show ?thesis
    proof (cases us)
      case Nil
      then have "write_allowed p [] (writes [x])"
        using assms(2) 1 x unfolding guarded_writes_def by (metis append_Nil)
      then show ?thesis using write_allowed_later[of p "[]"] by simp
    next
      case (Cons y ys)
      then show ?thesis using assms(1) 1 x unfolding guarded_writes_def by auto
    qed
  next
    case 2
    then show ?thesis using assms(2) x write_allowed_later unfolding guarded_writes_def by blast
  qed
qed

lemma guarded_write:
  "snapshot_allows p l (writes [x]) \<Longrightarrow> pd_message (writes [x]) \<Longrightarrow> writes l = [] \<Longrightarrow> guarded_writes p (l @ [x])"
  unfolding guarded_writes_def
proof (intro allI impI, elim conjE)
  fix pre y post
  assume "snapshot_allows p l (writes [x])" "pd_message (writes [x])" and quiet: "writes l = []"
    and eq: "l @ [x] = pre @ y # post" and y: "writes [y] \<noteq> []"
  have "y \<notin> set l" using quiet y writes_empty[of l] by blast
  then have "post = []" using eq by (cases post rule: rev_cases) auto
  then show "write_allowed p pre (writes [y])" using eq \<open>pd_message _\<close> \<open>snapshot_allows _ _ _\<close> by (simp add: write_allowed_def)
qed

lemma guarded_core: "same_core p p' \<Longrightarrow> guarded_writes p' l = guarded_writes p l"
  unfolding guarded_writes_def write_allowed_def snapshot_allows_def same_core_def by simp

text \<open>The evidence of a complete handoff, at the end of a history.\<close>

definition host_verified :: "PdPolicy \<Rightarrow> history \<Rightarrow> bool" where
  "host_verified p l \<longleftrightarrow>
     (\<exists>pre l0 st. l = pre @ l0 \<and> writes l0 = [] \<and> verified p st l0 \<and> data_role st = Host \<and> \<not> command_busy st)"

lemma host_verified_later: "host_verified p l \<Longrightarrow> host_verified p (l' @ l)"
  unfolding host_verified_def by (metis append.assoc)

lemma verified_core: "same_core p p' \<Longrightarrow> verified p' st l = verified p st l"
  unfolding verified_def same_core_def by simp

lemma host_verified_core: "same_core p p' \<Longrightarrow> host_verified p' l = host_verified p l"
  unfolding host_verified_def using verified_core by blast

section \<open>Commands\<close>

text \<open>Only the phase is changed.\<close>

definition set_phase :: "PdPhase \<Rightarrow> PdPolicy \<Rightarrow> PdPolicy" where
  "set_phase ph = status_update (phase_update (\<lambda>_. ph))"

lemma change_phase: "status_update (\<lambda>s. s\<lparr>phase := ph\<rparr>) = set_phase ph"
  by (rule ext) (simp add: set_phase_def)

definition command_post ::
    "u16 \<Rightarrow> PdPhase \<Rightarrow> PdPolicy \<Rightarrow> (PdError, bool) outcome \<Rightarrow> PdPolicy \<Rightarrow> history \<Rightarrow> bool" where
  "command_post cmd ph p r p' l \<longleftrightarrow>
     guarded_writes p l \<and> r \<noteq> Panic \<and> (writes l = [] \<or> writes l = [command_write cmd])
     \<and> (case r of
          Ok False \<Rightarrow> released p p' l
        | Ok True \<Rightarrow>
            (writes l = [] \<and> cmd = DR_SWAP \<and> same_core (set_phase Complete p) p' \<and> host_verified p l)
            \<or> (writes l = [command_write cmd] \<and> (\<exists>t. same_core ((set_phase ph p)\<lparr>deadline := t\<rparr>) p'))
            \<or> (writes l = [command_write cmd] \<and> cmd = DR_SWAP \<and> (\<exists>e. same_core (data_role_failed e p) p'))
        | _ \<Rightarrow> same_core p p')"

lemma try_write_spec:
  "op_spec (act_catch (act_bind (act_on_snd (write_command (logged io) cmd)) (\<lambda>_. act_return None))
       (\<lambda>r. act_return (Some r))) p
     (\<lambda>r p' l. p' = p \<and> (r = Ok None \<and> l = [Wr BM92T_ADDRESS COMMAND (to_le_bytes cmd)]
        \<or> (\<exists>e. r = Ok (Some e)) \<and> l = [WrFail BM92T_ADDRESS COMMAND (to_le_bytes cmd)]))"
  unfolding op_spec_def wp_simps write_command_def
  by (intro allI) (simp, rule wp_write_bytes, simp_all add: wp_simps)

lemma start_phase_spec:
  "op_spec (start_phase (logged io) ph now) p
     (\<lambda>r p' l. r = Ok () \<and> l = [] \<and> (\<exists>t. p' = (set_phase ph p)\<lparr>deadline := t\<rparr>))"
  unfolding start_phase_def op_rules change_phase
  by (intro pd_time_rule) (auto simp: op_rules)

lemma same_core_data_role_failed: "same_core p p' \<Longrightarrow> same_core (data_role_failed e p) (data_role_failed e p')"
  by (simp add: same_core_def data_role_failed_def)

definition write_failed_post ::
    "u16 \<Rightarrow> PdPolicy \<Rightarrow> (PdError, bool) outcome \<Rightarrow> PdPolicy \<Rightarrow> history \<Rightarrow> bool" where
  "write_failed_post cmd p r p' l \<longleftrightarrow>
     r \<noteq> Panic \<and> writes l = []
     \<and> (case r of
          Ok False \<Rightarrow> released p p' l
        | Ok True \<Rightarrow> cmd = DR_SWAP \<and> (\<exists>e. same_core (data_role_failed e p) p')
        | _ \<Rightarrow> same_core p p')"

lemma command_write_failed_spec:
  "op_spec (command_write_failed (logged io) cmd e) p (write_failed_post cmd p)"
proof (cases "cmd \<noteq> DR_SWAP \<or> charge_ready_at_ns (status p) = None")
  case True
  then show ?thesis by (simp add: command_write_failed_def op_rules write_failed_post_def)
next
  case False
  show ?thesis
    unfolding command_write_failed_def op_rules
  proof (subst if_not_P[OF False], rule op_bind[OF event_spec], goal_cases)
    case (1 a p1 l1)
    show ?case
    proof (cases a)
      case None
      then show ?thesis using 1 by (auto simp: op_rules event_post_def write_failed_post_def)
    next
      case (Some x)
      then have l1: "writes l1 = []" "same_core p p1"
        using 1 by (auto simp: event_post_def split: prod.splits)
      show ?thesis
        unfolding Some option.case
      proof (rule op_bind[OF checked_contract_state_spec], goal_cases)
        case (1 c p2 l2)
        show ?case
        proof (cases c)
          case None
          then show ?thesis
            using 1 l1 released_later by (auto simp: op_rules checked_post_def write_failed_post_def)
        next
          case (Some st)
          then have "writes l2 = []" "same_core p p2"
            using 1 l1 same_core_trans by (auto simp: checked_post_def)
          then show ?thesis
            using Some l1 False same_core_data_role_failed
            by (auto simp: op_rules write_failed_post_def)
        qed
      next
        case (2 e p2 l2)
        then show ?case
          using l1 same_core_trans by (auto simp: checked_post_def write_failed_post_def)
      qed (simp add: checked_post_def)
    qed
  qed (auto simp: event_post_def write_failed_post_def)
qed

lemma set_phase_core: "same_core p p' \<Longrightarrow> same_core (set_phase ph p) (set_phase ph p')"
  by (simp add: same_core_def set_phase_def)

lemma verified_allows:
  assumes "verified p st l" "\<not> command_busy st" "ws = [command_write PS_RDY] \<or> data_role st \<noteq> Host"
  shows "snapshot_allows p (l' @ l) ws"
proof -
  from assms(1) obtain l1 l2 where l: "l = l1 @ l2" "stable st l2" "sink_power_valid st"
    "orientation p = Some (side st)"
    by (auto simp: verified_def)
  have "stable st (l' @ l)" unfolding l(1) using l(2) by (metis append.assoc stable_append)
  moreover have "ws = [command_write PS_RDY] \<or> data_role st = Device"
    using assms(3) l(3) by (auto simp: sink_power_valid_def)
  ultimately show ?thesis using assms(2) l unfolding snapshot_allows_def by blast
qed

lemma command_post_later:
  assumes "command_post cmd ph p r p' l" "writes l' = []"
  shows "command_post cmd ph p r p' (l' @ l)"
proof -
  have "guarded_writes p (l' @ l)"
    using assms guarded_append[OF guarded_quiet] by (auto simp: command_post_def)
  then show ?thesis
    using assms released_later[of p p' l p l'] host_verified_later[of p l l']
    by (auto simp: command_post_def split: outcome.splits bool.splits)
qed

text \<open>After the checks: the write, and what follows when it is refused.\<close>

lemma command_send_spec:
  assumes cmd: "cmd = PS_RDY \<or> cmd = DR_SWAP" and st: "verified p st l" "\<not> command_busy st"
    and role: "\<not> (cmd = DR_SWAP \<and> data_role st = Host)" and quiet: "writes l = []"
    and core: "same_core p p1"
  shows "op_spec (send_command (logged io) cmd ph now) p1
       (\<lambda>r p' l1. command_post cmd ph p r p' (l @ l1))"
  unfolding send_command_def
proof (rule op_bind[OF try_write_spec], goal_cases)
  case (1 f p2 l2)
  have allows: "snapshot_allows p l [command_write cmd]"
    using verified_allows[OF st, of _ "[]"] role cmd by auto
  have w: "guarded_writes p (l @ l2)" "writes (l @ l2) = [command_write cmd]" "p2 = p1"
    using 1 quiet allows by (auto intro!: guarded_write simp: command_write_def pd_message_def)
  show ?case
  proof (cases f)
    case None
    have "same_core ((set_phase ph p)\<lparr>deadline := t\<rparr>) ((set_phase ph p1)\<lparr>deadline := t\<rparr>)" for t
      using core by (simp add: same_core_def set_phase_def)
    then show ?thesis
      unfolding None option.case
      by (intro op_bind[OF start_phase_spec]) (use w in \<open>auto simp: op_rules command_post_def\<close>)
  next
    case (Some e)
    show ?thesis
      unfolding Some option.case
    proof (rule op_mono[OF command_write_failed_spec], goal_cases)
      case (1 r p3 l3)
      then have l3: "writes l3 = []" "r \<noteq> Panic" by (auto simp: write_failed_post_def)
      have g: "guarded_writes p (l @ l2 @ l3)" "writes (l @ l2 @ l3) = [command_write cmd]"
        using guarded_append[OF w(1) guarded_quiet[OF l3(1)]] w l3 by auto
      show ?case
        using 1 g l3 w(3) core released_later[of p1 p3 l3 p "l @ l2"]
        by (auto simp: write_failed_post_def command_post_def split: outcome.splits bool.splits
            intro: same_core_trans same_core_trans[OF same_core_data_role_failed])
    qed
  qed
qed auto

lemma command_spec:
  assumes cmd: "cmd = PS_RDY \<or> cmd = DR_SWAP"
  shows "op_spec (command (logged io) cmd ph now) p (command_post cmd ph p)"
  unfolding command_def
proof (rule op_bind[OF event_spec], goal_cases)
  case (1 e p1 l1)
  show ?case
  proof (cases e)
    case None
    then show ?thesis
      using 1 by (auto simp: op_rules event_post_def command_post_def guarded_quiet)
  next
    case (Some x)
    obtain alert st where x: "x = (alert, st)" by (cases x)
    have l1: "writes l1 = []" "same_core p p1" using 1 Some x by (auto simp: event_post_def)
    have refused: "command_post cmd ph p (Err err) p' l" if "writes l = []" "same_core p p'" for err p' l
      using that by (simp add: command_post_def guarded_quiet)
    have checked: "op_spec (act_bind (checked_contract_state (logged io)) f) p1
        (\<lambda>r p' l2. command_post cmd ph p r p' (l1 @ l2))"
      if f: "f = (\<lambda>c. case c of None \<Rightarrow> act_return False
        | Some st \<Rightarrow>
          if command_busy st then act_throw (Unsafe BUSY_BEFORE)
          else if cmd = DR_SWAP \<and> data_role st = Host
          then act_bind (change_status (\<lambda>s. s\<lparr>phase := Complete\<rparr>)) (\<lambda>_. act_return True)
          else send_command (logged io) cmd ph now)" for f
      unfolding f
    proof (rule op_bind[OF checked_contract_state_spec], goal_cases)
      case (1 c p2 l2)
      then have l2: "writes (l1 @ l2) = []" using l1 by (simp add: checked_post_def)
      show ?case
      proof (cases c)
        case None
        then have "released p p2 (l1 @ l2)" using 1 l1 released_later by (auto simp: checked_post_def)
        then show ?thesis using None l2 by (simp add: op_rules command_post_def guarded_quiet)
      next
        case (Some st2)
        have v: "same_core p1 p2" "verified p1 st2 l2" using 1 Some by (auto simp: checked_post_def)
        have core: "same_core p p2" using same_core_trans[OF l1(2) v(1)] .
        have v': "verified p st2 l2" using verified_core[OF l1(2)] v(2) by simp
        show ?thesis
        proof (cases "command_busy st2")
          case True
          then show ?thesis using Some refused[OF l2 core] by (simp add: op_rules)
        next
          case idle: False
          show ?thesis
          proof (cases "cmd = DR_SWAP \<and> data_role st2 = Host")
            case True
            have "host_verified p (l1 @ l2)"
              unfolding host_verified_def using v' idle True l2 by auto
            then show ?thesis
              using True idle Some l2 set_phase_core[OF core]
              by (simp add: op_rules change_phase command_post_def guarded_quiet)
          next
            case False
            have "op_spec (send_command (logged io) cmd ph now) p2
                (\<lambda>r p' l3. command_post cmd ph p r p' (l2 @ l3))"
              using command_send_spec[OF cmd v' idle False _ core] l2 by simp
            then have "op_spec (send_command (logged io) cmd ph now) p2
                (\<lambda>r p' l3. command_post cmd ph p r p' (l1 @ l2 @ l3))"
              by (rule op_mono) (rule command_post_later[OF _ l1(1)])
            then show ?thesis
              unfolding Some option.case if_not_P[OF idle] if_not_P[OF False] by simp
          qed
        qed
      qed
    next
      case (2 err p2 l2)
      then have "writes (l1 @ l2) = []" "same_core p p2"
        using l1 same_core_trans by (auto simp: checked_post_def)
      then show ?case by (rule refused)
    qed (simp add: checked_post_def)
    show ?thesis
      using checked[OF refl] refused[OF l1(1) l1(2)] Some x by (simp add: op_rules)
  qed
qed (auto simp: event_post_def command_post_def guarded_quiet)

end
