(* ===== verification/Pd_Steps.thy ===== *)
theory Pd_Steps
  imports Pd_Session
begin

text \<open>
  Each step of the monitor keeps the session: what was written since the policy was released fits its
  phase, and a phase of a complete handoff rests on evidence from the same step.
\<close>

section \<open>Sessions\<close>

lemma set_phase_simps [simp]:
  "phase (status (set_phase ph p)) = ph" "contract (status (set_phase ph p)) = contract (status p)"
  "charge_ready_at_ns (status (set_phase ph p)) = charge_ready_at_ns (status p)"
  "orientation (set_phase ph p) = orientation p"
  "recovered_charge_at (set_phase ph p) = recovered_charge_at p"
  by (simp_all add: set_phase_def)

definition same_session :: "PdPolicy \<Rightarrow> PdPolicy \<Rightarrow> bool" where
  "same_session p p' \<longleftrightarrow>
     phase (status p') = phase (status p) \<and> contract (status p') = contract (status p)
     \<and> charge_ready_at_ns (status p') = charge_ready_at_ns (status p) \<and> orientation p' = orientation p
     \<and> recovered_charge_at p' = recovered_charge_at p"

lemma core_session: "same_core p p' \<Longrightarrow> same_session p p'"
  by (simp add: same_core_def same_session_def)

lemma same_session_refl [simp]: "same_session p p"
  by (simp add: same_session_def)

lemma same_session_trans: "same_session p p' \<Longrightarrow> same_session p' p'' \<Longrightarrow> same_session p p''"
  by (simp add: same_session_def)

lemma session_ok_session: "same_session p p' \<Longrightarrow> session_ok p' ws = session_ok p ws"
  unfolding session_ok_def same_session_def by (cases "phase (status p)") simp_all

lemma guarded_session: "orientation p' = orientation p \<Longrightarrow> guarded_writes p' l = guarded_writes p l"
  unfolding guarded_writes_def write_allowed_def snapshot_allows_def by simp

lemma released_session: "released p' p'' l \<Longrightarrow> orientation p' = orientation p \<Longrightarrow> released p p'' (l0 @ l)"
  unfolding released_def by (metis stable_append)

lemma host_verified_session:
  "contract (status p') = contract (status p) \<Longrightarrow> orientation p' = orientation p
    \<Longrightarrow> host_verified p' l = host_verified p l"
  unfolding host_verified_def verified_def by simp

text \<open>The session can be ended by \<open>fail\<close>.\<close>

definition failable :: "PdPolicy \<Rightarrow> (u8 \<times> u8 \<times> bytes) list \<Rightarrow> bool" where
  "failable p ws \<longleftrightarrow>
     ws = [] \<and> contract (status p) = None
     \<or> (\<exists>ct n. contract (status p) = Some ct \<and> ws = take n (handshake ct))"

lemma handshake_length: "length (handshake ct) = 4"
  by (simp add: handshake_def)

lemma failable_session: "same_session p p' \<Longrightarrow> failable p' ws = failable p ws"
  by (simp add: failable_def same_session_def)

lemma session_failable: "session_ok p ws \<Longrightarrow> failable p ws"
  unfolding session_ok_def failable_def by (cases "phase (status p)") (auto simp: Let_def)

lemma fail_session: "failable p ws \<Longrightarrow> session_ok (fail r p) ws"
  by (auto simp: session_ok_def failable_def fail_def)

lemma session_ok_Failed:
  assumes "phase (status p') = Failed r" "contract (status p') = Some ct" "ws = take n (handshake ct)"
    and "charge_ready_at_ns (status p') \<noteq> None \<longrightarrow> 3 \<le> n"
  shows "session_ok p' ws"
  using assms by (auto simp: session_ok_def)

text \<open>
  The outcome of a part of a step that was entered in session \<open>ws\<close>: an error leaves a session that
  can be failed; otherwise the policy was released, or the session is in order again.
\<close>

definition part_post ::
    "(u8 \<times> u8 \<times> bytes) list \<Rightarrow> PdPolicy \<Rightarrow> (PdError, unit) outcome \<Rightarrow> PdPolicy \<Rightarrow> history \<Rightarrow> bool" where
  "part_post ws p r p' l \<longleftrightarrow>
     r \<noteq> Panic \<and> guarded_writes p l
     \<and> (case r of
          Ok _ \<Rightarrow> released p p' l
            \<or> orientation p' = orientation p \<and> phase (status p') \<noteq> Idle \<and> session_ok p' (ws @ writes l)
              \<and> (phase (status p') = Complete \<longrightarrow> host_verified p' l)
        | _ \<Rightarrow> orientation p' = orientation p \<and> failable p' (ws @ writes l))"

lemma part_post_later:
  assumes "part_post ws p1 r p' l" "orientation p1 = orientation p" "writes l1 = []"
  shows "part_post ws p r p' (l1 @ l)"
proof -
  have "guarded_writes p (l1 @ l)"
    using assms guarded_append[OF guarded_quiet] guarded_session[of p1 p] by (auto simp: part_post_def)
  then show ?thesis
    using assms released_session[of p1 p' l p l1] host_verified_later[of p' l l1]
    by (auto simp: part_post_def split: outcome.splits)
qed

lemma part_errI:
  "writes l = [] \<Longrightarrow> same_session p p' \<Longrightarrow> failable p ws \<Longrightarrow> part_post ws p (Err e) p' l"
  by (simp add: part_post_def guarded_quiet failable_session) (simp add: same_session_def)

lemma part_okI:
  "writes l = [] \<Longrightarrow> orientation p' = orientation p \<Longrightarrow> session_ok p' ws \<Longrightarrow> phase (status p') \<noteq> Idle
    \<Longrightarrow> phase (status p') \<noteq> Complete \<or> host_verified p' l \<Longrightarrow> part_post ws p (Ok u) p' l"
  by (auto simp: part_post_def guarded_quiet)

lemma part_releasedI: "writes l = [] \<Longrightarrow> released p p' l \<Longrightarrow> part_post ws p (Ok u) p' l"
  by (auto simp: part_post_def guarded_quiet)

text \<open>A check of the contract, followed by something that depends on the port.\<close>

lemma checked_part:
  assumes "failable p ws"
    and "\<And>st p1 l1. writes l1 = [] \<Longrightarrow> same_core p p1 \<Longrightarrow> verified p st l1
      \<Longrightarrow> op_spec (f (Some st)) p1 (\<lambda>r p' l2. part_post ws p r p' (l1 @ l2))"
    and "f None = act_return ()"
  shows "op_spec (act_bind (checked_contract_state (logged io)) f) p (part_post ws p)"
proof (rule op_bind[OF checked_contract_state_spec], goal_cases)
  case (1 c p1 l1)
  then show ?case
    using assms(2,3) by (cases c) (auto simp: checked_post_def op_rules intro: part_releasedI)
next
  case (2 e p1 l1)
  then show ?case by (auto simp: checked_post_def intro!: part_errI assms(1) core_session)
qed (simp add: checked_post_def)

lemma verified_evidence:
  "verified p st l \<Longrightarrow> writes l = [] \<Longrightarrow> data_role st = Host \<Longrightarrow> \<not> command_busy st \<Longrightarrow> host_verified p l"
  unfolding host_verified_def by fastforce

lemma verified_contract: "verified p st l \<Longrightarrow> \<exists>ct. contract (status p) = Some ct"
  by (auto simp: verified_def)

text \<open>The charging work survives a data role that failed after PS_RDY.\<close>

definition negotiated :: "PdPolicy \<Rightarrow> (u8 \<times> u8 \<times> bytes) list \<Rightarrow> bool" where
  "negotiated p ws \<longleftrightarrow> (\<exists>ct n. contract (status p) = Some ct \<and> 3 \<le> n \<and> ws = take n (handshake ct))"

lemma negotiated_failable: "negotiated p ws \<Longrightarrow> failable p ws"
  by (auto simp: negotiated_def failable_def)

lemma negotiated_session: "same_session p p' \<Longrightarrow> negotiated p' ws = negotiated p ws"
  by (simp add: negotiated_def same_session_def)

lemma negotiated_complete:
  "negotiated p ws \<Longrightarrow> phase (status p) = Complete \<Longrightarrow> charge_ready_at_ns (status p) \<noteq> None \<Longrightarrow> session_ok p ws"
  by (auto simp: negotiated_def session_ok_def)

lemma negotiated_role_failed:
  "negotiated p ws \<Longrightarrow> session_ok (data_role_failed r p) ws"
  "negotiated p ws \<Longrightarrow> session_ok ((data_role_failed r p)\<lparr>recovered_charge_at := None\<rparr>) ws"
  by (auto simp: negotiated_def session_ok_def data_role_failed_def)

lemma role_failed_part:
  assumes "negotiated p ws" "same_session p p'" "writes l = []"
  shows "part_post ws p (Ok u) (data_role_failed r p') l"
    and "part_post ws p (Ok u) ((data_role_failed r p')\<lparr>recovered_charge_at := None\<rparr>) l"
  using assms negotiated_role_failed[of p' ws r] negotiated_session[OF assms(2)]
  by (auto intro!: part_okI simp: data_role_failed_def same_session_def)

lemma swap_failed_spec:
  assumes "negotiated p ws"
  shows "op_spec (swap_failed (logged io) r) p (part_post ws p)"
  unfolding swap_failed_def
  by (rule checked_part)
    (use assms negotiated_failable role_failed_part(1) core_session in \<open>auto simp: op_rules\<close>)

lemma wait_swap_spec:
  assumes "session_ok p ws" "phase (status p) = WaitSwap"
  shows "op_spec (wait_swap (logged io)) p (part_post ws p)"
  unfolding wait_swap_def
proof (rule checked_part, goal_cases)
  case 1
  show ?case using assms(1) by (rule session_failable)
next
  case (2 st p1 l1)
  have n: "negotiated p ws"
    using assms by (auto simp: session_ok_def negotiated_def intro!: exI[of _ 4])
  have charge: "charge_ready_at_ns (status p) \<noteq> None" using assms by (auto simp: session_ok_def)
  have "session_ok (set_phase Complete p1) ws"
    by (rule negotiated_complete) (use n charge 2(2) in \<open>simp_all add: negotiated_def same_core_def\<close>)
  moreover have "orientation (set_phase Complete p1) = orientation p"
    using 2(2) by (simp add: same_core_def)
  moreover have "host_verified (set_phase Complete p1) l1"
    if "\<not> (command_busy st \<or> data_role st \<noteq> Host)"
    using verified_evidence[OF 2(3,1)] that 2(2) host_verified_session[of "set_phase Complete p1" p]
    by (auto simp: same_core_def)
  ultimately have finish: "part_post ws p (Ok ()) (set_phase Complete p1) l1"
    if "\<not> (command_busy st \<or> data_role st \<noteq> Host)"
    using that 2(1) by (intro part_okI) simp_all
  show ?case
  proof (cases "command_busy st \<or> data_role st \<noteq> Host")
    case True
    then show ?thesis
      using role_failed_part(1)[OF n core_session[OF 2(2)] 2(1)] by (simp add: op_rules)
  next
    case False
    show ?thesis unfolding option.case if_not_P[OF False] op_rules change_phase using finish[OF False] by simp
  qed
qed simp

section \<open>Waiting for a command\<close>

text \<open>The outcome of a command that is the next one of the session.\<close>

lemma command_part:
  assumes sent: "contract (status p) = Some ct" "ws = take n (handshake ct)" "n < 4"
    and cmd: "handshake ct ! n = command_write cmd" "cmd = PS_RDY \<or> cmd = DR_SWAP"
    and swap: "cmd = DR_SWAP \<longrightarrow> 3 \<le> n \<and> charge_ready_at_ns (status p) \<noteq> None"
    and started: "\<And>t. session_ok ((set_phase ph p)\<lparr>deadline := t\<rparr>) (ws @ [command_write cmd])"
    and ph: "ph \<noteq> Idle" "ph \<noteq> Complete"
    and post: "command_post cmd ph p r p' l"
  shows "part_post ws p (case r of Ok b \<Rightarrow> Ok () | Err e \<Rightarrow> Err e | Panic \<Rightarrow> Panic) p' l"
proof -
  have nxt: "ws @ [command_write cmd] = take (Suc n) (handshake ct)"
    using sent(2,3) cmd(1) by (simp add: take_Suc_conv_app_nth handshake_length)
  have later: "failable p ws" "failable p (ws @ [command_write cmd])"
    using sent(1,2) nxt unfolding failable_def by blast+
  have swapped: "negotiated p ws" "negotiated p (ws @ [command_write cmd])" if "cmd = DR_SWAP"
    using sent(1,2) nxt swap that unfolding negotiated_def by (blast intro: le_SucI)+
  have g: "guarded_writes p l" "writes l = [] \<or> writes l = [command_write cmd]" "r \<noteq> Panic"
    using post by (auto simp: command_post_def)
  consider (released) b where "r = Ok b" "released p p' l"
    | (complete) "r = Ok True" "writes l = []" "cmd = DR_SWAP" "same_core (set_phase Complete p) p'" "host_verified p l"
    | (started) t where "r = Ok True" "writes l = [command_write cmd]" "same_core ((set_phase ph p)\<lparr>deadline := t\<rparr>) p'"
    | (role) e where "r = Ok True" "writes l = [command_write cmd]" "cmd = DR_SWAP" "same_core (data_role_failed e p) p'"
    | (error) e where "r = Err e" "same_core p p'"
    using post unfolding command_post_def by (auto split: outcome.splits bool.splits)
  then show ?thesis
  proof cases
    case released
    then show ?thesis using g by (simp add: part_post_def)
  next
    case complete
    have "session_ok (set_phase Complete p) ws"
      using swapped(1) swap complete(3) by (intro negotiated_complete) (simp_all add: negotiated_def)
    then have "session_ok p' ws" using session_ok_core[OF complete(4)] by simp
    moreover have "host_verified p' l"
      using complete(4,5) host_verified_session[of p' p] by (simp add: same_core_def)
    ultimately show ?thesis using complete g by (simp add: part_post_def same_core_def)
  next
    case (started t)
    have "session_ok p' (ws @ [command_write cmd])"
      using session_ok_core[OF started(3)] assms(7) by simp
    then show ?thesis using started g ph by (simp add: part_post_def same_core_def)
  next
    case (role e)
    have "session_ok p' (ws @ [command_write cmd])"
      using session_ok_core[OF role(4)] negotiated_role_failed(1)[OF swapped(2)[OF role(3)]] by simp
    then show ?thesis using role g by (simp add: part_post_def same_core_def data_role_failed_def)
  next
    case (error e)
    have "failable p (ws @ writes l)"
      using g(2) by (elim disjE) (simp_all only: later append_Nil2)
    then have "failable p' (ws @ writes l)"
      unfolding failable_session[OF core_session[OF error(2)]] .
    moreover have "orientation p' = orientation p" using error(2) by (simp add: same_core_def)
    ultimately show ?thesis using error(1) g(1) by (simp add: part_post_def)
  qed
qed

lemma command_part_spec:
  assumes "contract (status p) = Some ct" "ws = take n (handshake ct)" "n < 4"
    and "handshake ct ! n = command_write cmd" "cmd = PS_RDY \<or> cmd = DR_SWAP"
    and "cmd = DR_SWAP \<longrightarrow> 3 \<le> n \<and> charge_ready_at_ns (status p) \<noteq> None"
    and "\<And>t. session_ok ((set_phase ph p)\<lparr>deadline := t\<rparr>) (ws @ [command_write cmd])"
    and "ph \<noteq> Idle" "ph \<noteq> Complete"
  shows "op_spec (act_bind (command (logged io) cmd ph now) (\<lambda>_. act_return ())) p (part_post ws p)"
proof (rule op_bind[OF command_spec[OF assms(5)]], goal_cases)
  case (1 a p1 l1)
  from command_part[OF assms 1] show ?case by (simp add: op_rules)
next
  case (2 e p1 l1)
  from command_part[OF assms 2] show ?case by simp
qed (simp add: command_post_def)

lemma wait_ready_spec:
  assumes "session_ok p ws" "phase (status p) = WaitReady"
  shows "op_spec (wait_ready (logged io) st now) p (part_post ws p)"
proof -
  from assms obtain ct where ct: "contract (status p) = Some ct" "ws = take 3 (handshake ct)"
    by (auto simp: session_ok_def)
  have f: "failable p ws" using assms(1) by (rule session_failable)
  show ?thesis
  proof (cases "command_busy st")
    case True
    then show ?thesis unfolding wait_ready_def by (simp add: op_rules part_errI[OF _ _ f])
  next
    case False
    show ?thesis
      unfolding wait_ready_def if_not_P[OF False]
    proof (rule checked_part[OF f], goal_cases)
      case (1 st p1 l1)
      define charged where "charged t = status_update (\<lambda>s. s\<lparr>charge_ready_at_ns := Some (sat_add t 2000000000)\<rparr>) p1" for t
      have p1: "orientation p1 = orientation p" "contract (status p1) = Some ct" using 1(2) ct by (simp_all add: same_core_def)
      have charged: "orientation (charged t) = orientation p" "contract (status (charged t)) = Some ct"
        "charge_ready_at_ns (status (charged t)) \<noteq> None" for t
        using p1 by (simp_all add: charged_def)
      have n: "negotiated (charged t) ws" for t using charged ct unfolding negotiated_def by blast
      have host: "part_post ws p (Ok ()) (set_phase Complete (charged t)) l1"
        if "data_role st = Host" "\<not> command_busy st" for t
      proof (rule part_okI[OF 1(1)])
        show "session_ok (set_phase Complete (charged t)) ws"
          using n charged by (intro negotiated_complete) (simp_all add: negotiated_def)
        show "phase (status (set_phase Complete (charged t))) \<noteq> Complete \<or> host_verified (set_phase Complete (charged t)) l1"
          using verified_evidence[OF 1(3,1) that] host_verified_session[of "set_phase Complete (charged t)" p] charged ct
          by simp
      qed (use charged in simp_all)
      have unsup: "part_post ws p (Ok ()) (unsupported NOT_DUAL_ROLE (charged t)) l1" for t
        using 1(1) charged ct by (intro part_okI) (auto simp: unsupported_def session_ok_def)
      have swap: "op_spec (act_bind (command (logged io) DR_SWAP WaitSwap now) (\<lambda>_. act_return ())) (charged t)
          (\<lambda>r p' l2. part_post ws p r p' (l1 @ l2))" for t
      proof (rule op_mono)
        show "op_spec (act_bind (command (logged io) DR_SWAP WaitSwap now) (\<lambda>_. act_return ())) (charged t)
            (part_post ws (charged t))"
          by (rule command_part_spec[OF charged(2) ct(2)])
            (use charged ct in \<open>auto simp: handshake_def session_ok_def\<close>)
      qed (use part_post_later 1(1) charged in blast)
      show ?case
        unfolding option.case op_rules
        using host unsup swap 1(1,2) f p1 charged
        by (auto simp: op_rules charged_def[symmetric] change_phase intro!: pd_time_rule part_errI core_session)
    qed simp
  qed
qed

text \<open>Parts that begin with a check, an event, or go on in the same session.\<close>

lemma unchanged_part:
  assumes "failable p ws"
    and "\<And>p1 l1. writes l1 = [] \<Longrightarrow> same_core p p1
      \<Longrightarrow> op_spec (f ()) p1 (\<lambda>r p' l2. part_post ws p r p' (l1 @ l2))"
  shows "op_spec (act_bind (unchanged_contract (logged io)) f) p (part_post ws p)"
proof (rule op_bind[OF unchanged_contract_spec], goal_cases)
  case (1 a p1 l1)
  then show ?case using assms(2) by (cases a) (auto simp: contract_post_def)
next
  case (2 e p1 l1)
  then show ?case by (auto simp: contract_post_def intro!: part_errI assms(1) core_session)
qed (simp add: contract_post_def)

lemma event_part:
  assumes "failable p ws"
    and "\<And>alert st p1 l1. writes l1 = [] \<Longrightarrow> same_core p p1 \<Longrightarrow> stable st l1 \<Longrightarrow> sink_power_valid st
      \<Longrightarrow> orientation p = Some (side st)
      \<Longrightarrow> op_spec (f (Some (alert, st))) p1 (\<lambda>r p' l2. part_post ws p r p' (l1 @ l2))"
    and "f None = act_return ()"
  shows "op_spec (act_bind (event (logged io) initial) f) p (part_post ws p)"
proof (rule op_bind[OF event_spec], goal_cases)
  case (1 a p1 l1)
  show ?case
  proof (cases a)
    case None
    then show ?thesis
      using 1 assms(3) by (auto simp: event_post_def op_rules intro: part_releasedI)
  next
    case (Some x)
    obtain alert st where x: "x = (alert, st)" by (cases x)
    show ?thesis
      unfolding Some x by (rule assms(2)) (use 1 Some x in \<open>auto simp: event_post_def\<close>)
  qed
next
  case (2 e p1 l1)
  then show ?case by (auto simp: event_post_def intro!: part_errI assms(1) core_session)
qed (simp add: event_post_def)

lemma part_session:
  assumes "op_spec m p1 (part_post ws p1)" "orientation p1 = orientation p" "writes l1 = []"
  shows "op_spec m p1 (\<lambda>r p' l. part_post ws p r p' (l1 @ l))"
  by (rule op_mono[OF assms(1)]) (rule part_post_later[OF _ assms(2,3)])

lemma wait_contract_send:
  assumes "session_ok p ws" "phase (status p) = WaitContract"
  shows "op_spec (act_when c (act_bind (unchanged_contract (logged io)) (\<lambda>_.
      act_bind (command (logged io) PS_RDY WaitReady now) (\<lambda>_. act_return ())))) p (part_post ws p)"
proof (cases c)
  case False
  then show ?thesis using assms by (auto simp: op_rules intro!: part_okI)
next
  case True
  from assms obtain ct where ct: "contract (status p) = Some ct" "ws = take 2 (handshake ct)"
    "charge_ready_at_ns (status p) = None"
    by (auto simp: session_ok_def)
  have "op_spec (act_bind (unchanged_contract (logged io)) (\<lambda>_.
      act_bind (command (logged io) PS_RDY WaitReady now) (\<lambda>_. act_return ()))) p (part_post ws p)"
  proof (rule unchanged_part[OF session_failable[OF assms(1)]])
    fix p1 l1
    assume l1: "writes l1 = []" "same_core p p1"
    have p1: "contract (status p1) = Some ct" "charge_ready_at_ns (status p1) = None" "orientation p1 = orientation p"
      using l1(2) ct by (simp_all add: same_core_def)
    show "op_spec (act_bind (command (logged io) PS_RDY WaitReady now) (\<lambda>_. act_return ())) p1
        (\<lambda>r p' l2. part_post ws p r p' (l1 @ l2))"
      by (rule part_session[OF command_part_spec[OF p1(1) ct(2)] p1(3) l1(1)])
        (use p1 ct in \<open>auto simp: handshake_def session_ok_def PS_RDY_def DR_SWAP_def\<close>)
  qed
  then show ?thesis using True by (simp add: act_when_def)
qed

lemma wait_contract_spec:
  assumes "session_ok p ws" "phase (status p) = WaitContract"
  shows "op_spec (wait_contract (logged io) alert st now) p (part_post ws p)"
proof -
  have send: "op_spec (act_bind policy (\<lambda>p. act_when (contract_seen p \<and> \<not> command_busy st)
      (act_bind (unchanged_contract (logged io)) (\<lambda>_.
        act_bind (command (logged io) PS_RDY WaitReady now) (\<lambda>_. act_return ()))))) p2
      (\<lambda>r p' l. part_post ws p r p' (l1 @ l))"
    if "same_session p p2" "writes l1 = []" for p2 l1
    unfolding op_bind_policy
    by (rule part_session[OF wait_contract_send])
      (use that assms session_ok_session[OF that(1)] in \<open>simp_all add: same_session_def\<close>)
  show ?thesis
  proof (cases "alert AND ALERT_CONTRACT = 0")
    case True
    then show ?thesis using send[of p "[]"] by (simp add: wait_contract_def act_when_def op_bind_return)
  next
    case False
    have seen: "op_spec (act_bind (act_bind (unchanged_contract (logged io)) (\<lambda>_. change (\<lambda>p. p\<lparr>contract_seen := True\<rparr>))) f)
        p (part_post ws p)"
      if f: "\<And>p2 l1. same_session p p2 \<Longrightarrow> writes l1 = [] \<Longrightarrow> op_spec (f ()) p2 (\<lambda>r p' l. part_post ws p r p' (l1 @ l))" for f
    proof (rule op_bind[where P = "\<lambda>r p2 l1. r \<noteq> Panic \<and> writes l1 = [] \<and> same_session p p2"], goal_cases)
      case 1
      show ?case
        by (rule op_bind[OF unchanged_contract_spec])
          (auto simp: op_rules contract_post_def same_session_def same_core_def)
    next
      case (2 a p2 l1)
      then show ?case using f by simp
    next
      case (3 e p2 l1)
      then show ?case using session_failable[OF assms(1)] by (auto intro: part_errI)
    qed simp
    show ?thesis
      unfolding wait_contract_def act_when_def[of "alert AND ALERT_CONTRACT \<noteq> 0"] if_P[OF False]
      by (rule seen) (rule send)
  qed
qed

lemma wait_spec:
  assumes "session_ok p ws" "phase (status p) \<in> {WaitContract, WaitReady, WaitSwap}"
  shows "op_spec (wait (logged io) now) p (part_post ws p)"
  unfolding wait_def
proof (rule event_part[OF session_failable[OF assms(1)]], goal_cases)
  case (1 alert st p1 l1)
  have p1: "session_ok p1 ws" "phase (status p1) = phase (status p)" "orientation p1 = orientation p"
    using session_ok_core[OF 1(2)] assms(1) 1(2) by (simp_all add: same_core_def)
  note later = part_session[OF _ p1(3) 1(1)]
  have refuse: "part_post ws p (Err e) p1 (l1 @ [])" for e
    using 1 session_failable[OF assms(1)] by (auto intro!: part_errI core_session)
  have stay: "part_post ws p (Ok ()) p1 (l1 @ [])"
    using 1 p1 assms(2) by (auto intro!: part_okI)
  have swap: "op_spec (swap_failed (logged io) r) p1 (\<lambda>r p' l. part_post ws p r p' (l1 @ l))"
    if "phase (status p1) = WaitSwap" for r
    by (rule later[OF swap_failed_spec])
      (use p1(1) that in \<open>auto simp: session_ok_def negotiated_def intro!: exI[of _ 4]\<close>)
  consider "phase (status p1) = WaitContract" | "phase (status p1) = WaitReady" | "phase (status p1) = WaitSwap"
    using p1(2) assms(2) by auto
  then show ?case
  proof cases
    case 1
    have "op_spec (wait_contract (logged io) alert st now) p1 (\<lambda>r p' l. part_post ws p r p' (l1 @ l))"
      by (rule later[OF wait_contract_spec[OF p1(1) 1]])
    then show ?thesis
      using refuse 1 unfolding option.case prod.case
      by (intro pd_time_rule) (simp add: op_rules)
  next
    case 2
    have "op_spec (wait_ready (logged io) st now) p1 (\<lambda>r p' l. part_post ws p r p' (l1 @ l))"
      by (rule later[OF wait_ready_spec[OF p1(1) 2]])
    then show ?thesis
      using refuse stay 2 unfolding option.case prod.case
      by (intro pd_time_rule) (simp add: op_rules)
  next
    case 3
    have "op_spec (wait_swap (logged io)) p1 (\<lambda>r p' l. part_post ws p r p' (l1 @ l))"
      by (rule later[OF wait_swap_spec[OF p1(1) 3]])
    then show ?thesis
      using refuse stay swap[OF 3] 3 unfolding option.case prod.case
      by (intro pd_time_rule) (simp add: op_rules)
  qed
qed simp

end
