(* ===== verification/Pd_Monitor.thy ===== *)
theory Pd_Monitor
  imports Pd_Steps
begin

text \<open>The steps of the monitor: what one call of \<open>poll\<close> does to the session.\<close>

fun terminal :: "PdPhase \<Rightarrow> bool" where
  "terminal (Unsupported r) = True"
| "terminal (Failed r) = True"
| "terminal _ = False"

definition step_post ::
    "(u8 \<times> u8 \<times> bytes) list \<Rightarrow> PdPolicy \<Rightarrow> (PdError, unit) outcome \<Rightarrow> PdPolicy \<Rightarrow> history \<Rightarrow> bool" where
  "step_post ws p r p' l \<longleftrightarrow>
     r = Ok () \<and> guarded_writes p l
     \<and> (released p p' l
        \<or> orientation p' = orientation p \<and> session_ok p' (ws @ writes l)
          \<and> (phase (status p') = Idle \<longrightarrow> phase (status p) = Idle)
          \<and> (terminal (phase (status p)) \<longrightarrow> terminal (phase (status p')) \<and> writes l = [])
          \<and> (phase (status p') = Complete \<longrightarrow> host_verified p' l))"

lemma step_releasedI: "released p p' l \<Longrightarrow> writes l = [] \<Longrightarrow> step_post ws p (Ok ()) p' l"
  by (simp add: step_post_def guarded_quiet)

lemma step_failI:
  assumes "failable p' (ws @ writes l)" "guarded_writes p l" "orientation p' = orientation p"
    and "terminal (phase (status p)) \<longrightarrow> writes l = []"
  shows "step_post ws p (Ok ()) (fail r p') l"
  using fail_session[OF assms(1)] assms(2-4) by (simp add: step_post_def fail_def)

lemma part_step:
  assumes "part_post ws p (Ok ()) p' l" "\<not> terminal (phase (status p))"
  shows "step_post ws p (Ok ()) p' l"
  using assms by (auto simp: part_post_def step_post_def)

lemma step_core:
  assumes "same_core p p'" "session_ok p ws" "writes l = []" "phase (status p) \<noteq> Complete"
  shows "step_post ws p (Ok ()) p' l"
proof -
  have "session_ok p' (ws @ writes l)" using session_ok_core[OF assms(1)] assms(2,3) by simp
  moreover have "phase (status p') = phase (status p)" "orientation p' = orientation p"
    using assms(1) by (simp_all add: same_core_def)
  ultimately show ?thesis using assms(3,4) by (simp add: step_post_def guarded_quiet)
qed

section \<open>Terminal phases\<close>

definition quiet_post :: "PdPolicy \<Rightarrow> (PdError, unit) outcome \<Rightarrow> PdPolicy \<Rightarrow> history \<Rightarrow> bool" where
  "quiet_post p r p' l \<longleftrightarrow>
     r \<noteq> Panic \<and> writes l = [] \<and> (same_core p p' \<or> r = Ok () \<and> released p p' l)"

lemma poll_terminal_spec:
  assumes "session_ok p ws" "terminal (phase (status p))"
  shows "op_spec (poll_terminal (logged io) raw) p (step_post ws p)"
proof -
  have live: "phase (status p) \<noteq> Complete" using assms(2) by (cases "phase (status p)") auto
  have body: "op_spec (if \<not> sink_power_valid raw then act_throw (Unsafe LOST_PATH)
      else act_bind (event (logged io) False) (\<lambda>e. case e of None \<Rightarrow> act_return ()
        | Some _ \<Rightarrow> act_bind (checked_contract_state (logged io)) (\<lambda>_. act_return ()))) p (quiet_post p)"
    unfolding op_rules
  proof (simp add: quiet_post_def, rule impI, rule op_bind[OF event_spec], goal_cases)
    case (1 a p1 l1)
    show ?case
    proof (cases a)
      case None
      then show ?thesis using 1 by (simp add: op_rules event_post_def quiet_post_def)
    next
      case (Some x)
      then have l1: "writes l1 = []" "same_core p p1" using 1 by (auto simp: event_post_def)
      show ?thesis
        unfolding Some option.case
        by (rule op_bind[OF checked_contract_state_spec])
          (use l1 same_core_trans released_later in
            \<open>auto simp: op_rules checked_post_def quiet_post_def split: option.splits\<close>)
    qed
  qed (auto simp: event_post_def quiet_post_def)
  show ?thesis
  proof (cases "charge_ready_at_ns (status p) = None")
    case True
    then show ?thesis using step_core[OF same_core_refl assms(1) _ live] by (simp add: poll_terminal_def op_rules)
  next
    case False
    have "op_spec (act_catch (if \<not> sink_power_valid raw then act_throw (Unsafe LOST_PATH)
      else act_bind (event (logged io) False) (\<lambda>e. case e of None \<Rightarrow> act_return ()
        | Some _ \<Rightarrow> act_bind (checked_contract_state (logged io)) (\<lambda>_. act_return ())))
        (\<lambda>e. change (fail (pd_reason e)))) p (step_post ws p)"
    proof (rule op_catch[OF body], goal_cases)
      case (1 a p' l)
      then show ?case
        using step_core[OF _ assms(1) _ live] step_releasedI by (auto simp: quiet_post_def)
    next
      case (2 e p' l)
      then have "failable p' (ws @ writes l)" "orientation p' = orientation p" "writes l = []"
        using session_failable[OF assms(1)] failable_session[OF core_session, of p p' ws]
        by (auto simp: quiet_post_def same_core_def)
      then show ?case by (auto simp: op_rules intro!: step_failI guarded_quiet)
    qed (simp add: quiet_post_def)
    then show ?thesis using False by (simp add: poll_terminal_def op_bind_policy act_when_def)
  qed
qed

section \<open>A completed handoff\<close>

lemma completed_negotiated:
  "session_ok p ws \<Longrightarrow> completed (phase (status p)) \<Longrightarrow> negotiated p ws"
  by (cases "phase (status p)") (auto simp: session_ok_def negotiated_def completed_def)

definition completed_post ::
    "(u8 \<times> u8 \<times> bytes) list \<Rightarrow> PdPolicy \<Rightarrow> (PdError, unit) outcome \<Rightarrow> PdPolicy \<Rightarrow> history \<Rightarrow> bool" where
  "completed_post ws p r p' l \<longleftrightarrow>
     part_post ws p r p' l \<and> (\<forall>e. r = Err e \<longrightarrow> same_core p p' \<and> writes l = [])"

lemma completed_check_spec: "op_spec (completed_check (logged io) lost) p (checked_post p)"
  unfolding completed_check_def
  by (rule op_catch[OF checked_contract_state_spec]) (auto simp: op_rules checked_post_def)

lemma completed_errI:
  "writes l = [] \<Longrightarrow> same_core p p' \<Longrightarrow> failable p ws \<Longrightarrow> completed_post ws p (Err e) p' l"
  by (simp add: completed_post_def part_errI core_session)

lemma completed_okI: "part_post ws p (Ok u) p' l \<Longrightarrow> completed_post ws p (Ok u) p' l"
  by (simp add: completed_post_def)

definition recover_completed :: "PdPolicy \<Rightarrow> PdPolicy" where
  "recover_completed p =
     p\<lparr>status := (status p)\<lparr>phase := Complete, charge_ready_at_ns := recovered_charge_at p\<rparr>,
       recovered_charge_at := None\<rparr>"

lemma recover_completed_ok:
  assumes "session_ok p ws" "phase (status p) = Revalidate r"
  shows "session_ok (recover_completed p) ws"
  using assms by (auto simp: session_ok_def recover_completed_def)

lemma poll_completed_spec:
  assumes "session_ok p ws" "completed (phase (status p))" "revalidating \<longleftrightarrow> phase (status p) \<noteq> Complete"
  shows "op_spec (poll_completed (logged io) revalidating now) p (completed_post ws p)"
  unfolding poll_completed_def
proof (rule op_bind[OF event_spec], goal_cases)
  case (1 a p1 l1)
  have n: "negotiated p ws" using completed_negotiated[OF assms(1,2)] .
  have f: "failable p ws" using n by (rule negotiated_failable)
  show ?case
  proof (cases a)
    case None
    then show ?thesis
      using 1 by (auto simp: op_rules event_post_def intro!: completed_okI part_releasedI)
  next
    case (Some x)
    obtain alert st where x: "x = (alert, st)" by (cases x)
    have l1: "writes l1 = []" "same_core p p1" using 1 Some x by (auto simp: event_post_def)
    define lost where "lost = (command_busy st \<or> data_role st \<noteq> Host)"
    show ?thesis
      unfolding Some x option.case prod.case Let_def lost_def[symmetric]
    proof (rule op_bind[OF completed_check_spec], goal_cases)
      case (1 c p2 l2)
      show ?case
      proof (cases c)
        case None
        then show ?thesis
          using 1 l1 released_later
          by (auto simp: op_rules checked_post_def intro!: completed_okI part_releasedI)
      next
        case (Some st2)
        have l2: "writes (l1 @ l2) = []" "same_core p p2" "verified p st2 l2"
          using 1 Some l1 same_core_trans verified_core by (auto simp: checked_post_def)
        have failed: "completed_post ws p (Ok ()) ((data_role_failed LOST_HOST p2)\<lparr>recovered_charge_at := None\<rparr>) (l1 @ l2)"
          using role_failed_part(2)[OF n core_session[OF l2(2)] l2(1)] by (rule completed_okI)
        have evidence: "host_verified p (l1 @ l2)" if "\<not> command_busy st2" "data_role st2 = Host"
          using verified_evidence[OF l2(3) _ that(2,1)] l2(1) host_verified_later by simp
        have s2: "session_ok p2 ws" "phase (status p2) = phase (status p)" "orientation p2 = orientation p"
          "contract (status p2) = contract (status p)"
          using session_ok_core[OF l2(2)] assms(1) l2(2) by (simp_all add: same_core_def)
        have stays: "completed_post ws p (Ok ()) p2 (l1 @ l2)"
          if "\<not> command_busy st2" "data_role st2 = Host"
          using evidence[OF that] s2 l2(1) assms(2) host_verified_session[of p2 p]
          by (intro completed_okI part_okI) (auto simp: completed_def)
        have recovers: "completed_post ws p (Ok ()) (recover_completed p2) (l1 @ l2)"
          if h: "\<not> command_busy st2" "data_role st2 = Host" "revalidating"
        proof -
          obtain r where "phase (status p2) = Revalidate r"
            using h(3) assms(2,3) s2(2) by (cases "phase (status p)") (auto simp: completed_def)
          then have "session_ok (recover_completed p2) ws" using s2(1) by (intro recover_completed_ok)
          then show ?thesis
            using evidence[OF h(1,2)] s2 l2(1) host_verified_session[of "recover_completed p2" p]
            by (intro completed_okI part_okI) (auto simp: recover_completed_def)
        qed
        have expired: "completed_post ws p (Err e) p2 (l1 @ l2)" for e
          using l2 f by (intro completed_errI)
        show ?thesis
          unfolding Some option.case
          using failed stays recovers expired
          by (auto simp: op_rules recover_completed_def intro!: pd_time_rule)
      qed
    next
      case (2 e p2 l2)
      then have "writes (l1 @ l2) = []" "same_core p p2"
        using l1 same_core_trans by (auto simp: checked_post_def)
      then show ?case using f by (intro completed_errI)
    qed (simp add: checked_post_def)
  qed
next
  case (2 e p1 l1)
  then show ?case
    using negotiated_failable[OF completed_negotiated[OF assms(1,2)]]
    by (auto simp: event_post_def intro!: completed_errI)
qed (simp add: event_post_def)

lemma transport_lost_ok:
  assumes "session_ok p ws" "completed (phase (status p))"
  shows "session_ok (transport_lost r t p) ws" "orientation (transport_lost r t p) = orientation p"
    "phase (status (transport_lost r t p)) \<noteq> Idle" "phase (status (transport_lost r t p)) \<noteq> Complete"
proof -
  show "session_ok (transport_lost r t p) ws"
    using assms fail_session[OF session_failable[OF assms(1)]]
    by (cases "phase (status p)") (auto simp: transport_lost_def completed_def session_ok_def)
qed (use assms(2) in \<open>cases "phase (status p)"; simp add: transport_lost_def completed_def fail_def\<close>)+

lemma poll_active_spec:
  assumes "session_ok p ws" "phase (status p) \<noteq> Idle" "\<not> terminal (phase (status p))"
  shows "op_spec (poll_active (logged io) raw now) p (step_post ws p)"
proof -
  define revalidating where "revalidating = (case phase (status p) of Revalidate _ \<Rightarrow> True | _ \<Rightarrow> False)"
  define finish where "finish = (phase (status p) = Complete \<or> revalidating)"
  have f: "failable p ws" using assms(1) by (rule session_failable)
  have failed: "step_post ws p (Ok ()) (fail r p) []" for r
    using f assms(3) by (intro step_failI) (simp_all add: guarded_quiet)
  have body: "op_spec (active_step (logged io) finish revalidating now) p (step_post ws p)"
  proof (cases finish)
    case True
    then have c: "completed (phase (status p))" "revalidating \<longleftrightarrow> phase (status p) \<noteq> Complete"
      by (auto simp: finish_def revalidating_def completed_def split: PdPhase.splits)
    show ?thesis
      unfolding active_step_def if_P[OF True]
    proof (rule op_catch[OF poll_completed_spec[OF assms(1) c]], goal_cases)
      case (1 a p' l)
      then show ?case using assms(3) by (auto simp: completed_post_def intro: part_step)
    next
      case (2 e p' l)
      then have e: "writes l = []" "same_core p p'" by (simp_all add: completed_post_def)
      have s': "session_ok p' ws" "completed (phase (status p'))" "failable p' ws" "orientation p' = orientation p"
        using session_ok_core[OF e(2)] failable_session[OF core_session[OF e(2)]] assms(1) c(1) f e(2)
        by (simp_all add: same_core_def)
      have lost: "step_post ws p (Ok ()) (transport_lost r t p') l" for r t
        using transport_lost_ok[OF s'(1,2), of r t] s'(4) e(1) assms(3)
        by (simp add: step_post_def guarded_quiet)
      have "step_post ws p (Ok ()) (fail r p') l" for r
        using s' e(1) by (intro step_failI) (simp_all add: guarded_quiet)
      then show ?case
        using lost by (cases e) (auto simp: op_rules intro!: pd_time_rule)
    qed (simp add: completed_post_def part_post_def)
  next
    case False
    then have w: "phase (status p) \<in> {WaitContract, WaitReady, WaitSwap}"
      using assms(2,3) by (cases "phase (status p)") (auto simp: finish_def revalidating_def)
    show ?thesis
      unfolding active_step_def if_not_P[OF False]
    proof (rule op_catch[OF wait_spec[OF assms(1) w]], goal_cases)
      case (1 a p' l)
      then show ?case using assms(3) by (auto intro: part_step)
    next
      case (2 e p' l)
      then have "step_post ws p (Ok ()) (fail r p') l" for r
        using assms(3) by (intro step_failI) (auto simp: part_post_def)
      then show ?case by (cases e) (simp_all add: op_rules)
    qed (simp add: part_post_def)
  qed
  show ?thesis
  proof (cases "sink_power_valid raw")
    case False
    then show ?thesis using failed by (simp add: poll_active_def op_rules)
  next
    case True
    have expired: "op_spec (if t then change (fail REVALIDATION) else active_step (logged io) finish revalidating now)
        p (step_post ws p)" for t
      using body failed by (cases t) (simp_all add: op_rules)
    have "op_spec (act_bind (if revalidating then act_bind (pd_time (logged io) now) (\<lambda>t. act_return (deadline p \<le> t))
          else act_return False)
        (\<lambda>t. if t then change (fail REVALIDATION) else active_step (logged io) finish revalidating now)) p (step_post ws p)"
    proof (rule op_bind[where P = "\<lambda>r p' l. p' = p \<and> l = [] \<and> (\<exists>b. r = Ok b)"], goal_cases)
      case 1
      show ?case by (cases revalidating) (auto simp: op_rules intro!: pd_time_rule)
    next
      case (2 a p' l)
      then show ?case using expired[of a] by simp
    qed auto
    then show ?thesis
      unfolding poll_active_def op_if op_bind_policy Let_def revalidating_def[symmetric] finish_def[symmetric]
      using True by simp
  qed
qed

section \<open>Detachment\<close>

text \<open>The policy keeps its session although the caller's snapshot does not show it: a fresh one does.\<close>

definition raced :: "PortState \<Rightarrow> PdPolicy \<Rightarrow> history \<Rightarrow> bool" where
  "raced raw p l \<longleftrightarrow>
     (\<exists>st. stable st l \<and> attached st \<and> side st = (case orientation p of Some o' \<Rightarrow> o' | None \<Rightarrow> side raw))"

lemma poll_detached_spec:
  assumes "session_ok p ws" "\<not> attached raw \<or> (\<exists>o' \<in> set_option (orientation p). o' \<noteq> side raw)"
  shows "op_spec (poll_detached (logged io) raw) p
    (\<lambda>r p' l. writes l = [] \<and> (step_post ws p r p' l \<or> r = Ok () \<and> p' = p \<and> raced raw p l))"
  unfolding poll_detached_def
proof (rule op_catch[where P = "\<lambda>r p' l. writes l = [] \<and> r \<noteq> Panic
      \<and> (p' = p \<and> (r = Ok () \<longrightarrow> raced raw p l) \<or> r = Ok () \<and> released p p' l)"], goal_cases)
  case 1
  show ?case
  proof (rule op_bind[OF pd_take_snapshot], goal_cases)
    case (1 st p1 l1)
    then show ?case
      unfolding op_rules raced_def
      by (cases "orientation p")
        (auto simp: op_rules released_def fresh_policy_def reset_def default_policy_def)
  qed auto
next
  case (2 a p' l)
  then show ?case by (auto intro: step_releasedI)
next
  case (3 e p' l)
  then have "step_post ws p (Ok ()) (fail (pd_reason e) p) l"
    using session_failable[OF assms(1)] by (intro step_failI) (auto simp: guarded_quiet)
  then show ?case using 3 by (auto simp: op_rules)
qed simp

section \<open>Discovery and request\<close>

lemma select_turn_not_Panic:
  "length caps = 29 \<Longrightarrow> i < 7 \<Longrightarrow> select_turn dock caps i sel \<noteq> Panic"
  by (auto simp: select_turn_def read_le_Ok Let_def)

lemma make_contract_not_Panic: "make_contract pdo0 input count position pdo \<noteq> Panic"
  by (simp add: make_contract_def Let_def outcome_simps)

lemma select_profile_not_Panic:
  assumes "length caps = 29"
  shows "select_profile caps pdo0 len input \<noteq> Panic"
proof -
  have "for_each (select_turn dock caps) [0..<unat (len div 4)] None \<noteq> Panic" if "\<not> 28 < len" for dock
  proof (rule for_each_not_Panic[where P = "\<lambda>_. True"])
    fix i s
    assume "i \<in> set [0..<unat (len div 4)]"
    moreover have "unat len \<le> 28" using that by (simp add: word_less_nat_alt not_less)
    then have "unat (len div 4) \<le> 7" by (simp add: unat_div)
    ultimately show "select_turn dock caps i s \<noteq> Panic"
      using assms by (intro select_turn_not_Panic) auto
  qed auto
  then show ?thesis
    unfolding select_profile_def
    by (auto simp: Let_def and_then_eq_Panic ok_or_not_Panic make_contract_not_Panic)
qed

definition discover_post :: "PdPolicy \<Rightarrow> (PdError, Contract) outcome \<Rightarrow> PdPolicy \<Rightarrow> history \<Rightarrow> bool" where
  "discover_post p r p' l \<longleftrightarrow>
     r \<noteq> Panic \<and> writes l = [] \<and> same_core p p'
     \<and> (\<forall>ct. r = Ok ct \<longrightarrow> (\<exists>caps pdo0 len input. select_profile caps pdo0 len input = Ok ct))"

lemma discover_post_later:
  "discover_post p1 r p' l \<Longrightarrow> same_core p p1 \<Longrightarrow> writes l1 = [] \<Longrightarrow> discover_post p r p' (l1 @ l)"
  using same_core_trans by (auto simp: discover_post_def)

lemma discover_errI: "writes l = [] \<Longrightarrow> same_core p p' \<Longrightarrow> discover_post p (Err e) p' l"
  by (simp add: discover_post_def)

lemma discover_spec: "op_spec (discover (logged io)) p (discover_post p)"
  unfolding discover_def
proof (rule op_bind[OF op_read_bytes[where Q = "\<lambda>r p' l. p' = p \<and> writes l = [] \<and> r \<noteq> Panic
      \<and> (\<forall>b. r = Ok b \<longrightarrow> length b = 29)"]], goal_cases)
  case (3 caps p1 l1)
  then have caps: "length caps = 29" "p1 = p" "writes l1 = []" by auto
  have rest: "op_spec (act_bind (object (logged io) CURRENT_PDO) (\<lambda>(_, inherited_pdo).
      act_bind (change_status (\<lambda>s. s\<lparr>current_pdo := Some inherited_pdo\<rparr>)) (\<lambda>_.
      act_bind (object (logged io) CURRENT_RDO) (\<lambda>(_, inherited_rdo).
      act_bind (change_status (\<lambda>s. s\<lparr>rdo := Some inherited_rdo\<rparr>)) (\<lambda>_.
      act_bind (input_limit (logged io)) (\<lambda>input.
      act_bind (change_status (\<lambda>s. s\<lparr>charger_input := Some input\<rparr>)) (\<lambda>_.
      act_lift (select_profile caps pdo0 len input)))))))) p2 (\<lambda>r p' l. discover_post p r p' (l1 @ l))"
    if p2: "same_core p p2" for p2 len pdo0
  proof (rule op_bind[OF object_spec], goal_cases)
    case (1 a p3 l3)
    then have l3: "p3 = p2" "writes l3 = []" by auto
    obtain n v where a: "a = (n, v)" by (cases a)
    have c3: "same_core p (status_update (\<lambda>s. s\<lparr>current_pdo := Some v\<rparr>) p2)"
      using p2 by (simp add: same_core_def)
    show ?case
      unfolding a prod.case op_rules l3(1)
    proof (rule op_bind[OF object_spec], goal_cases)
      case (1 b p4 l4)
      then have l4: "writes l4 = []" "same_core p p4" using c3 by auto
      obtain m w where b: "b = (m, w)" by (cases b)
      have c4: "same_core p (status_update (\<lambda>s. s\<lparr>rdo := Some w\<rparr>) p4)"
        using l4(2) by (simp add: same_core_def)
      show ?case
        unfolding b prod.case op_rules
      proof (rule op_bind[OF input_limit_spec], goal_cases)
        case (1 input p5 l5)
        then have "same_core p (status_update (\<lambda>s. s\<lparr>charger_input := Some input\<rparr>) p5)" "writes l5 = []"
          using c4 by (simp_all add: same_core_def)
        then show ?case
          using caps(3) l3(2) l4(1) select_profile_not_Panic[OF caps(1)]
          unfolding op_rules by (auto simp: discover_post_def)
      next
        case (2 e p5 l5)
        then show ?case using caps(3) l3(2) l4(1) c4 by (auto intro!: discover_errI)
      qed simp
    next
      case (2 e p4 l4)
      then show ?case using caps(3) l3(2) c3 by (auto intro!: discover_errI)
    qed simp
  next
    case (2 e p3 l3)
    then show ?case using caps(3) p2 by (auto intro!: discover_errI)
  qed simp
  have "same_core p (status_update (\<lambda>s. s\<lparr>source_pdo0 := a\<rparr>) (status_update (\<lambda>s. s\<lparr>source_caps_len := b\<rparr>) p))" for a b
    by (simp add: same_core_def)
  then show ?case
    using caps(1) unfolding caps(2) by (simp add: op_rules byte_at_Ok read_le_Ok rest)
qed (auto intro: discover_errI)

text \<open>The guard before each write of the request.\<close>

definition guard_post :: "PdPolicy \<Rightarrow> (PdError, bool) outcome \<Rightarrow> PdPolicy \<Rightarrow> history \<Rightarrow> bool" where
  "guard_post p r p' l \<longleftrightarrow>
     r \<noteq> Panic \<and> writes l = []
     \<and> (case r of
          Ok False \<Rightarrow> released p p' l
        | Ok True \<Rightarrow> same_core p p' \<and> (\<forall>ws. snapshot_allows p l ws)
        | _ \<Rightarrow> same_core p p')"

lemma request_guard_spec: "op_spec (request_guard (logged io) c d) p (guard_post p)"
  unfolding request_guard_def
proof (rule op_bind[OF event_spec], goal_cases)
  case (1 a p1 l1)
  show ?case
  proof (cases a)
    case None
    then show ?thesis using 1 by (simp add: op_rules event_post_def guard_post_def)
  next
    case (Some x)
    obtain alert st where x: "x = (alert, st)" by (cases x)
    have "same_core p p1" "writes l1 = []" "stable st l1" "sink_power_valid st" "orientation p = Some (side st)"
      using 1 Some x by (auto simp: event_post_def)
    then show ?thesis
      using Some x by (auto simp: op_rules guard_post_def snapshot_allows_def)
  qed
qed (auto simp: event_post_def guard_post_def)

lemma request_send_spec:
  assumes ct: "contract (status p) = Some ct" "charge_ready_at_ns (status p) = None"
  shows "op_spec (act_bind (io_step (write_command (logged io) SEND_RDO) Unsafe)
      (\<lambda>_. start_phase (logged io) WaitContract now)) p
    (\<lambda>r p' l. (\<exists>x. l = [x] \<and> writes [x] = [command_write SEND_RDO]) \<and> orientation p' = orientation p
      \<and> contract (status p') = Some ct
      \<and> (r = Ok () \<and> phase (status p') = WaitContract \<and> session_ok p' (take 2 (handshake ct)) \<or> (\<exists>e. r = Err e)))"
  unfolding write_command_def
proof (rule op_bind[OF op_write_bytes[where Q = "\<lambda>r p' l. p' = p \<and> r \<noteq> Panic
      \<and> (\<exists>x. l = [x] \<and> writes [x] = [command_write SEND_RDO])"]], goal_cases)
  case (3 a p1 l1)
  then show ?case
    using ct
    by (intro op_mono[OF start_phase_spec]) (auto simp: session_ok_def)
qed (use ct in \<open>auto simp: command_write_def\<close>)

lemma message_writes: "pd_message (take 1 (handshake ct))" "pd_message [command_write cmd]"
  by (simp_all add: pd_message_def handshake_def command_write_def request_payload_def)

lemma request_spec:
  assumes "phase (status p) = Idle" "session_ok p []"
  shows "op_spec (request (logged io) ct now) p (part_post [] p)"
proof -
  let ?p = "status_update (\<lambda>s. s\<lparr>contract := Some ct\<rparr>) p"
  have charge: "charge_ready_at_ns (status p) = None" using assms by (simp add: session_ok_def)
  have err: "part_post [] p (Err e) p' l"
    if "guarded_writes p l" "orientation p' = orientation p" "contract (status p') = Some ct"
      "writes l = take n (handshake ct)" for e p' l n
    using that by (auto simp: part_post_def failable_def)
  show ?thesis
    unfolding request_def op_rules
  proof (rule op_bind[OF request_guard_spec], goal_cases)
    case (1 go p1 l1)
    then have l1: "writes l1 = []" by (simp add: guard_post_def)
    show ?case
    proof (cases go)
      case False
      then have "released p p1 l1" using 1 released_session[of ?p p1 l1 p "[]"] by (simp add: guard_post_def)
      then show ?thesis using False l1 by (auto simp: op_rules intro: part_releasedI)
    next
      case True
      have p1: "same_core ?p p1" "\<And>ws. snapshot_allows p l1 ws"
        using 1 True by (auto simp: guard_post_def snapshot_allows_def)
      show ?thesis
        unfolding op_when if_P[OF True]
      proof (rule op_bind[OF op_write_bytes[where Q = "\<lambda>r p' l. p' = p1 \<and> r \<noteq> Panic
          \<and> (\<exists>x. l = [x] \<and> writes [x] = take 1 (handshake ct))"]], goal_cases)
        case (3 a p2 l2)
        then obtain x where x: "l2 = [x]" "writes [x] = take 1 (handshake ct)" and p2: "p2 = p1" by auto
        have g2: "guarded_writes p (l1 @ l2)" unfolding x(1) using p1(2) l1 x(2) message_writes(1)[of ct] by (intro guarded_write) auto
        have w2: "writes (l1 @ l2) = take 1 (handshake ct)" using x l1 by simp
        show ?case
          unfolding p2
        proof (rule op_bind[OF request_guard_spec], goal_cases)
          case (1 go2 p3 l3)
          then have l3: "writes l3 = []" by (simp add: guard_post_def)
          have g3: "guarded_writes p (l1 @ l2 @ l3)" using guarded_append[OF g2 guarded_quiet[OF l3]] by simp
          show ?case
          proof (cases go2)
            case False
            then have "released p p3 (l1 @ l2 @ l3)"
              using 1 p1(1) released_session[of p1 p3 l3 p "l1 @ l2"] by (simp add: guard_post_def same_core_def)
            then show ?thesis using False g3 by (simp add: op_rules part_post_def)
          next
            case True
            have p3: "contract (status p3) = Some ct" "charge_ready_at_ns (status p3) = None" "orientation p3 = orientation p"
              using 1 True p1(1) charge by (simp_all add: guard_post_def same_core_def)
            have allows: "snapshot_allows p l3 ws" for ws
            proof -
              have "snapshot_allows p1 l3 ws" using 1 True by (simp add: guard_post_def)
              then show ?thesis using p1(1) by (simp add: snapshot_allows_def same_core_def)
            qed
            show ?thesis
              unfolding op_when if_P[OF True]
            proof (rule op_mono[OF request_send_spec[OF p3(1,2)]], goal_cases)
              case (1 r p4 l4)
              then obtain y where y: "l4 = [y]" "writes [y] = [command_write SEND_RDO]" by blast
              have g4: "guarded_writes p (l1 @ l2 @ l3 @ l4)"
                using guarded_append[OF g2 guarded_write[OF allows _ l3, of y]] y message_writes(2) by simp
              have "handshake ct = take 1 (handshake ct) @ command_write SEND_RDO # drop 2 (handshake ct)"
                by (simp add: handshake_def)
              then have w4: "writes (l1 @ l2 @ l3 @ l4) = take 2 (handshake ct)"
                using w2 l3 y by (simp add: handshake_def)
              show ?case
                using 1 g4 w4 p3(3) err[OF g4 _ _ w4] by (auto simp: part_post_def)
            qed
          qed
        next
          case (2 e p3 l3)
          then have l3: "writes l3 = []" "same_core p1 p3" by (auto simp: guard_post_def)
          show ?case
            by (rule err[where n = 1])
              (use guarded_append[OF g2 guarded_quiet[OF l3(1)]] w2 l3 p1(1) in \<open>auto simp: same_core_def\<close>)
        qed (simp add: guard_post_def)
      next
        case (4 e p2 l2)
        then obtain x where x: "l2 = [x]" "writes [x] = take 1 (handshake ct)" and p2: "p2 = p1" by auto
        show ?case
          by (rule err[where n = 1])
            (use guarded_write[OF p1(2) _ l1, of x] message_writes(1)[of ct] x l1 p1(1) p2 in \<open>auto simp: same_core_def\<close>)
      qed (auto simp: handshake_def)
    qed
  next
    case (2 e p1 l1)
    then show ?case
      by (intro err[where n = 0]) (auto simp: guard_post_def same_core_def guarded_quiet)
  qed (simp add: guard_post_def)
qed

text \<open>One attempt: nothing was done yet, or the request was made.\<close>

definition attempt_post :: "PdPolicy \<Rightarrow> (PdError, unit) outcome \<Rightarrow> PdPolicy \<Rightarrow> history \<Rightarrow> bool" where
  "attempt_post p r p' l \<longleftrightarrow>
     part_post [] p r p' l
     \<or> r = Ok () \<and> writes l = [] \<and> orientation p' = orientation p \<and> phase (status p') = Idle \<and> session_ok p' []"

lemma attempt_spec:
  assumes "phase (status p) = Idle" "session_ok p []"
  shows "op_spec (attempt (logged io) now) p (attempt_post p)"
  unfolding attempt_def
proof (rule op_bind[OF event_spec], goal_cases)
  case (1 a p1 l1)
  show ?case
  proof (cases a)
    case None
    then show ?thesis
      using 1 by (auto simp: op_rules event_post_def attempt_post_def intro: part_releasedI)
  next
    case (Some x)
    obtain alert st where x: "x = (alert, st)" by (cases x)
    have l1: "writes l1 = []" "same_core p p1" using 1 Some x by (auto simp: event_post_def)
    have idle: "session_ok p1 []" "phase (status p1) = Idle" "orientation p1 = orientation p"
      using session_ok_core[OF l1(2)] assms l1(2) by (simp_all add: same_core_def)
    show ?thesis
    proof (cases "command_busy st \<or> data_role st \<noteq> Device")
      case True
      have "session_ok (unstable p1) []" "phase (status (unstable p1)) = Idle"
        using idle by (simp_all add: unstable_def session_ok_def)
      then show ?thesis
        using True Some x l1 idle(3) by (simp add: op_rules attempt_post_def) (simp add: unstable_def)
    next
      case False
      have found: "op_spec (act_bind (act_catch (act_bind (discover (logged io)) (\<lambda>ct. act_return (Some ct)))
                (\<lambda>e. act_bind (change (unsupported (pd_reason e))) (\<lambda>_. act_return None))) f) p1
          (\<lambda>r p' l. attempt_post p r p' (l1 @ l))"
        if f: "f = (\<lambda>found. case found of None \<Rightarrow> act_return () | Some ct \<Rightarrow> request (logged io) ct now)" for f
      proof (rule op_bind[where P = "\<lambda>r p2 l2. writes l2 = [] \<and>
          (r = Ok None \<and> orientation p2 = orientation p \<and> session_ok p2 [] \<and> (\<exists>e. phase (status p2) = Unsupported e)
           \<or> (\<exists>ct. r = Ok (Some ct)) \<and> same_core p1 p2)"], goal_cases)
        case 1
        show ?case
        proof (rule op_catch[where P = "\<lambda>r p2 l2. writes l2 = [] \<and> same_core p1 p2
            \<and> ((\<exists>ct. r = Ok (Some ct)) \<or> (\<exists>e. r = Err e))"], goal_cases)
          case 1
          show ?case
            by (rule op_bind[OF discover_spec]) (auto simp: op_rules discover_post_def)
        next
          case (3 e p2 l2)
          then show ?case
            using idle by (auto simp: op_rules unsupported_def session_ok_def same_core_def)
        qed auto
      next
        case (2 a p2 l2)
        show ?case
        proof (cases a)
          case None
          then show ?thesis
            using 2 l1(1) by (auto simp: f op_rules attempt_post_def intro!: disjI1 part_okI)
        next
          case (Some ct)
          then have p2: "same_core p1 p2" "writes (l1 @ l2) = []" using 2 l1(1) by auto
          have i2: "phase (status p2) = Idle" "session_ok p2 []" "orientation p2 = orientation p"
            using session_ok_core[OF p2(1)] idle p2(1) by (simp_all add: same_core_def)
          show ?thesis
            unfolding f Some option.case
            using part_session[OF request_spec[OF i2(1,2)] i2(3) p2(2)]
            by (rule op_mono) (simp add: attempt_post_def)
        qed
      qed auto
      show ?thesis using found[OF refl] False Some x by (simp add: op_rules)
    qed
  qed
next
  case (2 e p1 l1)
  then show ?case
    using session_failable[OF assms(2)]
    by (auto simp: event_post_def attempt_post_def intro!: part_errI core_session)
qed (simp add: event_post_def)

definition idle_post :: "PdPolicy \<Rightarrow> (PdError, unit) outcome \<Rightarrow> PdPolicy \<Rightarrow> history \<Rightarrow> bool" where
  "idle_post p r p' l \<longleftrightarrow> r = Ok () \<and> attempt_post p r p' l"

lemma idle_step:
  assumes "attempt_post p (Ok u) p' l" "phase (status p) = Idle"
  shows "step_post [] p (Ok ()) p' l"
  using assms part_step[of "[]" p p' l]
  by (auto simp: attempt_post_def) (simp add: step_post_def guarded_quiet)

lemma step_post_orientation:
  "step_post ws p1 r p' l \<Longrightarrow> orientation p1 = orientation p \<Longrightarrow> phase (status p1) = phase (status p)
    \<Longrightarrow> step_post ws p r p' l"
  using released_session[of p1 p' l p "[]"] guarded_session[of p1 p l]
  by (auto simp: step_post_def)

lemma poll_idle_spec:
  assumes "phase (status p) = Idle" "session_ok p []"
  shows "op_spec (poll_idle (logged io) raw now) p (step_post [] p)"
proof -
  have same: "step_post [] p (Ok ()) p' []"
    if "status p' = status p" "orientation p' = orientation p" for p'
    using that assms by (simp add: step_post_def guarded_quiet session_ok_def)
  let ?p = "p\<lparr>stable_since := Some (case stable_since p of Some t \<Rightarrow> t | None \<Rightarrow> now),
              stable_polls := (if stable_polls p = - 1 then - 1 else stable_polls p + 1)\<rparr>"
  have p: "phase (status ?p) = Idle" "session_ok ?p []"
    using assms by (simp_all add: session_ok_def)
  have "op_spec (act_catch (attempt (logged io) now) (\<lambda>e. change (fail (pd_reason e)))) ?p (step_post [] ?p)"
  proof (rule op_catch[OF attempt_spec[OF p]], goal_cases)
    case (1 a p' l)
    then show ?case using p(1) by (simp add: idle_step)
  next
    case (2 e p' l)
    then have "part_post [] ?p (Err e) p' l" by (simp add: attempt_post_def)
    then show ?case using p(1) by (auto simp: op_rules part_post_def intro!: step_failI)
  qed (simp add: attempt_post_def part_post_def)
  then have "op_spec (act_catch (attempt (logged io) now) (\<lambda>e. change (fail (pd_reason e)))) ?p (step_post [] p)"
    by (rule op_mono) (erule step_post_orientation, simp_all)
  then show ?thesis
    unfolding poll_idle_def op_rules using same by (simp add: unstable_def)
qed

section \<open>One step\<close>

lemma session_ok_Idle: "phase (status p) = Idle \<Longrightarrow> session_ok p ws \<Longrightarrow> ws = []"
  by (simp add: session_ok_def)

text \<open>The caller's snapshot says that the attachment is the one of the session, or a new one.\<close>

definition attached_as :: "PortState \<Rightarrow> PdPolicy \<Rightarrow> bool" where
  "attached_as raw p \<longleftrightarrow> attached raw \<and> (orientation p = None \<or> orientation p = Some (side raw))"

definition side_taken :: "PortState \<Rightarrow> PdPolicy \<Rightarrow> PdPolicy" where
  "side_taken raw p = (if orientation p = None then p\<lparr>orientation := Some (side raw)\<rparr> else p)"

lemma poll_spec:
  assumes "session_ok p ws" "attached_as raw p"
  shows "op_spec (poll (logged io) raw now) p (step_post ws (side_taken raw p))"
proof -
  let ?p = "side_taken raw (status_update (\<lambda>s. s\<lparr>last_status1 := status1 raw\<rparr>) p)"
  have p: "session_ok ?p ws" "phase (status ?p) = phase (status p)" "orientation ?p = orientation (side_taken raw p)"
    using assms(1) by (simp_all add: side_taken_def session_ok_def cong: PdPhase.case_cong)
  have goon: "op_spec m ?p (step_post ws ?p) \<Longrightarrow> op_spec m ?p (step_post ws (side_taken raw p))"
    for m :: "('a \<times> history, unit) pd_action"
    by (erule op_mono) (erule step_post_orientation, simp_all add: side_taken_def)
  have "op_spec (case phase (status ?p) of
         Unsupported _ \<Rightarrow> poll_terminal (logged io) raw
       | Failed _ \<Rightarrow> poll_terminal (logged io) raw
       | Idle \<Rightarrow> poll_idle (logged io) raw now
       | _ \<Rightarrow> poll_active (logged io) raw now) ?p (step_post ws ?p)"
  proof (cases "phase (status ?p)")
    case Idle
    have ws: "ws = []" using session_ok_Idle[OF Idle p(1)] .
    then have "session_ok ?p []" using p(1) by simp
    then show ?thesis unfolding Idle PdPhase.case ws by (rule poll_idle_spec[OF Idle])
  qed (use poll_active_spec[OF p(1)] poll_terminal_spec[OF p(1)] in simp_all)
  note step = goon[OF this]
  let ?q = "status_update (\<lambda>s. s\<lparr>last_status1 := status1 raw\<rparr>) p"
  have d: "\<not> (\<not> attached raw \<or> (\<exists>o' \<in> set_option (orientation ?q). o' \<noteq> side raw))"
    using assms(2) by (cases "orientation p") (auto simp: attached_as_def)
  have ph: "phase (status ?p) = phase (status ?q)" by (simp add: side_taken_def)
  show ?thesis
    unfolding poll_def op_rules if_not_P[OF d] using step[unfolded ph]
    unfolding side_taken_def[of raw ?q] .
qed

lemma poll_not_attached:
  assumes "session_ok p ws" "\<not> attached_as raw p"
  shows "op_spec (poll (logged io) raw now) p
    (\<lambda>r p' l. writes l = [] \<and> (step_post ws p r p' l
       \<or> r = Ok () \<and> p' = p\<lparr>status := (status p)\<lparr>last_status1 := status1 raw\<rparr>\<rparr> \<and> raced raw p l))"
proof -
  let ?p = "status_update (\<lambda>s. s\<lparr>last_status1 := status1 raw\<rparr>) p"
  have d: "\<not> attached raw \<or> (\<exists>o' \<in> set_option (orientation ?p). o' \<noteq> side raw)"
    using assms(2) by (cases "orientation p") (auto simp: attached_as_def)
  have "session_ok ?p ws"
    using session_ok_core[of p ?p ws] assms(1) by (simp add: same_core_def)
  note spec = poll_detached_spec[OF this d]
  show ?thesis
    unfolding poll_def op_rules if_P[OF d]
  proof (rule op_mono[OF spec], elim conjE disjE)
    fix r p' l
    assume "writes l = []" "step_post ws ?p r p' l"
    then show "writes l = [] \<and> (step_post ws p r p' l
        \<or> r = Ok () \<and> p' = p\<lparr>status := (status p)\<lparr>last_status1 := status1 raw\<rparr>\<rparr> \<and> raced raw p l)"
      by (intro conjI disjI1, simp, elim step_post_orientation) simp_all
  qed (simp add: raced_def)
qed

text \<open>Alerts and failed observations.\<close>

lemma capture_alert_session:
  assumes "session_ok p ws"
  shows "session_ok (capture_alert alert p) ws" "orientation (capture_alert alert p) = orientation p"
    "phase (status (capture_alert alert p)) = Idle \<Longrightarrow> phase (status p) = Idle"
    "phase (status (capture_alert alert p)) = Complete \<Longrightarrow> phase (status p) = Complete"
    "terminal (phase (status p)) \<Longrightarrow> terminal (phase (status (capture_alert alert p)))"
proof -
  let ?p = "p\<lparr>status := (status p)\<lparr>last_alert := alert\<rparr>,
      captured_alert := Some ((case captured_alert p of Some a \<Rightarrow> a | None \<Rightarrow> 0) OR alert)\<rparr>"
  have s: "session_ok ?p ws"
    using session_ok_core[of p ?p ws] assms by (simp add: same_core_def)
  have c: "capture_alert alert p = ?p \<or> (\<exists>r. capture_alert alert p = fail r ?p)"
    unfolding capture_alert_def Let_def by auto
  show "session_ok (capture_alert alert p) ws"
    using c s fail_session[OF session_failable[OF s]] by auto
  show "orientation (capture_alert alert p) = orientation p" using c by (auto simp: fail_def)
  show "phase (status (capture_alert alert p)) = Idle \<Longrightarrow> phase (status p) = Idle"
    "phase (status (capture_alert alert p)) = Complete \<Longrightarrow> phase (status p) = Complete"
    "terminal (phase (status p)) \<Longrightarrow> terminal (phase (status (capture_alert alert p)))"
    using c by (auto simp: fail_def)
qed

lemma transport_lost_session: "session_ok p ws \<Longrightarrow> session_ok (transport_lost r t p) ws"
  using fail_session[OF session_failable[of p ws]]
  by (cases "phase (status p)") (auto simp: transport_lost_def session_ok_def)

lemma observation_failed_session: "session_ok p ws \<Longrightarrow> session_ok (observation_failed r p) ws"
  using fail_session[OF session_failable[of p ws]] by (auto simp: observation_failed_def)

end
