(* ===== verification/Pd_Run.thy ===== *)
theory Pd_Run
  imports Pd_Monitor
begin

text \<open>
  What holds of the power delivery policy in every state it can reach: any sequence of polls, alerts
  and failed observations, over any behaviour of the controller, the charger, the cable and the clock.
\<close>

section \<open>Runs\<close>

text \<open>
  A state of a run is the policy and the writes it has attempted since it was last released. Between
  two steps the outside world may change in any way.
\<close>

inductive pd_run :: "'w Registers \<Rightarrow> PdPolicy \<times> (u8 \<times> u8 \<times> bytes) list \<Rightarrow> bool" for io :: "'w Registers" where
  start: "pd_run io (default_policy, [])"
| poll: "pd_run io (p, ws) \<Longrightarrow> poll (logged io) raw now (p, (w, [])) = (r, (p', (w', l)))
    \<Longrightarrow> pd_run io (p', if released p p' l then [] else ws @ writes l)"
| alert: "pd_run io (p, ws) \<Longrightarrow> pd_run io (capture_alert a p, ws)"
| fault: "pd_run io (p, ws) \<Longrightarrow> a AND ALERT_FAULT \<noteq> 0 \<Longrightarrow> pd_run io ((capture_alert a p)\<lparr>orientation := o'\<rparr>, ws)"
| lost: "pd_run io (p, ws) \<Longrightarrow> pd_run io (transport_lost e t p, ws)"
| failed: "pd_run io (p, ws) \<Longrightarrow> pd_run io (observation_failed e p, ws)"

text \<open>\<open>poll_with_alert\<close> is an alert followed by a poll, or a fault.\<close>

lemma poll_with_alert_run:
  assumes "pd_run io (p, ws)" "poll_with_alert (logged io) raw now a (p, (w, [])) = (r, (p', (w', l)))"
  shows "\<exists>ws'. pd_run io (p', ws')"
proof (cases "a AND ALERT_FAULT = 0")
  case True
  then have "poll (logged io) raw now (capture_alert a p, (w, [])) = (r, (p', (w', l)))"
    using assms(2) by (simp add: poll_with_alert_def act_bind_def change_def act_modify_def)
  from pd_run.poll[OF pd_run.alert[OF assms(1)] this] show ?thesis ..
next
  case False
  then have "p' = (capture_alert a p)\<lparr>orientation := (if attached raw then Some (side raw) else None)\<rparr>"
    using assms(2) by (simp add: poll_with_alert_def act_bind_def change_def act_modify_def)
  then show ?thesis using pd_run.fault[OF assms(1) False] by metis
qed

lemma session_ok_fresh: "session_ok (fresh_policy st) []"
  by (simp add: session_ok_def fresh_policy_def default_policy_def default_status_def)

lemma released_taken: "released (side_taken raw p) p' l \<Longrightarrow> released p p' l"
  by (auto simp: released_def side_taken_def split: if_splits)

lemma poll_result:
  assumes "session_ok p ws" "poll (logged io) raw now (p, (w, [])) = (r, (p', (w', l)))"
  shows "r = Ok ()" "guarded_writes (side_taken raw p) l"
    and "released p p' l \<or> session_ok p' (ws @ writes l) \<and> (phase (status p') = Idle \<longrightarrow> phase (status p) = Idle)
      \<and> (terminal (phase (status p)) \<longrightarrow> terminal (phase (status p')) \<and> writes l = [])"
    and "phase (status p') = Complete \<Longrightarrow> host_verified p' l
      \<or> \<not> attached_as raw p \<and> p' = p\<lparr>status := (status p)\<lparr>last_status1 := status1 raw\<rparr>\<rparr> \<and> writes l = [] \<and> raced raw p l"
proof -
  let ?kept = "p' = p\<lparr>status := (status p)\<lparr>last_status1 := status1 raw\<rparr>\<rparr>"
  have "r = Ok () \<and> guarded_writes (side_taken raw p) l
    \<and> (released p p' l \<or> session_ok p' (ws @ writes l) \<and> (phase (status p') = Idle \<longrightarrow> phase (status p) = Idle)
      \<and> (terminal (phase (status p)) \<longrightarrow> terminal (phase (status p')) \<and> writes l = []))
    \<and> (phase (status p') = Complete \<longrightarrow> host_verified p' l
        \<or> \<not> attached_as raw p \<and> ?kept \<and> writes l = [] \<and> raced raw p l)"
  proof (cases "attached_as raw p")
    case True
    have ph: "phase (status (side_taken raw p)) = phase (status p)" by (simp add: side_taken_def)
    have step: "step_post ws (side_taken raw p) r p' l"
      using wp_result[OF op_specD[OF poll_spec[OF assms(1) True]] assms(2)] by auto
    moreover have "phase (status p') \<noteq> Complete" if "released (side_taken raw p) p' l"
      using that by (auto simp: released_def fresh_policy_def default_policy_def default_status_def)
    ultimately show ?thesis
      using released_taken[of raw p p' l] unfolding step_post_def ph by blast
  next
    case False
    have idle: "phase (status p') \<noteq> Complete" if "released p p' l"
      using that by (auto simp: released_def fresh_policy_def default_policy_def default_status_def)
    have "writes l = [] \<and> (step_post ws p r p' l \<or> r = Ok () \<and> ?kept \<and> raced raw p l)"
      using wp_result[OF op_specD[OF poll_not_attached[OF assms(1) False]] assms(2)] by auto
    then consider "writes l = []" "step_post ws p r p' l" | "writes l = []" "r = Ok ()" ?kept "raced raw p l"
      by blast
    then show ?thesis
    proof cases
      case 1
      then show ?thesis using idle guarded_quiet[OF 1(1)] unfolding step_post_def by blast
    next
      case 2
      have core: "same_core p p'" by (simp add: 2(3) same_core_def)
      then have ph: "phase (status p') = phase (status p)" by (simp add: same_core_def)
      have s: "session_ok p' (ws @ writes l)" unfolding 2(1) using session_ok_core[OF core] assms(1) by simp
      have "guarded_writes (side_taken raw p) l" by (rule guarded_quiet[OF 2(1)])
      then show ?thesis unfolding ph using 2 s False by blast
    qed
  qed
  note all = this
  show "r = Ok ()" using all by (rule conjunct1)
  show "guarded_writes (side_taken raw p) l" using all[THEN conjunct2] by (rule conjunct1)
  show "released p p' l \<or> session_ok p' (ws @ writes l) \<and> (phase (status p') = Idle \<longrightarrow> phase (status p) = Idle)
      \<and> (terminal (phase (status p)) \<longrightarrow> terminal (phase (status p')) \<and> writes l = [])"
    using all[THEN conjunct2, THEN conjunct2] by (rule conjunct1)
  show "host_verified p' l \<or> \<not> attached_as raw p \<and> ?kept \<and> writes l = [] \<and> raced raw p l"
    if "phase (status p') = Complete"
    using all[THEN conjunct2, THEN conjunct2, THEN conjunct2] that by (rule mp)
qed

lemma pd_run_session: "pd_run io (p, ws) \<Longrightarrow> session_ok p ws"
proof (induction "(p, ws)" arbitrary: p ws rule: pd_run.induct)
  case start
  show ?case by (simp add: session_ok_def default_policy_def default_status_def)
next
  case (poll p ws raw now w r p' w' l)
  from poll_result(3)[OF poll.hyps(2,3)] show ?case
    using session_ok_fresh by (auto simp: released_def)
next
  case (alert p ws a)
  then show ?case using capture_alert_session(1) by blast
next
  case (fault p ws a o')
  then show ?case using capture_alert_session(1)[OF fault.hyps(2), of a]
    by (simp add: session_ok_def cong: PdPhase.case_cong)
next
  case (lost p ws e t)
  then show ?case using transport_lost_session by blast
next
  case (failed p ws e)
  then show ?case using observation_failed_session by blast
qed

lemma host_verified_side: "host_verified p l \<Longrightarrow> orientation p \<noteq> None"
  by (auto simp: host_verified_def verified_def)

text \<open>A completed handoff knows the side of its attachment.\<close>

lemma complete_side:
  assumes "pd_run io (p, ws)" "phase (status p) = Complete"
  shows "orientation p \<noteq> None"
  using assms
proof (induction "(p, ws)" arbitrary: p ws rule: pd_run.induct)
  case (poll p ws raw now w r p' w' l)
  note s = pd_run_session[OF poll.hyps(1)]
  from poll_result(4)[OF s poll.hyps(3) poll.prems] show ?case
    using host_verified_side poll.hyps(2) poll.prems by auto
next
  case (alert p ws a)
  then show ?case using capture_alert_session(2,4)[OF pd_run_session[OF alert.hyps(1)]] by metis
next
  case (fault p ws a o')
  then show ?case by (simp add: capture_alert_def Let_def fail_def)
next
  case (lost p ws e t)
  then show ?case by (auto simp: transport_lost_def fail_def split: PdPhase.splits if_splits)
next
  case (failed p ws e)
  then show ?case by (auto simp: observation_failed_def fail_def split: if_splits)
qed (simp add: default_policy_def default_status_def)

section \<open>Expiry\<close>

fun waiting :: "PdPhase \<Rightarrow> bool" where
  "waiting WaitContract = True"
| "waiting WaitReady = True"
| "waiting WaitSwap = True"
| "waiting _ = False"

definition ended :: "(PdError, unit) outcome \<Rightarrow> PdPolicy \<Rightarrow> bool" where
  "ended r p' \<longleftrightarrow> r \<noteq> Panic \<and> (r = Ok () \<longrightarrow> \<not> waiting (phase (status p')))"

lemma released_not_waiting: "released p p' l \<Longrightarrow> \<not> waiting (phase (status p'))"
  by (auto simp: released_def fresh_policy_def default_policy_def default_status_def)

lemma pd_time_clock:
  assumes "\<And>t. P t \<Longrightarrow> op_spec (f t) p Q" "\<And>w. P (fst (io_clock io w now))"
  shows "op_spec (act_bind (pd_time (logged io) now) f) p Q"
proof -
  have clock: "wp (post_io_time (logged io) now) (\<lambda>r s'. \<exists>t w'. r = Ok t \<and> s' = (w', l) \<and> P t) (w, l)" for w l
    using assms(2)[of w] by (auto simp: wp_def post_io_time_def logged_def split: prod.splits)
  have "op_spec (pd_time (logged io) now) p (\<lambda>r p' l. \<exists>t. r = Ok t \<and> p' = p \<and> l = [] \<and> P t)"
    unfolding op_spec_def pd_time_def wp_simps
    by (intro allI) (simp, rule wp_mono[OF clock], auto)
  then show ?thesis
    by (rule op_bind) (use assms(1) in auto)
qed

lemma swap_failed_ends: "op_spec (swap_failed (logged io) e) p (\<lambda>r p' l. ended r p')"
  unfolding swap_failed_def
proof (rule op_bind[OF checked_contract_state_spec], goal_cases)
  case (1 c p1 l1)
  then show ?case
    using released_not_waiting
    by (cases c) (auto simp: op_rules ended_def checked_post_def data_role_failed_def)
qed (auto simp: checked_post_def ended_def)

lemma wait_expires:
  assumes "\<And>w. deadline p \<le> fst (io_clock io w now)"
  shows "op_spec (wait (logged io) now) p (\<lambda>r p' l. ended r p')"
  unfolding wait_def
proof (rule op_bind[OF event_spec], goal_cases)
  case (1 a p1 l1)
  show ?case
  proof (cases a)
    case None
    then show ?thesis using 1 released_not_waiting by (auto simp: op_rules event_post_def ended_def)
  next
    case (Some x)
    obtain alert st where x: "x = (alert, st)" by (cases x)
    have p1: "deadline p1 = deadline p" using 1 Some x by (auto simp: event_post_def same_core_def)
    show ?thesis
      unfolding Some x option.case prod.case
    proof (rule pd_time_clock[where P = "\<lambda>t. deadline p \<le> t"])
      fix t :: u64
      assume "deadline p \<le> t"
      then show "op_spec (act_bind policy (\<lambda>p.
         if deadline p \<le> t then
           (if phase (status p) = WaitSwap then swap_failed (logged io) TIMED_OUT else act_throw (Unsafe TIMED_OUT))
         else if alert AND ALERT_DONE \<noteq> 0 \<and> drop_bit 4 (status1 st) AND 7 \<noteq> 0 then
           (if phase (status p) = WaitSwap then swap_failed (logged io) REJECTED else act_throw (Unsafe REJECTED))
         else case phase (status p) of
           WaitContract \<Rightarrow> wait_contract (logged io) alert st now
         | WaitReady \<Rightarrow> act_when (alert AND ALERT_DONE \<noteq> 0) (wait_ready (logged io) st now)
         | WaitSwap \<Rightarrow> act_when (alert AND ALERT_DONE \<noteq> 0) (wait_swap (logged io))
         | _ \<Rightarrow> act_return ())) p1 (\<lambda>r p' l. ended r p')"
        using p1 by (simp add: op_rules ended_def swap_failed_ends[unfolded ended_def])
    qed (rule assms)
  qed
qed (auto simp: event_post_def ended_def)

lemma poll_active_expires:
  assumes "waiting (phase (status p))" "\<And>w. deadline p \<le> fst (io_clock io w now)"
  shows "op_spec (poll_active (logged io) raw now) p (\<lambda>r p' l. r = Ok () \<and> \<not> waiting (phase (status p')))"
proof -
  have no: "(case phase (status p) of Revalidate _ \<Rightarrow> True | _ \<Rightarrow> False) = False" "phase (status p) \<noteq> Complete"
    using assms(1) by (cases "phase (status p)"; simp)+
  have "op_spec (active_step (logged io) False False now) p (\<lambda>r p' l. r = Ok () \<and> \<not> waiting (phase (status p')))"
    unfolding active_step_def if_False
  proof (rule op_catch[OF wait_expires], goal_cases)
    case (3 e p' l)
    then show ?case by (cases e) (simp_all add: op_rules fail_def)
  qed (auto simp: ended_def assms(2))
  then show ?thesis
    unfolding poll_active_def op_if op_bind_policy Let_def no using no(2) by (simp add: op_rules fail_def)
qed

end
