(* ===== verification/Pd_Sample.thy ===== *)
theory Pd_Sample
  imports Pd_Run
begin

text \<open>
  A concrete negotiation with a dual-role dock, evaluated in the model: it reaches every command phase
  and a completed handoff, and is where the theorems about runs are applied.
\<close>

definition DOCK_PDO0 :: u32 where "DOCK_PDO0 = 0x0601912c"
definition DOCK_PDO1 :: u32 where "DOCK_PDO1 = 0x0004b0c8"
definition DOCK_RDO :: u32 where "DOCK_RDO = 0x2401e0c8"

text \<open>The world is whether the data role is already that of a host.\<close>

definition dock_status :: "bool \<Rightarrow> u16" where
  "dock_status host = (if host then 0x4e80 else 0x4d80)"

definition dock_bytes :: "bool \<Rightarrow> u8 \<Rightarrow> bytes" where
  "dock_bytes host r =
     (if r = STATUS1 then to_le_bytes (dock_status host)
      else if r = SOURCE_CAPS then 8 # to_le_bytes DOCK_PDO0 @ to_le_bytes DOCK_PDO1 @ replicate 20 0
      else if r = CURRENT_PDO then 4 # to_le_bytes DOCK_PDO1
      else if r = CURRENT_RDO then 4 # to_le_bytes DOCK_RDO
      else [0, 0])"

definition dock_io :: "bool Registers" where
  "dock_io =
     \<lparr>io_read = (\<lambda>w a r n. (Inr ((!) (dock_bytes w r)), w)), io_write = (\<lambda>w a r d. (Inr (), w)),
      io_clock = (\<lambda>w now. (now, w))\<rparr>"

definition dock_port :: "bool \<Rightarrow> PortState" where
  "dock_port host = from_registers (dock_status host) 0 0"

definition dock_snap :: "bool \<Rightarrow> history" where
  "dock_snap host =
     [Word STATUS1 (dock_status host), Word STATUS2 0, Word DP_STATUS 0, Word STATUS1 (dock_status host)]"

lemmas act_defs = act_return_def act_throw_def act_lift_def act_bind_def act_catch_def act_get_def
  act_modify_def act_when_def act_map_err_def act_on_snd_def

lemmas register_defs = BM92T_ADDRESS_def CHARGER_ADDRESS_def STATUS1_def STATUS2_def COMMAND_def
  DP_STATUS_def ALERT_def SOURCE_CAPS_def CURRENT_PDO_def CURRENT_RDO_def SET_RDO_def

lemma dock_read:
  "length (dock_bytes w r) = n
    \<Longrightarrow> read_bytes (logged dock_io) a r n (w, l) = (Ok (dock_bytes w r), (w, l @ [Rd a r (dock_bytes w r)]))"
  using map_nth[of "dock_bytes w r"] by (auto simp: read_bytes_def logged_def dock_io_def)

lemma dock_read1:
  "read_bytes (logged dock_io) CHARGER_ADDRESS 0 1 (w, l) = (Ok [0], (w, l @ [Rd CHARGER_ADDRESS 0 [0]]))"
  by (simp add: read_bytes_def logged_def dock_io_def dock_bytes_def register_defs)

lemma dock_write: "write_bytes (logged dock_io) a r d (w, l) = (Ok (), (w, l @ [Wr a r d]))"
  by (simp add: write_bytes_def logged_def dock_io_def)

lemma dock_clock: "post_io_time (logged dock_io) t (w, l) = (Ok t, (w, l))"
  by (simp add: post_io_time_def logged_def dock_io_def)

lemma dock_zero_word:
  assumes "r \<notin> {STATUS1, SOURCE_CAPS, CURRENT_PDO, CURRENT_RDO}"
  shows "word_reg (logged dock_io) r (w, l) = (Ok 0, (w, l @ [Word r 0]))"
proof -
  have b: "dock_bytes w r = [0, 0]" using assms by (simp add: dock_bytes_def)
  have "to_le_bytes (0 :: u16) = [0, 0]" by (simp add: to_le_bytes_def numeral_2_eq_2)
  then show ?thesis
    using b by (simp add: word_reg_def act_defs dock_read Word_def from_le_bytes_def)
qed

lemma dock_status_word:
  "word_reg (logged dock_io) STATUS1 (w, l) = (Ok (dock_status w), (w, l @ [Word STATUS1 (dock_status w)]))"
  by (simp add: word_reg_def act_defs dock_read Word_def dock_bytes_def from_le_to_le)

lemma dock_snapshot: "snapshot_checked (logged dock_io) (w, l) = (Ok (dock_port w), (w, l @ dock_snap w))"
proof -
  have z: "STATUS2 \<notin> {STATUS1, SOURCE_CAPS, CURRENT_PDO, CURRENT_RDO}"
    "DP_STATUS \<notin> {STATUS1, SOURCE_CAPS, CURRENT_PDO, CURRENT_RDO}"
    by (simp_all add: register_defs)
  have f: "dock_status w AND 3 = 0" by (simp add: dock_status_def)
  show ?thesis
    using f by (simp add: snapshot_checked_def snapshot_once_def numeral_3_eq_3 snapshot_turn_def act_defs
        dock_status_word dock_zero_word[OF z(1)] dock_zero_word[OF z(2)] dock_port_def dock_snap_def)
qed

lemma dock_port_simps:
  "attached (dock_port w)" "side (dock_port w) = Cc2" "fault (dock_port w) = 0" "\<not> command_busy (dock_port w)"
  "data_role (dock_port w) = (if w then Host else Device)" "status1 (dock_port w) = dock_status w"
  "sink_power_valid (dock_port w)"
  by (simp_all add: dock_port_def dock_status_def from_registers_def side_of_def role_of_def sink_power_valid_def)

lemmas policy_defs = io_step_def change_def change_status_def policy_def take_snapshot_def pd_word_def
  object_def input_limit_def pd_time_def

lemma dock_alert_read:
  "read_bytes (logged dock_io) BM92T_ADDRESS ALERT 2 (w, l) = (Ok [0, 0], (w, l @ [Word ALERT 0]))"
proof -
  have "dock_bytes w ALERT = [0, 0]" by (simp add: dock_bytes_def register_defs)
  moreover have "to_le_bytes (0 :: u16) = [0, 0]" by (simp add: to_le_bytes_def numeral_2_eq_2)
  ultimately show ?thesis by (simp add: dock_read Word_def)
qed

text \<open>An event: the alert is captured or read as zero, and the port is as above.\<close>

lemma dock_event:
  assumes "orientation p = Some Cc2" "captured_alert p = None \<or> \<not> completed (phase (status p))"
    and "a = (case captured_alert p of Some a \<Rightarrow> a | None \<Rightarrow> 0)" "a AND 3 = 0" "a AND 8 = 0"
  shows "event (logged dock_io) initial (p, (w, l)) =
    (Ok (Some (a, dock_port w)),
     (p\<lparr>captured_alert := None, status := (status p)\<lparr>last_alert := a, last_status1 := dock_status w\<rparr>\<rparr>,
      (w, l @ (if captured_alert p = None then [Word ALERT 0] else []) @ dock_snap w)))"
proof -
  have zero: "from_le_bytes [0, 0 :: u8] = (0 :: u16)" by (simp add: from_le_bytes_def)
  have p: "p\<lparr>captured_alert := None\<rparr> = p" if "captured_alert p = None" using that by (cases p) simp
  show ?thesis
    using assms p
    by (cases "captured_alert p")
      (auto simp: event_def take_alert_def act_defs policy_defs dock_alert_read zero dock_snapshot
        dock_port_simps same_attachment_def ALERT_FAULT_def ALERT_PLUGPULL_def ALERT_CONTRACT_def ALERT_PDO_def)
qed

lemma dock_object:
  assumes "dock_bytes w r = n # to_le_bytes (v :: u32)"
  shows "object (logged dock_io) r (p, (w, l)) =
    (Ok (n, v), (p, (w, l @ [Rd BM92T_ADDRESS r (n # to_le_bytes v)])))"
  using assms
  by (simp add: object_def io_step_def act_defs dock_read byte_at_def read_le_def subslice_def slice_def
      from_le_to_le)

definition dock_contract :: Contract where
  "dock_contract =
     \<lparr>c_source_pdo0 = DOCK_PDO0, c_current_pdo = DOCK_PDO1, c_rdo = DOCK_RDO, c_charger_input = 0,
      input_current_ma = 100, caps_count = 2, object_position = 2, voltage_mv = 15000,
      operating_current_ma = 1200, maximum_current_ma = 2000, advertised_current_ma = 2000,
      charging_limit_ma = 1200, drd_supported = True\<rparr>"

definition dock_objects :: history where
  "dock_objects =
     [Rd BM92T_ADDRESS CURRENT_PDO (4 # to_le_bytes DOCK_PDO1),
      Rd BM92T_ADDRESS CURRENT_RDO (4 # to_le_bytes DOCK_RDO), Rd CHARGER_ADDRESS 0 [0]]"

lemma dock_pdo_bytes: "dock_bytes w CURRENT_PDO = 4 # to_le_bytes DOCK_PDO1"
  "dock_bytes w CURRENT_RDO = 4 # to_le_bytes DOCK_RDO"
  by (simp_all add: dock_bytes_def register_defs)

lemma dock_unchanged:
  assumes "contract (status p) = Some dock_contract"
  shows "unchanged_contract (logged dock_io) (p, (w, l)) =
    (Ok (), (p\<lparr>status := (status p)\<lparr>current_pdo := Some DOCK_PDO1, rdo := Some DOCK_RDO, charger_input := Some 0\<rparr>\<rparr>,
      (w, l @ dock_objects)))"
  using assms
  by (simp add: unchanged_contract_def act_defs change_status_def change_def policy_def
      dock_object[OF dock_pdo_bytes(1)] dock_object[OF dock_pdo_bytes(2)] input_limit_def io_step_def
      dock_read1[simplified] byte_at_def dock_contract_def dock_objects_def)

lemma dock_select: "select_profile (dock_bytes w SOURCE_CAPS) DOCK_PDO0 8 0 = Ok dock_contract"
proof -
  have caps: "dock_bytes w SOURCE_CAPS = 8 # to_le_bytes DOCK_PDO0 @ to_le_bytes DOCK_PDO1 @ replicate 20 0"
    by (simp add: dock_bytes_def register_defs)
  have reads: "read_le 4 (dock_bytes w SOURCE_CAPS) 1 = (Ok DOCK_PDO0 :: (PdError, u32) outcome)"
    "read_le 4 (dock_bytes w SOURCE_CAPS) 5 = (Ok DOCK_PDO1 :: (PdError, u32) outcome)"
    by (simp_all add: caps read_le_def subslice_def slice_def from_le_to_le)
  have "[0..<2] = [0, Suc 0]" by (simp add: numeral_2_eq_2)
  then show ?thesis
    using reads
    by (simp add: select_profile_def Let_def select_turn_def candidate_def better_def pdo_voltage_def
        pdo_current_def DOCK_PDO0_def DOCK_PDO1_def DOCK_RDO_def make_contract_def checked_sub_def CURRENT_TABLE_def
        dock_contract_def)
qed

definition dock_caps :: "bool \<Rightarrow> history" where
  "dock_caps w =
     [Rd BM92T_ADDRESS SOURCE_CAPS (dock_bytes w SOURCE_CAPS),
      Rd BM92T_ADDRESS CURRENT_PDO (4 # to_le_bytes DOCK_PDO1),
      Rd BM92T_ADDRESS CURRENT_RDO (4 # to_le_bytes DOCK_RDO), Rd CHARGER_ADDRESS 0 [0]]"

lemma dock_discover:
  "discover (logged dock_io) (p, (w, l)) =
    (Ok dock_contract,
     (p\<lparr>status := (status p)\<lparr>source_caps_len := Some 8, source_pdo0 := Some DOCK_PDO0,
         current_pdo := Some DOCK_PDO1, rdo := Some DOCK_RDO, charger_input := Some 0\<rparr>\<rparr>,
      (w, l @ dock_caps w)))"
proof -
  have caps: "dock_bytes w SOURCE_CAPS = 8 # to_le_bytes DOCK_PDO0 @ to_le_bytes DOCK_PDO1 @ replicate 20 0"
    by (simp add: dock_bytes_def register_defs)
  have reads: "read_le 4 (dock_bytes w SOURCE_CAPS) (Suc 0) = (Ok DOCK_PDO0 :: (PdError, u32) outcome)"
    "byte_at (dock_bytes w SOURCE_CAPS) 0 = (Ok 8 :: (PdError, u8) outcome)" "length (dock_bytes w SOURCE_CAPS) = 29"
    "dock_bytes w SOURCE_CAPS \<noteq> []"
    by (simp_all add: caps read_le_def subslice_def slice_def from_le_to_le byte_at_def)
  show ?thesis
    using reads
    by (simp add: discover_def act_defs io_step_def dock_read change_status_def change_def
        dock_object[OF dock_pdo_bytes(1)] dock_object[OF dock_pdo_bytes(2)] input_limit_def
        dock_read1[simplified] byte_at_def dock_select dock_caps_def)
qed

text \<open>The policy after the first poll, and after the request.\<close>

definition dock1 :: PdPolicy where
  "dock1 = default_policy\<lparr>orientation := Some Cc2, stable_since := Some 0, stable_polls := 1,
     status := default_status\<lparr>last_status1 := 0x4d80\<rparr>\<rparr>"

definition dock_status2 :: PdStatus where
  "dock_status2 =
     \<lparr>phase = WaitContract, contract = Some dock_contract, source_caps_len = Some 8,
      source_pdo0 = Some DOCK_PDO0, current_pdo = Some DOCK_PDO1, rdo = Some DOCK_RDO, charger_input = Some 0,
      last_alert = 0, last_status1 = 0x4d80, charge_ready_at_ns = None\<rparr>"

definition dock2 :: PdPolicy where
  "dock2 =
     \<lparr>status = dock_status2, orientation = Some Cc2, stable_since = Some 0, stable_polls = 2,
      deadline = 1250000000, contract_seen = False, recovered_charge_at = None, captured_alert = None\<rparr>"

lemma dock_poll1:
  "poll (logged dock_io) (dock_port False) 0 (default_policy, (False, [])) = (Ok (), (dock1, (False, [])))"
  by (simp add: poll_def poll_idle_def act_defs policy_defs dock_port_simps default_policy_def default_status_def
      dock1_def dock_status_def)

definition dock_seen :: history where
  "dock_seen = Word ALERT 0 # dock_snap False"

definition dock_log2 :: history where
  "dock_log2 = dock_seen @ dock_caps False @ dock_seen @ [Wr BM92T_ADDRESS SET_RDO (request_payload dock_contract)]
     @ dock_seen @ [Wr BM92T_ADDRESS COMMAND (to_le_bytes SEND_RDO)]"

lemma dock_poll2:
  "poll (logged dock_io) (dock_port False) 250000000 (dock1, (False, [])) =
    (Ok (), (dock2, (False, dock_log2)))"
  by (simp add: poll_def poll_idle_def attempt_def request_def request_guard_def write_command_def start_phase_def
      act_defs policy_defs dock_port_simps default_policy_def default_status_def dock_event dock_discover dock_write
      dock_clock dock1_def dock2_def dock_status2_def dock_status_def dock_log2_def dock_seen_def SETTLE_NS_def sat_sub_def
      sat_add_def COMMAND_TIMEOUT_NS_def word_less_nat_alt)

text \<open>The contract alert, PS_RDY, and its completion with the host role already taken.\<close>

definition dock3 :: PdPolicy where
  "dock3 = dock2\<lparr>status := dock_status2\<lparr>phase := WaitReady\<rparr>, deadline := 1250000001, contract_seen := True\<rparr>"

definition dock4 :: PdPolicy where
  "dock4 = dock3\<lparr>status := dock_status2\<lparr>phase := Complete, last_alert := 0, last_status1 := 0x4e80,
     charge_ready_at_ns := Some 2250000002\<rparr>\<rparr>"

definition dock_log3 :: history where
  "dock_log3 = dock_snap False @ dock_objects @ dock_objects @ dock_seen @ dock_objects @ dock_seen
     @ [Wr BM92T_ADDRESS COMMAND (to_le_bytes PS_RDY)]"

definition dock_log4 :: history where
  "dock_log4 = dock_snap True @ dock_objects @ Word ALERT 0 # dock_snap True"

lemma dock_poll3:
  "poll (logged dock_io) (dock_port False) 250000001 (capture_alert 0x1000 dock2, (False, [])) =
    (Ok (), (dock3, (False, dock_log3)))"
  by (simp add: capture_alert_def poll_def poll_active_def active_step_def wait_def wait_contract_def command_def
      send_command_def checked_contract_state_def write_command_def start_phase_def act_defs policy_defs dock_port_simps
      dock_event dock_unchanged dock_write dock_clock dock2_def dock3_def dock_status2_def dock_status_def dock_log3_def
      dock_seen_def sat_add_def COMMAND_TIMEOUT_NS_def completed_def ALERT_FAULT_def ALERT_PLUGPULL_def
      ALERT_CONTRACT_def ALERT_PDO_def ALERT_DONE_def PS_RDY_def DR_SWAP_def word_le_nat_alt)

lemma dock_poll4:
  "poll (logged dock_io) (dock_port True) 250000002 (capture_alert 4 dock3, (True, [])) =
    (Ok (), (dock4, (True, dock_log4)))"
  by (simp add: capture_alert_def poll_def poll_active_def active_step_def wait_def wait_ready_def
      checked_contract_state_def act_defs policy_defs dock_port_simps
      dock_event dock_unchanged dock_clock dock2_def dock3_def dock4_def dock_status2_def dock_status_def dock_log4_def
      dock_seen_def sat_add_def completed_def ALERT_FAULT_def ALERT_PLUGPULL_def
      ALERT_CONTRACT_def ALERT_PDO_def ALERT_DONE_def word_le_nat_alt)

section \<open>The run\<close>

lemma not_released: "phase (status p') \<noteq> Idle \<Longrightarrow> \<not> released p p' l"
  by (auto simp: released_def fresh_policy_def default_policy_def default_status_def)

lemma dock_run1: "pd_run dock_io (dock1, [])"
  using pd_run.poll[OF pd_run.start dock_poll1] by (simp split: if_splits)

lemma dock_run2: "pd_run dock_io (dock2, take 2 (handshake dock_contract))"
proof -
  have "\<not> released dock1 dock2 dock_log2" by (rule not_released) (simp add: dock2_def dock_status2_def)
  moreover have "writes dock_log2 = take 2 (handshake dock_contract)"
    by (simp add: dock_log2_def dock_seen_def dock_snap_def dock_caps_def handshake_def command_write_def
        numeral_2_eq_2)
  ultimately show ?thesis using pd_run.poll[OF dock_run1 dock_poll2] by simp
qed

lemma dock_run2a: "pd_run dock_io (capture_alert 0x1000 dock2, take 2 (handshake dock_contract))"
  by (rule pd_run.alert[OF dock_run2])

lemma dock_run3: "pd_run dock_io (dock3, take 3 (handshake dock_contract))"
proof -
  have "\<not> released (capture_alert 0x1000 dock2) dock3 dock_log3"
    by (rule not_released) (simp add: dock3_def dock_status2_def)
  moreover have "take 2 (handshake dock_contract) @ writes dock_log3 = take 3 (handshake dock_contract)"
    by (simp add: dock_log3_def dock_seen_def dock_snap_def dock_objects_def handshake_def command_write_def
        numeral_2_eq_2 numeral_3_eq_3)
  ultimately show ?thesis using pd_run.poll[OF dock_run2a dock_poll3] by simp
qed

lemma dock_run3a: "pd_run dock_io (capture_alert 4 dock3, take 3 (handshake dock_contract))"
  by (rule pd_run.alert[OF dock_run3])

end
