(* ===== verification/Pd_Contract.thy ===== *)
theory Pd_Contract
  imports Pd_Policy
begin

text \<open>
  The power profile the policy selects from the capabilities of a source, and the contract it makes of
  it: the best eligible fixed profile, within the limits of the board.
\<close>

definition pdo_watts :: "u32 \<Rightarrow> u32" where
  "pdo_watts pdo = pdo_voltage pdo * pdo_current pdo"

text \<open>The order of preference: power first, then voltage.\<close>

definition rank :: "u32 \<Rightarrow> nat" where
  "rank pdo = (unat (pdo_voltage pdo) * unat (pdo_current pdo)) * 1024 + unat (pdo_voltage pdo)"

lemma pdo_field_less: "unat (x AND 0x3ff :: u32) < 1024"
proof -
  have "x AND 0x3ff = take_bit 10 x" by (simp add: take_bit_eq_mask mask_eq_exp_minus_1)
  then show ?thesis using take_bit_nat_less_exp[of 10 "unat x"] by (simp add: unsigned_take_bit_eq)
qed

lemma pdo_voltage_less: "unat (pdo_voltage pdo) < 1024"
  by (simp add: pdo_voltage_def pdo_field_less)

lemma pdo_current_less: "unat (pdo_current pdo) < 1024"
  by (simp add: pdo_current_def pdo_field_less)

lemma unat_pdo_watts: "unat (pdo_watts pdo) = unat (pdo_voltage pdo) * unat (pdo_current pdo)"
proof -
  have "unat (pdo_voltage pdo) * unat (pdo_current pdo) \<le> 1023 * 1023"
    using pdo_voltage_less[of pdo] pdo_current_less[of pdo] by (intro mult_le_mono) auto
  then show ?thesis unfolding pdo_watts_def by (simp add: unat_mult_lt)
qed

lemma better_rank:
  "better pdo (pdo_watts pdo) prev (pdo_watts prev) \<longleftrightarrow> rank prev < rank pdo"
proof -
  have r: "rank q = unat (pdo_watts q) * 1024 + unat (pdo_voltage q)" for q
    by (simp add: rank_def unat_pdo_watts)
  have "better pdo (pdo_watts pdo) prev (pdo_watts prev) \<longleftrightarrow>
      unat (pdo_watts prev) < unat (pdo_watts pdo)
      \<or> unat (pdo_watts pdo) = unat (pdo_watts prev) \<and> unat (pdo_voltage prev) < unat (pdo_voltage pdo)"
    by (auto simp: better_def word_less_nat_alt word_unat_eq_iff)
  then show ?thesis
    using pdo_voltage_less[of pdo] pdo_voltage_less[of prev] unfolding r by auto
qed

definition pdo_of :: "bytes \<Rightarrow> nat \<Rightarrow> u32" where
  "pdo_of caps i = from_le_bytes (slice caps (1 + i * 4) 4)"

definition first_best :: "bool \<Rightarrow> bytes \<Rightarrow> nat \<Rightarrow> nat \<Rightarrow> bool" where
  "first_best dock caps n i \<longleftrightarrow>
     i < n \<and> candidate dock i (pdo_of caps i)
     \<and> (\<forall>j < n. candidate dock j (pdo_of caps j)
          \<longrightarrow> rank (pdo_of caps j) \<le> rank (pdo_of caps i) \<and> (j < i \<longrightarrow> rank (pdo_of caps j) < rank (pdo_of caps i)))"

text \<open>The loop finds the first best candidate.\<close>

definition selection :: "bool \<Rightarrow> bytes \<Rightarrow> nat \<Rightarrow> (nat \<times> u32 \<times> u32) option \<Rightarrow> bool" where
  "selection dock caps n r \<longleftrightarrow>
     (case r of
        None \<Rightarrow> \<forall>j < n. \<not> candidate dock j (pdo_of caps j)
      | Some (k, pdo, w) \<Rightarrow> \<exists>i. k = i + 1 \<and> pdo = pdo_of caps i \<and> w = pdo_watts pdo \<and> first_best dock caps n i)"

lemma select_turn_step:
  assumes "length caps = 29" "n < 7" "selection dock caps n r"
  shows "\<exists>r'. select_turn dock caps n r = Ok r' \<and> selection dock caps (Suc n) r'"
proof -
  let ?p = "pdo_of caps n"
  have read: "read_le 4 caps (1 + n * 4) = (Ok ?p :: (PdError, u32) outcome)"
    using assms(1,2) unfolding pdo_of_def by (intro read_le_Ok) simp
  show ?thesis
  proof (cases "candidate dock n ?p")
    case False
    then have "selection dock caps (Suc n) r"
      using assms(3) by (auto simp: selection_def first_best_def less_Suc_eq split: option.splits)
    then show ?thesis using False read by (simp add: select_turn_def)
  next
    case cand: True
    show ?thesis
    proof (cases r)
      case None
      then have "first_best dock caps (Suc n) n"
        using assms(3) cand by (auto simp: selection_def first_best_def less_Suc_eq)
      then show ?thesis
        using None cand read by (simp add: select_turn_def selection_def Let_def pdo_watts_def)
    next
      case (Some x)
      obtain k q w where x: "x = (k, q, w)" by (cases x)
      from assms(3) Some x obtain i where i: "k = i + 1" "q = pdo_of caps i" "w = pdo_watts q" "first_best dock caps n i"
        by (auto simp: selection_def)
      have turn: "select_turn dock caps n r = Ok (if rank q < rank ?p then Some (n + 1, ?p, pdo_watts ?p) else r)"
        using read cand Some x better_rank[of ?p q] i(3)
        by (simp add: select_turn_def Let_def pdo_watts_def)
      show ?thesis
      proof (cases "rank q < rank ?p")
        case True
        then have "first_best dock caps (Suc n) n"
          using i(2,4) cand by (auto simp: first_best_def less_Suc_eq)
        then show ?thesis using turn True by (simp add: selection_def)
      next
        case False
        then have "first_best dock caps (Suc n) i"
          using i(2,4) by (auto simp: first_best_def less_Suc_eq)
        then show ?thesis using turn False Some x i by (auto simp: selection_def)
      qed
    qed
  qed
qed

lemma select_loop:
  assumes "length caps = 29" "n \<le> 7"
  shows "\<exists>r. for_each (select_turn dock caps) [0..<n] None = Ok r \<and> selection dock caps n r"
  using assms(2)
proof (induction n)
  case 0
  show ?case by (simp add: selection_def)
next
  case (Suc n)
  then obtain r where r: "for_each (select_turn dock caps) [0..<n] None = Ok r" "selection dock caps n r"
    by auto
  from select_turn_step[OF assms(1) _ r(2)] Suc.prems obtain r' where
    "select_turn dock caps n r = Ok r'" "selection dock caps (Suc n) r'" by auto
  then show ?case using r(1) by (simp add: for_each_append)
qed

text \<open>Where the selection and the contract meet.\<close>

lemma select_profile_cases:
  assumes "length caps = 29" "select_profile caps pdo0 len input = Ok ct"
  obtains i where "len \<noteq> 0" "len \<le> 28" "len mod 4 = 0"
    "first_best (len div 4 = 2 \<and> pdo_voltage pdo0 = 100 \<and> pdo_current pdo0 = 50) caps (unat (len div 4)) i"
    "make_contract pdo0 input (len div 4) (i + 1) (pdo_of caps i) = Ok ct"
proof -
  let ?dock = "len div 4 = 2 \<and> pdo_voltage pdo0 = 100 \<and> pdo_current pdo0 = 50"
  have len: "len \<noteq> 0" "\<not> 28 < len" "len mod 4 = 0"
    using assms(2) by (auto simp: select_profile_def Let_def split: if_splits)
  have "unat len \<le> 28" using len(2) by (simp add: word_less_nat_alt not_less)
  then have "unat (len div 4) \<le> 7" by (simp add: unat_div)
  from select_loop[OF assms(1) this, of ?dock] obtain r where
    r: "for_each (select_turn ?dock caps) [0..<unat (len div 4)] None = Ok r"
      "selection ?dock caps (unat (len div 4)) r" by blast
  have "and_then (ok_or r (Unsafe (if ?dock then DOCK_PROFILE else NO_PROFILE)))
      (\<lambda>(position, pdo, _). make_contract pdo0 input (len div 4) position pdo) = Ok ct"
    using assms(2) len r(1) by (simp add: select_profile_def Let_def)
  then obtain k q w where "r = Some (k, q, w)" "make_contract pdo0 input (len div 4) k q = Ok ct"
    by (auto simp: outcome_simps)
  then show ?thesis using that[OF len(1) _ len(3)] len(2) r(2) by (auto simp: selection_def)
qed

section \<open>The contract\<close>

definition rdo_of :: "nat \<Rightarrow> u16 \<Rightarrow> u32 \<Rightarrow> u32" where
  "rdo_of position charging pdo =
     push_bit 28 (word_of_nat position) OR 0x4000000 OR push_bit 10 (ucast (charging div 10)) OR (pdo AND 0x3ff)"

lemma rdo_fields:
  assumes "position \<in> {1..7}" "charging \<in> set CURRENT_TABLE"
  shows "drop_bit 28 (rdo_of position charging pdo) = word_of_nat position"
    "drop_bit 10 (rdo_of position charging pdo) AND 0x3ff = ucast (charging div 10)"
    "rdo_of position charging pdo AND 0x3ff = pdo_current pdo"
proof -
  have p: "position = 1 \<or> position = 2 \<or> position = 3 \<or> position = 4 \<or> position = 5 \<or> position = 6 \<or> position = 7"
    using assms(1) by auto
  have z: "drop_bit 28 (pdo AND 0x3ff) = 0" "drop_bit 10 (pdo AND 0x3ff) = 0" by (simp_all add: drop_bit_and)
  have c: "charging = 100 \<or> charging = 150 \<or> charging = 500 \<or> charging = 900 \<or> charging = 1200 \<or> charging = 1500
      \<or> charging = 2000 \<or> charging = 3000"
    using assms(2) by (simp add: CURRENT_TABLE_def)
  show "drop_bit 28 (rdo_of position charging pdo) = word_of_nat position"
    using p c by (elim disjE) (simp_all add: rdo_of_def z drop_bit_or)
  show "drop_bit 10 (rdo_of position charging pdo) AND 0x3ff = ucast (charging div 10)"
    using p c by (elim disjE) (simp_all add: rdo_of_def z drop_bit_or)
  have n: "x AND 0x3ff = 0 \<Longrightarrow> (x OR (pdo AND 0x3ff)) AND 0x3ff = pdo_current pdo" for x
    by (simp add: bit.conj_disj_distrib2 and.assoc pdo_current_def)
  show "rdo_of position charging pdo AND 0x3ff = pdo_current pdo"
  proof -
    have "(push_bit 28 (word_of_nat position) OR 0x4000000 OR push_bit 10 (ucast (charging div 10))) AND (0x3ff :: u32) = 0"
      using p c by (elim disjE) simp_all
    from n[OF this] show ?thesis by (simp only: rdo_of_def or.assoc)
  qed
qed

text \<open>The reserve for the USB supply and the limit of the board, in mA, for each supported voltage.\<close>

definition board :: "nat \<Rightarrow> nat \<times> nat" where
  "board mv = (if mv = 5000 then (500, 2000) else if mv = 9000 then (500, 2000)
     else if mv = 12000 then (375, 1500) else (300, 1200))"

lemma make_contract_limits:
  assumes "candidate dock i pdo" "make_contract pdo0 input count position pdo = Ok ct"
  shows "c_current_pdo ct = pdo" "c_rdo ct = rdo_of position (charging_limit_ma ct) pdo"
    "charging_limit_ma ct \<in> set CURRENT_TABLE"
    "unat (voltage_mv ct) = 50 * unat (pdo_voltage pdo)"
    "unat (advertised_current_ma ct) = 10 * unat (pdo_current pdo)"
    "unat (charging_limit_ma ct) + fst (board (unat (voltage_mv ct))) \<le> unat (advertised_current_ma ct)"
    "unat (charging_limit_ma ct) \<le> snd (board (unat (voltage_mv ct)))"
    "object_position ct = word_of_nat position" "c_source_pdo0 ct = pdo0"
    "operating_current_ma ct = charging_limit_ma ct" "maximum_current_ma ct = advertised_current_ma ct"
proof -
  define mv where "mv = (ucast (pdo_voltage pdo) :: u16) * 50"
  define adv where "adv = (ucast (pdo_current pdo) :: u16) * 10"
  define reserve where "reserve = (if mv = 5000 then 2500000 else 4500000) div (ucast mv :: u32)"
  define bd where "bd = (if mv = 5000 \<or> mv = 9000 then 2000 else if mv = 12000 then 1500 else 1200 :: u32)"
  have v: "pdo_voltage pdo = 100 \<or> pdo_voltage pdo = 180 \<or> pdo_voltage pdo = 240 \<or> pdo_voltage pdo = 300"
    using assms(1) by (auto simp: candidate_def)
  have mvs: "unat mv = 50 * unat (pdo_voltage pdo)" "unat reserve = fst (board (unat mv))"
    "unat bd = snd (board (unat mv))"
    using v by (elim disjE; simp add: mv_def reserve_def bd_def board_def)+
  have "unat (pdo_current pdo) \<le> 300"
    using assms(1) by (auto simp: candidate_def word_le_nat_alt not_less)
  then have advs: "unat adv = 10 * unat (pdo_current pdo)"
    unfolding adv_def by (simp add: unat_word_ariths unsigned_ucast_eq take_bit_eq_mod)
  obtain av ch where av: "checked_sub (ucast adv) reserve = Some av"
    and ch: "find (\<lambda>current. (ucast current :: u32) \<le> min av bd) (rev CURRENT_TABLE) = Some ch"
    and ct: "ct = \<lparr>c_source_pdo0 = pdo0, c_current_pdo = pdo, c_rdo = rdo_of position ch pdo,
        c_charger_input = input, input_current_ma = CURRENT_TABLE ! unat (input AND 7),
        caps_count = count, object_position = word_of_nat position, voltage_mv = mv,
        operating_current_ma = ch, maximum_current_ma = adv, advertised_current_ma = adv, charging_limit_ma = ch,
        drd_supported = (pdo0 AND 0x2000000 \<noteq> 0)\<rparr>"
    using assms(2)[unfolded make_contract_def Let_def, folded mv_def adv_def, folded reserve_def bd_def rdo_of_def]
    unfolding and_then_eq_Ok ok_or_eq_Ok by blast
  have up: "unat (ucast adv :: u32) = unat adv"
    using unat_less_2p[of adv] by (simp add: unsigned_ucast_eq take_bit_eq_mod)
  have "reserve \<le> ucast adv" "av = ucast adv - reserve" using av by (simp_all add: checked_sub_eq_Some)
  then have av': "unat av + unat reserve = unat adv"
    using up by (simp add: unat_sub_le word_le_nat_alt)
  from ch obtain k where "k < length (rev CURRENT_TABLE)" "ch = rev CURRENT_TABLE ! k" and le: "(ucast ch :: u32) \<le> min av bd"
    unfolding find_Some_iff by blast
  then have "ch \<in> set (rev CURRENT_TABLE)" by (metis nth_mem)
  then have "ch \<in> set CURRENT_TABLE" by simp
  moreover from le have "unat ch \<le> unat av" "unat ch \<le> unat bd"
    using unat_less_2p[of ch] by (simp_all add: word_le_nat_alt unat_min unsigned_ucast_eq take_bit_eq_mod)
  ultimately show "c_current_pdo ct = pdo" "c_rdo ct = rdo_of position (charging_limit_ma ct) pdo"
    "charging_limit_ma ct \<in> set CURRENT_TABLE"
    "unat (voltage_mv ct) = 50 * unat (pdo_voltage pdo)"
    "unat (advertised_current_ma ct) = 10 * unat (pdo_current pdo)"
    "unat (charging_limit_ma ct) + fst (board (unat (voltage_mv ct))) \<le> unat (advertised_current_ma ct)"
    "unat (charging_limit_ma ct) \<le> snd (board (unat (voltage_mv ct)))"
    "object_position ct = word_of_nat position" "c_source_pdo0 ct = pdo0"
    "operating_current_ma ct = charging_limit_ma ct" "maximum_current_ma ct = advertised_current_ma ct"
    using mvs advs av' unfolding ct by simp_all
qed

end
