(* ===== verification/Pd_Claims.thy ===== *)
theory Pd_Claims
  imports Pd_Sample Pd_Contract
begin

text \<open>The properties of the USB power delivery policy.\<close>

text \<open>C17: In every state the policy can reach, whatever the devices answer, what it has written to the
  controller since the last release is a beginning of the one negotiation of its contract: the
  request, SEND_RDO, PS_RDY, DR_SWAP, each attempted at most once and in this order. The phase says
  how far: nothing while idle, two writes while it waits for the contract, three while PS_RDY is
  pending, four while the swap is pending, and a complete handoff or pending charging work has at
  least PS_RDY behind it.\<close>

theorem pd_session_order:
  assumes "pd_run io (p, ws)"
  shows "(ws = [] \<or> (\<exists>ct n. contract (status p) = Some ct \<and> ws = take n (handshake ct)))
    \<and> (case phase (status p) of
         Idle \<Rightarrow> ws = [] \<and> contract (status p) = None
       | WaitContract \<Rightarrow> length ws = 2
       | WaitReady \<Rightarrow> length ws = 3
       | WaitSwap \<Rightarrow> length ws = 4
       | Complete \<Rightarrow> length ws \<in> {3, 4}
       | Revalidate _ \<Rightarrow> length ws \<in> {3, 4}
       | _ \<Rightarrow> True)
    \<and> (charge_ready_at_ns (status p) = None \<or> length ws \<in> {3, 4})"
proof -
  have s: "session_ok p ws" using assms by (rule pd_run_session)
  then have f: "failable p ws" by (rule session_failable)
  have len: "length (take n (handshake ct)) \<in> {3, 4}" if "3 \<le> n" for n ct
    using that by (auto simp: handshake_length)
  have phases: "case phase (status p) of
         Idle \<Rightarrow> ws = [] \<and> contract (status p) = None
       | WaitContract \<Rightarrow> length ws = 2
       | WaitReady \<Rightarrow> length ws = 3
       | WaitSwap \<Rightarrow> length ws = 4
       | Complete \<Rightarrow> length ws \<in> {3, 4}
       | Revalidate _ \<Rightarrow> length ws \<in> {3, 4}
       | _ \<Rightarrow> True"
    using s len unfolding session_ok_def Let_def
    by (cases "phase (status p)") (auto simp: handshake_length)
  have "length ws \<in> {3, 4}" if "charge_ready_at_ns (status p) \<noteq> None"
    using s len that unfolding session_ok_def Let_def
    by (cases "phase (status p)") (auto simp: handshake_length)
  then show ?thesis using f phases by (auto simp: failable_def)
qed

theorem pd_session_order_witness:
  "\<exists>n. take 3 (handshake dock_contract) = take n (handshake dock_contract)
    \<and> length (take 3 (handshake dock_contract)) = 3"
proof -
  have "contract (status dock3) = Some dock_contract" "phase (status dock3) = WaitReady"
    by (simp_all add: dock3_def dock2_def dock_status2_def)
  then show ?thesis using pd_session_order[OF dock_run3] by auto
qed

text \<open>C18: A poll of a reachable policy never panics and never returns an error, and it writes to the
  controller only on fresh evidence: directly before every write it makes, the port was read as
  stable (the first status register twice, with the same value and no fault), showed a valid sink on
  the side of the session with the controller not busy, and, unless the write is PS_RDY, the data
  role of a device. So no command is sent to a controller that was replugged, faulted, became a
  source or was already swapped to host.\<close>

theorem pd_writes_guarded:
  assumes "pd_run io (p, ws)" "poll (logged io) raw now (p, (w, [])) = (r, (p', (w', l)))"
  shows "r = Ok () \<and> (\<forall>pre x post. l = pre @ x # post \<and> writes [x] \<noteq> [] \<longrightarrow>
    (\<exists>before s1 s2 dp. pre = before @ [Word STATUS1 s1, Word STATUS2 s2, Word DP_STATUS dp, Word STATUS1 s1]
       \<and> s1 AND 3 = 0
       \<and> (let st = from_registers s1 s2 dp in
            sink_power_valid st \<and> \<not> command_busy st \<and> orientation (side_taken raw p) = Some (side st)
            \<and> (writes [x] = [command_write PS_RDY] \<or> data_role st = Device))))"
proof (intro conjI allI impI, goal_cases)
  case 1
  show ?case using poll_result(1)[OF pd_run_session[OF assms(1)] assms(2)] .
next
  case (2 pre x post)
  have "guarded_writes (side_taken raw p) l"
    using poll_result(2)[OF pd_run_session[OF assms(1)] assms(2)] .
  then have "snapshot_allows (side_taken raw p) pre (writes [x])"
    using 2 unfolding guarded_writes_def write_allowed_def by blast
  then show ?case unfolding snapshot_allows_def stable_def Let_def by blast
qed

theorem pd_writes_guarded_witness:
  "fst (poll (logged dock_io) (dock_port False) 250000000 (dock1, (False, []))) = Ok ()
    \<and> (\<exists>s1 s2 dp. dock_seen @ dock_caps False @ dock_seen
         = (dock_seen @ dock_caps False @ [Word ALERT 0]) @ [Word STATUS1 s1, Word STATUS2 s2, Word DP_STATUS dp, Word STATUS1 s1]
         \<and> sink_power_valid (from_registers s1 s2 dp))"
proof -
  let ?x = "Wr BM92T_ADDRESS SET_RDO (request_payload dock_contract)"
  note all = pd_writes_guarded[OF dock_run1 dock_poll2]
  have "dock_log2 = (dock_seen @ dock_caps False @ dock_seen) @ ?x # (dock_seen @ [Wr BM92T_ADDRESS COMMAND (to_le_bytes SEND_RDO)])"
    "writes [?x] \<noteq> []"
    by (simp_all add: dock_log2_def)
  then obtain before s1 s2 dp where
    "dock_seen @ dock_caps False @ dock_seen = before @ [Word STATUS1 s1, Word STATUS2 s2, Word DP_STATUS dp, Word STATUS1 s1]"
    "sink_power_valid (from_registers s1 s2 dp)"
    using all unfolding Let_def by blast
  moreover from this(1) have "before = dock_seen @ dock_caps False @ [Word ALERT 0]"
    by (simp add: dock_seen_def dock_snap_def append_eq_append_conv2)
      (auto simp: Cons_eq_append_conv append_eq_Cons_conv append_eq_append_conv2)
  ultimately show ?thesis using all dock_poll2 by auto
qed

text \<open>C19: A complete handoff, the only negotiated state that lets the host controller run, rests on
  evidence read in the same poll. When a poll leaves the policy complete, there are two cases. In the first
  the object and request registers of the controller were read and still hold the contract of the
  session, and the stable snapshot after them shows the USB host role with power valid, no fault and no
  accessory, on the side of the session; nothing was written in between. In the second, and only when the
  state the caller passed in does not show the attachment of the session (detached, or the other side of
  the cable), the poll does not look at the contract: the policy was complete before and only notes the
  caller's status word, nothing was written, and a fresh stable snapshot shows the cable attached on the
  side of the session.\<close>

theorem pd_host_evidence:
  assumes "pd_run io (p, ws)" "poll (logged io) raw now (p, (w, [])) = (r, (p', (w', l)))"
    and "phase (status p') = Complete"
  shows "(\<exists>before read snap ct st. l = before @ read @ snap \<and> contract (status p') = Some ct
      \<and> contract_read ct read \<and> stable st snap \<and> writes (read @ snap) = []
      \<and> is_host st \<and> \<not> is_source st \<and> orientation p' = Some (side st))
    \<or> (\<not> attached raw \<or> orientation p \<noteq> Some (side raw))
      \<and> phase (status p) = Complete \<and> p' = p\<lparr>status := (status p)\<lparr>last_status1 := status1 raw\<rparr>\<rparr>
      \<and> writes l = [] \<and> (\<exists>st. stable st l \<and> attached st \<and> orientation p' = Some (side st))"
  using poll_result(4)[OF pd_run_session[OF assms(1)] assms(2,3)]
proof (elim disjE conjE, goal_cases)
  case 1
  then obtain before read snap ct st where
    l: "l = before @ read @ snap" "contract (status p') = Some ct" "contract_read ct read" "stable st snap"
      "writes (read @ snap) = []" "sink_power_valid st" "orientation p' = Some (side st)"
      "data_role st = Host" "\<not> command_busy st"
    by (auto simp: host_verified_def verified_def)
  from l(4) obtain s1 s2 dp where st: "st = from_registers s1 s2 dp" by (auto simp: stable_def)
  have "is_host st" "\<not> is_source st"
    using l(6,8,9) unfolding st by (auto simp: sink_power_valid_def from_registers_def host_role_def)
  then show ?case using l by blast
next
  case 2
  then have "phase (status p) = Complete" using assms(3) by simp
  moreover from complete_side[OF assms(1) this] obtain o' where "orientation p = Some o'" by auto
  ultimately show ?case using 2 by (auto simp: raced_def attached_as_def)
qed

theorem pd_host_evidence_witness:
  "\<exists>before read snap ct st. dock_log4 = before @ read @ snap \<and> contract_read ct read \<and> stable st snap \<and> is_host st"
proof -
  have "attached (dock_port True) \<and> orientation (capture_alert 4 dock3) = Some (side (dock_port True))"
    "phase (status dock4) = Complete"
    by (simp_all add: dock_port_simps capture_alert_def Let_def dock2_def dock3_def dock4_def
        dock_status2_def completed_def ALERT_FAULT_def ALERT_PLUGPULL_def)
  then show ?thesis using pd_host_evidence[OF dock_run3a dock_poll4] by blast
qed

text \<open>C20: Failures are final for an attachment. A poll returns a policy to the idle state, or takes it
  out of a failed or unsupported one, only when it has itself read a stable snapshot that shows no
  attachment or another side of the cable; it then forgets the whole session. Without that, a failed
  or unsupported policy stays so, writes nothing to the controller, and does not allow the host to
  run; an alert does not change that.\<close>

theorem pd_failure_final:
  assumes "pd_run io (p, ws)" "poll (logged io) raw now (p, (w, [])) = (r, (p', (w', l)))"
  shows "(\<exists>st. stable st l \<and> (\<not> attached st \<or> orientation p \<noteq> Some (side st)) \<and> p' = fresh_policy st)
    \<or> (phase (status p') = Idle \<longrightarrow> phase (status p) = Idle)
      \<and> (terminal (phase (status p)) \<longrightarrow>
           terminal (phase (status p')) \<and> writes l = [] \<and> \<not> host_allowed p'
           \<and> terminal (phase (status (capture_alert a p))))"
proof -
  note s = pd_run_session[OF assms(1)]
  have "\<not> host_allowed p'" if "terminal (phase (status p'))"
    using that by (cases "phase (status p')") (auto simp: host_allowed_def)
  then show ?thesis
    using poll_result(3)[OF s assms(2)] capture_alert_session(5)[OF s, of a] unfolding released_def by blast
qed

theorem pd_failure_final_witness:
  "terminal (phase (status (fst (snd (poll (logged dock_io) (dock_port False) 250000001
     (capture_alert 1 dock2, (False, [])))))))"
proof -
  let ?q = "capture_alert 1 dock2"
  obtain r p' w' l where run: "poll (logged dock_io) (dock_port False) 250000001 (?q, (False, [])) = (r, (p', (w', l)))"
    by (metis surj_pair)
  have failed: "terminal (phase (status ?q))"
    by (simp add: capture_alert_def fail_def ALERT_FAULT_def)
  have "l = []"
    using run by (simp add: poll_def poll_terminal_def act_defs policy_defs dock_port_simps dock2_def dock_status2_def
        capture_alert_def fail_def ALERT_FAULT_def)
  then have "\<not> stable st l" for st by (simp add: stable_def)
  then show ?thesis using pd_failure_final[OF pd_run.alert[OF dock_run2] run] failed run by simp
qed

text \<open>C21: No command stays pending past its deadline: a poll of the attached port when the clock has
  reached the deadline leaves every phase that waits for the controller, whatever the controller
  answers and whatever alert is pending.\<close>

theorem pd_wait_expires:
  assumes "waiting (phase (status p))" "attached_as raw p"
    and "\<forall>w. deadline p \<le> fst (io_clock io w now)"
    and "poll (logged io) raw now (p, (w, l0)) = (r, (p', (w', l)))"
  shows "r = Ok () \<and> \<not> waiting (phase (status p'))"
proof -
  let ?q = "status_update (\<lambda>s. s\<lparr>last_status1 := status1 raw\<rparr>) p"
  let ?p = "if orientation ?q = None then ?q\<lparr>orientation := Some (side raw)\<rparr> else ?q"
  have d: "\<not> (\<not> attached raw \<or> (\<exists>o' \<in> set_option (orientation ?q). o' \<noteq> side raw))"
    using assms(2) by (cases "orientation p") (auto simp: attached_as_def)
  have p: "phase (status ?p) = phase (status p)" "deadline ?p = deadline p" by simp_all
  have active: "op_spec (poll_active (logged io) raw now) ?p (\<lambda>r p' l. r = Ok () \<and> \<not> waiting (phase (status p')))"
    by (rule poll_active_expires) (use assms(1,3) p in simp_all)
  have "op_spec (poll (logged io) raw now) p (\<lambda>r p' l. r = Ok () \<and> \<not> waiting (phase (status p')))"
    unfolding poll_def op_rules if_not_P[OF d]
    using active assms(1) by (cases "phase (status p)") simp_all
  from wp_result[OF op_specD[OF this] assms(4)] show ?thesis by auto
qed

theorem pd_wait_expires_witness:
  "\<not> waiting (phase (status (fst (snd (poll (logged dock_io) (dock_port False) 2000000000 (dock2, (False, [])))))))"
proof -
  obtain r p' w' l where run: "poll (logged dock_io) (dock_port False) 2000000000 (dock2, (False, [])) = (r, (p', (w', l)))"
    by (metis surj_pair)
  have "waiting (phase (status dock2))" "attached_as (dock_port False) dock2"
    "\<forall>w. deadline dock2 \<le> fst (io_clock dock_io w 2000000000)"
    by (simp_all add: dock2_def dock_status2_def attached_as_def dock_port_simps dock_io_def word_le_nat_alt)
  from pd_wait_expires[OF this run] run show ?thesis by simp
qed

text \<open>C22: The contract the policy makes of the capabilities of a source. It selects the first of the
  best fixed-supply profiles in the list (highest power, then highest voltage) among those the board
  supports: 5, 9, 12 or 15 V and at most 3 A, and only 15 V at 2.6 A or more from the Nintendo dock.
  The charging current is one the charger can be set to, with the USB reserve of the board it stays
  below the advertised current, and it is at most the board's limit for the voltage. The request
  object carries position, charging current and advertised current in its bit fields, untruncated.
  The products in 16 bits do not wrap.\<close>

theorem pd_contract_sound:
  assumes "length caps = 29" "select_profile caps pdo0 len input = Ok ct"
  shows "\<exists>i. unat (object_position ct) = i + 1 \<and> c_current_pdo ct = pdo_of caps i
    \<and> first_best (len div 4 = 2 \<and> pdo_voltage pdo0 = 100 \<and> pdo_current pdo0 = 50) caps (unat len div 4) i
    \<and> unat (voltage_mv ct) = 50 * unat (pdo_voltage (c_current_pdo ct))
    \<and> unat (advertised_current_ma ct) = 10 * unat (pdo_current (c_current_pdo ct))
    \<and> charging_limit_ma ct \<in> set CURRENT_TABLE
    \<and> unat (charging_limit_ma ct) + fst (board (unat (voltage_mv ct))) \<le> unat (advertised_current_ma ct)
    \<and> unat (charging_limit_ma ct) \<le> snd (board (unat (voltage_mv ct)))
    \<and> drop_bit 28 (c_rdo ct) = ucast (object_position ct)
    \<and> drop_bit 10 (c_rdo ct) AND 0x3ff = ucast (charging_limit_ma ct div 10)
    \<and> c_rdo ct AND 0x3ff = pdo_current (c_current_pdo ct)"
proof -
  obtain i where i: "len \<le> 28"
    "first_best (len div 4 = 2 \<and> pdo_voltage pdo0 = 100 \<and> pdo_current pdo0 = 50) caps (unat (len div 4)) i"
    "make_contract pdo0 input (len div 4) (i + 1) (pdo_of caps i) = Ok ct"
    using select_profile_cases[OF assms] by metis
  have cand: "candidate (len div 4 = 2 \<and> pdo_voltage pdo0 = 100 \<and> pdo_current pdo0 = 50) i (pdo_of caps i)"
    "i < unat (len div 4)"
    using i(2) by (simp_all add: first_best_def)
  have div: "unat (len div 4) = unat len div 4" by (simp add: unat_div)
  moreover have "unat len \<le> 28" using i(1) by (simp add: word_le_nat_alt)
  ultimately have pos: "i + 1 \<in> {1..7}" using cand(2) by auto
  then have "i = 0 \<or> i = 1 \<or> i = 2 \<or> i = 3 \<or> i = 4 \<or> i = 5 \<or> i = 6" by auto
  then have "unat (word_of_nat (i + 1) :: u8) = i + 1" "(ucast (word_of_nat (i + 1) :: u8) :: u32) = word_of_nat (i + 1)"
    by (elim disjE; simp)+
  moreover note m = make_contract_limits[OF cand(1) i(3)]
  moreover note rdo_fields[OF pos m(3), of "pdo_of caps i"]
  ultimately show ?thesis
    using i(2) unfolding m(1,2,8) div by (intro exI[of _ i] conjI) simp_all
qed

theorem pd_contract_sound_witness:
  "\<exists>i. unat (object_position dock_contract) = i + 1 \<and> i = 1 \<and> unat (charging_limit_ma dock_contract) = 1200"
proof -
  have "length (dock_bytes False SOURCE_CAPS) = 29"
    by (simp add: dock_bytes_def register_defs)
  from pd_contract_sound[OF this dock_select] show ?thesis by (auto simp: dock_contract_def)
qed

end
