(* ===== verification/Charger.thy ===== *)
theory Charger
  imports Typec
begin

text \<open>
  \<open>drivers/usb/tegra210-xusb/src/charger.rs\<close>: the callbacks of the BQ24193 charger. \<open>update\<close> changes
  the bits of a mask in one register, with a check of the port between the read and the write;
  \<open>source_enable\<close> and \<open>source_disable\<close> switch the boost that powers an attached device, and
  \<open>ChargePolicy\<close> raises the input current of a negotiated contract step by step. The closures that
  validate a write are actions.
\<close>

definition INPUT :: u8 where "INPUT = 0x00"
definition POWER :: u8 where "POWER = 0x01"
definition TIMER :: u8 where "TIMER = 0x05"
definition MISC :: u8 where "MISC = 0x07"
definition STATUS :: u8 where "STATUS = 0x08"
definition MODE_MASK :: u8 where "MODE_MASK = 0x30"
definition CHARGE_MODE :: u8 where "CHARGE_MODE = 0x10"
definition OTG_MODE :: u8 where "OTG_MODE = 0x20"
definition BOOST_LIMIT :: u8 where "BOOST_LIMIT = 0x01"
definition WATCHDOG_MASK :: u8 where "WATCHDOG_MASK = 0x30"
definition HIZ :: u8 where "HIZ = 0x80"
definition INPUT_VOLTAGE_MASK :: u8 where "INPUT_VOLTAGE_MASK = 0x78"
definition INPUT_VOLTAGE :: u8 where "INPUT_VOLTAGE = push_bit 3 6"
definition INPUT_CURRENT_MASK :: u8 where "INPUT_CURRENT_MASK = 0x07"
definition JEITA_VSET :: u8 where "JEITA_VSET = 0x10"
definition DELAY_NS :: u64 where "DELAY_NS = 2000000000"
definition STEP_NS :: u64 where "STEP_NS = 1000000"
definition CURRENT_MA :: "u16 list" where
  "CURRENT_MA = [100, 150, 500, 900, 1200, 1500, 2000, 3000]"

definition CONFIGURATION :: reason where "CONFIGURATION = ''BQ24193 configuration did not latch''"
definition SOURCE_CHANGED :: reason where "SOURCE_CHANGED = ''BQ24193 source attachment changed''"
definition WITHDRAWAL :: reason where "WITHDRAWAL = ''BQ24193 source withdrawal failed''"
definition SAVED_MODE :: reason where "SAVED_MODE = ''invalid BQ24193 saved charging mode''"
definition SINK_CHANGED :: reason where "SINK_CHANGED = ''BQ24193 sink attachment changed''"
definition INVALID_CURRENT :: reason where "INVALID_CURRENT = ''invalid BQ24193 charging current''"
definition NO_SINK :: reason where "NO_SINK = ''BQ24193 charging requires a sink attachment''"
definition UNSAFE_MODE :: reason where "UNSAFE_MODE = ''BQ24193 sink charger mode is not safe''"
definition NO_ATTACHMENT :: reason where "NO_ATTACHMENT = ''BQ24193 charging has no attachment''"
definition DETACHED_INPUT :: reason where "DETACHED_INPUT = ''BQ24193 detached input changed''"
definition DETACHED_VBUS :: reason where "DETACHED_VBUS = ''BQ24193 detached VBUS changed''"

section \<open>Registers\<close>

definition charger_read :: "'w Registers \<Rightarrow> u8 \<Rightarrow> ('w, reason, u8) action" where
  "charger_read io register =
     act_bind (read_bytes io CHARGER_ADDRESS register 1) (\<lambda>b. act_lift (byte_at b 0))"

text \<open>The value to write; the reset strobes of \<open>POWER\<close> are no configuration.\<close>

definition merged :: "u8 \<Rightarrow> u8 \<Rightarrow> u8 \<Rightarrow> u8 \<Rightarrow> u8" where
  "merged register msk bits old =
     (let new = (old AND NOT msk) OR (bits AND msk)
      in if register = POWER then new AND NOT 0xc0 else new)"

definition update :: "'w Registers \<Rightarrow> u8 \<Rightarrow> u8 \<Rightarrow> u8 \<Rightarrow> ('w, reason, unit) action \<Rightarrow> ('w, reason, unit) action" where
  "update io register msk bits validate =
     act_bind (charger_read io register) (\<lambda>old.
     let new = merged register msk bits old in
     act_when (new \<noteq> old)
       (act_bind validate (\<lambda>_.
        act_bind (write_bytes io CHARGER_ADDRESS register [new]) (\<lambda>_.
        act_bind (charger_read io register) (\<lambda>back.
        act_when (back AND msk \<noteq> new AND msk) (act_throw CONFIGURATION))))))"

section \<open>The boost\<close>

definition source_safe :: "'w Registers \<Rightarrow> ('w, reason, unit) action" where
  "source_safe io =
     act_bind (snapshot io) (\<lambda>st. if can_source st then act_return () else act_throw SOURCE_CHANGED)"

definition source_enable :: "'w Registers \<Rightarrow> ('w, reason, unit) action" where
  "source_enable io =
     act_bind (update io TIMER WATCHDOG_MASK 0 (source_safe io)) (\<lambda>_.
     act_bind (update io POWER BOOST_LIMIT BOOST_LIMIT (source_safe io)) (\<lambda>_.
     update io POWER MODE_MASK OTG_MODE (source_safe io)))"

definition source_enabled :: "'w Registers \<Rightarrow> ('w, reason, bool) action" where
  "source_enabled io =
     act_bind (charger_read io POWER) (\<lambda>v. act_return (v AND MODE_MASK = OTG_MODE))"

definition withdraw :: "'w Registers \<Rightarrow> u8 \<Rightarrow> ('w, reason, unit) action" where
  "withdraw io mode =
     act_bind (update io POWER BOOST_LIMIT 0 (act_return ())) (\<lambda>_.
     update io POWER MODE_MASK mode (act_return ()))"

definition source_disable :: "'w Registers \<Rightarrow> u8 option \<Rightarrow> ('w, reason, unit) action" where
  "source_disable io restore_mode =
     (let valid_mode = (restore_mode \<in> {None, Some 0, Some CHARGE_MODE});
          mode = (if restore_mode = Some CHARGE_MODE then CHARGE_MODE else 0)
      in act_bind (act_try (withdraw io mode)) (\<lambda>result.
         let finish = (case result of
               Inl e \<Rightarrow> act_throw e
             | Inr _ \<Rightarrow> if valid_mode then act_return () else act_throw SAVED_MODE)
         in case result of
           Inr _ \<Rightarrow> finish
         | Inl _ \<Rightarrow>
             act_bind (act_try (update io POWER MODE_MASK 0 (act_return ()))) (\<lambda>second.
             case second of Inl _ \<Rightarrow> act_throw WITHDRAWAL | Inr _ \<Rightarrow> finish)))"

section \<open>Charging\<close>

definition sink :: "PortState \<Rightarrow> bool" where
  "sink st \<longleftrightarrow>
     attached st \<and> vbus_valid st \<and> \<not> is_source st \<and> \<not> otg_inserted st \<and> fault st = 0
     \<and> (data_role st = Device \<or> data_role st = Host) \<and> status2 st AND 0xc00 = 0 \<and> \<not> dp_active st"

definition sink_safe :: "'w Registers \<Rightarrow> Orientation \<Rightarrow> ('w, reason, unit) action" where
  "sink_safe io o' =
     act_bind (snapshot io) (\<lambda>st. if sink st \<and> side st = o' then act_return () else act_throw SINK_CHANGED)"

text \<open>\<open>rposition\<close>: the last index whose limit is at most the current.\<close>

definition current_index :: "u16 \<Rightarrow> u8 option" where
  "current_index current = map_option word_of_nat (find (\<lambda>i. CURRENT_MA ! i \<le> current) (rev [0..<8]))"

text \<open>Indexing the table of currents.\<close>

definition current_at :: "u8 \<Rightarrow> ('e, u16) outcome" where
  "current_at i = (if unat i < length CURRENT_MA then Ok (CURRENT_MA ! unat i) else Panic)"

datatype ChargePhase = ChargeIdle | Waiting | Ramping | ChargeComplete | ChargeFailed reason

record ChargeStatus =
  charge_phase :: ChargePhase
  target_ma :: u16
  applied_ma :: u16
  charger_status :: "u8 option"

definition default_charge_status :: ChargeStatus where
  "default_charge_status =
     \<lparr>charge_phase = ChargeIdle, target_ma = 0, applied_ma = 0, charger_status = None\<rparr>"

record ChargePolicy =
  charge_status :: ChargeStatus
  due_ns :: u64
  target_index :: u8
  applied_index :: u8
  charge_side :: "Orientation option"

definition default_charge :: ChargePolicy where
  "default_charge =
     \<lparr>charge_status = default_charge_status, due_ns = 0, target_index = 0, applied_index = 0,
      charge_side = None\<rparr>"

type_synonym ('w, 'a) charge_action = "(ChargePolicy \<times> 'w, reason, 'a) action"

definition set_charge :: "ChargePhase \<Rightarrow> ChargePolicy \<Rightarrow> ChargePolicy" where
  "set_charge ph p = p\<lparr>charge_status := (charge_status p)\<lparr>charge_phase := ph\<rparr>\<rparr>"

definition charge_deadline_ns :: "ChargePolicy \<Rightarrow> u64 option" where
  "charge_deadline_ns p =
     (if charge_phase (charge_status p) \<in> {Waiting, Ramping} then Some (due_ns p) else None)"

definition is_active :: "ChargePolicy \<Rightarrow> bool" where
  "is_active p \<longleftrightarrow> charge_phase (charge_status p) \<in> {Waiting, Ramping, ChargeComplete}"

definition schedule :: "u16 \<Rightarrow> u64 \<Rightarrow> ChargePolicy \<Rightarrow> ChargePolicy" where
  "schedule current now p0 =
     (let p = p0\<lparr>charge_side := None, due_ns := sat_add now DELAY_NS, charge_status := default_charge_status\<rparr>
      in case (if current \<le> 3000 then current_index current else None) of
           None \<Rightarrow> set_charge (ChargeFailed INVALID_CURRENT) p
         | Some i \<Rightarrow>
             p\<lparr>target_index := i,
               charge_status := (charge_status p)\<lparr>target_ma := CURRENT_MA ! unat i, charge_phase := Waiting\<rparr>\<rparr>)"

text \<open>The first step: the charger's source of power decides about the JEITA voltage and the target.\<close>

definition begin_source :: "'w Registers \<Rightarrow> Orientation \<Rightarrow> u8 \<Rightarrow> ('w, unit) charge_action" where
  "begin_source io o' st =
     (if st AND 0xc0 = 0 then
        act_bind (change (\<lambda>p. p\<lparr>target_index := min (target_index p) 2\<rparr>)) (\<lambda>_.
        act_bind policy (\<lambda>p.
        act_bind (act_lift (current_at (target_index p))) (\<lambda>ma.
        act_bind (change (\<lambda>p. p\<lparr>charge_status := (charge_status p)\<lparr>target_ma := ma\<rparr>\<rparr>)) (\<lambda>_.
        act_on_snd (update io MISC JEITA_VSET 0 (sink_safe io o'))))))
      else act_when (st AND 0x30 \<noteq> 0x30) (act_on_snd (update io MISC JEITA_VSET JEITA_VSET (sink_safe io o'))))"

text \<open>The input limit of the first step.\<close>

definition begin_input :: "'w Registers \<Rightarrow> Orientation \<Rightarrow> u8 \<Rightarrow> ('w, reason, unit) action" where
  "begin_input io o' applied =
     act_bind (act_when (applied < 2) (update io INPUT INPUT_CURRENT_MASK applied (sink_safe io o'))) (\<lambda>_.
     act_bind (update io INPUT HIZ 0 (sink_safe io o')) (\<lambda>_.
     update io INPUT (INPUT_VOLTAGE_MASK OR INPUT_CURRENT_MASK) (INPUT_VOLTAGE OR applied) (sink_safe io o')))"

definition begin_charge :: "'w Registers \<Rightarrow> u64 \<Rightarrow> ('w, unit) charge_action" where
  "begin_charge io now =
     act_bind (act_on_snd (snapshot io)) (\<lambda>st.
     if \<not> sink st then act_throw NO_SINK else
     act_bind (change (\<lambda>p. p\<lparr>charge_side := Some (side st)\<rparr>)) (\<lambda>_.
     act_bind (act_on_snd (charger_read io POWER)) (\<lambda>power.
     if power AND MODE_MASK \<notin> {0, CHARGE_MODE} then act_throw UNSAFE_MODE else
     act_bind (act_on_snd (charger_read io STATUS)) (\<lambda>s.
     act_bind (change (\<lambda>p. p\<lparr>charge_status := (charge_status p)\<lparr>charger_status := Some s\<rparr>\<rparr>)) (\<lambda>_.
     act_bind (begin_source io (side st) s) (\<lambda>_.
     act_bind (change (\<lambda>p. p\<lparr>applied_index := min (target_index p) 2\<rparr>)) (\<lambda>_.
     act_bind policy (\<lambda>p.
     act_bind (act_on_snd (begin_input io (side st) (applied_index p))) (\<lambda>_.
     act_bind (act_lift (current_at (applied_index p))) (\<lambda>ma.
     change (\<lambda>p. p\<lparr>charge_status := (charge_status p)\<lparr>applied_ma := ma,
         charge_phase := if applied_index p = target_index p then ChargeComplete else Ramping\<rparr>,
       due_ns := sat_add now STEP_NS\<rparr>)))))))))))"

definition ramp :: "'w Registers \<Rightarrow> u64 \<Rightarrow> ('w, unit) charge_action" where
  "ramp io now =
     act_bind policy (\<lambda>p.
     case charge_side p of
       None \<Rightarrow> act_bind (change (set_charge (ChargeFailed NO_ATTACHMENT))) (\<lambda>_. act_throw NO_ATTACHMENT)
     | Some o' \<Rightarrow>
         let nxt = applied_index p + 1 in
         act_bind (act_on_snd (update io INPUT INPUT_CURRENT_MASK nxt (sink_safe io o'))) (\<lambda>_.
         act_bind (change (\<lambda>p. p\<lparr>applied_index := nxt\<rparr>)) (\<lambda>_.
         act_bind (act_lift (current_at nxt)) (\<lambda>ma.
         act_bind (change (\<lambda>p. p\<lparr>charge_status := (charge_status p)\<lparr>applied_ma := ma\<rparr>,
                                due_ns := sat_add now STEP_NS\<rparr>)) (\<lambda>_.
         act_when (nxt = target_index p) (change (set_charge ChargeComplete))))))) "

text \<open>The guard of a write to the detached input.\<close>

definition detached_safe :: "'w Registers \<Rightarrow> ('w, reason, unit) action" where
  "detached_safe io =
     act_bind (snapshot io) (\<lambda>st.
     if attached st \<or> is_source st \<or> fault st \<noteq> 0 \<or> dp_active st then act_throw DETACHED_INPUT else
     act_bind (charger_read io STATUS) (\<lambda>s.
     if s \<noteq> 0 then act_throw DETACHED_VBUS else act_return ()))"

definition restore_input :: "'w Registers \<Rightarrow> ('w, unit) charge_action" where
  "restore_input io =
     act_bind (act_on_snd (charger_read io STATUS)) (\<lambda>s.
     act_bind (change (\<lambda>p. p\<lparr>charge_status := (charge_status p)\<lparr>charger_status := Some s\<rparr>\<rparr>)) (\<lambda>_.
     if s \<noteq> 0 then act_return () else
     act_bind (act_on_snd (snapshot io)) (\<lambda>st.
     if attached st \<or> is_source st \<or> fault st \<noteq> 0 \<or> dp_active st then act_return () else
     act_bind (act_on_snd (update io MISC JEITA_VSET 0 (detached_safe io))) (\<lambda>_.
     act_bind (act_on_snd (update io INPUT HIZ 0 (detached_safe io))) (\<lambda>_.
     act_bind (act_on_snd (update io INPUT (INPUT_VOLTAGE_MASK OR INPUT_CURRENT_MASK) (INPUT_VOLTAGE OR 2)
                 (detached_safe io))) (\<lambda>_.
     change (\<lambda>p. p\<lparr>charge_status := (charge_status p)\<lparr>applied_ma := 500\<rparr>\<rparr>)))))))"

text \<open>The common end of \<open>poll\<close> and \<open>cancel\<close>: an error is recorded and returned.\<close>

definition recorded :: "('w, unit) charge_action \<Rightarrow> ('w, unit) charge_action" where
  "recorded m =
     act_catch m (\<lambda>e. act_bind (change (set_charge (ChargeFailed e))) (\<lambda>_. act_throw e))"

definition cancel :: "'w Registers \<Rightarrow> ('w, unit) charge_action" where
  "cancel io =
     act_bind policy (\<lambda>p.
     if \<not> is_active p then act_return () else
     act_bind (change (\<lambda>p. set_charge ChargeIdle p\<lparr>charge_side := None\<rparr>)) (\<lambda>_.
     recorded (restore_input io)))"

definition charge_poll :: "'w Registers \<Rightarrow> bool \<Rightarrow> u64 \<Rightarrow> ('w, unit) charge_action" where
  "charge_poll io sink_eligible now =
     act_bind policy (\<lambda>p.
     if \<not> is_active p then act_return ()
     else if \<not> sink_eligible then cancel io
     else if now < due_ns p \<or> charge_phase (charge_status p) = ChargeComplete then act_return ()
     else if charge_phase (charge_status p) = Waiting then recorded (begin_charge io now)
     else recorded (ramp io now))"

end
