(* ===== verification/Port_Source.thy ===== *)
theory Port_Source
  imports Charger Pd_Poll
begin

text \<open>
  \<open>drivers/usb/tegra210-xusb/src/typec.rs\<close>: identification of the controller, the policy that powers
  an attached device (\<open>SourcePolicy\<close>) and the initialization of the controller (\<open>ControllerInit\<close>).
\<close>

definition CONFIG1 :: u8 where "CONFIG1 = 0x06"
definition DP_ALERT_ENABLE :: u8 where "DP_ALERT_ENABLE = 0x19"
definition VENDOR_CONFIG :: u8 where "VENDOR_CONFIG = 0x1a"
definition SYS_CONFIG1 :: u8 where "SYS_CONFIG1 = 0x26"
definition SYS_CONFIG2 :: u8 where "SYS_CONFIG2 = 0x27"
definition SYS_CONFIG3 :: u8 where "SYS_CONFIG3 = 0x2f"
definition FW_TYPE :: u8 where "FW_TYPE = 0x4b"
definition FW_REVISION :: u8 where "FW_REVISION = 0x4c"
definition MANUFACTURER_ID :: u8 where "MANUFACTURER_ID = 0x4d"
definition DEVICE_ID :: u8 where "DEVICE_ID = 0x4e"
definition CHARGER_INPUT :: u8 where "CHARGER_INPUT = 0x00"
definition CHARGER_POWER :: u8 where "CHARGER_POWER = 0x01"
definition CHARGER_TIMER :: u8 where "CHARGER_TIMER = 0x05"
definition CHARGER_STATUS :: u8 where "CHARGER_STATUS = 0x08"
definition CHARGER_ID :: u8 where "CHARGER_ID = 0x0a"
definition CHARGE_MASK :: u8 where "CHARGE_MASK = 0x30"

definition BAD_IDENTITY :: reason where
  "BAD_IDENTITY = ''unsupported Switch Type-C controller identity''"
definition BAD_FIRMWARE :: reason where "BAD_FIRMWARE = ''unsupported BM92T firmware revision''"
definition BAD_CHARGER :: reason where "BAD_CHARGER = ''unsupported Switch OTG charger identity''"
definition SOURCE_FAULT :: reason where "SOURCE_FAULT = ''BM92T source fault; reconnect the cable''"
definition SHUTDOWN_FAILED :: reason where
  "SHUTDOWN_FAILED = ''Type-C status failed and OTG shutdown failed''"
definition RESET_FAULT :: reason where "RESET_FAULT = ''BM92T fault during initial system reset''"
definition RESET_INCOMPLETE :: reason where
  "RESET_INCOMPLETE = ''BM92T initial system reset did not complete''"
definition INIT_FAULT :: reason where "INIT_FAULT = ''BM92T fault during initialization''"

section \<open>Diagnostics and identity\<close>

record PowerState =
  config1 :: u16
  vendor_config :: u16
  sys_config1 :: u16
  sys_config2 :: u16
  sys_config3 :: u16
  ps_charger_input :: u8
  ps_charger_power :: u8
  ps_charger_timer :: u8
  ps_charger_status :: u8

definition power_state :: "'w Registers \<Rightarrow> ('w, reason, PowerState) action" where
  "power_state io =
     act_bind (word_reg io CONFIG1) (\<lambda>c1. act_bind (word_reg io VENDOR_CONFIG) (\<lambda>vc.
     act_bind (word_reg io SYS_CONFIG1) (\<lambda>s1. act_bind (word_reg io SYS_CONFIG2) (\<lambda>s2.
     act_bind (word_reg io SYS_CONFIG3) (\<lambda>s3. act_bind (byte_reg io CHARGER_INPUT) (\<lambda>ci.
     act_bind (byte_reg io CHARGER_POWER) (\<lambda>cp. act_bind (byte_reg io CHARGER_TIMER) (\<lambda>ct.
     act_bind (byte_reg io CHARGER_STATUS) (\<lambda>cs.
     act_return \<lparr>config1 = c1, vendor_config = vc, sys_config1 = s1, sys_config2 = s2, sys_config3 = s3,
       ps_charger_input = ci, ps_charger_power = cp, ps_charger_timer = ct, ps_charger_status = cs\<rparr>)))))))))"

record Identity =
  firmware_type :: u16
  firmware_revision :: u16

definition identify :: "'w Registers \<Rightarrow> ('w, reason, Identity) action" where
  "identify io =
     act_bind (word_reg io MANUFACTURER_ID) (\<lambda>m.
     if m \<noteq> 0x04b5 then act_throw BAD_IDENTITY else
     act_bind (word_reg io DEVICE_ID) (\<lambda>d.
     if d \<noteq> 0x03b0 then act_throw BAD_IDENTITY else
     act_bind (word_reg io FW_TYPE) (\<lambda>t.
     act_bind (word_reg io FW_REVISION) (\<lambda>rv.
     if rv \<le> 0x0644 \<or> rv = 0xffff then act_throw BAD_FIRMWARE else
     act_bind (byte_reg io CHARGER_ID) (\<lambda>c.
     if c \<noteq> 0x2f then act_throw BAD_CHARGER
     else act_return \<lparr>firmware_type = t, firmware_revision = rv\<rparr>)))))"

definition prepare_controller :: "'w Registers \<Rightarrow> ('w, reason, unit) action" where
  "prepare_controller io =
     act_bind (update_word io VENDOR_CONFIG (push_bit 2 1) 0) (\<lambda>_.
     update_word io CONFIG1 (push_bit 14 3) 0)"

section \<open>Powering an attached device\<close>

record SourcePolicy =
  saved_power :: "u8 option"
  fault_attachment :: "Orientation option"
  unresolved_fault :: bool

definition default_source :: SourcePolicy where
  "default_source = \<lparr>saved_power = None, fault_attachment = None, unresolved_fault = False\<rparr>"

type_synonym ('w, 'e, 'a) source_action = "(SourcePolicy \<times> 'w, 'e, 'a) action"

definition source_stop :: "'w Registers \<Rightarrow> ('w, reason, unit) source_action" where
  "source_stop io =
     act_bind (act_on_snd (byte_reg io CHARGER_POWER)) (\<lambda>power.
     act_bind policy (\<lambda>p.
     act_bind (act_when (saved_power p \<noteq> None \<or> power AND CHARGE_MASK = OTG_MODE)
                 (act_on_snd (source_disable io (saved_power p)))) (\<lambda>_.
     change (\<lambda>p. p\<lparr>saved_power := None\<rparr>))))"

text \<open>The charge mode to restore when the boost is withdrawn.\<close>

definition save_power :: "'w Registers \<Rightarrow> ('w, reason, unit) source_action" where
  "save_power io =
     act_bind policy (\<lambda>p.
     act_when (saved_power p = None)
       (act_bind (act_on_snd (byte_reg io CHARGER_POWER)) (\<lambda>power.
        let mode = power AND CHARGE_MASK in
        change (\<lambda>p. p\<lparr>saved_power := Some (if mode \<in> {0, 0x10} then mode else 0)\<rparr>))))"

definition source_apply :: "'w Registers \<Rightarrow> PortState \<Rightarrow> ('w, reason, unit) source_action" where
  "source_apply io st =
     (if \<not> can_source st then source_stop io
      else act_bind (save_power io) (\<lambda>_. act_on_snd (source_enable io)))"

text \<open>The attachment a fault is remembered for.\<close>

definition attachment :: "PortState \<Rightarrow> Orientation option" where
  "attachment st = (if attached st then Some (side st) else None)"

definition source_observe :: "'w Registers \<Rightarrow> ('w, ObservationError, PortState) source_action" where
  "source_observe io =
     act_catch (act_on_snd (snapshot_checked io)) (\<lambda>e.
     case e of
       ObsFault st \<Rightarrow> act_bind (change (\<lambda>p. p\<lparr>fault_attachment := attachment st\<rparr>)) (\<lambda>_. act_throw (ObsFault st))
     | e \<Rightarrow> act_throw e)"

definition source_first :: "'w Registers \<Rightarrow> bool \<Rightarrow> ('w, ObservationError, PortState) source_action" where
  "source_first io prior_unresolved =
     act_bind (act_catch (source_observe io) (\<lambda>e.
        act_bind policy (\<lambda>p. act_throw (if unresolved_fault p then ObsUnsafe SOURCE_FAULT else e)))) (\<lambda>st.
     act_bind (act_when prior_unresolved (change (\<lambda>p. p\<lparr>fault_attachment := attachment st\<rparr>))) (\<lambda>_.
     act_bind (change (\<lambda>p. p\<lparr>unresolved_fault := False\<rparr>)) (\<lambda>_. act_return st)))"

definition elsewhere :: "PortState \<Rightarrow> Orientation \<Rightarrow> bool" where
  "elsewhere st o' \<longleftrightarrow> \<not> attached st \<or> side st \<noteq> o'"

text \<open>A remembered fault is cleared only by a second observation of the detached or turned cable.\<close>

definition source_blocked :: "'w Registers \<Rightarrow> PortState \<Rightarrow> ('w, ObservationError, PortState) source_action" where
  "source_blocked io st =
     act_bind policy (\<lambda>p.
     case fault_attachment p of
       None \<Rightarrow> act_return st
     | Some o' \<Rightarrow>
         act_bind
           (if elsewhere st o' then
              act_bind (source_observe io) (\<lambda>fresh.
              if elsewhere fresh o'
              then act_bind (change (\<lambda>p. p\<lparr>fault_attachment := None\<rparr>)) (\<lambda>_. act_return fresh)
              else act_return st)
            else act_return st) (\<lambda>st.
         act_bind policy (\<lambda>p.
         if fault_attachment p \<noteq> None
         then act_bind (act_map_err ObsUnsafe (source_stop io)) (\<lambda>_. act_throw (ObsUnsafe SOURCE_FAULT))
         else act_return st)))"

definition fault_alert :: "u16 \<Rightarrow> bool" where
  "fault_alert alert \<longleftrightarrow> alert AND 3 \<noteq> 0"

text \<open>The boost is withdrawn, and a fault of the source resets the controller.\<close>

definition source_faulted :: "'w Registers \<Rightarrow> PortState \<Rightarrow> u16 \<Rightarrow> ('w, ObservationError, PortState) source_action" where
  "source_faulted io st alert =
     act_bind policy (\<lambda>p.
     let source_fault = (is_source st \<or> saved_power p \<noteq> None) in
     act_bind (act_map_err ObsUnsafe (source_stop io)) (\<lambda>_.
     act_bind (act_when (source_fault \<and> alert AND 2 \<noteq> 0)
                 (io_step (write_bytes io BM92T_ADDRESS COMMAND (to_le_bytes (0x0808 :: u16))) ObsUnsafe)) (\<lambda>_.
     act_throw (ObsUnsafe SOURCE_FAULT))))"

definition source_alert ::
    "'w Registers \<Rightarrow> u16 option \<Rightarrow> PortState \<Rightarrow> ('w, ObservationError, PortState) source_action" where
  "source_alert io captured st =
     act_bind policy (\<lambda>p.
     if is_source st \<or> saved_power p \<noteq> None \<or> (\<exists>a \<in> set_option captured. fault_alert a) then
       act_bind (case captured of Some a \<Rightarrow> act_return a | None \<Rightarrow> io_step (word_reg io 0x02) ObsTransport) (\<lambda>alert.
       act_bind (act_when (fault_alert alert) (change (\<lambda>p. p\<lparr>fault_attachment := attachment st\<rparr>))) (\<lambda>_.
       act_bind (act_catch (source_observe io)
                   (\<lambda>e. act_throw (if fault_alert alert then ObsUnsafe SOURCE_FAULT else e))) (\<lambda>st.
       if fault_alert alert then source_faulted io st alert else act_return st)))
     else act_return st)"

text \<open>The role is read again after the boost was enabled.\<close>

definition source_finish :: "'w Registers \<Rightarrow> PortState \<Rightarrow> ('w, ObservationError, PortState) source_action" where
  "source_finish io st =
     act_bind (act_map_err ObsUnsafe (source_apply io st)) (\<lambda>_.
     act_bind (source_observe io) (\<lambda>st.
     act_bind (act_when (\<not> can_source st) (act_map_err ObsUnsafe (source_stop io))) (\<lambda>_. act_return st)))"

definition source_turn :: "'w Registers \<Rightarrow> u16 option \<Rightarrow> bool \<Rightarrow> ('w, ObservationError, PortState) source_action" where
  "source_turn io captured prior_unresolved =
     act_bind (source_first io prior_unresolved) (\<lambda>st.
     act_bind (source_blocked io st) (\<lambda>st.
     act_bind (source_alert io captured st) (\<lambda>st. source_finish io st)))"

definition source_poll :: "'w Registers \<Rightarrow> u16 option \<Rightarrow> ('w, ObservationError, PortState) source_action" where
  "source_poll io captured =
     act_bind policy (\<lambda>p0.
     act_bind (change (\<lambda>p. p\<lparr>unresolved_fault :=
                 (unresolved_fault p \<or> (\<exists>a \<in> set_option captured. fault_alert a))\<rparr>)) (\<lambda>_.
     act_catch (source_turn io captured (unresolved_fault p0)) (\<lambda>e.
     act_bind (act_try (source_stop io)) (\<lambda>r.
     case r of Inl _ \<Rightarrow> act_throw (ObsUnsafe SHUTDOWN_FAILED) | Inr _ \<Rightarrow> act_throw e))))"

section \<open>Initialization\<close>

datatype InitPhase = Begin | WaitStart | WaitReset | WaitSettle | Ready | InitFailed reason

record ControllerInit =
  init_phase :: InitPhase
  init_deadline :: u64
  drained_alert :: "u16 option"

definition default_init :: ControllerInit where
  "default_init = \<lparr>init_phase = Begin, init_deadline = 0, drained_alert = None\<rparr>"

type_synonym ('w, 'a) init_action = "(ControllerInit \<times> 'w, reason, 'a) action"

text \<open>The next phase, with its deadline 100 ms after the bus work.\<close>

definition init_wait :: "'w Registers \<Rightarrow> InitPhase \<Rightarrow> u64 \<Rightarrow> ('w, unit) init_action" where
  "init_wait io ph now =
     act_bind (change (\<lambda>i. i\<lparr>init_phase := ph\<rparr>)) (\<lambda>_.
     act_bind (act_on_snd (post_io_time io now)) (\<lambda>t.
     change (\<lambda>i. i\<lparr>init_deadline := sat_add t 100000000\<rparr>)))"

definition configure :: "'w Registers \<Rightarrow> u64 \<Rightarrow> ('w, unit) init_action" where
  "configure io now =
     act_bind (act_on_snd (prepare_controller io)) (\<lambda>_.
     act_bind (act_on_snd (write_bytes io BM92T_ADDRESS DP_ALERT_ENABLE (to_le_bytes (0 :: u16)))) (\<lambda>_.
     init_wait io WaitSettle now))"

definition init_start :: "'w Registers \<Rightarrow> u64 \<Rightarrow> ('w, unit) init_action" where
  "init_start io now =
     act_bind (act_on_snd (snapshot io)) (\<lambda>st.
     if attached st \<and> (data_role st = Host \<or> dp_status st AND push_bit 15 1 \<noteq> 0
          \<or> drop_bit 4 (status1 st) AND 7 \<noteq> 0)
     then act_bind (act_on_snd (write_bytes io BM92T_ADDRESS COMMAND (to_le_bytes (0x0d0d :: u16)))) (\<lambda>_.
          init_wait io WaitReset now)
     else configure io now)"

definition init_reset :: "'w Registers \<Rightarrow> u64 \<Rightarrow> ('w, unit) init_action" where
  "init_reset io now =
     act_bind (act_on_snd (word_reg io 0x02)) (\<lambda>alert.
     act_bind (change (\<lambda>i. i\<lparr>drained_alert := Some alert\<rparr>)) (\<lambda>_.
     if fault_alert alert then act_throw RESET_FAULT else
     act_bind (act_on_snd (snapshot io)) (\<lambda>st.
     if command_busy st \<or> fault st \<noteq> 0 \<or> drop_bit 4 (status1 st) AND 7 \<noteq> 0
     then act_throw RESET_INCOMPLETE
     else configure io now)))"

definition init_step :: "'w Registers \<Rightarrow> u64 \<Rightarrow> ('w, unit) init_action" where
  "init_step io now =
     act_bind policy (\<lambda>i.
     case init_phase i of
       Begin \<Rightarrow> act_bind (act_on_snd (update_word io CONFIG1 (push_bit 14 3) (push_bit 14 3))) (\<lambda>_.
                init_wait io WaitStart now)
     | WaitStart \<Rightarrow> act_when (init_deadline i \<le> now) (init_start io now)
     | WaitReset \<Rightarrow> act_when (init_deadline i \<le> now) (init_reset io now)
     | WaitSettle \<Rightarrow> act_when (init_deadline i \<le> now) (change (\<lambda>i. i\<lparr>init_phase := Ready\<rparr>))
     | InitFailed e \<Rightarrow> act_throw e
     | Ready \<Rightarrow> act_return ())"

definition init_poll :: "'w Registers \<Rightarrow> u64 \<Rightarrow> ('w, bool) init_action" where
  "init_poll io now =
     act_catch (act_bind (init_step io now) (\<lambda>_. act_bind policy (\<lambda>i. act_return (init_phase i = Ready))))
       (\<lambda>e. act_bind (change (\<lambda>i. i\<lparr>init_phase := InitFailed e\<rparr>)) (\<lambda>_. act_throw e))"

end
