(* ===== verification/Bus_Guard.thy ===== *)
theory Bus_Guard
  imports Typec_Ops Charger
begin

text \<open>
  Proof rules for operations on the bus alone, and the evidence a write rests on. \<open>all_writes P l\<close>
  says that \<open>P\<close> holds of what was read before each write of the history \<open>l\<close>; \<open>P\<close> looks at the
  transactions directly before the write, so the histories of the parts of an operation are judged
  part by part.
\<close>

section \<open>Input and output\<close>

lemma io_read_bytes:
  "io_spec (read_bytes (logged io) a r n)
     (\<lambda>res l. (\<exists>b. res = Ok b \<and> length b = n \<and> l = [Rd a r b]) \<or> (\<exists>e. res = Err e \<and> l = [RdFail a r]))"
  unfolding io_spec_def by (intro allI wp_read_bytes) auto

lemma io_write_bytes:
  "io_spec (write_bytes (logged io) a r d)
     (\<lambda>res l. (res = Ok () \<and> l = [Wr a r d]) \<or> (\<exists>e. res = Err e \<and> l = [WrFail a r d]))"
  unfolding io_spec_def by (intro allI wp_write_bytes) auto

lemma io_word_reg:
  "io_spec (word_reg (logged io) r)
     (\<lambda>res l. (\<exists>v. res = Ok v \<and> l = [Word r v]) \<or> (\<exists>e. res = Err e \<and> l = [RdFail BM92T_ADDRESS r]))"
  unfolding io_spec_def by (intro allI wp_word_reg) auto

lemma io_byte_reg:
  "io_spec (byte_reg (logged io) r)
     (\<lambda>res l. (\<exists>v. res = Ok v \<and> l = [Rd CHARGER_ADDRESS r [v]]) \<or> (\<exists>e. res = Err e \<and> l = [RdFail CHARGER_ADDRESS r]))"
  unfolding io_spec_def by (intro allI wp_byte_reg) auto

lemma charger_read_byte: "charger_read io r = byte_reg io r"
  by (simp add: charger_read_def byte_reg_def)

lemmas io_charger_read = io_byte_reg[folded charger_read_byte]

lemma io_post_time: "io_spec (post_io_time (logged io) now) (\<lambda>res l. (\<exists>t. res = Ok t) \<and> l = [])"
  unfolding io_spec_def by (intro allI wp_post_io_time) auto

lemma io_conj: "io_spec m P \<Longrightarrow> io_spec m Q \<Longrightarrow> io_spec m (\<lambda>r l. P r l \<and> Q r l)"
  unfolding io_spec_def wp_def by (fastforce split: prod.splits)

section \<open>Observations of the port\<close>

text \<open>The last transaction read a fault.\<close>

definition faulted :: "PortState \<Rightarrow> history \<Rightarrow> bool" where
  "faulted st l \<longleftrightarrow>
     (\<exists>l1 s1 s2 dp. l = l1 @ [Word STATUS1 s1] \<and> st = from_registers s1 s2 dp \<and> s1 AND 3 \<noteq> 0)"

lemma faulted_append: "faulted st l \<Longrightarrow> faulted st (l' @ l)"
  unfolding faulted_def by (metis append.assoc)

lemma low_fault: "(s1 :: u16) AND 3 \<noteq> 0 \<Longrightarrow> (ucast (s1 AND 3) :: u8) \<noteq> 0"
proof -
  have "s1 AND 3 \<le> 3" by (rule word_and_le1)
  then have "unat (s1 AND 3) < 256" by (simp add: word_le_nat_alt)
  then have "unat (ucast (s1 AND 3) :: u8) = unat (s1 AND 3)" by (simp add: unsigned_ucast_eq take_bit_nat_eq_self)
  then show "s1 AND 3 \<noteq> 0 \<Longrightarrow> (ucast (s1 AND 3) :: u8) \<noteq> 0" by (metis unat_0 unat_eq_zero)
qed

lemma faulted_fault: "faulted st l \<Longrightarrow> fault st \<noteq> 0"
  by (auto simp: faulted_def from_registers_def low_fault)

definition seen_fault :: "(ObservationError, 'a) outcome \<Rightarrow> history \<Rightarrow> bool" where
  "seen_fault r l \<longleftrightarrow> (\<forall>st. r = Err (ObsFault st) \<longrightarrow> faulted st l)"

lemma io_word_mapped:
  "io_spec (act_map_err f (word_reg (logged io) r))
     (\<lambda>res l. (\<exists>v. res = Ok v \<and> l = [Word r v]) \<or> (\<exists>e. res = Err (f e) \<and> l = [RdFail BM92T_ADDRESS r]))"
  unfolding act_map_err_def by (rule io_catch[OF io_word_reg]) (auto simp: io_rules)

lemma snapshot_turn_fault: "io_spec (snapshot_turn (logged io)) seen_fault"
  unfolding snapshot_turn_def
proof (rule io_bind[OF io_word_mapped], goal_cases)
  case (1 s l)
  then have l: "l = [Word STATUS1 s]" by auto
  show ?case
  proof (cases "s AND 3 = 0")
    case False
    then show ?thesis using l by (auto simp: io_rules seen_fault_def faulted_def)
  next
    case True
    show ?thesis
      by (simp add: True, rule io_bind[OF io_word_mapped], rule io_bind[OF io_word_mapped], rule io_bind[OF io_word_mapped])
        (auto simp: io_rules seen_fault_def faulted_def)
  qed
qed (auto simp: seen_fault_def)

lemma snapshot_loop_fault: "io_spec (snapshot_loop n (logged io)) seen_fault"
proof (induction n)
  case 0
  show ?case by (simp add: io_rules seen_fault_def)
next
  case (Suc n)
  have turn: "io_spec (snapshot_turn (logged io)) (\<lambda>r l. seen_fault r l \<and> r \<noteq> Panic)"
    by (rule io_conj[OF snapshot_turn_fault], unfold io_spec_def, intro allI, rule wp_mono[OF wp_snapshot_turn])
      (auto simp: observed_turn_def)
  show ?case
    unfolding snapshot_loop.simps
  proof (rule io_bind[OF turn], goal_cases)
    case (1 a l)
    show ?case
    proof (cases a)
      case None
      then show ?thesis
        by simp (rule io_mono[OF Suc.IH], auto simp: seen_fault_def faulted_append)
    qed (simp add: io_rules seen_fault_def)
  qed (auto simp: seen_fault_def)
qed

lemma io_snapshot_checked:
  "io_spec (snapshot_checked (logged io))
     (\<lambda>res l. writes l = [] \<and> res \<noteq> Panic \<and> (\<forall>st. res = Ok st \<longrightarrow> stable st l) \<and> seen_fault res l)"
proof -
  have quiet: "io_spec (snapshot_checked (logged io))
     (\<lambda>res l. writes l = [] \<and> res \<noteq> Panic \<and> (\<forall>st. res = Ok st \<longrightarrow> stable st l))"
    unfolding io_spec_def
    by (intro allI, rule wp_mono[OF wp_snapshot_checked]) (auto simp: observed_def)
  have loop: "io_spec (snapshot_loop 3 (logged io)) (\<lambda>r l. seen_fault r l \<and> r \<noteq> Panic)"
    by (rule io_conj[OF snapshot_loop_fault], unfold io_spec_def, intro allI, rule wp_mono[OF wp_snapshot_loop])
      (auto simp: observed_def)
  have "io_spec (snapshot_checked (logged io)) seen_fault"
    unfolding snapshot_checked_def snapshot_once_def
  proof (rule io_catch[OF loop], goal_cases)
    case (2 e l)
    show ?case
    proof (cases e)
      case (ObsTransport r)
      then show ?thesis
        by simp (rule io_mono[OF snapshot_loop_fault], auto simp: seen_fault_def faulted_append)
    qed (use 2 in \<open>simp_all add: io_rules seen_fault_def\<close>)
  qed (auto simp: seen_fault_def)
  from io_conj[OF quiet this] show ?thesis by (rule io_mono) auto
qed

text \<open>\<open>snapshot\<close> also returns a state that shows a fault; a state without a fault is a stable one.\<close>

lemma io_snapshot:
  "io_spec (snapshot (logged io))
     (\<lambda>res l. writes l = [] \<and> res \<noteq> Panic \<and> (\<forall>st. res = Ok st \<and> fault st = 0 \<longrightarrow> stable st l)
        \<and> (\<forall>st. res = Ok st \<and> fault st \<noteq> 0 \<longrightarrow> faulted st l))"
  unfolding snapshot_def
proof (rule io_catch[OF io_snapshot_checked], goal_cases)
  case (1 st l)
  then show ?case using stable_faultless by auto
next
  case (2 e l)
  then show ?case
    by (cases e) (auto simp: io_rules seen_fault_def faulted_fault)
qed auto

end
