(* ===== verification/Charger_Props.thy ===== *)
theory Charger_Props
  imports Bus_Guard
begin

text \<open>
  The charger's callbacks: what each write rests on, what a successful update read back, and the
  charging policy as a state machine whose input limit never exceeds the scheduled current.
\<close>

section \<open>Writes and their evidence\<close>

type_synonym evidence = "history \<Rightarrow> u8 \<times> u8 \<times> bytes \<Rightarrow> bool"

definition all_writes :: "evidence \<Rightarrow> history \<Rightarrow> bool" where
  "all_writes P l \<longleftrightarrow> (\<forall>pre x post w. l = pre @ x # post \<and> writes [x] = [w] \<longrightarrow> P pre w)"

text \<open>Evidence that lies directly before the write.\<close>

definition suffixed :: "evidence \<Rightarrow> bool" where
  "suffixed P \<longleftrightarrow> (\<forall>l pre w. P pre w \<longrightarrow> P (l @ pre) w)"

lemma writes_cons: "writes (x # l) = writes [x] @ writes l"
  using writes_append[of "[x]" l] by simp

lemma writes_one: "writes [x] = [] \<or> (\<exists>w. writes [x] = [w])"
  by (cases x) auto

lemma all_writes_quiet: "writes l = [] \<Longrightarrow> all_writes P l"
  unfolding all_writes_def using writes_append writes_cons by (metis append_is_Nil_conv not_Cons_self2)

lemma all_writes_mono: "all_writes P l \<Longrightarrow> (\<And>pre w. P pre w \<Longrightarrow> Q pre w) \<Longrightarrow> all_writes Q l"
  unfolding all_writes_def by blast

lemma all_writes_push:
  assumes "all_writes P l" "P l w" "writes [x] = [w]"
  shows "all_writes P (l @ [x])"
  unfolding all_writes_def
proof (intro allI impI)
  fix pre y post v
  assume a: "l @ [x] = pre @ y # post \<and> writes [y] = [v]"
  then consider "l = pre" "y = x" | u where "l = pre @ y # u"
    by (auto simp: append_eq_append_conv2 Cons_eq_append_conv append_eq_Cons_conv)
  then show "P pre v"
  proof cases
    case 2
    then show ?thesis using a assms(1) unfolding all_writes_def by blast
  qed (use a assms in simp)
qed

lemmas all_writes_snoc = all_writes_push[OF all_writes_quiet]

lemma all_writes_append:
  assumes "suffixed P" "all_writes P l1" "all_writes P l2"
  shows "all_writes P (l1 @ l2)"
  unfolding all_writes_def
proof (intro allI impI)
  fix pre x post w
  assume a: "l1 @ l2 = pre @ x # post \<and> writes [x] = [w]"
  then consider u where "l1 = pre @ x # u" | u where "l2 = u @ x # post" "pre = l1 @ u"
    by (auto simp: append_eq_append_conv2 Cons_eq_append_conv append_eq_Cons_conv)
  then show "P pre w"
    using assms a unfolding all_writes_def suffixed_def by cases blast+
qed

lemma all_writes_quiet_end:
  assumes "all_writes P l1" "writes l2 = []"
  shows "all_writes P (l1 @ l2)"
  unfolding all_writes_def
proof (intro allI impI)
  fix pre x post w
  assume a: "l1 @ l2 = pre @ x # post \<and> writes [x] = [w]"
  then consider u where "l1 = pre @ x # u" | u where "l2 = u @ x # post"
    by (auto simp: append_eq_append_conv2 Cons_eq_append_conv append_eq_Cons_conv)
  then show "P pre w"
  proof cases
    case 1
    then show ?thesis using a assms(1) unfolding all_writes_def by blast
  next
    case 2
    then have "writes [x] = []" using assms(2) writes_append[of u "x # post"] writes_cons[of x post] by simp
    then show ?thesis using a by simp
  qed
qed

lemma all_writes_later: "suffixed P \<Longrightarrow> all_writes P l2 \<Longrightarrow> writes l1 = [] \<Longrightarrow> all_writes P (l1 @ l2)"
  by (rule all_writes_append) (auto intro: all_writes_quiet)

text \<open>An operation that does not panic, and whose writes all have their evidence.\<close>

definition guarded_io :: "evidence \<Rightarrow> ('w \<times> history, 'e, 'a) action \<Rightarrow> bool" where
  "guarded_io P m \<longleftrightarrow> suffixed P \<and> io_spec m (\<lambda>r l. r \<noteq> Panic \<and> all_writes P l)"

lemma guardedI: "suffixed P \<Longrightarrow> io_spec m Q \<Longrightarrow> (\<And>r l. Q r l \<Longrightarrow> r \<noteq> Panic \<and> all_writes P l) \<Longrightarrow> guarded_io P m"
  unfolding guarded_io_def by (auto elim!: io_mono)

lemma guardedD: "guarded_io P m \<Longrightarrow> io_spec m (\<lambda>r l. r \<noteq> Panic \<and> all_writes P l)"
  by (simp add: guarded_io_def)

lemma guarded_bind:
  assumes "guarded_io P m" "\<And>a. guarded_io P (f a)"
  shows "guarded_io P (act_bind m f)"
proof -
  have s: "suffixed P" using assms(1) by (simp add: guarded_io_def)
  show ?thesis
    unfolding guarded_io_def
    by (intro conjI s io_bind[OF guardedD[OF assms(1)]])
      (auto intro!: io_mono[OF guardedD[OF assms(2)]] all_writes_append[OF s])
qed

lemma guarded_when: "suffixed P \<Longrightarrow> (c \<Longrightarrow> guarded_io P m) \<Longrightarrow> guarded_io P (act_when c m)"
  by (simp add: guarded_io_def io_when all_writes_quiet)

lemma guarded_quiet_io: "suffixed P \<Longrightarrow> io_spec m (\<lambda>r l. r \<noteq> Panic \<and> writes l = []) \<Longrightarrow> guarded_io P m"
  by (auto simp: guarded_io_def all_writes_quiet elim!: io_mono)

section \<open>Updating a register\<close>

text \<open>The history ends with a read of the register that shows the bits of the mask as \<open>b\<close>.\<close>

definition reads_back :: "u8 \<Rightarrow> u8 \<Rightarrow> u8 \<Rightarrow> history \<Rightarrow> bool" where
  "reads_back r msk b l \<longleftrightarrow> (\<exists>pre v. l = pre @ [Rd CHARGER_ADDRESS r [v]] \<and> v AND msk = b)"

lemma reads_back_append: "reads_back r m b l \<Longrightarrow> reads_back r m b (l' @ l)"
  unfolding reads_back_def by (metis append.assoc)

lemma strobes_masked: "msk AND c = 0 \<Longrightarrow> (x AND NOT c) AND msk = x AND (msk :: u8)"
proof (rule bit_word_eqI)
  fix n assume n: "n < LENGTH(8)" and c: "msk AND c = 0"
  have "\<not> bit (msk AND c) n" unfolding c by simp
  then have "\<not> (bit msk n \<and> bit c n)" unfolding bit_and_iff .
  then show "bit ((x AND NOT c) AND msk) n = bit (x AND msk) n"
    using n by (auto simp: bit_and_iff bit_not_iff)
qed

lemma merged_masked:
  assumes "r \<noteq> POWER \<or> msk AND 0xc0 = 0"
  shows "merged r msk bits old AND msk = bits AND msk"
proof -
  have "((old AND NOT msk) OR (bits AND msk)) AND msk = bits AND msk"
    by (rule bit_word_eqI) (auto simp: bit_simps)
  then show ?thesis using assms strobes_masked[of msk "0xc0"] by (auto simp: merged_def Let_def)
qed

lemma io_charger_read':
  "io_spec (charger_read (logged io) r)
     (\<lambda>res l. res \<noteq> Panic \<and> writes l = [] \<and> (\<forall>v. res = Ok v \<longrightarrow> l = [Rd CHARGER_ADDRESS r [v]]))"
  by (rule io_mono[OF io_charger_read]) auto

lemma update_spec:
  assumes "io_spec validate (\<lambda>r l. r \<noteq> Panic \<and> writes l = [] \<and> (r = Ok () \<longrightarrow> E l))"
    and "\<And>old l. E l \<Longrightarrow> writes l = [] \<Longrightarrow> P (Rd CHARGER_ADDRESS r [old] # l) (CHARGER_ADDRESS, r, [merged r msk bits old])"
    and "r \<noteq> POWER \<or> msk AND 0xc0 = 0"
  shows "io_spec (update (logged io) r msk bits validate)
    (\<lambda>res l. res \<noteq> Panic \<and> all_writes P l \<and> (res = Ok () \<longrightarrow> reads_back r msk (bits AND msk) l))"
  unfolding update_def
proof (rule io_bind[OF io_charger_read'], goal_cases)
  case (1 old l)
  let ?new = "merged r msk bits old"
  note masked = merged_masked[OF assms(3), of bits old]
  have l: "l = [Rd CHARGER_ADDRESS r [old]]" using 1 by simp
  show ?case
  proof (cases "?new = old")
    case True
    then have "old AND msk = bits AND msk" using masked by simp
    then show ?thesis
      using True l by (auto simp: io_when Let_def reads_back_def all_writes_quiet)
  next
    case False
    have "io_spec (act_bind validate (\<lambda>_. act_bind (write_bytes (logged io) CHARGER_ADDRESS r [?new])
        (\<lambda>_. act_bind (charger_read (logged io) r) (\<lambda>b. act_when (b AND msk \<noteq> ?new AND msk) (act_throw CONFIGURATION)))))
        (\<lambda>r' l1. r' \<noteq> Panic \<and> all_writes P (l @ l1) \<and> (r' = Ok () \<longrightarrow> reads_back r msk (bits AND msk) (l @ l1)))"
    proof (rule io_bind[OF assms(1)], goal_cases)
      case (1 u lv)
      then have E: "E lv" "writes lv = []" by auto
      have wrote: "all_writes P (l @ lv @ [x])" if "writes [x] = [(CHARGER_ADDRESS, r, [?new])]" for x
        using all_writes_snoc[of "l @ lv", OF _ _ that] assms(2)[OF E, of old] E l by simp
      show ?case
      proof (rule io_bind[OF io_write_bytes], goal_cases)
        case (1 u2 lw)
        then have lw: "lw = [Wr CHARGER_ADDRESS r [?new]]" by simp
        show ?case
        proof (rule io_bind[OF io_charger_read'], goal_cases)
          case (1 v lb)
          then have lb: "lb = [Rd CHARGER_ADDRESS r [v]]" by simp
          have "all_writes P ((l @ lv @ lw) @ lb)"
            by (rule all_writes_quiet_end) (use wrote[of "Wr CHARGER_ADDRESS r [?new]"] lw lb in auto)
          then show ?case
            using lb masked by (auto simp: io_rules reads_back_def)
        next
          case (2 e lb)
          have "all_writes P ((l @ lv @ lw) @ lb)"
            by (rule all_writes_quiet_end) (use wrote[of "Wr CHARGER_ADDRESS r [?new]"] lw 2 in auto)
          then show ?case by simp
        qed auto
      next
        case (2 e lw)
        then show ?case using wrote[of "WrFail CHARGER_ADDRESS r [?new]"] by auto
      qed auto
    next
      case (2 e lv)
      then show ?case using l by (auto simp: all_writes_quiet)
    qed auto
    then show ?thesis using False by (simp add: io_when Let_def)
  qed
qed (auto simp: all_writes_quiet)

section \<open>The boost\<close>

text \<open>Directly before, a stable snapshot showed a device that asks for power.\<close>

definition source_evidence :: "history \<Rightarrow> bool" where
  "source_evidence l \<longleftrightarrow> (\<exists>st. stable st l \<and> can_source st)"

text \<open>The value does not turn the boost on: either it leaves the boost mode, or the mode was on
  already in the read just before, and the value has the boost limit off.\<close>

definition withdraws :: "history \<Rightarrow> u8 \<Rightarrow> bool" where
  "withdraws l v \<longleftrightarrow>
     v AND MODE_MASK \<noteq> OTG_MODE
     \<or> v AND BOOST_LIMIT = 0 \<and> (\<exists>pre old. l = pre @ [Rd CHARGER_ADDRESS POWER [old]] \<and> old AND MODE_MASK = OTG_MODE)"

definition boost_ok :: evidence where
  "boost_ok l = (\<lambda>(a, r, d). a = CHARGER_ADDRESS \<and> (\<exists>v. d = [v] \<and>
     (r = TIMER \<and> source_evidence l
      \<or> r = POWER \<and> v AND 0xc0 = 0 \<and> (source_evidence l \<or> withdraws l v))))"

lemma source_evidence_append: "source_evidence l \<Longrightarrow> source_evidence (l' @ l)"
  unfolding source_evidence_def using stable_append by blast

lemma source_evidence_cons: "source_evidence l \<Longrightarrow> source_evidence (x # l)"
  using source_evidence_append[of l "[x]"] by simp

lemma withdraws_append: "withdraws l v \<Longrightarrow> withdraws (l' @ l) v"
  unfolding withdraws_def by (metis append.assoc)

lemma boost_ok_suffixed: "suffixed boost_ok"
  unfolding suffixed_def boost_ok_def using source_evidence_append withdraws_append by fast

lemma source_safe_spec:
  "io_spec (source_safe (logged io)) (\<lambda>r l. r \<noteq> Panic \<and> writes l = [] \<and> (r = Ok () \<longrightarrow> source_evidence l))"
  unfolding source_safe_def
  by (rule io_bind[OF io_snapshot]) (auto simp: io_rules source_evidence_def can_source_def)

lemma no_strobes: "merged POWER msk bits old AND 0xc0 = 0"
proof -
  have "(x AND NOT c) AND c = 0" for x c :: u8
    by (rule bit_word_eqI) (auto simp: bit_simps)
  from this[of _ "0xc0"] show ?thesis by (simp add: merged_def)
qed

lemma source_enable_spec:
  "io_spec (source_enable (logged io))
     (\<lambda>r l. r \<noteq> Panic \<and> all_writes boost_ok l \<and> (r = Ok () \<longrightarrow> reads_back POWER MODE_MASK OTG_MODE l))"
proof -
  have timer: "io_spec (update (logged io) TIMER WATCHDOG_MASK 0 (source_safe (logged io)))
      (\<lambda>r l. r \<noteq> Panic \<and> all_writes boost_ok l)"
    by (rule io_mono[OF update_spec[where P = boost_ok, OF source_safe_spec]])
      (auto simp: boost_ok_def source_evidence_cons TIMER_def POWER_def)
  have power: "io_spec (update (logged io) POWER msk bits (source_safe (logged io)))
      (\<lambda>r l. r \<noteq> Panic \<and> all_writes boost_ok l \<and> (r = Ok () \<longrightarrow> reads_back POWER msk (bits AND msk) l))"
    if "msk AND 0xc0 = 0" for msk bits
    by (rule update_spec[OF source_safe_spec])
      (use that in \<open>auto simp: boost_ok_def source_evidence_cons no_strobes\<close>)
  show ?thesis
    unfolding source_enable_def
    by (rule io_bind[OF timer], rule io_bind[OF power], simp add: BOOST_LIMIT_def, rule io_mono[OF power])
      (auto simp: MODE_MASK_def OTG_MODE_def intro: all_writes_append boost_ok_suffixed reads_back_append)
qed

text \<open>The last transaction read the boost as off.\<close>

definition boost_off :: "history \<Rightarrow> bool" where
  "boost_off l \<longleftrightarrow> (\<exists>pre v. l = pre @ [Rd CHARGER_ADDRESS POWER [v]] \<and> v AND MODE_MASK \<noteq> OTG_MODE)"

lemma boost_off_append: "boost_off l \<Longrightarrow> boost_off (l' @ l)"
  unfolding boost_off_def by (metis append.assoc)

lemma merged_kept:
  assumes "msk AND c = 0" "0xc0 AND c = 0"
  shows "merged r msk bits old AND c = old AND c"
proof -
  have "((old AND NOT msk) OR (bits AND msk)) AND c = old AND c"
  proof (rule bit_word_eqI)
    fix n assume n: "n < LENGTH(8)"
    have "\<not> bit (msk AND c) n" unfolding assms(1) by simp
    then have "\<not> (bit msk n \<and> bit c n)" unfolding bit_and_iff .
    then show "bit (((old AND NOT msk) OR (bits AND msk)) AND c) n = bit (old AND c) n"
      using n by (auto simp: bit_and_iff bit_or_iff bit_not_iff)
  qed
  then show ?thesis
    using strobes_masked[of c "0xc0"] assms(2) by (simp add: merged_def Let_def and.commute)
qed

text \<open>The writes that do not turn the boost on.\<close>

definition withdraw_only :: evidence where
  "withdraw_only l w \<longleftrightarrow> (\<exists>v. w = (CHARGER_ADDRESS, POWER, [v]) \<and> v AND 0xc0 = 0 \<and> withdraws l v)"

lemma withdraw_only_suffixed: "suffixed withdraw_only"
  unfolding suffixed_def withdraw_only_def using withdraws_append by blast

lemma withdraw_spec:
  assumes "mode = 0 \<or> mode = CHARGE_MODE"
  shows "io_spec (withdraw (logged io) mode) (\<lambda>r l. r \<noteq> Panic \<and> all_writes withdraw_only l \<and> (r = Ok () \<longrightarrow> boost_off l))"
    and "io_spec (update (logged io) POWER MODE_MASK mode (act_return ()))
      (\<lambda>r l. r \<noteq> Panic \<and> all_writes withdraw_only l \<and> (r = Ok () \<longrightarrow> boost_off l))"
proof -
  have quiet: "io_spec (act_return ()) (\<lambda>r l. r \<noteq> Panic \<and> writes l = [] \<and> (r = Ok () \<longrightarrow> l = []))"
    by (simp add: io_rules)
  have "withdraws [Rd CHARGER_ADDRESS POWER [old]] (merged POWER BOOST_LIMIT 0 old)" for old
    using merged_masked[of POWER BOOST_LIMIT 0 old] merged_kept[of BOOST_LIMIT MODE_MASK POWER 0 old]
    by (auto simp: withdraws_def BOOST_LIMIT_def MODE_MASK_def)
  then have limit: "io_spec (update (logged io) POWER BOOST_LIMIT 0 (act_return ()))
      (\<lambda>r l. r \<noteq> Panic \<and> all_writes withdraw_only l)"
    by (intro io_mono[OF update_spec[where P = withdraw_only, OF quiet]])
      (auto simp: withdraw_only_def no_strobes BOOST_LIMIT_def)
  have masked: "mode AND MODE_MASK = mode" "mode \<noteq> OTG_MODE"
    using assms by (auto simp: MODE_MASK_def CHARGE_MODE_def OTG_MODE_def)
  have off: "merged POWER MODE_MASK mode old AND MODE_MASK \<noteq> OTG_MODE" for old
    using merged_masked[of POWER MODE_MASK mode old] masked by (simp add: MODE_MASK_def)
  show mode: "io_spec (update (logged io) POWER MODE_MASK mode (act_return ()))
      (\<lambda>r l. r \<noteq> Panic \<and> all_writes withdraw_only l \<and> (r = Ok () \<longrightarrow> boost_off l))"
    by (intro io_mono[OF update_spec[where P = withdraw_only, OF quiet]])
      (use masked off in \<open>auto simp: withdraw_only_def no_strobes withdraws_def reads_back_def boost_off_def MODE_MASK_def\<close>)
  show "io_spec (withdraw (logged io) mode) (\<lambda>r l. r \<noteq> Panic \<and> all_writes withdraw_only l \<and> (r = Ok () \<longrightarrow> boost_off l))"
    unfolding withdraw_def
    by (rule io_bind[OF limit], rule io_mono[OF mode])
      (auto intro: all_writes_append withdraw_only_suffixed boost_off_append)
qed

lemma source_disable_spec:
  "io_spec (source_disable (logged io) restore)
     (\<lambda>r l. r \<noteq> Panic \<and> all_writes withdraw_only l \<and> (r = Ok () \<longrightarrow> boost_off l))"
proof -
  let ?mode = "if restore = Some CHARGE_MODE then CHARGE_MODE else 0"
  have attempt: "io_spec (act_try m) (\<lambda>r l. r \<noteq> Panic \<and> all_writes withdraw_only l \<and> (\<forall>x. r = Ok (Inr x) \<longrightarrow> boost_off l) \<and> (\<forall>e. r \<noteq> Err e))"
    if "io_spec m (\<lambda>r l. r \<noteq> Panic \<and> all_writes withdraw_only l \<and> (r = Ok () \<longrightarrow> boost_off l))" for m
    by (rule io_try, rule io_mono[OF that]) (auto split: outcome.splits)
  show ?thesis
    unfolding source_disable_def Let_def
  proof (rule io_bind[OF attempt[OF withdraw_spec(1)]], goal_cases)
    case (2 result l)
    show ?case
    proof (cases result)
      case (Inr u)
      then show ?thesis using 2 by (auto simp: io_rules)
    next
      case (Inl e)
      show ?thesis
        unfolding Inl sum.case
        by (rule io_bind[OF attempt[OF withdraw_spec(2)]])
          (use 2 in \<open>auto simp: io_rules split: sum.splits intro: all_writes_append withdraw_only_suffixed\<close>)
    qed
  qed auto
qed

end
