(* ===== verification/Charge_Props.thy ===== *)
theory Charge_Props
  imports Charger_Props
begin

text \<open>
  The charging policy: every write rests on a stable snapshot of a sink (or, when charging is
  cancelled, of a detached port), and the input limit it sets never exceeds the target.
\<close>

section \<open>Evidence\<close>

definition detached_evidence :: "history \<Rightarrow> bool" where
  "detached_evidence l \<longleftrightarrow>
     (\<exists>pre st. l = pre @ [Rd CHARGER_ADDRESS STATUS [0]] \<and> stable st pre \<and> \<not> attached st)"

text \<open>The last transaction has read back an input limit of at most the index \<open>lim\<close>; from index 2 (500 mA,
  the limit the driver starts with) on this is not demanded.\<close>

definition limit_shown :: "u8 \<Rightarrow> history \<Rightarrow> bool" where
  "limit_shown lim l \<longleftrightarrow> 2 \<le> lim \<or> (\<exists>i \<le> lim. reads_back INPUT INPUT_CURRENT_MASK i l)"

lemma limit_shown_append: "limit_shown lim l \<Longrightarrow> limit_shown lim (l' @ l)"
  unfolding limit_shown_def using reads_back_append by blast

lemma limit_shown_weaken: "limit_shown lim l \<Longrightarrow> lim \<le> lim' \<Longrightarrow> limit_shown lim' l"
  unfolding limit_shown_def by (meson order_trans)

text \<open>A new value of the input register with a limit index of at most \<open>lim\<close>, or the value just read with
  the high impedance bit cleared. The latter exposes the limit the register holds: it is only written
  when that limit has been shown just before.\<close>

definition within :: "u8 \<Rightarrow> history \<Rightarrow> u8 \<Rightarrow> bool" where
  "within lim l v \<longleftrightarrow>
     v AND INPUT_CURRENT_MASK \<le> lim
     \<or> (\<exists>pre old mid. l = pre @ Rd CHARGER_ADDRESS INPUT [old] # mid \<and> writes mid = [] \<and> v = old AND NOT HIZ
           \<and> limit_shown lim pre)"

definition charge_ok :: "Orientation option \<Rightarrow> u8 \<Rightarrow> evidence" where
  "charge_ok o' lim l = (\<lambda>(a, r, d). a = CHARGER_ADDRESS \<and> (r = INPUT \<or> r = MISC) \<and> (\<exists>v. d = [v] \<and>
     ((\<exists>st. stable st l \<and> sink st \<and> o' = Some (side st)) \<and> (r = INPUT \<longrightarrow> within lim l v)
      \<or> detached_evidence l)))"

lemma detached_append: "detached_evidence l \<Longrightarrow> detached_evidence (l' @ l)"
  unfolding detached_evidence_def by (metis append.assoc stable_append)

lemma within_append: "within lim l v \<Longrightarrow> within lim (l' @ l) v"
  unfolding within_def by (metis append.assoc limit_shown_append)

lemma charge_ok_suffixed: "suffixed (charge_ok o' lim)"
  unfolding suffixed_def charge_ok_def using stable_append detached_append within_append by fast

lemma within_weaken: "within lim l v \<Longrightarrow> lim \<le> lim' \<Longrightarrow> within lim' l v"
  unfolding within_def using limit_shown_weaken[of lim _ lim'] order_trans[of _ lim lim'] by blast

lemma charge_ok_weaken: "charge_ok o' lim l w \<Longrightarrow> lim \<le> lim' \<Longrightarrow> charge_ok o' lim' l w"
  unfolding charge_ok_def using within_weaken by (cases w) fastforce

lemma sink_safe_spec:
  "io_spec (sink_safe (logged io) o')
     (\<lambda>r l. r \<noteq> Panic \<and> writes l = [] \<and> (r = Ok () \<longrightarrow> (\<exists>st. stable st l \<and> sink st \<and> side st = o')))"
  unfolding sink_safe_def
  by (rule io_bind[OF io_snapshot]) (auto simp: io_rules sink_def)

lemma detached_safe_spec:
  "io_spec (detached_safe (logged io))
     (\<lambda>r l. r \<noteq> Panic \<and> writes l = [] \<and> (r = Ok () \<longrightarrow> detached_evidence l))"
  unfolding detached_safe_def
proof (rule io_bind[OF io_snapshot], goal_cases)
  case (1 st l)
  then have st: "writes l = []" "fault st = 0 \<Longrightarrow> stable st l" by auto
  show ?case
  proof (cases "attached st \<or> is_source st \<or> fault st \<noteq> 0 \<or> dp_active st")
    case True
    then show ?thesis using st by (auto simp: io_rules)
  next
    case False
    then have ev: "stable st l" "\<not> attached st" using st by auto
    show ?thesis
      unfolding if_not_P[OF False]
      by (rule io_bind[OF io_charger_read']) (use st ev in \<open>auto simp: io_rules detached_evidence_def\<close>)
  qed
qed auto

text \<open>An update under the guard of a sink, and of a detached port.\<close>

lemma stable_cons: "stable st l \<Longrightarrow> stable st (x # l)"
  using stable_append[of st l "[x]"] by simp

lemma sink_update_spec:
  assumes "\<And>old. r = INPUT \<Longrightarrow> merged r msk bits old AND INPUT_CURRENT_MASK \<le> lim"
    and "r = INPUT \<or> r = MISC"
  shows "io_spec (update (logged io) r msk bits (sink_safe (logged io) o'))
      (\<lambda>res l. res \<noteq> Panic \<and> all_writes (charge_ok (Some o') lim) l \<and> (res = Ok () \<longrightarrow> reads_back r msk (bits AND msk) l))"
    and "guarded_io (charge_ok (Some o') lim) (update (logged io) r msk bits (sink_safe (logged io) o'))"
proof -
  show spec: "io_spec (update (logged io) r msk bits (sink_safe (logged io) o'))
      (\<lambda>res l. res \<noteq> Panic \<and> all_writes (charge_ok (Some o') lim) l \<and> (res = Ok () \<longrightarrow> reads_back r msk (bits AND msk) l))"
  proof (rule update_spec[OF sink_safe_spec])
    fix old and l :: history
    assume a: "\<exists>st. stable st l \<and> sink st \<and> side st = o'" "writes l = []"
    have "within lim (Rd CHARGER_ADDRESS r [old] # l) (merged r msk bits old)" if "r = INPUT"
      using assms(1)[OF that, of old] unfolding within_def that by simp
    then show "charge_ok (Some o') lim (Rd CHARGER_ADDRESS r [old] # l) (CHARGER_ADDRESS, r, [merged r msk bits old])"
      using a assms(2) stable_cons by (auto simp: charge_ok_def)
  next
    show "r \<noteq> POWER \<or> msk AND 0xc0 = 0" using assms(2) by (auto simp: INPUT_def MISC_def POWER_def)
  qed
  show "guarded_io (charge_ok (Some o') lim) (update (logged io) r msk bits (sink_safe (logged io) o'))"
    by (rule guardedI[OF charge_ok_suffixed spec]) auto
qed

definition detached_ok :: evidence where
  "detached_ok l = (\<lambda>(a, r, d). a = CHARGER_ADDRESS \<and> (r = INPUT \<or> r = MISC) \<and> (\<exists>v. d = [v]) \<and> detached_evidence l)"

lemma detached_ok_suffixed: "suffixed detached_ok"
  unfolding suffixed_def detached_ok_def using detached_append by fast

lemma detached_ok_charge: "detached_ok l w \<Longrightarrow> charge_ok o' lim l w"
  by (auto simp: detached_ok_def charge_ok_def)

lemma detached_update_spec:
  assumes "r = INPUT \<or> r = MISC"
  shows "guarded_io detached_ok (update (logged io) r msk bits (detached_safe (logged io)))"
proof (rule guardedI[OF detached_ok_suffixed update_spec[where P = detached_ok, OF detached_safe_spec]])
  fix old and l :: history
  assume "detached_evidence l"
  then have "detached_evidence (Rd CHARGER_ADDRESS r [old] # l)"
    using detached_append[of l "[Rd CHARGER_ADDRESS r [old]]"] by simp
  then show "detached_ok (Rd CHARGER_ADDRESS r [old] # l) (CHARGER_ADDRESS, r, [merged r msk bits old])"
    using assms by (auto simp: detached_ok_def)
next
  show "r \<noteq> POWER \<or> msk AND 0xc0 = 0" using assms by (auto simp: INPUT_def MISC_def POWER_def)
qed auto

section \<open>The first step\<close>

lemma absorb: "(x AND (a OR b)) AND b = x AND (b :: u8)"
  by (rule bit_word_eqI) (auto simp: bit_simps)

lemma limit_bits:
  assumes "applied \<le> 2"
  shows "merged INPUT INPUT_CURRENT_MASK applied old AND INPUT_CURRENT_MASK = applied"
    and "merged INPUT (INPUT_VOLTAGE_MASK OR INPUT_CURRENT_MASK) (INPUT_VOLTAGE OR applied) old AND INPUT_CURRENT_MASK = applied"
proof -
  have "unat applied \<le> 2" using assms by (simp add: word_le_nat_alt)
  then have "unat applied \<in> {0, 1, 2}" by auto
  then have "applied = 0 \<or> applied = 1 \<or> applied = 2" by (auto simp: word_unat_eq_iff)
  then have bits: "applied AND INPUT_CURRENT_MASK = applied" "(INPUT_VOLTAGE OR applied) AND INPUT_CURRENT_MASK = applied"
    by (auto simp: INPUT_VOLTAGE_def INPUT_CURRENT_MASK_def)
  have r: "INPUT \<noteq> POWER" by (simp add: INPUT_def POWER_def)
  show "merged INPUT INPUT_CURRENT_MASK applied old AND INPUT_CURRENT_MASK = applied"
    using merged_masked[of INPUT INPUT_CURRENT_MASK applied old] bits(1) r by simp
  have "merged INPUT (INPUT_VOLTAGE_MASK OR INPUT_CURRENT_MASK) (INPUT_VOLTAGE OR applied) old AND INPUT_CURRENT_MASK
      = (INPUT_VOLTAGE OR applied) AND INPUT_CURRENT_MASK"
    using arg_cong[where f = "\<lambda>x. x AND INPUT_CURRENT_MASK",
        OF merged_masked[of INPUT "INPUT_VOLTAGE_MASK OR INPUT_CURRENT_MASK" "INPUT_VOLTAGE OR applied" old]] r
    unfolding absorb by simp
  then show "merged INPUT (INPUT_VOLTAGE_MASK OR INPUT_CURRENT_MASK) (INPUT_VOLTAGE OR applied) old AND INPUT_CURRENT_MASK = applied"
    using bits(2) by simp
qed

lemma clear_hiz: "merged INPUT HIZ 0 old = old AND NOT HIZ"
  by (simp add: merged_def Let_def INPUT_def POWER_def)

text \<open>The end of high impedance, after a history that has read back a small limit.\<close>

lemma hiz_update_spec:
  assumes "limit_shown lim l0"
  shows "io_spec (update (logged io) INPUT HIZ 0 (sink_safe (logged io) o'))
    (\<lambda>r l. r \<noteq> Panic \<and> all_writes (\<lambda>l. charge_ok (Some o') lim (l0 @ l)) l)"
proof (rule io_mono[OF update_spec[where P = "\<lambda>l. charge_ok (Some o') lim (l0 @ l)", OF sink_safe_spec]])
  fix old and l :: history
  assume a: "\<exists>st. stable st l \<and> sink st \<and> side st = o'" "writes l = []"
  have "within lim (l0 @ Rd CHARGER_ADDRESS INPUT [old] # l) (old AND NOT HIZ)"
    unfolding within_def using a(2) assms by blast
  moreover have "\<exists>st. stable st (l0 @ Rd CHARGER_ADDRESS INPUT [old] # l) \<and> sink st \<and> side st = o'"
    using a(1) stable_cons stable_append by blast
  ultimately show "charge_ok (Some o') lim (l0 @ Rd CHARGER_ADDRESS INPUT [old] # l) (CHARGER_ADDRESS, INPUT, [merged INPUT HIZ 0 old])"
    by (auto simp: charge_ok_def clear_hiz)
qed (auto simp: INPUT_def POWER_def)

lemma all_writes_shift:
  assumes "all_writes P l0" "all_writes (\<lambda>l. P (l0 @ l)) l"
  shows "all_writes P (l0 @ l)"
  unfolding all_writes_def
proof (intro allI impI)
  fix pre x post w
  assume a: "l0 @ l = pre @ x # post \<and> writes [x] = [w]"
  then consider u where "l0 = pre @ x # u" | u where "l = u @ x # post" "pre = l0 @ u"
    by (auto simp: append_eq_append_conv2 Cons_eq_append_conv append_eq_Cons_conv)
  then show "P pre w" using a assms unfolding all_writes_def by cases blast+
qed

lemma begin_input_spec:
  assumes "applied \<le> 2" "applied \<le> lim"
  shows "guarded_io (charge_ok (Some o') lim) (begin_input (logged io) o' applied)"
proof -
  let ?P = "charge_ok (Some o') lim"
  have "applied AND INPUT_CURRENT_MASK \<le> applied" by (rule word_and_le2)
  then have small: "applied AND INPUT_CURRENT_MASK \<le> lim" using assms(2) by (rule order_trans)
  have limit: "io_spec (act_when (applied < 2) (update (logged io) INPUT INPUT_CURRENT_MASK applied (sink_safe (logged io) o')))
      (\<lambda>r l. r \<noteq> Panic \<and> all_writes ?P l \<and> (r = Ok () \<longrightarrow> limit_shown lim l))"
  proof (cases "applied < 2")
    case True
    show ?thesis
      unfolding io_when if_P[OF True]
      by (rule io_mono[OF sink_update_spec(1)[where lim = lim]]) (use limit_bits(1) assms small in \<open>auto simp: limit_shown_def\<close>)
  next
    case False
    then show ?thesis using assms by (auto simp: io_when all_writes_quiet limit_shown_def)
  qed
  have rest: "io_spec (update (logged io) INPUT (INPUT_VOLTAGE_MASK OR INPUT_CURRENT_MASK) (INPUT_VOLTAGE OR applied)
      (sink_safe (logged io) o')) (\<lambda>r l. r \<noteq> Panic \<and> all_writes ?P l)"
    by (rule guardedD, rule sink_update_spec(2)) (use limit_bits(2) assms in auto)
  have "io_spec (begin_input (logged io) o' applied) (\<lambda>r l. r \<noteq> Panic \<and> all_writes ?P l)"
    unfolding begin_input_def
  proof (rule io_bind[OF limit], goal_cases)
    case (1 u l0)
    then have l0: "all_writes ?P l0" "limit_shown lim l0" by auto
    show ?case
    proof (rule io_bind[OF hiz_update_spec[OF l0(2)]], goal_cases)
      case (1 u2 l1)
      then have "all_writes ?P (l0 @ l1)" using all_writes_shift[OF l0(1)] by blast
      then show ?case
        by (auto simp flip: append_assoc intro!: io_mono[OF rest] all_writes_append[OF charge_ok_suffixed])
    qed (use all_writes_shift[OF l0(1)] in auto)
  qed auto
  then show ?thesis unfolding guarded_io_def using charge_ok_suffixed by blast
qed

text \<open>A part of a charging step: it leaves the phase and the side, may lower the target, and its writes
  rest on the side and the target it leaves.\<close>

definition step_keeps :: "ChargePolicy \<Rightarrow> ChargePolicy \<Rightarrow> bool" where
  "step_keeps p p' \<longleftrightarrow>
     charge_phase (charge_status p') = charge_phase (charge_status p) \<and> charge_side p' = charge_side p
     \<and> target_index p' \<le> target_index p"

lemma table_length: "length CURRENT_MA = 8"
  by (simp add: CURRENT_MA_def)

lemma current_at_Ok: "i \<le> 7 \<Longrightarrow> current_at i = Ok (CURRENT_MA ! unat i)"
  by (simp add: current_at_def table_length word_le_nat_alt)

lemma guarded_on_snd:
  "guarded_io P m \<Longrightarrow> op_spec (act_on_snd m) p (\<lambda>r p' l. p' = p \<and> r \<noteq> Panic \<and> all_writes P l)"
  by (rule op_on_io) (auto dest: guardedD elim!: io_mono)

lemma quiet_on_snd:
  "io_spec m (\<lambda>r l. r \<noteq> Panic \<and> writes l = []) \<Longrightarrow> op_spec (act_on_snd m) p (\<lambda>r p' l. p' = p \<and> r \<noteq> Panic \<and> writes l = [])"
  by (rule op_on_io) (auto elim!: io_mono)

lemma quiet_snapshot: "io_spec (snapshot (logged io)) (\<lambda>r l. r \<noteq> Panic \<and> writes l = [])"
  by (rule io_mono[OF io_snapshot]) auto

lemma quiet_charger_read: "io_spec (charger_read (logged io) r) (\<lambda>r l. r \<noteq> Panic \<and> writes l = [])"
  by (rule io_mono[OF io_charger_read']) auto

lemma begin_source_spec:
  assumes "charge_side p = Some o'" "target_index p \<le> 7"
  shows "op_spec (begin_source (logged io) o' st) p
    (\<lambda>r p' l. r \<noteq> Panic \<and> step_keeps p p' \<and> all_writes (charge_ok (Some o') (target_index p')) l)"
proof (cases "st AND 0xc0 = 0")
  case True
  have seven: "min (target_index p) 2 \<le> 7" "min (target_index p) 2 \<le> target_index p"
    using assms(2) by (auto simp: min_def)
  have "guarded_io (charge_ok (Some o') (min (target_index p) 2)) (update (logged io) MISC JEITA_VSET 0 (sink_safe (logged io) o'))"
    by (rule sink_update_spec(2)) (auto simp: MISC_def INPUT_def)
  note upd = guarded_on_snd[OF this]
  show ?thesis
    unfolding begin_source_def if_P[OF True] op_bind_change op_bind_policy op_bind_lift
    by (simp add: current_at_Ok seven(1)) (rule op_mono[OF upd], auto simp: step_keeps_def seven(2))
next
  case False
  have "guarded_io (charge_ok (Some o') (target_index p)) (update (logged io) MISC JEITA_VSET JEITA_VSET (sink_safe (logged io) o'))"
    by (rule sink_update_spec(2)) (auto simp: MISC_def INPUT_def)
  note upd = guarded_on_snd[OF this]
  show ?thesis
    unfolding begin_source_def if_not_P[OF False] op_when
    by (auto simp: step_keeps_def all_writes_quiet intro!: op_mono[OF upd])
qed

definition charged :: "ChargePolicy \<Rightarrow> bool" where
  "charged p \<longleftrightarrow>
     target_index p \<le> 7
     \<and> (charge_phase (charge_status p) = Ramping \<longrightarrow>
          applied_index p < target_index p \<and> charge_side p \<noteq> None
          \<and> applied_ma (charge_status p) = CURRENT_MA ! unat (applied_index p))
     \<and> (charge_phase (charge_status p) = ChargeComplete \<longrightarrow>
          applied_index p = target_index p \<and> applied_ma (charge_status p) = CURRENT_MA ! unat (applied_index p))"

definition charge_post :: "ChargePolicy \<Rightarrow> (reason, unit) outcome \<Rightarrow> ChargePolicy \<Rightarrow> history \<Rightarrow> bool" where
  "charge_post p r p' l \<longleftrightarrow>
     r \<noteq> Panic \<and> target_index p' \<le> target_index p \<and> all_writes (charge_ok (charge_side p') (target_index p')) l
     \<and> (r = Ok () \<longrightarrow> charged p')"

lemma charge_post_later: "charge_post p r p' l \<Longrightarrow> writes l0 = [] \<Longrightarrow> charge_post p r p' (l0 @ l)"
  by (auto simp: charge_post_def intro: all_writes_later charge_ok_suffixed)

lemma begin_input_post:
  assumes "charge_side p = Some o'" "target_index p \<le> 7" "target_index p \<le> target_index p0"
    and "all_writes (charge_ok (Some o') (target_index p)) l0"
  shows "op_spec (act_bind (change (\<lambda>p. p\<lparr>applied_index := min (target_index p) 2\<rparr>)) (\<lambda>_.
     act_bind policy (\<lambda>p.
     act_bind (act_on_snd (begin_input (logged io) o' (applied_index p))) (\<lambda>_.
     act_bind (act_lift (current_at (applied_index p))) (\<lambda>ma.
     change (\<lambda>p. p\<lparr>charge_status := (charge_status p)\<lparr>applied_ma := ma,
         charge_phase := if applied_index p = target_index p then ChargeComplete else Ramping\<rparr>,
       due_ns := sat_add now STEP_NS\<rparr>)))))) p (\<lambda>r p' l. charge_post p0 r p' (l0 @ l))"
proof -
  let ?a = "min (target_index p) 2"
  have a: "?a \<le> 2" "?a \<le> target_index p" "?a \<le> 7" using assms(2) by (auto simp: min_def)
  have less: "?a \<noteq> target_index p \<Longrightarrow> ?a < target_index p" by (auto simp: min_def split: if_splits)
  have joined: "all_writes (charge_ok (Some o') (target_index p)) (l0 @ l)"
    if "all_writes (charge_ok (Some o') (target_index p)) l" for l
    using all_writes_append[OF charge_ok_suffixed assms(4) that] .
  show ?thesis
    unfolding op_bind_change op_bind_policy
  proof (rule op_bind[OF guarded_on_snd[OF begin_input_spec[where lim = "target_index p"]]], goal_cases)
    case (3 u p' l)
    then show ?case
      unfolding op_bind_lift using a assms(1,2,3) less joined[of l]
      by (auto simp: current_at_Ok op_rules charge_post_def charged_def)
  next
    case (4 e p' l)
    then show ?case using assms joined[of l] by (auto simp: charge_post_def)
  qed (use a in auto)
qed

lemma begin_charge_spec:
  assumes "target_index p \<le> 7"
  shows "op_spec (begin_charge (logged io) now) p (charge_post p)"
  unfolding begin_charge_def
proof (rule op_bind[OF quiet_on_snd[OF quiet_snapshot]], goal_cases)
  case (1 st p' l1)
  then have l1: "p' = p" "writes l1 = []" by auto
  let ?p1 = "p\<lparr>charge_side := Some (side st)\<rparr>"
  have tail: "op_spec (act_bind (begin_source (logged io) (side st) s) (\<lambda>_.
     act_bind (change (\<lambda>p. p\<lparr>applied_index := min (target_index p) 2\<rparr>)) (\<lambda>_.
     act_bind policy (\<lambda>p.
     act_bind (act_on_snd (begin_input (logged io) (side st) (applied_index p))) (\<lambda>_.
     act_bind (act_lift (current_at (applied_index p))) (\<lambda>ma.
     change (\<lambda>p. p\<lparr>charge_status := (charge_status p)\<lparr>applied_ma := ma,
         charge_phase := if applied_index p = target_index p then ChargeComplete else Ramping\<rparr>,
       due_ns := sat_add now STEP_NS\<rparr>))))))) (?p1\<lparr>charge_status := cs\<rparr>) (charge_post p)" for s cs
  proof (rule op_bind[OF begin_source_spec[where o' = "side st"]], goal_cases)
    case (3 u p3 l3)
    then show ?case
      using assms by (intro begin_input_post) (auto simp: step_keeps_def intro: order_trans)
  next
    case (4 e p3 l3)
    then show ?case by (auto simp: charge_post_def step_keeps_def)
  qed (use assms in auto)
  have refused: "charge_post p (Err e) (p\<lparr>charge_side := x\<rparr>) l" if "writes l = []" for e x l
    using that by (simp add: charge_post_def all_writes_quiet)
  show ?case
  proof (cases "sink st")
    case False
    then show ?thesis using l1 by (simp add: op_rules charge_post_def all_writes_quiet)
  next
    case True
    show ?thesis
    proof (simp add: True op_bind_change l1(1), rule op_bind[OF quiet_on_snd[OF quiet_charger_read]], goal_cases)
      case (1 power p2 l2)
      then have l2: "p2 = ?p1" "writes l2 = []" by auto
      show ?case
      proof (cases "power AND MODE_MASK \<notin> {0, CHARGE_MODE}")
        case True
        then show ?thesis using l1 l2 refused by (auto simp: op_rules)
      next
        case False
        show ?thesis
          unfolding l2(1)
        proof (subst if_not_P, use False in simp, rule op_bind[OF quiet_on_snd[OF quiet_charger_read]], goal_cases)
          case (1 s p3 l3)
          then show ?case
            using l1 l2 by (auto simp: op_bind_change intro!: op_mono[OF tail] charge_post_later)
        qed (use l1 l2 refused in auto)
      qed
    qed (use l1 refused in auto)
  qed
qed (auto simp: charge_post_def all_writes_quiet)

section \<open>Ramping, cancelling and polling\<close>

lemma index_bits:
  assumes "i \<le> 7"
  shows "merged INPUT INPUT_CURRENT_MASK i old AND INPUT_CURRENT_MASK = i"
proof -
  have "unat i \<le> 7" using assms by (simp add: word_le_nat_alt)
  then have "unat i \<in> {0, 1, 2, 3, 4, 5, 6, 7}" by auto
  then have "i = 0 \<or> i = 1 \<or> i = 2 \<or> i = 3 \<or> i = 4 \<or> i = 5 \<or> i = 6 \<or> i = 7"
    by (auto simp: word_unat_eq_iff)
  then have "i AND INPUT_CURRENT_MASK = i" by (auto simp: INPUT_CURRENT_MASK_def)
  then show ?thesis
    using merged_masked[of INPUT INPUT_CURRENT_MASK i old] by (simp add: INPUT_def POWER_def)
qed

lemma ramp_spec:
  assumes "charged p" "charge_phase (charge_status p) = Ramping"
  shows "op_spec (ramp (logged io) now) p (charge_post p)"
proof -
  let ?n = "applied_index p + 1"
  obtain o' where o': "charge_side p = Some o'" using assms by (auto simp: charged_def)
  have le: "applied_index p < target_index p" "target_index p \<le> 7" using assms by (auto simp: charged_def)
  then have n: "?n \<le> target_index p" by (metis inc_le)
  then have seven: "?n \<le> 7" using le(2) by (rule order_trans)
  have "guarded_io (charge_ok (Some o') (target_index p)) (update (logged io) INPUT INPUT_CURRENT_MASK ?n (sink_safe (logged io) o'))"
    by (rule sink_update_spec(2)) (use index_bits[OF seven] n in auto)
  note upd = guarded_on_snd[OF this]
  have done_or_less: "?n \<noteq> target_index p \<Longrightarrow> ?n < target_index p" using n by simp
  show ?thesis
    unfolding ramp_def op_bind_policy o' option.case Let_def
  proof (rule op_bind[OF upd], goal_cases)
    case (1 u p' l)
    then show ?case
      using le o' done_or_less assms(2)
      by (auto simp: op_bind_change op_bind_lift op_rules current_at_Ok[OF seven] set_charge_def charge_post_def charged_def)
  next
    case (2 e p' l)
    then show ?case using o' by (auto simp: charge_post_def)
  qed auto
qed

lemma restore_input_spec:
  "op_spec (restore_input (logged io)) p (\<lambda>r p' l. r \<noteq> Panic \<and> step_keeps p p' \<and> all_writes detached_ok l)"
proof -
  have upd: "op_spec (act_on_snd (update (logged io) r msk bits (detached_safe (logged io)))) p
      (\<lambda>res p' l. p' = p \<and> res \<noteq> Panic \<and> all_writes detached_ok l)" if "r = INPUT \<or> r = MISC" for r msk bits p
    by (rule guarded_on_snd[OF detached_update_spec[OF that]])
  note app = all_writes_append[OF detached_ok_suffixed]
  show ?thesis
    unfolding restore_input_def
  proof (rule op_bind[OF quiet_on_snd[OF quiet_charger_read]], goal_cases)
    case (1 s p1 l1)
    then have l1: "p1 = p" "writes l1 = []" by auto
    show ?case
    proof (cases "s = 0")
      case False
      then show ?thesis using l1 by (simp add: op_rules step_keeps_def all_writes_quiet)
    next
      case True
      show ?thesis
        unfolding op_bind_change
      proof (simp add: True, rule op_bind[OF quiet_on_snd[OF quiet_snapshot]], goal_cases)
        case (1 st p2 l2)
        then have l2: "p2 = p1\<lparr>charge_status := (charge_status p1)\<lparr>charger_status := Some 0\<rparr>\<rparr>" "writes l2 = []" by auto
        show ?case
        proof (cases "fault st = 0 \<longrightarrow> attached st \<or> is_source st \<or> dp_active st")
          case True
          then show ?thesis using l1 l2 by (simp add: op_rules step_keeps_def all_writes_quiet)
        next
          case False
          show ?thesis
            unfolding if_not_P[OF False]
            by (rule op_bind[OF upd], simp, rule op_bind[OF upd], simp, rule op_bind[OF upd], simp)
              (use l1 l2 all_writes_quiet[OF l1(2)] all_writes_quiet[OF l2(2)] in \<open>auto simp: op_change step_keeps_def intro!: app\<close>)
        qed
      qed (use l1 in \<open>auto simp: step_keeps_def all_writes_quiet\<close>)
    qed
  qed (auto simp: step_keeps_def all_writes_quiet)
qed

text \<open>What every step of the policy satisfies.\<close>

definition poll_post :: "ChargePolicy \<Rightarrow> (reason, unit) outcome \<Rightarrow> ChargePolicy \<Rightarrow> history \<Rightarrow> bool" where
  "poll_post p r p' l \<longleftrightarrow>
     r \<noteq> Panic \<and> target_index p' \<le> target_index p \<and> charged p'
     \<and> all_writes (charge_ok (charge_side p') (target_index p')) l"

lemma recorded_spec:
  assumes "op_spec m p (charge_post p)" "charged p"
  shows "op_spec (recorded m) p (poll_post p)"
  unfolding recorded_def
proof (rule op_catch[OF assms(1)], goal_cases)
  case (2 e p' l)
  then show ?case
    using assms(2) by (auto simp: op_rules charge_post_def poll_post_def charged_def set_charge_def intro: order_trans)
qed (auto simp: charge_post_def poll_post_def)

lemma cancel_spec:
  assumes "charged p"
  shows "op_spec (cancel (logged io)) p (poll_post p)"
proof -
  let ?q = "set_charge ChargeIdle p\<lparr>charge_side := None\<rparr>"
  have q: "charged ?q" "target_index ?q = target_index p" using assms by (simp_all add: charged_def set_charge_def)
  have "op_spec (restore_input (logged io)) ?q (charge_post ?q)"
  proof (rule op_mono[OF restore_input_spec])
    fix r :: "(reason, unit) outcome" and p' l
    assume a: "r \<noteq> Panic \<and> step_keeps ?q p' \<and> all_writes detached_ok l"
    have "charged p'"
      using a assms by (auto simp: charged_def step_keeps_def set_charge_def intro: order_trans)
    then show "charge_post ?q r p' l"
      using a detached_ok_charge by (auto simp: charge_post_def step_keeps_def elim: all_writes_mono)
  qed
  from recorded_spec[OF this q(1)] show ?thesis
    unfolding cancel_def op_bind_policy op_if op_bind_change
    using assms q(2) by (auto simp: op_return poll_post_def all_writes_quiet elim!: op_mono)
qed

lemma poll_inactive:
  "\<not> is_active p \<Longrightarrow> op_spec (charge_poll (logged io) ok now) p (\<lambda>r p' l. r = Ok () \<and> p' = p \<and> l = [])"
  "\<not> is_active p \<Longrightarrow> op_spec (cancel (logged io)) p (\<lambda>r p' l. r = Ok () \<and> p' = p \<and> l = [])"
  by (simp_all add: charge_poll_def cancel_def op_rules)

lemma poll_early:
  "is_active p \<Longrightarrow> now < due_ns p
    \<Longrightarrow> op_spec (charge_poll (logged io) True now) p (\<lambda>r p' l. r = Ok () \<and> p' = p \<and> l = [])"
  by (simp add: charge_poll_def op_rules)

lemma charge_poll_spec:
  assumes "charged p"
  shows "op_spec (charge_poll (logged io) ok now) p (poll_post p)"
proof -
  have stay: "poll_post p (Ok ()) p []" using assms by (simp add: poll_post_def all_writes_quiet)
  have ph: "charge_phase (charge_status p) = Ramping"
    if "is_active p" "charge_phase (charge_status p) \<noteq> ChargeComplete" "charge_phase (charge_status p) \<noteq> Waiting"
    using that by (auto simp: is_active_def)
  have start: "op_spec (recorded (begin_charge (logged io) now)) p (poll_post p)"
    by (rule recorded_spec[OF begin_charge_spec assms]) (use assms in \<open>simp add: charged_def\<close>)
  show ?thesis
    unfolding charge_poll_def op_bind_policy op_if op_return
    using stay cancel_spec[OF assms] start recorded_spec[OF ramp_spec[OF assms] assms] ph by auto
qed

section \<open>Runs\<close>

lemma current_index_bound:
  assumes "current_index c = Some i"
  shows "i \<le> 7" "CURRENT_MA ! unat i \<le> c"
proof -
  obtain j where j: "find (\<lambda>i. CURRENT_MA ! i \<le> c) (rev [0..<8]) = Some j" "i = word_of_nat j"
    using assms by (auto simp: current_index_def)
  then obtain k where k: "k < length (rev [0..<8])" "j = rev [0..<8] ! k" "CURRENT_MA ! j \<le> c"
    by (auto simp: find_Some_iff)
  from nth_mem[OF k(1)] have "j < 8" unfolding k(2)[symmetric] by simp
  then have "unat i = j" "CURRENT_MA ! j \<le> c" using j(2) k(3) by (simp_all add: unat_of_nat)
  then show "i \<le> 7" "CURRENT_MA ! unat i \<le> c" using \<open>j < 8\<close> by (simp_all add: word_le_nat_alt)
qed

lemma table_sorted: "i \<le> j \<Longrightarrow> j \<le> 7 \<Longrightarrow> CURRENT_MA ! unat i \<le> CURRENT_MA ! unat (j :: u8)"
proof -
  assume a: "i \<le> j" "j \<le> 7"
  have "sorted CURRENT_MA" by (simp add: CURRENT_MA_def)
  moreover have "unat i \<le> unat j" "unat j < length CURRENT_MA"
    using a by (simp_all add: word_le_nat_alt table_length)
  ultimately show ?thesis by (rule sorted_nth_mono)
qed

text \<open>A run of the policy with the current it was last scheduled for.\<close>

inductive charge_run :: "'w Registers \<Rightarrow> u16 \<Rightarrow> ChargePolicy \<Rightarrow> bool" for io :: "'w Registers" where
  start: "charge_run io 0 default_charge"
| schedule: "charge_run io c0 p \<Longrightarrow> charge_run io c (schedule c now p)"
| poll: "charge_run io c p \<Longrightarrow> charge_poll (logged io) ok now (p, (w, [])) = (r, (p', (w', l))) \<Longrightarrow> charge_run io c p'"
| cancel: "charge_run io c p \<Longrightarrow> cancel (logged io) (p, (w, [])) = (r, (p', (w', l))) \<Longrightarrow> charge_run io c p'"

definition limited :: "u16 \<Rightarrow> ChargePolicy \<Rightarrow> bool" where
  "limited c p \<longleftrightarrow> charged p \<and> (is_active p \<longrightarrow> CURRENT_MA ! unat (target_index p) \<le> c)"

lemma limited_later:
  assumes "limited c p" "poll_post p r p' l" "is_active p' \<Longrightarrow> is_active p"
  shows "limited c p'"
proof -
  have "CURRENT_MA ! unat (target_index p') \<le> CURRENT_MA ! unat (target_index p)"
    using assms(1,2) by (intro table_sorted) (auto simp: limited_def poll_post_def charged_def)
  then show ?thesis using assms by (auto simp: limited_def poll_post_def)
qed

lemma charge_run_limited: "charge_run io c p \<Longrightarrow> limited c p"
proof (induction rule: charge_run.induct)
  case start
  show ?case
    by (simp add: limited_def charged_def default_charge_def default_charge_status_def is_active_def)
next
  case (schedule c0 p c now)
  show ?case
  proof (cases "if c \<le> 3000 then current_index c else None")
    case None
    then show ?thesis
      using schedule.IH by (simp add: schedule_def Let_def limited_def charged_def set_charge_def is_active_def)
  next
    case (Some i)
    then have "current_index c = Some i" by (metis option.distinct(1))
    from current_index_bound[OF this] Some show ?thesis
      by (simp add: schedule_def Let_def limited_def charged_def is_active_def)
  qed
next
  case (poll c p ok now w r p' w' l)
  show ?case
  proof (cases "is_active p")
    case False
    then show ?thesis using wp_result[OF op_specD[OF poll_inactive(1)[OF False]] poll.hyps(2)] poll.IH by simp
  next
    case True
    have "poll_post p r p' l"
      using wp_result[OF op_specD[OF charge_poll_spec] poll.hyps(2)] poll.IH by (simp add: limited_def)
    then show ?thesis using limited_later poll.IH True by blast
  qed
next
  case (cancel c p w r p' w' l)
  show ?case
  proof (cases "is_active p")
    case False
    then show ?thesis using wp_result[OF op_specD[OF poll_inactive(2)[OF False]] cancel.hyps(2)] cancel.IH by simp
  next
    case True
    have "poll_post p r p' l"
      using wp_result[OF op_specD[OF cancel_spec] cancel.hyps(2)] cancel.IH by (simp add: limited_def)
    then show ?thesis using limited_later cancel.IH True by blast
  qed
qed

end
