(* ===== verification/Source_Props.thy ===== *)
theory Source_Props
  imports Port_Source Charge_Props
begin

text \<open>
  The policy that powers an attached device: every write that turns the boost on rests on a stable
  snapshot of a device that asks for power; an error leaves the boost read back as off; a remembered
  fault blocks the boost until the cable was seen detached or turned.
\<close>

section \<open>Evidence\<close>

definition reset_write :: "u8 \<times> u8 \<times> bytes" where
  "reset_write = (BM92T_ADDRESS, COMMAND, to_le_bytes (0x0808 :: u16))"

text \<open>What the policy writes: the boost, and the reset of the controller once the boost is off.\<close>

definition source_ok :: evidence where
  "source_ok l w \<longleftrightarrow> boost_ok l w \<or> w = reset_write \<and> boost_off l"

text \<open>The writes that do not turn the boost on.\<close>

definition withdrawal_ok :: evidence where
  "withdrawal_ok l w \<longleftrightarrow> withdraw_only l w \<or> w = reset_write \<and> boost_off l"

lemma source_ok_suffixed: "suffixed source_ok"
  using boost_ok_suffixed boost_off_append unfolding suffixed_def source_ok_def by blast

lemma withdrawal_ok_suffixed: "suffixed withdrawal_ok"
  using withdraw_only_suffixed boost_off_append unfolding suffixed_def withdrawal_ok_def by blast

lemma withdrawal_source: "withdrawal_ok l w \<Longrightarrow> source_ok l w"
  unfolding withdrawal_ok_def withdraw_only_def source_ok_def boost_ok_def by auto

lemma withdrawals_source: "all_writes withdrawal_ok l \<Longrightarrow> all_writes source_ok l"
  by (erule all_writes_mono) (rule withdrawal_source)

lemma boost_source: "all_writes boost_ok l \<Longrightarrow> all_writes source_ok l"
  by (erule all_writes_mono) (simp add: source_ok_def)

lemmas source_app = all_writes_append[OF source_ok_suffixed]
lemmas withdrawal_app = all_writes_append[OF withdrawal_ok_suffixed]

section \<open>Stopping\<close>

text \<open>The boost is off once \<open>stop\<close> has succeeded.\<close>

definition stop_post :: "SourcePolicy \<Rightarrow> (reason, unit) outcome \<Rightarrow> SourcePolicy \<Rightarrow> history \<Rightarrow> bool" where
  "stop_post p r p' l \<longleftrightarrow>
     r \<noteq> Panic \<and> all_writes withdrawal_ok l \<and> (\<forall>e. r = Err e \<longrightarrow> p' = p)
     \<and> (r = Ok () \<longrightarrow> p' = p\<lparr>saved_power := None\<rparr> \<and> boost_off l)"

lemma stop_post_fault: "stop_post p r p' l \<Longrightarrow> fault_attachment p' = fault_attachment p"
  by (cases r) (auto simp: stop_post_def)

text \<open>Stopping writes the charger only, and never a value that turns the boost on.\<close>

lemma withdraw_app: "all_writes withdraw_only l \<Longrightarrow> all_writes withdraw_only l' \<Longrightarrow> all_writes withdraw_only (l @ l')"
  by (rule all_writes_append[OF withdraw_only_suffixed])

lemma withdraw_withdrawal: "all_writes withdraw_only l \<Longrightarrow> all_writes withdrawal_ok l"
  by (erule all_writes_mono) (simp add: withdrawal_ok_def)

lemma source_stop_only:
  "op_spec (source_stop (logged io)) p (\<lambda>r p' l. all_writes withdraw_only l \<and> stop_post p r p' l)"
  unfolding source_stop_def
proof (rule op_bind[OF op_on_io[OF io_byte_reg[of io CHARGER_POWER, THEN io_mono], where
        Q = "\<lambda>r p' l. p' = p \<and> r \<noteq> Panic \<and> writes l = [] \<and> (\<forall>v. r = Ok v \<longrightarrow> l = [Rd CHARGER_ADDRESS POWER [v]])"]], goal_cases)
  case (2 power p1 l1)
  then have l1: "p1 = p" "writes l1 = []" "l1 = [Rd CHARGER_ADDRESS POWER [power]]" by auto
  have disable: "op_spec (act_on_snd (source_disable (logged io) (saved_power p))) p
      (\<lambda>r p' l. p' = p \<and> r \<noteq> Panic \<and> all_writes withdraw_only l \<and> (r = Ok () \<longrightarrow> boost_off l))"
    by (rule op_on_io[OF io_mono[OF source_disable_spec]]) auto
  show ?case
    unfolding op_bind_policy l1(1)
  proof (cases "saved_power p \<noteq> None \<or> power AND CHARGE_MASK = OTG_MODE")
    case True
    show "op_spec (act_bind (act_when (saved_power p \<noteq> None \<or> power AND CHARGE_MASK = OTG_MODE)
        (act_on_snd (source_disable (logged io) (saved_power p)))) (\<lambda>_. change (\<lambda>p. p\<lparr>saved_power := None\<rparr>)))
        p (\<lambda>r p' l. all_writes withdraw_only (l1 @ l) \<and> stop_post p r p' (l1 @ l))"
      unfolding act_when_def if_P[OF True]
      by (rule op_bind[OF disable])
        (use all_writes_quiet[OF l1(2)] in
          \<open>auto simp: op_change stop_post_def intro: withdraw_app withdraw_withdrawal boost_off_append\<close>)
  next
    case False
    then have "boost_off l1"
      using l1(3) by (auto simp: boost_off_def CHARGE_MASK_def MODE_MASK_def)
    then show "op_spec (act_bind (act_when (saved_power p \<noteq> None \<or> power AND CHARGE_MASK = OTG_MODE)
        (act_on_snd (source_disable (logged io) (saved_power p)))) (\<lambda>_. change (\<lambda>p. p\<lparr>saved_power := None\<rparr>)))
        p (\<lambda>r p' l. all_writes withdraw_only (l1 @ l) \<and> stop_post p r p' (l1 @ l))"
      unfolding act_when_def if_not_P[OF False] op_bind_return
      using l1(2) by (auto simp: op_change stop_post_def all_writes_quiet)
  qed
next
  case (3 e p1 l1)
  then show ?case by (auto simp: stop_post_def all_writes_quiet)
qed (auto simp: CHARGER_POWER_def POWER_def)

lemma source_stop_spec: "op_spec (source_stop (logged io)) p (stop_post p)"
  by (rule op_mono[OF source_stop_only]) simp

section \<open>Observing\<close>

definition observe_post :: "SourcePolicy \<Rightarrow> (ObservationError, PortState) outcome \<Rightarrow> SourcePolicy \<Rightarrow> history \<Rightarrow> bool" where
  "observe_post p r p' l \<longleftrightarrow>
     writes l = [] \<and> r \<noteq> Panic \<and> (\<forall>st. r = Ok st \<longrightarrow> stable st l \<and> p' = p)
     \<and> (\<forall>e. r = Err e \<longrightarrow> p' = p \<or> (\<exists>st. faulted st l \<and> p' = p\<lparr>fault_attachment := attachment st\<rparr>))"

lemma source_observe_spec: "op_spec (source_observe (logged io)) p (observe_post p)"
  unfolding source_observe_def
proof (rule op_catch[OF op_on_io[OF io_mono[OF io_snapshot_checked], where
        Q = "\<lambda>r p' l. p' = p \<and> writes l = [] \<and> r \<noteq> Panic \<and> (\<forall>st. r = Ok st \<longrightarrow> stable st l) \<and> seen_fault r l"]], goal_cases)
  case (3 e p' l)
  then show ?case
    by (cases e) (auto simp: op_rules observe_post_def seen_fault_def)
qed (auto simp: observe_post_def)

text \<open>The cable was seen detached or turned: in a stable snapshot, or in a reading of a fault.\<close>

definition saw :: "Orientation \<Rightarrow> history \<Rightarrow> bool" where
  "saw o' l \<longleftrightarrow> (\<exists>l1 l2 st. l = l1 @ l2 \<and> stable st l1 \<and> elsewhere st o')"

definition saw_fault :: "Orientation \<Rightarrow> history \<Rightarrow> bool" where
  "saw_fault o' l \<longleftrightarrow> (\<exists>l1 l2 st. l = l1 @ l2 \<and> faulted st l1 \<and> elsewhere st o')"

definition held :: "Orientation \<Rightarrow> SourcePolicy \<Rightarrow> history \<Rightarrow> bool" where
  "held o' p l \<longleftrightarrow> fault_attachment p = Some o' \<or> saw_fault o' l"

lemma saw_more: "saw o' l \<Longrightarrow> saw o' (l0 @ l @ l')" "saw o' l \<Longrightarrow> saw o' (l @ l')" "saw o' l \<Longrightarrow> saw o' (l0 @ l)"
proof -
  show all: "saw o' l \<Longrightarrow> saw o' (l0 @ l @ l')" for l0 l'
    unfolding saw_def using stable_append by (metis append.assoc)
  show "saw o' l \<Longrightarrow> saw o' (l @ l')" "saw o' l \<Longrightarrow> saw o' (l0 @ l)"
    using all[of "[]" l'] all[of l0 "[]"] by simp_all
qed

lemma saw_fault_more: "saw_fault o' l \<Longrightarrow> saw_fault o' (l0 @ l @ l')"
  unfolding saw_fault_def using faulted_append by (metis append.assoc)

lemma held_more: "held o' p l \<Longrightarrow> held o' p (l0 @ l)" "held o' p l \<Longrightarrow> held o' p (l @ l')"
  using saw_fault_more[of o' l l0 "[]"] saw_fault_more[of o' l "[]" l'] by (auto simp: held_def)

lemma attachment_elsewhere: "attachment st \<noteq> Some o' \<Longrightarrow> elsewhere st o'"
  by (auto simp: attachment_def elsewhere_def split: if_splits)

text \<open>An observation keeps a remembered fault, or has seen the cable elsewhere.\<close>

lemma observe_held:
  assumes "observe_post p r p' l" "fault_attachment p = Some o'"
  shows "held o' p' l" "r = Ok st \<Longrightarrow> elsewhere st o' \<Longrightarrow> saw o' l"
proof -
  show "held o' p' l"
  proof (cases "p' = p")
    case False
    then obtain st where st: "faulted st l" "p' = p\<lparr>fault_attachment := attachment st\<rparr>"
      using assms(1) by (cases r) (auto simp: observe_post_def)
    show ?thesis
    proof (cases "attachment st = Some o'")
      case False
      then have "saw_fault o' l"
        using st(1) attachment_elsewhere[OF False] unfolding saw_fault_def by (metis append_Nil2)
      then show ?thesis by (simp add: held_def)
    qed (simp add: held_def st(2))
  qed (simp add: held_def assms(2))
  show "r = Ok st \<Longrightarrow> elsewhere st o' \<Longrightarrow> saw o' l"
    using assms(1) unfolding observe_post_def saw_def by (metis append_Nil2)
qed

section \<open>The parts of a poll\<close>

definition first_post :: "SourcePolicy \<Rightarrow> (ObservationError, PortState) outcome \<Rightarrow> SourcePolicy \<Rightarrow> history \<Rightarrow> bool" where
  "first_post p r p' l \<longleftrightarrow>
     writes l = [] \<and> r \<noteq> Panic
     \<and> (\<forall>o'. fault_attachment p = Some o' \<longrightarrow> saw o' l \<or> held o' p' l \<and> (\<forall>st. r = Ok st \<longrightarrow> fault_attachment p' = Some o'))"

lemma source_first_spec: "op_spec (source_first (logged io) prior) p (first_post p)"
proof -
  have seen: "op_spec (act_catch (source_observe (logged io)) (\<lambda>e.
        act_bind policy (\<lambda>p. act_throw (if unresolved_fault p then ObsUnsafe SOURCE_FAULT else e)))) p (observe_post p)"
    by (rule op_catch[OF source_observe_spec]) (auto simp: op_rules observe_post_def)
  show ?thesis
    unfolding source_first_def
  proof (rule op_bind[OF seen], goal_cases)
    case (1 st p1 l1)
    then have l1: "p1 = p" "writes l1 = []" "stable st l1" by (auto simp: observe_post_def)
    have "saw o' l1" if "attachment st \<noteq> Some o'" for o'
      using attachment_elsewhere[OF that] l1(3) unfolding saw_def by (metis append_Nil2)
    then show ?case
      using l1 by (cases prior) (auto simp: act_when_def op_rules first_post_def held_def)
  next
    case (2 e p1 l1)
    then show ?case using observe_held(1)[OF 2] by (auto simp: first_post_def observe_post_def)
  qed (simp add: observe_post_def)
qed

lemma stop_mapped:
  "op_spec (act_map_err ObsUnsafe (source_stop (logged io))) p
    (\<lambda>r p' l. r \<noteq> Panic \<and> all_writes withdrawal_ok l \<and> fault_attachment p' = fault_attachment p
       \<and> (r = Ok () \<longrightarrow> p' = p\<lparr>saved_power := None\<rparr> \<and> boost_off l))"
  by (rule op_map_err, rule op_mono[OF source_stop_spec]) (auto simp: stop_post_def split: outcome.splits)

definition blocked_post :: "SourcePolicy \<Rightarrow> (ObservationError, PortState) outcome \<Rightarrow> SourcePolicy \<Rightarrow> history \<Rightarrow> bool" where
  "blocked_post p r p' l \<longleftrightarrow>
     r \<noteq> Panic \<and> all_writes withdrawal_ok l \<and> (\<forall>st. r = Ok st \<longrightarrow> fault_attachment p' = None)
     \<and> (\<forall>o'. fault_attachment p = Some o' \<longrightarrow> saw o' l \<or> (\<exists>e. r = Err e) \<and> held o' p' l)"

lemma source_blocked_spec: "op_spec (source_blocked (logged io) st) p (blocked_post p)"
proof (cases "fault_attachment p")
  case None
  then show ?thesis by (simp add: source_blocked_def op_rules blocked_post_def all_writes_quiet)
next
  case (Some o')
  have refuse: "op_spec (act_bind (act_map_err ObsUnsafe (source_stop (logged io))) (\<lambda>_. act_throw (ObsUnsafe SOURCE_FAULT))) p
      (\<lambda>r p' l. r \<noteq> Panic \<and> all_writes withdrawal_ok l \<and> (\<exists>e. r = Err e) \<and> fault_attachment p' = Some o')"
    by (rule op_bind[OF stop_mapped]) (use Some in \<open>auto simp: op_rules\<close>)
  show ?thesis
  proof (cases "elsewhere st o'")
    case False
    show ?thesis
      unfolding source_blocked_def op_bind_policy Some option.case if_not_P[OF False] op_bind_return
      by (simp, rule op_mono[OF refuse]) (use Some in \<open>auto simp: blocked_post_def held_def\<close>)
  next
    case True
    show ?thesis
      unfolding source_blocked_def op_bind_policy Some option.case if_P[OF True]
    proof (rule op_bind[where P = "\<lambda>r p' l. writes l = [] \<and> r \<noteq> Panic
        \<and> (\<forall>st. r = Ok st \<longrightarrow> fault_attachment p' = None \<and> saw o' l \<or> p' = p) \<and> (\<forall>e. r = Err e \<longrightarrow> held o' p' l)"],
        rule op_bind[OF source_observe_spec], goal_cases)
      case (1 fresh p1 l1)
      then show ?case
        using observe_held(2)[OF 1 Some refl] by (auto simp: op_rules observe_post_def)
    next
      case (2 e p1 l1)
      then show ?case using observe_held(1)[OF 2 Some] by (simp add: observe_post_def)
    next
      case (4 st' p1 l1)
      then consider "fault_attachment p1 = None" "saw o' l1" | "p1 = p" by auto
      then show ?case
      proof cases
        case 1
        then show ?thesis
          using 4 Some by (simp add: op_rules blocked_post_def all_writes_quiet)
      next
        case 2
        then show ?thesis
          using 4 Some all_writes_later[OF withdrawal_ok_suffixed]
          by (auto simp: op_bind_policy blocked_post_def held_def intro!: op_mono[OF refuse])
      qed
    next
      case (5 e p1 l1)
      then show ?case using Some by (auto simp: blocked_post_def all_writes_quiet)
    qed (auto simp: observe_post_def)
  qed
qed

definition alert_post :: "SourcePolicy \<Rightarrow> (ObservationError, PortState) outcome \<Rightarrow> SourcePolicy \<Rightarrow> history \<Rightarrow> bool" where
  "alert_post p r p' l \<longleftrightarrow>
     r \<noteq> Panic \<and> all_writes withdrawal_ok l \<and> (\<forall>st. r = Ok st \<longrightarrow> p' = p)"

lemma source_faulted_spec: "op_spec (source_faulted (logged io) st alert) p (alert_post p0)"
proof -
  have reset: "io_spec (write_bytes (logged io) BM92T_ADDRESS COMMAND (to_le_bytes (0x0808 :: u16)))
      (\<lambda>r l. r \<noteq> Panic \<and> (\<exists>x. l = [x] \<and> writes [x] = [reset_write]))"
    by (rule io_mono[OF io_write_bytes]) (auto simp: reset_write_def)
  have hard: "op_spec (io_step (write_bytes (logged io) BM92T_ADDRESS COMMAND (to_le_bytes (0x0808 :: u16))) ObsUnsafe) p
      (\<lambda>r p' l. r \<noteq> Panic \<and> (\<exists>x. l = [x] \<and> writes [x] = [reset_write]))" for p :: SourcePolicy
    by (rule op_io_err, rule io_mono[OF reset]) (auto split: outcome.splits)
  have sent: "all_writes withdrawal_ok (l @ [x])" if "all_writes withdrawal_ok l" "boost_off l" "writes [x] = [reset_write]" for l x
    by (rule all_writes_push[OF that(1) _ that(3)]) (simp add: withdrawal_ok_def that(2))
  show ?thesis
    unfolding source_faulted_def op_bind_policy Let_def
  proof (rule op_bind[OF stop_mapped], goal_cases)
    case (1 u p1 l1)
    show ?case
    proof (cases "(is_source st \<or> saved_power p \<noteq> None) \<and> alert AND 2 \<noteq> 0")
      case True
      show ?thesis
        unfolding act_when_def if_P[OF True]
        by (rule op_bind[OF hard]) (use 1 sent[of l1] in \<open>auto simp: op_rules alert_post_def\<close>)
    next
      case False
      show ?thesis
        unfolding act_when_def if_not_P[OF False] op_bind_return
        using 1 by (simp add: op_rules alert_post_def)
    qed
  qed (auto simp: alert_post_def)
qed

lemma source_alert_spec: "op_spec (source_alert (logged io) captured st) p (alert_post p)"
proof -
  have captured: "op_spec (case captured of Some a \<Rightarrow> act_return a | None \<Rightarrow> io_step (word_reg (logged io) 0x02) ObsTransport) p
      (\<lambda>r p' l. p' = p \<and> writes l = [] \<and> r \<noteq> Panic)"
    by (cases captured) (auto simp: op_return intro!: op_io_err io_mono[OF io_word_reg])
  have seen: "op_spec (act_catch (source_observe (logged io)) (\<lambda>e. act_throw (if fault_alert alert then ObsUnsafe SOURCE_FAULT else e))) p
      (\<lambda>r p' l. writes l = [] \<and> r \<noteq> Panic \<and> (\<forall>st. r = Ok st \<longrightarrow> p' = p))" for alert p
    by (rule op_catch[OF source_observe_spec]) (auto simp: op_rules observe_post_def)
  show ?thesis
  proof (cases "is_source st \<or> saved_power p \<noteq> None \<or> (\<exists>a \<in> set_option captured. fault_alert a)")
    case False
    then show ?thesis by (simp add: source_alert_def op_rules alert_post_def all_writes_quiet)
  next
    case True
    show ?thesis
      unfolding source_alert_def op_bind_policy if_P[OF True]
    proof (rule op_bind[OF captured], goal_cases)
      case (1 alert p1 l1)
      then have l1: "p1 = p" "writes l1 = []" by auto
      note later = all_writes_later[OF withdrawal_ok_suffixed _ l1(2)]
      show ?case
      proof (cases "fault_alert alert")
        case True
        show ?thesis
          unfolding act_when_def if_P[OF True] op_bind_change
        proof (rule op_bind[OF seen[where alert = alert, unfolded if_P[OF True]]], goal_cases)
          case (1 st' p2 l2)
          then show ?case
            by (intro op_mono[OF source_faulted_spec[where ?p0.0 = p]])
              (auto simp: alert_post_def intro!: later all_writes_later[OF withdrawal_ok_suffixed])
        qed (use l1 in \<open>auto simp: alert_post_def all_writes_quiet\<close>)
      next
        case False
        show ?thesis
          unfolding act_when_def if_not_P[OF False] op_bind_return
          by (rule op_bind[OF seen[where alert = alert, unfolded if_not_P[OF False]]])
            (use l1 in \<open>auto simp: op_rules alert_post_def all_writes_quiet\<close>)
      qed
    qed (auto simp: alert_post_def all_writes_quiet)
  qed
qed

text \<open>A successful poll has seen the port stable; the boost is off unless a device asks for power.\<close>

definition settled_boost :: "PortState \<Rightarrow> SourcePolicy \<Rightarrow> history \<Rightarrow> bool" where
  "settled_boost st p l \<longleftrightarrow>
     (\<exists>l1 l2. l = l1 @ l2 \<and> stable st l1
        \<and> (if can_source st then l2 = [] else boost_off l2 \<and> saved_power p = None \<and> all_writes withdrawal_ok l2))"

lemma settled_boost_append: "settled_boost st p l \<Longrightarrow> settled_boost st p (l' @ l)"
  unfolding settled_boost_def using stable_append by (metis append.assoc)

definition finish_post :: "SourcePolicy \<Rightarrow> (ObservationError, PortState) outcome \<Rightarrow> SourcePolicy \<Rightarrow> history \<Rightarrow> bool" where
  "finish_post p r p' l \<longleftrightarrow>
     r \<noteq> Panic \<and> all_writes source_ok l
     \<and> (\<forall>st. r = Ok st \<longrightarrow> fault_attachment p' = fault_attachment p \<and> settled_boost st p' l)"

lemma source_apply_spec:
  "op_spec (source_apply (logged io) st) p
    (\<lambda>r p' l. r \<noteq> Panic \<and> all_writes source_ok l \<and> fault_attachment p' = fault_attachment p)"
proof (cases "can_source st")
  case False
  then show ?thesis
    unfolding source_apply_def
    by simp (rule op_mono[OF source_stop_spec], auto simp: stop_post_fault, auto simp: stop_post_def intro: withdrawals_source)
next
  case True
  have save: "op_spec (save_power (logged io)) p
      (\<lambda>r p' l. r \<noteq> Panic \<and> writes l = [] \<and> fault_attachment p' = fault_attachment p)"
    unfolding save_power_def op_bind_policy op_when
    by (auto intro!: op_bind[OF op_on_io[OF io_byte_reg[THEN io_mono], where
            Q = "\<lambda>r p' l. p' = p \<and> r \<noteq> Panic \<and> writes l = []"]] simp: op_rules Let_def)
  have enable: "op_spec (act_on_snd (source_enable (logged io))) p (\<lambda>r p' l. p' = p \<and> r \<noteq> Panic \<and> all_writes source_ok l)" for p :: SourcePolicy
    by (rule op_on_io[OF io_mono[OF source_enable_spec]]) (auto intro: boost_source)
  show ?thesis
    unfolding source_apply_def using True
    by simp (rule op_bind[OF save], auto simp: all_writes_quiet intro!: op_mono[OF enable] all_writes_later[OF source_ok_suffixed])
qed

lemma source_finish_spec: "op_spec (source_finish (logged io) st) p (finish_post p)"
proof -
  have applied: "op_spec (act_map_err ObsUnsafe (source_apply (logged io) st)) p
      (\<lambda>r p' l. r \<noteq> Panic \<and> all_writes source_ok l \<and> fault_attachment p' = fault_attachment p)"
    by (rule op_map_err, rule op_mono[OF source_apply_spec]) (auto split: outcome.splits)
  show ?thesis
    unfolding source_finish_def
  proof (rule op_bind[OF applied], goal_cases)
    case (1 u p1 l1)
    show ?case
    proof (rule op_bind[OF source_observe_spec], goal_cases)
      case (1 st' p2 l2)
      then have l2: "p2 = p1" "writes l2 = []" "stable st' (l1 @ l2)" by (auto simp: observe_post_def stable_append)
      have w: "all_writes source_ok (l1 @ l2)"
        using \<open>Ok u \<noteq> Panic \<and> _\<close> l2(2) by (auto intro: source_app all_writes_quiet)
      show ?case
      proof (cases "can_source st'")
        case True
        have "settled_boost st' p1 (l1 @ l2)"
          using l2(3) True unfolding settled_boost_def by (metis append_Nil2)
        then show ?thesis
          unfolding act_when_def using True w l2(1) \<open>Ok u \<noteq> Panic \<and> _\<close> by (simp add: op_rules finish_post_def)
      next
        case False
        show ?thesis
          unfolding act_when_def using False
        proof (simp, intro op_bind[OF stop_mapped], goal_cases)
          case (1 u' p3 l3)
          then have "settled_boost st' p3 ((l1 @ l2) @ l3)"
            using l2(3) False unfolding settled_boost_def by (intro exI[of _ "l1 @ l2"] exI[of _ l3]) auto
          then show ?case
            using 1 w l2(1) \<open>Ok u \<noteq> Panic \<and> _\<close> source_app[OF w withdrawals_source, of l3]
            by (simp add: op_rules finish_post_def)
        next
          case (2 e p3 l3)
          then show ?case using w source_app[OF w withdrawals_source, of l3] by (simp add: finish_post_def)
        qed auto
      qed
    next
      case (2 e p2 l2)
      then show ?case
        using \<open>Ok u \<noteq> Panic \<and> _\<close> by (auto simp: finish_post_def observe_post_def intro: source_app all_writes_quiet)
    qed (auto simp: observe_post_def)
  qed (auto simp: finish_post_def)
qed

section \<open>A poll\<close>

definition latch :: "SourcePolicy \<Rightarrow> (ObservationError, 'a) outcome \<Rightarrow> SourcePolicy \<Rightarrow> history \<Rightarrow> bool" where
  "latch p r p' l \<longleftrightarrow>
     (\<forall>o'. fault_attachment p = Some o' \<longrightarrow>
        saw o' l \<or> (\<exists>e. r = Err e) \<and> all_writes withdrawal_ok l \<and> held o' p' l)"

definition turn_post :: "SourcePolicy \<Rightarrow> (ObservationError, PortState) outcome \<Rightarrow> SourcePolicy \<Rightarrow> history \<Rightarrow> bool" where
  "turn_post p r p' l \<longleftrightarrow>
     r \<noteq> Panic \<and> all_writes source_ok l \<and> latch p r p' l
     \<and> (\<forall>st. r = Ok st \<longrightarrow> fault_attachment p' = None \<and> settled_boost st p' l)"

lemma latch_saw: "(\<And>o'. fault_attachment p = Some o' \<Longrightarrow> saw o' l) \<Longrightarrow> latch p r p' (l0 @ l @ l')"
  unfolding latch_def using saw_more(1) by blast

lemma source_turn_spec: "op_spec (source_turn (logged io) captured prior) p (turn_post p)"
  unfolding source_turn_def
proof (rule op_bind[OF source_first_spec], goal_cases)
  case (1 st p1 l1)
  then have l1: "writes l1 = []" "\<And>o'. fault_attachment p = Some o' \<Longrightarrow> saw o' l1 \<or> fault_attachment p1 = Some o'"
    by (auto simp: first_post_def)
  show ?case
  proof (rule op_bind[OF source_blocked_spec], goal_cases)
    case (1 st2 p2 l2)
    then have l2: "all_writes withdrawal_ok l2" "fault_attachment p2 = None"
      "\<And>o'. fault_attachment p1 = Some o' \<Longrightarrow> saw o' l2"
      by (auto simp: blocked_post_def)
    have seen: "saw o' (l1 @ l2)" if "fault_attachment p = Some o'" for o'
      using l1(2)[OF that] l2(3)[of o'] saw_more by blast
    have w: "all_writes withdrawal_ok (l1 @ l2)"
      using l2(1) l1(1) by (rule all_writes_later[OF withdrawal_ok_suffixed])
    show ?case
    proof (rule op_bind[OF source_alert_spec], goal_cases)
      case (1 st3 p3 l3)
      then have l3: "p3 = p2" "all_writes withdrawal_ok ((l1 @ l2) @ l3)"
        using withdrawal_app[OF w] by (auto simp: alert_post_def)
      have "op_spec (source_finish (logged io) st3) p2 (\<lambda>r p' l. turn_post p r p' (((l1 @ l2) @ l3) @ l))"
      proof (rule op_mono[OF source_finish_spec])
        fix r :: "(ObservationError, PortState) outcome" and p' l
        assume f: "finish_post p2 r p' l"
        have "latch p r p' (((l1 @ l2) @ l3) @ l)"
          using latch_saw[of p "l1 @ l2" r p' "[]" "l3 @ l"] seen by simp
        then show "turn_post p r p' (((l1 @ l2) @ l3) @ l)"
          using f l2(2) source_app[OF withdrawals_source[OF l3(2)]] settled_boost_append
          unfolding turn_post_def finish_post_def by metis
      qed
      then show ?case using l3(1) by simp
    next
      case (2 e p3 l3)
      then have "all_writes withdrawal_ok ((l1 @ l2) @ l3)"
        using withdrawal_app[OF w] by (auto simp: alert_post_def)
      moreover have "latch p (Err e :: (ObservationError, PortState) outcome) p3 ((l1 @ l2) @ l3)"
        using latch_saw[of p "l1 @ l2" "Err e" p3 "[]" l3] seen by simp
      ultimately show ?case by (simp add: turn_post_def withdrawals_source)
    qed (simp add: alert_post_def)
  next
    case (2 e p2 l2)
    then have w: "all_writes withdrawal_ok (l1 @ l2)"
      using l1(1) all_writes_later[OF withdrawal_ok_suffixed] by (auto simp: blocked_post_def)
    have "saw o' (l1 @ l2) \<or> held o' p2 (l1 @ l2)" if "fault_attachment p = Some o'" for o'
      using l1(2)[OF that] 2 saw_more(2)[of o' l1 l2] saw_more(3)[of o' l2 l1] held_more(1)[of o' p2 l2 l1]
      by (auto simp: blocked_post_def)
    then show ?case using w withdrawals_source[OF w] by (auto simp: turn_post_def latch_def)
  qed (simp add: blocked_post_def)
next
  case (2 e p1 l1)
  then show ?case by (auto simp: turn_post_def latch_def first_post_def all_writes_quiet)
qed (simp add: first_post_def)

definition source_post :: "SourcePolicy \<Rightarrow> (ObservationError, PortState) outcome \<Rightarrow> SourcePolicy \<Rightarrow> history \<Rightarrow> bool" where
  "source_post p r p' l \<longleftrightarrow>
     turn_post p r p' l \<and> (\<forall>e. r = Err e \<longrightarrow> e = ObsUnsafe SHUTDOWN_FAILED \<or> boost_off l \<and> saved_power p' = None)"

lemma source_poll_spec: "op_spec (source_poll (logged io) captured) p (source_post p)"
  unfolding source_poll_def op_bind_policy op_bind_change
proof (rule op_catch[OF source_turn_spec], goal_cases)
  case (1 a p1 l1)
  then show ?case by (simp add: source_post_def turn_post_def latch_def)
next
  case (2 e p1 l1)
  then have t: "turn_post p (Err e) p1 l1"
    by (simp add: turn_post_def latch_def)
  have stop: "op_spec (act_try (source_stop (logged io))) p1
      (\<lambda>r p' l. r \<noteq> Panic \<and> (\<forall>e. r \<noteq> Err e) \<and> all_writes withdrawal_ok l \<and> fault_attachment p' = fault_attachment p1
        \<and> (\<forall>u. r = Ok (Inr u) \<longrightarrow> boost_off l \<and> saved_power p' = None))"
    by (rule op_try, rule op_mono[OF source_stop_spec]) (auto simp: stop_post_def split: outcome.splits)
  have failed: "turn_post p (Err e') p2 (l1 @ l2)"
    if "all_writes withdrawal_ok l2" "fault_attachment p2 = fault_attachment p1" for e' p2 l2
    using t that source_app[OF _ withdrawals_source] withdrawal_app saw_more(2) held_more(2)
    by (fastforce simp: turn_post_def latch_def held_def)
  show ?case
  proof (rule op_bind[OF stop], goal_cases)
    case (1 x p2 l2)
    then show ?case
      using failed[of l2 p2] boost_off_append[of l2 l1]
      by (cases x) (auto simp: op_rules source_post_def)
  qed auto
qed (simp add: turn_post_def)

end
