(* ===== verification/Init_Props.thy ===== *)
theory Init_Props
  imports Source_Props
begin

text \<open>
  The initialization of the controller: the phases it passes, what it writes, and what it has read back
  when it enters a phase.
\<close>

text \<open>The messages of the initialization: three configuration registers, and the system reset.\<close>

definition init_write :: "u8 \<times> u8 \<times> bytes \<Rightarrow> bool" where
  "init_write w \<longleftrightarrow>
     (\<exists>r d. w = (BM92T_ADDRESS, r, d)
        \<and> (r \<in> {CONFIG1, VENDOR_CONFIG, DP_ALERT_ENABLE} \<and> length d = 2 \<or> r = COMMAND \<and> d = to_le_bytes (0x0d0d :: u16)))"

definition init_writes :: "history \<Rightarrow> bool" where
  "init_writes l \<longleftrightarrow> (\<forall>w \<in> set (writes l). init_write w)"

lemma init_writes_append [simp]: "init_writes (l @ l') \<longleftrightarrow> init_writes l \<and> init_writes l'"
  by (auto simp: init_writes_def)

lemma init_writes_Word [simp]: "init_writes (Word r v # l) \<longleftrightarrow> init_writes l"
  by (simp add: init_writes_def)

lemma init_writes_quiet: "writes l = [] \<Longrightarrow> init_writes l"
  by (simp add: init_writes_def)

text \<open>The history ends with a read of a controller register that shows the bits of the mask as \<open>b\<close>.\<close>

definition word_back :: "u8 \<Rightarrow> u16 \<Rightarrow> u16 \<Rightarrow> history \<Rightarrow> bool" where
  "word_back r msk b l \<longleftrightarrow> (\<exists>pre v. l = pre @ [Word r v] \<and> v AND msk = b)"

lemma update_word_spec:
  assumes "r \<in> {CONFIG1, VENDOR_CONFIG}"
  shows "io_spec (update_word (logged io) r msk bits)
    (\<lambda>res l. res \<noteq> Panic \<and> init_writes l \<and> (res = Ok () \<longrightarrow> word_back r msk (bits AND msk) l))"
  unfolding update_word_def
proof (rule io_bind[OF io_word_reg], goal_cases)
  case (1 old l)
  then have l: "l = [Word r old]" by auto
  let ?new = "(old AND NOT msk) OR (bits AND msk)"
  have masked: "?new AND msk = bits AND msk" by (rule bit_word_eqI) (auto simp: bit_simps)
  show ?case
  proof (cases "?new = old")
    case True
    then have "old AND msk = bits AND msk" using masked by simp
    then show ?thesis
      using True l by (auto simp: Let_def io_when word_back_def init_writes_def)
  next
    case False
    have "io_spec (act_bind (write_bytes (logged io) BM92T_ADDRESS r (to_le_bytes ?new)) (\<lambda>_.
        act_bind (word_reg (logged io) r) (\<lambda>b. act_when (b AND msk \<noteq> ?new AND msk) (act_throw NOT_LATCHED))))
        (\<lambda>res l'. res \<noteq> Panic \<and> init_writes (l @ l') \<and> (res = Ok () \<longrightarrow> word_back r msk (bits AND msk) (l @ l')))"
    proof (rule io_bind[OF io_write_bytes], goal_cases)
      case (1 u lw)
      then have lw: "writes lw = [(BM92T_ADDRESS, r, to_le_bytes ?new)]" by auto
      have w: "init_writes (l @ lw)" using lw l assms by (auto simp: init_writes_def init_write_def)
      show ?case
      proof (rule io_bind[OF io_word_reg], goal_cases)
        case (1 b lb)
        then have lb: "lb = [Word r b]" by auto
        have "init_writes lb" by (simp add: lb init_writes_def)
        then show ?case
          using w lb masked by (auto simp: io_rules word_back_def)
      next
        case (2 e lb)
        then show ?case using w by (auto simp: init_writes_def)
      qed auto
    next
      case (2 e lw)
      then show ?case using l assms by (auto simp: init_writes_def init_write_def)
    qed auto
    then show ?thesis using False by (simp add: io_when Let_def)
  qed
next
  case (2 e l)
  then show ?case by (auto simp: init_writes_def)
qed auto

text \<open>The controller's source paths are on, its overcurrent guard is on and its DisplayPort alerts are off.\<close>

definition configured :: "history \<Rightarrow> bool" where
  "configured l \<longleftrightarrow>
     (\<exists>l1 l2 v c. l = l1 @ [Word VENDOR_CONFIG v] @ l2
          @ [Word CONFIG1 c, Wr BM92T_ADDRESS DP_ALERT_ENABLE (to_le_bytes (0 :: u16))]
        \<and> v AND push_bit 2 1 = 0 \<and> c AND push_bit 14 3 = 0)"

lemma configured_append: "configured l \<Longrightarrow> configured (l' @ l)"
  unfolding configured_def by (metis append.assoc)

lemma prepare_spec:
  "io_spec (prepare_controller (logged io))
    (\<lambda>res l. res \<noteq> Panic \<and> init_writes l \<and> (res = Ok () \<longrightarrow>
       (\<exists>l1 l2 v c. l = l1 @ [Word VENDOR_CONFIG v] @ l2 @ [Word CONFIG1 c] \<and> v AND push_bit 2 1 = 0 \<and> c AND push_bit 14 3 = 0)))"
  unfolding prepare_controller_def
proof (rule io_bind[OF update_word_spec], simp, goal_cases)
  case (1 u l1)
  then obtain pre v where v: "l1 = pre @ [Word VENDOR_CONFIG v]" "v AND push_bit 2 1 = 0" "init_writes l1"
    by (auto simp: word_back_def)
  show ?case
  proof (rule io_mono[OF update_word_spec], simp, intro conjI impI, goal_cases)
    case (3 res l2)
    then obtain pre2 c where "l2 = pre2 @ [Word CONFIG1 c]" "c AND push_bit 14 3 = 0"
      by (auto simp: word_back_def)
    then show ?case using v by (intro exI[of _ pre] exI[of _ pre2] exI[of _ v] exI[of _ c]) auto
  qed (use v in auto)
qed auto

section \<open>Phases\<close>

text \<open>The steps of the sequence, with what was read or written when a phase is entered.\<close>

definition system_reset :: "u8 \<times> u8 \<times> bytes" where
  "system_reset = (BM92T_ADDRESS, COMMAND, to_le_bytes (0x0d0d :: u16))"

text \<open>A state of the port that a snapshot returns: a stable one, or one that shows a fault.\<close>

definition shown :: "PortState \<Rightarrow> history \<Rightarrow> bool" where
  "shown st l \<longleftrightarrow> stable st l \<or> faulted st l"

definition needs_reset :: "PortState \<Rightarrow> bool" where
  "needs_reset st \<longleftrightarrow>
     attached st \<and> (data_role st = Host \<or> dp_status st AND push_bit 15 1 \<noteq> 0 \<or> drop_bit 4 (status1 st) AND 7 \<noteq> 0)"

text \<open>A deadline 100 ms after a time the clock gave.\<close>

definition waits :: "'w Registers \<Rightarrow> u64 \<Rightarrow> ControllerInit \<Rightarrow> bool" where
  "waits io now i \<longleftrightarrow> (\<exists>w t w'. io_clock io w now = (t, w') \<and> init_deadline i = sat_add t 100000000)"

definition entered :: "'w Registers \<Rightarrow> u64 \<Rightarrow> ControllerInit \<Rightarrow> ControllerInit \<Rightarrow> history \<Rightarrow> bool" where
  "entered io now i i' l \<longleftrightarrow>
     (case (init_phase i, init_phase i') of
        (Begin, WaitStart) \<Rightarrow> waits io now i' \<and> word_back CONFIG1 (push_bit 14 3) (push_bit 14 3) l
      | (WaitStart, WaitReset) \<Rightarrow> waits io now i'
          \<and> (\<exists>l1 l2 st. l = l1 @ l2 \<and> writes l1 = [] \<and> shown st l1 \<and> needs_reset st \<and> writes l2 = [system_reset])
      | (WaitStart, WaitSettle) \<Rightarrow> waits io now i'
          \<and> (\<exists>l1 l2 st. l = l1 @ l2 \<and> writes l1 = [] \<and> shown st l1 \<and> \<not> needs_reset st \<and> configured l2)
      | (WaitReset, WaitSettle) \<Rightarrow> waits io now i'
          \<and> (\<exists>alert l1 l2 st. l = Word 0x02 alert # l1 @ l2 \<and> drained_alert i' = Some alert \<and> alert AND 3 = 0
               \<and> writes l1 = [] \<and> stable st l1 \<and> \<not> command_busy st \<and> drop_bit 4 (status1 st) AND 7 = 0 \<and> configured l2)
      | (WaitSettle, Ready) \<Rightarrow> l = []
      | _ \<Rightarrow> False)"

lemma op_clock_rule:
  assumes "\<And>t w w'. io_clock io w now = (t, w') \<Longrightarrow> op_spec (f t) p Q"
  shows "op_spec (act_bind (act_on_snd (post_io_time (logged io) now)) f) p Q"
  using assms unfolding op_spec_def wp_simps
  by (intro allI) (auto simp: wp_def[of "post_io_time _ _"] post_io_time_def logged_def split: prod.splits)

lemma init_wait_spec:
  "op_spec (init_wait (logged io) ph now) i
     (\<lambda>r i' l. r = Ok () \<and> l = [] \<and> init_phase i' = ph \<and> waits io now i' \<and> drained_alert i' = drained_alert i)"
  unfolding init_wait_def op_bind_change
  by (rule op_clock_rule) (auto simp: op_change waits_def)

definition configure_post ::
    "'w Registers \<Rightarrow> u64 \<Rightarrow> ControllerInit \<Rightarrow> (reason, unit) outcome \<Rightarrow> ControllerInit \<Rightarrow> history \<Rightarrow> bool" where
  "configure_post io now i r i' l \<longleftrightarrow>
     r \<noteq> Panic \<and> init_writes l
     \<and> (r = Ok () \<longrightarrow> init_phase i' = WaitSettle \<and> waits io now i' \<and> drained_alert i' = drained_alert i \<and> configured l)"

lemma configure_spec: "op_spec (configure (logged io) now) i (configure_post io now i)"
  unfolding configure_def
proof (rule op_bind[OF op_on_io[OF io_mono[OF prepare_spec], where
      Q = "\<lambda>res i' l. i' = i \<and> res \<noteq> Panic \<and> init_writes l \<and> (res = Ok () \<longrightarrow>
       (\<exists>l1 l2 v c. l = l1 @ [Word VENDOR_CONFIG v] @ l2 @ [Word CONFIG1 c] \<and> v AND push_bit 2 1 = 0 \<and> c AND push_bit 14 3 = 0))"]], goal_cases)
  case (2 u i1 l1)
  then have l1: "i1 = i" "init_writes l1" by auto
  obtain a b v c where l: "l1 = a @ [Word VENDOR_CONFIG v] @ b @ [Word CONFIG1 c]" "v AND push_bit 2 1 = 0" "c AND push_bit 14 3 = 0"
    using 2 by auto
  let ?w = "write_bytes (logged io) BM92T_ADDRESS DP_ALERT_ENABLE (to_le_bytes (0 :: u16))"
  have wrote: "op_spec (act_on_snd ?w) i (\<lambda>r i' l. i' = i \<and> r \<noteq> Panic \<and> init_writes l
      \<and> (r = Ok () \<longrightarrow> l = [Wr BM92T_ADDRESS DP_ALERT_ENABLE (to_le_bytes (0 :: u16))]))"
    by (rule op_on_io[OF io_mono[OF io_write_bytes]]) (auto simp: init_writes_def init_write_def)
  show ?case
    unfolding l1(1)
  proof (rule op_bind[OF wrote], goal_cases)
    case (1 u2 i2 l2)
    then have "configured (l1 @ l2)" unfolding l(1) configured_def using l(2,3) by auto
    then show ?case
      using 1 l1(2) by (intro op_mono[OF init_wait_spec]) (auto simp: configure_post_def)
  qed (use l1 in \<open>auto simp: configure_post_def\<close>)
qed (auto simp: configure_post_def)

definition start_post ::
    "'w Registers \<Rightarrow> u64 \<Rightarrow> ControllerInit \<Rightarrow> (reason, unit) outcome \<Rightarrow> ControllerInit \<Rightarrow> history \<Rightarrow> bool" where
  "start_post io now i r i' l \<longleftrightarrow>
     r \<noteq> Panic \<and> init_writes l \<and> (r = Ok () \<longrightarrow> entered io now i i' l)"

lemma quiet_shown:
  "op_spec (act_on_snd (snapshot (logged io))) i
     (\<lambda>r i' l. i' = i \<and> r \<noteq> Panic \<and> writes l = [] \<and> (\<forall>st. r = Ok st \<longrightarrow> shown st l \<and> (fault st = 0 \<longrightarrow> stable st l)))"
  by (rule op_on_io[OF io_mono[OF io_snapshot]]) (auto simp: shown_def)

lemma init_start_spec:
  assumes "init_phase i = WaitStart"
  shows "op_spec (init_start (logged io) now) i (start_post io now i)"
  unfolding init_start_def needs_reset_def[symmetric]
proof (rule op_bind[OF quiet_shown], goal_cases)
  case (1 st i1 l1)
  then have l1: "i1 = i" "writes l1 = []" "shown st l1" by auto
  show ?case
  proof (cases "needs_reset st")
    case True
    have wrote: "op_spec (act_on_snd (write_bytes (logged io) BM92T_ADDRESS COMMAND (to_le_bytes (0x0d0d :: u16)))) i
        (\<lambda>r i' l. i' = i \<and> r \<noteq> Panic \<and> writes l = [system_reset])"
      by (rule op_on_io[OF io_mono[OF io_write_bytes]]) (auto simp: system_reset_def)
    have "init_writes l" if "writes l = [system_reset]" for l
      using that by (simp add: init_writes_def init_write_def system_reset_def)
    then show ?thesis
      unfolding if_P[OF True] l1(1)
      by (intro op_bind[OF wrote] op_mono[OF init_wait_spec])
        (use l1(2,3) True assms in \<open>auto simp: start_post_def entered_def init_writes_quiet\<close>)
  next
    case False
    show ?thesis
      unfolding if_not_P[OF False]
      by (rule op_mono[OF configure_spec])
        (use l1 False assms in \<open>auto simp: configure_post_def start_post_def entered_def init_writes_quiet\<close>)
  qed
qed (auto simp: start_post_def init_writes_quiet)

lemma init_reset_spec:
  assumes "init_phase i = WaitReset"
  shows "op_spec (init_reset (logged io) now) i (start_post io now i)"
  unfolding init_reset_def
proof (rule op_bind[OF op_on_io[OF io_mono[OF io_word_reg], where
      Q = "\<lambda>r i' l. i' = i \<and> r \<noteq> Panic \<and> writes l = [] \<and> (\<forall>v. r = Ok v \<longrightarrow> l = [Word 0x02 v])"]], goal_cases)
  case (2 alert i1 l1)
  then have l1: "i1 = i" "writes l1 = []" "l1 = [Word 0x02 alert]" by auto
  show ?case
  proof (cases "fault_alert alert")
    case True
    then show ?thesis using l1 by (simp add: op_rules start_post_def init_writes_quiet)
  next
    case False
    then have clean: "alert AND 3 = 0" by (simp add: fault_alert_def)
    show ?thesis
      unfolding op_bind_change if_not_P[OF False]
    proof (rule op_bind[OF quiet_shown], goal_cases)
      case (1 st i2 l2)
      show ?case
      proof (cases "command_busy st \<or> fault st \<noteq> 0 \<or> drop_bit 4 (status1 st) AND 7 \<noteq> 0")
        case True
        then show ?thesis using 1 l1(2) by (auto simp: op_rules start_post_def init_writes_quiet)
      next
        case False
        then have st: "stable st l2" "\<not> command_busy st" "drop_bit 4 (status1 st) AND 7 = 0" "writes l2 = []" using 1 by auto
        have "entered io now i i' (l1 @ l2 @ l3)"
          if "init_phase i' = WaitSettle" "waits io now i'" "drained_alert i' = Some alert" "configured l3" for i' l3
          using that assms clean st l1(3) unfolding entered_def by auto
        then show ?thesis
          unfolding if_not_P[OF False] using 1 l1
          by (intro op_mono[OF configure_spec]) (auto simp: configure_post_def start_post_def init_writes_quiet)
      qed
    qed (use l1(1,2) in \<open>auto simp: start_post_def init_writes_quiet\<close>)
  qed
qed (auto simp: start_post_def init_writes_quiet)

definition step_post' ::
    "'w Registers \<Rightarrow> u64 \<Rightarrow> ControllerInit \<Rightarrow> (reason, unit) outcome \<Rightarrow> ControllerInit \<Rightarrow> history \<Rightarrow> bool" where
  "step_post' io now i r i' l \<longleftrightarrow>
     (case init_phase i of
        Ready \<Rightarrow> r = Ok () \<and> i' = i \<and> l = []
      | InitFailed e \<Rightarrow> r = Err e \<and> i' = i \<and> l = []
      | ph \<Rightarrow> ph \<noteq> Begin \<and> now < init_deadline i \<and> r = Ok () \<and> i' = i \<and> l = []
          \<or> (ph = Begin \<or> init_deadline i \<le> now) \<and> start_post io now i r i' l)"

lemma init_step_spec: "op_spec (init_step (logged io) now) i (step_post' io now i)"
proof (cases "init_phase i")
  case Begin
  have off: "op_spec (act_on_snd (update_word (logged io) CONFIG1 (push_bit 14 3) (push_bit 14 3))) i
      (\<lambda>r i' l. i' = i \<and> r \<noteq> Panic \<and> init_writes l \<and> (r = Ok () \<longrightarrow> word_back CONFIG1 (push_bit 14 3) (push_bit 14 3) l))"
    by (rule op_on_io[OF io_mono[OF update_word_spec]]) auto
  show ?thesis
    unfolding init_step_def op_bind_policy Begin InitPhase.case
    by (intro op_bind[OF off] op_mono[OF init_wait_spec])
      (use Begin in \<open>auto simp: step_post'_def start_post_def entered_def\<close>)
next
  case WaitStart
  show ?thesis
    unfolding init_step_def op_bind_policy WaitStart InitPhase.case op_when
    using WaitStart by (auto simp: step_post'_def not_le intro!: op_mono[OF init_start_spec])
next
  case WaitReset
  show ?thesis
    unfolding init_step_def op_bind_policy WaitReset InitPhase.case op_when
    using WaitReset by (auto simp: step_post'_def not_le intro!: op_mono[OF init_reset_spec])
next
  case WaitSettle
  then show ?thesis
    by (simp add: init_step_def op_rules step_post'_def start_post_def entered_def init_writes_quiet not_le)
qed (simp_all add: init_step_def op_rules step_post'_def)

text \<open>A poll of the initialization, with its errors recorded.\<close>

definition init_poll_post ::
    "'w Registers \<Rightarrow> u64 \<Rightarrow> ControllerInit \<Rightarrow> (reason, bool) outcome \<Rightarrow> ControllerInit \<Rightarrow> history \<Rightarrow> bool" where
  "init_poll_post io now i r i' l \<longleftrightarrow>
     r \<noteq> Panic \<and> init_writes l
     \<and> (\<forall>ready. r = Ok ready \<longrightarrow> ready = (init_phase i' = Ready)
          \<and> (i' = i \<and> l = [] \<and> (init_phase i = Ready \<or> now < init_deadline i)
             \<or> (init_phase i = Begin \<or> init_deadline i \<le> now) \<and> entered io now i i' l))
     \<and> (\<forall>e. r = Err e \<longrightarrow> init_phase i' = InitFailed e \<and> init_phase i \<noteq> Ready)
     \<and> (\<forall>e. init_phase i = InitFailed e \<longrightarrow> r = Err e \<and> l = [])"

lemma init_poll_spec: "op_spec (init_poll (logged io) now) i (init_poll_post io now i)"
proof -
  have inner: "op_spec (act_bind (init_step (logged io) now) (\<lambda>_. act_bind policy (\<lambda>i. act_return (init_phase i = Ready)))) i
      (\<lambda>r i' l. \<exists>r0. step_post' io now i r0 i' l \<and> (case r of Ok b \<Rightarrow> r0 = Ok () \<and> b = (init_phase i' = Ready) | Err e \<Rightarrow> r0 = Err e | Panic \<Rightarrow> False))"
  proof (rule op_bind[OF init_step_spec], goal_cases)
    case (1 u i' l)
    then show ?case by (auto simp: op_rules)
  next
    case (3 i' l)
    then show ?case by (auto simp: step_post'_def start_post_def split: InitPhase.splits)
  qed auto
  have quiet: "init_writes []" by (simp add: init_writes_quiet)
  show ?thesis
    unfolding init_poll_def
  proof (rule op_catch[OF inner], goal_cases)
    case (1 b i' l)
    then show ?case
      using quiet by (auto simp: step_post'_def start_post_def init_poll_post_def split: InitPhase.splits)
  next
    case (2 e i' l)
    then show ?case
      using quiet by (auto simp: op_rules step_post'_def start_post_def init_poll_post_def split: InitPhase.splits)
  qed auto
qed

end
