(* ===== verification/Port_Host.thy ===== *)
theory Port_Host
  imports Port_Source
begin

text \<open>
  \<open>drivers/usb/tegra210-xusb/src/typec.rs\<close>: \<open>HostPolicy\<close>, the state behind the one lock of the port.
  \<open>monitor\<close> is the work of the permanent monitor for one interrupt or timer: it drains the alert,
  advances the initialization, the boost, the power delivery policy and the charging, and reads the
  role again; \<open>poll\<close> is the check the host controller's start makes. Each part keeps its own state in
  a field (\<open>act_zoom\<close>).
\<close>

record HostPolicy =
  init :: ControllerInit
  boost :: SourcePolicy
  pd :: PdPolicy
  charge :: ChargePolicy
  charge_scheduled_at :: "u64 option"
  boost_ready_at :: "u64 option"
  boost_waiting_tick :: bool
  monitored_at :: u64

definition default_host :: HostPolicy where
  "default_host =
     \<lparr>init = default_init, boost = default_source, pd = default_policy, charge = default_charge,
      charge_scheduled_at = None, boost_ready_at = None, boost_waiting_tick = False, monitored_at = 0\<rparr>"

type_synonym ('w, 'e, 'a) host_action = "(HostPolicy \<times> 'w, 'e, 'a) action"

definition on_init :: "('w, 'a) init_action \<Rightarrow> ('w, reason, 'a) host_action" where
  "on_init = act_zoom init (\<lambda>x h. h\<lparr>init := x\<rparr>)"

definition on_boost :: "('w, 'e, 'a) source_action \<Rightarrow> ('w, 'e, 'a) host_action" where
  "on_boost = act_zoom boost (\<lambda>x h. h\<lparr>boost := x\<rparr>)"

definition on_pd :: "('w, 'a) pd_action \<Rightarrow> ('w, reason, 'a) host_action" where
  "on_pd m = act_map_err pd_reason (act_zoom pd (\<lambda>x h. h\<lparr>pd := x\<rparr>) m)"

definition on_charge :: "('w, 'a) charge_action \<Rightarrow> ('w, reason, 'a) host_action" where
  "on_charge = act_zoom charge (\<lambda>x h. h\<lparr>charge := x\<rparr>)"

section \<open>Deadlines\<close>

text \<open>\<open>into_iter().flatten().min()\<close>.\<close>

fun earliest :: "u64 option list \<Rightarrow> u64 option" where
  "earliest [] = None"
| "earliest (None # ds) = earliest ds"
| "earliest (Some d # ds) = (case earliest ds of None \<Rightarrow> Some d | Some d' \<Rightarrow> Some (min d d'))"

definition boost_deadline :: "HostPolicy \<Rightarrow> u64 \<Rightarrow> u64 option" where
  "boost_deadline h now =
     (if boost_waiting_tick h then Some (sat_add now 1000000)
      else case boost_ready_at h of
        Some d \<Rightarrow> if monitored_at h < d then Some d else None
      | None \<Rightarrow> None)"

definition host_deadline_ns :: "HostPolicy \<Rightarrow> u64 \<Rightarrow> u64 option" where
  "host_deadline_ns h now =
     (case init_phase (init h) of
        Begin \<Rightarrow> Some now
      | WaitStart \<Rightarrow> Some (init_deadline (init h))
      | WaitReset \<Rightarrow> Some (init_deadline (init h))
      | WaitSettle \<Rightarrow> Some (init_deadline (init h))
      | InitFailed _ \<Rightarrow> None
      | Ready \<Rightarrow> earliest [boost_deadline h now, next_deadline_ns (pd h) now, charge_deadline_ns (charge h)])"

definition clear_source_settle :: "HostPolicy \<Rightarrow> HostPolicy" where
  "clear_source_settle h = h\<lparr>boost_ready_at := None, boost_waiting_tick := False\<rparr>"

text \<open>A failed observation of the port ends or suspends the negotiation.\<close>

definition observation_lost :: "'w Registers \<Rightarrow> ObservationError \<Rightarrow> ('w, reason, reason) host_action" where
  "observation_lost io e =
     act_bind policy (\<lambda>h.
     act_bind (case e of
         ObsTransport r \<Rightarrow>
           act_bind (act_on_snd (post_io_time io (monitored_at h))) (\<lambda>t.
           change (\<lambda>h. h\<lparr>pd := transport_lost r t (pd h)\<rparr>))
       | _ \<Rightarrow> change (\<lambda>h. h\<lparr>pd := observation_failed (obs_reason e) (pd h)\<rparr>)) (\<lambda>_.
     act_return (obs_reason e)))"

text \<open>\<open>map_err\<close> with a closure that changes the policy.\<close>

definition observed_by :: "'w Registers \<Rightarrow> ('w, ObservationError, 'a) host_action \<Rightarrow> ('w, reason, 'a) host_action" where
  "observed_by io m = act_catch m (\<lambda>e. act_bind (observation_lost io e) act_throw)"

text \<open>An error closes the settling interval of the boost.\<close>

definition settled :: "('w, reason, 'a) host_action \<Rightarrow> ('w, reason, 'a) host_action" where
  "settled m = act_catch m (\<lambda>e. act_bind (change clear_source_settle) (\<lambda>_. act_throw e))"

section \<open>The check of the host\<close>

text \<open>The state of the port before the controller is ready: no host.\<close>

definition not_ready :: "'w Registers \<Rightarrow> ('w, reason, PortState) host_action" where
  "not_ready io =
     act_bind (act_on_snd (snapshot io)) (\<lambda>st. act_return (st\<lparr>is_host := False\<rparr>))"

text \<open>The host may run when the boost has settled and the negotiation allows it.\<close>

definition host_view :: "HostPolicy \<Rightarrow> PortState \<Rightarrow> PortState" where
  "host_view h st =
     (let st = (if is_source st \<and> otg_inserted st
                then st\<lparr>is_host := (is_host st \<and> (case boost_ready_at h of Some d \<Rightarrow> d \<le> monitored_at h | None \<Rightarrow> False))\<rparr>
                else st)
      in st\<lparr>is_host := (is_host st \<and> host_allowed (pd h))\<rparr>)"

definition host_poll_inner :: "'w Registers \<Rightarrow> ('w, reason, PortState) host_action" where
  "host_poll_inner io =
     act_bind policy (\<lambda>h.
     if init_phase (init h) \<noteq> Ready
     then act_bind (on_boost (source_stop io)) (\<lambda>_. not_ready io)
     else
       let was_sourcing = (saved_power (boost h) \<noteq> None) in
       act_bind (observed_by io (on_boost (source_poll io (Some 0)))) (\<lambda>st.
       act_bind policy (\<lambda>h.
       act_bind (act_when (\<not> was_sourcing \<or> saved_power (boost h) = None) (change clear_source_settle)) (\<lambda>_.
       act_bind policy (\<lambda>h. act_return (host_view h st))))))"

definition host_poll :: "'w Registers \<Rightarrow> ('w, reason, PortState) host_action" where
  "host_poll io = settled (host_poll_inner io)"

section \<open>The monitor\<close>

definition monitor_alert :: "'w Registers \<Rightarrow> ('w, reason, u16) host_action" where
  "monitor_alert io =
     act_bind (observed_by io (io_step (word_reg io 0x02) ObsTransport)) (\<lambda>alert.
     act_bind (change (\<lambda>h. h\<lparr>pd := capture_alert alert (pd h)\<rparr>)) (\<lambda>_. act_return alert))"

text \<open>The steps before the controller is ready; the result says whether it is.\<close>

definition monitor_init :: "'w Registers \<Rightarrow> u64 \<Rightarrow> u16 \<Rightarrow> ('w, reason, bool) host_action" where
  "monitor_init io now alert =
     act_bind policy (\<lambda>h.
     if init_phase (init h) = Ready then act_return True
     else if fault_alert alert then
       act_bind (change (\<lambda>h. h\<lparr>boost := (boost h)\<lparr>unresolved_fault := True\<rparr>\<rparr>)) (\<lambda>_.
       act_bind (on_boost (source_stop io)) (\<lambda>_.
       act_bind (change (\<lambda>h. h\<lparr>pd := observation_failed INIT_FAULT (pd h)\<rparr>)) (\<lambda>_.
       act_throw INIT_FAULT)))
     else
       act_bind (on_boost (source_stop io)) (\<lambda>_.
       act_bind (act_try (on_init (init_poll io now))) (\<lambda>initialized.
       act_bind policy (\<lambda>h.
       act_bind (case drained_alert (init h) of
           None \<Rightarrow> act_return ()
         | Some a \<Rightarrow> change (\<lambda>h. h\<lparr>init := (init h)\<lparr>drained_alert := None\<rparr>, pd := capture_alert a (pd h),
             boost := (boost h)\<lparr>unresolved_fault := (unresolved_fault (boost h) \<or> fault_alert a)\<rparr>\<rparr>)) (\<lambda>_.
       case initialized of Inl e \<Rightarrow> act_throw e | Inr ready \<Rightarrow> act_return ready)))))"

text \<open>The settling interval of the boost, after the source was polled.\<close>

definition boost_tick :: "u64 \<Rightarrow> bool \<Rightarrow> HostPolicy \<Rightarrow> HostPolicy" where
  "boost_tick now was_sourcing h0 =
     (let h = (if \<not> was_sourcing then clear_source_settle h0 else h0) in
      if saved_power (boost h) \<noteq> None then
        (if boost_ready_at h = None then
           (if boost_waiting_tick h
            then h\<lparr>boost_ready_at := Some (sat_add now 220000000), boost_waiting_tick := False\<rparr>
            else h\<lparr>boost_waiting_tick := True\<rparr>)
         else h)
      else clear_source_settle h)"

text \<open>The charging work follows the deadline the negotiation has set.\<close>

definition charge_follow :: "'w Registers \<Rightarrow> ('w, reason, unit) host_action" where
  "charge_follow io =
     act_bind policy (\<lambda>h.
     act_when (charge_ready_at_ns (status (pd h)) \<noteq> charge_scheduled_at h)
       (act_bind (act_when (is_active (charge h)) (on_charge (cancel io))) (\<lambda>_.
        change (\<lambda>h'. let h' = h'\<lparr>charge_scheduled_at := charge_ready_at_ns (status (pd h))\<rparr> in
          case (charge_ready_at_ns (status (pd h)), contract (status (pd h))) of
            (Some d, Some ct) \<Rightarrow> h'\<lparr>charge := schedule (charging_limit_ma ct) (sat_sub d 2000000000) (charge h')\<rparr>
          | _ \<Rightarrow> h'))))"

definition sink_eligible :: "PortState \<Rightarrow> bool" where
  "sink_eligible st \<longleftrightarrow>
     attached st \<and> vbus_valid st \<and> \<not> is_source st \<and> \<not> otg_inserted st \<and> fault st = 0
     \<and> status2 st AND 0xc00 = 0 \<and> \<not> dp_active st"

definition monitor_ready :: "'w Registers \<Rightarrow> u64 \<Rightarrow> u16 \<Rightarrow> ('w, reason, PortState) host_action" where
  "monitor_ready io now alert =
     act_bind policy (\<lambda>h.
     let was_sourcing = (saved_power (boost h) \<noteq> None) in
     act_bind (observed_by io (on_boost (source_poll io (Some alert)))) (\<lambda>raw.
     act_bind (change (boost_tick now was_sourcing)) (\<lambda>_.
     act_bind (on_pd (poll_with_alert io raw now alert)) (\<lambda>_.
     act_bind (charge_follow io) (\<lambda>_.
     act_bind (on_charge (charge_poll io (sink_eligible raw) now)) (\<lambda>_.
     host_poll io))))))"

definition monitor_inner :: "'w Registers \<Rightarrow> u64 \<Rightarrow> ('w, reason, PortState) host_action" where
  "monitor_inner io now =
     act_bind (change (\<lambda>h. h\<lparr>monitored_at := now\<rparr>)) (\<lambda>_.
     act_bind (monitor_alert io) (\<lambda>alert.
     act_bind (monitor_init io now alert) (\<lambda>ready.
     if ready then monitor_ready io now alert else not_ready io)))"

definition monitor :: "'w Registers \<Rightarrow> u64 \<Rightarrow> ('w, reason, PortState) host_action" where
  "monitor io now = settled (monitor_inner io now)"

definition stop_sourcing :: "'w Registers \<Rightarrow> ('w, reason, unit) host_action" where
  "stop_sourcing io =
     act_bind (change clear_source_settle) (\<lambda>_.
     act_bind (on_boost (source_stop io)) (\<lambda>_.
     act_bind policy (\<lambda>h.
     act_when (is_active (charge h)) (on_charge (cancel io)))))"

end
