(* ===== verification/Host_Props.thy ===== *)
theory Host_Props
  imports Init_Props Port_Host Pd_Run
begin

text \<open>
  The composition of the port: the parts behind the one lock, their common invariant, and the evidence
  of every write of a monitor step, a check or a stop.
\<close>

section \<open>Parts of the port\<close>

lemma on_boost_spec: "op_spec m (boost h) Q \<Longrightarrow> op_spec (on_boost m) h (\<lambda>r h' l. \<exists>b. h' = h\<lparr>boost := b\<rparr> \<and> Q r b l)"
  unfolding on_boost_def by (rule op_zoom) (auto elim!: op_mono)

lemma on_init_spec: "op_spec m (init h) Q \<Longrightarrow> op_spec (on_init m) h (\<lambda>r h' l. \<exists>i. h' = h\<lparr>init := i\<rparr> \<and> Q r i l)"
  unfolding on_init_def by (rule op_zoom) (auto elim!: op_mono)

lemma on_charge_spec: "op_spec m (charge h) Q \<Longrightarrow> op_spec (on_charge m) h (\<lambda>r h' l. \<exists>c. h' = h\<lparr>charge := c\<rparr> \<and> Q r c l)"
  unfolding on_charge_def by (rule op_zoom) (auto elim!: op_mono)

text \<open>A poll of the power delivery policy returns no error.\<close>

lemma on_pd_spec:
  "op_spec m (pd h) (\<lambda>r p l. r = Ok () \<and> Q p l)
    \<Longrightarrow> op_spec (on_pd m) h (\<lambda>r h' l. r = Ok () \<and> (\<exists>p. h' = h\<lparr>pd := p\<rparr> \<and> Q p l))"
  unfolding on_pd_def by (rule op_map_err, rule op_zoom) (auto elim!: op_mono)

section \<open>The writes\<close>

definition pd_evidence :: evidence where
  "pd_evidence l w \<longleftrightarrow>
     pd_message [w]
     \<and> (\<exists>st. stable st l \<and> sink_power_valid st \<and> \<not> command_busy st \<and> (w \<noteq> command_write PS_RDY \<longrightarrow> data_role st = Device))"

definition charge_evidence :: evidence where
  "charge_evidence l w \<longleftrightarrow> (\<exists>o' lim. charge_ok o' lim l w)"

definition port_write :: "bool \<Rightarrow> evidence" where
  "port_write ready l w \<longleftrightarrow>
     source_ok l w \<or> charge_evidence l w \<or> pd_evidence l w \<or> \<not> ready \<and> init_write w"

lemma pd_evidence_suffixed: "suffixed pd_evidence"
  unfolding suffixed_def pd_evidence_def using stable_append by blast

lemma charge_evidence_suffixed: "suffixed charge_evidence"
  using charge_ok_suffixed unfolding suffixed_def charge_evidence_def by blast

lemma port_write_suffixed: "suffixed (port_write ready)"
  using source_ok_suffixed charge_evidence_suffixed pd_evidence_suffixed
  unfolding suffixed_def port_write_def by meson

lemmas port_app = all_writes_append[OF port_write_suffixed]

lemma port_source_writes: "all_writes source_ok l \<Longrightarrow> all_writes (port_write ready) l"
  by (erule all_writes_mono) (simp add: port_write_def)

lemma port_charge_writes: "all_writes (charge_ok o' lim) l \<Longrightarrow> all_writes (port_write ready) l"
  by (erule all_writes_mono) (auto simp: port_write_def charge_evidence_def)

lemma port_init_writes: "init_writes l \<Longrightarrow> all_writes (port_write False) l"
proof -
  assume i: "init_writes l"
  have "init_write w" if "l = pre @ x # post" "writes [x] = [w]" for pre x post w
    using i that(2) unfolding that(1) init_writes_def writes_append writes_cons[of x post] by simp
  then show "all_writes (port_write False) l" by (simp add: all_writes_def port_write_def)
qed

lemma port_pd_writes:
  assumes "guarded_writes p l"
  shows "all_writes (port_write ready) l"
  unfolding all_writes_def
proof (intro allI impI)
  fix pre x post w
  assume "l = pre @ x # post \<and> writes [x] = [w]"
  then have "write_allowed p pre [w]"
    using assms unfolding guarded_writes_def by (metis list.distinct(1))
  then show "port_write ready pre w"
    by (auto simp: write_allowed_def snapshot_allows_def port_write_def pd_evidence_def)
qed

text \<open>Every message of the port fits the buffer of the hardware.\<close>

lemma port_write_fits:
  assumes "port_write ready l (a, r, d)"
  shows "0 < length d \<and> length d \<le> 5"
proof -
  have two: "length (to_le_bytes (v :: u16)) = 2" for v by simp
  have "length d \<in> {1, 2, 5}"
    using assms two
    unfolding port_write_def source_ok_def boost_ok_def reset_write_def charge_evidence_def charge_ok_def
      pd_evidence_def pd_message_def init_write_def
    by force
  then show ?thesis by auto
qed

section \<open>The invariant\<close>

definition has_session :: "PdPolicy \<Rightarrow> bool" where
  "has_session p \<longleftrightarrow> (\<exists>ws. session_ok p ws)"

lemma has_session_kept:
  "has_session p \<Longrightarrow> has_session (transport_lost r t p)"
  "has_session p \<Longrightarrow> has_session (observation_failed r p)"
  "has_session p \<Longrightarrow> has_session (capture_alert a p)"
  unfolding has_session_def using transport_lost_session observation_failed_session capture_alert_session(1) by blast+

definition parts_ok :: "HostPolicy \<Rightarrow> bool" where
  "parts_ok h \<longleftrightarrow>
     has_session (pd h) \<and> charged (charge h) \<and> (is_active (charge h) \<longrightarrow> charge_scheduled_at h \<noteq> None)"

definition settling_ok :: "HostPolicy \<Rightarrow> bool" where
  "settling_ok h \<longleftrightarrow>
     (boost_ready_at h \<noteq> None \<or> boost_waiting_tick h \<longrightarrow> saved_power (boost h) \<noteq> None \<and> init_phase (init h) = Ready)"

lemma settling_cleared: "settling_ok (clear_source_settle h)"
  by (simp add: settling_ok_def clear_source_settle_def)

lemma parts_cleared: "parts_ok (clear_source_settle h) = parts_ok h"
  by (simp add: parts_ok_def clear_source_settle_def)

lemma parts_lost:
  "parts_ok h \<Longrightarrow> parts_ok (h\<lparr>pd := transport_lost r t (pd h)\<rparr>)"
  "parts_ok h \<Longrightarrow> parts_ok (h\<lparr>pd := observation_failed r (pd h)\<rparr>)"
  "parts_ok h \<Longrightarrow> parts_ok (h\<lparr>pd := capture_alert a (pd h)\<rparr>)"
  using has_session_kept[of "pd h"] by (simp_all add: parts_ok_def)

end
