(* ===== verification/Host_Steps.thy ===== *)
theory Host_Steps
  imports Host_Props
begin

text \<open>The steps of the port: the check of the host, the monitor and the stop.\<close>

section \<open>The parts, seen from the port\<close>

definition boost_post :: "HostPolicy \<Rightarrow> (reason, PortState) outcome \<Rightarrow> HostPolicy \<Rightarrow> history \<Rightarrow> bool" where
  "boost_post h r h' l \<longleftrightarrow>
     r \<noteq> Panic \<and> all_writes source_ok l \<and> (\<exists>b p. h' = h\<lparr>boost := b, pd := p\<rparr> \<and> (has_session (pd h) \<longrightarrow> has_session p)
       \<and> (\<forall>st. r = Ok st \<longrightarrow> p = pd h \<and> settled_boost st b l))"

lemma observation_lost_spec:
  "op_spec (observation_lost (logged io) e) h
    (\<lambda>r h' l. r = Ok (obs_reason e) \<and> l = [] \<and> (\<exists>p. h' = h\<lparr>pd := p\<rparr> \<and> (has_session (pd h) \<longrightarrow> has_session p)))"
proof -
  have lost: "op_spec (act_bind (act_on_snd (post_io_time (logged io) t0)) (\<lambda>t. change (\<lambda>h. h\<lparr>pd := transport_lost r t (pd h)\<rparr>))) h
      (\<lambda>res h' l. res = Ok () \<and> l = [] \<and> (\<exists>p. h' = h\<lparr>pd := p\<rparr> \<and> (has_session (pd h) \<longrightarrow> has_session p)))" for t0 r
    by (rule op_time_rule) (auto simp: op_change has_session_kept)
  have failed: "op_spec (change (\<lambda>h. h\<lparr>pd := observation_failed r (pd h)\<rparr>)) h
      (\<lambda>res h' l. res = Ok () \<and> l = [] \<and> (\<exists>p. h' = h\<lparr>pd := p\<rparr> \<and> (has_session (pd h) \<longrightarrow> has_session p)))" for r
    by (auto simp: op_change has_session_kept)
  show ?thesis
    unfolding observation_lost_def op_bind_policy
  proof (rule op_bind[where P = "\<lambda>res h' l. res = Ok () \<and> l = [] \<and> (\<exists>p. h' = h\<lparr>pd := p\<rparr> \<and> (has_session (pd h) \<longrightarrow> has_session p))"], goal_cases)
    case 1
    show ?case by (cases e) (simp_all only: ObservationError.case lost failed)
  qed (auto simp: op_rules)
qed

lemma observed_poll_spec:
  "op_spec (observed_by (logged io) (on_boost (source_poll (logged io) c))) h (boost_post h)"
  unfolding observed_by_def
proof (rule op_catch[OF on_boost_spec[OF source_poll_spec]], goal_cases)
  case (1 st h' l)
  then show ?case by (auto simp: boost_post_def source_post_def turn_post_def intro!: exI[of _ "pd h"])
next
  case (2 e h' l)
  then obtain b where b: "h' = h\<lparr>boost := b\<rparr>" "all_writes source_ok l" by (auto simp: source_post_def turn_post_def)
  show ?case
    by (rule op_bind[OF observation_lost_spec]) (use b in \<open>auto simp: op_rules boost_post_def\<close>)
qed (simp add: source_post_def turn_post_def)

lemma stop_boost_spec:
  "op_spec (on_boost (source_stop (logged io))) h
    (\<lambda>r h' l. r \<noteq> Panic \<and> all_writes withdrawal_ok l \<and> (\<exists>b. h' = h\<lparr>boost := b\<rparr> \<and> (r = Ok () \<longrightarrow> saved_power b = None \<and> boost_off l)))"
proof (rule op_mono[OF on_boost_spec[OF source_stop_spec]])
  fix r h' l
  assume "\<exists>b. h' = h\<lparr>boost := b\<rparr> \<and> stop_post (boost h) r b l"
  then obtain b where "h' = h\<lparr>boost := b\<rparr>" "stop_post (boost h) r b l" by auto
  moreover from this(2) have "r = Ok () \<Longrightarrow> saved_power b = None \<and> boost_off l" by (simp add: stop_post_def)
  moreover have "r \<noteq> Panic \<and> all_writes withdrawal_ok l"
    using \<open>stop_post (boost h) r b l\<close> by (simp add: stop_post_def)
  ultimately show "r \<noteq> Panic \<and> all_writes withdrawal_ok l
      \<and> (\<exists>b. h' = h\<lparr>boost := b\<rparr> \<and> (r = Ok () \<longrightarrow> saved_power b = None \<and> boost_off l))"
    by blast
qed

lemma pd_poll_session:
  assumes "has_session p"
  shows "op_spec (poll (logged io) raw now) p (\<lambda>r p' l. r = Ok () \<and> has_session p' \<and> (\<exists>q. guarded_writes q l))"
proof -
  obtain ws where ws: "session_ok p ws" using assms by (auto simp: has_session_def)
  have step: "r = Ok () \<and> has_session p' \<and> (\<exists>q. guarded_writes q l)" if "step_post ws q r p' l" for q r p' l
    using that session_ok_fresh by (auto simp: step_post_def has_session_def released_def)
  show ?thesis
  proof (cases "attached_as raw p")
    case True
    show ?thesis by (rule op_mono[OF poll_spec[OF ws True]]) (rule step)
  next
    case False
    show ?thesis
    proof (rule op_mono[OF poll_not_attached[OF ws False]])
      fix r p' l
      assume "writes l = [] \<and> (step_post ws p r p' l
        \<or> r = Ok () \<and> p' = p\<lparr>status := (status p)\<lparr>last_status1 := status1 raw\<rparr>\<rparr> \<and> raced raw p l)"
      then have "writes l = [] \<and> (step_post ws p r p' l \<or> r = Ok () \<and> same_core p p')"
        by (auto simp: same_core_def)
      then show "r = Ok () \<and> has_session p' \<and> (\<exists>q. guarded_writes q l)"
        using step[of p r p' l] session_ok_core[of p p' ws] ws guarded_quiet[of l p] by (auto simp: has_session_def)
    qed
  qed
qed

lemma pd_monitor_session:
  assumes "has_session p"
  shows "op_spec (poll_with_alert (logged io) raw now a) p (\<lambda>r p' l. r = Ok () \<and> has_session p' \<and> (\<exists>q. guarded_writes q l))"
proof -
  have c: "has_session (capture_alert a p)" using assms by (rule has_session_kept)
  then have "has_session ((capture_alert a p)\<lparr>orientation := o'\<rparr>)" for o'
    by (auto simp: has_session_def session_ok_def cong: PdPhase.case_cong)
  then show ?thesis
    unfolding poll_with_alert_def op_bind_change op_if
    using pd_poll_session[OF c] guarded_quiet[of "[]"] by (auto simp: op_change)
qed

section \<open>Charging, seen from the port\<close>

lemma cancel_ends: "op_spec (cancel (logged io)) p (\<lambda>r p' l. r \<noteq> Panic \<and> \<not> is_active p')"
proof -
  have "op_spec (recorded (restore_input (logged io))) (set_charge ChargeIdle p\<lparr>charge_side := None\<rparr>) (\<lambda>r p' l. r \<noteq> Panic \<and> \<not> is_active p')"
    unfolding recorded_def
    by (rule op_catch[OF restore_input_spec]) (auto simp: op_rules is_active_def step_keeps_def set_charge_def)
  then show ?thesis unfolding cancel_def op_bind_policy op_if op_bind_change by (auto simp: op_return)
qed

lemma charge_poll_active:
  assumes "charged p"
  shows "op_spec (charge_poll (logged io) ok now) p (\<lambda>r p' l. poll_post p r p' l \<and> (is_active p' \<longrightarrow> is_active p))"
proof (cases "is_active p")
  case True
  then show ?thesis by (intro op_mono[OF charge_poll_spec[OF assms]]) auto
next
  case False
  then show ?thesis
    using assms by (intro op_mono[OF poll_inactive(1)]) (auto simp: poll_post_def all_writes_quiet)
qed

lemma schedule_charged: "charged p \<Longrightarrow> charged (schedule c now p)"
proof -
  assume p: "charged p"
  show ?thesis
  proof (cases "if c \<le> 3000 then current_index c else None")
    case None
    then show ?thesis using p by (simp add: schedule_def Let_def charged_def set_charge_def)
  next
    case (Some i)
    then have "current_index c = Some i" by (metis option.distinct(1))
    from current_index_bound(1)[OF this] Some show ?thesis by (simp add: schedule_def Let_def charged_def)
  qed
qed

text \<open>An operation that only changes the charging work.\<close>

definition charge_step :: "HostPolicy \<Rightarrow> (reason, unit) outcome \<Rightarrow> HostPolicy \<Rightarrow> history \<Rightarrow> bool" where
  "charge_step h r h' l \<longleftrightarrow>
     r \<noteq> Panic \<and> all_writes charge_evidence l \<and> parts_ok h'
     \<and> (\<exists>c s. h' = h\<lparr>charge := c, charge_scheduled_at := s\<rparr>)"

lemma charge_writes: "all_writes (charge_ok o' lim) l \<Longrightarrow> all_writes charge_evidence l"
  by (erule all_writes_mono) (auto simp: charge_evidence_def)

lemma charge_follow_spec:
  assumes "parts_ok h"
  shows "op_spec (charge_follow (logged io)) h (charge_step h)"
proof (cases "charge_ready_at_ns (status (pd h)) = charge_scheduled_at h")
  case True
  then have "op_spec (charge_follow (logged io)) h (\<lambda>r h' l. r = Ok () \<and> h' = h \<and> l = [])"
    by (simp add: charge_follow_def op_rules)
  then show ?thesis
    by (rule op_mono) (use assms in \<open>auto simp: charge_step_def all_writes_quiet intro!: exI[of _ "charge h"] exI[of _ "charge_scheduled_at h"]\<close>)
next
  case False
  let ?f = "\<lambda>h'. let h' = h'\<lparr>charge_scheduled_at := charge_ready_at_ns (status (pd h))\<rparr> in
          case (charge_ready_at_ns (status (pd h)), contract (status (pd h))) of
            (Some d, Some ct) \<Rightarrow> h'\<lparr>charge := schedule (charging_limit_ma ct) (sat_sub d 2000000000) (charge h')\<rparr>
          | _ \<Rightarrow> h'"
  have c: "charged (charge h)" using assms by (simp add: parts_ok_def)
  have cancelled: "op_spec (act_when (is_active (charge h)) (on_charge (cancel (logged io)))) h
      (\<lambda>r h' l. r \<noteq> Panic \<and> all_writes charge_evidence l \<and> (\<exists>c. h' = h\<lparr>charge := c\<rparr> \<and> charged c \<and> \<not> is_active c))"
  proof (cases "is_active (charge h)")
    case True
    have "op_spec (on_charge (cancel (logged io))) h
      (\<lambda>r h' l. r \<noteq> Panic \<and> all_writes charge_evidence l \<and> (\<exists>c. h' = h\<lparr>charge := c\<rparr> \<and> charged c \<and> \<not> is_active c))"
      by (rule op_mono[OF on_charge_spec[OF op_conj[OF cancel_spec[OF c] cancel_ends]]])
        (auto simp: poll_post_def charge_writes)
    then show ?thesis using True by (simp add: act_when_def)
  next
    case False
    then show ?thesis
      using c by (simp add: op_rules all_writes_quiet) (auto intro!: exI[of _ "charge h"])
  qed
  have "parts_ok (?f (h\<lparr>charge := c\<rparr>))" if "charged c" "\<not> is_active c" for c
    using assms that schedule_charged[OF that(1)]
    by (auto simp: parts_ok_def Let_def split: option.splits)
  moreover have "?f (h\<lparr>charge := c\<rparr>) = h\<lparr>charge := charge (?f (h\<lparr>charge := c\<rparr>)), charge_scheduled_at := charge_scheduled_at (?f (h\<lparr>charge := c\<rparr>))\<rparr>" for c
    by (auto simp: Let_def split: option.splits)
  ultimately have follow: "parts_ok (?f (h\<lparr>charge := c\<rparr>)) \<and> (\<exists>c' s. ?f (h\<lparr>charge := c\<rparr>) = h\<lparr>charge := c', charge_scheduled_at := s\<rparr>)"
    if "charged c" "\<not> is_active c" for c
    using that by blast
  show ?thesis
    unfolding charge_follow_def op_bind_policy act_when_def if_P[OF False]
  proof (rule op_bind[OF cancelled[unfolded act_when_def]], goal_cases)
    case (1 u h1 l1)
    then obtain c where "h1 = h\<lparr>charge := c\<rparr>" "charged c" "\<not> is_active c" "all_writes charge_evidence l1" by auto
    then show ?case using follow[of c] by (simp add: op_change charge_step_def)
  next
    case (2 e h1 l1)
    then obtain c where c1: "h1 = h\<lparr>charge := c\<rparr>" "charged c" "\<not> is_active c" "all_writes charge_evidence l1" by auto
    then have "parts_ok h1" using assms by (simp add: parts_ok_def)
    then show ?case
      using c1 by (auto simp: charge_step_def intro!: exI[of _ c] exI[of _ "charge_scheduled_at h"])
  qed auto
qed

lemma charge_tick_spec:
  assumes "parts_ok h"
  shows "op_spec (on_charge (charge_poll (logged io) ok now)) h (charge_step h)"
proof -
  have c: "charged (charge h)" using assms by (simp add: parts_ok_def)
  show ?thesis
  proof (rule op_mono[OF on_charge_spec[OF charge_poll_active[OF c]]])
    fix r h' l
    assume "\<exists>c. h' = h\<lparr>charge := c\<rparr> \<and> poll_post (charge h) r c l \<and> (is_active c \<longrightarrow> is_active (charge h))"
    then obtain c where c: "h' = h\<lparr>charge := c\<rparr>" "poll_post (charge h) r c l" "is_active c \<Longrightarrow> is_active (charge h)" by auto
    then have "parts_ok h'" using assms by (auto simp: parts_ok_def poll_post_def)
    then show "charge_step h r h' l"
      using c charge_writes by (auto simp: charge_step_def poll_post_def intro!: exI[of _ c] exI[of _ "charge_scheduled_at h"])
  qed
qed

section \<open>The check of the host\<close>

text \<open>A port that is reported as host: the controller is ready, the negotiation allows it, a stable
  snapshot showed the role, and either the boost has settled, or it was read back as off.\<close>

definition reported :: "HostPolicy \<Rightarrow> PortState \<Rightarrow> history \<Rightarrow> bool" where
  "reported h st l \<longleftrightarrow>
     (is_host st \<longrightarrow> init_phase (init h) = Ready \<and> host_allowed (pd h)
        \<and> (\<exists>l1 l2. l = l1 @ l2 \<and> stable st l1
             \<and> (if can_source st then l2 = [] \<and> (\<exists>d. boost_ready_at h = Some d \<and> d \<le> monitored_at h)
                else boost_off l2 \<and> saved_power (boost h) = None \<and> all_writes withdrawal_ok l2)))"

lemma reported_append: "reported h st l \<Longrightarrow> reported h st (l' @ l)"
  unfolding reported_def using stable_append by (metis append.assoc)

definition host_mid :: "bool \<Rightarrow> HostPolicy \<Rightarrow> (reason, PortState) outcome \<Rightarrow> HostPolicy \<Rightarrow> history \<Rightarrow> bool" where
  "host_mid ready h r h' l \<longleftrightarrow>
     r \<noteq> Panic \<and> parts_ok h' \<and> all_writes (port_write ready) l
     \<and> (init_phase (init h) = Ready \<longrightarrow> init_phase (init h') = Ready)
     \<and> (\<forall>st. r = Ok st \<longrightarrow> settling_ok h' \<and> reported h' st l)"

definition host_done :: "bool \<Rightarrow> HostPolicy \<Rightarrow> (reason, PortState) outcome \<Rightarrow> HostPolicy \<Rightarrow> history \<Rightarrow> bool" where
  "host_done ready h r h' l \<longleftrightarrow> host_mid ready h r h' l \<and> settling_ok h'"

lemma host_mid_append:
  assumes "host_mid ready h1 r h' l" "all_writes (port_write ready) l0"
    and "init_phase (init h) = Ready \<Longrightarrow> init_phase (init h1) = Ready"
  shows "host_mid ready h r h' (l0 @ l)"
  using assms port_app[OF assms(2)] reported_append by (auto simp: host_mid_def)

lemma settled_spec: "op_spec m h (host_mid ready h) \<Longrightarrow> op_spec (settled m) h (host_done ready h)"
  unfolding settled_def
proof (erule op_catch, goal_cases)
  case (2 e h' l)
  then show ?case
    by (auto simp: op_rules host_done_def host_mid_def settling_cleared parts_cleared)
      (simp add: clear_source_settle_def)
qed (auto simp: host_done_def host_mid_def)

lemma not_ready_spec: "op_spec (not_ready (logged io)) h
    (\<lambda>r h' l. h' = h \<and> r \<noteq> Panic \<and> writes l = [] \<and> (\<forall>st. r = Ok st \<longrightarrow> \<not> is_host st))"
  unfolding not_ready_def
  by (rule op_bind[OF quiet_on_snd[OF quiet_snapshot]]) (auto simp: op_rules)

lemma op_bind_when_change: "op_spec (act_bind (act_when c (change g)) f) p Q = op_spec (f ()) (if c then g p else p) Q"
  by (cases c) (simp_all add: act_when_def op_rules)

lemma view_host:
  assumes "is_host (host_view h st)"
  shows "host_view h st = st" "is_host st" "host_allowed (pd h)"
    and "is_source st \<and> otg_inserted st \<Longrightarrow> \<exists>d. boost_ready_at h = Some d \<and> d \<le> monitored_at h"
  using assms by (auto simp: host_view_def Let_def split: if_splits option.splits)

lemma host_source: "stable st l \<Longrightarrow> is_host st \<Longrightarrow> is_source st \<Longrightarrow> otg_inserted st \<Longrightarrow> can_source st"
  by (auto simp: stable_def from_registers_def host_role_def can_source_def)

lemma host_poll_inner_spec:
  assumes "parts_ok h" "settling_ok h"
  shows "op_spec (host_poll_inner (logged io)) h (host_mid ready h)"
proof (cases "init_phase (init h) = Ready")
  case False
  then have u: "boost_ready_at h = None" "\<not> boost_waiting_tick h" using assms(2) by (auto simp: settling_ok_def)
  show ?thesis
    unfolding host_poll_inner_def op_bind_policy if_P[OF False]
  proof (rule op_bind[OF stop_boost_spec], goal_cases)
    case (1 x h1 l1)
    then obtain b where b: "h1 = h\<lparr>boost := b\<rparr>" "all_writes withdrawal_ok l1" by auto
    have w: "all_writes (port_write ready) l1" by (intro port_source_writes withdrawals_source b)
    show ?case
    proof (rule op_mono[OF not_ready_spec])
      fix r :: "(reason, PortState) outcome" and h' l
      assume a: "h' = h1 \<and> r \<noteq> Panic \<and> writes l = [] \<and> (\<forall>st. r = Ok st \<longrightarrow> \<not> is_host st)"
      have "all_writes (port_write ready) (l1 @ l)" using port_app[OF w] all_writes_quiet a by blast
      then show "host_mid ready h r h' (l1 @ l)"
        using a b(1) assms(1) u by (auto simp: host_mid_def parts_ok_def settling_ok_def reported_def)
    qed
  next
    case (2 e h1 l1)
    then show ?case
      using assms(1) port_source_writes[OF withdrawals_source] by (auto simp: host_mid_def parts_ok_def)
  qed auto
next
  case True
  then have no: "\<not> init_phase (init h) \<noteq> Ready" by simp
  show ?thesis
    unfolding host_poll_inner_def op_bind_policy if_not_P[OF no] Let_def
  proof (rule op_bind[OF observed_poll_spec], goal_cases)
    case (1 st h1 l1)
    then obtain b where b: "h1 = h\<lparr>boost := b\<rparr>" "settled_boost st b l1" "all_writes source_ok l1"
      by (auto simp: boost_post_def)
    have w: "all_writes (port_write ready) l1" by (rule port_source_writes[OF b(3)])
    let ?c = "saved_power (boost h) = None \<or> saved_power (boost h1) = None"
    define h2 where "h2 = (if ?c then clear_source_settle h1 else h1)"
    have parts: "parts_ok h2" "init_phase (init h2) = Ready" "boost h2 = b"
      using assms(1) b(1) True by (auto simp: h2_def parts_ok_def clear_source_settle_def)
    have settle: "settling_ok h2"
      using True b(1) settling_cleared[of h1] by (auto simp: h2_def settling_ok_def)
    have report: "reported h2 (host_view h2 st) l1"
      unfolding reported_def
    proof (intro impI)
      assume "is_host (host_view h2 st)"
      note v = view_host[OF this]
      obtain la lb where l: "l1 = la @ lb" "stable st la"
        "if can_source st then lb = [] else boost_off lb \<and> saved_power b = None \<and> all_writes withdrawal_ok lb"
        using b(2) by (auto simp: settled_boost_def)
      have d: "\<exists>d. boost_ready_at h2 = Some d \<and> d \<le> monitored_at h2" if "can_source st"
        using v(4) that by (simp add: can_source_def)
      show "init_phase (init h2) = Ready \<and> host_allowed (pd h2) \<and> (\<exists>la lb. l1 = la @ lb \<and> stable (host_view h2 st) la
           \<and> (if can_source (host_view h2 st) then lb = [] \<and> (\<exists>d. boost_ready_at h2 = Some d \<and> d \<le> monitored_at h2)
              else boost_off lb \<and> saved_power (boost h2) = None \<and> all_writes withdrawal_ok lb))"
        unfolding v(1) using parts v(3) l d by (intro conjI exI[of _ la] exI[of _ lb]) auto
    qed
    have cond: "(\<not> (saved_power (boost h) \<noteq> None) \<or> saved_power (boost h1) = None) = ?c" by simp
    show ?case
      unfolding op_bind_policy cond op_bind_when_change h2_def[symmetric] op_return
      using parts settle report w by (simp add: host_mid_def)
  next
    case (2 e h1 l1)
    then obtain b p where "h1 = h\<lparr>boost := b, pd := p\<rparr>" "has_session (pd h) \<longrightarrow> has_session p" "all_writes source_ok l1"
      by (auto simp: boost_post_def)
    then show ?case
      using assms(1) True port_source_writes by (auto simp: host_mid_def parts_ok_def)
  qed (simp add: boost_post_def)
qed

lemma host_poll_spec:
  "parts_ok h \<Longrightarrow> settling_ok h \<Longrightarrow> op_spec (host_poll (logged io)) h (host_done ready h)"
  unfolding host_poll_def by (intro settled_spec host_poll_inner_spec)

end
