(* ===== verification/Host_Monitor.thy ===== *)
theory Host_Monitor
  imports Host_Steps
begin

text \<open>
  The work of the monitor, step by step, and the runs of the port: any sequence of monitor steps, host
  checks and stops, each ending in success or in an error.
\<close>

section \<open>Sequencing the steps of the port\<close>

text \<open>A step that keeps the parts and whose writes have evidence, with what holds when it succeeds.\<close>

definition staged ::
  "bool \<Rightarrow> HostPolicy \<Rightarrow> ('a \<Rightarrow> HostPolicy \<Rightarrow> history \<Rightarrow> bool) \<Rightarrow> (reason, 'a) outcome \<Rightarrow> HostPolicy \<Rightarrow> history \<Rightarrow> bool" where
  "staged ready h P r h' l \<longleftrightarrow>
     r \<noteq> Panic \<and> parts_ok h' \<and> all_writes (port_write ready) l
     \<and> (init_phase (init h) = Ready \<longrightarrow> init_phase (init h') = Ready)
     \<and> (\<forall>a. r = Ok a \<longrightarrow> P a h' l)"

lemma staged_bind:
  assumes "op_spec m h (staged ready h P)"
    and "\<And>a h' l. P a h' l \<Longrightarrow> parts_ok h' \<Longrightarrow> op_spec (f a) h' (staged ready h' Q)"
    and "\<And>a h' l l'. Q a h' l \<Longrightarrow> Q a h' (l' @ l)"
  shows "op_spec (act_bind m f) h (staged ready h Q)"
proof (rule op_bind[OF assms(1)], goal_cases)
  case (1 a h1 l1)
  then have 1: "P a h1 l1" "parts_ok h1" "all_writes (port_write ready) l1"
    "init_phase (init h) = Ready \<longrightarrow> init_phase (init h1) = Ready"
    by (simp_all add: staged_def)
  show ?case
    by (rule op_mono[OF assms(2)[OF 1(1,2)]]) (use 1 assms(3) port_app[OF 1(3)] in \<open>auto simp: staged_def\<close>)
qed (auto simp: staged_def)

lemma host_mid_staged: "host_mid ready h = staged ready h (\<lambda>st h' l. settling_ok h' \<and> reported h' st l)"
  by (intro ext) (simp add: host_mid_def staged_def)

abbreviation settled_stage :: "'a \<Rightarrow> HostPolicy \<Rightarrow> history \<Rightarrow> bool" where
  "settled_stage \<equiv> (\<lambda>_ h' _. init_phase (init h') = Ready \<and> settling_ok h')"

section \<open>The alert\<close>

lemma monitor_alert_spec:
  assumes "parts_ok h" "settling_ok h"
  shows "op_spec (monitor_alert (logged io)) h
    (staged ready h (\<lambda>_ h' _. init_phase (init h') = init_phase (init h) \<and> settling_ok h'))"
proof -
  have drain: "op_spec (observed_by (logged io) (io_step (word_reg (logged io) 0x02) ObsTransport)) h
      (\<lambda>r h' l. r \<noteq> Panic \<and> writes l = [] \<and> (\<exists>p. h' = h\<lparr>pd := p\<rparr> \<and> (has_session (pd h) \<longrightarrow> has_session p)))"
    unfolding observed_by_def
  proof (rule op_catch[where P = "\<lambda>r h' l. h' = h \<and> r \<noteq> Panic \<and> writes l = []"], goal_cases)
    case 1
    show ?case by (rule op_io_err, rule io_mono[OF io_word_reg]) auto
  next
    case (3 e h' l)
    then have "h' = h" "writes l = []" by auto
    then show ?case
      by (intro op_bind[OF observation_lost_spec]) (auto simp: op_rules)
  qed (auto intro!: exI[of _ "pd h"])
  show ?thesis
    unfolding monitor_alert_def
  proof (rule op_bind[OF drain], goal_cases)
    case (1 a h1 l1)
    then obtain p where "h1 = h\<lparr>pd := p\<rparr>" "has_session p" "writes l1 = []" using assms(1) by (auto simp: parts_ok_def)
    then show ?case
      using assms has_session_kept(3)[of p]
      by (simp add: op_rules staged_def all_writes_quiet parts_ok_def settling_ok_def)
  next
    case (2 e h1 l1)
    then obtain p where "h1 = h\<lparr>pd := p\<rparr>" "has_session p" "writes l1 = []" using assms(1) by (auto simp: parts_ok_def)
    then show ?case
      using assms by (simp add: staged_def all_writes_quiet parts_ok_def settling_ok_def)
  qed simp
qed

section \<open>The initialization\<close>

lemma stop_staged:
  assumes "parts_ok h" "\<not> ready" "boost_ready_at h = None \<and> \<not> boost_waiting_tick h"
  shows "op_spec (on_boost (source_stop (logged io))) h
    (staged ready h (\<lambda>_ h' _. init h' = init h \<and> boost_ready_at h' = None \<and> \<not> boost_waiting_tick h'))"
  by (rule op_mono[OF stop_boost_spec])
    (use assms port_source_writes[OF withdrawals_source] in \<open>auto simp: staged_def parts_ok_def\<close>)

lemma monitor_init_spec:
  assumes "parts_ok h" "settling_ok h"
  shows "op_spec (monitor_init (logged io) now alert) h
    (staged (init_phase (init h) = Ready) h (\<lambda>ready h' _. ready = (init_phase (init h') = Ready) \<and> settling_ok h'))"
proof (cases "init_phase (init h) = Ready")
  case True
  then show ?thesis
    using assms by (simp add: monitor_init_def op_rules staged_def all_writes_quiet)
next
  case False
  then have u: "boost_ready_at h = None \<and> \<not> boost_waiting_tick h" using assms(2) by (auto simp: settling_ok_def)
  have w: "(init_phase (init h) = Ready) = False" using False by simp
  show ?thesis
  proof (cases "fault_alert alert")
    case True
    let ?h = "h\<lparr>boost := (boost h)\<lparr>unresolved_fault := True\<rparr>\<rparr>"
    have p: "parts_ok ?h" using assms(1) by (simp add: parts_ok_def)
    have q: "boost_ready_at ?h = None \<and> \<not> boost_waiting_tick ?h" using u by simp
    have "op_spec (act_bind (on_boost (source_stop (logged io))) (\<lambda>_.
        act_bind (change (\<lambda>h. h\<lparr>pd := observation_failed INIT_FAULT (pd h)\<rparr>)) (\<lambda>_. act_throw INIT_FAULT))) ?h
        (staged False ?h (\<lambda>ready h' _. ready = (init_phase (init h') = Ready) \<and> settling_ok h'))"
      by (rule staged_bind[OF stop_staged[OF p _ q]])
        (auto simp: op_rules staged_def all_writes_quiet parts_lost)
    then show ?thesis
      unfolding monitor_init_def op_bind_policy if_not_P[OF False] if_P[OF True] op_bind_change unfolding w
      by (rule op_mono) (simp add: staged_def False)
  next
    case no_fault: False
    show ?thesis
      unfolding monitor_init_def op_bind_policy if_not_P[OF False] if_not_P[OF no_fault] unfolding w
    proof (rule staged_bind[OF stop_staged[OF assms(1) _ u]], simp, goal_cases)
      case (1 x h1 l1)
      have advance: "op_spec (act_try (on_init (init_poll (logged io) now))) h1
          (staged False h1 (\<lambda>res h' _. boost_ready_at h' = None \<and> \<not> boost_waiting_tick h'
             \<and> (\<forall>ready. res = Inr ready \<longrightarrow> ready = (init_phase (init h') = Ready))))"
      proof (rule op_try, rule op_mono[OF on_init_spec[OF init_poll_spec]], goal_cases)
        case (1 r h' l)
        then obtain i where i: "h' = h1\<lparr>init := i\<rparr>" "init_poll_post io now (init h1) r i l" by auto
        have "init_phase (init h1) \<noteq> Ready" using \<open>init h1 = init h \<and> _\<close> False by simp
        then show ?case
          using i \<open>init h1 = init h \<and> _\<close> \<open>parts_ok h1\<close> port_init_writes[of l]
          by (cases r) (auto simp: staged_def init_poll_post_def parts_ok_def)
      qed
      show ?case
        unfolding op_bind_policy
      proof (rule staged_bind[OF advance], goal_cases)
        case (1 res h2 l2)
        show ?case
        proof (cases "drained_alert (init h2)")
          case None
          then show ?thesis
            using 1 unfolding op_bind_policy
            by (cases res) (simp_all add: op_rules staged_def all_writes_quiet settling_ok_def)
        next
          case (Some a)
          then show ?thesis
            using 1 has_session_kept(3)[of "pd h2" a] unfolding op_bind_policy
            by (cases res) (simp_all add: op_rules staged_def all_writes_quiet settling_ok_def parts_ok_def)
        qed
      qed auto
    qed auto
  qed
qed

section \<open>A ready port\<close>

lemma tick_settled:
  assumes "parts_ok h" "init_phase (init h) = Ready"
  shows "parts_ok (boost_tick now was h)" "settling_ok (boost_tick now was h)"
    "init_phase (init (boost_tick now was h)) = Ready"
  using assms
  by (auto simp: boost_tick_def parts_ok_def settling_ok_def clear_source_settle_def Let_def split: if_splits option.splits)

lemma charge_step_staged:
  assumes "init_phase (init h) = Ready" "settling_ok h" "charge_step h r h' l"
  shows "staged ready h settled_stage r h' l"
proof -
  obtain c s where h': "h' = h\<lparr>charge := c, charge_scheduled_at := s\<rparr>" using assms(3) by (auto simp: charge_step_def)
  have "all_writes (port_write ready) l"
    using assms(3) all_writes_mono[of charge_evidence l "port_write ready"] by (auto simp: charge_step_def port_write_def)
  then show ?thesis
    using assms h' by (simp add: staged_def charge_step_def settling_ok_def)
qed

lemma monitor_ready_spec:
  assumes "parts_ok h" "init_phase (init h) = Ready"
  shows "op_spec (monitor_ready (logged io) now alert) h (host_mid ready h)"
  unfolding monitor_ready_def op_bind_policy Let_def host_mid_staged
proof (rule staged_bind[where P = "\<lambda>_ h' _. init_phase (init h') = Ready"], goal_cases)
  case 1
  show ?case
    by (rule op_mono[OF observed_poll_spec])
      (use assms port_source_writes in \<open>auto simp: boost_post_def staged_def parts_ok_def\<close>)
next
  case (2 raw h1 l1)
  have ticked: "op_spec (change (boost_tick now (saved_power (boost h) \<noteq> None))) h1 (staged ready h1 settled_stage)"
    using tick_settled[OF 2(2,1)] by (simp add: op_change staged_def all_writes_quiet)
  show ?case
  proof (rule staged_bind[OF ticked], goal_cases)
    case (1 x h2 l2)
    have pd: "op_spec (on_pd (poll_with_alert (logged io) raw now alert)) h2 (staged ready h2 settled_stage)"
    proof (rule op_mono[OF on_pd_spec[OF pd_monitor_session]], goal_cases)
      case 1
      show ?case using \<open>parts_ok h2\<close> by (simp add: parts_ok_def)
    next
      case (2 r h' l)
      then obtain p q where "h' = h2\<lparr>pd := p\<rparr>" "has_session p" "guarded_writes q l" "r = Ok ()" by auto
      then show ?case
        using 1 port_pd_writes[of q l] by (auto simp: staged_def parts_ok_def settling_ok_def)
    qed
    show ?case
    proof (rule staged_bind[OF pd], goal_cases)
      case (1 x h3 l3)
      have follow: "op_spec (charge_follow (logged io)) h3 (staged ready h3 settled_stage)"
        by (rule op_mono[OF charge_follow_spec[OF 1(2)]]) (use 1 in \<open>auto intro: charge_step_staged\<close>)
      show ?case
      proof (rule staged_bind[OF follow], goal_cases)
        case (1 x h4 l4)
        have tick: "op_spec (on_charge (charge_poll (logged io) (sink_eligible raw) now)) h4 (staged ready h4 settled_stage)"
          by (rule op_mono[OF charge_tick_spec[OF 1(2)]]) (use 1 in \<open>auto intro: charge_step_staged\<close>)
        show ?case
        proof (rule staged_bind[OF tick], goal_cases)
          case (1 x h5 l5)
          show ?case
            unfolding host_mid_staged[symmetric]
            by (rule op_mono[OF host_poll_spec]) (use 1 in \<open>auto simp: host_done_def\<close>)
        qed (auto intro: reported_append)
      qed (auto intro: reported_append)
    qed (auto intro: reported_append)
  qed (auto intro: reported_append)
qed (auto intro: reported_append)

lemma monitor_spec:
  assumes "parts_ok h" "settling_ok h"
  shows "op_spec (monitor (logged io) now) h (host_done (init_phase (init h) = Ready) h)"
  unfolding monitor_def
proof (rule settled_spec, goal_cases)
  case 1
  let ?r = "init_phase (init h) = Ready"
  let ?h = "h\<lparr>monitored_at := now\<rparr>"
  have k: "parts_ok ?h" "settling_ok ?h" using assms by (simp_all add: parts_ok_def settling_ok_def)
  have "op_spec (act_bind (monitor_alert (logged io)) (\<lambda>alert. act_bind (monitor_init (logged io) now alert) (\<lambda>ready.
      if ready then monitor_ready (logged io) now alert else not_ready (logged io)))) ?h
      (staged ?r ?h (\<lambda>st h' l. settling_ok h' \<and> reported h' st l))"
  proof (rule staged_bind[OF monitor_alert_spec[OF k]], goal_cases)
    case (1 alert h1 l1)
    then have same: "(init_phase (init h1) = Ready) = ?r" by simp
    show ?case
    proof (rule staged_bind[OF monitor_init_spec[of h1, unfolded same]], goal_cases)
      case (3 ready h2 l2)
      show ?case
      proof (cases ready)
        case True
        then show ?thesis
          unfolding host_mid_staged[symmetric] using 3 by (auto intro: monitor_ready_spec)
      next
        case False
        have "op_spec (not_ready (logged io)) h2 (staged ?r h2 (\<lambda>st h' l. settling_ok h' \<and> reported h' st l))"
          by (rule op_mono[OF not_ready_spec]) (use 3 in \<open>auto simp: staged_def all_writes_quiet reported_def\<close>)
        then show ?thesis using False by simp
      qed
    qed (use 1 in \<open>auto intro: reported_append\<close>)
  qed (auto intro: reported_append)
  then show ?case
    unfolding monitor_inner_def op_bind_change host_mid_staged
    by (rule op_mono) (simp add: staged_def)
qed

lemma stop_sourcing_spec:
  assumes "parts_ok h"
  shows "op_spec (stop_sourcing (logged io)) h
    (\<lambda>r h' l. r \<noteq> Panic \<and> parts_ok h' \<and> settling_ok h' \<and> all_writes (port_write True) l
       \<and> init h' = init h \<and> (r = Ok () \<longrightarrow> saved_power (boost h') = None \<and> \<not> is_active (charge h')))"
  unfolding stop_sourcing_def op_bind_change
proof (rule op_bind[OF stop_boost_spec], goal_cases)
  case (1 u h1 l1)
  then obtain b where b: "h1 = (clear_source_settle h)\<lparr>boost := b\<rparr>" "saved_power b = None" "all_writes withdrawal_ok l1" by auto
  have w: "all_writes (port_write True) l1" by (intro port_source_writes withdrawals_source b)
  have k: "charged (charge h1)" "has_session (pd h1)" "init h1 = init h"
    "is_active (charge h1) \<longrightarrow> charge_scheduled_at h1 \<noteq> None"
    using assms b(1) by (simp_all add: parts_ok_def clear_source_settle_def)
  have s: "settling_ok (h1\<lparr>charge := c\<rparr>)" for c by (simp add: b(1) settling_ok_def clear_source_settle_def)
  show ?case
  proof (cases "is_active (charge h1)")
    case True
    have "op_spec (on_charge (cancel (logged io))) h1
        (\<lambda>r h' l. r \<noteq> Panic \<and> (\<exists>c. h' = h1\<lparr>charge := c\<rparr> \<and> charged c \<and> \<not> is_active c) \<and> all_writes (port_write True) l)"
      by (rule op_mono[OF on_charge_spec[OF op_conj[OF cancel_spec[OF k(1)] cancel_ends]]])
        (auto simp: poll_post_def port_charge_writes)
    then show ?thesis
      unfolding op_bind_policy op_when if_P[OF True]
      by (rule op_mono) (use k s b w port_app in \<open>auto simp: parts_ok_def\<close>)
  next
    case False
    then show ?thesis
      using k s[of "charge h1"] b w by (simp add: op_rules parts_ok_def)
  qed
next
  case (2 e h1 l1)
  then obtain b where b: "h1 = (clear_source_settle h)\<lparr>boost := b\<rparr>" "all_writes withdrawal_ok l1" by auto
  then show ?case
    using assms port_source_writes[OF withdrawals_source[OF b(2)]]
    by (simp add: parts_ok_def settling_ok_def clear_source_settle_def)
qed auto

section \<open>Runs of the port\<close>

text \<open>The states of the port, whatever the transport answers, however the lock is taken.\<close>

inductive host_run :: "'w Registers \<Rightarrow> HostPolicy \<Rightarrow> bool" for io where
  start: "host_run io default_host"
| monitored: "host_run io h \<Longrightarrow> monitor (logged io) now (h, (w, l)) = (r, (h', (w', l'))) \<Longrightarrow> host_run io h'"
| polled: "host_run io h \<Longrightarrow> host_poll (logged io) (h, (w, l)) = (r, (h', (w', l'))) \<Longrightarrow> host_run io h'"
| stopped: "host_run io h \<Longrightarrow> stop_sourcing (logged io) (h, (w, l)) = (r, (h', (w', l'))) \<Longrightarrow> host_run io h'"

lemma host_run_ok: "host_run io h \<Longrightarrow> parts_ok h \<and> settling_ok h"
proof (induction rule: host_run.induct)
  case start
  have "session_ok default_policy []" by (simp add: session_ok_def default_policy_def default_status_def)
  then show ?case
    by (auto simp: default_host_def parts_ok_def settling_ok_def has_session_def
      charged_def default_charge_def is_active_def default_charge_status_def)
next
  case (monitored h now w l r h' w' l')
  then show ?case using op_result[OF monitor_spec monitored.hyps(2)] by (auto simp: host_done_def host_mid_def)
next
  case (polled h w l r h' w' l')
  then show ?case using op_result[OF host_poll_spec polled.hyps(2)] by (auto simp: host_done_def host_mid_def)
next
  case (stopped h w l r h' w' l')
  then show ?case using op_result[OF stop_sourcing_spec stopped.hyps(2)] by auto
qed

end
