(* ===== verification/Port_Sample.thy ===== *)
theory Port_Sample
  imports Host_Monitor Pd_Sample
begin

text \<open>
  A concrete port: a world of two register files that keep what is written, in which the model is
  evaluated. The theorems about the port are applied on it.
\<close>

type_synonym bench = "(u8 \<Rightarrow> u16) \<times> (u8 \<Rightarrow> u8)"

definition bench_io :: "bench Registers" where
  "bench_io =
     \<lparr>io_read = (\<lambda>(m, c) a r n. (Inr (\<lambda>i. if a = BM92T_ADDRESS then to_le_bytes (m r) ! i else c r), (m, c))),
      io_write = (\<lambda>(m, c) a r d. (Inr (),
        if a = BM92T_ADDRESS then (m(r := from_le_bytes d), c) else (m, c(r := hd d)))),
      io_clock = (\<lambda>w now. (now, w))\<rparr>"

lemma bench_bytes: "map ((!) (to_le_bytes (v :: u16))) [0..<2] = to_le_bytes v"
  by (simp add: to_le_bytes_def numeral_2_eq_2)

lemma bench_word: "word_reg (logged bench_io) r ((m, c), l) = (Ok (m r), ((m, c), l @ [Word r (m r)]))"
  by (simp add: word_reg_def act_defs read_bytes_def logged_def bench_io_def bench_bytes from_le_to_le Word_def)

lemma bench_byte:
  "charger_read (logged bench_io) r ((m, c), l) = (Ok (c r), ((m, c), l @ [Rd CHARGER_ADDRESS r [c r]]))"
  "byte_reg (logged bench_io) r ((m, c), l) = (Ok (c r), ((m, c), l @ [Rd CHARGER_ADDRESS r [c r]]))"
  by (simp_all add: charger_read_def byte_reg_def act_defs read_bytes_def logged_def bench_io_def register_defs byte_at_def)

lemma bench_word_write:
  "write_bytes (logged bench_io) BM92T_ADDRESS r (to_le_bytes v) ((m, c), l) =
     (Ok (), ((m(r := v), c), l @ [Wr BM92T_ADDRESS r (to_le_bytes (v :: u16))]))"
  by (simp add: write_bytes_def logged_def bench_io_def from_le_to_le)

lemma bench_byte_write:
  "write_bytes (logged bench_io) CHARGER_ADDRESS r [v] ((m, c), l) =
     (Ok (), ((m, c(r := v)), l @ [Wr CHARGER_ADDRESS r [v]]))"
  by (simp add: write_bytes_def logged_def bench_io_def register_defs)

lemma bench_clock: "post_io_time (logged bench_io) t (w, l) = (Ok t, (w, l))"
  by (simp add: post_io_time_def logged_def bench_io_def)

definition bench_port :: "(u8 \<Rightarrow> u16) \<Rightarrow> PortState" where
  "bench_port m = from_registers (m STATUS1) (m STATUS2) (m DP_STATUS)"

definition bench_snap :: "(u8 \<Rightarrow> u16) \<Rightarrow> history" where
  "bench_snap m =
     [Word STATUS1 (m STATUS1), Word STATUS2 (m STATUS2), Word DP_STATUS (m DP_STATUS), Word STATUS1 (m STATUS1)]"

lemma bench_snapshot:
  assumes "m STATUS1 AND 3 = 0"
  shows "snapshot_checked (logged bench_io) ((m, c), l) = (Ok (bench_port m), ((m, c), l @ bench_snap m))"
    "snapshot (logged bench_io) ((m, c), l) = (Ok (bench_port m), ((m, c), l @ bench_snap m))"
  using assms
  by (simp_all add: snapshot_def snapshot_checked_def snapshot_once_def numeral_3_eq_3 snapshot_turn_def act_defs
      bench_word bench_port_def bench_snap_def)

lemmas bench_simps = bench_word bench_byte bench_clock bench_snapshot[unfolded register_defs]
  bench_word_write[unfolded register_defs] bench_byte_write[unfolded register_defs]

lemmas combinator_defs = act_defs act_zoom_def act_try_def io_step_def change_def policy_def Let_def

lemmas charger_defs = INPUT_def POWER_def TIMER_def MISC_def STATUS_def MODE_MASK_def CHARGE_MODE_def OTG_MODE_def
  BOOST_LIMIT_def WATCHDOG_MASK_def HIZ_def INPUT_VOLTAGE_MASK_def INPUT_VOLTAGE_def INPUT_CURRENT_MASK_def
  JEITA_VSET_def

lemmas port_defs = CHARGE_MASK_def CHARGER_POWER_def CONFIG1_def VENDOR_CONFIG_def DP_ALERT_ENABLE_def

section \<open>The first step of the monitor\<close>

definition quiet_regs :: "u8 \<Rightarrow> u16" where "quiet_regs = (\<lambda>r. 0)"

definition idle_charger :: "u8 \<Rightarrow> u8" where "idle_charger = (\<lambda>r. 0x10)"

definition bench_host1 :: HostPolicy where
  "bench_host1 = default_host\<lparr>monitored_at := 7,
     init := \<lparr>init_phase = WaitStart, init_deadline = 100000007, drained_alert = None\<rparr>,
     pd := default_policy\<lparr>captured_alert := Some 0\<rparr>\<rparr>"

definition bench_log1 :: history where
  "bench_log1 =
     [Word 2 0, Rd CHARGER_ADDRESS POWER [0x10], Word CONFIG1 0, Wr BM92T_ADDRESS CONFIG1 (to_le_bytes (0xc000 :: u16)),
      Word CONFIG1 0xc000] @ bench_snap (quiet_regs(CONFIG1 := 0xc000))"

lemmas monitor_defs = monitor_def settled_def monitor_inner_def monitor_alert_def monitor_init_def not_ready_def
  observed_by_def on_boost_def on_init_def on_pd_def on_charge_def init_poll_def init_step_def init_wait_def
  init_start_def configure_def prepare_controller_def source_stop_def update_word_def fault_alert_def capture_alert_def

lemmas default_defs = default_host_def default_init_def default_source_def default_policy_def default_status_def

lemmas bench_defs = monitor_defs combinator_defs default_defs port_defs charger_defs register_defs quiet_regs_def
  idle_charger_def bench_snap_def bench_host1_def sat_add_def

lemma bench_monitor1:
  "monitor (logged bench_io) 7 (default_host, ((quiet_regs, idle_charger), [])) =
     (Ok ((bench_port (quiet_regs(CONFIG1 := 0xc000)))\<lparr>is_host := False\<rparr>),
      (bench_host1, ((quiet_regs(CONFIG1 := 0xc000), idle_charger), bench_log1)))"
  by (simp add: bench_simps bench_defs bench_log1_def)

definition bench_host2 :: HostPolicy where
  "bench_host2 = bench_host1\<lparr>monitored_at := 100000007,
     init := \<lparr>init_phase = WaitSettle, init_deadline = 200000007, drained_alert = None\<rparr>\<rparr>"

definition bench_log2 :: history where
  "bench_log2 =
     [Word 2 0, Rd CHARGER_ADDRESS POWER [0x10]] @ bench_snap (quiet_regs(CONFIG1 := 0xc000))
     @ [Word VENDOR_CONFIG 0, Word CONFIG1 0xc000, Wr BM92T_ADDRESS CONFIG1 (to_le_bytes (0 :: u16)), Word CONFIG1 0,
        Wr BM92T_ADDRESS DP_ALERT_ENABLE (to_le_bytes (0 :: u16))] @ bench_snap quiet_regs"

lemma bench_monitor2:
  "monitor (logged bench_io) 100000007 (bench_host1, ((quiet_regs(CONFIG1 := 0xc000), idle_charger), [])) =
     (Ok ((bench_port quiet_regs)\<lparr>is_host := False\<rparr>),
      (bench_host2, ((quiet_regs, idle_charger), bench_log2)))"
  by (simp add: bench_simps bench_defs bench_log2_def bench_host2_def word_le_nat_alt bench_port_def from_registers_def
      fun_upd_idem)

section \<open>A port that is a host\<close>

definition host_regs :: "u8 \<Rightarrow> u16" where "host_regs = (\<lambda>r. if r = STATUS1 then 0x0680 else 0)"

definition bench_host3 :: HostPolicy where
  "bench_host3 = bench_host2\<lparr>monitored_at := 200000007,
     init := \<lparr>init_phase = Ready, init_deadline = 200000007, drained_alert = None\<rparr>,
     pd := default_policy\<lparr>captured_alert := Some 0, orientation := Some Cc1,
       status := default_status\<lparr>last_status1 := 0x0680\<rparr>\<rparr>\<rparr>"

definition bench_stop :: history where
  "bench_stop = [Rd CHARGER_ADDRESS POWER [0x10]]"

definition bench_log3 :: history where
  "bench_log3 =
     Word 2 0 # bench_stop @ bench_snap host_regs @ bench_stop @ bench_snap host_regs @ bench_stop
     @ bench_snap host_regs @ bench_stop @ bench_snap host_regs @ bench_stop"

lemma host_port: "bench_port host_regs = from_registers 0x0680 0 0"
  by (simp add: bench_port_def host_regs_def register_defs)

lemmas source_defs = source_poll_def source_turn_def source_first_def source_blocked_def source_alert_def
  source_finish_def source_apply_def source_observe_def save_power_def attachment_def

lemmas snapshot_defs = bench_port_def from_registers_def can_source_def role_of_def side_of_def host_role_def
  sink_power_valid_def

lemmas ready_defs = poll_with_alert_def poll_def poll_idle_def unstable_def change_status_def ALERT_FAULT_def
  charge_follow_def charge_poll_def is_active_def default_charge_def default_charge_status_def boost_tick_def
  clear_source_settle_def host_view_def host_allowed_def bench_stop_def

lemma bench_monitor3:
  "monitor (logged bench_io) 200000007 (bench_host2, ((host_regs, idle_charger), [])) =
     (Ok (from_registers 0x0680 0 0), (bench_host3, ((host_regs, idle_charger), bench_log3)))"
  by (simp add: bench_simps bench_defs bench_log3_def bench_host2_def bench_host3_def word_le_nat_alt host_port
      source_defs monitor_ready_def host_poll_def host_poll_inner_def host_regs_def ready_defs snapshot_defs)

lemma bench_run: "host_run bench_io bench_host1" "host_run bench_io bench_host2" "host_run bench_io bench_host3"
proof -
  show one: "host_run bench_io bench_host1" by (rule host_run.monitored[OF host_run.start bench_monitor1])
  show two: "host_run bench_io bench_host2" by (rule host_run.monitored[OF one bench_monitor2])
  show "host_run bench_io bench_host3" by (rule host_run.monitored[OF two bench_monitor3])
qed

section \<open>A device that asks for power\<close>

definition device_regs :: "u8 \<Rightarrow> u16" where
  "device_regs = (\<lambda>r. if r = STATUS1 then 0x1680 else if r = STATUS2 then 0x2000 else 0)"

definition boost_log :: history where
  "boost_log = bench_snap device_regs @ bench_snap device_regs @ bench_stop
     @ [Rd CHARGER_ADDRESS TIMER [0x10]] @ bench_snap device_regs
     @ [Wr CHARGER_ADDRESS TIMER [0], Rd CHARGER_ADDRESS TIMER [0], Rd CHARGER_ADDRESS POWER [0x10]] @ bench_snap device_regs
     @ [Wr CHARGER_ADDRESS POWER [0x11], Rd CHARGER_ADDRESS POWER [0x11], Rd CHARGER_ADDRESS POWER [0x11]] @ bench_snap device_regs
     @ [Wr CHARGER_ADDRESS POWER [0x21], Rd CHARGER_ADDRESS POWER [0x21]] @ bench_snap device_regs"

definition boosted :: SourcePolicy where
  "boosted = default_source\<lparr>saved_power := Some 0x10\<rparr>"

lemmas charger_ops = source_enable_def source_safe_def update_def merged_def withdraw_def source_disable_def

lemma bench_boost:
  "source_poll (logged bench_io) (Some 0) (default_source, ((device_regs, idle_charger), [])) =
     (Ok (from_registers 0x1680 0x2000 0),
      (boosted, ((device_regs, idle_charger(TIMER := 0, POWER := 0x21)), boost_log)))"
  by (simp add: bench_simps bench_defs boost_log_def source_defs device_regs_def snapshot_defs bench_stop_def
      charger_ops boosted_def)

text \<open>The monitor of the ready port meets the device.\<close>

definition bench_log4 :: history where
  "bench_log4 = Word 2 0 # boost_log @ bench_snap device_regs @ bench_snap device_regs
     @ [Rd CHARGER_ADDRESS TIMER [0], Rd CHARGER_ADDRESS POWER [0x21], Rd CHARGER_ADDRESS POWER [0x21]] @ bench_snap device_regs"

definition bench_host4 :: HostPolicy where
  "bench_host4 = bench_host3\<lparr>monitored_at := 300000000, boost := boosted, boost_waiting_tick := True,
     pd := default_policy\<lparr>captured_alert := Some 0, orientation := Some Cc1,
       status := default_status\<lparr>last_status1 := 0x1680\<rparr>\<rparr>\<rparr>"

lemma bench_monitor4:
  "monitor (logged bench_io) 300000000 (bench_host3, ((device_regs, idle_charger), [])) =
     (Ok ((from_registers 0x1680 0x2000 0)\<lparr>is_host := False\<rparr>),
      (bench_host4, ((device_regs, idle_charger(TIMER := 0, POWER := 0x21)), bench_log4)))"
  by (simp add: bench_simps bench_defs bench_log4_def boost_log_def bench_host2_def bench_host3_def bench_host4_def
      word_le_nat_alt source_defs monitor_ready_def host_poll_def host_poll_inner_def device_regs_def ready_defs
      snapshot_defs charger_ops boosted_def fun_upd_twist)

section \<open>A contract for 1200 mA\<close>

definition sink_regs :: "u8 \<Rightarrow> u16" where
  "sink_regs = (\<lambda>r. if r = STATUS1 then 0x0580 else 0)"

definition sink_charger :: "u8 \<Rightarrow> u8" where
  "sink_charger = idle_charger(STATUS := 0x80, INPUT := 0x90)"

definition charge1 :: ChargePolicy where
  "charge1 =
     \<lparr>charge_status = \<lparr>charge_phase = Waiting, target_ma = 1200, applied_ma = 0, charger_status = None\<rparr>,
      due_ns = 2000000000, target_index = 4, applied_index = 0, charge_side = None\<rparr>"

definition charge2 :: ChargePolicy where
  "charge2 =
     \<lparr>charge_status = \<lparr>charge_phase = Ramping, target_ma = 1200, applied_ma = 500, charger_status = Some 0x80\<rparr>,
      due_ns = 2001000000, target_index = 4, applied_index = 2, charge_side = Some Cc1\<rparr>"

definition charge_log :: history where
  "charge_log = bench_snap sink_regs @ bench_stop @ [Rd CHARGER_ADDRESS STATUS [0x80], Rd CHARGER_ADDRESS MISC [0x10],
       Rd CHARGER_ADDRESS INPUT [0x90]] @ bench_snap sink_regs
     @ [Wr CHARGER_ADDRESS INPUT [0x10], Rd CHARGER_ADDRESS INPUT [0x10], Rd CHARGER_ADDRESS INPUT [0x10]] @ bench_snap sink_regs
     @ [Wr CHARGER_ADDRESS INPUT [0x32], Rd CHARGER_ADDRESS INPUT [0x32]]"

lemma bench_schedule: "schedule 1200 0 default_charge = charge1"
proof -
  have "rev [0..<8] = [7, 6, 5, 4, 3, 2, 1, 0 :: nat]" by (simp add: upt_rec)
  then have "current_index 1200 = Some 4"
    by (simp add: current_index_def CURRENT_MA_def word_le_nat_alt)
  then show ?thesis
    by (simp add: schedule_def charge1_def default_charge_def default_charge_status_def CURRENT_MA_def sat_add_def
        DELAY_NS_def word_le_nat_alt)
qed

lemma bench_charge:
  "charge_poll (logged bench_io) True 2000000000 (charge1, ((sink_regs, sink_charger), [])) =
     (Ok (), (charge2, ((sink_regs, sink_charger(INPUT := 0x32)), charge_log)))"
  by (simp add: charge_poll_def is_active_def charge1_def recorded_def begin_charge_def begin_source_def begin_input_def
      bench_simps bench_defs sink_regs_def sink_charger_def snapshot_defs sink_def update_def merged_def sink_safe_def
      charge_log_def charge2_def current_at_def CURRENT_MA_def STEP_NS_def bench_stop_def word_less_nat_alt min_def
      word_le_nat_alt)

lemma bench_charge_run: "charge_run bench_io 1200 charge1"
  using charge_run.schedule[OF charge_run.start, of bench_io 1200 0] unfolding bench_schedule .

end
