(* ===== verification/Port_Probe.thy ===== *)
theory Port_Probe
  imports Host_Monitor
begin

text \<open>
  \<open>drivers/usb/tegra210-xusb/src/typec.rs\<close>, the module \<open>hardware\<close>: the registers behind an I2C bus and
  the last part of \<open>TypecPort::probe\<close>, after the device tree was checked. The bus and the timer belong
  to the kernel: \<open>bus_transfer\<close> and \<open>bus_time\<close> are parameters. A transfer fails or fills the data of every
  message, and nothing is assumed of what it fills in.
\<close>

datatype I2cMessage = I2cWrite u8 bytes bool | I2cRead u8 nat bool

record 'w I2cBus =
  bus_transfer :: "'w \<Rightarrow> I2cMessage list \<Rightarrow> (unit + (nat \<Rightarrow> bytes)) \<times> 'w"
  bus_time :: "'w \<Rightarrow> u64 \<times> 'w"

definition READ_FAILED :: reason where "READ_FAILED = ''Switch Type-C I2C read failed''"
definition SHORT_READ :: reason where "SHORT_READ = ''short Switch Type-C I2C read''"
definition INVALID_WRITE :: reason where "INVALID_WRITE = ''invalid Switch Type-C register write''"
definition WRITE_FAILED :: reason where "WRITE_FAILED = ''Switch Type-C I2C write failed''"
definition INITIAL_STATUS :: reason where
  "INITIAL_STATUS = ''initial Type-C status failed and OTG shutdown failed''"

definition hardware_read :: "'w I2cBus \<Rightarrow> 'w \<Rightarrow> u8 \<Rightarrow> u8 \<Rightarrow> nat \<Rightarrow> (reason + (nat \<Rightarrow> u8)) \<times> 'w" where
  "hardware_read bus w address register n =
     (case bus_transfer bus w [I2cWrite address [register] False, I2cRead address n True] of
        (Inl _, w') \<Rightarrow> (Inl READ_FAILED, w')
      | (Inr messages, w') \<Rightarrow>
          if length (messages 1) \<noteq> n then (Inl SHORT_READ, w') else (Inr ((!) (messages 1)), w'))"

definition hardware_write :: "'w I2cBus \<Rightarrow> 'w \<Rightarrow> u8 \<Rightarrow> u8 \<Rightarrow> bytes \<Rightarrow> (reason + unit) \<times> 'w" where
  "hardware_write bus w address register data =
     (if data = [] \<or> 5 < length data then (Inl INVALID_WRITE, w)
      else
        let buffer = splice ((replicate 6 0)[0 := register]) 1 data in
        case bus_transfer bus w [I2cWrite address (take (length data + 1) buffer) True] of
          (Inl _, w') \<Rightarrow> (Inl WRITE_FAILED, w')
        | (Inr _, w') \<Rightarrow> (Inr (), w'))"

definition Hardware :: "'w I2cBus \<Rightarrow> 'w Registers" where
  "Hardware bus = \<lparr>io_read = hardware_read bus, io_write = hardware_write bus, io_clock = (\<lambda>w _. bus_time bus w)\<rparr>"

text \<open>A message that fits is sent as the register and the data behind it.\<close>

lemma hardware_write_fits:
  assumes "0 < length data" "length data \<le> 5"
  shows "hardware_write bus w address register data =
    (case bus_transfer bus w [I2cWrite address (register # data) True] of
       (Inl _, w') \<Rightarrow> (Inl WRITE_FAILED, w') | (Inr _, w') \<Rightarrow> (Inr (), w'))"
proof -
  have "take (length data + 1) (splice ((replicate 6 0)[0 := register]) 1 data) = register # data"
    using assms by (simp add: splice_def numeral_eq_Suc)
  moreover have "\<not> (data = [] \<or> 5 < length data)" using assms by auto
  ultimately show ?thesis unfolding hardware_write_def Let_def by (simp only: if_False)
qed

section \<open>Probing\<close>

definition probe_source :: "'w Registers \<Rightarrow> ('w, reason, Identity) source_action" where
  "probe_source io =
     act_bind (act_on_snd (identify io)) (\<lambda>identity.
     act_bind (act_catch (act_on_snd (snapshot io)) (\<lambda>error.
        act_bind (act_try (source_stop io)) (\<lambda>r.
        case r of Inl _ \<Rightarrow> act_throw INITIAL_STATUS | Inr _ \<Rightarrow> act_throw error))) (\<lambda>_.
     act_bind (source_stop io) (\<lambda>_.
     act_bind (act_catch (act_on_snd (update_word io CONFIG1 (push_bit 14 3) (push_bit 14 3))) (\<lambda>error.
        act_bind (act_try (source_stop io)) (\<lambda>_. act_throw error))) (\<lambda>_.
     act_return identity))))"

definition probe :: "'w Registers \<Rightarrow> ('w, reason, Identity \<times> HostPolicy) action" where
  "probe io w =
     (case probe_source io (default_source, w) of
        (Ok identity, (source, w')) \<Rightarrow>
          (Ok (identity, \<lparr>init = default_init, boost = source, pd = default_policy, charge = default_charge,
             charge_scheduled_at = None, boost_ready_at = None, boost_waiting_tick = False, monitored_at = 0\<rparr>), w')
      | (Err e, (source, w')) \<Rightarrow> (Err e, w')
      | (Panic, (source, w')) \<Rightarrow> (Panic, w'))"

section \<open>What probing shows\<close>

lemma io_check:
  "(c \<Longrightarrow> Q (Err e) []) \<Longrightarrow> (\<not> c \<Longrightarrow> io_spec m Q) \<Longrightarrow> io_spec (if c then act_throw e else m) Q"
  by (cases c) (simp_all add: io_rules)

lemma identify_spec:
  "io_spec (identify (logged io))
    (\<lambda>r l. r \<noteq> Panic \<and> writes l = [] \<and> (\<forall>i. r = Ok i \<longrightarrow>
       l = [Word MANUFACTURER_ID 0x04b5, Word DEVICE_ID 0x03b0, Word FW_TYPE (firmware_type i),
            Word FW_REVISION (firmware_revision i), Rd CHARGER_ADDRESS CHARGER_ID [0x2f]]
       \<and> 0x0644 < firmware_revision i \<and> firmware_revision i \<noteq> 0xffff))"
  unfolding identify_def
  by (intro io_bind[OF io_word_reg] io_bind[OF io_byte_reg] io_check) (auto simp: io_rules not_le)

definition identified :: "history \<Rightarrow> bool" where
  "identified l \<longleftrightarrow>
     (\<exists>t v l'. l = [Word MANUFACTURER_ID 0x04b5, Word DEVICE_ID 0x03b0, Word FW_TYPE t, Word FW_REVISION v,
            Rd CHARGER_ADDRESS CHARGER_ID [0x2f]] @ l' \<and> 0x0644 < v \<and> v \<noteq> 0xffff)"

lemma identified_more: "identified l \<Longrightarrow> identified (l @ l')"
  unfolding identified_def by auto

text \<open>
  What a probe may write: to the charger, values that do not turn the boost on; to the controller, its first
  configuration word, with both source paths switched off.
\<close>

definition probe_write :: evidence where
  "probe_write l w \<longleftrightarrow>
     withdraw_only l w \<or> (\<exists>v. w = (BM92T_ADDRESS, CONFIG1, to_le_bytes (v :: u16)) \<and> v AND push_bit 14 3 = push_bit 14 3)"

lemma probe_write_suffixed: "suffixed probe_write"
  using withdraw_only_suffixed unfolding suffixed_def probe_write_def by blast

lemmas probe_app = all_writes_append[OF probe_write_suffixed]

lemma withdraw_probe: "all_writes withdraw_only l \<Longrightarrow> all_writes probe_write l"
  by (erule all_writes_mono) (simp add: probe_write_def)

lemma update_word_writes:
  "io_spec (update_word (logged io) r msk bits)
    (\<lambda>res l. \<forall>w \<in> set (writes l). \<exists>v. w = (BM92T_ADDRESS, r, to_le_bytes v) \<and> v AND msk = bits AND msk)"
  unfolding update_word_def
proof (rule io_bind[OF io_word_reg], goal_cases)
  case (1 old l)
  then have quiet: "writes l = []" by auto
  let ?new = "(old AND NOT msk) OR (bits AND msk)"
  let ?Q = "\<lambda>l. \<forall>w \<in> set (writes l). \<exists>v. w = (BM92T_ADDRESS, r, to_le_bytes v) \<and> v AND msk = bits AND msk"
  have masked: "?new AND msk = bits AND msk" by (rule bit_word_eqI) (auto simp: bit_simps)
  have rest: "io_spec (act_bind (word_reg (logged io) r) (\<lambda>b. act_when (b AND msk \<noteq> ?new AND msk) (act_throw NOT_LATCHED)))
      (\<lambda>_ l'. ?Q (l @ lw @ l'))" if "?Q lw" for lw
    by (rule io_bind[OF io_word_reg]) (use that quiet in \<open>auto simp: io_rules\<close>)
  have sent: "io_spec (act_bind (write_bytes (logged io) BM92T_ADDRESS r (to_le_bytes ?new)) (\<lambda>_.
      act_bind (word_reg (logged io) r) (\<lambda>b. act_when (b AND msk \<noteq> ?new AND msk) (act_throw NOT_LATCHED))))
      (\<lambda>_ l'. ?Q (l @ l'))"
  proof (rule io_bind[OF io_write_bytes], goal_cases)
    case (1 u lw)
    then have "?Q lw" using masked by auto
    then show ?case by (rule rest)
  next
    case (2 e lw)
    then show ?case using masked quiet by auto
  qed auto
  then show ?case using quiet by (simp add: io_when Let_def)
qed auto

definition probe_post :: "(reason, Identity) outcome \<Rightarrow> SourcePolicy \<Rightarrow> history \<Rightarrow> bool" where
  "probe_post r p l \<longleftrightarrow>
     r \<noteq> Panic \<and> all_writes probe_write l \<and> (writes l \<noteq> [] \<longrightarrow> identified l)
     \<and> (\<forall>i. r = Ok i \<longrightarrow> identified l \<and> p = default_source
          \<and> (\<exists>l1 l2. l = l1 @ l2 \<and> boost_off l1 \<and> init_writes l2 \<and> word_back CONFIG1 (push_bit 14 3) (push_bit 14 3) l2))"

lemma paths_off_spec:
  "io_spec (update_word (logged io) CONFIG1 (push_bit 14 3) (push_bit 14 3))
    (\<lambda>r l. r \<noteq> Panic \<and> init_writes l \<and> all_writes probe_write l
      \<and> (r = Ok () \<longrightarrow> word_back CONFIG1 (push_bit 14 3) (push_bit 14 3) l))"
proof (rule io_mono[OF io_conj[OF update_word_spec update_word_writes]], simp, goal_cases)
  case (1 r l)
  then have each: "\<exists>v. w = (BM92T_ADDRESS, CONFIG1, to_le_bytes (v :: u16)) \<and> v AND push_bit 14 3 = push_bit 14 3"
    if "w \<in> set (writes l)" for w
    using that by (auto simp: and.idem)
  have "probe_write pre w" if "l = pre @ x # post" "writes [x] = [w]" for pre x post w
    using each[of w] that(2) unfolding that(1) writes_append writes_cons[of x post] by (auto simp: probe_write_def)
  then show ?case using 1 by (simp add: all_writes_def)
qed

text \<open>A stop whose result is dropped, before an error is returned.\<close>

lemma try_stop_spec:
  assumes "\<And>r p' l. all_writes probe_write l \<Longrightarrow> op_spec (f r) p' (\<lambda>x p'' l'. Q x p'' (l @ l'))"
  shows "op_spec (act_bind (act_try (source_stop (logged io))) f) p Q"
proof (rule op_bind)
  show "op_spec (act_try (source_stop (logged io))) p
      (\<lambda>r p' l. r \<noteq> Panic \<and> (\<forall>e. r \<noteq> Err e) \<and> all_writes probe_write l)"
  proof (rule op_try, rule op_mono[OF source_stop_only], goal_cases)
    case (1 r p' l)
    then show ?case
      by (cases r) (auto simp: stop_post_def withdraw_probe)
  qed
qed (use assms in auto)

lemma probe_source_spec: "op_spec (probe_source (logged io)) default_source probe_post"
  unfolding probe_source_def
proof (rule op_bind[OF op_on_io[OF io_mono[OF identify_spec], where
      Q = "\<lambda>r p l. p = default_source \<and> r \<noteq> Panic \<and> writes l = [] \<and> (\<forall>i. r = Ok i \<longrightarrow> identified l)"]], goal_cases)
  case (1 r l)
  then show ?case by (auto simp: identified_def)
next
  case (2 i p0 l0)
  then have p0: "p0 = default_source" and id: "identified (l0 @ l)" and quiet: "writes l0 = []" for l
    by (auto intro: identified_more)
  have w0: "all_writes probe_write (l0 @ l)" if "all_writes probe_write l" for l
    using all_writes_later[OF probe_write_suffixed that quiet] .
  have failed: "probe_post (Err e) p (l0 @ l)" if "all_writes probe_write l" for e p l
    using w0[OF that] id by (simp add: probe_post_def)
  have snap: "op_spec (act_catch (act_on_snd (snapshot (logged io))) (\<lambda>error.
        act_bind (act_try (source_stop (logged io))) (\<lambda>r.
        case r of Inl _ \<Rightarrow> act_throw INITIAL_STATUS | Inr _ \<Rightarrow> act_throw error))) default_source
      (\<lambda>r p l. r \<noteq> Panic \<and> all_writes probe_write l \<and> (\<forall>st. r = Ok st \<longrightarrow> p = default_source))"
  proof (rule op_catch[OF quiet_on_snd[OF quiet_snapshot]], goal_cases)
    case (2 e p' l)
    then have "writes l = []" by simp
    then show ?case
      by (intro try_stop_spec)
        (auto simp: op_rules intro: all_writes_later[OF probe_write_suffixed] split: sum.splits)
  qed (auto simp: all_writes_quiet)
  show ?case
    unfolding p0
  proof (rule op_bind[OF snap], goal_cases)
    case (1 st p1 l1)
    then have p1: "p1 = default_source" "all_writes probe_write l1" by auto
    show ?case
      unfolding p1(1)
    proof (rule op_bind[OF source_stop_only], goal_cases)
      case (1 u p2 l2)
      then have p2: "p2 = default_source" "boost_off l2" "all_writes probe_write l2"
        by (auto simp: stop_post_def default_source_def withdraw_probe)
      have w2: "all_writes probe_write (l1 @ l2)" by (rule probe_app[OF p1(2) p2(3)])
      have upd: "op_spec (act_catch (act_on_snd (update_word (logged io) CONFIG1 (push_bit 14 3) (push_bit 14 3))) (\<lambda>error.
            act_bind (act_try (source_stop (logged io))) (\<lambda>_. act_throw error))) default_source
          (\<lambda>r p l. r \<noteq> Panic \<and> all_writes probe_write l
            \<and> (\<forall>u. r = Ok u \<longrightarrow> p = default_source \<and> init_writes l \<and> word_back CONFIG1 (push_bit 14 3) (push_bit 14 3) l))"
      proof (rule op_catch[OF op_on_io[OF io_mono[OF paths_off_spec], where
            Q = "\<lambda>r p l. p = default_source \<and> r \<noteq> Panic \<and> init_writes l \<and> all_writes probe_write l
              \<and> (r = Ok () \<longrightarrow> word_back CONFIG1 (push_bit 14 3) (push_bit 14 3) l)"]], goal_cases)
        case (3 e p' l)
        then have "all_writes probe_write l" by simp
        then show ?case by (intro try_stop_spec) (auto simp: op_rules intro: probe_app)
      qed auto
      show ?case
        unfolding p2(1)
      proof (rule op_bind[OF upd], goal_cases)
        case (1 u p3 l3)
        then have "all_writes probe_write (l1 @ l2 @ l3)" using probe_app[OF w2] by simp
        moreover have "\<exists>k1 k2. l0 @ l1 @ l2 @ l3 = k1 @ k2 \<and> boost_off k1 \<and> init_writes k2
            \<and> word_back CONFIG1 (push_bit 14 3) (push_bit 14 3) k2"
          using 1 boost_off_append[OF p2(2), of "l0 @ l1"]
          by (intro exI[of _ "l0 @ l1 @ l2"] exI[of _ l3]) auto
        ultimately show ?case using 1 id w0 by (simp add: op_rules probe_post_def)
      next
        case (2 e p3 l3)
        then have "all_writes probe_write (l1 @ l2 @ l3)" using probe_app[OF w2] by simp
        then show ?case by (rule failed)
      qed auto
    next
      case (2 e p2 l2)
      then have "all_writes probe_write (l1 @ l2)"
        using probe_app[OF p1(2)] by (auto simp: stop_post_def withdraw_probe)
      then show ?case by (rule failed)
    qed (simp add: stop_post_def)
  next
    case (2 e p1 l1)
    then show ?case using failed by auto
  qed auto
qed (auto simp: probe_post_def all_writes_quiet)

end
