(* ===== verification/Host_Settle.thy ===== *)
theory Host_Settle
  imports Port_Host
begin

text \<open>
  The settling time of the boost: no operation of the port sets its end but the tick of the monitor,
  220 ms after the time of the monitor's step. The lemmas hold over any bus; they only follow the
  state of the port through the combinators.
\<close>

definition moves :: "('p \<Rightarrow> 'p \<Rightarrow> bool) \<Rightarrow> ('p \<times> 'w, 'e, 'a) action \<Rightarrow> bool" where
  "moves R m \<longleftrightarrow> (\<forall>p w. R p (fst (snd (m (p, w)))))"

text \<open>The end of the settling time is kept, cleared, or set to 220 ms after \<open>now\<close>.\<close>

definition settles :: "u64 \<Rightarrow> HostPolicy \<Rightarrow> HostPolicy \<Rightarrow> bool" where
  "settles now h h' \<longleftrightarrow>
     boost_ready_at h' = None \<or> boost_ready_at h' = boost_ready_at h \<or> boost_ready_at h' = Some (sat_add now 220000000)"

named_theorems moves_rules \<open>operations of the port that only move the end of the settling time as allowed\<close>

lemma settles_refl: "settles now h h"
  by (simp add: settles_def)

lemma settles_trans: "settles now h h1 \<Longrightarrow> settles now h1 h2 \<Longrightarrow> settles now h h2"
  by (auto simp: settles_def)

lemma moves_bind [moves_rules]:
  assumes "moves (settles now) m" "\<And>a. moves (settles now) (f a)"
  shows "moves (settles now) (act_bind m f)"
  unfolding moves_def
proof (intro allI)
  fix p and w :: 'a
  obtain r p' w' where m: "m (p, w) = (r, (p', w'))" by (metis surj_pair)
  have "settles now p p'" using assms(1) m unfolding moves_def by (metis fst_conv snd_conv)
  moreover have "settles now p' (fst (snd (f a (p', w'))))" for a using assms(2) by (simp add: moves_def)
  ultimately show "settles now p (fst (snd (act_bind m f (p, w))))"
    using settles_trans by (cases r) (auto simp: act_bind_def m)
qed

lemma moves_catch [moves_rules]:
  assumes "moves (settles now) m" "\<And>e. moves (settles now) (f e)"
  shows "moves (settles now) (act_catch m f)"
  unfolding moves_def
proof (intro allI)
  fix p and w :: 'a
  obtain r p' w' where m: "m (p, w) = (r, (p', w'))" by (metis surj_pair)
  have "settles now p p'" using assms(1) m unfolding moves_def by (metis fst_conv snd_conv)
  moreover have "settles now p' (fst (snd (f e (p', w'))))" for e using assms(2) by (simp add: moves_def)
  ultimately show "settles now p (fst (snd (act_catch m f (p, w))))"
    using settles_trans by (cases r) (auto simp: act_catch_def m)
qed

lemma moves_try [moves_rules]: "moves R m \<Longrightarrow> moves R (act_try m)"
  by (auto simp: moves_def act_try_def split: prod.splits outcome.splits) (metis fst_conv snd_conv)+

lemma moves_zoom: "(\<And>p x. R p (put x p)) \<Longrightarrow> moves R (act_zoom get put m)"
  by (simp add: moves_def act_zoom_def split: prod.splits)

lemma moves_parts [moves_rules]:
  "moves (settles now) (on_init mi)" "moves (settles now) (on_boost mb)" "moves (settles now) (on_charge mc)"
  by (simp_all add: on_init_def on_boost_def on_charge_def moves_zoom settles_def)

lemma moves_throw [moves_rules]: "moves (settles now) (act_throw e)" "moves (settles now) (act_return a)"
  by (simp_all add: moves_def act_throw_def act_return_def settles_refl)

lemma moves_pd [moves_rules]: "moves (settles now) (on_pd m)"
  unfolding on_pd_def act_map_err_def
  by (intro moves_rules moves_zoom) (simp add: settles_def)

lemma moves_policy [moves_rules]: "moves (settles now) policy"
  by (simp add: moves_def policy_def act_bind_def act_get_def act_return_def settles_refl)

lemma moves_snd [moves_rules]: "moves (settles now) (act_on_snd m)"
  by (simp add: moves_def act_on_snd_def settles_refl split: prod.splits)

lemma moves_io [moves_rules]: "moves (settles now) (io_step m f)"
  unfolding io_step_def act_map_err_def by (intro moves_rules)

lemma moves_change: "(\<And>h. settles now h (f h)) \<Longrightarrow> moves (settles now) (change f)"
  by (simp add: moves_def change_def act_modify_def)

lemma moves_when [moves_rules]: "moves (settles now) m \<Longrightarrow> moves (settles now) (act_when c m)"
  by (simp add: act_when_def moves_rules)

lemma settles_steps:
  "settles now h (clear_source_settle h)" "settles now h (boost_tick now c h)"
  "boost_ready_at h' = boost_ready_at h \<Longrightarrow> settles now h h'"
  by (auto simp: settles_def clear_source_settle_def boost_tick_def Let_def)

lemma moves_observation [moves_rules]: "moves (settles now) (observation_lost io e)"
  unfolding observation_lost_def
  by (intro moves_rules, cases e) (auto intro!: moves_rules moves_change settles_steps(3))

lemma moves_observed [moves_rules]: "moves (settles now) m \<Longrightarrow> moves (settles now) (observed_by io m)"
  unfolding observed_by_def by (intro moves_rules)

lemma moves_settled [moves_rules]: "moves (settles now) m \<Longrightarrow> moves (settles now) (settled m)"
  unfolding settled_def by (intro moves_rules moves_change settles_steps)

lemma moves_host_poll [moves_rules]: "moves (settles now) (host_poll io)"
  unfolding host_poll_def host_poll_inner_def not_ready_def Let_def
  by (auto intro!: moves_rules moves_change settles_steps)

lemma moves_monitor_init [moves_rules]: "moves (settles now) (monitor_init io t alert)"
  unfolding monitor_init_def
  by (auto intro!: moves_rules moves_change settles_steps(3) split: option.splits sum.splits)

lemma moves_charge_follow [moves_rules]: "moves (settles now) (charge_follow io)"
  unfolding charge_follow_def Let_def
  by (auto intro!: moves_rules moves_change settles_steps(3) split: option.splits)

lemma moves_monitor: "moves (settles now) (monitor io now)"
  unfolding monitor_def monitor_inner_def monitor_alert_def monitor_ready_def not_ready_def Let_def
  by (auto intro!: moves_rules moves_change settles_steps)

text \<open>A step that sets another end sets it to 220 ms after its time.\<close>

lemma settle_end:
  assumes "moves (settles now) m" "m (h, w) = (r, (h', w'))" "boost_ready_at h' = Some d"
  shows "boost_ready_at h = Some d \<or> d = sat_add now 220000000"
proof -
  have "settles now h h'" using assms(1,2) unfolding moves_def by (metis fst_conv snd_conv)
  then show ?thesis using assms(3) by (auto simp: settles_def)
qed

end
