(* ===== verification/Port_Claims.thy ===== *)
theory Port_Claims
  imports Port_Sample Port_Probe Host_Settle
begin

text \<open>The properties of the port: the boost, the initialization, the charging and their composition.\<close>

section \<open>The parts\<close>

text \<open>C11: A poll of the policy that powers an attached device fails closed, whatever the devices answer.
  It never panics; when it returns an error, the boost was read back as off at its end and no charge
  mode is kept, unless the withdrawal itself failed, which is the one error reported as such; when
  it returns a state, that state was read in a stable snapshot, and if it shows no device that asks
  for power, the boost was read back as off after it.\<close>

theorem boost_fail_closed:
  assumes "source_poll (logged io) captured (p, (w, [])) = (r, (p', (w', l)))"
  shows "r \<noteq> Panic
    \<and> (\<forall>e. r = Err e \<longrightarrow> e = ObsUnsafe SHUTDOWN_FAILED \<or> boost_off l \<and> saved_power p' = None)
    \<and> (\<forall>st. r = Ok st \<longrightarrow> (\<exists>l1 l2. l = l1 @ l2 \<and> stable st l1
         \<and> (if can_source st then l2 = [] else boost_off l2 \<and> saved_power p' = None)))"
proof -
  have post: "source_post p r p' l"
    using op_result[OF source_poll_spec assms] by simp
  have "\<exists>l1 l2. l = l1 @ l2 \<and> stable st l1 \<and> (if can_source st then l2 = [] else boost_off l2 \<and> saved_power p' = None)"
    if "r = Ok st" for st
  proof -
    have "settled_boost st p' l" using post that by (simp add: source_post_def turn_post_def)
    then show ?thesis unfolding settled_boost_def by (cases "can_source st") auto
  qed
  moreover have "r \<noteq> Panic" "\<forall>e. r = Err e \<longrightarrow> e = ObsUnsafe SHUTDOWN_FAILED \<or> boost_off l \<and> saved_power p' = None"
    using post by (simp_all add: source_post_def turn_post_def)
  ultimately show ?thesis by blast
qed

theorem boost_fail_closed_witness:
  "\<exists>l1 l2. boost_log = l1 @ l2 \<and> stable (from_registers 0x1680 0x2000 0) l1 \<and> l2 = []"
  using boost_fail_closed[OF bench_boost] by (auto simp: can_source_def from_registers_def role_of_def split: if_splits)

text \<open>C12: A remembered fault is a latch. While a poll sees no stable snapshot of the cable detached or
  turned away from the side of the fault, it returns an error, writes nothing that turns the boost
  on, and keeps the fault, unless it read a new fault with the cable elsewhere, which replaces it.\<close>

theorem source_fault_latched:
  assumes "source_poll (logged io) captured (p, (w, [])) = (r, (p', (w', l)))"
    and "fault_attachment p = Some o'"
    and "\<not> (\<exists>l1 l2 st. l = l1 @ l2 \<and> stable st l1 \<and> (\<not> attached st \<or> side st \<noteq> o'))"
  shows "(\<exists>e. r = Err e)
    \<and> (\<forall>pre x post a reg d. l = pre @ x # post \<and> writes [x] = [(a, reg, d)]
         \<longrightarrow> withdraw_only pre (a, reg, d) \<or> (a, reg, d) = reset_write \<and> boost_off pre)
    \<and> (fault_attachment p' = Some o'
       \<or> (\<exists>l1 l2 st. l = l1 @ l2 \<and> faulted st l1 \<and> (\<not> attached st \<or> side st \<noteq> o')))"
proof -
  have "latch p r p' l"
    using op_result[OF source_poll_spec assms(1)] by (simp add: source_post_def turn_post_def)
  moreover have "\<not> saw o' l" using assms(3) unfolding saw_def elsewhere_def .
  ultimately have "(\<exists>e. r = Err e) \<and> all_writes withdrawal_ok l \<and> held o' p' l"
    using assms(2) unfolding latch_def by blast
  then show ?thesis
    unfolding all_writes_def withdrawal_ok_def held_def saw_fault_def elsewhere_def by blast
qed

lemma latched_poll:
  "source_poll (logged bench_io) (Some 0) (default_source\<lparr>fault_attachment := Some Cc1\<rparr>, ((device_regs, idle_charger), [])) =
     (Err (ObsUnsafe SOURCE_FAULT), (default_source\<lparr>fault_attachment := Some Cc1\<rparr>,
       ((device_regs, idle_charger), bench_snap device_regs @ bench_stop @ bench_stop)))"
  by (simp add: bench_simps bench_defs source_defs device_regs_def snapshot_defs bench_stop_def elsewhere_def)

lemma latched_view:
  assumes "bench_snap device_regs @ bench_stop @ bench_stop = l1 @ l2" "stable st l1"
  shows "attached st" "side st = Cc1"
proof -
  have same: "Word a u = Word b v \<longleftrightarrow> a = b \<and> u = v" for a b u v
  proof
    assume "Word a u = Word b v"
    then have eq: "a = b" "to_le_bytes u = to_le_bytes v" by (simp_all add: Word_def)
    have "from_le_bytes (to_le_bytes x) = x" for x :: u16 by (rule from_le_to_le[of 2]) simp
    from this[of u] this[of v] show "a = b \<and> u = v" unfolding eq(2) by (intro conjI eq(1)) (erule subst, assumption)
  qed simp
  obtain s1 s2 dp where st: "st = from_registers s1 s2 dp" "Word STATUS1 s1 \<in> set l1"
    using assms(2) unfolding stable_def by auto
  then have "Word STATUS1 s1 \<in> set (bench_snap device_regs @ bench_stop @ bench_stop)"
    unfolding assms(1) by simp
  moreover have "STATUS1 \<noteq> STATUS2" "STATUS1 \<noteq> DP_STATUS" by (simp_all add: register_defs)
  moreover have "Word STATUS1 s1 \<noteq> Rd CHARGER_ADDRESS POWER [0x10]" by (simp add: Word_def register_defs)
  ultimately have "s1 = 0x1680"
    by (auto simp: bench_snap_def bench_stop_def same device_regs_def)
  then show "attached st" "side st = Cc1" by (simp_all add: st(1) from_registers_def side_of_def)
qed

theorem source_fault_latched_witness:
  "\<exists>r p' s'. source_poll (logged bench_io) (Some 0) (default_source\<lparr>fault_attachment := Some Cc1\<rparr>, ((device_regs, idle_charger), []))
       = (r, (p', s')) \<and> (\<exists>e. r = Err e) \<and> fault_attachment p' = Some Cc1"
proof -
  have "\<not> (\<exists>l1 l2 st. bench_snap device_regs @ bench_stop @ bench_stop = l1 @ l2 \<and> stable st l1
      \<and> (\<not> attached st \<or> side st \<noteq> Cc1))"
    using latched_view by blast
  from source_fault_latched[OF latched_poll _ this] show ?thesis
    using latched_poll by auto
qed






section \<open>The port\<close>

text \<open>C14: The state behind the lock of the port is well formed in every run, whatever the devices answer and
  whichever steps fail: the charging target is a valid index of the table of currents, a ramp has a
  side and is below its target, the reported current is the one that was applied, active charging
  belongs to a deadline the negotiation has set, the negotiation is in one of its sessions, and the
  boost is only waited for while it is on and the controller is ready.\<close>

theorem port_well_formed:
  assumes "host_run io h"
  shows "target_index (charge h) \<le> 7
    \<and> (charge_phase (charge_status (charge h)) = Ramping
         \<longrightarrow> applied_index (charge h) < target_index (charge h) \<and> charge_side (charge h) \<noteq> None)
    \<and> (charge_phase (charge_status (charge h)) \<in> {Ramping, ChargeComplete}
         \<longrightarrow> applied_ma (charge_status (charge h)) = CURRENT_MA ! unat (applied_index (charge h)))
    \<and> (is_active (charge h) \<longrightarrow> charge_scheduled_at h \<noteq> None)
    \<and> (\<exists>ws. session_ok (pd h) ws)
    \<and> (boost_ready_at h \<noteq> None \<or> boost_waiting_tick h
         \<longrightarrow> saved_power (boost h) \<noteq> None \<and> init_phase (init h) = Ready)"
proof -
  have "parts_ok h" "settling_ok h" using host_run_ok[OF assms] by simp_all
  then show ?thesis
    unfolding parts_ok_def settling_ok_def charged_def has_session_def by auto
qed

theorem port_well_formed_witness:
  "boost_waiting_tick bench_host4 \<and> saved_power (boost bench_host4) \<noteq> None"
proof -
  have "boost_waiting_tick bench_host4" by (simp add: bench_host4_def)
  then show ?thesis using port_well_formed[OF host_run.monitored[OF bench_run(3) bench_monitor4]] by simp
qed

text \<open>C9: A step of the monitor from a state of a run never panics, and every message it writes rests on
  evidence read directly before it: the boost and the controller's reset (\<open>source_ok\<close>), the charging
  input (\<open>charge_evidence\<close>), the negotiation's messages (\<open>pd_evidence\<close>); the messages of the
  initialization are written only while the controller is not ready. Every message has one to five
  bytes, as the write of the hardware demands.\<close>

theorem port_writes_guarded:
  assumes "host_run io h" "monitor (logged io) now (h, (w, [])) = (r, (h', (w', l)))"
  shows "r \<noteq> Panic
    \<and> (\<forall>pre x post a reg d. l = pre @ x # post \<and> writes [x] = [(a, reg, d)] \<longrightarrow>
         0 < length d \<and> length d \<le> 5
         \<and> (source_ok pre (a, reg, d) \<or> charge_evidence pre (a, reg, d) \<or> pd_evidence pre (a, reg, d)
            \<or> init_phase (init h) \<noteq> Ready \<and> init_write (a, reg, d)))"
proof -
  have "host_done (init_phase (init h) = Ready) h r h' l"
    using host_run_ok[OF assms(1)] op_result[OF monitor_spec assms(2)] by simp
  then have all: "r \<noteq> Panic" "all_writes (port_write (init_phase (init h) = Ready)) l"
    by (simp_all add: host_done_def host_mid_def)
  have fits: "0 < length d \<and> length d \<le> 5" if "port_write ready pre (a, reg, d)" for ready pre a reg d
    using that by (rule port_write_fits)
  show ?thesis
  proof (intro conjI allI impI)
    fix pre x post a reg d
    assume "l = pre @ x # post \<and> writes [x] = [(a, reg, d)]"
    then have ok: "port_write (init_phase (init h) = Ready) pre (a, reg, d)" using all(2) unfolding all_writes_def by blast
    then show "0 < length d" "length d \<le> 5" using fits by blast+
    show "source_ok pre (a, reg, d) \<or> charge_evidence pre (a, reg, d) \<or> pd_evidence pre (a, reg, d)
        \<or> init_phase (init h) \<noteq> Ready \<and> init_write (a, reg, d)"
      using ok unfolding port_write_def .
  qed (rule all(1))
qed

theorem port_writes_guarded_witness:
  "source_ok (Word 2 0 # bench_snap device_regs @ bench_snap device_regs @ bench_stop
     @ [Rd CHARGER_ADDRESS TIMER [0x10]] @ bench_snap device_regs) (CHARGER_ADDRESS, TIMER, [0])"
proof -
  let ?pre = "Word 2 0 # bench_snap device_regs @ bench_snap device_regs @ bench_stop
     @ [Rd CHARGER_ADDRESS TIMER [0x10]] @ bench_snap device_regs"
  have "\<exists>post. bench_log4 = ?pre @ Wr CHARGER_ADDRESS TIMER [0] # post" by (simp add: bench_log4_def boost_log_def)
  then have "source_ok ?pre (CHARGER_ADDRESS, TIMER, [0]) \<or> charge_evidence ?pre (CHARGER_ADDRESS, TIMER, [0])
      \<or> pd_evidence ?pre (CHARGER_ADDRESS, TIMER, [0])
      \<or> init_phase (init bench_host3) \<noteq> Ready \<and> init_write (CHARGER_ADDRESS, TIMER, [0])"
    using port_writes_guarded[OF bench_run(3) bench_monitor4] by fastforce
  moreover have "\<not> charge_evidence ?pre (CHARGER_ADDRESS, TIMER, [0])"
    by (simp add: charge_evidence_def charge_ok_def charger_defs)
  moreover have "\<not> pd_evidence ?pre (CHARGER_ADDRESS, TIMER, [0])"
    by (simp add: pd_evidence_def pd_message_def command_write_def register_defs)
  ultimately show ?thesis by (simp add: bench_host3_def)
qed

text \<open>C8: The port never feeds power into a cable it has not just looked at. A value a step of the monitor
  writes to the charger that selects the boost mode is written directly after the registers of the
  port were read in a stable snapshot without a fault, which showed a device that asks for power;
  or the mode was already on in the read just before, and the value switches the boost's limit off
  on the way to withdraw it.\<close>

theorem port_boost_guarded:
  assumes "host_run io h" "monitor (logged io) now (h, (w, [])) = (r, (h', (w', l)))"
    and "l = pre @ x # post" "writes [x] = [(CHARGER_ADDRESS, POWER, [v])]" "v AND MODE_MASK = OTG_MODE"
  shows "(\<exists>pre' s1 s2 dp. pre = pre' @ [Word STATUS1 s1, Word STATUS2 s2, Word DP_STATUS dp, Word STATUS1 s1]
        \<and> s1 AND 3 = 0 \<and> can_source (from_registers s1 s2 dp))
    \<or> v AND BOOST_LIMIT = 0
        \<and> (\<exists>pre' old. pre = pre' @ [Rd CHARGER_ADDRESS POWER [old]] \<and> old AND MODE_MASK = OTG_MODE)"
proof -
  let ?w = "(CHARGER_ADDRESS, POWER, [v])"
  have "host_done (init_phase (init h) = Ready) h r h' l"
    using host_run_ok[OF assms(1)] op_result[OF monitor_spec assms(2)] by simp
  then have "port_write (init_phase (init h) = Ready) pre ?w"
    using assms(3,4) unfolding host_done_def host_mid_def all_writes_def by blast
  moreover have "\<not> charge_evidence pre ?w" "\<not> init_write ?w" "\<not> pd_evidence pre ?w" "?w \<noteq> reset_write"
    by (auto simp: charge_evidence_def charge_ok_def charger_defs init_write_def register_defs pd_evidence_def
        pd_message_def command_write_def reset_write_def)
  ultimately have "boost_ok pre ?w" by (auto simp: port_write_def source_ok_def)
  then have "source_evidence pre \<or> withdraws pre v" by (auto simp: boost_ok_def charger_defs)
  then show ?thesis
  proof
    assume "source_evidence pre"
    then show ?thesis unfolding source_evidence_def stable_def by blast
  next
    assume "withdraws pre v"
    then show ?thesis using assms(5) unfolding withdraws_def by blast
  qed
qed

theorem port_boost_guarded_witness:
  "\<exists>pre' s1 s2 dp. Word 2 0 # bench_snap device_regs @ bench_snap device_regs @ bench_stop
     @ [Rd CHARGER_ADDRESS TIMER [0x10]] @ bench_snap device_regs
     @ [Wr CHARGER_ADDRESS TIMER [0], Rd CHARGER_ADDRESS TIMER [0], Rd CHARGER_ADDRESS POWER [0x10]] @ bench_snap device_regs
     @ [Wr CHARGER_ADDRESS POWER [0x11], Rd CHARGER_ADDRESS POWER [0x11], Rd CHARGER_ADDRESS POWER [0x11]] @ bench_snap device_regs
     = pre' @ [Word STATUS1 s1, Word STATUS2 s2, Word DP_STATUS dp, Word STATUS1 s1]
     \<and> can_source (from_registers s1 s2 dp)"
proof -
  let ?pre = "Word 2 0 # bench_snap device_regs @ bench_snap device_regs @ bench_stop
     @ [Rd CHARGER_ADDRESS TIMER [0x10]] @ bench_snap device_regs
     @ [Wr CHARGER_ADDRESS TIMER [0], Rd CHARGER_ADDRESS TIMER [0], Rd CHARGER_ADDRESS POWER [0x10]] @ bench_snap device_regs
     @ [Wr CHARGER_ADDRESS POWER [0x11], Rd CHARGER_ADDRESS POWER [0x11], Rd CHARGER_ADDRESS POWER [0x11]] @ bench_snap device_regs"
  let ?x = "Wr CHARGER_ADDRESS POWER [0x21]"
  obtain post where l: "bench_log4 = ?pre @ ?x # post" by (simp add: bench_log4_def boost_log_def)
  have x: "writes [?x] = [(CHARGER_ADDRESS, POWER, [0x21])]" by simp
  have v: "(0x21 :: u8) AND MODE_MASK = OTG_MODE" "(0x21 :: u8) AND BOOST_LIMIT \<noteq> 0" by (simp_all add: charger_defs)
  show ?thesis
    using port_boost_guarded[OF bench_run(3) bench_monitor4 l x v(1)] v(2) by blast
qed

text \<open>C10: The port is reported as a host only on fresh evidence. When a step of the monitor or the check
  of the host returns a host, the controller is ready, the negotiation is idle or complete, the
  reported state was read in a stable snapshot of this step, and either it shows a device that asks
  for power, the snapshot was the last access to the bus and the settling time of the boost is over,
  or the boost was read back as off after it. Whatever a step returns, the settling time it leaves ends
  when it did before, or 220 ms after the time of this step of the monitor; the check of the host
  never begins one.\<close>

theorem host_reported:
  assumes "host_run io h"
    and "monitor (logged io) now (h, (w, [])) = (r, (h', (w', l)))
       \<or> host_poll (logged io) (h, (w, [])) = (r, (h', (w', l)))"
  shows "(\<forall>st. r = Ok st \<and> is_host st \<longrightarrow>
        init_phase (init h') = Ready \<and> (phase (status (pd h')) = Idle \<or> phase (status (pd h')) = Complete)
        \<and> (\<exists>l1 l2. l = l1 @ l2 \<and> stable st l1
             \<and> (if can_source st then l2 = [] \<and> (\<exists>d. boost_ready_at h' = Some d \<and> d \<le> monitored_at h')
                else boost_off l2 \<and> saved_power (boost h') = None)))
    \<and> (\<forall>d. boost_ready_at h' = Some d \<longrightarrow>
        boost_ready_at h = Some d
        \<or> monitor (logged io) now (h, (w, [])) = (r, (h', (w', l))) \<and> d = sat_add now 220000000)"
proof (rule conjI, rule allI, rule impI, goal_cases)
  case (1 st)
  have ok: "parts_ok h" "settling_ok h" using host_run_ok[OF assms(1)] by simp_all
  have "reported h' st l"
    using assms(2)
  proof
    assume "monitor (logged io) now (h, (w, [])) = (r, (h', (w', l)))"
    from op_result[OF monitor_spec[OF ok] this] 1 show ?thesis by (auto simp: host_done_def host_mid_def)
  next
    assume "host_poll (logged io) (h, (w, [])) = (r, (h', (w', l)))"
    from op_result[OF host_poll_spec[OF ok] this] 1 show ?thesis by (auto simp: host_done_def host_mid_def)
  qed
  then obtain l1 l2 where "init_phase (init h') = Ready" "host_allowed (pd h')" "l = l1 @ l2" "stable st l1"
    "if can_source st then l2 = [] \<and> (\<exists>d. boost_ready_at h' = Some d \<and> d \<le> monitored_at h')
     else boost_off l2 \<and> saved_power (boost h') = None \<and> all_writes withdrawal_ok l2"
    using 1 unfolding reported_def by blast
  then have "init_phase (init h') = Ready \<and> (phase (status (pd h')) = Idle \<or> phase (status (pd h')) = Complete)
    \<and> (\<exists>l1 l2. l = l1 @ l2 \<and> stable st l1
         \<and> (if can_source st then l2 = [] \<and> (\<exists>d. boost_ready_at h' = Some d \<and> d \<le> monitored_at h')
            else boost_off l2 \<and> saved_power (boost h') = None))"
    by (intro conjI exI[of _ l1] exI[of _ l2]) (auto simp: host_allowed_def split: if_splits)
  then show ?case by simp
next
  case 2
  have "boost_ready_at h = Some d \<or> monitor (logged io) now (h, (w, [])) = (r, (h', (w', l))) \<and> d = sat_add now 220000000"
    if d: "boost_ready_at h' = Some d" for d
    using assms(2)
  proof
    assume m: "monitor (logged io) now (h, (w, [])) = (r, (h', (w', l)))"
    have "boost_ready_at h = Some d \<or> d = sat_add now 220000000" by (rule settle_end[OF moves_monitor m d])
    then show ?thesis using m by blast
  next
    assume poll: "host_poll (logged io) (h, (w, [])) = (r, (h', (w', l)))"
    have "boost_ready_at h = Some d \<or> d = sat_add t 220000000" for t
      by (rule settle_end[OF moves_host_poll poll d])
    from this[of 0] this[of 1] show ?thesis by (auto simp: sat_add_def)
  qed
  then show ?case by blast
qed

theorem host_reported_witness:
  "\<exists>l1 l2. bench_log3 = l1 @ l2 \<and> stable (from_registers 0x0680 0 0) l1 \<and> boost_off l2"
proof -
  have "is_host (from_registers 0x0680 0 0)" "\<not> can_source (from_registers 0x0680 0 0)"
    by (simp_all add: snapshot_defs)
  then show ?thesis using host_reported[OF bench_run(2) disjI1[OF bench_monitor3]] by auto
qed

text \<open>C16: Probing never starts the boost and writes nothing before the devices are identified. A probe of the
  port never panics; if it wrote anything, its first accesses read the maker, the device, a supported
  firmware revision and the identity of the charger. Whatever the devices answer, and on every error path,
  each write is one of two: to the power register of the charger a value that does not turn the boost on
  (its mode is not the boost, or the boost was on already in the read directly before and the value has
  the boost limit off), or to the first configuration word of the controller a value with both source
  paths switched off. If the probe succeeds, the boost was read back as off, after that only the source
  paths were written, which were read back as switched off, and the port starts in the state from which
  its runs are counted.\<close>

theorem probe_safe:
  assumes "probe (logged io) (w, []) = (r, (w', l))"
  shows "r \<noteq> Panic \<and> (writes l \<noteq> [] \<longrightarrow> identified l)
    \<and> (\<forall>pre x post a reg d. l = pre @ x # post \<and> writes [x] = [(a, reg, d)] \<longrightarrow>
         (\<exists>v. (a, reg, d) = (CHARGER_ADDRESS, POWER, [v]) \<and> v AND 0xc0 = 0
            \<and> (v AND MODE_MASK \<noteq> OTG_MODE
               \<or> v AND BOOST_LIMIT = 0
                 \<and> (\<exists>pre' old. pre = pre' @ [Rd CHARGER_ADDRESS POWER [old]] \<and> old AND MODE_MASK = OTG_MODE)))
         \<or> (\<exists>v. (a, reg, d) = (BM92T_ADDRESS, CONFIG1, to_le_bytes (v :: u16))
            \<and> v AND push_bit 14 3 = push_bit 14 3))
    \<and> (\<forall>i h. r = Ok (i, h) \<longrightarrow> identified l \<and> h = default_host
         \<and> (\<exists>l1 l2. l = l1 @ l2 \<and> boost_off l1 \<and> init_writes l2
              \<and> word_back CONFIG1 (push_bit 14 3) (push_bit 14 3) l2))"
proof -
  obtain r0 p where run: "probe_source (logged io) (default_source, (w, [])) = (r0, (p, (w', l)))"
    and r: "r = (case r0 of Ok i \<Rightarrow> Ok (i, default_host\<lparr>boost := p\<rparr>) | Err e \<Rightarrow> Err e | Panic \<Rightarrow> Panic)"
    using assms by (auto simp: probe_def default_host_def split: prod.splits outcome.splits)
  have post: "probe_post r0 p l" using op_result[OF probe_source_spec run] by simp
  have "boost default_host = default_source" by (simp add: default_host_def)
  then have host: "default_host\<lparr>boost := default_source\<rparr> = default_host" by simp
  have "probe_write pre (a, reg, d)" if "l = pre @ x # post" "writes [x] = [(a, reg, d)]" for pre x post a reg d
    using post that unfolding probe_post_def all_writes_def by blast
  then show ?thesis
    using post r host
    unfolding probe_write_def withdraw_only_def withdraws_def probe_post_def
    by (auto split: outcome.splits)
qed

definition probe_regs :: "u8 \<Rightarrow> u16" where
  "probe_regs = quiet_regs(MANUFACTURER_ID := 0x04b5, DEVICE_ID := 0x03b0, FW_REVISION := 0x0645)"

definition probe_log :: history where
  "probe_log = [Word MANUFACTURER_ID 0x04b5, Word DEVICE_ID 0x03b0, Word FW_TYPE 0, Word FW_REVISION 0x0645,
       Rd CHARGER_ADDRESS CHARGER_ID [0x2f]] @ bench_snap probe_regs
     @ [Rd CHARGER_ADDRESS POWER [0x10], Word CONFIG1 0, Wr BM92T_ADDRESS CONFIG1 (to_le_bytes (0xc000 :: u16)), Word CONFIG1 0xc000]"

lemma bench_probe:
  "probe (logged bench_io) ((probe_regs, idle_charger(CHARGER_ID := 0x2f)), []) =
     (Ok (\<lparr>firmware_type = 0, firmware_revision = 0x0645\<rparr>, default_host),
      ((probe_regs(CONFIG1 := 0xc000), idle_charger(CHARGER_ID := 0x2f)), probe_log))"
  by (simp add: probe_def probe_source_def identify_def bench_simps bench_defs probe_regs_def probe_log_def
      MANUFACTURER_ID_def DEVICE_ID_def FW_REVISION_def FW_TYPE_def CHARGER_ID_def word_le_nat_alt)

theorem probe_safe_witness:
  "identified probe_log \<and> (\<exists>l1 l2. probe_log = l1 @ l2 \<and> boost_off l1 \<and> init_writes l2)"
  using probe_safe[OF bench_probe] by auto

end
