(* ===== verification/Spec2Isabelle.thy ===== *)
theory Spec2Isabelle
  imports Verify_Claims Draw_Claims Image_Layout_Claims Image_Wire Image_Descriptor Shader_Pack Submit_Claims Scheduler_Claims Pd_Claims Port_Claims
begin

text \<open>
  Verification library of the Scarlet board support for the Nintendo Switch (Tegra210): the drivers
  under \<open>src/drivers\<close>, the data formats and checkers shared by the kernel drivers and their clients
  under \<open>src/shared\<close>, and the graphics backend of the clients under \<open>src/userspace\<close>.

  What is modelled.
  The development covers the code that decides what untrusted input the kernel accepts for the GPU, and
  the code that decides when the board puts power on a USB cable:

  1. Shader programs. A client sends a package with machine code (\<open>shared/maxwell-program-wire\<close>).
     \<open>Program_Wire\<close> models \<open>lib.rs\<close> (\<open>encode\<close>, \<open>decode_program\<close>, the 20 word hardware header built from the
     metadata), \<open>Opcodes\<close> models \<open>opcodes.rs\<close> (the table of 527 allowed instruction forms, built by the
     loops of the code), \<open>Verify\<close> models \<open>verify.rs\<close> (\<open>decode\<close> of one instruction, \<open>decode_all\<close>, and
     \<open>prove_control\<close>, the worklist that follows the reconvergence stack), and \<open>Draw_Wire\<close> models \<open>draw.rs\<close>
     (the metadata of a draw call). \<open>Draw_Fetch\<close> models the part of
     \<open>drivers/gpu/nvidia-gm20b/src/programmable_graphics.rs\<close> that prepares the indices of a draw and compares the
     vertices it fetches with the ranges it declared; the trait \<open>Authority\<close> is a parameter.
  2. Submissions. \<open>Submit_Wire\<close> models \<open>shared/maxwell-submit-wire/src/lib.rs\<close>: command words, resources
     and relocations in one payload, its encoder and its checked decoder.
  3. Images. \<open>Image_Layout\<close>, \<open>Image_Wire\<close> and \<open>Image_Descriptor\<close> model \<open>shared/maxwell-image-layout\<close>: the
     checked placement of mip levels and layers, the block-linear address of a byte, the transfer record
     and the texture descriptor words. \<open>Float32\<close> reads single precision bit patterns as rationals.
  4. The fixed shaders. \<open>Shader_Pack\<close> models \<open>shared/maxwell-shader-pack/src/lib.rs\<close>.
  5. The queue. \<open>Scheduler\<close> models \<open>userspace/sgfx-backend-scarlet-maxwell/src/scheduler.rs\<close>: logical
     submissions cut into chunks, dispatched in order below an in-flight limit. The trait \<open>Transport\<close> is a
     record of functions over an outside world of any type.
  6. The Type-C port. \<open>Typec\<close>, \<open>Port_Source\<close>, \<open>Port_Host\<close> and \<open>Port_Probe\<close> model
     \<open>drivers/usb/tegra210-xusb/src/typec.rs\<close> (registers, stable snapshot, identification, the policy that powers an
     attached device, initialization, the monitor over the state behind the one lock of the port, and
     the probe), \<open>Charger\<close> models \<open>charger.rs\<close> (the BQ24193 and its charging work), \<open>Pd_Policy\<close> and
     \<open>Pd_Poll\<close> model \<open>pd.rs\<close> (the negotiation of a power contract and of the data role). The trait
     \<open>Registers\<close> is a record of functions over an outside world; the I2C bus behind it is a parameter.

  The parts interact through data (a draw names the attributes and resources of a verified program, a
  relocation names a page of the shader pack, a texture descriptor is made of a planned layout) and, in
  the port, through one state: \<open>HostPolicy\<close> holds the source policy, the initialization, the power
  delivery policy and the charging work, and the monitor runs them in the order of the code.

  How the code is read.
  Rust's \<open>Result\<close> is \<open>outcome\<close> (\<open>Prelude\<close>), whose third constructor \<open>Panic\<close> is a panic; a claim that
  something never panics is therefore a statement about the model. Words keep their width and wrap;
  \<open>usize\<close> is a natural number with its 64 bit bound written out where the code checks it. \<open>Bytes\<close> holds
  little endian fields, the lists of stores an encoder makes, and the locales \<open>wire_format\<close> and
  \<open>canonical_wire_format\<close> that each wire format interprets. \<open>Machine\<close> holds the integer operations of
  Rust that the code uses. A method with \<open>&mut self\<close> is an \<open>action\<close> (\<open>Action\<close>): it takes the state and
  returns an outcome and the new state, which is kept on every error path. The messages of the drivers
  are strings, since the code carries them in its results.

  What the theorems show.
  \<open>Verify_Control\<close> states what an accepted program may do as an abstract machine with an unbounded stack
  of frames, and a specification of acceptance as a least fixed point without worklist; \<open>Verify_Props\<close> and
  \<open>Verify_Claims\<close> prove the worklist equal to it, and with it that accepted programs stay in their code,
  never underflow the stack, are never stuck before an exit and only name authorised operands.
  \<open>Recognition\<close> and \<open>Recognition_Claims\<close> prove by a decision tree on the fixed bits that no two
  instruction forms overlap and that no memory instruction is among them, with any modifier bits the
  compiler's encoder puts inside its opcode. \<open>Draw_Props\<close> and \<open>Draw_Claims\<close>
  give the declarative specification of an accepted draw, and, with \<open>Draw_Fetch\<close>, the bounds of what it fetches; \<open>Submit_Props\<close>, \<open>Submit_Roundtrip\<close> and
  \<open>Submit_Claims\<close> that of a submission, with the round trip; \<open>Program_Props\<close> and \<open>Program_Claims\<close> the
  canonical form of packages and the fields of the header. \<open>Image_Layout_Plan\<close> is the abstract plan on natural numbers
  that \<open>plan\<close> refines, \<open>Image_Address\<close> the bijection between the bytes of a level and its storage, and
  \<open>Image_Layout_Props\<close> and \<open>Image_Layout_Claims\<close> the consequences for transfers.
  \<open>Scheduler_Props\<close> and \<open>Scheduler_Claims\<close> prove an invariant of all runs of the queue, against a log of what
  its transport was told, and that an answering transport lets it drain.
  For the port, \<open>Typec_Log\<close> records the history of the bus beside any world; \<open>Op_Spec\<close>, \<open>Typec_Ops\<close> and
  \<open>Bus_Guard\<close> are the proof rules for operations over such a history. \<open>Pd_Contract\<close>, \<open>Pd_Props\<close>,
  \<open>Pd_Session\<close>, \<open>Pd_Steps\<close>, \<open>Pd_Monitor\<close>, \<open>Pd_Run\<close> and \<open>Pd_Claims\<close> prove the order and the evidence of the
  messages of a negotiation in all reachable states. \<open>Source_Props\<close>, \<open>Init_Props\<close>, \<open>Charger_Props\<close>,
  \<open>Charge_Props\<close>, \<open>Host_Props\<close>, \<open>Host_Steps\<close>, \<open>Host_Monitor\<close> and \<open>Host_Settle\<close> do the same for the other parts and their
  composition, and \<open>Port_Claims\<close> holds the properties: a write that selects the boost, or enables charging,
  rests on a stable, fault-free snapshot read directly before it, whatever the devices answer; the probe
  makes no write that turns the boost on; and the high impedance of a sink below 500 mA ends only after
  its limit was read back.
  \<open>Pd_Sample\<close> and \<open>Port_Sample\<close> run the model against concrete devices; the theorems on runs are
  applied there.

  Bounds and fuel.
  \<open>prove_control\<close> recurses with a measure: the number of (instruction, stack) states not yet seen, which
  is finite because the code bounds the stack at 16 entries; it is a total function and needs no fuel. A program
  has at most 64 KiB of code, which bounds the addresses. The decision tree of \<open>Recognition\<close> has the 64
  bits of an instruction as its keys. The stable snapshot of the port reads at most three times, as the
  code does, and the other loops run over lists or counters of the code. The world, the clock and the
  devices are arbitrary, so nothing bounds how often an operation is called; the reachable states are
  inductive relations (\<open>pd_run\<close>, \<open>host_run\<close>, \<open>scheduler_run\<close>), and the statements hold in all of them.

  Not modelled.
  Register sequences and firmware loading of the device drivers (display, audio, SD, PCIe, clocks and power domains,
  video decoding, the XUSB controller itself, the wireless network): their content is the order of raw accesses
  to hardware whose behaviour is not in the repository, so that a model would have nothing to be compared with.
  The GPU driver beyond the formats it checks and the vertex ranges. The shader compiler (\<open>shared/sgfx-nak\<close> and its two
  front ends): a port of the Mesa compiler, whose output the verifier above does not trust. The
  graphics backend of the clients beyond its queue. Device tree parsing, task creation and locks of the kernel:
  the code of the kernel is not in the repository; each modelled operation runs under its lock and is one atomic step.
\<close>

end
